(* ===== verification/Hss_Base.thy ===== *)
theory Hss_Base
  imports Main "HOL-Library.Word" "HOL-Library.Monad_Syntax"
begin

text \<open>
  The shared prelude of the Hart Software Services (HSS) model.

  It holds the machine integer types, the hart identifiers of
  \<open>include/hss_types.h\<close>, memory as a byte map, and the generic lemmas on lists,
  words and memories that the component theories share.

  Conventions of the whole development:
  \<^item> an \<open>assert\<close> that fails ends in \<open>__assert_func\<close>, which never returns
    (\<open>modules/misc/assert.c\<close>), so an operation with an assertion returns an
    \<open>option\<close> whose value \<open>None\<close> is "halted";
  \<^item> \<open>bool\<close> results with out-parameters become pairs or options;
  \<^item> \<open>size_t\<close> counters that index an array are \<open>nat\<close>; values whose
    wrap-around can be observed are words of their C width.
\<close>

unbundle bit_operations_syntax

named_theorems hss_inv \<open>operations keep the invariant of their component\<close>
named_theorems hss_frame \<open>what an operation leaves alone\<close>

section \<open>Machine integers\<close>

type_synonym u8 = "8 word"
type_synonym u16 = "16 word"
type_synonym u32 = "32 word"
type_synonym u64 = "64 word"

section \<open>Harts\<close>

text \<open>
  \<open>enum HSSHartId\<close> is used as an array index and as a loop counter throughout the
  code, so a hart is the number of its enumerator.
\<close>

type_synonym hart_id = nat

abbreviation (input) HSS_HART_E51 :: hart_id where "HSS_HART_E51 \<equiv> 0"
abbreviation (input) HSS_HART_U54_1 :: hart_id where "HSS_HART_U54_1 \<equiv> 1"
abbreviation (input) HSS_HART_U54_2 :: hart_id where "HSS_HART_U54_2 \<equiv> 2"
abbreviation (input) HSS_HART_U54_3 :: hart_id where "HSS_HART_U54_3 \<equiv> 3"
abbreviation (input) HSS_HART_U54_4 :: hart_id where "HSS_HART_U54_4 \<equiv> 4"
abbreviation (input) HSS_HART_NUM_PEERS :: nat where "HSS_HART_NUM_PEERS \<equiv> 5"
abbreviation (input) HSS_HART_ALL :: hart_id where "HSS_HART_ALL \<equiv> 5"
abbreviation (input) MAX_NUM_HARTS :: nat where "MAX_NUM_HARTS \<equiv> 5"

abbreviation (input) mHSS_BITMASK_ALL_U54 :: u32 where "mHSS_BITMASK_ALL_U54 \<equiv> 0x1E"

section \<open>Lists\<close>

text \<open>The first index at which a list satisfies a predicate.\<close>

fun find_index :: "('a \<Rightarrow> bool) \<Rightarrow> 'a list \<Rightarrow> nat option" where
  "find_index P [] = None"
| "find_index P (x # xs) = (if P x then Some 0 else map_option Suc (find_index P xs))"

lemma find_index_None_iff: "find_index P xs = None \<longleftrightarrow> (\<forall>x\<in>set xs. \<not> P x)"
  by (induction xs) auto

lemma find_index_SomeD:
  "find_index P xs = Some i \<Longrightarrow> i < length xs \<and> P (xs ! i) \<and> (\<forall>j<i. \<not> P (xs ! j))"
proof (induction xs arbitrary: i)
  case Nil
  then show ?case by simp
next
  case (Cons x xs)
  show ?case
  proof (cases "P x")
    case True
    with Cons.prems show ?thesis by simp
  next
    case False
    with Cons.prems obtain k where k: "find_index P xs = Some k" "i = Suc k" by auto
    with Cons.IH [OF k(1)] False show ?thesis by (auto simp: less_Suc_eq_0_disj)
  qed
qed

lemma find_index_SomeI:
  "i < length xs \<Longrightarrow> P (xs ! i) \<Longrightarrow> (\<forall>j<i. \<not> P (xs ! j)) \<Longrightarrow> find_index P xs = Some i"
proof (induction xs arbitrary: i)
  case Nil
  then show ?case by simp
next
  case (Cons x xs)
  show ?case
  proof (cases i)
    case 0
    with Cons.prems show ?thesis by simp
  next
    case (Suc k)
    have "\<forall>j<k. \<not> P (xs ! j)" using Cons.prems(3) Suc by fastforce
    then have "find_index P xs = Some k" using Cons.IH Cons.prems Suc by simp
    moreover have "\<not> P x" using Cons.prems(3) Suc by fastforce
    ultimately show ?thesis using Suc by simp
  qed
qed

lemma find_index_Some_iff:
  "find_index P xs = Some i \<longleftrightarrow> i < length xs \<and> P (xs ! i) \<and> (\<forall>j<i. \<not> P (xs ! j))"
  using find_index_SomeD find_index_SomeI by metis

lemma find_index_ex:
  "x \<in> set xs \<Longrightarrow> P x \<Longrightarrow> \<exists>i. find_index P xs = Some i"
  using find_index_None_iff [of P xs] by (cases "find_index P xs") auto

text \<open>Overwriting a stretch of a list, as \<open>memcpy\<close> into an array does.\<close>

definition splice :: "'a list \<Rightarrow> nat \<Rightarrow> 'a list \<Rightarrow> 'a list" where
  "splice xs off ys = take off xs @ ys @ drop (off + length ys) xs"

lemma length_splice [simp]:
  "off + length ys \<le> length xs \<Longrightarrow> length (splice xs off ys) = length xs"
  by (simp add: splice_def)

lemma take_splice_prefix [simp]: "n \<le> off \<Longrightarrow> off \<le> length xs \<Longrightarrow> take n (splice xs off ys) = take n xs"
  by (simp add: splice_def)

lemma take_splice:
  "off \<le> length xs \<Longrightarrow> take (off + length ys) (splice xs off ys) = take off xs @ ys"
  by (simp add: splice_def)

lemma drop_splice:
  "off \<le> length xs \<Longrightarrow> off + length ys \<le> n \<Longrightarrow> drop n (splice xs off ys) = drop n xs"
  by (simp add: splice_def)

text \<open>A copy into a buffer; one that would leave the buffer is \<open>None\<close>.\<close>

definition memcpy_to :: "nat \<Rightarrow> 'a list \<Rightarrow> 'a list \<Rightarrow> 'a list option" where
  "memcpy_to off bs buf = (if off + length bs \<le> length buf then Some (splice buf off bs) else None)"

text \<open>A stretch of a buffer; one that would leave the buffer is \<open>None\<close>.\<close>

definition slice :: "nat \<Rightarrow> nat \<Rightarrow> 'a list \<Rightarrow> 'a list option" where
  "slice off n buf = (if off + n \<le> length buf then Some (take n (drop off buf)) else None)"

section \<open>Words\<close>

lemma xor_right_cancel: "(a :: 'a::len word) XOR c = b XOR c \<longleftrightarrow> a = b"
  by (metis xor.assoc xor_self_eq xor.right_neutral)

lemma xor_left_cancel: "(c :: 'a::len word) XOR a = c XOR b \<longleftrightarrow> a = b"
  by (metis xor.assoc xor_self_eq xor.left_neutral)

text \<open>Little-endian numbers in byte lists.\<close>

fun le_nat :: "8 word list \<Rightarrow> nat" where
  "le_nat [] = 0"
| "le_nat (b # bs) = unat b + 256 * le_nat bs"

definition le_at :: "nat \<Rightarrow> nat \<Rightarrow> 8 word list \<Rightarrow> nat" where
  "le_at off n bs = le_nat (take n (drop off bs))"

fun le_bytes :: "nat \<Rightarrow> nat \<Rightarrow> 8 word list" where
  "le_bytes 0 x = []"
| "le_bytes (Suc n) x = of_nat (x mod 256) # le_bytes n (x div 256)"

lemma length_le_bytes [simp]: "length (le_bytes n x) = n"
  by (induction n arbitrary: x) auto

lemma le_nat_less: "le_nat bs < 256 ^ length bs"
proof (induction bs)
  case Nil
  then show ?case by simp
next
  case (Cons b bs)
  have "unat b < 256" using unsigned_less [of b] by simp
  then show ?case using Cons by simp
qed

lemma le_nat_le_bytes: "x < 256 ^ n \<Longrightarrow> le_nat (le_bytes n x) = x"
proof (induction n arbitrary: x)
  case 0
  then show ?case by simp
next
  case (Suc n)
  have "x div 256 < 256 ^ n" using Suc.prems by (simp add: less_mult_imp_div_less mult.commute)
  moreover have "unat (of_nat (x mod 256) :: 8 word) = x mod 256"
    by (subst unat_of_nat) simp
  ultimately show ?case using Suc.IH [of "x div 256"] by simp
qed

text \<open>Changed bytes.\<close>

lemma le_nat_inj: "length xs = length ys \<Longrightarrow> le_nat xs = le_nat ys \<Longrightarrow> xs = ys"
proof (induction xs ys rule: list_induct2)
  case Nil
  then show ?case by simp
next
  case (Cons x xs y ys)
  have "unat x < 256" "unat y < 256" using unsigned_less [of x] unsigned_less [of y] by simp_all
  have "(unat x + 256 * le_nat xs) mod 256 = (unat y + 256 * le_nat ys) mod 256"
    using Cons.prems by simp
  with \<open>unat x < 256\<close> \<open>unat y < 256\<close> have "unat x = unat y" by simp
  with Cons.prems have "unat x = unat y \<and> le_nat xs = le_nat ys" by simp
  then show ?case using Cons.IH by (simp add: word_unat_eq_iff)
qed

lemma le_field_changed:
  fixes xs :: "u8 list"
  assumes "off \<le> p" "p < off + 4" "off + 4 \<le> length xs" "b \<noteq> xs ! p"
  shows "(of_nat (le_at off 4 (xs[p := b])) :: u32) \<noteq> of_nat (le_at off 4 xs)"
proof
  assume e: "(of_nat (le_at off 4 (xs[p := b])) :: u32) = of_nat (le_at off 4 xs)"
  have lt: "le_at off 4 ys < 2 ^ 32" if "length ys = length xs" for ys :: "u8 list"
  proof -
    have "le_at off 4 ys < 256 ^ length (take 4 (drop off ys))" unfolding le_at_def by (rule le_nat_less)
    also have "\<dots> \<le> 256 ^ 4" by (rule power_increasing) simp_all
    finally show ?thesis by simp
  qed
  have "le_at off 4 (xs[p := b]) = le_at off 4 xs"
    using e lt [of xs] lt [of "xs[p := b]"] by (simp add: word_of_nat_eq_iff take_bit_nat_eq_self)
  then have "take 4 (drop off (xs[p := b])) = take 4 (drop off xs)"
    unfolding le_at_def using assms by (intro le_nat_inj) simp_all
  then have "take 4 (drop off (xs[p := b])) ! (p - off) = take 4 (drop off xs) ! (p - off)" by simp
  then show False using assms by simp
qed

lemma le_field_same:
  "p < off \<or> off + n \<le> p \<Longrightarrow> le_at off n (xs[p := b]) = le_at off n xs"
  by (auto simp: le_at_def drop_update_swap)

lemma splice_update:
  assumes "p < off \<or> off + length zs \<le> p" "off + length zs \<le> length xs"
  shows "splice (xs[p := b]) off zs = (splice xs off zs)[p := b]"
proof (rule nth_equalityI)
  show "length (splice (xs[p := b]) off zs) = length ((splice xs off zs)[p := b])"
    using assms(2) by simp
  fix i assume i: "i < length (splice (xs[p := b]) off zs)"
  show "splice (xs[p := b]) off zs ! i = (splice xs off zs)[p := b] ! i"
    using assms i by (cases "i = p") (auto simp: splice_def nth_append min_def)
qed

section \<open>Memory\<close>

text \<open>
  Physical memory is a map from 64-bit addresses to bytes; addresses wrap as
  \<open>uintptr_t\<close> arithmetic does.
\<close>

type_synonym memory = "u64 \<Rightarrow> u8"

fun mem_read :: "memory \<Rightarrow> u64 \<Rightarrow> nat \<Rightarrow> u8 list" where
  "mem_read m a 0 = []"
| "mem_read m a (Suc n) = m a # mem_read m (a + 1) n"

fun mem_write :: "memory \<Rightarrow> u64 \<Rightarrow> u8 list \<Rightarrow> memory" where
  "mem_write m a [] = m"
| "mem_write m a (b # bs) = mem_write (m(a := b)) (a + 1) bs"

lemma length_mem_read [simp]: "length (mem_read m a n) = n"
  by (induction n arbitrary: a) auto

lemma mem_write_other:
  "(\<forall>k < length bs. x \<noteq> a + of_nat k) \<Longrightarrow> mem_write m a bs x = m x"
proof (induction bs arbitrary: a m)
  case Nil
  then show ?case by simp
next
  case (Cons b bs)
  have "x \<noteq> a" using Cons.prems [rule_format, of 0] by simp
  moreover have "\<forall>k < length bs. x \<noteq> (a + 1) + of_nat k"
    using Cons.prems by (auto simp: add.assoc dest: spec [of _ "Suc _"])
  ultimately show ?case using Cons.IH by simp
qed

lemma of_nat_u64_inj:
  "i < 2 ^ 64 \<Longrightarrow> j < 2 ^ 64 \<Longrightarrow> (of_nat i :: u64) = of_nat j \<longleftrightarrow> i = j"
  by (simp add: word_of_nat_eq_iff take_bit_nat_eq_self)

lemma mem_write_nth:
  "k < length bs \<Longrightarrow> length bs \<le> 2 ^ 64 \<Longrightarrow> mem_write m a bs (a + of_nat k) = bs ! k"
proof (induction bs arbitrary: a m k)
  case Nil
  then show ?case by simp
next
  case (Cons b bs)
  show ?case
  proof (cases k)
    case 0
    have "\<forall>j < length bs. a \<noteq> (a + 1) + of_nat j"
    proof (intro allI impI)
      fix j assume "j < length bs"
      then have j: "Suc j < 2 ^ 64" using Cons.prems(2) by simp
      have "(of_nat (Suc j) :: u64) \<noteq> of_nat 0"
        using of_nat_u64_inj [of "Suc j" 0] j by simp
      then show "a \<noteq> (a + 1) + of_nat j" by (simp add: add.assoc)
    qed
    then show ?thesis using 0 by (simp add: mem_write_other)
  next
    case (Suc j)
    have "mem_write (m(a := b)) (a + 1) bs ((a + 1) + of_nat j) = bs ! j"
      using Cons.IH [of j "m(a := b)" "a + 1"] Cons.prems Suc by (simp del: fun_upd_apply)
    then show ?thesis using Suc by (simp add: add.assoc del: fun_upd_apply)
  qed
qed

lemma nth_mem_read: "i < n \<Longrightarrow> mem_read m a n ! i = m (a + of_nat i)"
proof (induction n arbitrary: a i)
  case 0
  then show ?case by simp
next
  case (Suc n)
  then show ?case by (cases i) (simp_all add: add.assoc)
qed

lemma mem_read_update:
  assumes "k < n" "n \<le> 2 ^ 64"
  shows "mem_read (m(a + of_nat k := b)) a n = (mem_read m a n)[k := b]"
proof (rule nth_equalityI)
  show "length (mem_read (m(a + of_nat k := b)) a n) = length ((mem_read m a n)[k := b])" by simp
  fix i assume "i < length (mem_read (m(a + of_nat k := b)) a n)"
  then have i: "i < n" by simp
  have "(of_nat i :: u64) = of_nat k \<longleftrightarrow> i = k" using of_nat_u64_inj [of i k] i assms by simp
  then show "mem_read (m(a + of_nat k := b)) a n ! i = (mem_read m a n)[k := b] ! i"
    using i by (simp add: nth_mem_read nth_list_update)
qed

lemma mem_read_cong:
  "(\<And>i. i < n \<Longrightarrow> m (a + of_nat i) = m' (a + of_nat i)) \<Longrightarrow> mem_read m a n = mem_read m' a n"
  by (intro nth_equalityI) (simp_all add: nth_mem_read)

lemma mem_read_write: "length bs \<le> 2 ^ 64 \<Longrightarrow> mem_read (mem_write m a bs) a (length bs) = bs"
  by (intro nth_equalityI) (simp_all add: nth_mem_read mem_write_nth)

end
