(* ===== verification/Trigger.thy ===== *)
theory Trigger
  imports Hss_Base
begin

text \<open>
  Time and the event latches: \<open>application/hart0/hss_clock.c\<close> and
  \<open>modules/misc/hss_trigger.c\<close>.

  The clock is an input: an operation that reads \<open>HSS_GetTime\<close> takes the value read
  as an argument. The locale \<open>event_latch\<close> is the interface through which the
  services use the triggers (boot, DDR, health monitor, IPI polling wait for events that
  other services notify).
\<close>

section \<open>Clock\<close>

text \<open>\<open>now\<close> is the value \<open>HSS_GetTime()\<close> returns; the sum wraps as
  \<open>uint64_t\<close> does.\<close>

definition HSS_Timer_IsElapsed :: "u64 \<Rightarrow> u64 \<Rightarrow> u64 \<Rightarrow> bool" where
  "HSS_Timer_IsElapsed now startTick durationInTicks \<longleftrightarrow> now > startTick + durationInTicks"

lemma timer_not_elapsed_at_start:
  "unat now + unat d < 2 ^ 64 \<Longrightarrow> \<not> HSS_Timer_IsElapsed now now d"
  by (simp add: HSS_Timer_IsElapsed_def not_less word_le_nat_alt unat_word_ariths)

section \<open>Triggers\<close>

datatype HSS_Event =
    EVENT_OPENSBI_INITIALIZED
  | EVENT_IPI_INITIALIZED
  | EVENT_DDR_TRAINED
  | EVENT_STARTUP_COMPLETE
  | EVENT_USBDMSC_REQUESTED
  | EVENT_POST_BOOT
  | EVENT_BOOT_STARTED
  | EVENT_BOOT_COMPLETE
  | EVENT_HART_STATE_CHANGED
  | EVENT_HEALTHMON

text \<open>Each \<open>atomic_t\<close> is only ever written 0 or 1, so it is a \<open>bool\<close>.\<close>

record HSS_Triggers =
  opensbi_initialized :: bool
  ipi_initialized :: bool
  ddr_trained :: bool
  startup_complete :: bool
  usbdmsc_requested :: bool
  post_boot :: bool
  boot_complete :: bool
  hart_state_changed :: bool
  healthmon :: bool

definition triggerStatus_init :: HSS_Triggers where
  "triggerStatus_init =
     \<lparr>opensbi_initialized = False, ipi_initialized = False, ddr_trained = False,
      startup_complete = False, usbdmsc_requested = False, post_boot = False,
      boot_complete = False, hart_state_changed = False, healthmon = False\<rparr>"

fun HSS_Trigger_Notify :: "HSS_Event \<Rightarrow> HSS_Triggers \<Rightarrow> HSS_Triggers" where
  "HSS_Trigger_Notify EVENT_OPENSBI_INITIALIZED t = t\<lparr>opensbi_initialized := True\<rparr>"
| "HSS_Trigger_Notify EVENT_IPI_INITIALIZED t = t\<lparr>ipi_initialized := True\<rparr>"
| "HSS_Trigger_Notify EVENT_DDR_TRAINED t = t\<lparr>ddr_trained := True\<rparr>"
| "HSS_Trigger_Notify EVENT_STARTUP_COMPLETE t = t\<lparr>startup_complete := True\<rparr>"
| "HSS_Trigger_Notify EVENT_USBDMSC_REQUESTED t = t\<lparr>usbdmsc_requested := True\<rparr>"
| "HSS_Trigger_Notify EVENT_POST_BOOT t = t\<lparr>post_boot := True\<rparr>"
| "HSS_Trigger_Notify EVENT_BOOT_COMPLETE t = t\<lparr>boot_complete := True\<rparr>"
| "HSS_Trigger_Notify _ t = t"

text \<open>\<open>service_ddr\<close> is \<open>IS_ENABLED(CONFIG_SERVICE_DDR)\<close>.\<close>

fun HSS_Trigger_IsNotified :: "bool \<Rightarrow> HSS_Event \<Rightarrow> HSS_Triggers \<Rightarrow> bool" where
  "HSS_Trigger_IsNotified service_ddr EVENT_OPENSBI_INITIALIZED t = opensbi_initialized t"
| "HSS_Trigger_IsNotified service_ddr EVENT_IPI_INITIALIZED t = ipi_initialized t"
| "HSS_Trigger_IsNotified service_ddr EVENT_DDR_TRAINED t =
     (if ddr_trained t then True else \<not> service_ddr)"
| "HSS_Trigger_IsNotified service_ddr EVENT_STARTUP_COMPLETE t = startup_complete t"
| "HSS_Trigger_IsNotified service_ddr EVENT_USBDMSC_REQUESTED t = usbdmsc_requested t"
| "HSS_Trigger_IsNotified service_ddr EVENT_POST_BOOT t = post_boot t"
| "HSS_Trigger_IsNotified service_ddr EVENT_BOOT_COMPLETE t = boot_complete t"
| "HSS_Trigger_IsNotified service_ddr _ t = False"

fun HSS_Trigger_Clear :: "HSS_Event \<Rightarrow> HSS_Triggers \<Rightarrow> HSS_Triggers" where
  "HSS_Trigger_Clear EVENT_OPENSBI_INITIALIZED t = t\<lparr>opensbi_initialized := False\<rparr>"
| "HSS_Trigger_Clear EVENT_IPI_INITIALIZED t = t\<lparr>ipi_initialized := False\<rparr>"
| "HSS_Trigger_Clear EVENT_DDR_TRAINED t = t\<lparr>ddr_trained := False\<rparr>"
| "HSS_Trigger_Clear EVENT_STARTUP_COMPLETE t = t\<lparr>startup_complete := False\<rparr>"
| "HSS_Trigger_Clear EVENT_USBDMSC_REQUESTED t = t\<lparr>usbdmsc_requested := False\<rparr>"
| "HSS_Trigger_Clear EVENT_POST_BOOT t = t\<lparr>post_boot := False\<rparr>"
| "HSS_Trigger_Clear EVENT_BOOT_COMPLETE t = t\<lparr>boot_complete := False\<rparr>"
| "HSS_Trigger_Clear _ t = t"

section \<open>The latch interface\<close>

text \<open>
  \<open>backed e\<close>: the event has a latch behind it. Three events of the enumeration have
  none in the code's \<open>switch\<close> statements; waiting for one of them waits for ever.
\<close>

locale event_latch =
  fixes notify clear :: "'e \<Rightarrow> 's \<Rightarrow> 's"
    and notified :: "'e \<Rightarrow> 's \<Rightarrow> bool"
    and backed :: "'e \<Rightarrow> bool"
  assumes notified_notify: "backed e \<Longrightarrow> notified e (notify e s)"
    and notified_notify_other: "e \<noteq> e' \<Longrightarrow> notified e' (notify e s) = notified e' s"
    and notified_clear_other: "e \<noteq> e' \<Longrightarrow> notified e' (clear e s) = notified e' s"
    and notified_unbacked: "\<not> backed e \<Longrightarrow> \<not> notified e s"
begin

lemma notify_keeps: "notified e s \<Longrightarrow> notified e (notify e' s)"
  by (cases "e' = e") (metis notified_notify notified_unbacked, simp add: notified_notify_other)

lemma notify_all:
  "notified e (fold notify es s) \<longleftrightarrow> notified e s \<or> (e \<in> set es \<and> backed e)"
proof (induction es arbitrary: s)
  case Nil
  then show ?case by simp
next
  case (Cons d es)
  have "notified e (notify d s) \<longleftrightarrow> notified e s \<or> (e = d \<and> backed e)"
    by (metis notified_notify notified_notify_other notified_unbacked)
  then show ?case by (auto simp: Cons.IH)
qed

lemma unbacked_never: "\<not> backed e \<Longrightarrow> \<not> notified e (fold notify es s)"
  by (rule notified_unbacked)

end

fun trigger_backed :: "HSS_Event \<Rightarrow> bool" where
  "trigger_backed EVENT_BOOT_STARTED = False"
| "trigger_backed EVENT_HART_STATE_CHANGED = False"
| "trigger_backed EVENT_HEALTHMON = False"
| "trigger_backed _ = True"

interpretation trig: event_latch HSS_Trigger_Notify HSS_Trigger_Clear
  "HSS_Trigger_IsNotified d" trigger_backed
  for d
proof unfold_locales
  fix e e' :: HSS_Event and s :: HSS_Triggers
  show "trigger_backed e \<Longrightarrow> HSS_Trigger_IsNotified d e (HSS_Trigger_Notify e s)"
    by (cases e) simp_all
  show "e \<noteq> e' \<Longrightarrow> HSS_Trigger_IsNotified d e' (HSS_Trigger_Notify e s) = HSS_Trigger_IsNotified d e' s"
    by (cases e; cases e') simp_all
  show "e \<noteq> e' \<Longrightarrow> HSS_Trigger_IsNotified d e' (HSS_Trigger_Clear e s) = HSS_Trigger_IsNotified d e' s"
    by (cases e; cases e') simp_all
  show "\<not> trigger_backed e \<Longrightarrow> \<not> HSS_Trigger_IsNotified d e s"
    by (cases e) simp_all
qed

lemma trigger_cleared:
  "e \<noteq> EVENT_DDR_TRAINED \<or> d \<Longrightarrow> \<not> HSS_Trigger_IsNotified d e (HSS_Trigger_Clear e s)"
  by (cases e) auto

text \<open>
  After any sequence of notifications an event reads as notified exactly when it was
  before or is in the sequence, and it is one of the seven events the code latches: no
  notification is lost or disturbs another, and the other three events are never seen.
\<close>

theorem triggers_latch_exactly:
  "HSS_Trigger_IsNotified d e (fold HSS_Trigger_Notify es t) \<longleftrightarrow>
     HSS_Trigger_IsNotified d e t \<or>
     (e \<in> set es \<and> e \<notin> {EVENT_BOOT_STARTED, EVENT_HART_STATE_CHANGED, EVENT_HEALTHMON})"
proof -
  have "trigger_backed e \<longleftrightarrow> e \<notin> {EVENT_BOOT_STARTED, EVENT_HART_STATE_CHANGED, EVENT_HEALTHMON}"
    by (cases e) simp_all
  then show ?thesis using trig.notify_all by blast
qed

end
