(* ===== verification/State_Machine.thy ===== *)
theory State_Machine
  imports Hss_Base
begin

text \<open>
  The superloop engine, \<open>application/hart0/hss_state_machine.c\<close>: one step of a state
  machine, a pass over all registered machines, and the initialisation sequence. The hooks of
  a state are functions on the machine and a world \<open>'w\<close>, the state the service keeps;
  a hook that halts (a failed assertion) is \<open>None\<close>. Every service theory instantiates
  \<open>'w\<close> and interprets the locale \<open>service_machine\<close> on its own table.
\<close>

section \<open>Data\<close>

text \<open>\<open>struct StateMachine\<close>; \<open>stateType_t\<close> is a signed \<open>int\<close>. The
  name, the descriptor pointer and the unused tick fields are left out.\<close>

record StateMachine =
  state :: int
  prevState :: int
  numStates :: nat
  startTime :: u64
  lastExecutionTime :: u64
  maxExecutionTime :: u64
  maxState :: int
  lastDeltaExecutionTime :: u64
  executionCount :: u64

abbreviation (input) SM_INVALID_STATE :: int where "SM_INVALID_STATE \<equiv> - 1"

text \<open>The initialiser every service gives its machine.\<close>

definition machine_init :: "nat \<Rightarrow> StateMachine" where
  "machine_init n = \<lparr>state = 0, prevState = SM_INVALID_STATE, numStates = n, startTime = 0,
     lastExecutionTime = 0, maxExecutionTime = 0, maxState = 0, lastDeltaExecutionTime = 0,
     executionCount = 0\<rparr>"

type_synonym 'w hook = "StateMachine \<Rightarrow> 'w \<Rightarrow> (StateMachine \<times> 'w) option"

record 'w StateDesc =
  sd_state :: int
  state_onEntry :: "'w hook option"
  state_onExit :: "'w hook option"
  state_handler :: "'w hook option"

section \<open>Operations\<close>

definition IsValidState :: "StateMachine \<Rightarrow> int \<Rightarrow> bool" where
  "IsValidState m s \<longleftrightarrow> 0 \<le> s \<and> s < int (numStates m)"

text \<open>An array access at a state; outside the array nothing is defined.\<close>

definition desc_at :: "'w StateDesc list \<Rightarrow> int \<Rightarrow> 'w StateDesc option" where
  "desc_at ds s = (if 0 \<le> s \<and> nat s < length ds then Some (ds ! nat s) else None)"

definition run_hook :: "'w hook option \<Rightarrow> 'w hook" where
  "run_hook h m w = (case h of None \<Rightarrow> Some (m, w) | Some f \<Rightarrow> f m w)"

text \<open>The exit hook of the state that was left, if it is a valid one.\<close>

definition leave_state :: "'w StateDesc list \<Rightarrow> int \<Rightarrow> 'w hook" where
  "leave_state ds prev m w =
     (if IsValidState m prev then
        do { d \<leftarrow> desc_at ds prev;
             if sd_state d = prev then run_hook (state_onExit d) m w else None }
      else Some (m, w))"

text \<open>
  \<open>RunStateMachine\<close>: \<open>t0\<close> and \<open>t1\<close> are the two readings of the clock.
  Its three parts are the time stamps of a step that begins, the change of state, and the
  statistics of a step that ends.
\<close>

definition stamp_begin :: "u64 \<Rightarrow> StateMachine \<Rightarrow> StateMachine" where
  "stamp_begin t0 m =
     m\<lparr>startTime := (if startTime m = 0 then t0 else startTime m), lastExecutionTime := t0\<rparr>"

definition change_state :: "'w StateDesc list \<Rightarrow> 'w StateDesc \<Rightarrow> 'w hook" where
  "change_state ds d m w =
     (if prevState m \<noteq> state m then do {
        (m, w) \<leftarrow> leave_state ds (prevState m) m w;
        (m, w) \<leftarrow> run_hook (state_onEntry d) m w;
        Some (m\<lparr>executionCount := 0, prevState := state m\<rparr>, w) }
      else Some (m, w))"

definition stamp_end :: "u64 \<Rightarrow> u64 \<Rightarrow> StateMachine \<Rightarrow> StateMachine" where
  "stamp_end t0 t1 m =
     (let m = m\<lparr>executionCount := executionCount m + 1, lastDeltaExecutionTime := t1 - t0\<rparr>
      in if lastDeltaExecutionTime m > maxExecutionTime m then
           m\<lparr>maxExecutionTime := lastDeltaExecutionTime m, maxState := prevState m\<rparr>
         else m)"

definition RunStateMachine :: "'w StateDesc list \<Rightarrow> u64 \<Rightarrow> u64 \<Rightarrow> 'w hook" where
  "RunStateMachine ds t0 t1 m w =
     do { d \<leftarrow> desc_at ds (state m);
          if sd_state d \<noteq> state m then None else do {
            (m, w) \<leftarrow> change_state ds d (stamp_begin t0 m) w;
            (m, w) \<leftarrow> run_hook (state_handler d) m w;
            Some (stamp_end t0 t1 m, w) } }"

text \<open>
  \<open>RunStateMachines\<close> in the configuration with \<open>CONFIG_SERVICE_IPI_POLL\<close>
  (polling is the job of a service) and without the debug statistics. Each machine comes
  with its table and the two clock readings of its step.
\<close>

fun RunStateMachines :: "('w StateDesc list \<times> u64 \<times> u64) list \<Rightarrow> StateMachine list \<Rightarrow> u64 \<Rightarrow> 'w
    \<Rightarrow> (StateMachine list \<times> u64 \<times> 'w) option" where
  "RunStateMachines [] ms loopCount w = Some (ms, loopCount + 1, w)"
| "RunStateMachines (x # xs) [] loopCount w = Some ([], loopCount + 1, w)"
| "RunStateMachines ((ds, t0, t1) # xs) (m # ms) loopCount w =
     do { (m', w') \<leftarrow> RunStateMachine ds t0 t1 m w;
          (ms', c, w'') \<leftarrow> RunStateMachines xs ms loopCount w';
          Some (m' # ms', c, w'') }"

text \<open>
  \<open>RunInitFunctions\<close>. A failed function may halt the hart or restart it; the restart
  can be stopped by a key (\<open>keyPressed i\<close> is the answer of \<open>HSS_ShowTimeout\<close>
  at function \<open>i\<close>), and then the command line runs (\<open>cli\<close>).
\<close>

record 'w InitFunction =
  handler :: "'w \<Rightarrow> bool \<times> 'w"
  haltOnFailure :: bool
  restartOnFailure :: bool

datatype 'w InitOutcome = InitDone 'w | InitHalted nat 'w | InitRestarted nat 'w

fun RunInitFunctions :: "(nat \<Rightarrow> bool) \<Rightarrow> ('w \<Rightarrow> 'w) \<Rightarrow> nat \<Rightarrow> 'w InitFunction list \<Rightarrow> 'w \<Rightarrow> 'w InitOutcome"
  where
  "RunInitFunctions keyPressed cli i [] w = InitDone w"
| "RunInitFunctions keyPressed cli i (f # fs) w =
     (let (result, w') = handler f w in
      if result then RunInitFunctions keyPressed cli (Suc i) fs w'
      else if haltOnFailure f then InitHalted i w'
      else if restartOnFailure f then
        (if keyPressed i then RunInitFunctions keyPressed cli (Suc i) fs (cli w')
         else InitRestarted i w')
      else RunInitFunctions keyPressed cli (Suc i) fs w')"

section \<open>Lemmas on one step\<close>

named_theorems sm_simps \<open>rules that run a state machine step\<close>

lemma run_hook_None [simp, sm_simps]: "run_hook None m w = Some (m, w)"
  by (simp add: run_hook_def)

lemma run_hook_Some [simp, sm_simps]: "run_hook (Some f) m w = f m w"
  by (simp add: run_hook_def)

lemma desc_at_nth [simp]: "i < length ds \<Longrightarrow> desc_at ds (int i) = Some (ds ! i)"
  by (simp add: desc_at_def)

lemma desc_at_SomeD: "desc_at ds s = Some d \<Longrightarrow> 0 \<le> s \<and> nat s < length ds \<and> d = ds ! nat s"
  by (simp add: desc_at_def split: if_splits)

lemma stamp_begin_simps [simp]:
  "state (stamp_begin t m) = state m" "prevState (stamp_begin t m) = prevState m"
  "numStates (stamp_begin t m) = numStates m"
  by (simp_all add: stamp_begin_def)

lemma stamp_end_simps [simp]:
  "state (stamp_end t0 t1 m) = state m" "prevState (stamp_end t0 t1 m) = prevState m"
  "numStates (stamp_end t0 t1 m) = numStates m"
  by (simp_all add: stamp_end_def Let_def)

section \<open>Safety of a service\<close>

text \<open>
  The contract of a service's table: descriptor \<open>i\<close> is state \<open>i\<close>, and every
  hook, run on a machine in a state of the table and a world in the service's invariant,
  returns, leaves such a machine and keeps the invariant.
\<close>

definition machine_ok :: "'w StateDesc list \<Rightarrow> StateMachine \<Rightarrow> bool" where
  "machine_ok ds m \<longleftrightarrow> 0 \<le> state m \<and> nat (state m) < length ds \<and> numStates m \<le> length ds"

definition hook_ok :: "'w StateDesc list \<Rightarrow> ('w \<Rightarrow> bool) \<Rightarrow> 'w hook \<Rightarrow> bool" where
  "hook_ok ds Inv f \<longleftrightarrow> (\<forall>m w. machine_ok ds m \<and> Inv w \<longrightarrow>
     (\<exists>m' w'. f m w = Some (m', w') \<and> machine_ok ds m' \<and> Inv w'))"

definition desc_ok :: "'w StateDesc list \<Rightarrow> ('w \<Rightarrow> bool) \<Rightarrow> 'w StateDesc \<Rightarrow> bool" where
  "desc_ok ds Inv d \<longleftrightarrow>
     (\<forall>f. state_onEntry d = Some f \<or> state_onExit d = Some f \<or> state_handler d = Some f
        \<longrightarrow> hook_ok ds Inv f)"

definition hook_keeps :: "'w StateDesc list \<Rightarrow> ('w \<Rightarrow> bool) \<Rightarrow> 'w hook \<Rightarrow> bool" where
  "hook_keeps ds Inv f \<longleftrightarrow> (\<forall>m w m' w'. machine_ok ds m \<and> Inv w \<and> f m w = Some (m', w') \<longrightarrow>
     machine_ok ds m' \<and> Inv w')"

definition desc_keeps :: "'w StateDesc list \<Rightarrow> ('w \<Rightarrow> bool) \<Rightarrow> 'w StateDesc \<Rightarrow> bool" where
  "desc_keeps ds Inv d \<longleftrightarrow>
     (\<forall>f. state_onEntry d = Some f \<or> state_onExit d = Some f \<or> state_handler d = Some f
        \<longrightarrow> hook_keeps ds Inv f)"

lemma hook_keepsI:
  "(\<And>m w m' w'. machine_ok ds m \<Longrightarrow> Inv w \<Longrightarrow> f m w = Some (m', w') \<Longrightarrow> machine_ok ds m' \<and> Inv w')
    \<Longrightarrow> hook_keeps ds Inv f"
  by (auto simp: hook_keeps_def)

lemma hook_ok_keeps:
  assumes "hook_ok ds Inv f"
  shows "hook_keeps ds Inv f"
proof (rule hook_keepsI)
  fix m w m' w' assume "machine_ok ds m" "Inv w" "f m w = Some (m', w')"
  with assms show "machine_ok ds m' \<and> Inv w'" by (fastforce simp: hook_ok_def)
qed

lemma desc_ok_keeps: "desc_ok ds Inv d \<Longrightarrow> desc_keeps ds Inv d"
  by (auto simp: desc_ok_def desc_keeps_def intro: hook_ok_keeps)

lemma hook_okI:
  "(\<And>m w. machine_ok ds m \<Longrightarrow> Inv w \<Longrightarrow> \<exists>m' w'. f m w = Some (m', w') \<and> machine_ok ds m' \<and> Inv w')
    \<Longrightarrow> hook_ok ds Inv f"
  by (simp add: hook_ok_def)

lemma desc_okI:
  "(\<And>f. state_onEntry d = Some f \<Longrightarrow> hook_ok ds Inv f) \<Longrightarrow>
   (\<And>f. state_onExit d = Some f \<Longrightarrow> hook_ok ds Inv f) \<Longrightarrow>
   (\<And>f. state_handler d = Some f \<Longrightarrow> hook_ok ds Inv f) \<Longrightarrow> desc_ok ds Inv d"
  by (auto simp: desc_ok_def)

fun opt_hook_ok :: "'w StateDesc list \<Rightarrow> ('w \<Rightarrow> bool) \<Rightarrow> 'w hook option \<Rightarrow> bool" where
  "opt_hook_ok ds Inv None = True"
| "opt_hook_ok ds Inv (Some f) = hook_ok ds Inv f"

lemma desc_ok_entry:
  "desc_ok ds Inv \<lparr>sd_state = s, state_onEntry = a, state_onExit = b, state_handler = c\<rparr> \<longleftrightarrow>
     opt_hook_ok ds Inv a \<and> opt_hook_ok ds Inv b \<and> opt_hook_ok ds Inv c"
  by (cases a; cases b; cases c) (auto simp: desc_ok_def)

fun opt_hook_keeps :: "'w StateDesc list \<Rightarrow> ('w \<Rightarrow> bool) \<Rightarrow> 'w hook option \<Rightarrow> bool" where
  "opt_hook_keeps ds Inv None = True"
| "opt_hook_keeps ds Inv (Some f) = hook_keeps ds Inv f"

lemma desc_keeps_entry:
  "desc_keeps ds Inv \<lparr>sd_state = s, state_onEntry = a, state_onExit = b, state_handler = c\<rparr> \<longleftrightarrow>
     opt_hook_keeps ds Inv a \<and> opt_hook_keeps ds Inv b \<and> opt_hook_keeps ds Inv c"
  by (cases a; cases b; cases c) (auto simp: desc_keeps_def)

lemma machine_ok_bookkeeping [simp]:
  "machine_ok ds (m\<lparr>startTime := a\<rparr>) = machine_ok ds m"
  "machine_ok ds (m\<lparr>lastExecutionTime := a\<rparr>) = machine_ok ds m"
  "machine_ok ds (m\<lparr>executionCount := a\<rparr>) = machine_ok ds m"
  "machine_ok ds (m\<lparr>prevState := s\<rparr>) = machine_ok ds m"
  "machine_ok ds (m\<lparr>maxState := s\<rparr>) = machine_ok ds m"
  "machine_ok ds (m\<lparr>maxExecutionTime := a\<rparr>) = machine_ok ds m"
  "machine_ok ds (m\<lparr>lastDeltaExecutionTime := a\<rparr>) = machine_ok ds m"
  by (simp_all add: machine_ok_def)

lemma machine_ok_state [simp]:
  "machine_ok ds m \<Longrightarrow> machine_ok ds (m\<lparr>state := s\<rparr>) \<longleftrightarrow> 0 \<le> s \<and> nat s < length ds"
  by (auto simp: machine_ok_def)

lemma machine_ok_stamps [simp]:
  "machine_ok ds (stamp_begin t m) = machine_ok ds m"
  "machine_ok ds (stamp_end t0 t1 m) = machine_ok ds m"
  by (simp_all add: machine_ok_def)

lemma machine_ok_init:
  "0 < n \<Longrightarrow> n \<le> length ds \<Longrightarrow> machine_ok ds (machine_init n)"
  by (auto simp: machine_ok_def machine_init_def)

lemma run_hook_ok:
  assumes "\<forall>f. h = Some f \<longrightarrow> hook_ok ds Inv f" and "machine_ok ds m" and "Inv w"
  shows "\<exists>m' w'. run_hook h m w = Some (m', w') \<and> machine_ok ds m' \<and> Inv w'"
  using assms by (cases h) (simp_all add: hook_ok_def)

fun run_times :: "'w StateDesc list \<Rightarrow> (u64 \<times> u64) list \<Rightarrow> 'w hook" where
  "run_times ds [] m w = Some (m, w)"
| "run_times ds ((t0, t1) # ts) m w =
     do { (m', w') \<leftarrow> RunStateMachine ds t0 t1 m w; run_times ds ts m' w' }"

lemma run_times_append:
  "run_times ds (ts @ us) m w = do { (m', w') \<leftarrow> run_times ds ts m w; run_times ds us m' w' }"
proof (induction ts arbitrary: m w)
  case Nil
  then show ?case by simp
next
  case (Cons t ts)
  then show ?case by (cases t; cases "RunStateMachine ds (fst t) (snd t) m w") auto
qed

lemma run_hook_keeps:
  assumes "\<forall>f. h = Some f \<longrightarrow> hook_keeps ds Inv f" and "machine_ok ds m" and "Inv w"
    and "run_hook h m w = Some (m', w')"
  shows "machine_ok ds m' \<and> Inv w'"
proof (cases h)
  case None
  then show ?thesis using assms by simp
next
  case (Some f)
  then have "hook_keeps ds Inv f" "f m w = Some (m', w')" using assms by simp_all
  then show ?thesis using assms(2,3) unfolding hook_keeps_def by blast
qed

text \<open>
  The contract in two strengths. A table whose hooks may halt (a failed assertion) keeps its
  invariant as long as they return; a table whose hooks always return cannot halt either.
\<close>

locale machine_contract =
  fixes descs :: "'w StateDesc list"
    and Inv :: "'w \<Rightarrow> bool"
  assumes keeps: "d \<in> set descs \<Longrightarrow> desc_keeps descs Inv d"
begin

lemma desc_at_keeps: "desc_at descs s = Some d \<Longrightarrow> desc_keeps descs Inv d"
  using keeps by (auto dest!: desc_at_SomeD)

lemma leave_state_keeps:
  assumes "leave_state descs prev m w = Some (m', w')" and "machine_ok descs m" and "Inv w"
  shows "machine_ok descs m' \<and> Inv w'"
proof (cases "IsValidState m prev")
  case True
  with assms(1) obtain d where "desc_at descs prev = Some d" "run_hook (state_onExit d) m w = Some (m', w')"
    by (auto simp: leave_state_def bind_eq_Some_conv split: if_splits)
  then show ?thesis
    using run_hook_keeps [where Inv = Inv, OF _ assms(2,3)] desc_at_keeps unfolding desc_keeps_def by blast
next
  case False
  then show ?thesis using assms by (simp add: leave_state_def)
qed

lemma change_state_keeps:
  assumes "change_state descs d m w = Some (m', w')" and "desc_keeps descs Inv d"
    and "machine_ok descs m" and "Inv w"
  shows "machine_ok descs m' \<and> Inv w'"
proof (cases "prevState m = state m")
  case True
  then show ?thesis using assms by (simp add: change_state_def)
next
  case False
  then obtain m1 w1 m2 where 1: "leave_state descs (prevState m) m w = Some (m1, w1)"
    and 2: "run_hook (state_onEntry d) m1 w1 = Some (m2, w')"
    and m': "m' = m2\<lparr>executionCount := 0, prevState := state m2\<rparr>"
    using assms(1) by (auto simp: change_state_def bind_eq_Some_conv)
  have "machine_ok descs m1 \<and> Inv w1" using leave_state_keeps [OF 1 assms(3,4)] .
  then have "machine_ok descs m2 \<and> Inv w'"
    using run_hook_keeps [where Inv = Inv, OF _ _ _ 2] assms(2) unfolding desc_keeps_def by blast
  then show ?thesis by (simp add: m')
qed

lemma step_keeps:
  assumes "RunStateMachine descs t0 t1 m w = Some (m', w')" and "machine_ok descs m" and "Inv w"
  shows "machine_ok descs m' \<and> Inv w'"
proof -
  obtain d m1 w1 m2 where d: "desc_at descs (state m) = Some d"
    and 1: "change_state descs d (stamp_begin t0 m) w = Some (m1, w1)"
    and 2: "run_hook (state_handler d) m1 w1 = Some (m2, w')"
    and m': "m' = stamp_end t0 t1 m2"
    using assms(1) by (auto simp: RunStateMachine_def bind_eq_Some_conv split: if_splits)
  have dk: "desc_keeps descs Inv d" using desc_at_keeps [OF d] .
  have "machine_ok descs m1 \<and> Inv w1"
    using change_state_keeps [OF 1 dk] assms(2,3) by simp
  then have "machine_ok descs m2 \<and> Inv w'"
    using run_hook_keeps [where Inv = Inv, OF _ _ _ 2] dk unfolding desc_keeps_def by blast
  then show ?thesis by (simp add: m')
qed

lemma runs_keep:
  "run_times descs ts m w = Some (m', w') \<Longrightarrow> machine_ok descs m \<Longrightarrow> Inv w \<Longrightarrow> machine_ok descs m' \<and> Inv w'"
proof (induction ts arbitrary: m w)
  case Nil
  then show ?case by simp
next
  case (Cons t ts)
  then obtain m1 w1 where "RunStateMachine descs (fst t) (snd t) m w = Some (m1, w1)"
    "run_times descs ts m1 w1 = Some (m', w')"
    by (cases t) (auto simp: bind_eq_Some_conv)
  then show ?case using Cons.IH step_keeps Cons.prems(2,3) by blast
qed

end

locale service_machine =
  fixes descs :: "'w StateDesc list"
    and Inv :: "'w \<Rightarrow> bool"
  assumes numbered: "i < length descs \<Longrightarrow> sd_state (descs ! i) = int i"
    and hooks: "d \<in> set descs \<Longrightarrow> desc_ok descs Inv d"
begin

lemma desc_of_state:
  assumes "0 \<le> s" and "nat s < length descs"
  shows "desc_at descs s = Some (descs ! nat s)" "sd_state (descs ! nat s) = s"
    "desc_ok descs Inv (descs ! nat s)"
  using assms numbered [of "nat s"] hooks [of "descs ! nat s"] by (auto simp: desc_at_def)

lemma leave_state_safe:
  assumes "machine_ok descs m" and "Inv w"
  shows "\<exists>m' w'. leave_state descs prev m w = Some (m', w') \<and> machine_ok descs m' \<and> Inv w'"
proof (cases "IsValidState m prev")
  case True
  then have s: "0 \<le> prev" "nat prev < length descs"
    using assms(1) by (auto simp: IsValidState_def machine_ok_def)
  have "\<forall>f. state_onExit (descs ! nat prev) = Some f \<longrightarrow> hook_ok descs Inv f"
    using desc_of_state(3) [OF s] by (simp add: desc_ok_def)
  then show ?thesis
    using run_hook_ok [where Inv = Inv, OF _ assms] True desc_of_state [OF s] by (simp add: leave_state_def)
next
  case False
  then show ?thesis using assms by (simp add: leave_state_def)
qed

lemma change_state_safe:
  assumes "desc_ok descs Inv d" and "machine_ok descs m" and "Inv w"
  shows "\<exists>m' w'. change_state descs d m w = Some (m', w') \<and> machine_ok descs m' \<and> Inv w'"
proof (cases "prevState m = state m")
  case True
  then show ?thesis using assms by (simp add: change_state_def)
next
  case False
  obtain m1 w1 where 1: "leave_state descs (prevState m) m w = Some (m1, w1)"
    "machine_ok descs m1" "Inv w1"
    using leave_state_safe [OF assms(2,3)] by blast
  obtain m2 w2 where 2: "run_hook (state_onEntry d) m1 w1 = Some (m2, w2)"
    "machine_ok descs m2" "Inv w2"
    using run_hook_ok [where Inv = Inv, OF _ 1(2,3)] assms(1) unfolding desc_ok_def by blast
  show ?thesis using False 1 2 by (simp add: change_state_def)
qed

lemma step_safe:
  assumes ok: "machine_ok descs m" and w: "Inv w"
  shows "\<exists>m' w'. RunStateMachine descs t0 t1 m w = Some (m', w') \<and> machine_ok descs m' \<and> Inv w'"
proof -
  let ?d = "descs ! nat (state m)"
  have s: "0 \<le> state m" "nat (state m) < length descs" using ok by (auto simp: machine_ok_def)
  note d = desc_of_state [OF s]
  have ok': "machine_ok descs (stamp_begin t0 m)" using ok by simp
  obtain m1 w1 where 1: "change_state descs ?d (stamp_begin t0 m) w = Some (m1, w1)"
    "machine_ok descs m1" "Inv w1"
    using change_state_safe [OF d(3) ok' w] by blast
  obtain m2 w2 where 2: "run_hook (state_handler ?d) m1 w1 = Some (m2, w2)"
    "machine_ok descs m2" "Inv w2"
    using run_hook_ok [where Inv = Inv, OF _ 1(2,3)] d(3) unfolding desc_ok_def by blast
  show ?thesis using 1(1) 2 by (simp add: RunStateMachine_def d(1,2))
qed

lemma runs_safe:
  assumes "machine_ok descs m" and "Inv w"
  shows "\<exists>m' w'. run_times descs ts m w = Some (m', w') \<and> machine_ok descs m' \<and> Inv w'"
  using assms
proof (induction ts arbitrary: m w)
  case Nil
  then show ?case by simp
next
  case (Cons t ts)
  obtain m' w' where "RunStateMachine descs (fst t) (snd t) m w = Some (m', w')"
    "machine_ok descs m'" "Inv w'"
    using step_safe [OF Cons.prems, of "fst t" "snd t"] by blast
  then show ?case using Cons.IH [of m' w'] by (cases t) simp
qed

end

sublocale service_machine \<subseteq> machine_contract descs Inv
  by unfold_locales (rule desc_ok_keeps, rule hooks)

section \<open>Order of the hooks\<close>

text \<open>
  An observer of the engine: a table of \<open>n\<close> states whose hooks only log, and whose
  handler of state \<open>i\<close> moves to \<open>g i\<close>.
\<close>

datatype hook_event = Entered nat | Exited nat | Ran nat

definition observed_desc :: "(nat \<Rightarrow> nat) \<Rightarrow> nat \<Rightarrow> hook_event list StateDesc" where
  "observed_desc g i =
     \<lparr>sd_state = int i,
      state_onEntry = Some (\<lambda>m w. Some (m, w @ [Entered i])),
      state_onExit = Some (\<lambda>m w. Some (m, w @ [Exited i])),
      state_handler = Some (\<lambda>m w. Some (m\<lparr>state := int (g i)\<rparr>, w @ [Ran i]))\<rparr>"

definition observed_table :: "(nat \<Rightarrow> nat) \<Rightarrow> nat \<Rightarrow> hook_event list StateDesc list" where
  "observed_table g n = map (observed_desc g) [0..<n]"

text \<open>What a visit of state \<open>s\<close> must log when the state before it was \<open>p\<close>.\<close>

definition visit_log :: "nat \<Rightarrow> nat \<Rightarrow> hook_event list" where
  "visit_log p s = (if p = s then [Ran s] else [Exited p, Entered s, Ran s])"

fun path_log :: "(nat \<Rightarrow> nat) \<Rightarrow> nat \<Rightarrow> nat \<Rightarrow> nat \<Rightarrow> hook_event list" where
  "path_log g p s 0 = []"
| "path_log g p s (Suc k) = visit_log p s @ path_log g s (g s) k"

lemma observed_nth [simp]: "i < n \<Longrightarrow> observed_table g n ! i = observed_desc g i"
  by (simp add: observed_table_def)

lemma length_observed [simp]: "length (observed_table g n) = n"
  by (simp add: observed_table_def)

lemma observed_step:
  assumes "s < n" and "state m = int s" and "numStates m = n"
    and "prevState m = int p" and "p < n"
  shows "\<exists>m'. RunStateMachine (observed_table g n) t0 t1 m w = Some (m', w @ visit_log p s) \<and>
    state m' = int (g s) \<and> prevState m' = int s \<and> numStates m' = n"
proof -
  have d: "desc_at (observed_table g n) (int i) = Some (observed_desc g i)" if "i < n" for i
    using that desc_at_nth [of i "observed_table g n"] by simp
  show ?thesis
    using assms
    by (cases "p = s") (simp_all add: RunStateMachine_def change_state_def leave_state_def
        IsValidState_def d observed_desc_def visit_log_def)
qed

lemma observed_first_step:
  assumes "0 < n"
  shows "\<exists>m'. RunStateMachine (observed_table g n) t0 t1 (machine_init n) w
      = Some (m', w @ [Entered 0, Ran 0]) \<and>
    state m' = int (g 0) \<and> prevState m' = 0 \<and> numStates m' = n"
proof -
  have d: "desc_at (observed_table g n) 0 = Some (observed_desc g 0)"
    using assms desc_at_nth [of 0 "observed_table g n"] by simp
  have s: "state (machine_init n) = 0" "prevState (machine_init n) = - 1"
    "numStates (machine_init n) = n" by (simp_all add: machine_init_def)
  show ?thesis
    by (simp add: RunStateMachine_def change_state_def leave_state_def IsValidState_def
        s d observed_desc_def)
qed

lemma observed_path:
  assumes "\<forall>i < n. g i < n" and "s < n" and "state m = int s" and "numStates m = n"
    and "prevState m = int p" and "p < n"
  shows "\<exists>m'. run_times (observed_table g n) ts m w = Some (m', w @ path_log g p s (length ts)) \<and>
    state m' = int ((g ^^ length ts) s)"
  using assms(2-)
proof (induction ts arbitrary: m w p s)
  case Nil
  then show ?case by simp
next
  case (Cons t ts)
  obtain t0 t1 where t: "t = (t0, t1)" by (cases t)
  obtain m' where m': "RunStateMachine (observed_table g n) t0 t1 m w = Some (m', w @ visit_log p s)"
    "state m' = int (g s)" "prevState m' = int s" "numStates m' = n"
    using observed_step [OF Cons.prems, of g t0 t1 w] by blast
  have "\<exists>m''. run_times (observed_table g n) ts m' (w @ visit_log p s) =
      Some (m'', (w @ visit_log p s) @ path_log g s (g s) (length ts)) \<and>
      state m'' = int ((g ^^ length ts) (g s))"
    using Cons.IH [of "g s" m' s "w @ visit_log p s"] m' Cons.prems assms(1) by simp
  then show ?case using m' t by (simp add: funpow_swap1)
qed

section \<open>Properties\<close>



text \<open>
  The initialisation sequence with no function marked to halt or restart, as every entry
  of \<open>globalInitFunctions\<close> is: a function that fails does not stop the ones after it;
  all of them run, in table order, and the sequence completes.
\<close>

theorem init_functions_all_run:
  assumes "\<forall>f \<in> set fs. \<not> haltOnFailure f \<and> \<not> restartOnFailure f"
  shows "RunInitFunctions keyPressed cli i fs w = InitDone (fold (\<lambda>f w. snd (handler f w)) fs w)"
  using assms by (induction fs arbitrary: i w) (auto split: prod.splits)

theorem init_functions_all_run_witness:
  "RunInitFunctions (\<lambda>_. False) id 0
     [\<lparr>handler = (\<lambda>w. (False, w + (1::nat))), haltOnFailure = False, restartOnFailure = False\<rparr>,
      \<lparr>handler = (\<lambda>w. (True, w * 2)), haltOnFailure = False, restartOnFailure = False\<rparr>] 3 = InitDone 8"
  using init_functions_all_run [of
      "[\<lparr>handler = (\<lambda>w. (False, w + (1::nat))), haltOnFailure = False, restartOnFailure = False\<rparr>,
        \<lparr>handler = (\<lambda>w. (True, w * 2)), haltOnFailure = False, restartOnFailure = False\<rparr>]"
      "\<lambda>_. False" id 0 3]
  by simp

end
