(* ===== verification/Ipi.thy ===== *)
theory Ipi
  imports Hss_Base Trigger "HOL-Library.Multiset"
begin

text \<open>
  The inter-processor message bus, \<open>modules/ssmb/ipi/ssmb_ipi.c\<close>: 20 outbox queues
  (one per ordered pair of harts) of 4 slots each, a pool of 16 outstanding transactions, and
  the software-interrupt registers.

  Every operation takes the hart it runs on, \<open>current_hartid()\<close>, as its first
  argument. An operation is \<open>None\<close> where the code fails an assertion or indexes an
  array of \<open>IPI_DATA\<close> out of range. The configuration is the one of the kit: no
  \<open>CONFIG_HSS_USE_IHC\<close>, \<open>CONFIG_IPI_MAX_NUM_QUEUE_MESSAGES = 4\<close>.
\<close>

section \<open>Data\<close>

abbreviation (input) IPI_MAX_NUM_QUEUE_MESSAGES :: nat where "IPI_MAX_NUM_QUEUE_MESSAGES \<equiv> 4"
abbreviation (input) IPI_MAX_NUM_OUTSTANDING_COMPLETES :: nat
  where "IPI_MAX_NUM_OUTSTANDING_COMPLETES \<equiv> 16"
abbreviation (input) IPI_OUTBOX_NUM_QUEUES :: nat where "IPI_OUTBOX_NUM_QUEUES \<equiv> 20"

datatype IPIMessagesEnum =
    IPI_MSG_NO_MESSAGE | IPI_MSG_BOOT_REQUEST | IPI_MSG_PMP_SETUP | IPI_MSG_SPI_XFER
  | IPI_MSG_NET_RXPOLL | IPI_MSG_NET_TX | IPI_MSG_SCATTERGATHER_DMA | IPI_MSG_WDOG_INIT
  | IPI_MSG_GPIO_SET | IPI_MSG_UART_TX | IPI_MSG_UART_POLL_RX | IPI_MSG_POWERMODE
  | IPI_MSG_ACK_PENDING | IPI_MSG_ACK_COMPLETE | IPI_MSG_HALT | IPI_MSG_CONTINUE
  | IPI_MSG_GOTO | IPI_MSG_OPENSBI_INIT | IPI_MSG_SCRUB | IPI_MSG_DDR_TRAIN

text \<open>The enumerators in order; the value of one is its position.\<close>

definition ipi_messages :: "IPIMessagesEnum list" where
  "ipi_messages =
     [IPI_MSG_NO_MESSAGE, IPI_MSG_BOOT_REQUEST, IPI_MSG_PMP_SETUP, IPI_MSG_SPI_XFER,
      IPI_MSG_NET_RXPOLL, IPI_MSG_NET_TX, IPI_MSG_SCATTERGATHER_DMA, IPI_MSG_WDOG_INIT,
      IPI_MSG_GPIO_SET, IPI_MSG_UART_TX, IPI_MSG_UART_POLL_RX, IPI_MSG_POWERMODE,
      IPI_MSG_ACK_PENDING, IPI_MSG_ACK_COMPLETE, IPI_MSG_HALT, IPI_MSG_CONTINUE,
      IPI_MSG_GOTO, IPI_MSG_OPENSBI_INIT, IPI_MSG_SCRUB, IPI_MSG_DDR_TRAIN]"

definition msg_num :: "IPIMessagesEnum \<Rightarrow> nat" where
  "msg_num t = the (find_index (\<lambda>s. s = t) ipi_messages)"

datatype IPIStatusCode = IPI_FAIL | IPI_SUCCESS | IPI_PENDING | IPI_IDLE

definition status_num :: "IPIStatusCode \<Rightarrow> u32" where
  "status_num s = (case s of IPI_FAIL \<Rightarrow> 0 | IPI_SUCCESS \<Rightarrow> 1 | IPI_PENDING \<Rightarrow> 2 | IPI_IDLE \<Rightarrow> 3)"

type_synonym TxId_t = u32

record IPI_Outbox_Msg =
  msg_type :: IPIMessagesEnum
  transaction_id :: TxId_t
  immediate_arg :: u32
  p_extended_buffer_in_ddr :: u64
  p_ancilliary_buffer_in_ddr :: u64

record IPI_Outbox_Queue =
  msgQ :: "IPI_Outbox_Msg list"
  qcount :: u32

record IPI_Complete =
  used :: bool
  ctransaction_id :: TxId_t
  cstatus :: IPIStatusCode

record IPI_PrivateData =
  message_allocs :: u64
  message_delivers :: u64
  message_frees :: u64
  consume_intents :: u64
  ipi_sends :: u64

text \<open>\<open>struct IPI_Data\<close>, and the five \<open>MSIP\<close> registers of the CLINT.\<close>

record IPI_Data =
  ipi_version :: u32
  ipi_queues :: "IPI_Outbox_Queue list"
  ipi_completes :: "IPI_Complete list"
  txId_last :: "TxId_t list"
  txId_shadow :: "TxId_t list"
  my_transaction_id :: "TxId_t list"
  mpfs_ipi_privateData :: "IPI_PrivateData list"
  msip :: "u32 list"

definition zero_Msg :: IPI_Outbox_Msg where
  "zero_Msg = \<lparr>msg_type = IPI_MSG_NO_MESSAGE, transaction_id = 0, immediate_arg = 0,
     p_extended_buffer_in_ddr = 0, p_ancilliary_buffer_in_ddr = 0\<rparr>"

definition zero_Complete :: IPI_Complete where
  "zero_Complete = \<lparr>used = False, ctransaction_id = 0, cstatus = IPI_FAIL\<rparr>"

definition zero_PrivateData :: IPI_PrivateData where
  "zero_PrivateData = \<lparr>message_allocs = 0, message_delivers = 0, message_frees = 0,
     consume_intents = 0, ipi_sends = 0\<rparr>"

text \<open>\<open>IPI_QueuesInit\<close>: clear everything, start every hart's counter at 1.\<close>

definition IPI_QueuesInit :: "IPI_Data \<Rightarrow> HSS_Triggers \<Rightarrow> bool \<times> IPI_Data \<times> HSS_Triggers" where
  "IPI_QueuesInit d t =
     (True,
      \<lparr>ipi_version = 0x0101,
       ipi_queues = replicate IPI_OUTBOX_NUM_QUEUES
         \<lparr>msgQ = replicate IPI_MAX_NUM_QUEUE_MESSAGES zero_Msg, qcount = 0\<rparr>,
       ipi_completes = replicate IPI_MAX_NUM_OUTSTANDING_COMPLETES zero_Complete,
       txId_last = replicate IPI_OUTBOX_NUM_QUEUES 0,
       txId_shadow = replicate IPI_OUTBOX_NUM_QUEUES 0,
       my_transaction_id = replicate MAX_NUM_HARTS 1,
       mpfs_ipi_privateData = replicate MAX_NUM_HARTS zero_PrivateData,
       msip = msip d\<rparr>,
      HSS_Trigger_Notify EVENT_IPI_INITIALIZED t)"

section \<open>Operations\<close>

definition IPI_CalculateQueueIndex :: "hart_id \<Rightarrow> hart_id \<Rightarrow> nat" where
  "IPI_CalculateQueueIndex source target =
     (let index = source * 4 + target in if target > source then index - 1 else index)"

definition IPI_GetQueuePendingCount :: "nat \<Rightarrow> IPI_Data \<Rightarrow> u32" where
  "IPI_GetQueuePendingCount queueIndex d = qcount (ipi_queues d ! queueIndex)"

definition bump :: "hart_id \<Rightarrow> (IPI_PrivateData \<Rightarrow> IPI_PrivateData) \<Rightarrow> IPI_Data \<Rightarrow> IPI_Data" where
  "bump h f d = d\<lparr>mpfs_ipi_privateData :=
     (mpfs_ipi_privateData d)[h := f (mpfs_ipi_privateData d ! h)]\<rparr>"

definition clint_set_MSIP :: "hart_id \<Rightarrow> u32 \<Rightarrow> IPI_Data \<Rightarrow> IPI_Data option" where
  "clint_set_MSIP target value d =
     (if target \<le> HSS_HART_U54_4 then Some (d\<lparr>msip := (msip d)[target := value]\<rparr>) else None)"

definition CLINT_Raise_MSIP :: "hart_id \<Rightarrow> IPI_Data \<Rightarrow> (bool \<times> IPI_Data) option" where
  "CLINT_Raise_MSIP target d =
     do { d \<leftarrow> clint_set_MSIP target 1 d;
          Some (True, bump target (\<lambda>p. p\<lparr>ipi_sends := ipi_sends p + 1\<rparr>) d) }"

definition CLINT_Clear_MSIP :: "hart_id \<Rightarrow> IPI_Data \<Rightarrow> IPI_Data option" where
  "CLINT_Clear_MSIP target d = clint_set_MSIP target 0 d"

definition find_available_slot :: "nat \<Rightarrow> IPI_Data \<Rightarrow> nat option" where
  "find_available_slot index d =
     find_index (\<lambda>m. msg_type m = IPI_MSG_NO_MESSAGE) (msgQ (ipi_queues d ! index))"

definition set_slot :: "nat \<Rightarrow> nat \<Rightarrow> IPI_Outbox_Msg \<Rightarrow> IPI_Data \<Rightarrow> IPI_Data" where
  "set_slot index k m d = d\<lparr>ipi_queues := (ipi_queues d)[index :=
     (ipi_queues d ! index)\<lparr>msgQ := (msgQ (ipi_queues d ! index))[k := m]\<rparr>]\<rparr>"

definition IPI_Send :: "hart_id \<Rightarrow> hart_id \<Rightarrow> IPIMessagesEnum \<Rightarrow> TxId_t \<Rightarrow> u32 \<Rightarrow> u64 \<Rightarrow> u64
    \<Rightarrow> IPI_Data \<Rightarrow> (bool \<times> IPI_Data) option" where
  "IPI_Send me target message txid imm ext anc d =
     (let index = IPI_CalculateQueueIndex me target in
      if index \<ge> length (ipi_queues d) then None
      else case find_available_slot index d of
        None \<Rightarrow> Some (False, d)
      | Some k \<Rightarrow>
          let d = set_slot index k \<lparr>msg_type = message, transaction_id = txid, immediate_arg = imm,
                    p_extended_buffer_in_ddr = ext, p_ancilliary_buffer_in_ddr = anc\<rparr> d;
              d = d\<lparr>txId_last := (txId_last d)[index := txid]\<rparr>
          in CLINT_Raise_MSIP target d)"

text \<open>The body of the loop of \<open>IPI_PollReceive\<close> for source \<open>i\<close>, and the
  loop over the harts.\<close>

definition poll_queue :: "nat \<Rightarrow> IPI_Data \<Rightarrow> bool \<times> IPI_Data" where
  "poll_queue index d =
     (if txId_shadow d ! index = txId_last d ! index then (False, d)
      else
        let q = ipi_queues d ! index;
            countPerQueue = length (filter (\<lambda>m. msg_type m \<noteq> IPI_MSG_NO_MESSAGE) (msgQ q))
        in (True, d\<lparr>txId_shadow := (txId_shadow d)[index := txId_last d ! index],
                    ipi_queues := (ipi_queues d)[index := q\<lparr>qcount := of_nat countPerQueue\<rparr>]\<rparr>))"

fun poll_loop :: "hart_id \<Rightarrow> u32 \<Rightarrow> nat list \<Rightarrow> bool \<Rightarrow> IPI_Data \<Rightarrow> bool \<times> IPI_Data" where
  "poll_loop me hartMask [] result d = (result, d)"
| "poll_loop me hartMask (i # is) result d =
     (if i = me then poll_loop me hartMask is result d
      else if \<not> bit hartMask i then poll_loop me hartMask is result d
      else let (r, d) = poll_queue (IPI_CalculateQueueIndex i me) d
           in poll_loop me hartMask is (result \<or> r) d)"

definition IPI_PollReceive :: "hart_id \<Rightarrow> u32 \<Rightarrow> IPI_Data \<Rightarrow> bool \<times> IPI_Data" where
  "IPI_PollReceive me hartMask d = poll_loop me hartMask [0..<MAX_NUM_HARTS] False d"

text \<open>
  A handler of the registry works on the message bus and on the rest of the world
  \<open>'x\<close>.
\<close>

type_synonym 'x ipi_handler = "TxId_t \<Rightarrow> hart_id \<Rightarrow> u32 \<Rightarrow> u64 \<Rightarrow> u64
    \<Rightarrow> IPI_Data \<times> 'x \<Rightarrow> (IPIStatusCode \<times> IPI_Data \<times> 'x) option"
type_synonym 'x ipi_registry = "(IPIMessagesEnum \<times> 'x ipi_handler option) list"

text \<open>The acknowledgement after the handler returned \<open>result\<close>; a full queue loses
  it, the code does not look at what \<open>IPI_Send\<close> returns.\<close>

definition send_ack :: "hart_id \<Rightarrow> hart_id \<Rightarrow> IPIMessagesEnum \<Rightarrow> TxId_t \<Rightarrow> IPIStatusCode
    \<Rightarrow> IPI_Data \<Rightarrow> IPI_Data option" where
  "send_ack me source mtype txid result d =
     (if mtype \<in> {IPI_MSG_ACK_COMPLETE, IPI_MSG_ACK_PENDING, IPI_MSG_BOOT_REQUEST} then Some d
      else case result of
        IPI_SUCCESS \<Rightarrow> map_option snd (IPI_Send me source IPI_MSG_ACK_COMPLETE txid (status_num IPI_SUCCESS) 0 0 d)
      | IPI_PENDING \<Rightarrow> map_option snd (IPI_Send me source IPI_MSG_ACK_PENDING txid (status_num IPI_PENDING) 0 0 d)
      | IPI_FAIL \<Rightarrow> map_option snd (IPI_Send me source IPI_MSG_ACK_COMPLETE txid (status_num IPI_FAIL) 0 0 d)
      | IPI_IDLE \<Rightarrow> Some d)"

definition clear_slot :: "nat \<Rightarrow> nat \<Rightarrow> IPI_Data \<Rightarrow> IPI_Data" where
  "clear_slot index k d = set_slot index k
     ((msgQ (ipi_queues d ! index) ! k)\<lparr>msg_type := IPI_MSG_NO_MESSAGE\<rparr>) d"

definition dec_count :: "nat \<Rightarrow> IPI_Data \<Rightarrow> IPI_Data" where
  "dec_count index d = (let q = ipi_queues d ! index in
     if qcount q \<noteq> 0 then d\<lparr>ipi_queues := (ipi_queues d)[index := q\<lparr>qcount := qcount q - 1\<rparr>]\<rparr> else d)"

text \<open>The messages of a type that has no handler are dropped.\<close>

definition drop_unhandled :: "nat \<Rightarrow> IPIMessagesEnum \<Rightarrow> IPI_Data \<Rightarrow> IPI_Data" where
  "drop_unhandled index t d = (let q = ipi_queues d ! index in
     d\<lparr>ipi_queues := (ipi_queues d)[index := q\<lparr>msgQ :=
       map (\<lambda>m. if msg_type m = t then m\<lparr>msg_type := IPI_MSG_NO_MESSAGE\<rparr> else m) (msgQ q)\<rparr>]\<rparr>)"

definition IPI_ConsumeIntent :: "'x ipi_registry \<Rightarrow> hart_id \<Rightarrow> hart_id \<Rightarrow> IPIMessagesEnum
    \<Rightarrow> IPI_Data \<times> 'x \<Rightarrow> (bool \<times> IPI_Data \<times> 'x) option" where
  "IPI_ConsumeIntent registry me source mtype = (\<lambda>(d, x).
     let index = IPI_CalculateQueueIndex source me in
     if index \<ge> length (ipi_queues d) then None
     else if msg_num mtype \<ge> length registry then None
     else if fst (registry ! msg_num mtype) \<noteq> mtype then None
     else case snd (registry ! msg_num mtype) of
       None \<Rightarrow> Some (False, drop_unhandled index mtype d, x)
     | Some pHandler \<Rightarrow>
         (case find_index (\<lambda>m. msg_type m = mtype) (msgQ (ipi_queues d ! index)) of
            None \<Rightarrow> Some (False, d, x)
          | Some k \<Rightarrow> do {
              let d = bump me (\<lambda>p. p\<lparr>consume_intents := consume_intents p + 1\<rparr>) d;
              let d = dec_count index d;
              let pMsg = msgQ (ipi_queues d ! index) ! k;
              (result, d, x) \<leftarrow> pHandler (transaction_id pMsg) source (immediate_arg pMsg)
                 (p_extended_buffer_in_ddr pMsg) (p_ancilliary_buffer_in_ddr pMsg) (d, x);
              let pMsg = msgQ (ipi_queues d ! index) ! k;
              d \<leftarrow> send_ack me source (msg_type pMsg) (transaction_id pMsg) result d;
              Some (True, clear_slot index k d, x) }))"

text \<open>\<open>IPI_MessageAlloc\<close> returns the index it writes through its pointer.\<close>

definition IPI_MessageAlloc :: "hart_id \<Rightarrow> IPI_Data \<Rightarrow> nat option \<times> IPI_Data" where
  "IPI_MessageAlloc me d =
     (case find_index (\<lambda>c. \<not> used c) (ipi_completes d) of
        None \<Rightarrow> (None, d)
      | Some i \<Rightarrow>
          let d = d\<lparr>ipi_completes := (ipi_completes d)[i :=
                      \<lparr>used = True, ctransaction_id = my_transaction_id d ! me, cstatus = IPI_PENDING\<rparr>],
                    my_transaction_id := (my_transaction_id d)[me := my_transaction_id d ! me + 1]\<rparr>
          in (Some i, bump me (\<lambda>p. p\<lparr>message_allocs := message_allocs p + 1\<rparr>) d))"

definition IPI_MessageDeliver :: "hart_id \<Rightarrow> nat \<Rightarrow> hart_id \<Rightarrow> IPIMessagesEnum \<Rightarrow> u32 \<Rightarrow> u64 \<Rightarrow> u64
    \<Rightarrow> IPI_Data \<Rightarrow> (bool \<times> IPI_Data) option" where
  "IPI_MessageDeliver me index target message imm ext anc d =
     (if index \<ge> length (ipi_completes d) then None
      else if \<not> used (ipi_completes d ! index) then Some (False, d)
      else do {
        (result, d) \<leftarrow> IPI_Send me target message (ctransaction_id (ipi_completes d ! index)) imm ext anc d;
        Some (result, if result then bump me (\<lambda>p. p\<lparr>message_delivers := message_delivers p + 1\<rparr>) d
                      else d) })"

definition IPI_MessageCheckIfComplete :: "nat \<Rightarrow> IPI_Data \<Rightarrow> bool option" where
  "IPI_MessageCheckIfComplete index d =
     (if index > IPI_MAX_NUM_OUTSTANDING_COMPLETES then None
      else if index = IPI_MAX_NUM_OUTSTANDING_COMPLETES then Some True
      else if used (ipi_completes d ! index) then Some (cstatus (ipi_completes d ! index) \<noteq> IPI_PENDING)
      else Some False)"

definition IPI_MessageUpdateStatus :: "TxId_t \<Rightarrow> IPIStatusCode \<Rightarrow> IPI_Data \<Rightarrow> bool \<times> IPI_Data" where
  "IPI_MessageUpdateStatus txid status d =
     (case find_index (\<lambda>c. ctransaction_id c = txid) (ipi_completes d) of
        None \<Rightarrow> (False, d)
      | Some i \<Rightarrow> (True, d\<lparr>ipi_completes := (ipi_completes d)[i :=
                          (ipi_completes d ! i)\<lparr>cstatus := status\<rparr>]\<rparr>))"

definition IPI_MessageFree :: "hart_id \<Rightarrow> nat \<Rightarrow> IPI_Data \<Rightarrow> IPI_Data option" where
  "IPI_MessageFree me index d =
     (if index \<ge> length (ipi_completes d) \<or> \<not> used (ipi_completes d ! index) then None
      else Some (bump me (\<lambda>p. p\<lparr>message_frees := message_frees p + 1\<rparr>)
             (d\<lparr>ipi_completes := (ipi_completes d)[index :=
                  (ipi_completes d ! index)\<lparr>used := False\<rparr>]\<rparr>)))"

definition IPI_DebugGetTxId :: "hart_id \<Rightarrow> IPI_Data \<Rightarrow> TxId_t" where
  "IPI_DebugGetTxId me d = my_transaction_id d ! me"

definition IPI_ACK_IPIHandler :: "'x ipi_handler" where
  "IPI_ACK_IPIHandler txid source imm ext anc = (\<lambda>(d, x).
     Some (IPI_SUCCESS, snd (IPI_MessageUpdateStatus txid IPI_IDLE d), x))"

definition IPI_DirectionToFirstMsgInQueue :: "hart_id \<Rightarrow> hart_id \<Rightarrow> IPI_Data \<Rightarrow> IPI_Outbox_Msg option" where
  "IPI_DirectionToFirstMsgInQueue source target d =
     (if target < HSS_HART_NUM_PEERS \<and> target \<noteq> source
      then Some (msgQ (ipi_queues d ! IPI_CalculateQueueIndex source target) ! 0) else None)"

section \<open>Well-formedness\<close>

text \<open>The arrays of \<open>struct IPI_Data\<close> have their declared sizes.\<close>

definition ipi_wf :: "IPI_Data \<Rightarrow> bool" where
  "ipi_wf d \<longleftrightarrow>
     length (ipi_queues d) = 20 \<and> (\<forall>q \<in> set (ipi_queues d). length (msgQ q) = 4) \<and>
     length (ipi_completes d) = 16 \<and> length (txId_last d) = 20 \<and> length (txId_shadow d) = 20 \<and>
     length (my_transaction_id d) = 5 \<and> length (mpfs_ipi_privateData d) = 5 \<and> length (msip d) = 5"

lemma ipi_wfD:
  assumes "ipi_wf d"
  shows "length (ipi_queues d) = 20" "i < 20 \<Longrightarrow> length (msgQ (ipi_queues d ! i)) = 4"
    "length (ipi_completes d) = 16" "length (txId_last d) = 20" "length (txId_shadow d) = 20"
    "length (my_transaction_id d) = 5" "length (mpfs_ipi_privateData d) = 5" "length (msip d) = 5"
  using assms by (auto simp: ipi_wf_def)

lemma set_queue_wf:
  "ipi_wf d \<Longrightarrow> length (msgQ q) = 4 \<Longrightarrow> ipi_wf (d\<lparr>ipi_queues := (ipi_queues d)[i := q]\<rparr>)"
  by (auto simp: ipi_wf_def dest!: set_update_subset_insert [THEN subsetD])

lemma ipi_wf_update [simp]:
  "ipi_wf (d\<lparr>txId_last := (txId_last d)[i := a]\<rparr>) = ipi_wf d"
  "ipi_wf (d\<lparr>txId_shadow := (txId_shadow d)[i := a]\<rparr>) = ipi_wf d"
  "ipi_wf (d\<lparr>my_transaction_id := (my_transaction_id d)[i := a]\<rparr>) = ipi_wf d"
  "ipi_wf (d\<lparr>msip := (msip d)[i := a]\<rparr>) = ipi_wf d"
  "ipi_wf (d\<lparr>ipi_completes := (ipi_completes d)[i := c]\<rparr>) = ipi_wf d"
  "ipi_wf (bump h f d) = ipi_wf d"
  by (simp_all add: ipi_wf_def bump_def)

lemma bump_simps [simp]:
  "ipi_queues (bump h f d) = ipi_queues d" "ipi_completes (bump h f d) = ipi_completes d"
  "txId_last (bump h f d) = txId_last d" "txId_shadow (bump h f d) = txId_shadow d"
  "my_transaction_id (bump h f d) = my_transaction_id d" "msip (bump h f d) = msip d"
  "length (mpfs_ipi_privateData (bump h f d)) = length (mpfs_ipi_privateData d)"
  by (simp_all add: bump_def)

lemma set_slot_simps [simp]:
  "ipi_completes (set_slot i k m d) = ipi_completes d"
  "txId_last (set_slot i k m d) = txId_last d" "txId_shadow (set_slot i k m d) = txId_shadow d"
  "my_transaction_id (set_slot i k m d) = my_transaction_id d" "msip (set_slot i k m d) = msip d"
  "length (ipi_queues (set_slot i k m d)) = length (ipi_queues d)"
  "i < length (ipi_queues d) \<Longrightarrow>
     msgQ (ipi_queues (set_slot i k m d) ! i) = (msgQ (ipi_queues d ! i))[k := m]"
  "j \<noteq> i \<Longrightarrow> ipi_queues (set_slot i k m d) ! j = ipi_queues d ! j"
  by (simp_all add: set_slot_def)

lemma dec_count_simps [simp]:
  "ipi_completes (dec_count i d) = ipi_completes d"
  "txId_last (dec_count i d) = txId_last d" "txId_shadow (dec_count i d) = txId_shadow d"
  "my_transaction_id (dec_count i d) = my_transaction_id d" "msip (dec_count i d) = msip d"
  "length (ipi_queues (dec_count i d)) = length (ipi_queues d)"
  "j < length (ipi_queues d) \<Longrightarrow> msgQ (ipi_queues (dec_count i d) ! j) = msgQ (ipi_queues d ! j)"
  by (cases "j = i"; auto simp: dec_count_def Let_def)+

lemma queue_index_less: "s < 5 \<Longrightarrow> t < 5 \<Longrightarrow> s \<noteq> t \<Longrightarrow> IPI_CalculateQueueIndex s t < 20"
  by (auto simp: IPI_CalculateQueueIndex_def Let_def)

lemma queue_index_parts:
  assumes "s < 5" "t < 5" "s \<noteq> t"
  shows "IPI_CalculateQueueIndex s t div 4 = s"
    "IPI_CalculateQueueIndex s t mod 4 = (if t > s then t - 1 else t)"
proof -
  let ?r = "if t > s then t - 1 else t"
  have "IPI_CalculateQueueIndex s t = s * 4 + ?r" "?r < 4"
    using assms by (auto simp: IPI_CalculateQueueIndex_def Let_def)
  then show "IPI_CalculateQueueIndex s t div 4 = s" "IPI_CalculateQueueIndex s t mod 4 = ?r"
    by (simp_all only: div_mult_self3 mod_mult_self3 div_less mod_less)
qed

lemma queue_index_inj:
  assumes "IPI_CalculateQueueIndex s t = IPI_CalculateQueueIndex s' t'"
    and "s < 5" "t < 5" "s \<noteq> t" "s' < 5" "t' < 5" "s' \<noteq> t'"
  shows "s = s' \<and> t = t'"
proof -
  have "s = s'"
    using queue_index_parts(1) [OF assms(2-4)] queue_index_parts(1) [OF assms(5-7)] assms(1) by simp
  moreover have "(if t > s then t - 1 else t) = (if t' > s' then t' - 1 else t')"
    using queue_index_parts(2) [OF assms(2-4)] queue_index_parts(2) [OF assms(5-7)] assms(1) by simp
  ultimately show ?thesis using assms(4,7) by (auto split: if_splits)
qed

lemma set_slot_wf [hss_inv]: "ipi_wf d \<Longrightarrow> i < 20 \<Longrightarrow> ipi_wf (set_slot i k m d)"
  unfolding set_slot_def by (rule set_queue_wf) (simp_all add: ipi_wfD)

lemma clear_slot_wf [hss_inv]: "ipi_wf d \<Longrightarrow> i < 20 \<Longrightarrow> ipi_wf (clear_slot i k d)"
  unfolding clear_slot_def by (rule set_slot_wf)

lemma dec_count_wf [hss_inv]: "ipi_wf d \<Longrightarrow> i < 20 \<Longrightarrow> ipi_wf (dec_count i d)"
  unfolding dec_count_def Let_def by (auto intro!: set_queue_wf simp: ipi_wfD)

lemma drop_unhandled_wf [hss_inv]: "ipi_wf d \<Longrightarrow> i < 20 \<Longrightarrow> ipi_wf (drop_unhandled i t d)"
  unfolding drop_unhandled_def Let_def by (auto intro!: set_queue_wf simp: ipi_wfD)

lemma Raise_wf [hss_inv]:
  "ipi_wf d \<Longrightarrow> t < 5 \<Longrightarrow> \<exists>d'. CLINT_Raise_MSIP t d = Some (True, d') \<and> ipi_wf d'"
  by (simp add: CLINT_Raise_MSIP_def clint_set_MSIP_def)

lemma find_available_slot_less:
  "ipi_wf d \<Longrightarrow> i < 20 \<Longrightarrow> find_available_slot i d = Some k \<Longrightarrow> k < 4"
  unfolding find_available_slot_def by (auto dest: find_index_SomeD simp: ipi_wfD)

text \<open>What a send that found a slot leaves.\<close>

definition sent :: "hart_id \<Rightarrow> hart_id \<Rightarrow> nat \<Rightarrow> IPI_Outbox_Msg \<Rightarrow> IPI_Data \<Rightarrow> IPI_Data" where
  "sent me target k m d =
     (let i = IPI_CalculateQueueIndex me target;
          d = set_slot i k m d;
          d = d\<lparr>txId_last := (txId_last d)[i := transaction_id m]\<rparr>;
          d = d\<lparr>msip := (msip d)[target := 1]\<rparr>
      in bump target (\<lambda>p. p\<lparr>ipi_sends := ipi_sends p + 1\<rparr>) d)"

lemma IPI_Send_cases:
  assumes "ipi_wf d" "me < 5" "t < 5" "me \<noteq> t"
  shows "IPI_Send me t message txid imm ext anc d =
    Some (case find_available_slot (IPI_CalculateQueueIndex me t) d of
       None \<Rightarrow> (False, d)
     | Some k \<Rightarrow> (True, sent me t k \<lparr>msg_type = message, transaction_id = txid, immediate_arg = imm,
                    p_extended_buffer_in_ddr = ext, p_ancilliary_buffer_in_ddr = anc\<rparr> d))"
  using assms queue_index_less [of me t]
  by (auto simp: IPI_Send_def Let_def sent_def CLINT_Raise_MSIP_def clint_set_MSIP_def ipi_wfD
      split: option.splits)

lemma sent_wf [hss_inv]:
  "ipi_wf d \<Longrightarrow> me < 5 \<Longrightarrow> t < 5 \<Longrightarrow> me \<noteq> t \<Longrightarrow> ipi_wf (sent me t k m d)"
  unfolding sent_def Let_def
  using queue_index_less [of me t] set_slot_wf [of d "IPI_CalculateQueueIndex me t" k m]
  by (simp add: ipi_wf_def)

lemma sent_simps [simp]:
  "ipi_completes (sent me t k m d) = ipi_completes d"
  "txId_shadow (sent me t k m d) = txId_shadow d"
  "my_transaction_id (sent me t k m d) = my_transaction_id d"
  "txId_last (sent me t k m d) = (txId_last d)[IPI_CalculateQueueIndex me t := transaction_id m]"
  "ipi_queues (sent me t k m d) = ipi_queues (set_slot (IPI_CalculateQueueIndex me t) k m d)"
  by (simp_all add: sent_def Let_def)

lemma IPI_Send_wf:
  assumes "ipi_wf d" "me < 5" "t < 5" "me \<noteq> t"
  shows "\<exists>r d'. IPI_Send me t message txid imm ext anc d = Some (r, d') \<and> ipi_wf d'"
  using assms
  by (auto simp: IPI_Send_cases sent_wf split: option.splits prod.splits)

lemma send_ack_wf:
  assumes "ipi_wf d" "me < 5" "s < 5" "me \<noteq> s"
  shows "\<exists>d'. send_ack me s ty txid r d = Some d' \<and> ipi_wf d'"
proof -
  have "\<exists>d'. map_option snd (IPI_Send me s m txid a 0 0 d) = Some d' \<and> ipi_wf d'" for m a
    using IPI_Send_wf [OF assms, of m txid a 0 0] by auto
  then show ?thesis using assms(1) by (simp add: send_ack_def split: IPIStatusCode.split)
qed

lemma poll_queue_wf [hss_inv]: "ipi_wf d \<Longrightarrow> i < 20 \<Longrightarrow> ipi_wf (snd (poll_queue i d))"
  by (auto simp: poll_queue_def Let_def ipi_wfD intro!: set_queue_wf [of "d\<lparr>txId_shadow := _\<rparr>", simplified])

lemma poll_loop_wf [hss_inv]:
  "ipi_wf d \<Longrightarrow> me < 5 \<Longrightarrow> \<forall>i\<in>set is. i < 5 \<Longrightarrow> ipi_wf (snd (poll_loop me mk is r d))"
proof (induction "is" arbitrary: r d)
  case Nil
  then show ?case by simp
next
  case (Cons i "is")
  then show ?case
    using poll_queue_wf [of d "IPI_CalculateQueueIndex i me"] queue_index_less [of i me]
    by (auto simp: Let_def split: prod.splits)
qed

lemma IPI_PollReceive_wf [hss_inv]: "ipi_wf d \<Longrightarrow> me < 5 \<Longrightarrow> ipi_wf (snd (IPI_PollReceive me mk d))"
  unfolding IPI_PollReceive_def by (rule poll_loop_wf) auto

lemma IPI_MessageAlloc_wf [hss_inv]: "ipi_wf d \<Longrightarrow> ipi_wf (snd (IPI_MessageAlloc me d))"
  by (auto simp: IPI_MessageAlloc_def Let_def ipi_wf_def split: option.splits)

lemma IPI_MessageUpdateStatus_wf [hss_inv]:
  "ipi_wf d \<Longrightarrow> ipi_wf (snd (IPI_MessageUpdateStatus txid s d))"
  by (auto simp: IPI_MessageUpdateStatus_def split: option.splits)

lemma IPI_QueuesInit_wf [hss_inv]:
  "length (msip d) = 5 \<Longrightarrow> ipi_wf (fst (snd (IPI_QueuesInit d t)))"
  by (auto simp: IPI_QueuesInit_def ipi_wf_def)

text \<open>The enumeration is its own index.\<close>

lemma msg_num_less: "msg_num m < 20"
  by (cases m) (simp_all add: msg_num_def ipi_messages_def)

lemma ipi_messages_msg_num [simp]: "ipi_messages ! msg_num m = m"
  by (cases m) (simp_all add: msg_num_def ipi_messages_def)

end
