(* ===== verification/Ddr.thy ===== *)
theory Ddr
  imports Trigger State_Machine Ipi
begin

text \<open>
  The DDR service, \<open>services/ddr/ddr_api.c\<close> and \<open>services/ddr/ddr_service.c\<close>:
  where DDR lies, the request to train it that the E51 sends to U54_1, and the machine that
  waits for the training. The training itself is the vendor's \<open>HSS_DDRInit\<close>, a
  parameter here.
\<close>

section \<open>Addresses\<close>

text \<open>The linker script's symbols.\<close>

record DDR_Layout =
  ddr_start :: u64
  ddr_size :: u64
  ddrhi_start :: u64
  ddrhi_size :: u64

definition HSS_DDR_GetSize :: "DDR_Layout \<Rightarrow> u64" where "HSS_DDR_GetSize l = ddr_size l"
definition HSS_DDRHi_GetSize :: "DDR_Layout \<Rightarrow> u64" where "HSS_DDRHi_GetSize l = ddrhi_size l"
definition HSS_DDR_GetStart :: "DDR_Layout \<Rightarrow> u64" where "HSS_DDR_GetStart l = ddr_start l"
definition HSS_DDRHi_GetStart :: "DDR_Layout \<Rightarrow> u64" where "HSS_DDRHi_GetStart l = ddrhi_start l"

definition HSS_DDR_IsAddrInDDR :: "DDR_Layout \<Rightarrow> u64 \<Rightarrow> bool" where
  "HSS_DDR_IsAddrInDDR l addr \<longleftrightarrow>
     (addr \<ge> HSS_DDR_GetStart l \<and> addr \<le> HSS_DDR_GetStart l + HSS_DDR_GetSize l) \<or>
     (addr \<ge> HSS_DDRHi_GetStart l \<and> addr \<le> HSS_DDRHi_GetStart l + HSS_DDRHi_GetSize l)"

section \<open>Training\<close>

text \<open>The result of the send is not looked at.\<close>

definition HSS_DDR_Train :: "IPI_Data \<Rightarrow> IPI_Data option" where
  "HSS_DDR_Train d = map_option snd (IPI_Send HSS_HART_E51 HSS_HART_U54_1 IPI_MSG_DDR_TRAIN 0 0 0 0 d)"

text \<open>On U54_1: \<open>train\<close> stands for the calls of \<open>HSS_DDRInit\<close>,
  \<open>HSS_ZeroDDR\<close> and the memory test.\<close>

definition HSS_DDR_Train_IPIHandler :: "('x \<Rightarrow> 'x) \<Rightarrow> (HSS_Triggers \<times> 'x) ipi_handler" where
  "HSS_DDR_Train_IPIHandler train txid source imm ext anc = (\<lambda>(d, t, x).
     Some (IPI_IDLE, d, HSS_Trigger_Notify EVENT_DDR_TRAINED t, train x))"

section \<open>The machine\<close>

abbreviation (input) DDR_INITIALIZATION :: int where "DDR_INITIALIZATION \<equiv> 0"
abbreviation (input) DDR_TRAIN :: int where "DDR_TRAIN \<equiv> 1"
abbreviation (input) DDR_IDLE :: int where "DDR_IDLE \<equiv> 2"
abbreviation (input) DDR_RETRAIN :: int where "DDR_RETRAIN \<equiv> 3"
abbreviation (input) DDR_NUM_STATES :: nat where "DDR_NUM_STATES \<equiv> 3"

text \<open>\<open>LIBERO_SETTING_MSS_RTC_TOGGLE_CLK\<close> is 1 MHz on the kit.\<close>

abbreviation (input) ONE_SEC :: u64 where "ONE_SEC \<equiv> 1000000"
abbreviation (input) DDR_IDLE_PERIODIC_TIMEOUT :: u64
  where "DDR_IDLE_PERIODIC_TIMEOUT \<equiv> 1000000 * 60 * 60 * 10"

text \<open>What the machine sees: the bus, the triggers and the clock of the present step.\<close>

record Bus_World =
  bw_ipi :: IPI_Data
  bw_triggers :: HSS_Triggers
  bw_now :: u64

definition ddr_init_handler :: "'z Bus_World_scheme hook" where
  "ddr_init_handler m w =
     (if HSS_Trigger_IsNotified True EVENT_IPI_INITIALIZED (bw_triggers w) then do {
        d \<leftarrow> HSS_DDR_Train (bw_ipi w);
        Some (m\<lparr>state := DDR_TRAIN\<rparr>, w\<lparr>bw_ipi := d\<rparr>) }
      else Some (m, w))"

definition ddr_train_handler :: "'z Bus_World_scheme hook" where
  "ddr_train_handler m w =
     Some (if HSS_Trigger_IsNotified True EVENT_DDR_TRAINED (bw_triggers w) then m\<lparr>state := DDR_IDLE\<rparr> else m, w)"

definition ddr_idle_handler :: "'z Bus_World_scheme hook" where
  "ddr_idle_handler m w =
     Some (if HSS_Timer_IsElapsed (bw_now w) (startTime m) DDR_IDLE_PERIODIC_TIMEOUT
           then m\<lparr>state := DDR_RETRAIN\<rparr> else m, w)"

definition ddr_retrain_handler :: "'z Bus_World_scheme hook" where
  "ddr_retrain_handler m w = Some (m\<lparr>state := DDR_IDLE\<rparr>, w)"

definition ddr_state_descs :: "'z Bus_World_scheme StateDesc list" where
  "ddr_state_descs =
     [\<lparr>sd_state = DDR_INITIALIZATION, state_onEntry = None, state_onExit = None, state_handler = Some ddr_init_handler\<rparr>,
      \<lparr>sd_state = DDR_TRAIN, state_onEntry = None, state_onExit = None, state_handler = Some ddr_train_handler\<rparr>,
      \<lparr>sd_state = DDR_IDLE, state_onEntry = None, state_onExit = None, state_handler = Some ddr_idle_handler\<rparr>,
      \<lparr>sd_state = DDR_RETRAIN, state_onEntry = None, state_onExit = None, state_handler = Some ddr_retrain_handler\<rparr>]"

definition ddr_service :: StateMachine where
  "ddr_service = machine_init DDR_NUM_STATES"

section \<open>Safety\<close>

definition bus_world_ok :: "'z Bus_World_scheme \<Rightarrow> bool" where
  "bus_world_ok w \<longleftrightarrow> ipi_wf (bw_ipi w)"

lemma bus_world_ok_update [simp]:
  "bus_world_ok (w\<lparr>bw_ipi := d\<rparr>) = ipi_wf d"
  by (simp add: bus_world_ok_def)

lemma HSS_DDR_Train_wf: "ipi_wf d \<Longrightarrow> \<exists>d'. HSS_DDR_Train d = Some d' \<and> ipi_wf d'"
  using IPI_Send_wf [of d 0 1 IPI_MSG_DDR_TRAIN 0 0 0 0] by (auto simp: HSS_DDR_Train_def)

lemma length_ddr [simp]: "length ddr_state_descs = 4"
  by (simp add: ddr_state_descs_def)

lemma ddr_hooks:
  "hook_ok ddr_state_descs bus_world_ok ddr_init_handler"
  "hook_ok ddr_state_descs bus_world_ok ddr_train_handler"
  "hook_ok ddr_state_descs bus_world_ok ddr_idle_handler"
  "hook_ok ddr_state_descs bus_world_ok ddr_retrain_handler"
proof -
  show "hook_ok ddr_state_descs bus_world_ok ddr_init_handler"
  proof (rule hook_okI, goal_cases)
    case (1 m w)
    obtain d where "HSS_DDR_Train (bw_ipi w) = Some d" "ipi_wf d"
      using HSS_DDR_Train_wf 1(2) by (auto simp: bus_world_ok_def)
    then show ?case using 1 by (simp add: ddr_init_handler_def)
  qed
qed (rule hook_okI, simp add: ddr_train_handler_def ddr_idle_handler_def ddr_retrain_handler_def)+

interpretation ddr: service_machine ddr_state_descs bus_world_ok
proof unfold_locales
  fix i :: nat assume "i < length ddr_state_descs"
  then have "i = 0 \<or> i = 1 \<or> i = 2 \<or> i = 3" by auto
  then show "sd_state (ddr_state_descs ! i) = int i"
    by (elim disjE) (simp_all add: ddr_state_descs_def)
next
  fix d assume d: "d \<in> set ddr_state_descs"
  show "desc_ok ddr_state_descs bus_world_ok d"
    using d [unfolded ddr_state_descs_def] ddr_hooks by (auto simp: desc_ok_entry)
qed

section \<open>Properties\<close>

text \<open>
  \<open>HSS_DDR_IsAddrInDDR\<close> against the region it is meant to test: on every address
  but the two one past the end of a bank it is membership in one of the banks, and it accepts
  those two as well.
\<close>

definition in_bank :: "u64 \<Rightarrow> u64 \<Rightarrow> u64 \<Rightarrow> bool" where
  "in_bank a s n \<longleftrightarrow> unat s \<le> unat a \<and> unat a < unat s + unat n"

theorem ddr_membership:
  assumes "unat (ddr_start l) + unat (ddr_size l) < 2 ^ 64"
    and "unat (ddrhi_start l) + unat (ddrhi_size l) < 2 ^ 64"
  shows "HSS_DDR_IsAddrInDDR l a \<longleftrightarrow>
    in_bank a (ddr_start l) (ddr_size l) \<or> in_bank a (ddrhi_start l) (ddrhi_size l) \<or>
    a = ddr_start l + ddr_size l \<or> a = ddrhi_start l + ddrhi_size l"
proof -
  have bank: "(a \<ge> s \<and> a \<le> s + n) \<longleftrightarrow> in_bank a s n \<or> a = s + n"
    if "unat s + unat n < 2 ^ 64" for s n
  proof -
    have sum: "unat (s + n) = unat s + unat n" using that by (simp add: unat_word_ariths)
    show ?thesis by (auto simp: in_bank_def word_le_nat_alt sum word_unat_eq_iff)
  qed
  show ?thesis
    using bank [OF assms(1)] bank [OF assms(2)]
    by (auto simp: HSS_DDR_IsAddrInDDR_def HSS_DDR_GetStart_def HSS_DDR_GetSize_def
        HSS_DDRHi_GetStart_def HSS_DDRHi_GetSize_def)
qed

theorem ddr_membership_witness:
  "let l = \<lparr>ddr_start = 0x80000000, ddr_size = 0x10000000, ddrhi_start = 0x1000000000, ddrhi_size = 0x10000000\<rparr>
   in HSS_DDR_IsAddrInDDR l 0x90000000 \<and> \<not> in_bank 0x90000000 (ddr_start l) (ddr_size l)"
  using ddr_membership [of "\<lparr>ddr_start = 0x80000000, ddr_size = 0x10000000,
      ddrhi_start = 0x1000000000, ddrhi_size = 0x10000000\<rparr>" "0x90000000"]
  by (simp add: Let_def in_bank_def)

end
