(* ===== verification/Perfctr.thy ===== *)
theory Perfctr
  imports Hss_Base
begin

text \<open>
  The performance counters, \<open>modules/debug/hss_perfctr.c\<close>, with
  \<open>CONFIG_DEBUG_PERF_CTRS\<close> and its 16 counters. A counter is handed out as an index
  into the table; \<open>None\<close> is a failed assertion. The clock reading of an operation is
  its argument \<open>now\<close>.
\<close>

section \<open>Data\<close>

abbreviation (input) CONFIG_DEBUG_PERF_CTRS_NUM :: nat where "CONFIG_DEBUG_PERF_CTRS_NUM \<equiv> 16"
abbreviation (input) PERF_CTR_UNINITIALIZED :: int where "PERF_CTR_UNINITIALIZED \<equiv> - 1"

record PerfCtr =
  pc_name :: "string option"
  isAllocated :: bool
  pc_startTime :: u64
  lapTime :: u64

type_synonym perf_ctrs = "PerfCtr list"

definition perfCtrs_static :: perf_ctrs where
  "perfCtrs_static = replicate CONFIG_DEBUG_PERF_CTRS_NUM
     \<lparr>pc_name = None, isAllocated = False, pc_startTime = 0, lapTime = 0\<rparr>"

section \<open>Operations\<close>

text \<open>The result, the index written back and the table.\<close>

definition HSS_PerfCtr_Allocate :: "u64 \<Rightarrow> int \<Rightarrow> string \<Rightarrow> perf_ctrs \<Rightarrow> bool \<times> int \<times> perf_ctrs" where
  "HSS_PerfCtr_Allocate now pIdx pName t =
     (if 0 \<le> pIdx \<and> nat pIdx < length t then
        (isAllocated (t ! nat pIdx) \<and> pc_name (t ! nat pIdx) = Some pName, pIdx, t)
      else case find_index (\<lambda>c. \<not> isAllocated c) t of
        None \<Rightarrow> (False, PERF_CTR_UNINITIALIZED, t)
      | Some index \<Rightarrow> (True, int index, t[index := (t ! index)
          \<lparr>isAllocated := True, pc_name := Some pName, pc_startTime := now\<rparr>]))"

text \<open>
  \<open>assert(index < ARRAY_SIZE(perfCtrs))\<close> compares unsigned, so it also fails on a
  negative index.
\<close>

definition with_ctr :: "int \<Rightarrow> (PerfCtr \<Rightarrow> PerfCtr) \<Rightarrow> perf_ctrs \<Rightarrow> perf_ctrs option" where
  "with_ctr index f t =
     (if index = PERF_CTR_UNINITIALIZED then Some t
      else if index < 0 \<or> nat index \<ge> length t then None
      else Some (t[nat index := f (t ! nat index)]))"

definition HSS_PerfCtr_Deallocate :: "int \<Rightarrow> perf_ctrs \<Rightarrow> perf_ctrs option" where
  "HSS_PerfCtr_Deallocate index =
     with_ctr index (\<lambda>c. if isAllocated c then c\<lparr>isAllocated := False, pc_name := None\<rparr> else c)"

definition HSS_PerfCtr_Start :: "u64 \<Rightarrow> int \<Rightarrow> perf_ctrs \<Rightarrow> perf_ctrs option" where
  "HSS_PerfCtr_Start now index = with_ctr index (\<lambda>c. c\<lparr>pc_startTime := now\<rparr>)"

definition HSS_PerfCtr_Lap :: "u64 \<Rightarrow> int \<Rightarrow> perf_ctrs \<Rightarrow> perf_ctrs option" where
  "HSS_PerfCtr_Lap now index = with_ctr index (\<lambda>c. c\<lparr>lapTime := now\<rparr>)"

definition HSS_PerfCtr_GetTime :: "int \<Rightarrow> perf_ctrs \<Rightarrow> u64 option" where
  "HSS_PerfCtr_GetTime index t =
     (if index = PERF_CTR_UNINITIALIZED then Some 0
      else if index < 0 \<or> nat index \<ge> length t then None
      else Some (lapTime (t ! nat index) - pc_startTime (t ! nat index)))"

section \<open>Lemmas\<close>

text \<open>An index a client may hold: unset, or inside the table.\<close>

definition ctr_ok :: "int \<Rightarrow> perf_ctrs \<Rightarrow> bool" where
  "ctr_ok index t \<longleftrightarrow> index = PERF_CTR_UNINITIALIZED \<or> (0 \<le> index \<and> nat index < length t)"

lemma allocate_length: "length (snd (snd (HSS_PerfCtr_Allocate now i name t))) = length t"
  by (auto simp: HSS_PerfCtr_Allocate_def split: option.split)

lemma allocate_index_ok:
  "ctr_ok (fst (snd (HSS_PerfCtr_Allocate now i name t))) (snd (snd (HSS_PerfCtr_Allocate now i name t)))"
  by (auto simp: HSS_PerfCtr_Allocate_def ctr_ok_def split: option.split dest: find_index_SomeD)

lemma with_ctr_ok:
  "ctr_ok i t \<Longrightarrow> \<exists>t'. with_ctr i f t = Some t' \<and> length t' = length t"
  by (auto simp: with_ctr_def ctr_ok_def)

lemma lap_ok: "ctr_ok i t \<Longrightarrow> \<exists>t'. HSS_PerfCtr_Lap now i t = Some t' \<and> length t' = length t"
  unfolding HSS_PerfCtr_Lap_def by (rule with_ctr_ok)

lemma with_ctr_nth:
  "with_ctr (int k) f t = Some t' \<Longrightarrow> k < length t \<and> t' = t[k := f (t ! k)]"
  by (auto simp: with_ctr_def split: if_splits)

section \<open>Properties\<close>

text \<open>
  A fresh request for a counter takes the lowest free slot and changes no other one: the
  counters other clients hold keep their names and times, and a request fails, leaving the
  table alone, only when all slots are taken. From then on the time between the allocation
  and a lap, with wrap-around, is what the counter reports.
\<close>

theorem perfctr_measures:
  assumes "pIdx < 0" and "HSS_PerfCtr_Allocate t0 pIdx name t = (True, i, t')"
  shows "\<exists>k. i = int k \<and> k < length t \<and> \<not> isAllocated (t ! k) \<and> (\<forall>j < k. isAllocated (t ! j)) \<and>
    (\<forall>j. j \<noteq> k \<longrightarrow> t' ! j = t ! j) \<and>
    (\<exists>t''. HSS_PerfCtr_Lap t1 i t' = Some t'' \<and> HSS_PerfCtr_GetTime i t'' = Some (t1 - t0) \<and>
       (\<forall>j. j \<noteq> k \<longrightarrow> t'' ! j = t ! j))"
proof -
  obtain k where k: "find_index (\<lambda>c. \<not> isAllocated c) t = Some k" and i: "i = int k"
    and t': "t' = t[k := (t ! k)\<lparr>isAllocated := True, pc_name := Some name, pc_startTime := t0\<rparr>]"
    using assms by (auto simp: HSS_PerfCtr_Allocate_def split: option.splits)
  note free = find_index_SomeD [OF k]
  show ?thesis
    using free by (intro exI [of _ k])
      (auto simp: i t' HSS_PerfCtr_Lap_def HSS_PerfCtr_GetTime_def with_ctr_def)
qed

theorem perfctr_measures_witness:
  "HSS_PerfCtr_Lap 0x10 0 (snd (snd (HSS_PerfCtr_Allocate 7 (- 1) ''boot'' perfCtrs_static)))
     \<bind> HSS_PerfCtr_GetTime 0 = Some 9"
proof -
  have "HSS_PerfCtr_Allocate 7 (- 1) ''boot'' perfCtrs_static =
    (True, 0, perfCtrs_static[0 := (perfCtrs_static ! 0)
      \<lparr>isAllocated := True, pc_name := Some ''boot'', pc_startTime := 7\<rparr>])"
    by (simp add: HSS_PerfCtr_Allocate_def perfCtrs_static_def numeral_eq_Suc)
  from perfctr_measures [OF _ this, of "0x10"] show ?thesis
    unfolding \<open>HSS_PerfCtr_Allocate 7 (- 1) ''boot'' perfCtrs_static = _\<close> by auto
qed

end
