(* ===== verification/Memcpy.thy ===== *)
theory Memcpy
  imports Hss_Base
begin

text \<open>
  Copies: \<open>modules/misc/hss_memcpy_via_pdma.c\<close>, and what reading and writing ranges of
  memory does.
\<close>

text \<open>An assertion; a failing one stops the program.\<close>

definition require :: "bool \<Rightarrow> unit option" where
  "require b = (if b then Some () else None)"

text \<open>\<open>memcpy_via_pdma\<close> asserts that the areas do not overlap.\<close>

definition memcpy_via_pdma :: "u64 \<Rightarrow> u64 \<Rightarrow> nat \<Rightarrow> memory \<Rightarrow> memory option" where
  "memcpy_via_pdma dest src n m =
     (if (if dest > src then src + of_nat n - 1 < dest else dest + of_nat n - 1 < src)
      then Some (mem_write m dest (mem_read m src n)) else None)"

lemma mem_read_append: "mem_read m a (i + j) = mem_read m a i @ mem_read m (a + of_nat i) j"
  by (intro nth_equalityI) (auto simp: nth_mem_read nth_append add.assoc simp flip: of_nat_add)

lemma mem_write_append: "mem_write m a (xs @ ys) = mem_write (mem_write m a xs) (a + of_nat (length xs)) ys"
  by (induction xs arbitrary: m a) (simp_all add: add.assoc)

lemma word_range_eq:
  assumes "unat a + n < 2 ^ 64" "i \<le> n"
  shows "unat (a + of_nat i) = unat (a :: u64) + i"
proof -
  have "unat (of_nat i :: u64) = i" using assms by (simp add: unsigned_of_nat take_bit_nat_eq_self)
  then show ?thesis using assms by (simp add: unat_word_ariths)
qed

lemma unat_of_nat_u64: "n < 2 ^ 64 \<Longrightarrow> unat (of_nat n :: u64) = n"
  by (simp add: unsigned_of_nat take_bit_nat_eq_self)

lemma mem_read_bytes:
  "mem_read m a 8 = [m a, m (a + 1), m (a + 2), m (a + 3), m (a + 4), m (a + 5), m (a + 6), m (a + 7)]"
  "mem_read m a 4 = [m a, m (a + 1), m (a + 2), m (a + 3)]"
  by (simp_all add: eval_nat_numeral add.commute)

text \<open>Two ranges that neither wrap nor meet.\<close>

definition apart :: "u64 \<Rightarrow> u64 \<Rightarrow> nat \<Rightarrow> bool" where
  "apart d s n \<longleftrightarrow> unat s + n < 2 ^ 64 \<and> unat d + n < 2 ^ 64 \<and> (unat s + n \<le> unat d \<or> unat d + n \<le> unat s)"

lemma apart_le: "apart d s n \<Longrightarrow> k \<le> n \<Longrightarrow> apart d s k"
  by (auto simp: apart_def)

lemma memcpy_apart:
  assumes "apart d s n" "0 < n"
  shows "memcpy_via_pdma d s n m = Some (mem_write m d (mem_read m s n))"
proof -
  have e: "x + of_nat n - 1 = x + of_nat (n - 1)" for x :: u64 using assms(2) by (simp add: of_nat_diff)
  have "unat (x + of_nat n - 1) = unat x + (n - 1)" if "unat x + n < 2 ^ 64" for x :: u64
    unfolding e using word_range_eq [OF that, of "n - 1"] by simp
  then show ?thesis
    using assms unfolding memcpy_via_pdma_def apart_def word_less_nat_alt by auto
qed

lemma apart_unaffected:
  assumes "apart d s n" "length bs \<le> n" "i < n"
  shows "mem_write m d bs (s + of_nat i) = m (s + of_nat i)"
proof (rule mem_write_other, intro allI impI notI)
  fix j assume j: "j < length bs" and e: "s + of_nat i = d + of_nat j"
  have "unat s + n < 2 ^ 64" "unat d + n < 2 ^ 64" using assms(1) by (simp_all add: apart_def)
  then have "unat s + i = unat d + j"
    using e word_range_eq [of s n i] word_range_eq [of d n j] assms(2,3) j by simp
  then show False using assms j by (auto simp: apart_def)
qed

lemma mem_write_same:
  "(\<And>i. i < length bs \<Longrightarrow> m (a + of_nat i) = bs ! i) \<Longrightarrow> mem_write m a bs = m"
proof (induction bs arbitrary: a)
  case Nil
  then show ?case by simp
next
  case (Cons b bs)
  have "m(a := b) = m" using Cons.prems [of 0] by auto
  moreover have "m (a + 1 + of_nat i) = bs ! i" if "i < length bs" for i
    using Cons.prems [of "Suc i"] that by (simp add: add.assoc)
  ultimately show ?case using Cons.IH [of "a + 1"] by simp
qed

text \<open>Copying a prefix again changes nothing.\<close>

lemma recopy:
  assumes "apart d s n" "k \<le> n"
  shows "mem_write (mem_write m d (mem_read m s n)) d (mem_read (mem_write m d (mem_read m s n)) s k) =
    mem_write m d (mem_read m s n)"
proof (rule mem_write_same)
  fix i assume "i < length (mem_read (mem_write m d (mem_read m s n)) s k)"
  then have i: "i < k" by simp
  have "n \<le> 2 ^ 64" using assms(1) by (simp add: apart_def)
  then show "mem_write m d (mem_read m s n) (d + of_nat i) =
      mem_read (mem_write m d (mem_read m s n)) s k ! i"
    using i assms by (simp add: mem_write_nth nth_mem_read apart_unaffected)
qed

end
