(* ===== verification/Memtest.thy ===== *)
theory Memtest
  imports Ddr Perfctr Memcpy
begin

text \<open>
  The memory test of \<open>modules/misc/hss_memtest.c\<close>, run after DDR training and from the
  command line. The memory under test is a parameter, a load and a store of 64-bit words over
  a state, so that the theorems speak about faulty memories too; an index is a
  \<open>size_t\<close> and wraps. The keys waiting on the serial line are the answers to the
  successive polls of \<open>check_if_interrupted\<close>. Progress and log output is left out.
\<close>

section \<open>Memory and keys\<close>

record 's Mem_If =
  mem_load :: "u64 \<Rightarrow> 's \<Rightarrow> u64"
  mem_store :: "u64 \<Rightarrow> u64 \<Rightarrow> 's \<Rightarrow> 's"

text \<open>\<open>\&baseAddr[offset]\<close>.\<close>

definition word_addr :: "u64 \<Rightarrow> u64 \<Rightarrow> u64" where
  "word_addr baseAddr offset = baseAddr + 8 * offset"

type_synonym keys = "u8 option list"

definition check_if_interrupted :: "keys \<Rightarrow> bool \<times> keys" where
  "check_if_interrupted u = (case u of [] \<Rightarrow> (False, []) | k # ks \<Rightarrow> (k = Some 3 \<or> k = Some 27, ks))"

section \<open>Walking one bit up a word\<close>

text \<open>How often a value can be shifted before it is 0: the measure of the walking loops.\<close>

definition shifts :: "u64 \<Rightarrow> nat" where
  "shifts x = (LEAST n. push_bit n x = 0)"

lemma shifts_less:
  assumes "x \<noteq> 0"
  shows "shifts (push_bit 1 x) < shifts x"
proof -
  have z: "push_bit 64 x = 0" by (rule bit_word_eqI) (simp add: bit_simps)
  have s: "push_bit (shifts x) x = 0" unfolding shifts_def by (rule LeastI) (rule z)
  then obtain n where n: "shifts x = Suc n" using assms by (cases "shifts x") auto
  have "push_bit n (push_bit 1 x) = 0" using s n by (simp add: push_bit_push_bit)
  then have "shifts (push_bit 1 x) \<le> n" unfolding shifts_def by (rule Least_le)
  then show ?thesis using n by simp
qed

section \<open>The tests\<close>

text \<open>\<open>HSS_MemTestDataBus\<close>: the first pattern that is not read back, 0 for none.\<close>

function data_bus_loop :: "'s Mem_If \<Rightarrow> u64 \<Rightarrow> u64 \<Rightarrow> 's \<Rightarrow> u64 \<times> 's" where
  "data_bus_loop M address pattern s =
     (if pattern = 0 then (0, s)
      else let s = mem_store M address pattern s in
        if mem_load M address s \<noteq> pattern then (pattern, s)
        else data_bus_loop M address (push_bit 1 pattern) s)"
  by pat_completeness auto
termination by (relation "measure (\<lambda>(M, a, p, s). shifts p)") (auto simp: shifts_less [simplified])

declare data_bus_loop.simps [simp del]

definition HSS_MemTestDataBus :: "'s Mem_If \<Rightarrow> u64 \<Rightarrow> 's \<Rightarrow> u64 \<times> 's" where
  "HSS_MemTestDataBus M address s = data_bus_loop M address 1 s"

abbreviation (input) pattern_A :: u64 where "pattern_A \<equiv> 0xAAAAAAAAAAAAAAAA"
abbreviation (input) pattern_5 :: u64 where "pattern_5 \<equiv> 0x5555555555555555"

text \<open>The loops of \<open>HSS_MemTestAddressBus\<close>. The first component of the first two is a
  key press that ends the test.\<close>

function addr_set_loop :: "'s Mem_If \<Rightarrow> u64 \<Rightarrow> u64 \<Rightarrow> u64 \<Rightarrow> 's \<Rightarrow> keys \<Rightarrow> bool \<times> 's \<times> keys" where
  "addr_set_loop M base addrMask offset s u =
     (if offset AND addrMask = 0 then (False, s, u)
      else let s = mem_store M (word_addr base offset) pattern_A s; (i, u) = check_if_interrupted u in
        if i then (True, s, u) else addr_set_loop M base addrMask (push_bit 1 offset) s u)"
  by pat_completeness auto
termination by (relation "measure (\<lambda>(M, b, m, x, s, u). shifts x)") (auto intro!: shifts_less [simplified])

function addr_verify_loop :: "'s Mem_If \<Rightarrow> u64 \<Rightarrow> u64 \<Rightarrow> u64 \<Rightarrow> 's \<Rightarrow> keys \<Rightarrow> bool \<times> u64 option \<times> keys" where
  "addr_verify_loop M base addrMask offset s u =
     (if offset AND addrMask = 0 then (False, None, u)
      else if mem_load M (word_addr base offset) s \<noteq> pattern_A then (False, Some (word_addr base offset), u)
      else let (i, u) = check_if_interrupted u in
        if i then (True, None, u) else addr_verify_loop M base addrMask (push_bit 1 offset) s u)"
  by pat_completeness auto
termination by (relation "measure (\<lambda>(M, b, m, x, s, u). shifts x)") (auto intro!: shifts_less [simplified])

function addr_others_loop :: "'s Mem_If \<Rightarrow> u64 \<Rightarrow> u64 \<Rightarrow> u64 \<Rightarrow> u64 \<Rightarrow> 's \<Rightarrow> bool" where
  "addr_others_loop M base addrMask testOffset offset s =
     (if offset AND addrMask = 0 then False
      else if mem_load M (word_addr base offset) s \<noteq> pattern_A \<and> offset \<noteq> testOffset then True
      else addr_others_loop M base addrMask testOffset (push_bit 1 offset) s)"
  by pat_completeness auto
termination by (relation "measure (\<lambda>(M, b, m, t, x, s). shifts x)") (auto intro!: shifts_less [simplified])

text \<open>The loop over \<open>testOffset\<close>. When another word has changed both offsets become 0,
  which ends it after the poll.\<close>

function addr_walk_loop :: "'s Mem_If \<Rightarrow> u64 \<Rightarrow> u64 \<Rightarrow> u64 \<Rightarrow> 's \<Rightarrow> keys \<Rightarrow> u64 option \<times> 's \<times> keys" where
  "addr_walk_loop M base addrMask testOffset s u =
     (if testOffset AND addrMask = 0 then (None, s, u)
      else let s = mem_store M (word_addr base testOffset) pattern_5 s in
        if mem_load M (word_addr base 0) s \<noteq> pattern_A then (Some (word_addr base testOffset), s, u)
        else if addr_others_loop M base addrMask testOffset 1 s
        then (Some (word_addr base testOffset), s, snd (check_if_interrupted u))
        else let s = mem_store M (word_addr base testOffset) pattern_A s; (i, u) = check_if_interrupted u in
          if i then (None, s, u) else addr_walk_loop M base addrMask (push_bit 1 testOffset) s u)"
  by pat_completeness auto
termination by (relation "measure (\<lambda>(M, b, m, x, s, u). shifts x)") (auto intro!: shifts_less [simplified])

declare addr_set_loop.simps [simp del] addr_verify_loop.simps [simp del]
  addr_others_loop.simps [simp del] addr_walk_loop.simps [simp del]

definition HSS_MemTestAddressBus :: "'s Mem_If \<Rightarrow> u64 \<Rightarrow> u64 \<Rightarrow> 's \<Rightarrow> keys \<Rightarrow> u64 option \<times> 's \<times> keys" where
  "HSS_MemTestAddressBus M baseAddr numBytes s u =
     (let numWords = numBytes div 8; addrMask = numWords - 1;
          (i, s, u) = addr_set_loop M baseAddr addrMask 1 s u in
      if i then (None, s, u)
      else let s = mem_store M (word_addr baseAddr 0) pattern_5 s;
          (i, result, u) = addr_verify_loop M baseAddr addrMask 1 s u in
        if i then (None, s, u)
        else let s = mem_store M (word_addr baseAddr 0) pattern_A s in
          if result = None then addr_walk_loop M baseAddr addrMask 1 s u else (result, s, u))"

text \<open>The three loops of \<open>HSS_MemTestDevice\<close>.\<close>

function device_seed_loop :: "'s Mem_If \<Rightarrow> u64 \<Rightarrow> nat \<Rightarrow> u64 \<Rightarrow> nat \<Rightarrow> 's \<Rightarrow> keys \<Rightarrow> bool \<times> 's \<times> keys" where
  "device_seed_loop M base numWords pattern offset s u =
     (if offset < numWords then
        let s = mem_store M (word_addr base (of_nat offset)) pattern s; (i, u) = check_if_interrupted u in
        if i then (True, s, u) else device_seed_loop M base numWords (pattern + 1) (offset + 1) s u
      else (False, s, u))"
  by pat_completeness auto
termination by (relation "measure (\<lambda>(M, b, n, p, x, s, u). n - x)") auto

function device_invert_loop :: "'s Mem_If \<Rightarrow> u64 \<Rightarrow> nat \<Rightarrow> u64 \<Rightarrow> nat \<Rightarrow> 's \<Rightarrow> keys \<Rightarrow> bool \<times> u64 option \<times> 's \<times> keys" where
  "device_invert_loop M base numWords pattern offset s u =
     (if offset < numWords then
        if mem_load M (word_addr base (of_nat offset)) s \<noteq> pattern
        then (False, Some (word_addr base (of_nat offset)), s, u)
        else let s = mem_store M (word_addr base (of_nat offset)) (NOT pattern) s;
            (i, u) = check_if_interrupted u in
          if i then (True, None, s, u)
          else device_invert_loop M base numWords (pattern + 1) (offset + 1) s u
      else (False, None, s, u))"
  by pat_completeness auto
termination by (relation "measure (\<lambda>(M, b, n, p, x, s, u). n - x)") auto

function device_check_loop :: "'s Mem_If \<Rightarrow> u64 \<Rightarrow> nat \<Rightarrow> u64 \<Rightarrow> nat \<Rightarrow> 's \<Rightarrow> keys \<Rightarrow> u64 option \<times> keys" where
  "device_check_loop M base numWords pattern offset s u =
     (if offset < numWords then
        if mem_load M (word_addr base (of_nat offset)) s \<noteq> NOT pattern
        then (Some (word_addr base (of_nat offset)), u)
        else let (i, u) = check_if_interrupted u in
          if i then (None, u) else device_check_loop M base numWords (pattern + 1) (offset + 1) s u
      else (None, u))"
  by pat_completeness auto
termination by (relation "measure (\<lambda>(M, b, n, p, x, s, u). n - x)") auto

declare device_seed_loop.simps [simp del] device_invert_loop.simps [simp del] device_check_loop.simps [simp del]

definition HSS_MemTestDevice :: "'s Mem_If \<Rightarrow> u64 \<Rightarrow> u64 \<Rightarrow> 's \<Rightarrow> keys \<Rightarrow> u64 option \<times> 's \<times> keys" where
  "HSS_MemTestDevice M baseAddr numBytes s u =
     (let numWords = unat numBytes div 8; (i, s, u) = device_seed_loop M baseAddr numWords 1 0 s u in
      if i then (None, s, u)
      else let (i, result, s, u) = device_invert_loop M baseAddr numWords 1 0 s u in
        if i \<or> result \<noteq> None then (result, s, u)
        else let (result, u) = device_check_loop M baseAddr numWords 1 0 s u in (result, s, u))"

text \<open>\<open>clear_bootup_cache_ways\<close> belongs to the vendor's library: \<open>clear\<close>.\<close>

definition HSS_MemTestDDR_Ex :: "('s \<Rightarrow> 's) \<Rightarrow> 's Mem_If \<Rightarrow> u64 \<Rightarrow> u64 \<Rightarrow> 's \<Rightarrow> keys \<Rightarrow> bool \<times> 's \<times> keys" where
  "HSS_MemTestDDR_Ex clear M baseAddr numBytes s u =
     (let (d, s) = HSS_MemTestDataBus M baseAddr s in
      if d \<noteq> 0 then (False, clear s, u)
      else let (a, s, u) = HSS_MemTestAddressBus M baseAddr numBytes s u in
        if a \<noteq> None then (False, clear s, u)
        else let (v, s, u) = HSS_MemTestDevice M baseAddr numBytes s u in (v = None, clear s, u))"

text \<open>One bank of the fast test.\<close>

definition fast_bank :: "'s Mem_If \<Rightarrow> u64 \<Rightarrow> u64 \<Rightarrow> 's \<Rightarrow> keys \<Rightarrow> bool \<times> 's \<times> keys" where
  "fast_bank M baseAddr numBytes s u =
     (let (d, s) = HSS_MemTestDataBus M baseAddr s in
      if d \<noteq> 0 then (False, s, u)
      else let (a, s, u) = HSS_MemTestAddressBus M baseAddr numBytes s u in (a = None, s, u))"

text \<open>The two static counter indices and the counter table, with the clock readings
  \<open>now\<close>.\<close>

type_synonym test_ctrs = "int \<times> int \<times> perf_ctrs"

definition HSS_MemTestDDRFast :: "('s \<Rightarrow> 's) \<Rightarrow> 's Mem_If \<Rightarrow> DDR_Layout \<Rightarrow> (nat \<Rightarrow> u64) \<Rightarrow>
  's \<Rightarrow> keys \<Rightarrow> test_ctrs \<Rightarrow> (bool \<times> 's \<times> keys \<times> test_ctrs) option" where
  "HSS_MemTestDDRFast clear M l now s u = (\<lambda>(mem32, mem64, t).
     let (_, mem32, t) = HSS_PerfCtr_Allocate (now 0) mem32 ''MemTest(DDR32)'' t;
         (lo, s, u) = fast_bank M (HSS_DDR_GetStart l) (HSS_DDR_GetSize l) s u in
     do {
       t \<leftarrow> HSS_PerfCtr_Lap (now 1) mem32 t;
       let (_, mem64, t) = HSS_PerfCtr_Allocate (now 2) mem64 ''MemTest(DDR64)'' t;
       let (hi, s, u) = fast_bank M (HSS_DDRHi_GetStart l) (HSS_DDRHi_GetSize l) s u;
       t \<leftarrow> HSS_PerfCtr_Lap (now 3) mem64 t;
       Some (lo \<and> hi, clear s, u, mem32, mem64, t)
     })"

definition HSS_MemTestDDRFull :: "('s \<Rightarrow> 's) \<Rightarrow> 's Mem_If \<Rightarrow> DDR_Layout \<Rightarrow> (nat \<Rightarrow> u64) \<Rightarrow>
  's \<Rightarrow> keys \<Rightarrow> test_ctrs \<Rightarrow> (bool \<times> 's \<times> keys \<times> test_ctrs) option" where
  "HSS_MemTestDDRFull clear M l now s u c = do {
     (result, s, u, c) \<leftarrow> HSS_MemTestDDRFast clear M l now s u c;
     if result then
       let (v, s, u) = HSS_MemTestDevice M (HSS_DDR_GetStart l) (HSS_DDR_GetSize l) s u in
       Some (v = None, clear s, u, c)
     else Some (result, clear s, u, c)
   }"

section \<open>Lemmas\<close>

text \<open>No key that ends a test is waiting.\<close>

definition quiet :: "keys \<Rightarrow> bool" where
  "quiet u \<longleftrightarrow> (\<forall>k\<in>set u. k \<noteq> Some 3 \<and> k \<noteq> Some 27)"

lemma check_quiet [simp]: "quiet u \<Longrightarrow> check_if_interrupted u = (False, tl u)"
  by (cases u) (auto simp: quiet_def check_if_interrupted_def)

lemma quiet_tl [simp]: "quiet u \<Longrightarrow> quiet (tl u)"
  by (cases u) (auto simp: quiet_def)

lemma quiet_Nil [simp]: "quiet []"
  by (simp add: quiet_def)

text \<open>The words the walking loops visit, and how many they are.\<close>

definition walk_addr :: "u64 \<Rightarrow> nat \<Rightarrow> u64" where
  "walk_addr base i = word_addr base (2 ^ i)"

definition walks :: "u64 \<Rightarrow> nat \<Rightarrow> bool" where
  "walks addrMask k \<longleftrightarrow> k < 64 \<and> \<not> bit addrMask k \<and> (\<forall>i<k. bit addrMask i)"

lemma walk_zero: "walks addrMask k \<Longrightarrow> i \<le> k \<Longrightarrow> 2 ^ i AND addrMask = 0 \<longleftrightarrow> i = k"
proof -
  assume w: "walks addrMask k" "i \<le> k"
  have "bit (2 ^ i AND addrMask) n \<longleftrightarrow> n = i \<and> bit addrMask i" for n
    using w by (auto simp: walks_def bit_and_iff bit_exp_iff possible_bit_word)
  then have "2 ^ i AND addrMask = 0 \<longleftrightarrow> \<not> bit addrMask i"
    by (metis bit_0_eq bot_apply bit_word_eqI bot_bool_def)
  then show ?thesis using w by (auto simp: walks_def le_less)
qed

lemma exp_eq: "i < 64 \<Longrightarrow> j < 64 \<Longrightarrow> 2 ^ i = (2 ^ j :: u64) \<longleftrightarrow> i = j"
  by (auto simp: bit_eq_iff bit_exp_iff possible_bit_word)

lemma set_loop:
  assumes "i \<le> k" "walks addrMask k" "quiet u"
  shows "\<exists>u'. quiet u' \<and> addr_set_loop M base addrMask (2 ^ i) s u =
    (False, foldl (\<lambda>s j. mem_store M (walk_addr base j) pattern_A s) s [i..<k], u')"
  using assms
proof (induction i arbitrary: s u rule: inc_induct)
  case base
  then show ?case by (subst addr_set_loop.simps) (simp add: walk_zero [OF _ order.refl])
next
  case (step i)
  then show ?case
    by (subst addr_set_loop.simps)
      (simp add: walk_zero upt_rec [of i] mult.commute walk_addr_def [abs_def] Let_def)
qed

lemma verify_loop:
  assumes "i \<le> k" "walks addrMask k" "quiet u"
  shows "\<exists>u'. quiet u' \<and> addr_verify_loop M base addrMask (2 ^ i) s u =
    (False, map_option (walk_addr base) (List.find (\<lambda>j. mem_load M (walk_addr base j) s \<noteq> pattern_A) [i..<k]), u')"
  using assms
proof (induction i arbitrary: u rule: inc_induct)
  case base
  then show ?case by (subst addr_verify_loop.simps) (simp add: walk_zero [OF _ order.refl])
next
  case (step i)
  then show ?case
    by (subst addr_verify_loop.simps)
      (simp add: walk_zero upt_rec [of i] mult.commute walk_addr_def [abs_def] Let_def)
qed

lemma others_loop:
  assumes "i \<le> k" "walks addrMask k" "t < k"
  shows "addr_others_loop M base addrMask (2 ^ t) (2 ^ i) s \<longleftrightarrow>
    (\<exists>j\<in>{i..<k}. mem_load M (walk_addr base j) s \<noteq> pattern_A \<and> j \<noteq> t)"
  using assms
proof (induction i rule: inc_induct)
  case base
  then show ?case by (subst addr_others_loop.simps) (simp add: walk_zero [OF _ order.refl])
next
  case (step i)
  have "2 ^ i = (2 ^ t :: u64) \<longleftrightarrow> i = t"
    using step.hyps step.prems by (intro exp_eq) (auto simp: walks_def)
  moreover have "{i..<k} = insert i {Suc i..<k}" using step.hyps by auto
  ultimately show ?case using step
    by (subst addr_others_loop.simps)
      (simp add: walk_zero mult.commute walk_addr_def [abs_def])
qed

section \<open>A memory with an address decoder\<close>

text \<open>Perfect cells behind a decoder that may send several addresses to one cell, as stuck or
  shorted address lines do.\<close>

definition decoded :: "(u64 \<Rightarrow> 'c) \<Rightarrow> ('c \<Rightarrow> u64) Mem_If" where
  "decoded dec = \<lparr>mem_load = (\<lambda>a s. s (dec a)), mem_store = (\<lambda>a v s. s(dec a := v))\<rparr>"

lemma decoded_simps [simp]:
  "mem_load (decoded dec) a s = s (dec a)" "mem_store (decoded dec) a v s = s(dec a := v)"
  by (simp_all add: decoded_def)

lemma word_addr_0 [simp]: "word_addr base 0 = base"
  by (simp add: word_addr_def)

lemma foldl_upd: "foldl (\<lambda>s j. s(f j := v)) s xs c = (if c \<in> f ` set xs then v else s c)"
  by (induction xs arbitrary: s) auto

text \<open>The walk over the address lines finds two visited words with one cell.\<close>

definition line_ok :: "(u64 \<Rightarrow> 'c) \<Rightarrow> u64 \<Rightarrow> nat \<Rightarrow> nat \<Rightarrow> bool" where
  "line_ok dec base k t \<longleftrightarrow> dec (walk_addr base t) \<noteq> dec base \<and>
     (\<forall>j<k. j \<noteq> t \<longrightarrow> dec (walk_addr base j) \<noteq> dec (walk_addr base t))"

lemma walk_loop:
  assumes "t \<le> k" "walks addrMask k" "quiet u" "s (dec base) = pattern_A"
    "\<forall>j<k. s (dec (walk_addr base j)) = pattern_A"
  shows "\<exists>u'. quiet u' \<and> snd (snd (addr_walk_loop (decoded dec) base addrMask (2 ^ t) s u)) = u' \<and>
    (fst (addr_walk_loop (decoded dec) base addrMask (2 ^ t) s u) = None \<longleftrightarrow> (\<forall>t'\<in>{t..<k}. line_ok dec base k t'))"
  using assms
proof (induction t arbitrary: s u rule: inc_induct)
  case base
  then show ?case by (subst (1 2) addr_walk_loop.simps) (simp add: walk_zero [OF _ order.refl])
next
  case (step t)
  let ?s = "s(dec (walk_addr base t) := pattern_5)"
  have o: "addr_others_loop (decoded dec) base addrMask (2 ^ t) 1 ?s \<longleftrightarrow>
      (\<exists>j<k. j \<noteq> t \<and> dec (walk_addr base j) = dec (walk_addr base t))"
    using others_loop [of 0 k addrMask t "decoded dec" base ?s] step.hyps step.prems by auto
  have r: "?s(dec (walk_addr base t) := pattern_A) = s" using step.prems step.hyps by auto
  have i: "{t..<k} = insert t {Suc t..<k}" using step.hyps by auto
  have z: "2 ^ t AND addrMask \<noteq> 0" using walk_zero step.hyps step.prems(1) by auto
  note [simp] = step.prems(2,3)
  show ?case
  proof (cases "line_ok dec base k t")
    case True
    then have "addr_walk_loop (decoded dec) base addrMask (2 ^ t) s u
        = addr_walk_loop (decoded dec) base addrMask (2 ^ Suc t) s (tl u)"
      using o r z by (subst addr_walk_loop.simps) (auto simp: line_ok_def Let_def mult.commute walk_addr_def)
    then show ?thesis using step.IH [of "tl u" s] step.prems True i by simp
  next
    case False
    then have "fst (addr_walk_loop (decoded dec) base addrMask (2 ^ t) s u) \<noteq> None \<and>
        quiet (snd (snd (addr_walk_loop (decoded dec) base addrMask (2 ^ t) s u)))"
      using o z by (subst (1 2) addr_walk_loop.simps) (auto simp: line_ok_def Let_def walk_addr_def)
    then show ?thesis using False i by auto
  qed
qed

lemma address_bus_iff:
  assumes w: "walks (nb div 8 - 1) k" and q: "quiet u"
  shows "(fst (HSS_MemTestAddressBus (decoded dec) base nb s u) = None \<longleftrightarrow> (\<forall>t<k. line_ok dec base k t)) \<and>
    quiet (snd (snd (HSS_MemTestAddressBus (decoded dec) base nb s u)))"
proof -
  let ?M = "decoded dec" and ?m = "nb div 8 - 1" and ?a = "walk_addr base"
  let ?s1 = "foldl (\<lambda>s j. mem_store ?M (?a j) pattern_A s) s [0..<k]"
  let ?s2 = "?s1(dec base := pattern_5)"
  let ?r = "map_option ?a (List.find (\<lambda>j. mem_load ?M (?a j) ?s2 \<noteq> pattern_A) [0..<k])"
  obtain u1 where u1: "quiet u1" "addr_set_loop ?M base ?m 1 s u = (False, ?s1, u1)"
    using set_loop [OF _ w q, of 0 ?M base s] by auto
  obtain u2 where u2: "quiet u2" "addr_verify_loop ?M base ?m 1 ?s2 u1 = (False, ?r, u2)"
    using verify_loop [OF _ w u1(1), of 0 ?M base ?s2] by auto
  have s1: "?s1 (dec (?a j)) = pattern_A" if "j < k" for j using that by (auto simp: foldl_upd)
  show ?thesis
  proof (cases "\<exists>j<k. dec (?a j) = dec base")
    case True
    then have "?r \<noteq> None" by (auto simp: find_None_iff)
    moreover have "\<not> (\<forall>t<k. line_ok dec base k t)" using True by (auto simp: line_ok_def)
    ultimately show ?thesis
      using u1 u2 unfolding HSS_MemTestAddressBus_def by (auto simp: Let_def simp del: fun_upd_apply)
  next
    case False
    then have "?r = None" using s1 by (auto simp: find_None_iff)
    have c: "\<forall>j<k. (?s2(dec base := pattern_A)) (dec (?a j)) = pattern_A" using s1 by auto
    have b: "(?s2(dec base := pattern_A)) (dec base) = pattern_A" by simp
    have l: "(\<forall>t<k. line_ok dec base k t) \<longleftrightarrow> (\<forall>t\<in>{0..<k}. line_ok dec base k t)" by auto
    show ?thesis
      using u1 u2 walk_loop [where dec = dec, OF le0 w u2(1) b c] \<open>?r = None\<close>
      unfolding HSS_MemTestAddressBus_def l by (simp add: Let_def del: fun_upd_apply)
  qed
qed

text \<open>Every area of a word or more has its walk, which stays inside.\<close>

lemma walks_ex:
  assumes "8 \<le> nb"
  shows "\<exists>k. walks (nb div 8 - 1) k \<and> (\<forall>t<k. 2 ^ t < unat nb div 8)"
proof -
  let ?n = "unat nb div 8"
  have "unat nb < 2 ^ 64" using unsigned_less [of nb] by simp
  then have n: "0 < ?n" "?n < 2 ^ 61" using assms by (simp_all add: word_le_nat_alt)
  have d: "unat (nb div 8) = ?n" by (simp add: unat_div)
  have m: "unat (nb div 8 - 1) = ?n - 1" using n d by (subst unat_sub) (auto simp: word_le_nat_alt)
  have b: "bit (nb div 8 - 1) i \<longleftrightarrow> bit (?n - 1) i" for i
    unfolding m [symmetric] by (simp add: bit_unsigned_iff)
  have small: "2 ^ i \<le> ?n - 1" if "bit (?n - 1) i" for i
    using that by (simp add: bit_iff_odd) (metis div_less even_zero not_less)
  have "\<not> bit (nb div 8 - 1) 61" using small [of 61] n(2) unfolding b by auto
  then obtain k where k: "k \<le> 61" "\<not> bit (nb div 8 - 1) k" "\<forall>i<k. bit (nb div 8 - 1) i"
    using ex_least_nat_le [of "\<lambda>k. \<not> bit (nb div 8 - 1) k" 61] by blast
  have "2 ^ t < ?n" if "t < k" for t using small [of t] k(3) that n(1) unfolding b by fastforce
  moreover have "k < 64" using k(1) by simp
  ultimately show ?thesis using k by (intro exI [of _ k]) (simp add: walks_def)
qed

subsection \<open>The device test\<close>

abbreviation (input) cell_addr :: "u64 \<Rightarrow> nat \<Rightarrow> u64" where
  "cell_addr base j \<equiv> word_addr base (of_nat j)"

lemma seed_loop:
  assumes "i \<le> n" "quiet u"
  shows "\<exists>u'. quiet u' \<and> device_seed_loop M base n (of_nat i + 1) i s u =
    (False, foldl (\<lambda>s j. mem_store M (cell_addr base j) (of_nat j + 1) s) s [i..<n], u')"
  using assms
proof (induction i arbitrary: s u rule: inc_induct)
  case base
  then show ?case by (subst device_seed_loop.simps) simp
next
  case (step i)
  then show ?case
    by (subst device_seed_loop.simps) (simp add: upt_rec [of i] Let_def add.commute)
qed

lemma device_check_run:
  assumes "i \<le> n" "quiet u"
  shows "fst (device_check_loop M base n (of_nat i + 1) i s u) =
    map_option (cell_addr base) (List.find (\<lambda>j. mem_load M (cell_addr base j) s \<noteq> NOT (of_nat j + 1)) [i..<n])"
  using assms
proof (induction i arbitrary: u rule: inc_induct)
  case base
  then show ?case by (subst device_check_loop.simps) simp
next
  case (step i)
  then show ?case
    by (subst device_check_loop.simps) (simp add: upt_rec [of i] Let_def add.commute)
qed

text \<open>The state when the second pass comes to word \<open>j\<close>.\<close>

definition inverted :: "'s Mem_If \<Rightarrow> u64 \<Rightarrow> nat \<Rightarrow> nat \<Rightarrow> 's \<Rightarrow> 's" where
  "inverted M base i j s = foldl (\<lambda>s j. mem_store M (cell_addr base j) (NOT (of_nat j + 1)) s) s [i..<j]"

lemma inverted_step:
  "i < j \<Longrightarrow> inverted M base i j s = inverted M base (Suc i) j (mem_store M (cell_addr base i) (NOT (of_nat i + 1)) s)"
  by (simp add: inverted_def upt_rec [of i])

lemma invert_loop:
  assumes "i \<le> n" "quiet u"
  shows "\<exists>r s' u'. device_invert_loop M base n (of_nat i + 1) i s u = (False, r, s', u') \<and> quiet u' \<and>
    (r = None \<longleftrightarrow> (\<forall>j\<in>{i..<n}. mem_load M (cell_addr base j) (inverted M base i j s) = of_nat j + 1)) \<and>
    (r = None \<longrightarrow> s' = inverted M base i n s)"
  using assms
proof (induction i arbitrary: s u rule: inc_induct)
  case base
  then show ?case by (subst device_invert_loop.simps) (simp add: inverted_def)
next
  case (step i)
  let ?s = "mem_store M (cell_addr base i) (NOT (of_nat i + 1)) s"
  have i: "{i..<n} = insert i {Suc i..<n}" using step.hyps by auto
  have same: "inverted M base i i s = s" by (simp add: inverted_def)
  show ?case
  proof (cases "mem_load M (cell_addr base i) s = of_nat i + 1")
    case True
    have e: "device_invert_loop M base n (of_nat i + 1) i s u
        = device_invert_loop M base n (of_nat (Suc i) + 1) (Suc i) ?s (tl u)"
      using True step.hyps step.prems by (subst device_invert_loop.simps) (simp add: Let_def add.commute)
    from step.IH [of "tl u" ?s] step.prems obtain r s' u' where
      "device_invert_loop M base n (of_nat (Suc i) + 1) (Suc i) ?s (tl u) = (False, r, s', u')" "quiet u'"
      "r = None \<longleftrightarrow> (\<forall>j\<in>{Suc i..<n}. mem_load M (cell_addr base j) (inverted M base (Suc i) j ?s) = of_nat j + 1)"
      "r = None \<longrightarrow> s' = inverted M base (Suc i) n ?s" by auto
    then show ?thesis unfolding e using True same step.hyps
      by (intro exI [of _ r] exI [of _ s'] exI [of _ u']) (auto simp: i inverted_step)
  next
    case False
    then show ?thesis using step.hyps step.prems same
      by (subst device_invert_loop.simps) (auto simp: i)
  qed
qed

text \<open>The whole test, over any memory.\<close>

definition seeded :: "'s Mem_If \<Rightarrow> u64 \<Rightarrow> nat \<Rightarrow> 's \<Rightarrow> 's" where
  "seeded M base n s = foldl (\<lambda>s j. mem_store M (cell_addr base j) (of_nat j + 1) s) s [0..<n]"

lemma device_iff:
  assumes q: "quiet u" and n: "n = unat nb div 8"
  shows "fst (HSS_MemTestDevice M base nb s u) = None \<longleftrightarrow>
    (\<forall>j<n. mem_load M (cell_addr base j) (inverted M base 0 j (seeded M base n s)) = of_nat j + 1) \<and>
    (\<forall>j<n. mem_load M (cell_addr base j) (inverted M base 0 n (seeded M base n s)) = NOT (of_nat j + 1))"
proof -
  obtain u1 where u1: "quiet u1" "device_seed_loop M base n 1 0 s u = (False, seeded M base n s, u1)"
    using seed_loop [where n = n and M = M and base = base and s = s, OF le0 q] by (auto simp: seeded_def)
  obtain r s' u' where r: "device_invert_loop M base n 1 0 (seeded M base n s) u1 = (False, r, s', u')" "quiet u'"
      "r = None \<longleftrightarrow> (\<forall>j\<in>{0..<n}. mem_load M (cell_addr base j) (inverted M base 0 j (seeded M base n s)) = of_nat j + 1)"
      "r = None \<longrightarrow> s' = inverted M base 0 n (seeded M base n s)"
    using invert_loop [where n = n and M = M and base = base and s = "seeded M base n s", OF le0 u1(1)] by auto
  show ?thesis
  proof (cases r)
    case None
    have "fst (device_check_loop M base n 1 0 s' u') = None
        \<longleftrightarrow> (\<forall>j<n. mem_load M (cell_addr base j) s' = NOT (of_nat j + 1))"
      using device_check_run [where M = M and base = base and s = s' and n = n, OF le0 r(2)]
      by (auto simp: find_None_iff)
    moreover have "fst (HSS_MemTestDevice M base nb s u) = fst (device_check_loop M base n 1 0 s' u')"
      using r u1 n None by (simp add: HSS_MemTestDevice_def Let_def case_prod_beta)
    ultimately show ?thesis using r None by auto
  next
    case (Some a)
    then show ?thesis using r u1 n by (auto simp: HSS_MemTestDevice_def Let_def)
  qed
qed

lemma pattern_neq:
  assumes "i < n" "j < n" "n < 2 ^ 61"
  shows "(of_nat i + 1 :: u64) \<noteq> NOT (of_nat j + 1)"
proof
  have u: "unat (of_nat k + 1 :: u64) = k + 1" if "k < n" for k
    using unat_of_nat_u64 [of "k + 1"] that assms(3) by (simp add: add.commute)
  assume "(of_nat i + 1 :: u64) = NOT (of_nat j + 1)"
  then have "(of_nat i + 1 :: u64) + (of_nat j + 1) = - 1" by (simp only: add.commute [of _ "of_nat j + 1"] word_add_not)
  from arg_cong [OF this, of unat] have "unat ((of_nat i + 1 :: u64) + (of_nat j + 1)) = 2 ^ 64 - 1"
    by (simp only: unsigned_minus_1_eq_mask mask_eq_exp_minus_1) simp
  moreover have "unat ((of_nat i + 1 :: u64) + (of_nat j + 1)) = i + j + 2"
    using u [OF assms(1)] u [OF assms(2)] assms by (subst unat_plus_if_size) (simp add: word_size)
  ultimately show False using assms by simp
qed

lemma foldl_writes:
  "(\<forall>j\<in>set xs. f j \<noteq> c) \<Longrightarrow> foldl (\<lambda>s j. s(f j := g j)) s xs c = s c"
  "\<exists>j\<in>set xs. f j = c \<Longrightarrow> \<exists>j\<in>set xs. f j = c \<and> foldl (\<lambda>s j. s(f j := g j)) s xs c = g j"
proof -
  show 1: "(\<forall>j\<in>set xs. f j \<noteq> c) \<Longrightarrow> foldl (\<lambda>s j. s(f j := g j)) s xs c = s c" for xs s
    by (induction xs arbitrary: s) auto
  show "\<exists>j\<in>set xs. f j = c \<Longrightarrow> \<exists>j\<in>set xs. f j = c \<and> foldl (\<lambda>s j. s(f j := g j)) s xs c = g j"
  proof (induction xs rule: rev_induct)
    case (snoc x xs)
    then show ?case by (cases "f x = c") auto
  qed simp
qed

lemma foldl_write_inj:
  assumes "inj_on f {..<n}" "j < n" "i \<le> k" "k \<le> n" "i \<le> j" "j < k"
  shows "foldl (\<lambda>s j. s(f j := g j)) s [i..<k] (f j) = g j"
proof -
  have "\<exists>j'\<in>set [i..<k]. f j' = f j" using assms by auto
  from foldl_writes(2) [OF this, of g s] obtain j' where
    "j' < k" "f j' = f j" "foldl (\<lambda>s j. s(f j := g j)) s [i..<k] (f j) = g j'" by auto
  moreover have "j' = j" using inj_onD [OF assms(1) \<open>f j' = f j\<close>] \<open>j' < k\<close> assms by simp
  ultimately show ?thesis by simp
qed

lemma foldl_write_out:
  assumes "inj_on f {..<n}" "k \<le> n" "k \<le> j" "j < n"
  shows "foldl (\<lambda>s j. s(f j := g j)) s [i..<k] (f j) = s (f j)"
  using assms by (intro foldl_writes(1)) (auto dest: inj_onD)

text \<open>Two words in one cell never go unnoticed, and a memory without them passes.\<close>

lemma device_decoded_iff:
  assumes q: "quiet u" and n: "n = unat nb div 8"
  shows "fst (HSS_MemTestDevice (decoded dec) base nb s u) = None \<longleftrightarrow> inj_on (\<lambda>j. dec (cell_addr base j)) {..<n}"
proof -
  let ?f = "\<lambda>j. dec (cell_addr base j)"
  let ?s = "seeded (decoded dec) base n s"
  have "unat nb < 2 ^ 64" using unsigned_less [of nb] by simp
  then have n61: "n < 2 ^ 61" using n by simp
  have inv: "inverted (decoded dec) base 0 j ?s (?f j) = NOT (of_nat i + 1) \<Longrightarrow> i < n \<Longrightarrow> j < n \<Longrightarrow>
      inverted (decoded dec) base 0 j ?s (?f j) \<noteq> of_nat j + 1" for i j
    using pattern_neq [OF _ _ n61, of j i] by simp
  show ?thesis
  proof
    assume "fst (HSS_MemTestDevice (decoded dec) base nb s u) = None"
    then have all: "\<forall>j<n. inverted (decoded dec) base 0 j ?s (?f j) = of_nat j + 1"
      using device_iff [OF q n, of "decoded dec" base s] by simp
    have "?f i \<noteq> ?f j" if "i < j" "j < n" for i j
    proof
      assume "?f i = ?f j"
      then have "\<exists>m\<in>set [0..<j]. ?f m = ?f j" using that by auto
      from foldl_writes(2) [OF this, of "\<lambda>j. NOT (of_nat j + 1)" ?s] obtain m where
        "m < j" "inverted (decoded dec) base 0 j ?s (?f j) = NOT (of_nat m + 1)"
        by (auto simp: inverted_def)
      then show False using inv [of j m] all that by auto
    qed
    then show "inj_on ?f {..<n}" by (auto simp: inj_on_def) (metis linorder_neqE_nat)
  next
    assume inj: "inj_on ?f {..<n}"
    have "inverted (decoded dec) base 0 j ?s (?f j) = of_nat j + 1" if "j < n" for j
      using foldl_write_out [OF inj _ order.refl that, of "\<lambda>j. NOT (of_nat j + 1)" ?s 0]
        foldl_write_inj [OF inj that, of 0 n "\<lambda>j. of_nat j + 1" s] that
      by (simp add: inverted_def seeded_def)
    moreover have "inverted (decoded dec) base 0 n ?s (?f j) = NOT (of_nat j + 1)" if "j < n" for j
      using foldl_write_inj [OF inj that, of 0 n] that by (simp add: inverted_def)
    ultimately show "fst (HSS_MemTestDevice (decoded dec) base nb s u) = None"
      using device_iff [OF q n, of "decoded dec" base s] by simp
  qed
qed

subsection \<open>No key, no interruption\<close>

lemma set_loop_quiet:
  "quiet u \<Longrightarrow> \<not> fst (addr_set_loop M base addrMask x s u) \<and> quiet (snd (snd (addr_set_loop M base addrMask x s u)))"
proof (induction M base addrMask x s u rule: addr_set_loop.induct)
  case (1 M base addrMask x s u)
  then show ?case by (subst (1 2) addr_set_loop.simps) (simp add: Let_def)
qed

lemma verify_loop_quiet:
  "quiet u \<Longrightarrow> \<not> fst (addr_verify_loop M base addrMask x s u) \<and> quiet (snd (snd (addr_verify_loop M base addrMask x s u)))"
proof (induction M base addrMask x s u rule: addr_verify_loop.induct)
  case (1 M base addrMask x s u)
  then show ?case by (subst (1 2) addr_verify_loop.simps) (simp add: Let_def)
qed

lemma walk_loop_quiet: "quiet u \<Longrightarrow> quiet (snd (snd (addr_walk_loop M base addrMask x s u)))"
proof (induction M base addrMask x s u rule: addr_walk_loop.induct)
  case (1 M base addrMask x s u)
  then show ?case by (subst addr_walk_loop.simps) (simp add: Let_def)
qed

lemma address_bus_quiet:
  "quiet u \<Longrightarrow> quiet (snd (snd (HSS_MemTestAddressBus M base nb s u)))"
  using set_loop_quiet [of u M base "nb div 8 - 1" 1 s]
    verify_loop_quiet [of _ M base "nb div 8 - 1" 1] walk_loop_quiet [of _ M base "nb div 8 - 1" 1]
  by (auto simp: HSS_MemTestAddressBus_def Let_def split: prod.split) (metis fst_conv snd_conv)+

lemma data_bus_decoded: "fst (data_bus_loop (decoded dec) a p s) = 0"
proof (induction p arbitrary: s rule: measure_induct_rule [of shifts])
  case (less p)
  then show ?case by (subst data_bus_loop.simps) (simp add: shifts_less [simplified])
qed

lemma data_bus_ok: "\<exists>s'. HSS_MemTestDataBus (decoded dec) a s = (0, s')"
  using data_bus_decoded [of dec a 1 s] unfolding HSS_MemTestDataBus_def
  by (cases "data_bus_loop (decoded dec) a 1 s") auto

lemma fast_bank_iff:
  assumes "walks (nb div 8 - 1) k" "quiet u"
  shows "(fst (fast_bank (decoded dec) base nb s u) \<longleftrightarrow> (\<forall>t<k. line_ok dec base k t)) \<and>
    quiet (snd (snd (fast_bank (decoded dec) base nb s u)))"
proof -
  obtain s1 where "HSS_MemTestDataBus (decoded dec) base s = (0, s1)" using data_bus_ok by blast
  then show ?thesis
    using address_bus_iff [OF assms, of dec base s1] by (simp add: fast_bank_def case_prod_beta Let_def)
qed

text \<open>Distinct words have distinct address lines.\<close>

lemma inj_lines:
  assumes nb: "8 \<le> nb" and w: "walks (nb div 8 - 1) k"
    and inj: "inj_on (\<lambda>j. dec (cell_addr base j)) {..<unat nb div 8}" (is "inj_on ?f {..<?n}")
  shows "\<forall>t<k. line_ok dec base k t"
proof -
  from walks_ex [OF nb] obtain k' where k': "walks (nb div 8 - 1) k'" "\<forall>t<k'. 2 ^ t < ?n" by auto
  have "k = k'" using w k'(1) by (metis walks_def linorder_neqE_nat)
  then have k: "2 ^ t < ?n" if "t < k" for t using k'(2) that by simp
  have a: "dec (walk_addr base t) = ?f (2 ^ t)" for t by (simp add: walk_addr_def)
  have "?f (2 ^ t) \<noteq> ?f 0" if "t < k" for t
    using inj_onD [OF inj, of "2 ^ t" 0] k [OF that] by fastforce
  moreover have "?f (2 ^ j) \<noteq> ?f (2 ^ t)" if "t < k" "j < k" "j \<noteq> t" for t j
    using inj_onD [OF inj, of "2 ^ j" "2 ^ t"] k that by auto
  ultimately show ?thesis unfolding line_ok_def a by simp
qed

section \<open>Properties\<close>

text \<open>
  C33. Run without a key press, the memory test passes exactly if no two words of the tested
  area share a cell: whatever the address decoder does, sound cells behind a sound decoder pass,
  and every pair of addresses that reach one cell is found.
\<close>

theorem memtest_passes_iff:
  assumes "8 \<le> numBytes" and "quiet u"
  shows "fst (HSS_MemTestDDR_Ex clear (decoded dec) base numBytes s u) \<longleftrightarrow>
    inj_on (\<lambda>j. dec (word_addr base (of_nat j))) {..<unat numBytes div 8}"
    (is "_ \<longleftrightarrow> inj_on ?f {..<?n}")
proof -
  obtain s1 where d: "HSS_MemTestDataBus (decoded dec) base s = (0, s1)" using data_bus_ok by blast
  obtain r s2 u2 where a: "HSS_MemTestAddressBus (decoded dec) base numBytes s1 u = (r, s2, u2)" by (rule prod_cases3)
  from walks_ex [OF assms(1)] obtain k where k: "walks (numBytes div 8 - 1) k" by auto
  have r: "r = None \<longleftrightarrow> (\<forall>t<k. line_ok dec base k t)" and u2: "quiet u2"
    using address_bus_iff [OF k assms(2), of dec base s1] a by auto
  have "r = None" if "inj_on ?f {..<?n}" unfolding r using inj_lines [OF assms(1) k that] .
  moreover have "fst (HSS_MemTestDevice (decoded dec) base numBytes s2 u2) = None \<longleftrightarrow> inj_on ?f {..<?n}"
    by (rule device_decoded_iff [OF u2 refl])
  ultimately show ?thesis
    using d a by (auto simp: HSS_MemTestDDR_Ex_def case_prod_beta)
qed

text \<open>A sound decoder, and one whose address line 4 is stuck at 0.\<close>

theorem memtest_passes_iff_witness:
  "fst (HSS_MemTestDDR_Ex id (decoded id) 0x80000000 32 (\<lambda>_. 0) [Some 13, None]) \<and>
   \<not> fst (HSS_MemTestDDR_Ex id (decoded (\<lambda>a. a AND NOT 16)) 0x80000000 32 (\<lambda>_. 0) [Some 13, None])"
proof -
  have q: "quiet [Some 13, None]" by (simp add: quiet_def)
  have s: "{..<unat (32 :: u64) div 8} = {0, 1, 2, 3}" by auto
  have "inj_on (\<lambda>j. id (word_addr 0x80000000 (of_nat j))) {0, 1, 2, 3}" by (simp add: word_addr_def)
  moreover have "\<not> inj_on (\<lambda>j. word_addr 0x80000000 (of_nat j) AND NOT 16) {0, 1, 2, 3}"
    by (simp add: word_addr_def)
  moreover have "8 \<le> (32 :: u64)" by simp
  note m = memtest_passes_iff [OF this q, of id _ "0x80000000" "\<lambda>_. 0", unfolded s]
  ultimately show ?thesis unfolding m by simp
qed



text \<open>
  A key press ends each stage as a success: with Ctrl-C held, a memory whose first word works
  passes, whatever its other words do.
\<close>

theorem memtest_interrupted_passes:
  assumes "16 \<le> numBytes" and "bit (numBytes div 8 - 1) 0" and "fst (HSS_MemTestDataBus M base s) = 0"
  shows "fst (HSS_MemTestDDR_Ex clear M base numBytes s (Some 3 # Some 3 # u))"
proof -
  have "bit m 0 \<Longrightarrow> (1 :: u64) AND m \<noteq> 0" for m
    by (simp add: one_and_eq bit_0 odd_iff_mod_2_eq_one)
  note this [OF assms(2)]
  then have "fst (addr_set_loop M base (numBytes div 8 - 1) 1 s' (Some 3 # ks))
      \<and> snd (snd (addr_set_loop M base (numBytes div 8 - 1) 1 s' (Some 3 # ks))) = ks" for s' ks
    by (subst (1 2) addr_set_loop.simps) (simp add: check_if_interrupted_def Let_def)
  then have a: "fst (HSS_MemTestAddressBus M base numBytes s' (Some 3 # ks)) = None
      \<and> snd (snd (HSS_MemTestAddressBus M base numBytes s' (Some 3 # ks))) = ks" for s' ks
    by (simp add: HSS_MemTestAddressBus_def case_prod_beta Let_def)
  have "0 < unat numBytes div 8" using assms(1) by (simp add: word_le_nat_alt)
  then have "fst (device_seed_loop M base (unat numBytes div 8) 1 0 s' (Some 3 # ks))" for s' ks
    by (subst device_seed_loop.simps) (simp add: check_if_interrupted_def Let_def)
  then have v: "fst (HSS_MemTestDevice M base numBytes s' (Some 3 # ks)) = None" for s' ks
    by (simp add: HSS_MemTestDevice_def case_prod_beta Let_def)
  show ?thesis using assms(3) by (simp add: HSS_MemTestDDR_Ex_def case_prod_beta Let_def a v)
qed

theorem memtest_interrupted_passes_witness:
  "fst (HSS_MemTestDDR_Ex id (decoded (\<lambda>a. 0 :: nat)) 0x80000000 32 (\<lambda>_. 0) [Some 3, Some 3])"
  by (rule memtest_interrupted_passes) (simp_all add: HSS_MemTestDataBus_def data_bus_decoded bit_0)

text \<open>
  The full test of the kit's memory returns, and without a key press its verdict is that
  no two words of the low bank share a cell and that the address lines of the high bank differ;
  the words of the high bank are not looked at one by one.
\<close>

theorem memtest_full_verdict:
  assumes "8 \<le> HSS_DDR_GetSize l" and "walks (HSS_DDRHi_GetSize l div 8 - 1) k" and "quiet u"
  shows "\<exists>r x. HSS_MemTestDDRFull clear (decoded dec) l now s u c = Some (r, x) \<and>
    (r \<longleftrightarrow> inj_on (\<lambda>j. dec (word_addr (HSS_DDR_GetStart l) (of_nat j))) {..<unat (HSS_DDR_GetSize l) div 8} \<and>
       (\<forall>t<k. line_ok dec (HSS_DDRHi_GetStart l) k t))"
proof -
  obtain m32 m64 t where c: "c = (m32, m64, t)" by (rule prod_cases3)
  obtain o1 i1 t1 where p1: "HSS_PerfCtr_Allocate (now 0) m32 ''MemTest(DDR32)'' t = (o1, i1, t1)" by (rule prod_cases3)
  obtain t2 where p2: "HSS_PerfCtr_Lap (now 1) i1 t1 = Some t2"
    using lap_ok allocate_index_ok [of "now 0" m32 "''MemTest(DDR32)''" t] p1 by fastforce
  obtain o2 i2 t3 where p3: "HSS_PerfCtr_Allocate (now 2) m64 ''MemTest(DDR64)'' t2 = (o2, i2, t3)" by (rule prod_cases3)
  obtain t4 where p4: "HSS_PerfCtr_Lap (now 3) i2 t3 = Some t4"
    using lap_ok allocate_index_ok [of "now 2" m64 "''MemTest(DDR64)''" t2] p3 by fastforce
  from walks_ex [OF assms(1)] obtain k0 where k0: "walks (HSS_DDR_GetSize l div 8 - 1) k0" by blast
  obtain lo s1 u1 where f1: "fast_bank (decoded dec) (HSS_DDR_GetStart l) (HSS_DDR_GetSize l) s u = (lo, s1, u1)"
    by (rule prod_cases3)
  obtain hi s2 u2 where f2: "fast_bank (decoded dec) (HSS_DDRHi_GetStart l) (HSS_DDRHi_GetSize l) s1 u1 = (hi, s2, u2)"
    by (rule prod_cases3)
  have lo: "lo \<longleftrightarrow> (\<forall>t<k0. line_ok dec (HSS_DDR_GetStart l) k0 t)" "quiet u1"
    using fast_bank_iff [OF k0 assms(3), of dec "HSS_DDR_GetStart l" s] f1 by auto
  have hi: "hi \<longleftrightarrow> (\<forall>t<k. line_ok dec (HSS_DDRHi_GetStart l) k t)" "quiet u2"
    using fast_bank_iff [OF assms(2) lo(2), of dec "HSS_DDRHi_GetStart l" s1] f2 by auto
  have fast: "HSS_MemTestDDRFast clear (decoded dec) l now s u c = Some (lo \<and> hi, clear s2, u2, i1, i2, t4)"
    unfolding HSS_MemTestDDRFast_def c
    by (simp add: p1 p2 p3 p4 f1 f2 del: One_nat_def)
  note dev = device_decoded_iff [OF hi(2) refl, of dec "HSS_DDR_GetStart l" "HSS_DDR_GetSize l" "clear s2"]
  have lines: "inj_on (\<lambda>j. dec (word_addr (HSS_DDR_GetStart l) (of_nat j))) {..<unat (HSS_DDR_GetSize l) div 8} \<Longrightarrow> lo"
    unfolding lo using inj_lines [OF assms(1) k0] by blast
  show ?thesis
  proof (cases "lo \<and> hi")
    case True
    then show ?thesis unfolding HSS_MemTestDDRFull_def fast using dev hi(1)
      by (simp add: case_prod_beta)
  next
    case False
    then show ?thesis unfolding HSS_MemTestDDRFull_def fast using lines hi(1) by auto
  qed
qed

text \<open>Two banks of 32 bytes.\<close>

theorem memtest_full_verdict_witness:
  "\<exists>x. HSS_MemTestDDRFull id (decoded id) \<lparr>ddr_start = 0x80000000, ddr_size = 32, ddrhi_start = 0x1000000000, ddrhi_size = 32\<rparr>
     (\<lambda>_. 0) (\<lambda>_. 0) [] (- 1, - 1, perfCtrs_static) = Some (True, x)"
proof -
  let ?l = "\<lparr>ddr_start = 0x80000000, ddr_size = 32, ddrhi_start = 0x1000000000, ddrhi_size = 32\<rparr>"
  have two: "(\<forall>t<2. P t) \<longleftrightarrow> P 0 \<and> P (1 :: nat)" for P by (auto simp: less_2_cases_iff)
  have w: "walks (HSS_DDRHi_GetSize ?l div 8 - 1) 2"
    by (simp add: walks_def HSS_DDRHi_GetSize_def two)
  have s: "{..<4 :: nat} = {0, 1, 2, 3}" by auto
  show ?thesis
    using memtest_full_verdict [OF _ w quiet_Nil, of id id "\<lambda>_. 0" "\<lambda>_. 0" "(- 1, - 1, perfCtrs_static)"]
    by (auto simp: HSS_DDR_GetSize_def HSS_DDR_GetStart_def HSS_DDRHi_GetStart_def s word_addr_def
      line_ok_def walk_addr_def two)
qed

end
