(* ===== verification/C_Stubs.thy ===== *)
theory C_Stubs
  imports Hss_Base
begin

text \<open>
  The HSS brings its own string functions, \<open>modules/misc/c_stubs.c\<close>: the console's tokeniser,
  name comparison and number reader rest on them. A string argument is the list of its
  characters before the terminator; a buffer that is written is the array with an offset, and an
  access outside it is \<open>None\<close>. A \<open>char\<close> is unsigned on RISC-V.
\<close>

section \<open>Comparison\<close>

fun tolower :: "u8 \<Rightarrow> u8" where
  "tolower c = (if c > 0x41 - 1 \<and> c < 0x5A + 1 then c + 0x20 else c)"

declare tolower.simps [simp del]

fun strncasecmp :: "u8 list \<Rightarrow> u8 list \<Rightarrow> nat \<Rightarrow> int" where
  "strncasecmp (a # s1) (b # s2) (Suc n) =
     (if tolower a < tolower b then - 1
      else if tolower a > tolower b then 1
      else strncasecmp s1 s2 n)"
| "strncasecmp (a # s1) [] (Suc n) = 1"
| "strncasecmp [] (b # s2) (Suc n) = - 1"
| "strncasecmp [] [] (Suc n) = 0"
| "strncasecmp s1 s2 0 = 0"

text \<open>\<open>strncmp\<close> has no test for the terminator, so its arguments are memory.\<close>

fun strncmp :: "u8 list \<Rightarrow> u8 list \<Rightarrow> nat \<Rightarrow> int option" where
  "strncmp m1 m2 0 = Some 0"
| "strncmp (a # m1) (b # m2) (Suc n) =
     (if a < b then Some (- 1) else if a > b then Some 1 else strncmp m1 m2 n)"
| "strncmp _ _ (Suc n) = None"

section \<open>Buffers\<close>

definition buf_at :: "nat \<Rightarrow> u8 list \<Rightarrow> u8 option" where
  "buf_at i buf = (if i < length buf then Some (buf ! i) else None)"

definition buf_put :: "nat \<Rightarrow> u8 \<Rightarrow> u8 list \<Rightarrow> u8 list option" where
  "buf_put i b buf = (if i < length buf then Some (buf[i := b]) else None)"

text \<open>\<open>strlen\<close> of a buffer, and the string at an offset.\<close>

definition strlen :: "u8 list \<Rightarrow> nat option" where
  "strlen buf = find_index (\<lambda>b. b = 0) buf"

definition cstr :: "nat \<Rightarrow> u8 list \<Rightarrow> u8 list option" where
  "cstr off buf = (if off \<le> length buf then map_option (\<lambda>n. take n (drop off buf)) (strlen (drop off buf)) else None)"

text \<open>The scan of \<open>strtok_r\<close>: to the next delimiter, which becomes a terminator, or to the end.\<close>

function strtok_scan :: "u8 list \<Rightarrow> nat \<Rightarrow> u8 list \<Rightarrow> (u8 list \<times> nat) option" where
  "strtok_scan delim p buf =
     (if p < length buf then
        if buf ! p = 0 then Some (buf, p)
        else if buf ! p \<in> set delim then Some (buf[p := 0], p + 1)
        else strtok_scan delim (p + 1) buf
      else None)"
  by pat_completeness auto
termination by (relation "measure (\<lambda>(d, p, buf). length buf - p)") auto

declare strtok_scan.simps [simp del]

text \<open>Pointers are offsets into one buffer. The first argument is a new string only while the
  saved pointer is null. The result is the token, the buffer and the saved pointer.\<close>

definition strtok_r :: "nat option \<Rightarrow> u8 list \<Rightarrow> nat option \<Rightarrow> u8 list \<Rightarrow> (nat option \<times> u8 list \<times> nat option) option" where
  "strtok_r str delim saveptr buf = do {
     p \<leftarrow> (if saveptr = None then str else saveptr);
     b \<leftarrow> buf_at p buf;
     if b = 0 then Some (None, buf, None)
     else do {
       (buf, q) \<leftarrow> strtok_scan delim p buf;
       Some (Some p, buf, Some q)
     }
   }"

section \<open>Numbers\<close>

fun digit_value :: "u8 \<Rightarrow> u64 option" where
  "digit_value d =
     (if 0x30 \<le> d \<and> d \<le> 0x39 then Some (ucast d - 0x30)
      else if 0x61 \<le> d \<and> d \<le> 0x66 then Some (10 + ucast d - 0x61)
      else if 0x41 \<le> d \<and> d \<le> 0x46 then Some (10 + ucast d - 0x41)
      else None)"

declare digit_value.simps [simp del]

text \<open>The loop of \<open>strtoul\<close>: a minus sign is skipped without moving on.\<close>

partial_function (option) strtoul_loop :: "u64 \<Rightarrow> nat \<Rightarrow> u64 \<Rightarrow> u8 list \<Rightarrow> u64 option" where
  "strtoul_loop base count result s =
     (case s of
        [] \<Rightarrow> Some result
      | digit # ds \<Rightarrow>
          if digit = 0x2D then strtoul_loop base count result s
          else case digit_value digit of
            Some v \<Rightarrow> strtoul_loop base (count + 1) (result * base + v) ds
          | None \<Rightarrow>
              if digit = 0x78 \<and> count = 1 \<and> base = 16 then strtoul_loop base (count + 1) result ds
              else Some result)"

definition stub_strtoul :: "u8 list \<Rightarrow> u64 \<Rightarrow> u64 option" where
  "stub_strtoul nptr base = strtoul_loop base 0 0 nptr"

section \<open>Comparison is what it says\<close>

theorem strncasecmp_zero_iff:
  "strncasecmp s1 s2 n = 0 \<longleftrightarrow> map tolower (take n s1) = map tolower (take n s2)"
proof (induction s1 s2 n rule: strncasecmp.induct)
  case (1 a s1 b s2 n)
  then show ?case by (cases "tolower a" "tolower b" rule: linorder_cases) auto
qed simp_all

theorem strncmp_zero_iff:
  "n \<le> length m1 \<Longrightarrow> n \<le> length m2 \<Longrightarrow> strncmp m1 m2 n = Some 0 \<longleftrightarrow> take n m1 = take n m2"
proof (induction m1 m2 n rule: strncmp.induct)
  case (2 a m1 b m2 n)
  then show ?case by (cases a b rule: linorder_cases) auto
qed simp_all

section \<open>Tokens\<close>

text \<open>The string at an offset, when there is one.\<close>

lemma cstr_eqI:
  "off + length s < length buf \<Longrightarrow> take (length s) (drop off buf) = s \<Longrightarrow> buf ! (off + length s) = 0 \<Longrightarrow>
    0 \<notin> set s \<Longrightarrow> cstr off buf = Some s"
proof -
  assume a: "off + length s < length buf" "take (length s) (drop off buf) = s" "buf ! (off + length s) = 0" "0 \<notin> set s"
  have "strlen (drop off buf) = Some (length s)" unfolding strlen_def
  proof (rule find_index_SomeI)
    show "\<forall>j<length s. drop off buf ! j \<noteq> 0"
      using a(2,4) by (metis nth_mem nth_take)
  qed (use a in auto)
  then show ?thesis using a by (simp add: cstr_def)
qed

lemma cstrD:
  assumes "cstr off buf = Some s"
  shows "off + length s < length buf" "take (length s) (drop off buf) = s" "buf ! (off + length s) = 0" "0 \<notin> set s"
proof -
  from assms obtain n where n: "strlen (drop off buf) = Some n" "s = take n (drop off buf)" "off \<le> length buf"
    by (auto simp: cstr_def split: if_splits)
  then have f: "n < length (drop off buf)" "drop off buf ! n = 0" "\<forall>j<n. drop off buf ! j \<noteq> 0"
    unfolding strlen_def by (auto dest: find_index_SomeD)
  then have l: "length s = n" using n by simp
  show "off + length s < length buf" "buf ! (off + length s) = 0" "take (length s) (drop off buf) = s"
    using f n l by auto
  show "0 \<notin> set s" using f n by (auto simp: in_set_conv_nth)
qed

lemma cstr_iff:
  "cstr off buf = Some s \<longleftrightarrow> off + length s < length buf \<and> take (length s) (drop off buf) = s \<and>
     buf ! (off + length s) = 0 \<and> 0 \<notin> set s"
  using cstrD [of off buf s] cstr_eqI [of off s buf] by auto

lemma cstr_nth: "cstr off buf = Some s \<Longrightarrow> i < length s \<Longrightarrow> buf ! (off + i) = s ! i"
  using cstrD [of off buf s] by (metis add_leD1 less_imp_le nth_drop nth_take)

text \<open>A string depends on the buffer up to its terminator only.\<close>

lemma cstr_cong:
  assumes "cstr off buf = Some s" "off + length s < q" "take q buf' = take q buf" "length buf' = length buf"
  shows "cstr off buf' = Some s"
proof -
  have n: "buf' ! i = buf ! i" if "i < q" for i using assms(3) that by (metis nth_take)
  have "take (length s) (drop off buf') = take (length s) (drop off buf)"
    using n assms(2,4) cstrD(1) [OF assms(1)] by (intro nth_equalityI) auto
  then show ?thesis using assms(4) n [OF assms(2)] cstrD [OF assms(1)] by (intro cstr_eqI) auto
qed

lemma cstr_part:
  assumes "cstr off buf = Some (a @ s)"
  shows "cstr (off + length a) buf = Some s"
proof (rule cstr_eqI)
  note d = cstrD [OF assms]
  show "take (length s) (drop (off + length a) buf) = s"
    using d(1) cstr_nth [OF assms, of "length a + i" for i]
    by (intro nth_equalityI) (auto simp: add.assoc nth_append)
qed (use cstrD [OF assms] in \<open>auto simp: add.assoc\<close>)

text \<open>The fields of a line: between two delimiters there may be an empty one, after the last
  delimiter there is none.\<close>

function split_fields :: "u8 list \<Rightarrow> u8 list \<Rightarrow> u8 list list" where
  "split_fields delim s = (if s = [] then []
     else takeWhile (\<lambda>c. c \<notin> set delim) s # split_fields delim (drop 1 (dropWhile (\<lambda>c. c \<notin> set delim) s)))"
  by pat_completeness auto
termination
proof (relation "measure (\<lambda>(d, s). length s)", goal_cases)
  case (2 delim s)
  then show ?case using length_dropWhile_le [of "\<lambda>c. c \<notin> set delim" s]
    by (cases s) (auto simp: le_imp_less_Suc diff_le_mono2 le_diff_conv split: if_splits)
qed simp

declare split_fields.simps [simp del]

lemma split_fields_Nil [simp]: "split_fields delim [] = []"
  by (simp add: split_fields.simps)

lemma strtok_scan_run:
  assumes "cstr p buf = Some s"
  shows "strtok_scan delim p buf = (let a = takeWhile (\<lambda>c. c \<notin> set delim) s in
    Some (if a = s then (buf, p + length s) else (buf[p + length a := 0], p + length a + 1)))"
  using assms
proof (induction s arbitrary: p)
  case Nil
  then show ?case using cstrD [OF Nil] by (subst strtok_scan.simps) auto
next
  case (Cons c s)
  have c: "buf ! p = c" using cstr_nth [OF Cons.prems, of 0] by simp
  have "c \<noteq> 0" "p < length buf" using cstrD [OF Cons.prems] by auto
  moreover have "cstr (Suc p) buf = Some s" using cstr_part [of p buf "[c]" s] Cons.prems by simp
  ultimately show ?case using Cons.IH [of "Suc p"] c by (subst strtok_scan.simps) (simp add: Let_def)
qed

lemma strtok_r_step:
  assumes s: "cstr q buf = Some s" "s \<noteq> []" and D: "0 \<notin> set delim"
  defines "a \<equiv> takeWhile (\<lambda>c. c \<notin> set delim) s" and "r \<equiv> drop 1 (dropWhile (\<lambda>c. c \<notin> set delim) s)"
  shows "\<exists>q' buf'. strtok_r None delim (Some q) buf = Some (Some q, buf', Some q') \<and>
    cstr q buf' = Some a \<and> cstr q' buf' = Some r \<and> q \<le> q' \<and> (r \<noteq> [] \<longrightarrow> q + length a < q') \<and>
    take q buf' = take q buf \<and> length buf' = length buf"
proof -
  note d = cstrD [OF s(1)]
  have q: "buf_at q buf = Some (buf ! q)" "buf ! q \<noteq> 0"
    using d cstr_nth [OF s(1), of 0] s(2) by (cases s; auto simp: buf_at_def)+
  show ?thesis
  proof (cases "a = s")
    case True
    then have "dropWhile (\<lambda>c. c \<notin> set delim) s = []"
      using takeWhile_dropWhile_id [of "\<lambda>c. c \<notin> set delim" s] by (simp add: a_def)
    then have "r = []" unfolding r_def by (simp only: drop_Nil)
    moreover have "cstr (q + length s) buf = Some []" using cstr_part [of q buf s "[]"] s(1) by simp
    ultimately show ?thesis
      using q strtok_scan_run [OF s(1), of delim, folded a_def] True s(1)
      by (intro exI [of _ "q + length s"] exI [of _ buf]) (simp add: strtok_r_def Let_def)
  next
    case False
    then have "dropWhile (\<lambda>c. c \<notin> set delim) s \<noteq> []"
      using takeWhile_dropWhile_id [of "\<lambda>c. c \<notin> set delim" s] unfolding a_def by fastforce
    then obtain c r' where dw: "dropWhile (\<lambda>c. c \<notin> set delim) s = c # r'"
      by (cases "dropWhile (\<lambda>c. c \<notin> set delim) s") auto
    have e: "s = a @ c # r"
      using takeWhile_dropWhile_id [of "\<lambda>c. c \<notin> set delim" s] unfolding a_def r_def dw by simp
    let ?b = "buf[q + length a := 0]" and ?q = "q + length a + 1"
    have run: "strtok_r None delim (Some q) buf = Some (Some q, ?b, Some ?q)"
      using q strtok_scan_run [OF s(1), of delim, folded a_def] False by (simp add: strtok_r_def Let_def)
    have "cstr q ?b = Some a"
      using d cstr_nth [OF s(1)] e by (intro cstr_eqI) (auto intro!: nth_equalityI simp: nth_append)
    moreover have "cstr ?q buf = Some r" using cstr_part [of q buf "a @ [c]" r] s(1) e by simp
    then have "cstr ?q ?b = Some r"
      by (auto simp: cstr_iff intro!: nth_equalityI dest!: arg_cong [where f = "\<lambda>x. x ! i" for i])
    ultimately show ?thesis using run by (intro exI [of _ ?q] exI [of _ ?b]) simp
  qed
qed

section \<open>Numbers are read back\<close>

lemma strtoul_loop_Nil [simp]: "strtoul_loop base count result [] = Some result"
  by (simp add: strtoul_loop.simps)

text \<open>A minus sign where a digit may stand makes the loop run for ever.\<close>

lemma strtoul_loop_SomeD:
  assumes h: "strtoul_loop base count result s = Some y"
  shows "s \<noteq> 0x2D # ds"
proof (induction base count result s y rule: strtoul_loop.raw_induct)
  case (1 f base count result s y)
  show ?case
  proof
    assume "s = 0x2D # ds"
    then show False using 1 1(1) [of base count result "0x2D # ds" y] by simp
  qed
qed (rule h)

lemma strtoul_loop_minus: "strtoul_loop base count result (0x2D # ds) = None"
  using strtoul_loop_SomeD by (cases "strtoul_loop base count result (0x2D # ds)") blast+

lemma strtoul_loop_digit:
  "digit_value d = Some v \<Longrightarrow> strtoul_loop base count result (d # ds) = strtoul_loop base (count + 1) (result * base + v) ds"
  by (subst strtoul_loop.simps) (auto simp: digit_value.simps split: if_splits)

lemma strtoul_loop_stop:
  "digit_value d = None \<Longrightarrow> d \<noteq> 0x2D \<Longrightarrow> d \<noteq> 0x78 \<Longrightarrow> strtoul_loop base count result (d # ds) = Some result"
  by (subst strtoul_loop.simps) simp

text \<open>Without one it returns.\<close>

lemma strtoul_loop_returns: "0x2D \<notin> set s \<Longrightarrow> \<exists>v. strtoul_loop base count result s = Some v"
proof (induction s arbitrary: count result)
  case (Cons d ds)
  then show ?case by (subst strtoul_loop.simps) (auto split: option.split)
qed simp

text \<open>The digits of a number, as a person types them.\<close>

function digits :: "nat \<Rightarrow> nat \<Rightarrow> nat list" where
  "digits b n = (if b < 2 \<or> n < b then [n] else digits b (n div b) @ [n mod b])"
  by pat_completeness auto
termination by (relation "measure snd") auto

declare digits.simps [simp del]

definition digit_char :: "nat \<Rightarrow> u8" where
  "digit_char d = (if d < 10 then of_nat (0x30 + d) else of_nat (0x61 + d - 10))"

lemma digit_value_char: "d < 16 \<Longrightarrow> digit_value (digit_char d) = Some (of_nat d)"
proof -
  assume "d < 16"
  then have "d = 0 \<or> d = 1 \<or> d = 2 \<or> d = 3 \<or> d = 4 \<or> d = 5 \<or> d = 6 \<or> d = 7 \<or> d = 8 \<or> d = 9 \<or>
      d = 10 \<or> d = 11 \<or> d = 12 \<or> d = 13 \<or> d = 14 \<or> d = 15" by presburger
  then show ?thesis by (elim disjE) (simp_all add: digit_char_def digit_value.simps)
qed

lemma strtoul_loop_append:
  "\<forall>d\<in>set ds. d < 16 \<Longrightarrow>
   strtoul_loop base count result (map digit_char ds @ s) =
   strtoul_loop base (count + length ds) (foldl (\<lambda>r d. r * base + of_nat d) result ds) s"
proof (induction ds arbitrary: count result)
  case (Cons d ds)
  then show ?case by (simp add: strtoul_loop_digit [OF digit_value_char])
qed simp

lemma digits_less: "2 \<le> b \<Longrightarrow> d \<in> set (digits b n) \<Longrightarrow> d < b"
proof (induction b n rule: digits.induct)
  case (1 b n)
  then show ?case by (subst (asm) digits.simps) (auto split: if_splits)
qed

lemma digits_value:
  "2 \<le> b \<Longrightarrow> foldl (\<lambda>r d. r * of_nat b + of_nat d) (0 :: u64) (digits b n) = of_nat n"
proof (induction b n rule: digits.induct)
  case (1 b n)
  have "(of_nat (n div b) * of_nat b + of_nat (n mod b) :: u64) = of_nat (n div b * b + n mod b)"
    by (simp only: of_nat_add of_nat_mult)
  then show ?case using 1 by (subst digits.simps) (auto simp: not_less)
qed

lemma strtoul_digits:
  assumes "2 \<le> b" "b \<le> 16" "base = of_nat b"
  shows "strtoul_loop base count 0 (map digit_char (digits b n)) = Some (of_nat n)"
  using strtoul_loop_append [of "digits b n" base count 0 "[]"] digits_less [of b _ n] digits_value [of b n] assms
  by fastforce

end
