(* ===== verification/Tinycli.thy ===== *)
theory Tinycli
  imports C_Stubs Ddr
begin

text \<open>
  The command line on the monitor's serial line, \<open>services/tinycli\<close>: the line editor with its
  state machine (\<open>tinycli_service.c\<close>), the tokeniser, the command tables and their dispatch
  (\<open>tinycli_api.c\<close>), in the configuration of the kit. What a command finally calls in another
  component is a \<open>Call\<close> on the rest of the program, a parameter. Output is left out, the reads
  of strings that are printed are not. Each poll of the serial line takes the next element of
  \<open>cli_keys\<close>: a key, or none in the time the poll allows.

  A step that leaves a buffer or does not return is \<open>None\<close>.
\<close>

section \<open>State\<close>

abbreviation (input) HSS_UART_HELPER_MAX_GETLINE :: nat where "HSS_UART_HELPER_MAX_GETLINE \<equiv> 80"
abbreviation (input) bufferLen :: nat where "bufferLen \<equiv> 79"
abbreviation (input) mMAX_NUM_TOKENS :: nat where "mMAX_NUM_TOKENS \<equiv> 40"

abbreviation (input) TINYCLI_INITIALIZATION :: int where "TINYCLI_INITIALIZATION \<equiv> 0"
abbreviation (input) TINYCLI_PREBOOT :: int where "TINYCLI_PREBOOT \<equiv> 1"
abbreviation (input) TINYCLI_DOBOOT :: int where "TINYCLI_DOBOOT \<equiv> 2"
abbreviation (input) TINYCLI_READLINE :: int where "TINYCLI_READLINE \<equiv> 3"
abbreviation (input) TINYCLI_PARSELINE :: int where "TINYCLI_PARSELINE \<equiv> 4"
abbreviation (input) TINYCLI_USBDMSC :: int where "TINYCLI_USBDMSC \<equiv> 5"
abbreviation (input) TINYCLI_UART_SURRENDER :: int where "TINYCLI_UART_SURRENDER \<equiv> 6"
abbreviation (input) TINYCLI_NUM_STATES :: nat where "TINYCLI_NUM_STATES \<equiv> 7"

text \<open>\<open>enum CmdId\<close>, the commands the kit has.\<close>

datatype CmdId =
    CMD_YMODEM | CMD_BOOT | CMD_RESET | CMD_HELP | CMD_VERSION | CMD_UPTIME | CMD_DEBUG | CMD_MEMTEST
  | CMD_QSPI | CMD_EMMC | CMD_SDCARD | CMD_MMC | CMD_PAYLOAD | CMD_SPI | CMD_ECC
  | CMD_DBG_BEU | CMD_DBG_HEALTHMON | CMD_DBG_SM | CMD_DBG_IPI | CMD_DBG_CRC32 | CMD_DBG_HEXDUMP
  | CMD_DBG_OPENSBI | CMD_DBG_SEG | CMD_DBG_L2CACHE | CMD_DBG_PERFCTR | CMD_DBG_WDOG
  | CMD_BOOT_INFO | CMD_BOOT_LIST | CMD_BOOT_SELECT

text \<open>The calls that commands make; \<open>C_print\<close> stands for the commands that only print.\<close>

datatype Call =
    C_print CmdId | C_ymodem_loop | C_reboot_cold
  | C_boot_harts | C_boot_info | C_boot_list | C_set_boot_partition u64
  | C_select_emmc | C_select_mmc | C_select_sdcard | C_list_storage
  | C_memtest_ex u64 u64 | C_memtest_full | C_crc32 u64 u64 | C_hexdump u64 u64

text \<open>The rest of the program: \<open>HSS_BootInit\<close> with its result, and the other calls. They see
  the triggers too.\<close>

record 'w Cli_If =
  boot_init :: "HSS_Triggers \<times> 'w \<Rightarrow> bool \<times> HSS_Triggers \<times> 'w"
  call :: "Call \<Rightarrow> HSS_Triggers \<times> 'w \<Rightarrow> HSS_Triggers \<times> 'w"

record 'w Cli =
  cli_keys :: "u8 option list"
  myPrevBuffer :: "u8 list"
  myBuffer :: "u8 list"
  readStringLen :: int
  escapeActive :: bool
  strtok_string :: "nat option"
  argv_tokenArray :: "nat list"
  warnIfPostInit :: "bool list"
  hexdump_count :: u64
  hexdump_startAddr :: u64
  cli_triggers :: HSS_Triggers
  cli_world :: 'w

abbreviation (input) argc_tokenCount :: "'w Cli \<Rightarrow> nat" where
  "argc_tokenCount w \<equiv> length (argv_tokenArray w)"

definition uart_getchar :: "'w Cli \<Rightarrow> u8 option \<times> 'w Cli" where
  "uart_getchar w = (case cli_keys w of [] \<Rightarrow> (None, w) | k # ks \<Rightarrow> (k, w\<lparr>cli_keys := ks\<rparr>))"

text \<open>A comparison of the signed length with a \<open>size_t\<close> is unsigned.\<close>

definition below :: "int \<Rightarrow> nat \<Rightarrow> bool" where
  "below n k \<longleftrightarrow> 0 \<le> n \<and> n < int k"

definition put_at :: "int \<Rightarrow> u8 \<Rightarrow> 'w Cli \<Rightarrow> 'w Cli option" where
  "put_at i b w = (if i < 0 then None
     else do { buf \<leftarrow> buf_put (nat i) b (myBuffer w); Some (w\<lparr>myBuffer := buf\<rparr>) })"

text \<open>The first bytes of one buffer copied over another.\<close>

definition copy_prefix :: "int \<Rightarrow> u8 list \<Rightarrow> u8 list \<Rightarrow> u8 list option" where
  "copy_prefix n src dst = (if n < 0 then None
     else do { bs \<leftarrow> slice 0 (nat n) src; memcpy_to 0 bs dst })"

section \<open>The line editor\<close>

text \<open>A key after ESC: the first component says that the handler returns there.\<close>

definition up_arrow :: "'w Cli \<Rightarrow> 'w Cli option" where
  "up_arrow w = do {
     n \<leftarrow> strlen (myBuffer w);
     let w = w\<lparr>readStringLen := int n\<rparr>;
     w \<leftarrow> (if n \<noteq> 0 then do {
             buf \<leftarrow> copy_prefix (int n) (myPrevBuffer w) (myBuffer w);
             _ \<leftarrow> strlen buf;
             Some (w\<lparr>myBuffer := buf\<rparr>) }
           else put_at 0 0 w);
     Some (w\<lparr>escapeActive := False\<rparr>)
   }"

definition right_arrow :: "'w Cli \<Rightarrow> 'w Cli option" where
  "right_arrow w =
     (let w = w\<lparr>escapeActive := False\<rparr> in
      if below (readStringLen w) bufferLen then do {
        let w = w\<lparr>readStringLen := readStringLen w + 1\<rparr>;
        b \<leftarrow> buf_at (nat (readStringLen w)) (myBuffer w);
        if b = 0 then put_at (readStringLen w) 0x20 w else Some w }
      else Some w)"

definition left_arrow :: "'w Cli \<Rightarrow> 'w Cli option" where
  "left_arrow w =
     Some ((if readStringLen w \<noteq> 0 then w\<lparr>readStringLen := readStringLen w - 1\<rparr> else w)\<lparr>escapeActive := False\<rparr>)"

definition escape_key :: "u8 \<Rightarrow> 'w Cli \<Rightarrow> (bool \<times> 'w Cli) option" where
  "escape_key c w =
     (if c = 0x5B then Some (True, w)
      else if c = 0x41 then map_option (Pair True) (up_arrow w)
      else if c = 0x42 then Some (True, w\<lparr>escapeActive := False\<rparr>)
      else if c = 0x43 then map_option (Pair True) (right_arrow w)
      else if c = 0x44 then map_option (Pair True) (left_arrow w)
      else Some (False, w\<lparr>escapeActive := False\<rparr>))"

definition enter_key :: "'w Cli \<Rightarrow> 'w Cli option" where
  "enter_key w = do {
     w \<leftarrow> (if below (readStringLen w) bufferLen then put_at (readStringLen w) 0 w else Some w);
     if readStringLen w \<noteq> 0 then do {
       prev \<leftarrow> copy_prefix (readStringLen w + 1) (myBuffer w) (myPrevBuffer w);
       Some (w\<lparr>myPrevBuffer := prev\<rparr>) }
     else do {
       n \<leftarrow> strlen (myPrevBuffer w);
       buf \<leftarrow> copy_prefix (int n + 1) (myPrevBuffer w) (myBuffer w);
       Some (w\<lparr>readStringLen := int n, myBuffer := buf\<rparr>) }
   }"

definition delete_key :: "'w Cli \<Rightarrow> 'w Cli option" where
  "delete_key w =
     (if readStringLen w \<noteq> 0
      then put_at (readStringLen w - 1) 0 (w\<lparr>readStringLen := readStringLen w - 1\<rparr>)
      else Some w)"

definition end_key :: "'w Cli \<Rightarrow> 'w Cli option" where
  "end_key w = do { n \<leftarrow> strlen (myBuffer w); Some (w\<lparr>readStringLen := int n\<rparr>) }"

definition interrupt_key :: "'w Cli \<Rightarrow> 'w Cli option" where
  "interrupt_key w = put_at 0 0 (w\<lparr>readStringLen := - 1\<rparr>)"

definition other_key :: "u8 \<Rightarrow> 'w Cli \<Rightarrow> 'w Cli option" where
  "other_key c w =
     (if below (readStringLen w) bufferLen
      then map_option (\<lambda>w. w\<lparr>readStringLen := readStringLen w + 1\<rparr>) (put_at (readStringLen w) c w)
      else Some w)"

text \<open>The first component: the line is done.\<close>

definition line_key :: "u8 \<Rightarrow> 'w Cli \<Rightarrow> (bool \<times> 'w Cli) option" where
  "line_key c w =
     (if c = 0x0D \<or> c = 0x0A then map_option (Pair True) (enter_key w)
      else if c = 0x7F \<or> c = 0x08 then map_option (Pair False) (delete_key w)
      else if c = 0x01 then Some (False, w\<lparr>readStringLen := 0\<rparr>)
      else if c = 0x05 then map_option (Pair False) (end_key w)
      else if c = 0x04 then
        (if readStringLen w \<noteq> 0 then Some (False, w) else map_option (Pair True) (interrupt_key w))
      else if c = 0x03 then map_option (Pair True) (interrupt_key w)
      else if c = 0x1B then Some (False, w\<lparr>escapeActive := True\<rparr>)
      else map_option (Pair False) (other_key c w))"

definition tinycli_readline_handler :: "'w Cli hook" where
  "tinycli_readline_handler m w = (case uart_getchar w of
     (None, w) \<Rightarrow> Some (m, w)
   | (Some c, w) \<Rightarrow> do {
       (ret, w) \<leftarrow> (if escapeActive w then escape_key c w else Some (False, w));
       if ret then Some (m, w)
       else do {
         (done, w) \<leftarrow> line_key c w;
         Some (if done then m\<lparr>state := TINYCLI_PARSELINE\<rparr> else m, w) } })"

definition tinycli_readline_onEntry :: "'w Cli hook" where
  "tinycli_readline_onEntry m w = Some (m, w\<lparr>readStringLen := 0\<rparr>)"

definition tinycli_readline_onExit :: "'w Cli hook" where
  "tinycli_readline_onExit m w =
     (if readStringLen w > 0 then Some (m, w)
      else map_option (Pair m) (put_at 0 0 (w\<lparr>readStringLen := 0\<rparr>)))"

section \<open>Tokens\<close>

abbreviation (input) cli_delim :: "u8 list" where "cli_delim \<equiv> [0x0A, 0x20]"

function parse_loop :: "nat list \<Rightarrow> nat option \<Rightarrow> nat option \<Rightarrow> u8 list \<Rightarrow> (nat list \<times> nat option \<times> u8 list) option" where
  "parse_loop argv pToken saveptr buf = (case pToken of
     None \<Rightarrow> Some (argv, saveptr, buf)
   | Some t \<Rightarrow>
       if length argv < mMAX_NUM_TOKENS then do {
         (pToken, buf, saveptr) \<leftarrow> strtok_r None cli_delim saveptr buf;
         parse_loop (argv @ [t]) pToken saveptr buf }
       else Some (argv, saveptr, buf))"
  by pat_completeness auto
termination by (relation "measure (\<lambda>(argv, t, s, buf). mMAX_NUM_TOKENS - length argv)") auto

declare parse_loop.simps [simp del]

definition HSS_TinyCLI_ParseIntoTokens :: "'w Cli \<Rightarrow> (nat \<times> 'w Cli) option" where
  "HSS_TinyCLI_ParseIntoTokens w = do {
     (pToken, buf, saveptr) \<leftarrow> strtok_r (Some 0) cli_delim (strtok_string w) (myBuffer w);
     (argv, saveptr, buf) \<leftarrow> parse_loop [] pToken saveptr buf;
     Some (length argv, w\<lparr>argv_tokenArray := argv, strtok_string := saveptr, myBuffer := buf\<rparr>)
   }"

definition argv_string :: "nat \<Rightarrow> 'w Cli \<Rightarrow> u8 list option" where
  "argv_string i w = (if i < argc_tokenCount w then cstr (argv_tokenArray w ! i) (myBuffer w) else None)"

section \<open>Commands\<close>

definition chars :: "string \<Rightarrow> u8 list" where
  "chars s = map of_char s"

type_synonym cmd_table = "(CmdId \<times> u8 list) list"

definition toplevelCmds :: cmd_table where
  "toplevelCmds = [(CMD_YMODEM, chars ''YMODEM''), (CMD_BOOT, chars ''BOOT''), (CMD_RESET, chars ''RESET''),
     (CMD_HELP, chars ''HELP''), (CMD_VERSION, chars ''VERSION''), (CMD_UPTIME, chars ''UPTIME''),
     (CMD_DEBUG, chars ''DEBUG''), (CMD_MEMTEST, chars ''MEMTEST''), (CMD_QSPI, chars ''QSPI''),
     (CMD_EMMC, chars ''EMMC''), (CMD_MMC, chars ''MMC''), (CMD_SDCARD, chars ''SDCARD''),
     (CMD_PAYLOAD, chars ''PAYLOAD''), (CMD_SPI, chars ''SPI''), (CMD_ECC, chars ''ECC'')]"

definition toplevelCmdsSafeAfterBootFlags :: "bool list" where
  "toplevelCmdsSafeAfterBootFlags =
     [True, False, True, False, False, False, False, True, True, True, True, True, True, True, False]"

definition debugCmds :: cmd_table where
  "debugCmds = [(CMD_DBG_BEU, chars ''BEU''), (CMD_DBG_HEALTHMON, chars ''HEALTHMON''), (CMD_DBG_SM, chars ''SM''),
     (CMD_DBG_IPI, chars ''IPI''), (CMD_DBG_CRC32, chars ''CRC32''), (CMD_DBG_HEXDUMP, chars ''HEXDUMP''),
     (CMD_DBG_OPENSBI, chars ''OPENSBI''), (CMD_DBG_SEG, chars ''SEG''), (CMD_DBG_L2CACHE, chars ''L2CACHE''),
     (CMD_DBG_PERFCTR, chars ''PERFCTR''), (CMD_DBG_WDOG, chars ''WDOG'')]"

definition bootCmds :: cmd_table where
  "bootCmds = [(CMD_BOOT_INFO, chars ''INFO''), (CMD_BOOT_LIST, chars ''LIST''), (CMD_BOOT_SELECT, chars ''SELECT'')]"

text \<open>The first name that the token starts with, or else the only name that starts with the
  token.\<close>

definition tinyCLI_NameToCmdIndex :: "cmd_table \<Rightarrow> u8 list \<Rightarrow> nat option" where
  "tinyCLI_NameToCmdIndex pCmds pToken =
     (case find_index (\<lambda>(_, name). strncasecmp name pToken (length name) = 0) pCmds of
        Some i \<Rightarrow> Some i
      | None \<Rightarrow>
          (case filter (\<lambda>i. strncasecmp (snd (pCmds ! i)) pToken (length pToken) = 0) [0..<length pCmds] of
             [i] \<Rightarrow> Some i
           | _ \<Rightarrow> None))"

definition tinyCLI_strtoul_wrapper :: "u8 list \<Rightarrow> u64 option" where
  "tinyCLI_strtoul_wrapper nptr =
     stub_strtoul nptr (case nptr of a # b # _ \<Rightarrow> if a = 0x30 \<and> tolower b = 0x78 then 16 else 10 | _ \<Rightarrow> 10)"

definition argv_number :: "nat \<Rightarrow> 'w Cli \<Rightarrow> u64 option" where
  "argv_number i w = do { s \<leftarrow> argv_string i w; tinyCLI_strtoul_wrapper s }"

definition do_call :: "'w Cli_If \<Rightarrow> Call \<Rightarrow> 'w Cli \<Rightarrow> 'w Cli" where
  "do_call I c w = (let (t, x) = call I c (cli_triggers w, cli_world w) in w\<lparr>cli_triggers := t, cli_world := x\<rparr>)"

text \<open>\<open>if (HSS_BootInit()) { HSS_BootHarts(); }\<close>\<close>

definition attempt_boot :: "'w Cli_If \<Rightarrow> 'w Cli \<Rightarrow> 'w Cli" where
  "attempt_boot I w =
     (let (b, t, x) = boot_init I (cli_triggers w, cli_world w); w = w\<lparr>cli_triggers := t, cli_world := x\<rparr> in
      if b then do_call I C_boot_harts w else w)"

text \<open>The warning disarms itself; the handler runs either way. \<open>tokenId\<close> is written and never read.\<close>

definition dispatch_command :: "cmd_table \<Rightarrow> nat \<Rightarrow> (CmdId \<Rightarrow> 'w Cli \<Rightarrow> 'w Cli option) \<Rightarrow> 'w Cli \<Rightarrow> (bool \<times> 'w Cli) option" where
  "dispatch_command pCmds level run w =
     (if argc_tokenCount w > level then do {
        token \<leftarrow> argv_string level w;
        (case tinyCLI_NameToCmdIndex pCmds token of
           None \<Rightarrow> Some (False, w)
         | Some cmdIndex \<Rightarrow> do {
             let w = (if level = 0 \<and> warnIfPostInit w ! cmdIndex \<and> HSS_Trigger_IsNotified True EVENT_POST_BOOT (cli_triggers w)
                      then w\<lparr>warnIfPostInit := (warnIfPostInit w)[cmdIndex := False]\<rparr> else w);
             w \<leftarrow> run (fst (pCmds ! cmdIndex)) w;
             Some (True, w) }) }
      else Some (False, w))"

definition tinyCLI_MemTest :: "'w Cli_If \<Rightarrow> 'w Cli \<Rightarrow> 'w Cli option" where
  "tinyCLI_MemTest I w =
     (if argc_tokenCount w > 1 then do {
        startAddr \<leftarrow> argv_number 1 w;
        count \<leftarrow> (if argc_tokenCount w > 2 then argv_number 2 w else Some 256);
        Some (do_call I (C_memtest_ex startAddr count) w) }
      else Some (do_call I C_memtest_full w))"

definition tinyCLI_CRC32 :: "'w Cli_If \<Rightarrow> 'w Cli \<Rightarrow> 'w Cli option" where
  "tinyCLI_CRC32 I w =
     (if argc_tokenCount w > 2 then do {
        startAddr \<leftarrow> argv_number 2 w;
        count \<leftarrow> (if argc_tokenCount w > 3 then argv_number 3 w else Some 256);
        Some (do_call I (C_crc32 startAddr count) w) }
      else Some w)"

definition tinyCLI_HexDump :: "DDR_Layout \<Rightarrow> 'w Cli_If \<Rightarrow> 'w Cli \<Rightarrow> 'w Cli option" where
  "tinyCLI_HexDump l I w =
     (if argc_tokenCount w = 2 then
        let start = (if hexdump_startAddr w = 0 then HSS_DDR_GetStart l - hexdump_count w else hexdump_startAddr w)
              + hexdump_count w in
        Some (do_call I (C_hexdump start (hexdump_count w)) (w\<lparr>hexdump_startAddr := start\<rparr>))
      else if argc_tokenCount w > 2 then do {
        start \<leftarrow> argv_number 2 w;
        count \<leftarrow> (if argc_tokenCount w > 3 then argv_number 3 w else Some (hexdump_count w));
        Some (do_call I (C_hexdump start count) (w\<lparr>hexdump_startAddr := start, hexdump_count := count\<rparr>)) }
      else Some w)"

definition debug_subcommand :: "DDR_Layout \<Rightarrow> 'w Cli_If \<Rightarrow> CmdId \<Rightarrow> 'w Cli \<Rightarrow> 'w Cli option" where
  "debug_subcommand l I c w =
     (if c = CMD_DBG_CRC32 then tinyCLI_CRC32 I w
      else if c = CMD_DBG_HEXDUMP then tinyCLI_HexDump l I w
      else Some (do_call I (C_print c) w))"

definition tinyCLI_Debug :: "DDR_Layout \<Rightarrow> 'w Cli_If \<Rightarrow> 'w Cli \<Rightarrow> 'w Cli option" where
  "tinyCLI_Debug l I w = map_option snd (dispatch_command debugCmds 1 (debug_subcommand l I) w)"

text \<open>The partition table handed to \<open>GPT_SetBootPartitionIndex\<close> is not looked at.\<close>

definition tinyCLI_Boot_Select :: "'w Cli_If \<Rightarrow> 'w Cli \<Rightarrow> 'w Cli option" where
  "tinyCLI_Boot_Select I w =
     (if argc_tokenCount w > 2 then do {
        index \<leftarrow> argv_number 2 w;
        Some (do_call I (C_set_boot_partition index) w) }
      else Some w)"

definition boot_subcommand :: "'w Cli_If \<Rightarrow> CmdId \<Rightarrow> 'w Cli \<Rightarrow> 'w Cli option" where
  "boot_subcommand I c w =
     (if c = CMD_BOOT_INFO then Some (do_call I C_boot_info w)
      else if c = CMD_BOOT_LIST then Some (do_call I C_boot_list w)
      else tinyCLI_Boot_Select I w)"

definition tinyCLI_Boot :: "'w Cli_If \<Rightarrow> 'w Cli \<Rightarrow> 'w Cli option" where
  "tinyCLI_Boot I w = do {
     (handled, w) \<leftarrow> dispatch_command bootCmds 1 (boot_subcommand I) w;
     Some (if handled then w else attempt_boot I w) }"

text \<open>QSPI, PAYLOAD and SPI list the storage providers: the kit is built without them.\<close>

definition top_handler :: "DDR_Layout \<Rightarrow> 'w Cli_If \<Rightarrow> CmdId \<Rightarrow> 'w Cli \<Rightarrow> 'w Cli option" where
  "top_handler l I c w = (case c of
     CMD_YMODEM \<Rightarrow> Some (do_call I C_ymodem_loop w)
   | CMD_BOOT \<Rightarrow> tinyCLI_Boot I w
   | CMD_RESET \<Rightarrow> Some (do_call I C_reboot_cold w)
   | CMD_DEBUG \<Rightarrow> tinyCLI_Debug l I w
   | CMD_MEMTEST \<Rightarrow> tinyCLI_MemTest I w
   | CMD_EMMC \<Rightarrow> Some (do_call I C_select_emmc w)
   | CMD_MMC \<Rightarrow> Some (do_call I C_select_mmc w)
   | CMD_SDCARD \<Rightarrow> Some (do_call I C_select_sdcard w)
   | CMD_QSPI \<Rightarrow> Some (do_call I C_list_storage w)
   | CMD_PAYLOAD \<Rightarrow> Some (do_call I C_list_storage w)
   | CMD_SPI \<Rightarrow> Some (do_call I C_list_storage w)
   | _ \<Rightarrow> Some (do_call I (C_print c) w))"

definition HSS_TinyCLI_Execute :: "DDR_Layout \<Rightarrow> 'w Cli_If \<Rightarrow> 'w Cli \<Rightarrow> 'w Cli option" where
  "HSS_TinyCLI_Execute l I w = map_option snd (dispatch_command toplevelCmds 0 (top_handler l I) w)"

section \<open>The other states\<close>

definition tinycli_init_handler :: "'w Cli hook" where
  "tinycli_init_handler m w =
     Some (if HSS_Trigger_IsNotified True EVENT_DDR_TRAINED (cli_triggers w) \<and>
              HSS_Trigger_IsNotified True EVENT_STARTUP_COMPLETE (cli_triggers w)
           then m\<lparr>state := TINYCLI_PREBOOT\<rparr> else m, w)"

text \<open>\<open>HSS_ShowTimeout\<close>: a key other than ESC within the time.\<close>

definition HSS_ShowTimeout :: "'w Cli \<Rightarrow> bool \<times> 'w Cli" where
  "HSS_ShowTimeout w = (let (k, w) = uart_getchar w in (k \<noteq> None \<and> k \<noteq> Some 27, w))"

definition tinycli_preboot_handler :: "'w Cli hook" where
  "tinycli_preboot_handler m w =
     (let (keyPressedFlag, w) =
        (if HSS_Trigger_IsNotified True EVENT_USBDMSC_REQUESTED (cli_triggers w) then (True, w) else HSS_ShowTimeout w) in
      Some (m\<lparr>state := if keyPressedFlag then TINYCLI_READLINE else TINYCLI_DOBOOT\<rparr>, w))"

definition tinycli_doboot_handler :: "DDR_Layout \<Rightarrow> u64 \<Rightarrow> 'w Cli_If \<Rightarrow> 'w Cli hook" where
  "tinycli_doboot_handler l target I m w =
     Some (if \<not> HSS_DDR_IsAddrInDDR l target \<or> HSS_Trigger_IsNotified True EVENT_DDR_TRAINED (cli_triggers w)
       then (m\<lparr>state := TINYCLI_READLINE\<rparr>,
             if HSS_Trigger_IsNotified True EVENT_POST_BOOT (cli_triggers w) then w else attempt_boot I w)
       else (m, w))"

definition tinycli_parseline_handler :: "DDR_Layout \<Rightarrow> 'w Cli_If \<Rightarrow> 'w Cli hook" where
  "tinycli_parseline_handler l I m w = do {
     w \<leftarrow> (if readStringLen w > 0 then do {
             (n, w) \<leftarrow> HSS_TinyCLI_ParseIntoTokens w;
             if n \<noteq> 0 then HSS_TinyCLI_Execute l I w else Some w }
           else Some w);
     Some (m\<lparr>state := TINYCLI_READLINE\<rparr>, w) }"

definition tinycli_usbdmsc_handler :: "'w Cli hook" where
  "tinycli_usbdmsc_handler m w = Some (m\<lparr>state := TINYCLI_DOBOOT\<rparr>, w)"

definition tinycli_uart_surrender_handler :: "'w Cli hook" where
  "tinycli_uart_surrender_handler m w = Some (m, w)"

definition tinycli_state_descs :: "DDR_Layout \<Rightarrow> u64 \<Rightarrow> 'w Cli_If \<Rightarrow> 'w Cli StateDesc list" where
  "tinycli_state_descs l target I =
     [\<lparr>sd_state = TINYCLI_INITIALIZATION, state_onEntry = None, state_onExit = None, state_handler = Some tinycli_init_handler\<rparr>,
      \<lparr>sd_state = TINYCLI_PREBOOT, state_onEntry = None, state_onExit = None, state_handler = Some tinycli_preboot_handler\<rparr>,
      \<lparr>sd_state = TINYCLI_DOBOOT, state_onEntry = None, state_onExit = None, state_handler = Some (tinycli_doboot_handler l target I)\<rparr>,
      \<lparr>sd_state = TINYCLI_READLINE, state_onEntry = Some tinycli_readline_onEntry,
       state_onExit = Some tinycli_readline_onExit, state_handler = Some tinycli_readline_handler\<rparr>,
      \<lparr>sd_state = TINYCLI_PARSELINE, state_onEntry = None, state_onExit = None, state_handler = Some (tinycli_parseline_handler l I)\<rparr>,
      \<lparr>sd_state = TINYCLI_USBDMSC, state_onEntry = None, state_onExit = None, state_handler = Some tinycli_usbdmsc_handler\<rparr>,
      \<lparr>sd_state = TINYCLI_UART_SURRENDER, state_onEntry = None, state_onExit = None, state_handler = Some tinycli_uart_surrender_handler\<rparr>]"

definition tinycli_service :: StateMachine where
  "tinycli_service = machine_init TINYCLI_NUM_STATES"

definition HSS_TinyCLI_WaitForUSBMSCDDone :: "StateMachine \<Rightarrow> StateMachine" where
  "HSS_TinyCLI_WaitForUSBMSCDDone m = m\<lparr>state := TINYCLI_USBDMSC\<rparr>"

definition HSS_TinyCLI_SurrenderUART :: "StateMachine \<Rightarrow> StateMachine" where
  "HSS_TinyCLI_SurrenderUART m = m\<lparr>state := TINYCLI_UART_SURRENDER\<rparr>"

text \<open>\<open>HSS_TinyCLI_Parser\<close>: one step of the machine if a key comes in time.\<close>

definition HSS_TinyCLI_Parser :: "DDR_Layout \<Rightarrow> u64 \<Rightarrow> 'w Cli_If \<Rightarrow> u64 \<Rightarrow> u64 \<Rightarrow> 'w Cli hook" where
  "HSS_TinyCLI_Parser l target I t0 t1 m w =
     (let (keyPressedFlag, w) =
        (if HSS_Trigger_IsNotified True EVENT_USBDMSC_REQUESTED (cli_triggers w) then (True, w) else HSS_ShowTimeout w) in
      if keyPressedFlag then RunStateMachine (tinycli_state_descs l target I) t0 t1 m w else Some (m, w))"

text \<open>Static data before the first step.\<close>

definition cli_init :: "u8 option list \<Rightarrow> HSS_Triggers \<Rightarrow> 'w \<Rightarrow> 'w Cli" where
  "cli_init keys t x =
     \<lparr>cli_keys = keys, myPrevBuffer = replicate HSS_UART_HELPER_MAX_GETLINE 0,
      myBuffer = replicate HSS_UART_HELPER_MAX_GETLINE 0, readStringLen = 0, escapeActive = False,
      strtok_string = None, argv_tokenArray = [], warnIfPostInit = toplevelCmdsSafeAfterBootFlags,
      hexdump_count = 256, hexdump_startAddr = 0, cli_triggers = t, cli_world = x\<rparr>"

section \<open>Lemmas on tokens\<close>

lemma strtok_r_end: "cstr q buf = Some [] \<Longrightarrow> strtok_r None delim (Some q) buf = Some (None, buf, None)"
  using cstrD [of q buf "[]"] by (simp add: strtok_r_def buf_at_def)

lemma split_fields_Cons:
  "s \<noteq> [] \<Longrightarrow> split_fields delim s = takeWhile (\<lambda>c. c \<notin> set delim) s # split_fields delim (drop 1 (dropWhile (\<lambda>c. c \<notin> set delim) s))"
  by (subst split_fields.simps) simp

lemma drop_dropWhile_less: "s \<noteq> [] \<Longrightarrow> length (drop 1 (dropWhile P s)) < length s"
  using length_dropWhile_le [of P s] by (cases s) (auto split: if_splits simp: le_imp_less_Suc less_Suc_eq_le)

lemma parse_loop_fields:
  assumes "cstr q buf = Some s" "length argv + length (split_fields cli_delim s) < mMAX_NUM_TOKENS"
  shows "\<exists>ts buf'. parse_loop argv (Some t) (Some q) buf = Some (argv @ t # ts, None, buf') \<and>
    map (\<lambda>o'. cstr o' buf') ts = map Some (split_fields cli_delim s) \<and>
    (s \<noteq> [] \<longrightarrow> take q buf' = take q buf) \<and> (s = [] \<longrightarrow> buf' = buf) \<and> length buf' = length buf"
  using assms
proof (induction "length s" arbitrary: s q buf argv t rule: less_induct)
  case less
  let ?a = "takeWhile (\<lambda>c. c \<notin> set cli_delim) s" and ?r = "drop 1 (dropWhile (\<lambda>c. c \<notin> set cli_delim) s)"
  show ?case
  proof (cases "s = []")
    case True
    then have "parse_loop argv (Some t) (Some q) buf = Some (argv @ [t], None, buf)"
      using less.prems strtok_r_end [of q buf] by (subst parse_loop.simps) (simp add: parse_loop.simps [of _ None])
    then show ?thesis using True by (intro exI [of _ "[]"] exI [of _ buf]) simp
  next
    case False
    obtain q' b where b: "strtok_r None cli_delim (Some q) buf = Some (Some q, b, Some q')" "cstr q b = Some ?a"
        "cstr q' b = Some ?r" "q \<le> q'" "?r \<noteq> [] \<longrightarrow> q + length ?a < q'" "take q b = take q buf" "length b = length buf"
      using strtok_r_step [OF less.prems(1) False, of cli_delim] by auto
    have e: "parse_loop argv (Some t) (Some q) buf = parse_loop (argv @ [t]) (Some q) (Some q') b"
      using b(1) less.prems(2) by (subst parse_loop.simps) simp
    have f: "split_fields cli_delim s = ?a # split_fields cli_delim ?r" by (rule split_fields_Cons [OF False])
    obtain ts b' where b': "parse_loop (argv @ [t]) (Some q) (Some q') b = Some ((argv @ [t]) @ q # ts, None, b')"
        "map (\<lambda>o'. cstr o' b') ts = map Some (split_fields cli_delim ?r)"
        "?r \<noteq> [] \<longrightarrow> take q' b' = take q' b" "?r = [] \<longrightarrow> b' = b" "length b' = length b"
      using less.hyps [OF drop_dropWhile_less [OF False] b(3), of "argv @ [t]" q] less.prems(2) f by auto
    have "cstr q b' = Some ?a"
      using cstr_cong [OF b(2), of q' b'] b(2,5) b'(3,4,5) by (cases "?r = []") auto
    moreover have "take q b' = take q buf"
    proof (cases "?r = []")
      case False
      then have "take q' b' = take q' b" using b'(3) by blast
      then have "take q (take q' b') = take q (take q' b)" by simp
      then show ?thesis using b(4,6) by (simp add: min_absorb1)
    qed (use b(6) b'(4) in simp)
    ultimately show ?thesis using e b b' f False by (intro exI [of _ "q # ts"] exI [of _ b']) simp
  qed
qed

lemma argv_strings:
  "map (\<lambda>i. argv_string i w) [0..<argc_tokenCount w] = map (\<lambda>o'. cstr o' (myBuffer w)) (argv_tokenArray w)"
  by (intro nth_equalityI) (auto simp: argv_string_def)

text \<open>A line is split into its fields.\<close>

lemma parse_fields:
  assumes "strtok_string w = None" "cstr 0 (myBuffer w) = Some s" "s \<noteq> []"
    and "length (split_fields cli_delim s) \<le> mMAX_NUM_TOKENS"
  shows "\<exists>w'. HSS_TinyCLI_ParseIntoTokens w = Some (length (split_fields cli_delim s), w') \<and>
    map (\<lambda>i. argv_string i w') [0..<argc_tokenCount w'] = map Some (split_fields cli_delim s) \<and>
    w' = w\<lparr>argv_tokenArray := argv_tokenArray w', myBuffer := myBuffer w'\<rparr> \<and>
    length (argv_tokenArray w') = length (split_fields cli_delim s) \<and> length (myBuffer w') = length (myBuffer w)"
proof -
  let ?a = "takeWhile (\<lambda>c. c \<notin> set cli_delim) s" and ?r = "drop 1 (dropWhile (\<lambda>c. c \<notin> set cli_delim) s)"
  have e: "strtok_r (Some 0) cli_delim None b = strtok_r None cli_delim (Some 0) b" for b
    by (simp add: strtok_r_def)
  obtain q' b where b: "strtok_r None cli_delim (Some 0) (myBuffer w) = Some (Some 0, b, Some q')" "cstr 0 b = Some ?a"
      "cstr q' b = Some ?r" "?r \<noteq> [] \<longrightarrow> length ?a < q'" "length b = length (myBuffer w)"
    using strtok_r_step [OF assms(2,3), of cli_delim] by auto
  have f: "split_fields cli_delim s = ?a # split_fields cli_delim ?r" by (rule split_fields_Cons [OF assms(3)])
  obtain ts b' where b': "parse_loop [] (Some 0) (Some q') b = Some (0 # ts, None, b')"
      "map (\<lambda>o'. cstr o' b') ts = map Some (split_fields cli_delim ?r)"
      "?r \<noteq> [] \<longrightarrow> take q' b' = take q' b" "?r = [] \<longrightarrow> b' = b" "length b' = length b"
    using parse_loop_fields [OF b(3), of "[]" 0] assms(4) f by auto
  have "cstr 0 b' = Some ?a"
    using cstr_cong [OF b(2), of q' b'] b(2,4) b'(3,4,5) by (cases "?r = []") auto
  then have m: "map (\<lambda>o'. cstr o' b') (0 # ts) = map Some (split_fields cli_delim s)" using b'(2) f by simp
  then have l: "length (0 # ts) = length (split_fields cli_delim s)" by (metis length_map)
  let ?w = "w\<lparr>argv_tokenArray := 0 # ts, strtok_string := None, myBuffer := b'\<rparr>"
  show ?thesis
    using b b' m l e assms(1) argv_strings [of ?w]
    by (intro exI [of _ ?w]) (simp add: HSS_TinyCLI_ParseIntoTokens_def del: upt_Suc)
qed

section \<open>Safety\<close>

definition buf_ok :: "u8 list \<Rightarrow> bool" where
  "buf_ok buf \<longleftrightarrow> length buf = HSS_UART_HELPER_MAX_GETLINE \<and> buf ! bufferLen = 0"

definition data_ok :: "'w Cli \<Rightarrow> bool" where
  "data_ok w \<longleftrightarrow> buf_ok (myBuffer w) \<and> buf_ok (myPrevBuffer w) \<and> readStringLen w \<le> int bufferLen \<and>
     length (warnIfPostInit w) = length toplevelCmds \<and>
     (\<forall>p. strtok_string w = Some p \<longrightarrow> p \<le> bufferLen) \<and> (\<forall>p\<in>set (argv_tokenArray w). p \<le> bufferLen)"

lemma length_toplevel [simp]: "length toplevelCmds = 15" "length toplevelCmdsSafeAfterBootFlags = 15"
  by (simp_all add: toplevelCmds_def toplevelCmdsSafeAfterBootFlags_def)

lemma strlen_ok: "buf_ok buf \<Longrightarrow> \<exists>n. strlen buf = Some n \<and> n \<le> bufferLen"
proof -
  assume b: "buf_ok buf"
  then obtain n where n: "strlen buf = Some n"
    using find_index_ex [of 0 buf "\<lambda>b. b = 0"] unfolding strlen_def buf_ok_def by (metis (no_types) lessI nth_mem Suc_numeral semiring_norm(5,2,8,3))
  then have "\<forall>j<n. buf ! j \<noteq> 0" unfolding strlen_def by (auto dest: find_index_SomeD)
  then show ?thesis using n b by (metis buf_ok_def not_le)
qed

lemma cstr_ok: "buf_ok buf \<Longrightarrow> p \<le> bufferLen \<Longrightarrow> \<exists>s. cstr p buf = Some s \<and> set s \<subseteq> set buf"
proof -
  assume b: "buf_ok buf" "p \<le> bufferLen"
  then have "0 = drop p buf ! (bufferLen - p)" "bufferLen - p < length (drop p buf)" by (auto simp: buf_ok_def)
  then have "0 \<in> set (drop p buf)" by (metis nth_mem)
  then obtain n where "strlen (drop p buf) = Some n"
    using find_index_ex [of 0 "drop p buf" "\<lambda>b. b = 0"] unfolding strlen_def by auto
  then show ?thesis using b set_take_subset [of n "drop p buf"] set_drop_subset [of p buf]
    by (auto simp: cstr_def buf_ok_def)
qed

lemma put_at_ok:
  assumes "data_ok w" "0 \<le> i" "i < int bufferLen"
  shows "\<exists>w'. put_at i b w = Some w' \<and> data_ok w' \<and> w' = w\<lparr>myBuffer := (myBuffer w)[nat i := b]\<rparr>"
  using assms by (auto simp: put_at_def buf_put_def data_ok_def buf_ok_def nth_list_update)

lemma copy_prefix_ok:
  assumes "buf_ok src" "buf_ok dst" "0 \<le> n" "n \<le> int HSS_UART_HELPER_MAX_GETLINE"
  shows "\<exists>buf. copy_prefix n src dst = Some buf \<and> buf_ok buf"
proof -
  obtain k where k: "n = int k" using assms(3) by (metis nonneg_int_cases)
  have "buf_ok (take k src @ drop k dst)" if "k \<le> 80"
    using assms(1,2) that by (auto simp: buf_ok_def nth_append)
  then show ?thesis using assms k by (auto simp: copy_prefix_def slice_def memcpy_to_def splice_def buf_ok_def)
qed

lemma escape_key_ok:
  assumes "data_ok w" "0 \<le> readStringLen w" "\<not> (c = 0x43 \<and> readStringLen w = 78)"
  shows "\<exists>r w'. escape_key c w = Some (r, w') \<and> data_ok w' \<and> 0 \<le> readStringLen w'"
proof -
  have up: "\<exists>w'. up_arrow w = Some w' \<and> data_ok w' \<and> 0 \<le> readStringLen w'"
  proof -
    obtain n where n: "strlen (myBuffer w) = Some n" "n \<le> bufferLen"
      using strlen_ok [of "myBuffer w"] assms(1) by (auto simp: data_ok_def)
    obtain buf where b: "copy_prefix (int n) (myPrevBuffer w) (myBuffer w) = Some buf" "buf_ok buf"
      using copy_prefix_ok [of "myPrevBuffer w" "myBuffer w" "int n"] assms(1) n by (auto simp: data_ok_def)
    obtain k where k: "strlen buf = Some k" using strlen_ok [OF b(2)] by blast
    show ?thesis
    proof (cases "n = 0")
      case True
      have "data_ok (w\<lparr>readStringLen := 0\<rparr>)" using assms by (simp add: data_ok_def)
      from put_at_ok [OF this, of 0 0] show ?thesis using n True by (auto simp: up_arrow_def data_ok_def)
    next
      case False
      then show ?thesis using n b k assms(1) by (simp add: up_arrow_def data_ok_def)
    qed
  qed
  have right: "\<exists>w'. right_arrow w = Some w' \<and> data_ok w' \<and> 0 \<le> readStringLen w'" if "readStringLen w \<noteq> 78"
  proof (cases "below (readStringLen w) bufferLen")
    case True
    let ?w = "w\<lparr>escapeActive := False, readStringLen := readStringLen w + 1\<rparr>"
    have "data_ok ?w" "readStringLen w + 1 < 79" using assms True that by (auto simp: data_ok_def below_def)
    from put_at_ok [OF this(1), of "readStringLen w + 1" 32] this True assms show ?thesis
      by (auto simp: right_arrow_def Let_def buf_at_def data_ok_def buf_ok_def)
  next
    case False
    then show ?thesis using assms by (simp add: right_arrow_def data_ok_def)
  qed
  have left: "\<exists>w'. left_arrow w = Some w' \<and> data_ok w' \<and> 0 \<le> readStringLen w'"
    using assms by (auto simp: left_arrow_def data_ok_def)
  have rest: "data_ok (w\<lparr>escapeActive := False\<rparr>)" using assms(1) by (simp add: data_ok_def)
  show ?thesis using up right left rest assms unfolding escape_key_def by (auto split del: if_split split: if_split)
qed

lemma put_zero_ok:
  "data_ok w \<Longrightarrow> 0 \<le> i \<Longrightarrow> i \<le> int bufferLen \<Longrightarrow> \<exists>w'. put_at i 0 w = Some w' \<and> data_ok w' \<and> readStringLen w' = readStringLen w"
  by (auto simp: put_at_def buf_put_def data_ok_def buf_ok_def nth_list_update)

lemma data_ok_len: "data_ok w \<Longrightarrow> n \<le> int bufferLen \<Longrightarrow> data_ok (w\<lparr>readStringLen := n\<rparr>)"
  by (simp add: data_ok_def)

lemma enter_key_ok:
  assumes "data_ok w" "0 \<le> readStringLen w"
  shows "\<exists>w'. enter_key w = Some w' \<and> data_ok w' \<and> 0 \<le> readStringLen w'"
proof -
  obtain w1 where w1: "(if below (readStringLen w) bufferLen then put_at (readStringLen w) 0 w else Some w) = Some w1"
      "data_ok w1" "readStringLen w1 = readStringLen w"
    using put_zero_ok [OF assms] assms(1) by (cases "below (readStringLen w) bufferLen") (auto simp: below_def)
  show ?thesis
  proof (cases "readStringLen w = 0")
    case False
    have l: "readStringLen w \<le> 79" using assms(1) by (simp add: data_ok_def)
    obtain buf where "copy_prefix (readStringLen w1 + 1) (myBuffer w1) (myPrevBuffer w1) = Some buf" "buf_ok buf"
      using copy_prefix_ok [of "myBuffer w1" "myPrevBuffer w1" "readStringLen w1 + 1"] w1(2,3) assms(2) l
      by (auto simp: data_ok_def)
    then show ?thesis unfolding enter_key_def w1(1) using w1(2,3) False assms(2) by (simp add: data_ok_def)
  next
    case True
    obtain n where n: "strlen (myPrevBuffer w1) = Some n" "n \<le> bufferLen"
      using strlen_ok [of "myPrevBuffer w1"] w1(2) by (auto simp: data_ok_def)
    obtain buf where "copy_prefix (int n + 1) (myPrevBuffer w1) (myBuffer w1) = Some buf" "buf_ok buf"
      using copy_prefix_ok [of "myPrevBuffer w1" "myBuffer w1" "int n + 1"] w1(2) n by (auto simp: data_ok_def)
    then show ?thesis unfolding enter_key_def w1(1) using w1(2,3) n True by (simp add: data_ok_def)
  qed
qed

text \<open>A key of the line: the length is only negative when the line is over.\<close>

lemma line_key_ok:
  assumes "data_ok w" "0 \<le> readStringLen w"
  shows "\<exists>d w'. line_key c w = Some (d, w') \<and> data_ok w' \<and> (\<not> d \<longrightarrow> 0 \<le> readStringLen w')"
proof -
  have del: "\<exists>w'. delete_key w = Some w' \<and> data_ok w' \<and> 0 \<le> readStringLen w'"
  proof (cases "readStringLen w = 0")
    case False
    then have "data_ok (w\<lparr>readStringLen := readStringLen w - 1\<rparr>)" using assms by (simp add: data_ok_def)
    from put_zero_ok [OF this, of "readStringLen w - 1"] False assms show ?thesis
      by (auto simp: delete_key_def data_ok_def)
  qed (use assms in \<open>simp add: delete_key_def\<close>)
  have end': "\<exists>w'. end_key w = Some w' \<and> data_ok w' \<and> 0 \<le> readStringLen w'"
    using strlen_ok [of "myBuffer w"] assms(1) by (auto simp: end_key_def data_ok_def)
  have int: "\<exists>w'. interrupt_key w = Some w' \<and> data_ok w'"
    using put_zero_ok [OF data_ok_len [OF assms(1), of "- 1"], of 0] by (auto simp: interrupt_key_def)
  have oth: "\<exists>w'. other_key c w = Some w' \<and> data_ok w' \<and> 0 \<le> readStringLen w'"
  proof (cases "below (readStringLen w) bufferLen")
    case True
    then show ?thesis using put_at_ok [OF assms, of c] assms
      by (auto simp: other_key_def below_def data_ok_def)
  qed (use assms in \<open>simp add: other_key_def\<close>)
  have start: "data_ok (w\<lparr>readStringLen := 0\<rparr>)" "data_ok (w\<lparr>escapeActive := True\<rparr>)"
    using assms(1) by (simp_all add: data_ok_def)
  show ?thesis
    using enter_key_ok [OF assms] del end' int oth start assms unfolding line_key_def by auto
qed

lemma uart_getchar_ok:
  "data_ok (snd (uart_getchar w)) = data_ok w" "readStringLen (snd (uart_getchar w)) = readStringLen w"
  "escapeActive (snd (uart_getchar w)) = escapeActive w" "cli_triggers (snd (uart_getchar w)) = cli_triggers w"
  "myBuffer (snd (uart_getchar w)) = myBuffer w"
  by (auto simp: uart_getchar_def data_ok_def split: list.split)

text \<open>The right arrow in the last column but one, which takes the terminator away.\<close>

definition edge_key :: "'w Cli \<Rightarrow> bool" where
  "edge_key w \<longleftrightarrow> escapeActive w \<and> fst (uart_getchar w) = Some 0x43 \<and> readStringLen w = 78"

lemma readline_handler_ok:
  assumes "data_ok w" "0 \<le> readStringLen w" "\<not> edge_key w"
  shows "\<exists>m' w'. tinycli_readline_handler m w = Some (m', w') \<and> data_ok w' \<and>
    (m' = m \<and> 0 \<le> readStringLen w' \<or> m' = m\<lparr>state := TINYCLI_PARSELINE\<rparr>)"
proof -
  obtain k w1 where w1: "uart_getchar w = (k, w1)" by (cases "uart_getchar w")
  have d: "data_ok w1" "0 \<le> readStringLen w1"
    using uart_getchar_ok(1,2) [of w] w1 assms by auto
  show ?thesis
  proof (cases k)
    case None
    then show ?thesis using w1 d by (simp add: tinycli_readline_handler_def)
  next
    case (Some c)
    obtain r w2 where w2: "(if escapeActive w1 then escape_key c w1 else Some (False, w1)) = Some (r, w2)"
        "data_ok w2" "0 \<le> readStringLen w2"
      using escape_key_ok [OF d, of c] assms(3) w1 Some d uart_getchar_ok(2,3) [of w]
      by (fastforce simp: edge_key_def)
    then show ?thesis
      using line_key_ok [OF w2(2,3), of c] w1 Some by (cases r) (auto simp: tinycli_readline_handler_def)
  qed
qed

lemma strtok_scan_ok:
  assumes "buf_ok buf" "p \<le> bufferLen"
  shows "\<exists>b q. strtok_scan delim p buf = Some (b, q) \<and> buf_ok b \<and> q \<le> bufferLen \<and> set b \<subseteq> insert 0 (set buf)"
  using assms
proof (induction delim p buf rule: strtok_scan.induct)
  case (1 delim p buf)
  show ?case
  proof (cases "buf ! p = 0 \<or> buf ! p \<in> set delim")
    case True
    then show ?thesis using 1(2,3) set_update_subset_insert [of buf p 0]
      by (subst strtok_scan.simps) (auto simp: buf_ok_def nth_list_update le_less)
  next
    case False
    then have "p + 1 \<le> 79" using 1(2,3) by (auto simp: buf_ok_def le_less)
    then show ?thesis using 1 False by (subst strtok_scan.simps) (auto simp: buf_ok_def)
  qed
qed

definition saveptr_ok :: "nat option \<Rightarrow> bool" where
  "saveptr_ok s \<longleftrightarrow> (\<forall>p. s = Some p \<longrightarrow> p \<le> bufferLen)"

lemma strtok_r_ok:
  assumes "buf_ok buf" "saveptr_ok s" "saveptr_ok str" "s \<noteq> None \<or> str \<noteq> None"
  shows "\<exists>t b s'. strtok_r str delim s buf = Some (t, b, s') \<and> buf_ok b \<and> set b \<subseteq> insert 0 (set buf) \<and>
    saveptr_ok s' \<and> saveptr_ok t \<and> (t \<noteq> None \<longrightarrow> s' \<noteq> None)"
proof -
  obtain p where p: "(if s = None then str else s) = Some p" "p \<le> 79"
    using assms by (cases s) (auto simp: saveptr_ok_def)
  then have "buf_at p buf = Some (buf ! p)" using assms(1) by (simp add: buf_at_def buf_ok_def)
  moreover obtain b q where "strtok_scan delim p buf = Some (b, q)" "buf_ok b" "q \<le> 79" "set b \<subseteq> insert 0 (set buf)"
    using strtok_scan_ok [OF assms(1) p(2)] by blast
  ultimately show ?thesis using p assms(1) by (cases "buf ! p = 0") (auto simp: strtok_r_def saveptr_ok_def)
qed

lemma parse_loop_ok:
  assumes "buf_ok buf" "saveptr_ok s" "saveptr_ok t" "t \<noteq> None \<longrightarrow> s \<noteq> None" "\<forall>p\<in>set argv. p \<le> bufferLen"
  shows "\<exists>argv' s' b. parse_loop argv t s buf = Some (argv', s', b) \<and> buf_ok b \<and> set b \<subseteq> insert 0 (set buf) \<and>
    saveptr_ok s' \<and> (\<forall>p\<in>set argv'. p \<le> bufferLen)"
  using assms
proof (induction "mMAX_NUM_TOKENS - length argv" arbitrary: argv t s buf rule: less_induct)
  case less
  show ?case
  proof (cases "\<exists>t'. t = Some t' \<and> length argv < mMAX_NUM_TOKENS")
    case True
    then obtain t' where t: "t = Some t'" "length argv < 40" "t' \<le> 79" using less.prems(3) by (auto simp: saveptr_ok_def)
    obtain t2 b s2 where r: "strtok_r None cli_delim s buf = Some (t2, b, s2)" "buf_ok b" "set b \<subseteq> insert 0 (set buf)"
        "saveptr_ok s2" "saveptr_ok t2" "t2 \<noteq> None \<longrightarrow> s2 \<noteq> None"
      using strtok_r_ok [OF less.prems(1,2), of None cli_delim] less.prems(4) t by (auto simp: saveptr_ok_def)
    have "\<exists>argv' s' b'. parse_loop (argv @ [t']) t2 s2 b = Some (argv', s', b') \<and> buf_ok b' \<and>
        set b' \<subseteq> insert 0 (set b) \<and> saveptr_ok s' \<and> (\<forall>p\<in>set argv'. p \<le> bufferLen)"
      by (rule less.hyps) (use r t less.prems(5) in auto)
    then obtain argv' s' b' where p: "parse_loop (argv @ [t']) t2 s2 b = Some (argv', s', b')" "buf_ok b'"
        "set b' \<subseteq> insert 0 (set b)" "saveptr_ok s'" "\<forall>p\<in>set argv'. p \<le> bufferLen" by blast
    have "set b' \<subseteq> insert 0 (set buf)" using p(3) r(3) by blast
    then show ?thesis using p r(1) t by (subst parse_loop.simps) simp
  next
    case False
    then show ?thesis using less.prems by (subst parse_loop.simps) (auto split: option.split)
  qed
qed

text \<open>A state without a minus sign in the line: commands return.\<close>

definition calm :: "'w Cli \<Rightarrow> bool" where
  "calm w \<longleftrightarrow> data_ok w \<and> 0x2D \<notin> set (myBuffer w)"

lemma calm_do_call [simp]: "calm (do_call I c w) = calm w"
  by (simp add: calm_def data_ok_def do_call_def Let_def case_prod_beta)

lemma calm_attempt_boot [simp]: "calm (attempt_boot I w) = calm w"
  by (simp add: attempt_boot_def Let_def case_prod_beta) (simp add: calm_def data_ok_def)

lemma calm_updates [simp]:
  "calm (w\<lparr>hexdump_startAddr := a\<rparr>) = calm w" "calm (w\<lparr>hexdump_count := a\<rparr>) = calm w"
  "calm (w\<lparr>warnIfPostInit := (warnIfPostInit w)[i := b]\<rparr>) = calm w"
  by (simp_all add: calm_def data_ok_def)

lemma argv_string_ok:
  "data_ok w \<Longrightarrow> i < argc_tokenCount w \<Longrightarrow> \<exists>s. argv_string i w = Some s \<and> set s \<subseteq> set (myBuffer w)"
  using cstr_ok [of "myBuffer w" "argv_tokenArray w ! i"] by (auto simp: argv_string_def data_ok_def)

lemma argv_number_ok: "calm w \<Longrightarrow> i < argc_tokenCount w \<Longrightarrow> \<exists>n. argv_number i w = Some n"
  using argv_string_ok [of w i] strtoul_loop_returns
  by (fastforce simp: argv_number_def calm_def tinyCLI_strtoul_wrapper_def stub_strtoul_def)

definition run_ok :: "('w Cli \<Rightarrow> 'w Cli option) \<Rightarrow> bool" where
  "run_ok f \<longleftrightarrow> (\<forall>w. calm w \<longrightarrow> (\<exists>w'. f w = Some w' \<and> calm w'))"

lemma dispatch_ok:
  assumes "\<And>c. run_ok (run c)" "calm w"
  shows "\<exists>b w'. dispatch_command T level run w = Some (b, w') \<and> calm w'"
proof (cases "argc_tokenCount w > level")
  case True
  then obtain s where s: "argv_string level w = Some s" using argv_string_ok assms(2) unfolding calm_def by blast
  show ?thesis
  proof (cases "tinyCLI_NameToCmdIndex T s")
    case (Some i)
    let ?w = "if level = 0 \<and> warnIfPostInit w ! i \<and> HSS_Trigger_IsNotified True EVENT_POST_BOOT (cli_triggers w)
      then w\<lparr>warnIfPostInit := (warnIfPostInit w)[i := False]\<rparr> else w"
    have "calm ?w" using assms(2) by simp
    then obtain w' where "run (fst (T ! i)) ?w = Some w'" "calm w'" using assms(1) unfolding run_ok_def by blast
    then show ?thesis using True s Some
      by (intro exI [of _ True] exI [of _ w']) (simp add: dispatch_command_def Let_def)
  qed (use True s assms(2) in \<open>auto simp: dispatch_command_def\<close>)
qed (use assms(2) in \<open>auto simp: dispatch_command_def\<close>)

lemma handlers_ok: "run_ok (debug_subcommand l I c)" "run_ok (boot_subcommand I c)" "run_ok (tinyCLI_MemTest I)"
proof -
  note n = argv_number_ok
  have "\<exists>w'. tinyCLI_CRC32 I w = Some w' \<and> calm w'" if "calm w" for w
    using that n [OF that, of 2] n [OF that, of 3] by (auto simp: tinyCLI_CRC32_def)
  moreover have "\<exists>w'. tinyCLI_MemTest I w = Some w' \<and> calm w'" if "calm w" for w
    using that n [OF that, of 1] n [OF that, of 2] by (auto simp: tinyCLI_MemTest_def)
  moreover have "\<exists>w'. tinyCLI_HexDump l I w = Some w' \<and> calm w'" if "calm w" for w
    using that n [OF that, of 2] n [OF that, of 3] by (auto simp: tinyCLI_HexDump_def Let_def)
  moreover have "\<exists>w'. tinyCLI_Boot_Select I w = Some w' \<and> calm w'" if "calm w" for w
    using that n [OF that, of 2] by (auto simp: tinyCLI_Boot_Select_def)
  ultimately have "run_ok (tinyCLI_CRC32 I)" "run_ok (tinyCLI_MemTest I)" "run_ok (tinyCLI_HexDump l I)"
      "run_ok (tinyCLI_Boot_Select I)"
    unfolding run_ok_def by blast+
  then show "run_ok (debug_subcommand l I c)" "run_ok (boot_subcommand I c)" "run_ok (tinyCLI_MemTest I)"
    by (auto simp: run_ok_def debug_subcommand_def boot_subcommand_def)
qed

lemma top_handler_ok: "run_ok (top_handler l I c)"
proof -
  have "\<exists>w'. tinyCLI_Debug l I w = Some w' \<and> calm w'" if "calm w" for w
    using dispatch_ok [where run = "debug_subcommand l I", OF handlers_ok(1) that, of debugCmds 1]
    by (auto simp: tinyCLI_Debug_def)
  moreover have "\<exists>w'. tinyCLI_Boot I w = Some w' \<and> calm w'" if "calm w" for w
    using dispatch_ok [where run = "boot_subcommand I", OF handlers_ok(2) that, of bootCmds 1]
    by (auto simp: tinyCLI_Boot_def)
  ultimately have "run_ok (tinyCLI_Debug l I)" "run_ok (tinyCLI_Boot I)" unfolding run_ok_def by blast+
  then show ?thesis using handlers_ok(3) [of I] by (auto simp: run_ok_def top_handler_def split: CmdId.split)
qed

lemma HSS_TinyCLI_Execute_ok: "calm w \<Longrightarrow> \<exists>w'. HSS_TinyCLI_Execute l I w = Some w' \<and> calm w'"
  using dispatch_ok [where run = "top_handler l I", OF top_handler_ok, of w toplevelCmds 0]
  by (auto simp: HSS_TinyCLI_Execute_def)

lemma ParseIntoTokens_ok:
  assumes "calm w"
  shows "\<exists>n w'. HSS_TinyCLI_ParseIntoTokens w = Some (n, w') \<and> calm w'"
proof -
  have s: "buf_ok (myBuffer w)" "saveptr_ok (strtok_string w)" "saveptr_ok (Some 0)"
    using assms by (auto simp: calm_def data_ok_def saveptr_ok_def)
  obtain t b s' where r: "strtok_r (Some 0) cli_delim (strtok_string w) (myBuffer w) = Some (t, b, s')" "buf_ok b"
      "set b \<subseteq> insert 0 (set (myBuffer w))" "saveptr_ok s'" "saveptr_ok t" "t \<noteq> None \<longrightarrow> s' \<noteq> None"
    using strtok_r_ok [OF s, of cli_delim] by auto
  obtain argv s2 b2 where p: "parse_loop [] t s' b = Some (argv, s2, b2)" "buf_ok b2" "set b2 \<subseteq> insert 0 (set b)"
      "saveptr_ok s2" "\<forall>p\<in>set argv. p \<le> bufferLen"
    using parse_loop_ok [OF r(2,4,5,6), of "[]"] by auto
  have "set b2 \<subseteq> insert 0 (set (myBuffer w))" using r(3) p(3) by blast
  then have "0x2D \<notin> set b2" using assms by (auto simp: calm_def)
  then show ?thesis using r(1) p assms
    by (simp add: HSS_TinyCLI_ParseIntoTokens_def calm_def data_ok_def saveptr_ok_def)
qed

lemma parseline_ok:
  assumes "calm w"
  shows "\<exists>w'. tinycli_parseline_handler l I m w = Some (m\<lparr>state := TINYCLI_READLINE\<rparr>, w') \<and> data_ok w'"
proof -
  obtain n w1 where p: "HSS_TinyCLI_ParseIntoTokens w = Some (n, w1)" "calm w1" using ParseIntoTokens_ok [OF assms] by auto
  obtain w2 where e: "HSS_TinyCLI_Execute l I w1 = Some w2" "calm w2" using HSS_TinyCLI_Execute_ok [OF p(2)] by blast
  show ?thesis using p e assms unfolding tinycli_parseline_handler_def calm_def by auto
qed

definition cli_ok :: "StateMachine \<Rightarrow> 'w Cli \<Rightarrow> bool" where
  "cli_ok m w \<longleftrightarrow> data_ok w \<and> 0 \<le> state m \<and> state m < 7 \<and> numStates m = TINYCLI_NUM_STATES \<and>
     - 1 \<le> prevState m \<and> prevState m < 7 \<and>
     (state m = TINYCLI_READLINE \<and> prevState m = TINYCLI_READLINE \<longrightarrow> 0 \<le> readStringLen w)"

lemma cli_state_cases:
  assumes "0 \<le> (s :: int)" "s < 7"
  obtains "s = 0" | "s = 1" | "s = 2" | "s = 3" | "s = 4" | "s = 5" | "s = 6"
  using assms by linarith

lemma cli_desc_at:
  assumes "0 \<le> s" "s < 7"
  shows "\<exists>d. desc_at (tinycli_state_descs l target I) s = Some d \<and> sd_state d = s \<and>
    state_onExit d = (if s = TINYCLI_READLINE then Some tinycli_readline_onExit else None) \<and>
    state_onEntry d = (if s = TINYCLI_READLINE then Some tinycli_readline_onEntry else None) \<and>
    state_handler d = Some (if s = 0 then tinycli_init_handler else if s = 1 then tinycli_preboot_handler
      else if s = 2 then tinycli_doboot_handler l target I else if s = 3 then tinycli_readline_handler
      else if s = 4 then tinycli_parseline_handler l I else if s = 5 then tinycli_usbdmsc_handler
      else tinycli_uart_surrender_handler)"
  by (rule cli_state_cases [OF assms]) (simp_all add: desc_at_def tinycli_state_descs_def)

lemma onExit_ok:
  assumes "data_ok w"
  shows "\<exists>w'. tinycli_readline_onExit m w = Some (m, w') \<and> data_ok w' \<and> set (myBuffer w') \<subseteq> insert 0 (set (myBuffer w))"
proof (cases "readStringLen w > 0")
  case False
  then show ?thesis using assms set_update_subset_insert [of "myBuffer w" 0 0]
    by (auto simp: tinycli_readline_onExit_def put_at_def buf_put_def data_ok_def buf_ok_def nth_list_update)
qed (use assms in \<open>auto simp: tinycli_readline_onExit_def\<close>)

lemma change_state_ok:
  assumes "data_ok w" "- 1 \<le> prevState m" "prevState m < 7" "numStates m = 7" "0 \<le> state m" "state m < 7"
    and d: "desc_at (tinycli_state_descs l target I) (state m) = Some d"
  shows "\<exists>m' w'. change_state (tinycli_state_descs l target I) d m w = Some (m', w') \<and> state m' = state m \<and>
    prevState m' = state m \<and> numStates m' = 7 \<and> data_ok w' \<and> set (myBuffer w') \<subseteq> insert 0 (set (myBuffer w)) \<and>
    (prevState m = state m \<longrightarrow> w' = w) \<and> (prevState m \<noteq> state m \<and> state m = TINYCLI_READLINE \<longrightarrow> readStringLen w' = 0)"
proof (cases "prevState m = state m")
  case False
  obtain w1 where w1: "leave_state (tinycli_state_descs l target I) (prevState m) m w = Some (m, w1)" "data_ok w1"
      "set (myBuffer w1) \<subseteq> insert 0 (set (myBuffer w))"
  proof (cases "prevState m = - 1")
    case True
    show ?thesis by (rule that [of w]) (use True assms in \<open>auto simp: leave_state_def IsValidState_def\<close>)
  next
    case n: False
    with assms have p: "0 \<le> prevState m" "prevState m < 7" by auto
    obtain w' where w': "tinycli_readline_onExit m w = Some (m, w')" "data_ok w'"
        "set (myBuffer w') \<subseteq> insert 0 (set (myBuffer w))"
      using onExit_ok [OF assms(1)] by blast
    show ?thesis
      by (rule that [of "if prevState m = TINYCLI_READLINE then w' else w"])
        (use cli_desc_at [OF p, of l target I] w' assms p in \<open>auto simp: leave_state_def IsValidState_def\<close>)
  qed
  then show ?thesis
    using False d cli_desc_at [OF assms(5,6), of l target I] assms(4)
    by (auto simp: change_state_def tinycli_readline_onEntry_def data_ok_def)
qed (use assms in \<open>auto simp: change_state_def\<close>)

text \<open>The two ways a step can go wrong.\<close>

definition cli_hazard :: "StateMachine \<Rightarrow> 'w Cli \<Rightarrow> bool" where
  "cli_hazard m w \<longleftrightarrow> state m = TINYCLI_READLINE \<and> edge_key w \<or> state m = TINYCLI_PARSELINE \<and> 0x2D \<in> set (myBuffer w)"

lemma cli_step:
  assumes "cli_ok m w" "\<not> cli_hazard m w"
  shows "\<exists>m' w'. RunStateMachine (tinycli_state_descs l target I) t0 t1 m w = Some (m', w') \<and> cli_ok m' w'"
proof -
  let ?ds = "tinycli_state_descs l target I" and ?m = "stamp_begin t0 m"
  have c: "data_ok w" "0 \<le> state m" "state m < 7" "numStates m = 7" "- 1 \<le> prevState m" "prevState m < 7"
    using assms(1) by (auto simp: cli_ok_def)
  obtain d where d: "desc_at ?ds (state m) = Some d" "sd_state d = state m"
    using cli_desc_at [OF c(2,3), of l target I] by blast
  obtain m1 w1 where s: "change_state ?ds d ?m w = Some (m1, w1)" "state m1 = state m" "prevState m1 = state m"
      "numStates m1 = 7" "data_ok w1" "set (myBuffer w1) \<subseteq> insert 0 (set (myBuffer w))"
      "prevState m = state m \<longrightarrow> w1 = w" "prevState m \<noteq> state m \<and> state m = 3 \<longrightarrow> readStringLen w1 = 0"
    using change_state_ok [of w ?m l target I d] c d by auto
  have h: "\<exists>m2 w2. run_hook (state_handler d) m1 w1 = Some (m2, w2) \<and> data_ok w2 \<and> 0 \<le> state m2 \<and> state m2 < 7 \<and>
      numStates m2 = 7 \<and> prevState m2 = state m \<and> (state m2 = 3 \<and> state m = 3 \<longrightarrow> 0 \<le> readStringLen w2)"
    if hd: "state_handler d = Some (if state m = 0 then tinycli_init_handler else if state m = 1 then tinycli_preboot_handler
      else if state m = 2 then tinycli_doboot_handler l target I else if state m = 3 then tinycli_readline_handler
      else if state m = 4 then tinycli_parseline_handler l I else if state m = 5 then tinycli_usbdmsc_handler
      else tinycli_uart_surrender_handler)"
  proof (rule cli_state_cases [OF c(2,3)])
    assume "state m = 0" then show ?thesis using hd s by (simp add: tinycli_init_handler_def)
  next
    assume "state m = 1" then show ?thesis using hd s uart_getchar_ok(1) [of w1]
      by (simp add: tinycli_preboot_handler_def HSS_ShowTimeout_def Let_def case_prod_beta)
  next
    assume "state m = 2" then show ?thesis using hd s
      by (simp add: tinycli_doboot_handler_def attempt_boot_def do_call_def Let_def case_prod_beta data_ok_def)
  next
    assume st: "state m = 3"
    have "0 \<le> readStringLen w1" using s(7,8) st assms(1) by (cases "prevState m = 3") (auto simp: cli_ok_def)
    moreover have "\<not> edge_key w1"
      using s(7,8) st assms(2) by (cases "prevState m = 3") (auto simp: cli_hazard_def edge_key_def)
    ultimately show ?thesis using readline_handler_ok [OF s(5), of m1] hd st s by auto
  next
    assume st: "state m = 4"
    then have "0x2D \<notin> set (myBuffer w1)" using s(6) assms(2) by (auto simp: cli_hazard_def)
    then show ?thesis using parseline_ok [of w1 l I m1] hd st s by (auto simp: calm_def)
  next
    assume "state m = 5" then show ?thesis using hd s by (simp add: tinycli_usbdmsc_handler_def)
  next
    assume "state m = 6" then show ?thesis using hd s by (simp add: tinycli_uart_surrender_handler_def)
  qed
  then obtain m2 w2 where "run_hook (state_handler d) m1 w1 = Some (m2, w2)" "data_ok w2" "0 \<le> state m2" "state m2 < 7"
      "numStates m2 = 7" "prevState m2 = state m" "state m2 = 3 \<and> state m = 3 \<longrightarrow> 0 \<le> readStringLen w2"
    using cli_desc_at [OF c(2,3), of l target I] d by auto
  then show ?thesis using s(1) d c by (auto simp: RunStateMachine_def cli_ok_def)
qed

lemma cli_init_ok: "cli_ok tinycli_service (cli_init keys t x)"
  by (simp add: cli_ok_def tinycli_service_def machine_init_def cli_init_def data_ok_def buf_ok_def)

section \<open>A line that is typed\<close>

definition plain_text :: "u8 list \<Rightarrow> bool" where
  "plain_text cs \<longleftrightarrow> (\<forall>c\<in>set cs. c \<noteq> 0 \<and> c \<noteq> 0x0D \<and> c \<noteq> 0x0A \<and> c \<noteq> 0x7F \<and> c \<noteq> 0x08 \<and> c \<noteq> 0x01 \<and>
     c \<noteq> 0x05 \<and> c \<noteq> 0x04 \<and> c \<noteq> 0x03 \<and> c \<noteq> 0x1B)"

lemma plain_text_Cons [simp]: "plain_text (c # cs) \<Longrightarrow> plain_text cs"
  by (simp add: plain_text_def)

text \<open>The machine inside the line editor, with an empty line.\<close>

definition at_prompt :: "StateMachine \<Rightarrow> 'w Cli \<Rightarrow> bool" where
  "at_prompt m w \<longleftrightarrow> state m = TINYCLI_READLINE \<and> prevState m = TINYCLI_READLINE \<and> numStates m = TINYCLI_NUM_STATES \<and>
     data_ok w \<and> readStringLen w = 0 \<and> \<not> escapeActive w \<and> strtok_string w = None"

lemma run_same_state:
  assumes "state m = s" "prevState m = s" "0 \<le> s" "s < 7"
  shows "RunStateMachine (tinycli_state_descs l target I) t0 t1 m w = do {
    d \<leftarrow> desc_at (tinycli_state_descs l target I) s;
    (m, w) \<leftarrow> run_hook (state_handler d) (stamp_begin t0 m) w; Some (stamp_end t0 t1 m, w) }"
  using cli_desc_at [OF assms(3,4), of l target I] assms by (auto simp: RunStateMachine_def change_state_def)

lemma readline_desc:
  "\<exists>d. desc_at (tinycli_state_descs l target I) 3 = Some d \<and> state_handler d = Some tinycli_readline_handler"
  by (simp add: desc_at_def tinycli_state_descs_def)

lemma handler_char:
  assumes "plain_text [c]" "cli_keys w = Some c # ks" "\<not> escapeActive w" "data_ok w" "readStringLen w = int n" "n < bufferLen"
  shows "tinycli_readline_handler m w =
    Some (m, w\<lparr>cli_keys := ks, myBuffer := (myBuffer w)[n := c], readStringLen := int n + 1\<rparr>)"
  using assms by (simp add: tinycli_readline_handler_def uart_getchar_def line_key_def plain_text_def other_key_def
    put_at_def buf_put_def below_def data_ok_def buf_ok_def)

lemma typed_chars:
  assumes "plain_text cs" "cli_keys w = map Some cs @ ks" "\<not> escapeActive w" "data_ok w" "readStringLen w = int n"
    and "n + length cs \<le> bufferLen" "length ts = length cs" "state m = 3" "prevState m = 3" "numStates m = 7"
  shows "\<exists>m' w'. run_times (tinycli_state_descs l target I) ts m w = Some (m', w') \<and> state m' = 3 \<and> prevState m' = 3 \<and>
    numStates m' = 7 \<and> data_ok w' \<and>
    w' = w\<lparr>cli_keys := ks, myBuffer := splice (myBuffer w) n cs, readStringLen := int n + int (length cs)\<rparr>"
  using assms
proof (induction cs arbitrary: w n ts m)
  case Nil
  then show ?case by (simp add: splice_def)
next
  case (Cons c cs)
  obtain t0 t1 us where ts: "ts = (t0, t1) # us" "length us = length cs" using Cons.prems(7) by (cases ts) auto
  let ?w = "w\<lparr>cli_keys := map Some cs @ ks, myBuffer := (myBuffer w)[n := c], readStringLen := int n + 1\<rparr>"
  let ?m = "stamp_end t0 t1 (stamp_begin t0 m)"
  have "tinycli_readline_handler (stamp_begin t0 m) w = Some (stamp_begin t0 m, ?w)"
    by (rule handler_char) (use Cons.prems in \<open>auto simp: plain_text_def\<close>)
  then have s: "RunStateMachine (tinycli_state_descs l target I) t0 t1 m w = Some (?m, ?w)"
    using readline_desc [of l target I] Cons.prems(8,9) by (auto simp: run_same_state)
  have d: "data_ok ?w" using Cons.prems(4,6) by (auto simp: data_ok_def buf_ok_def nth_list_update)
  have l: "n < length (myBuffer w)" using Cons.prems(4,6) by (auto simp: data_ok_def buf_ok_def)
  have "splice ((myBuffer w)[n := c]) (Suc n) cs = splice (myBuffer w) n (c # cs)"
    using l by (simp add: splice_def take_Suc_conv_app_nth)
  moreover obtain m' w' where "run_times (tinycli_state_descs l target I) us ?m ?w = Some (m', w')" "state m' = 3"
      "prevState m' = 3" "numStates m' = 7" "data_ok w'"
      "w' = ?w\<lparr>cli_keys := ks, myBuffer := splice (myBuffer ?w) (Suc n) cs, readStringLen := int (Suc n) + int (length cs)\<rparr>"
    using Cons.IH [OF _ _ _ d, of "Suc n" us ?m] Cons.prems ts by auto
  ultimately show ?case using s ts by auto
qed

lemma plain_text_0: "plain_text cs \<Longrightarrow> 0 \<notin> set cs"
  by (auto simp: plain_text_def)

lemma enter_line:
  assumes d: "data_ok w" and n: "readStringLen w = int (length cs)" "cs \<noteq> []" "length cs \<le> bufferLen"
    and b: "take (length cs) (myBuffer w) = cs" "0 \<notin> set cs"
  shows "\<exists>buf prev. enter_key w = Some (w\<lparr>myBuffer := buf, myPrevBuffer := prev\<rparr>) \<and>
    cstr 0 buf = Some cs \<and> cstr 0 prev = Some cs"
proof -
  let ?n = "length cs"
  have l: "length (myBuffer w) = 80" "length (myPrevBuffer w) = 80" "myBuffer w ! 79 = 0"
    using d by (auto simp: data_ok_def buf_ok_def)
  obtain buf where buf: "(if below (readStringLen w) bufferLen then put_at (readStringLen w) 0 w else Some w) = Some (w\<lparr>myBuffer := buf\<rparr>)"
      "length buf = 80" "take ?n buf = cs" "buf ! ?n = 0"
  proof (cases "?n < 79")
    case True
    show ?thesis by (rule that [of "(myBuffer w)[?n := 0]"])
      (use True n l b in \<open>auto simp: below_def put_at_def buf_put_def\<close>)
  next
    case False
    then have "?n = 79" using n by simp
    then show ?thesis using n l b by (intro that [of "myBuffer w"]) (auto simp: below_def)
  qed
  let ?prev = "take (Suc ?n) buf @ drop (Suc ?n) (myPrevBuffer w)"
  have t: "take (Suc ?n) buf = cs @ [0]" using buf n by (simp add: take_Suc_conv_app_nth)
  have "nat (int ?n + 1) = Suc ?n" by simp
  then have "copy_prefix (int ?n + 1) buf (myPrevBuffer w) = Some ?prev"
    using n l buf(2) by (simp add: copy_prefix_def slice_def memcpy_to_def splice_def)
  moreover have "cstr 0 buf = Some cs" by (rule cstr_eqI) (use buf n b in auto)
  moreover have "cstr 0 ?prev = Some cs" unfolding t by (rule cstr_eqI) (use n b in \<open>auto simp: nth_append\<close>)
  ultimately show ?thesis using buf(1) n unfolding enter_key_def by auto
qed

text \<open>Enter: the line is in the buffer, with its terminator, and saved.\<close>

lemma typed_line:
  assumes p: "at_prompt m w" and k: "cli_keys w = map Some cs @ Some 0x0D # ks"
    and cs: "plain_text cs" "cs \<noteq> []" "length cs \<le> bufferLen" and ts: "length ts = length cs + 1"
  shows "\<exists>m' w'. run_times (tinycli_state_descs l target I) ts m w = Some (m', w') \<and> state m' = 4 \<and> prevState m' = 3 \<and>
    numStates m' = 7 \<and> data_ok w' \<and> cstr 0 (myBuffer w') = Some cs \<and> cstr 0 (myPrevBuffer w') = Some cs \<and>
    w' = w\<lparr>cli_keys := ks, myBuffer := myBuffer w', myPrevBuffer := myPrevBuffer w', readStringLen := int (length cs)\<rparr>"
proof -
  obtain us t0 t1 where u: "ts = us @ [(t0, t1)]" "length us = length cs"
    using ts by (cases ts rule: rev_cases) auto
  note p' = p [unfolded at_prompt_def]
  obtain m1 w1 where r: "run_times (tinycli_state_descs l target I) us m w = Some (m1, w1)" "state m1 = 3" "prevState m1 = 3"
      "numStates m1 = 7" "data_ok w1"
      "w1 = w\<lparr>cli_keys := Some 0x0D # ks, myBuffer := splice (myBuffer w) 0 cs, readStringLen := int (length cs)\<rparr>"
    using typed_chars [of cs w "Some 0x0D # ks" 0 us m l target I] p' k cs u by auto
  let ?n = "length cs"
  have "take ?n (myBuffer w1) = cs" using r(6) by (simp add: splice_def)
  then obtain buf prev where e: "enter_key (w1\<lparr>cli_keys := ks\<rparr>) = Some (w1\<lparr>cli_keys := ks, myBuffer := buf, myPrevBuffer := prev\<rparr>)"
      "cstr 0 buf = Some cs" "cstr 0 prev = Some cs"
    using enter_line [of "w1\<lparr>cli_keys := ks\<rparr>" cs] r(5,6) cs plain_text_0 [OF cs(1)] by (auto simp: data_ok_def)
  have d: "data_ok (w1\<lparr>cli_keys := ks, myBuffer := buf, myPrevBuffer := prev\<rparr>)"
    using enter_key_ok [of "w1\<lparr>cli_keys := ks\<rparr>"] e(1) r(5,6) by (auto simp: data_ok_def)
  have "tinycli_readline_handler (stamp_begin t0 m1) w1 =
      Some (stamp_begin t0 m1\<lparr>state := 4\<rparr>, w1\<lparr>cli_keys := ks, myBuffer := buf, myPrevBuffer := prev\<rparr>)"
    using e(1) r(6) p' by (simp add: tinycli_readline_handler_def uart_getchar_def line_key_def)
  moreover obtain d where "desc_at (tinycli_state_descs l target I) 3 = Some d" "state_handler d = Some tinycli_readline_handler"
    using readline_desc by blast
  ultimately have "RunStateMachine (tinycli_state_descs l target I) t0 t1 m1 w1 = Some (stamp_end t0 t1 (stamp_begin t0 m1\<lparr>state := 4\<rparr>),
      w1\<lparr>cli_keys := ks, myBuffer := buf, myPrevBuffer := prev\<rparr>)"
    using r(2,3) by (simp add: run_same_state)
  then have "run_times (tinycli_state_descs l target I) ts m w = Some (stamp_end t0 t1 (stamp_begin t0 m1\<lparr>state := 4\<rparr>),
      w1\<lparr>cli_keys := ks, myBuffer := buf, myPrevBuffer := prev\<rparr>)"
    using r(1) u(1) by (simp add: run_times_append)
  then show ?thesis using r(2,3,4,6) d e(2,3)
    by (intro exI [of _ "stamp_end t0 t1 (stamp_begin t0 m1\<lparr>state := 4\<rparr>)"]
        exI [of _ "w1\<lparr>cli_keys := ks, myBuffer := buf, myPrevBuffer := prev\<rparr>"]) simp
qed

text \<open>Every command has its own name, in capitals or not: no name starts with another.\<close>

definition lower_names :: "cmd_table \<Rightarrow> u8 list list" where
  "lower_names T = map (\<lambda>c. map tolower (snd c)) T"

definition own_names :: "cmd_table \<Rightarrow> bool" where
  "own_names T \<longleftrightarrow> list_all (\<lambda>i. find_index (\<lambda>n. n = take (length n) (lower_names T ! i)) (lower_names T) = Some i) [0..<length T]"

lemma tables_own_names: "own_names toplevelCmds" "own_names debugCmds" "own_names bootCmds"
  by code_simp+

lemma find_index_map: "find_index P (map f xs) = find_index (\<lambda>x. P (f x)) xs"
  by (induction xs) auto

lemma name_found:
  assumes "own_names T" "i < length T" "map tolower token = map tolower (snd (T ! i))"
  shows "tinyCLI_NameToCmdIndex T token = Some i"
proof -
  have "strncasecmp n token (length n) = 0 \<longleftrightarrow> map tolower n = take (length (map tolower n)) (lower_names T ! i)" for n
    using assms(2) arg_cong [OF assms(3), of "take (length n)"] by (simp add: strncasecmp_zero_iff lower_names_def take_map)
  then have "find_index (\<lambda>(_, n). strncasecmp n token (length n) = 0) T =
      find_index (\<lambda>n. n = take (length n) (lower_names T ! i)) (lower_names T)"
    by (simp add: lower_names_def find_index_map case_prod_unfold)
  also have "\<dots> = Some i" using assms(1,2) by (simp add: own_names_def list_all_iff)
  finally show ?thesis by (simp add: tinyCLI_NameToCmdIndex_def)
qed

text \<open>From the prompt through the last step of a line to its handler.\<close>

lemma typed_command:
  assumes p: "at_prompt m w" and keys: "cli_keys w = map Some cs @ Some 0x0D # ks"
    and cs: "plain_text cs" "cs \<noteq> []" "length cs \<le> bufferLen"
    and words: "split_fields cli_delim cs = name # args" "length args < mMAX_NUM_TOKENS"
    and cmd: "i < length toplevelCmds" "map tolower name = map tolower (snd (toplevelCmds ! i))"
    and ts: "length ts = length cs + 2"
  shows "\<exists>w'. map (\<lambda>k. argv_string k w') [0..<argc_tokenCount w'] = map Some (name # args) \<and>
    cli_world w' = cli_world w \<and> cli_triggers w' = cli_triggers w \<and> cli_keys w' = ks \<and>
    map_option (\<lambda>(m, w). (state m, w)) (run_times (tinycli_state_descs l target I) ts m w) =
    map_option (Pair TINYCLI_READLINE) (top_handler l I (fst (toplevelCmds ! i)) w')"
proof -
  let ?ds = "tinycli_state_descs l target I"
  obtain us t0 t1 where u: "ts = us @ [(t0, t1)]" "length us = length cs + 1"
    using ts by (cases ts rule: rev_cases) auto
  obtain m1 w1 where r: "run_times ?ds us m w = Some (m1, w1)" "state m1 = 4" "prevState m1 = 3" "numStates m1 = 7"
      "data_ok w1" "cstr 0 (myBuffer w1) = Some cs" "w1 = w\<lparr>cli_keys := ks, myBuffer := myBuffer w1,
        myPrevBuffer := myPrevBuffer w1, readStringLen := int (length cs)\<rparr>"
    using typed_line [OF p keys cs u(2), of l target I] by blast
  have f: "cli_world w1 = cli_world w" "cli_triggers w1 = cli_triggers w" "cli_keys w1 = ks"
      "readStringLen w1 = int (length cs)" "strtok_string w1 = None"
    using arg_cong [OF r(7), of cli_world] arg_cong [OF r(7), of cli_triggers] arg_cong [OF r(7), of cli_keys]
      arg_cong [OF r(7), of readStringLen] arg_cong [OF r(7), of strtok_string] p by (simp_all add: at_prompt_def)
  obtain w2 where t: "HSS_TinyCLI_ParseIntoTokens w1 = Some (length (name # args), w2)"
      "map (\<lambda>i. argv_string i w2) [0..<argc_tokenCount w2] = map Some (name # args)"
      "w2 = w1\<lparr>argv_tokenArray := argv_tokenArray w2, myBuffer := myBuffer w2\<rparr>" "argc_tokenCount w2 = length (name # args)"
    using parse_fields [OF f(5) r(6) cs(2)] words by (auto simp del: upt_Suc list.map)
  have f2: "cli_world w2 = cli_world w" "cli_triggers w2 = cli_triggers w" "cli_keys w2 = ks"
    using arg_cong [OF t(3), of cli_world] arg_cong [OF t(3), of cli_triggers] arg_cong [OF t(3), of cli_keys] f by simp_all
  have a0: "argv_string 0 w2 = Some name" using arg_cong [OF t(2), of "\<lambda>x. x ! 0"] t(4) by (simp del: upt_Suc)
  let ?w = "if warnIfPostInit w2 ! i \<and> HSS_Trigger_IsNotified True EVENT_POST_BOOT (cli_triggers w2)
      then w2\<lparr>warnIfPostInit := (warnIfPostInit w2)[i := False]\<rparr> else w2"
  have ex: "HSS_TinyCLI_Execute l I w2 = top_handler l I (fst (toplevelCmds ! i)) ?w"
    using a0 t(4) name_found [OF tables_own_names(1) cmd]
    by (cases "top_handler l I (fst (toplevelCmds ! i)) ?w") (auto simp: HSS_TinyCLI_Execute_def dispatch_command_def Let_def)
  have av: "argv_string k ?w = argv_string k w2" "argv_tokenArray ?w = argv_tokenArray w2" for k
    by (simp_all add: argv_string_def)
  obtain d where d: "desc_at ?ds 4 = Some d" "sd_state d = 4" "state_onEntry d = None" "state_handler d = Some (tinycli_parseline_handler l I)"
    using cli_desc_at [of 4 l target I] by auto
  obtain d3 where d3: "desc_at ?ds 3 = Some d3" "sd_state d3 = 3" "state_onExit d3 = Some tinycli_readline_onExit"
    using cli_desc_at [of 3 l target I] by auto
  have "leave_state ?ds 3 (stamp_begin t0 m1) w1 = Some (stamp_begin t0 m1, w1)"
    using d3 r(4) f(4) cs(2) by (simp add: leave_state_def IsValidState_def tinycli_readline_onExit_def)
  then have step: "RunStateMachine ?ds t0 t1 m1 w1 = do {
      (m, w) \<leftarrow> tinycli_parseline_handler l I ((stamp_begin t0 m1)\<lparr>executionCount := 0, prevState := 4\<rparr>) w1;
      Some (stamp_end t0 t1 m, w) }"
    using d r(2,3) by (simp add: RunStateMachine_def change_state_def)
  have par: "tinycli_parseline_handler l I m' w1 = map_option (Pair (m'\<lparr>state := 3\<rparr>)) (top_handler l I (fst (toplevelCmds ! i)) ?w)" for m'
    using f(4) cs(2) t(1) ex unfolding tinycli_parseline_handler_def
    by (cases "top_handler l I (fst (toplevelCmds ! i)) ?w") auto
  have "map_option (\<lambda>(m, w). (state m, w)) (run_times ?ds ts m w) =
      map_option (Pair TINYCLI_READLINE) (top_handler l I (fst (toplevelCmds ! i)) ?w)"
    unfolding u(1) run_times_append r(1) using step par
    by (cases "top_handler l I (fst (toplevelCmds ! i)) ?w") simp_all
  moreover have "map (\<lambda>k. argv_string k ?w) [0..<argc_tokenCount ?w] = map Some (name # args)"
    unfolding av by (rule t(2))
  moreover have "cli_world ?w = cli_world w" "cli_triggers ?w = cli_triggers w" "cli_keys ?w = ks" using f2 by simp_all
  ultimately show ?thesis by blast
qed

text \<open>An instance: the calls are written down.\<close>

definition logging :: "Call list Cli_If" where
  "logging = \<lparr>boot_init = (\<lambda>(t, x). (True, t, x)), call = (\<lambda>c (t, x). (t, x @ [c]))\<rparr>"

definition kit_ddr :: DDR_Layout where
  "kit_ddr = \<lparr>ddr_start = 0x80000000, ddr_size = 0x2000000, ddrhi_start = 0x1000000000, ddrhi_size = 0x40000000\<rparr>"

definition prompt_machine :: StateMachine where
  "prompt_machine = (machine_init TINYCLI_NUM_STATES)\<lparr>state := TINYCLI_READLINE, prevState := TINYCLI_READLINE\<rparr>"

lemma at_prompt_init: "at_prompt prompt_machine (cli_init keys t x)"
  using cli_init_ok [of keys t x]
  by (simp add: at_prompt_def prompt_machine_def machine_init_def cli_ok_def) (simp add: cli_init_def)

section \<open>Properties\<close>

text \<open>
  C23. Whatever is typed, and in whatever order, the command line leaves its buffers and fails to
  return in two cases only: the right arrow in the last column but one, and a minus sign in a
  line that is executed. A run from the initial state that goes wrong has reached one of them.
\<close>

theorem cli_fails_only_at_hazard:
  assumes "run_times (tinycli_state_descs l target I) ts tinycli_service (cli_init keys t x) = None"
  shows "\<exists>us vs m w. ts = us @ vs \<and>
    run_times (tinycli_state_descs l target I) us tinycli_service (cli_init keys t x) = Some (m, w) \<and> cli_hazard m w"
proof -
  have "\<exists>us vs m' w'. ts = us @ vs \<and> run_times (tinycli_state_descs l target I) us m w = Some (m', w') \<and> cli_hazard m' w'"
    if "cli_ok m w" "run_times (tinycli_state_descs l target I) ts m w = None" for ts and m :: StateMachine and w :: "'a Cli"
    using that
  proof (induction ts arbitrary: m w)
    case (Cons u ts)
    obtain t0 t1 where u: "u = (t0, t1)" by (cases u)
    show ?case
    proof (cases "cli_hazard m w")
      case True
      then show ?thesis by (intro exI [of _ "[]"] exI [of _ "u # ts"] exI [of _ m] exI [of _ w]) simp
    next
      case False
      then obtain m1 w1 where s: "RunStateMachine (tinycli_state_descs l target I) t0 t1 m w = Some (m1, w1)" "cli_ok m1 w1"
        using cli_step [OF Cons.prems(1)] by blast
      then have "run_times (tinycli_state_descs l target I) ts m1 w1 = None" using Cons.prems(2) u by simp
      then obtain us vs m' w' where "ts = us @ vs" "run_times (tinycli_state_descs l target I) us m1 w1 = Some (m', w')" "cli_hazard m' w'"
        using Cons.IH [OF s(2)] by blast
      then show ?thesis using s(1) u
        by (intro exI [of _ "u # us"] exI [of _ vs] exI [of _ m'] exI [of _ w']) simp
    qed
  qed simp
  from this [OF cli_init_ok assms] show ?thesis .
qed



lemma digit_not_x: "d < 16 \<Longrightarrow> tolower (digit_char d) \<noteq> 0x78"
proof -
  assume "d < 16"
  then have "d = 0 \<or> d = 1 \<or> d = 2 \<or> d = 3 \<or> d = 4 \<or> d = 5 \<or> d = 6 \<or> d = 7 \<or> d = 8 \<or> d = 9 \<or>
      d = 10 \<or> d = 11 \<or> d = 12 \<or> d = 13 \<or> d = 14 \<or> d = 15" by presburger
  then show ?thesis by (elim disjE) (simp_all add: digit_char_def tolower.simps)
qed

lemma strtoul_loop_x: "strtoul_loop 16 (Suc 0) r (0x78 # ds) = strtoul_loop 16 (Suc (Suc 0)) r ds"
proof -
  have "digit_value 0x78 = None" by (simp add: digit_value.simps)
  then show ?thesis by (subst strtoul_loop.simps) simp
qed

text \<open>
  Numbers are read as they are written: for every number, the decimal digits, and \<open>0x\<close> with
  the hexadecimal digits, give that number modulo \<open>2 ^ 64\<close>.
\<close>

theorem number_roundtrip:
  "tinyCLI_strtoul_wrapper (map digit_char (digits 10 n)) = Some (of_nat n) \<and>
   tinyCLI_strtoul_wrapper ([0x30, 0x78] @ map digit_char (digits 16 n)) = Some (of_nat n)"
proof
  have "(case map digit_char (digits 10 n) of a # b # _ \<Rightarrow> if a = 0x30 \<and> tolower b = 0x78 then 16 else 10 | _ \<Rightarrow> 10) = (10 :: u64)"
    using digits_less [of 10 _ n] digit_not_x by (fastforce split: list.split)
  then show "tinyCLI_strtoul_wrapper (map digit_char (digits 10 n)) = Some (of_nat n)"
    using strtoul_digits [of 10 10 0 n] by (simp add: tinyCLI_strtoul_wrapper_def stub_strtoul_def)
next
  have "digit_value 0x30 = Some 0" by (simp add: digit_value.simps)
  from strtoul_loop_digit [OF this, of 16 0 0] strtoul_loop_x
  have "strtoul_loop 16 0 0 (0x30 # 0x78 # map digit_char (digits 16 n)) = strtoul_loop 16 (Suc (Suc 0)) 0 (map digit_char (digits 16 n))"
    by simp
  then show "tinyCLI_strtoul_wrapper ([0x30, 0x78] @ map digit_char (digits 16 n)) = Some (of_nat n)"
    using strtoul_digits [of 16 16 "Suc (Suc 0)" n] by (simp add: tinyCLI_strtoul_wrapper_def stub_strtoul_def tolower.simps)
qed

text \<open>A minus sign in an argument: the command never returns.\<close>

lemma minus_hangs: "tinyCLI_strtoul_wrapper (0x2D # s) = None"
  by (simp add: tinyCLI_strtoul_wrapper_def stub_strtoul_def strtoul_loop_minus split: list.split)

theorem cli_fails_only_at_hazard_witness:
  "\<exists>us vs m w. replicate 14 (0, 0) = us @ vs \<and>
    run_times (tinycli_state_descs kit_ddr 0x103FC00000 logging) us tinycli_service (cli_init
      (Some 0x20 # None # map Some (chars ''memtest -'') @ [Some 0x0D])
      (triggerStatus_init\<lparr>ddr_trained := True, startup_complete := True\<rparr>) []) = Some (m, w) \<and> cli_hazard m w"
proof (rule cli_fails_only_at_hazard)
  let ?t = "triggerStatus_init\<lparr>ddr_trained := True, startup_complete := True\<rparr>"
  let ?ds = "tinycli_state_descs kit_ddr 0x103FC00000 logging" and ?ks = "map Some (chars ''memtest -'') @ [Some 0x0D]"
  let ?w = "cli_init ?ks ?t ([] :: Call list)"
  obtain m where m: "run_times ?ds (replicate 3 (0, 0)) tinycli_service (cli_init (Some 0x20 # None # ?ks) ?t []) = Some (m, ?w)"
      "state m = 3" "prevState m = 3" "numStates m = 7"
    by (simp add: numeral_3_eq_3 RunStateMachine_def desc_at_def tinycli_state_descs_def tinycli_service_def machine_init_def
        change_state_def leave_state_def IsValidState_def tinycli_init_handler_def tinycli_preboot_handler_def
        HSS_ShowTimeout_def uart_getchar_def cli_init_def triggerStatus_init_def tinycli_readline_handler_def
        tinycli_readline_onEntry_def)
  have p: "at_prompt m ?w" using at_prompt_init [of ?ks ?t "[]"] m(2,3,4) unfolding at_prompt_def by blast
  have f: "split_fields cli_delim (chars ''memtest -'') = [chars ''memtest'', [0x2D]]" by code_simp
  have pl: "plain_text (chars ''memtest -'')" by code_simp
  have n: "map tolower (chars ''memtest'') = map tolower (snd (toplevelCmds ! 7))" by code_simp
  have c: "fst (toplevelCmds ! 7) = CMD_MEMTEST" by code_simp
  obtain w' where w': "map (\<lambda>k. argv_string k w') [0..<argc_tokenCount w'] = map Some [chars ''memtest'', [0x2D]]"
      "map_option (\<lambda>(m, w). (state m, w)) (run_times ?ds (replicate 11 (0, 0)) m ?w) =
       map_option (Pair 3) (top_handler kit_ddr logging CMD_MEMTEST w')"
    using typed_command [OF p, of "chars ''memtest -''" "[]" "chars ''memtest''" "[[0x2D]]" 7 "replicate 11 (0, 0)" kit_ddr "0x103FC00000" logging]
      f pl n c by (fastforce simp: cli_init_def chars_def)
  have "argc_tokenCount w' = 2" using arg_cong [OF w'(1), of length] by simp
  moreover from this have "argv_string 1 w' = Some [0x2D]" using w'(1) by (simp add: numeral_2_eq_2)
  ultimately have "top_handler kit_ddr logging CMD_MEMTEST w' = None"
    by (simp add: top_handler_def tinyCLI_MemTest_def argv_number_def minus_hangs)
  then have "run_times ?ds (replicate 11 (0, 0)) m ?w = None" using w'(2) by simp
  moreover have "replicate 14 (0, 0) = replicate 3 (0, 0) @ replicate 11 (0 :: u64, 0 :: u64)" by (simp flip: replicate_add)
  ultimately show "run_times ?ds (replicate 14 (0, 0)) tinycli_service (cli_init (Some 0x20 # None # ?ks) ?t []) = None"
    using m(1) by (simp add: run_times_append)
qed

section \<open>Examples of the faults\<close>

text \<open>The right arrow takes the last terminator of a full line away.\<close>

lemma right_arrow_removes_terminator:
  assumes "data_ok w" "0 \<notin> set (take 79 (myBuffer w))" "readStringLen w = 78"
  shows "\<exists>w'. right_arrow w = Some w' \<and> strlen (myBuffer w') = None"
proof -
  have l: "length (myBuffer w) = 80" "myBuffer w ! 79 = 0" using assms(1) by (auto simp: data_ok_def buf_ok_def)
  have "(myBuffer w)[79 := 0x20] ! i \<noteq> 0" if "i < 80" for i
  proof (cases "i = 79")
    case False
    then have "i < 79" using that by simp
    then have "take 79 (myBuffer w) ! i \<in> set (take 79 (myBuffer w))" using l by (intro nth_mem) simp
    then show ?thesis using assms(2) False \<open>i < 79\<close> by (metis nth_list_update_neq nth_take)
  qed (use l in simp)
  then have "\<forall>x\<in>set ((myBuffer w)[79 := 0x20]). x \<noteq> 0" using l by (auto simp: in_set_conv_nth)
  then show ?thesis using l assms(3)
    by (simp add: right_arrow_def below_def buf_at_def put_at_def buf_put_def strlen_def find_index_None_iff Let_def)
qed

text \<open>A line with more than 40 fields leaves the tokeniser inside it; the next line is then read
  from there, and when nothing is left there it is not executed.\<close>

lemma parse_loop_many:
  assumes "cstr q buf = Some s" "length argv \<le> mMAX_NUM_TOKENS" "mMAX_NUM_TOKENS < length argv + 1 + length (split_fields cli_delim s)"
  shows "\<exists>argv' q' b. parse_loop argv (Some t) (Some q) buf = Some (argv', Some q', b)"
  using assms
proof (induction "length s" arbitrary: s q buf argv t rule: less_induct)
  case less
  show ?case
  proof (cases "length argv < mMAX_NUM_TOKENS")
    case False
    then show ?thesis by (subst parse_loop.simps) simp
  next
    case True
    then have s: "s \<noteq> []" using less.prems(3) by auto
    obtain q' b where b: "strtok_r None cli_delim (Some q) buf = Some (Some q, b, Some q')"
        "cstr q' b = Some (drop 1 (dropWhile (\<lambda>c. c \<notin> set cli_delim) s))"
      using strtok_r_step [OF less.prems(1) s, of cli_delim] by auto
    then show ?thesis
      using less.hyps [OF drop_dropWhile_less [OF s] b(2), of "argv @ [t]" q] less.prems(3) True
      by (subst parse_loop.simps) (simp add: split_fields_Cons [OF s])
  qed
qed

lemma long_line_keeps_pointer:
  assumes "strtok_string w = None" "cstr 0 (myBuffer w) = Some s" "mMAX_NUM_TOKENS < length (split_fields cli_delim s)"
  shows "\<exists>n w' p. HSS_TinyCLI_ParseIntoTokens w = Some (n, w') \<and> strtok_string w' = Some p"
proof -
  have s: "s \<noteq> []" using assms(3) by auto
  have e: "strtok_r (Some 0) cli_delim None b = strtok_r None cli_delim (Some 0) b" for b by (simp add: strtok_r_def)
  obtain q b where b: "strtok_r None cli_delim (Some 0) (myBuffer w) = Some (Some 0, b, Some q)"
      "cstr q b = Some (drop 1 (dropWhile (\<lambda>c. c \<notin> set cli_delim) s))"
    using strtok_r_step [OF assms(2) s, of cli_delim] by auto
  have "40 < Suc (length (split_fields cli_delim (drop 1 (dropWhile (\<lambda>c. c \<notin> set cli_delim) s))))"
    using assms(3) by (simp add: split_fields_Cons [OF s])
  then obtain a q' b' where "parse_loop [] (Some 0) (Some q) b = Some (a, Some q', b')"
    using parse_loop_many [OF b(2), of "[]" 0] by auto
  then show ?thesis using b e assms(1) by (auto simp: HSS_TinyCLI_ParseIntoTokens_def)
qed

lemma kept_pointer_hides_line:
  assumes "strtok_string w = Some p" "p < length (myBuffer w)" "myBuffer w ! p = 0"
  shows "HSS_TinyCLI_ParseIntoTokens w = Some (0, w\<lparr>argv_tokenArray := [], strtok_string := None\<rparr>)"
  using assms by (simp add: HSS_TinyCLI_ParseIntoTokens_def strtok_r_def buf_at_def parse_loop.simps)

end
