(* ===== verification/Crc.thy ===== *)
theory Crc
  imports Hss_Base
begin

text \<open>
  The checksums: \<open>modules/misc/hss_crc16.c\<close> (the YMODEM CRC) and
  \<open>modules/misc/hss_crc32.c\<close> (boot image headers, GPT headers and entries).

  Both are folds of a byte step over the input. The locale \<open>crc_step\<close> states
  what the callers rely on (the step loses nothing of the state or of the byte) and
  derives that every single-byte corruption is seen; both checksums interpret it. The
  table-driven CRC-32 is shown equal to the bitwise one, and the checked-in table equal
  to the one the firmware generates when it is built without it.
\<close>

section \<open>What a checksum promises its callers\<close>

locale crc_step =
  fixes step :: "'w \<Rightarrow> 'b \<Rightarrow> 'w"
  assumes step_inj_state: "step c b = step c' b \<Longrightarrow> c = c'"
    and step_inj_byte: "step c b = step c b' \<Longrightarrow> b = b'"
begin

lemma foldl_inj_state: "foldl step c bs = foldl step c' bs \<Longrightarrow> c = c'"
  by (induction bs arbitrary: c c') (auto dest: step_inj_state)

lemma single_byte_seen:
  assumes "b \<noteq> b'"
  shows "foldl step c (xs @ b # ys) \<noteq> foldl step c (xs @ b' # ys)"
  using assms by (auto dest!: foldl_inj_state dest: step_inj_byte)

end

section \<open>CRC-16\<close>

definition crc16_bit :: "u16 \<Rightarrow> u16" where
  "crc16_bit result =
     (if result AND 0x8000 \<noteq> 0 then push_bit 1 result XOR 0x1021 else push_bit 1 result)"

definition crc16_byte :: "u16 \<Rightarrow> u8 \<Rightarrow> u16" where
  "crc16_byte result b = (crc16_bit ^^ 8) (result XOR push_bit 8 (ucast b))"

definition CRC16_calculate :: "u8 list \<Rightarrow> u16" where
  "CRC16_calculate pInput = foldl crc16_byte 0 pInput"

section \<open>CRC-32\<close>

definition precalcTable :: "u32 list" where
  "precalcTable = [
    0x00000000, 0x77073096, 0xEE0E612C, 0x990951BA, 0x076DC419, 0x706AF48F,
    0xE963A535, 0x9E6495A3, 0x0EDB8832, 0x79DCB8A4, 0xE0D5E91E, 0x97D2D988,
    0x09B64C2B, 0x7EB17CBD, 0xE7B82D07, 0x90BF1D91, 0x1DB71064, 0x6AB020F2,
    0xF3B97148, 0x84BE41DE, 0x1ADAD47D, 0x6DDDE4EB, 0xF4D4B551, 0x83D385C7,
    0x136C9856, 0x646BA8C0, 0xFD62F97A, 0x8A65C9EC, 0x14015C4F, 0x63066CD9,
    0xFA0F3D63, 0x8D080DF5, 0x3B6E20C8, 0x4C69105E, 0xD56041E4, 0xA2677172,
    0x3C03E4D1, 0x4B04D447, 0xD20D85FD, 0xA50AB56B, 0x35B5A8FA, 0x42B2986C,
    0xDBBBC9D6, 0xACBCF940, 0x32D86CE3, 0x45DF5C75, 0xDCD60DCF, 0xABD13D59,
    0x26D930AC, 0x51DE003A, 0xC8D75180, 0xBFD06116, 0x21B4F4B5, 0x56B3C423,
    0xCFBA9599, 0xB8BDA50F, 0x2802B89E, 0x5F058808, 0xC60CD9B2, 0xB10BE924,
    0x2F6F7C87, 0x58684C11, 0xC1611DAB, 0xB6662D3D, 0x76DC4190, 0x01DB7106,
    0x98D220BC, 0xEFD5102A, 0x71B18589, 0x06B6B51F, 0x9FBFE4A5, 0xE8B8D433,
    0x7807C9A2, 0x0F00F934, 0x9609A88E, 0xE10E9818, 0x7F6A0DBB, 0x086D3D2D,
    0x91646C97, 0xE6635C01, 0x6B6B51F4, 0x1C6C6162, 0x856530D8, 0xF262004E,
    0x6C0695ED, 0x1B01A57B, 0x8208F4C1, 0xF50FC457, 0x65B0D9C6, 0x12B7E950,
    0x8BBEB8EA, 0xFCB9887C, 0x62DD1DDF, 0x15DA2D49, 0x8CD37CF3, 0xFBD44C65,
    0x4DB26158, 0x3AB551CE, 0xA3BC0074, 0xD4BB30E2, 0x4ADFA541, 0x3DD895D7,
    0xA4D1C46D, 0xD3D6F4FB, 0x4369E96A, 0x346ED9FC, 0xAD678846, 0xDA60B8D0,
    0x44042D73, 0x33031DE5, 0xAA0A4C5F, 0xDD0D7CC9, 0x5005713C, 0x270241AA,
    0xBE0B1010, 0xC90C2086, 0x5768B525, 0x206F85B3, 0xB966D409, 0xCE61E49F,
    0x5EDEF90E, 0x29D9C998, 0xB0D09822, 0xC7D7A8B4, 0x59B33D17, 0x2EB40D81,
    0xB7BD5C3B, 0xC0BA6CAD, 0xEDB88320, 0x9ABFB3B6, 0x03B6E20C, 0x74B1D29A,
    0xEAD54739, 0x9DD277AF, 0x04DB2615, 0x73DC1683, 0xE3630B12, 0x94643B84,
    0x0D6D6A3E, 0x7A6A5AA8, 0xE40ECF0B, 0x9309FF9D, 0x0A00AE27, 0x7D079EB1,
    0xF00F9344, 0x8708A3D2, 0x1E01F268, 0x6906C2FE, 0xF762575D, 0x806567CB,
    0x196C3671, 0x6E6B06E7, 0xFED41B76, 0x89D32BE0, 0x10DA7A5A, 0x67DD4ACC,
    0xF9B9DF6F, 0x8EBEEFF9, 0x17B7BE43, 0x60B08ED5, 0xD6D6A3E8, 0xA1D1937E,
    0x38D8C2C4, 0x4FDFF252, 0xD1BB67F1, 0xA6BC5767, 0x3FB506DD, 0x48B2364B,
    0xD80D2BDA, 0xAF0A1B4C, 0x36034AF6, 0x41047A60, 0xDF60EFC3, 0xA867DF55,
    0x316E8EEF, 0x4669BE79, 0xCB61B38C, 0xBC66831A, 0x256FD2A0, 0x5268E236,
    0xCC0C7795, 0xBB0B4703, 0x220216B9, 0x5505262F, 0xC5BA3BBE, 0xB2BD0B28,
    0x2BB45A92, 0x5CB36A04, 0xC2D7FFA7, 0xB5D0CF31, 0x2CD99E8B, 0x5BDEAE1D,
    0x9B64C2B0, 0xEC63F226, 0x756AA39C, 0x026D930A, 0x9C0906A9, 0xEB0E363F,
    0x72076785, 0x05005713, 0x95BF4A82, 0xE2B87A14, 0x7BB12BAE, 0x0CB61B38,
    0x92D28E9B, 0xE5D5BE0D, 0x7CDCEFB7, 0x0BDBDF21, 0x86D3D2D4, 0xF1D4E242,
    0x68DDB3F8, 0x1FDA836E, 0x81BE16CD, 0xF6B9265B, 0x6FB077E1, 0x18B74777,
    0x88085AE6, 0xFF0F6A70, 0x66063BCA, 0x11010B5C, 0x8F659EFF, 0xF862AE69,
    0x616BFFD3, 0x166CCF45, 0xA00AE278, 0xD70DD2EE, 0x4E048354, 0x3903B3C2,
    0xA7672661, 0xD06016F7, 0x4969474D, 0x3E6E77DB, 0xAED16A4A, 0xD9D65ADC,
    0x40DF0B66, 0x37D83BF0, 0xA9BCAE53, 0xDEBB9EC5, 0x47B2CF7F, 0x30B5FFE9,
    0xBDBDF21C, 0xCABAC28A, 0x53B39330, 0x24B4A3A6, 0xBAD03605, 0xCDD70693,
    0x54DE5729, 0x23D967BF, 0xB3667A2E, 0xC4614AB8, 0x5D681B02, 0x2A6F2B94,
    0xB40BBE37, 0xC30C8EA1, 0x5A05DF1B, 0x2D02EF8D]"

definition crc32_bit :: "u32 \<Rightarrow> u32" where
  "crc32_bit crc =
     (if crc AND 1 \<noteq> 0 then drop_bit 1 crc XOR 0xEDB88320 else drop_bit 1 crc)"

text \<open>
  The loop starts at \<open>i = 1\<close>: entry 0 keeps its static initialiser.
\<close>

definition CRC32_genTable :: "u32 list" where
  "CRC32_genTable = 0 # map (\<lambda>i. (crc32_bit ^^ 8) (of_nat i)) [1..<256]"

definition CRC32_updateByte :: "u32 \<Rightarrow> u8 \<Rightarrow> u32" where
  "CRC32_updateByte crc32 byte =
     (let index = (crc32 XOR ucast byte) AND 0xFF
      in (drop_bit 8 crc32 XOR precalcTable ! unat index) AND 0xFFFFFFFF)"

definition CRC32_calculate_ex :: "u32 \<Rightarrow> u8 list \<Rightarrow> u32" where
  "CRC32_calculate_ex seed pInput = NOT (foldl CRC32_updateByte (NOT seed) pInput)"

definition CRC32_calculate :: "u8 list \<Rightarrow> u32" where
  "CRC32_calculate pInput = CRC32_calculate_ex 0 pInput"

section \<open>The bit steps\<close>

lemma funpow_8: "(f ^^ 8) x = f (f (f (f (f (f (f (f x)))))))"
  by (simp add: eval_nat_numeral)

lemma funpow_inj:
  fixes f :: "'a \<Rightarrow> 'a"
  assumes "\<And>x y. f x = f y \<Longrightarrow> x = y" and "(f ^^ n) x = (f ^^ n) y"
  shows "x = y"
proof -
  have "inj (f ^^ n)" by (rule inj_fn) (rule injI, rule assms(1))
  then show ?thesis using assms(2) by (rule injD)
qed

lemma bit_shl1: "bit ((x :: 'a::len word) * 2) n \<longleftrightarrow> n < LENGTH('a) \<and> 0 < n \<and> bit x (n - 1)"
  using bit_push_bit_iff [of 1 x n] by (auto simp: Suc_le_eq push_bit_eq_mult impossible_bit)

lemma crc32_bit_iff: "crc32_bit x = (if bit x 0 then drop_bit 1 x XOR 0xEDB88320 else drop_bit 1 x)"
  by (simp add: crc32_bit_def and_one_eq bit_0 odd_iff_mod_2_eq_one)

lemma crc16_bit_iff: "crc16_bit x = (if bit x 15 then push_bit 1 x XOR 0x1021 else push_bit 1 x)"
proof -
  have "x AND 0x8000 \<noteq> 0 \<longleftrightarrow> bit x 15"
    using and_exp_eq_0_iff_not_bit [of x 15] by simp
  then show ?thesis by (simp add: crc16_bit_def)
qed

lemma crc32_bit_inj: "crc32_bit x = crc32_bit y \<Longrightarrow> x = y"
proof -
  have inv: "(if bit (crc32_bit z) 31 then push_bit 1 (crc32_bit z XOR 0xEDB88320) OR 1
              else push_bit 1 (crc32_bit z)) = z" for z
  proof -
    have 1: "\<not> bit (drop_bit 1 z) 31" by (simp add: bit_drop_bit_eq impossible_bit)
    have 2: "push_bit 1 (drop_bit 1 z) OR 1 = z" if "bit z 0"
      by (rule bit_word_eqI)
        (use that in \<open>auto simp: bit_or_iff bit_push_bit_iff bit_shl1 bit_drop_bit_eq bit_1_iff Suc_leI\<close>)
    have 3: "push_bit 1 (drop_bit 1 z) = z" if "\<not> bit z 0"
    proof (rule bit_word_eqI)
      fix n assume "n < LENGTH(32)"
      then show "bit (push_bit 1 (drop_bit 1 z)) n = bit z n"
        using that by (cases n) (auto simp: bit_shl1 bit_drop_bit_eq)
    qed
    show ?thesis
    proof (cases "bit z 0")
      case True
      then have c: "crc32_bit z = drop_bit 1 z XOR 0xEDB88320" by (simp add: crc32_bit_iff)
      then have "bit (crc32_bit z) 31" using 1 by (simp add: bit_xor_iff)
      moreover have "crc32_bit z XOR 0xEDB88320 = drop_bit 1 z" unfolding c by (simp add: xor.assoc)
      ultimately show ?thesis using 2 [OF True] by (simp only: if_True)
    next
      case False
      then have "crc32_bit z = drop_bit 1 z" by (simp add: crc32_bit_iff)
      then show ?thesis using 1 3 [OF False] by (simp only: if_False)
    qed
  qed
  assume "crc32_bit x = crc32_bit y"
  then show "x = y" using inv by metis
qed

lemma crc16_bit_inj: "crc16_bit x = crc16_bit y \<Longrightarrow> x = y"
proof -
  have inv: "(if bit (crc16_bit z) 0 then drop_bit 1 (crc16_bit z XOR 0x1021) OR 0x8000
              else drop_bit 1 (crc16_bit z)) = z" for z
  proof -
    have 1: "\<not> bit (push_bit 1 z) 0" by (simp add: bit_push_bit_iff bit_shl1)
    have 2: "drop_bit 1 (push_bit 1 z) OR 0x8000 = z" if "bit z 15"
    proof (rule bit_word_eqI)
      fix n assume "n < LENGTH(16)"
      then show "bit (drop_bit 1 (push_bit 1 z) OR 0x8000) n = bit z n"
        using that bit_exp_iff [of 15 n, where 'a = "16 word"]
        by (cases "n = 15") (auto simp: bit_or_iff bit_push_bit_iff bit_shl1 bit_drop_bit_eq)
    qed
    have 3: "drop_bit 1 (push_bit 1 z) = z" if "\<not> bit z 15"
    proof (rule bit_word_eqI)
      fix n assume "n < LENGTH(16)"
      then show "bit (drop_bit 1 (push_bit 1 z)) n = bit z n"
        using that by (cases "n = 15") (auto simp: bit_push_bit_iff bit_shl1 bit_drop_bit_eq)
    qed
    show ?thesis using 1 2 3 by (auto simp: crc16_bit_iff bit_xor_iff xor.assoc)
  qed
  assume "crc16_bit x = crc16_bit y"
  then show "x = y" using inv by metis
qed

lemmas crc32_bits_inj = funpow_inj [where f = crc32_bit, OF crc32_bit_inj]

lemmas crc16_bits_inj = funpow_inj [where f = crc16_bit, OF crc16_bit_inj]

lemma crc32_bit_xor: "crc32_bit (x XOR y) = crc32_bit x XOR crc32_bit y"
  by (auto simp: crc32_bit_iff bit_xor_iff drop_bit_xor ac_simps)

lemma crc32_bits_xor:
  "(crc32_bit ^^ n) (x XOR y) = (crc32_bit ^^ n) x XOR (crc32_bit ^^ n) y"
  by (induction n) (auto simp: crc32_bit_xor)

text \<open>Bits that are zero leave without a trace of the polynomial.\<close>

lemma crc32_bits_drop: "(\<And>i. i < n \<Longrightarrow> \<not> bit x i) \<Longrightarrow> (crc32_bit ^^ n) x = drop_bit n x"
proof (induction n)
  case 0
  then show ?case by simp
next
  case (Suc n)
  then have "(crc32_bit ^^ n) x = drop_bit n x" by simp
  moreover have "\<not> bit (drop_bit n x) 0" using Suc.prems [of n] by (simp add: bit_drop_bit_eq)
  ultimately show ?case by (simp add: crc32_bit_iff [of "drop_bit n x"])
qed

lemma crc16_bits_push:
  "n \<le> 16 \<Longrightarrow> (\<And>i. 16 - n \<le> i \<Longrightarrow> \<not> bit x i) \<Longrightarrow> (crc16_bit ^^ n) x = push_bit n x"
proof (induction n)
  case 0
  then show ?case by simp
next
  case (Suc n)
  then have "(crc16_bit ^^ n) x = push_bit n x" by simp
  moreover have "\<not> bit (push_bit n x) 15" using Suc.prems by (simp add: bit_push_bit_iff)
  ultimately show ?case by (simp add: crc16_bit_iff [of "push_bit n x"])
qed

section \<open>The table\<close>

text \<open>
  A linear function on \<open>n\<close>-bit inputs is fixed by its values on the powers of two:
  the table is the span of those eight values.
\<close>

primrec crc32_span :: "u32 list \<Rightarrow> u32 list" where
  "crc32_span [] = [0]"
| "crc32_span (b # bs) = (let t = crc32_span bs in t @ map (\<lambda>x. b XOR x) t)"

lemma nat_bit_small: "j < 2 ^ k \<Longrightarrow> k \<le> i \<Longrightarrow> \<not> bit (j::nat) i"
  by (metis bit_take_bit_iff not_less take_bit_nat_eq_self)

lemma of_nat_high_xor:
  assumes "j < 2 ^ k"
  shows "(of_nat (2 ^ k + j) :: u32) = of_nat (2 ^ k) XOR of_nat j"
proof -
  have "2 ^ k AND j = 0"
    by (rule bit_eqI) (use nat_bit_small [OF assms] in \<open>auto simp: bit_and_iff bit_exp_iff\<close>)
  then have "2 ^ k + j = 2 ^ k XOR j" by (rule disjunctive_add_eq_xor)
  then show ?thesis by (simp only: of_nat_xor_eq)
qed

lemma crc32_span_linear:
  fixes f :: "u32 \<Rightarrow> u32"
  assumes lin: "\<And>x y. f (x XOR y) = f x XOR f y"
  shows "crc32_span (map (\<lambda>k. f (of_nat (2 ^ k))) (rev [0..<n])) = map (\<lambda>i. f (of_nat i)) [0..<2 ^ n]"
proof (induction n)
  case 0
  have "f 0 = 0" using lin [of 0 0] by simp
  then show ?case by simp
next
  case (Suc n)
  have split: "[0..<2 ^ Suc n] = [0..<2 ^ n] @ map (\<lambda>j. 2 ^ n + j) [0..<2 ^ n]"
    by (simp add: map_add_upt mult_2 add.commute upt_add_eq_append [symmetric])
  have "f (of_nat (2 ^ n + j)) = f (of_nat (2 ^ n)) XOR f (of_nat j)" if "j < 2 ^ n" for j
    by (simp only: of_nat_high_xor [OF that] lin)
  then have "map (\<lambda>j. f (of_nat (2 ^ n + j))) [0..<2 ^ n]
      = map (\<lambda>j. f (of_nat (2 ^ n)) XOR f (of_nat j)) [0..<2 ^ n]"
    by (intro map_cong) auto
  then show ?case unfolding split
    by (simp add: Suc.IH Let_def comp_def del: of_nat_add of_nat_power)
qed

lemma crc32_bits_zero: "(crc32_bit ^^ n) 0 = 0"
  using crc32_bits_xor [of n 0 0] by simp

lemma CRC32_genTable_map: "CRC32_genTable = map (\<lambda>i. (crc32_bit ^^ 8) (of_nat i)) [0..<256]"
  by (simp add: CRC32_genTable_def upt_conv_Cons [of 0 256] crc32_bits_zero)

lemma precalcTable_map: "precalcTable = map (\<lambda>i. (crc32_bit ^^ 8) (of_nat i)) [0..<256]"
proof -
  let ?f = "\<lambda>x. (crc32_bit ^^ 8) x"
  have "map (\<lambda>i. ?f (of_nat i)) [0..<256] = crc32_span (map (\<lambda>k. ?f (of_nat (2 ^ k))) (rev [0..<8]))"
    using crc32_span_linear [of ?f 8, OF crc32_bits_xor] by simp
  also have "map (\<lambda>k. ?f (of_nat (2 ^ k))) (rev [0..<8]) =
      [0xEDB88320, 0x76DC4190, 0x3B6E20C8, 0x1DB71064, 0x0EDB8832, 0x076DC419, 0xEE0E612C, 0x77073096]"
    by (simp add: funpow_8 crc32_bit_def upt_rec)
  also have "crc32_span \<dots> = precalcTable"
    unfolding precalcTable_def by (simp add: Let_def)
  finally show ?thesis by simp
qed

text \<open>The byte step of the table-driven code is eight steps of the bitwise one.\<close>

lemma crc32_update_bits: "CRC32_updateByte crc byte = (crc32_bit ^^ 8) (crc XOR ucast byte)"
proof -
  let ?x = "crc XOR ucast byte :: u32"
  define m :: u32 where "m = 0xFF"
  let ?lo = "?x AND m" and ?hi = "?x AND NOT m"
  have ff: "bit m i \<longleftrightarrow> i < 8" for i
    using bit_mask_iff [of 8 i, where 'a = "32 word"] by (auto simp: mask_numeral m_def)
  have lo: "unat ?lo < 256"
    using unsigned_take_bit_eq [of 8 ?x, where 'a = nat] take_bit_nat_less_exp [of 8 "unat ?x"]
    by (simp add: take_bit_eq_mask mask_numeral m_def)
  have split: "?x = ?lo XOR ?hi"
    by (rule bit_word_eqI) (auto simp: bit_xor_iff bit_and_iff bit_not_iff)
  have hi: "(crc32_bit ^^ 8) ?hi = drop_bit 8 crc"
  proof -
    have "(crc32_bit ^^ 8) ?hi = drop_bit 8 ?hi"
      by (rule crc32_bits_drop) (simp add: bit_and_iff bit_not_iff ff)
    also have "\<dots> = drop_bit 8 crc"
      by (rule bit_word_eqI)
        (auto simp: bit_and_iff bit_not_iff bit_xor_iff bit_drop_bit_eq bit_ucast_iff ff dest: bit_imp_le_length)
    finally show ?thesis .
  qed
  have tab: "precalcTable ! unat ?lo = (crc32_bit ^^ 8) ?lo"
    using lo by (simp add: precalcTable_map)
  have mask: "y AND 0xFFFFFFFF = y" for y :: u32
    by (rule bit_word_eqI)
      (use bit_mask_iff [of 32, where 'a = "32 word"] in \<open>auto simp: mask_numeral bit_and_iff\<close>)
  have "(crc32_bit ^^ 8) ?x = (crc32_bit ^^ 8) ?lo XOR (crc32_bit ^^ 8) ?hi"
    by (subst split) (rule crc32_bits_xor)
  moreover have "CRC32_updateByte crc byte = drop_bit 8 crc XOR precalcTable ! unat ?lo"
    by (simp only: CRC32_updateByte_def Let_def mask m_def)
  ultimately show ?thesis by (simp only: tab hi xor.commute)
qed

lemma ucast_u8_inj: "8 \<le> LENGTH('a) \<Longrightarrow> (ucast (b :: u8) :: 'a::len word) = ucast b' \<Longrightarrow> b = b'"
proof (rule bit_word_eqI)
  fix n assume n: "n < LENGTH(8)" and a: "8 \<le> LENGTH('a)" "(ucast b :: 'a word) = ucast b'"
  then have "bit (ucast b :: 'a word) n = bit (ucast b' :: 'a word) n" by simp
  then show "bit b n = bit b' n" using n a(1) by (simp add: bit_ucast_iff)
qed

section \<open>Both checksums keep the promise\<close>

interpretation crc32: crc_step CRC32_updateByte
proof unfold_locales
  fix c c' :: u32 and b b' :: u8
  show "c = c'" if "CRC32_updateByte c b = CRC32_updateByte c' b"
    using that crc32_bits_inj [of 8 "c XOR ucast b" "c' XOR ucast b"]
    by (simp add: crc32_update_bits xor_right_cancel)
  show "b = b'" if "CRC32_updateByte c b = CRC32_updateByte c b'"
    using that crc32_bits_inj [of 8 "c XOR ucast b" "c XOR ucast b'"]
    by (auto simp: crc32_update_bits xor_left_cancel dest: ucast_u8_inj [rotated])
qed

interpretation crc16: crc_step crc16_byte
proof unfold_locales
  fix c c' :: u16 and b b' :: u8
  show "c = c'" if "crc16_byte c b = crc16_byte c' b"
    using that crc16_bits_inj [of 8 "c XOR push_bit 8 (ucast b)" "c' XOR push_bit 8 (ucast b)"]
    by (simp add: crc16_byte_def xor_right_cancel)
  show "b = b'" if "crc16_byte c b = crc16_byte c b'"
  proof -
    have "push_bit 8 (ucast b :: u16) = push_bit 8 (ucast b')"
      using that crc16_bits_inj [of 8 "c XOR push_bit 8 (ucast b)" "c XOR push_bit 8 (ucast b')"]
      by (simp add: crc16_byte_def xor_left_cancel)
    then have e: "bit (push_bit 8 (ucast b :: u16)) (n + 8) = bit (push_bit 8 (ucast b' :: u16)) (n + 8)" for n
      by simp
    show ?thesis
    proof (rule bit_word_eqI)
      fix n assume "n < LENGTH(8)"
      then show "bit b n = bit b' n" using e [of n] by (simp add: bit_push_bit_iff bit_ucast_iff)
    qed
  qed
qed

lemma crc32_changed:
  assumes "p < length ys" "b \<noteq> ys ! p"
  shows "CRC32_calculate (ys[p := b]) \<noteq> CRC32_calculate ys"
proof -
  have "NOT x = NOT y \<longleftrightarrow> x = y" for x y :: u32 by (metis bit.double_compl)
  then show ?thesis
    using crc32.single_byte_seen [OF assms(2), of "NOT 0" "take p ys" "drop (Suc p) ys"] assms(1)
    by (simp add: CRC32_calculate_def CRC32_calculate_ex_def upd_conv_take_nth_drop flip: id_take_nth_drop)
qed

section \<open>Properties\<close>

text \<open>
  The table checked in for \<open>CONFIG_CRC32_USE_PRECALC_TABLE\<close> is, entry for entry,
  the one \<open>CRC32_genTable_\<close> computes at run time in the other configuration: both
  builds of the firmware compute the same checksums.
\<close>

theorem crc32_table_generated: "CRC32_genTable = precalcTable"
  by (simp only: CRC32_genTable_map precalcTable_map)

text \<open>
  C29. The optimised byte step (one table lookup) is the reference bitwise CRC-32 with the
  reflected polynomial \<open>0xEDB88320\<close>, for every state and every byte.
\<close>

theorem crc32_table_driven_bitwise:
  "CRC32_calculate_ex seed bs =
     NOT (foldl (\<lambda>c b. (crc32_bit ^^ 8) (c XOR ucast b)) (NOT seed) bs)"
proof -
  have "CRC32_updateByte = (\<lambda>c b. (crc32_bit ^^ 8) (c XOR ucast b))"
    by (intro ext) (rule crc32_update_bits)
  then show ?thesis by (simp add: CRC32_calculate_ex_def)
qed

text \<open>
  \<open>CRC32_calculate_ex\<close> can be fed in pieces: continuing from the checksum of a
  first part gives the checksum of the whole, which is how the GPT partition array is
  summed entry by entry.
\<close>

theorem crc32_in_pieces:
  "CRC32_calculate_ex (CRC32_calculate_ex seed xs) ys = CRC32_calculate_ex seed (xs @ ys)"
  by (simp add: CRC32_calculate_ex_def)

text \<open>
  The CRC-16 residue: appending a message's own checksum, high byte first, makes the
  checksum of the whole zero.
\<close>

lemma crc16_trailer_zero:
  "crc16_byte (crc16_byte c (ucast (drop_bit 8 c))) (ucast c) = 0"
proof -
  define lo :: u16 where "lo = ucast (ucast c :: u8)"
  have lo: "bit lo i \<longleftrightarrow> i < 8 \<and> bit c i" for i
    by (auto simp: lo_def bit_ucast_iff dest: bit_imp_le_length)
  have "c XOR push_bit 8 (ucast (ucast (drop_bit 8 c) :: u8)) = lo"
    by (rule bit_word_eqI)
      (auto simp: bit_xor_iff bit_push_bit_iff bit_ucast_iff bit_drop_bit_eq lo)
  moreover have "(crc16_bit ^^ 8) lo = push_bit 8 lo"
    by (rule crc16_bits_push) (auto simp: lo)
  ultimately have "crc16_byte c (ucast (drop_bit 8 c)) = push_bit 8 lo"
    by (simp add: crc16_byte_def)
  then show ?thesis
    using crc16_bits_push [of 8 0] by (simp add: crc16_byte_def lo_def)
qed

text \<open>
  A packet whose two trailing bytes are the CRC-16 of its data (high byte first)
  sums to zero, which is the test \<open>XYMODEM_ValidatePacket\<close> makes.
\<close>

theorem crc16_residue_zero:
  "CRC16_calculate (xs @ [ucast (drop_bit 8 (CRC16_calculate xs)), ucast (CRC16_calculate xs)]) = 0"
  by (simp add: CRC16_calculate_def crc16_trailer_zero)

text \<open>
  Corrupting any single byte, wherever it stands and whatever it becomes, changes
  both the CRC-32 and the CRC-16.
\<close>

theorem single_byte_corruption_detected:
  assumes "b \<noteq> b'"
  shows "CRC32_calculate (xs @ b # ys) \<noteq> CRC32_calculate (xs @ b' # ys) \<and>
    CRC16_calculate (xs @ b # ys) \<noteq> CRC16_calculate (xs @ b' # ys)"
proof -
  have "NOT x = NOT y \<longleftrightarrow> x = y" for x y :: u32 by (metis bit.double_compl)
  then show ?thesis
    using crc32.single_byte_seen [OF assms] crc16.single_byte_seen [OF assms]
    by (simp only: CRC32_calculate_def CRC32_calculate_ex_def CRC16_calculate_def) simp
qed

theorem single_byte_corruption_detected_witness:
  "CRC32_calculate [1, 2, 3] \<noteq> CRC32_calculate [1, 7, 3] \<and>
    CRC16_calculate [1, 2, 3] \<noteq> CRC16_calculate [1, 7, 3]"
  using single_byte_corruption_detected [of 2 7 "[1]" "[3]"] by simp

end
