(* ===== verification/Pmp.thy ===== *)
theory Pmp
  imports Hss_Base
begin

text \<open>
  The software view of the physical memory protections,
  \<open>services/boot/hss_boot_pmp.c\<close>: the table of decoded entries, the write and read
  permission checks the boot service and the scatter-gather DMA service make, and the
  decoder of the RISC-V PMP configuration.
\<close>

section \<open>Data\<close>

datatype AddressMatchingMode =
    AddressMatchingMode_NULL_REGION
  | AddressMatchingMode_TOR
  | AddressMatchingMode_NA4
  | AddressMatchingMode_NAPOT

record PmpEntry =
  baseAddr :: u64
  psize :: u64
  pA :: AddressMatchingMode
  pR :: bool
  pW :: bool
  pX :: bool
  pL :: bool

abbreviation (input) MAX_NUM_PMPS :: nat where "MAX_NUM_PMPS \<equiv> 16"

definition zero_PmpEntry :: PmpEntry where
  "zero_PmpEntry = \<lparr>baseAddr = 0, psize = 0, pA = AddressMatchingMode_NULL_REGION,
     pR = False, pW = False, pX = False, pL = False\<rparr>"

text \<open>\<open>static struct PmpEntry pmpEntry[HSS_HART_NUM_PEERS][MAX_NUM_PMPS]\<close>, zero at
  start-up.\<close>

type_synonym pmp_table = "PmpEntry list list"

definition pmpEntry_static :: pmp_table where
  "pmpEntry_static = replicate HSS_HART_NUM_PEERS (replicate MAX_NUM_PMPS zero_PmpEntry)"

section \<open>Operations\<close>

text \<open>The decoding loop of \<open>HSS_PMP_Init\<close> is under \<open>#if 0\<close>: the function
  visits the entries and changes none.\<close>

definition HSS_PMP_Init :: "pmp_table \<Rightarrow> bool \<times> pmp_table" where
  "HSS_PMP_Init t = (True, t)"

text \<open>
  \<open>ptrdiff_t\<close> comparisons are signed, sums wrap. \<open>pmp_covers\<close> is the condition
  both checks use: the end of the region is compared strictly.
\<close>

definition pmp_covers :: "PmpEntry \<Rightarrow> u64 \<Rightarrow> u64 \<Rightarrow> bool" where
  "pmp_covers e regionStartAddr regionEndAddr \<longleftrightarrow>
     word_sle (baseAddr e) regionStartAddr \<and> word_sless regionEndAddr (baseAddr e + psize e)"

fun check_loop :: "(PmpEntry \<Rightarrow> bool) \<Rightarrow> PmpEntry list \<Rightarrow> u64 \<Rightarrow> u64 \<Rightarrow> bool \<Rightarrow> bool" where
  "check_loop perm [] s e result = result"
| "check_loop perm (p # ps) s e result =
     (if pA p = AddressMatchingMode_NULL_REGION then check_loop perm ps s e result
      else if pmp_covers p s e then (if \<not> perm p then False else True)
      else check_loop perm ps s e result)"

definition HSS_PMP_CheckWrite :: "pmp_table \<Rightarrow> hart_id \<Rightarrow> u64 \<Rightarrow> u64 \<Rightarrow> bool" where
  "HSS_PMP_CheckWrite t target regionStartAddr len =
     check_loop pW (t ! target) regionStartAddr (regionStartAddr + len) True"

definition HSS_PMP_CheckRead :: "pmp_table \<Rightarrow> hart_id \<Rightarrow> u64 \<Rightarrow> u64 \<Rightarrow> bool" where
  "HSS_PMP_CheckRead t target regionStartAddr len =
     check_loop pR (t ! target) regionStartAddr (regionStartAddr + len) False"

text \<open>
  \<open>pmp_decode_napot_size_encoding\<close>: the mask shrinks until the address has ones
  under it. \<open>pMask\<close> is written only on a match; the result is (size exponent, mask).
\<close>

function napot_loop :: "u64 \<Rightarrow> u64 \<Rightarrow> u64 \<Rightarrow> u64 \<Rightarrow> u64 \<times> u64" where
  "napot_loop addrVal m result pMask =
     (if m = 0 then (result, pMask)
      else if addrVal AND m = m then (result, m)
      else napot_loop addrVal (drop_bit 1 m) (result - 1) pMask)"
  by pat_completeness auto
termination
proof (relation "measure (\<lambda>(a, m, r, p). unat m)")
  fix addrVal m result pMask :: u64
  assume "m \<noteq> 0" "addrVal AND m \<noteq> m"
  then have "unat m > 0" by (simp add: unat_gt_0)
  moreover have "unat (drop_bit 1 m) = unat m div 2"
    by (subst unat_drop_bit_eq) (simp only: drop_bit_eq_div power_one_right)
  ultimately have "unat (drop_bit 1 m) < unat m" by linarith
  then show "((addrVal, drop_bit 1 m, result - 1, pMask), addrVal, m, result, pMask)
      \<in> measure (\<lambda>(a, m, r, p). unat m)"
    by (simp only: in_measure prod.case)
qed simp

declare napot_loop.simps [simp del]

definition pmp_decode_napot_size_encoding :: "u64 \<Rightarrow> u64 \<Rightarrow> u64 \<times> u64" where
  "pmp_decode_napot_size_encoding addrVal pMask =
     napot_loop addrVal (drop_bit 1 (0 - 1)) (64 + 2) pMask"

fun mode_of :: "nat \<Rightarrow> AddressMatchingMode" where
  "mode_of 0 = AddressMatchingMode_NULL_REGION"
| "mode_of (Suc 0) = AddressMatchingMode_TOR"
| "mode_of (Suc (Suc 0)) = AddressMatchingMode_NA4"
| "mode_of _ = AddressMatchingMode_NAPOT"

text \<open>
  \<open>pmp_decode\<close>. A top-of-range entry without a predecessor fails the assertion.
\<close>

definition pmp_decode :: "PmpEntry \<Rightarrow> PmpEntry option \<Rightarrow> u8 \<Rightarrow> u64 \<Rightarrow> PmpEntry option" where
  "pmp_decode entry prev configVal addrVal =
     (let mode = mode_of (unat (drop_bit 3 (configVal AND 0x18)));
          e0 = entry\<lparr>pA := mode\<rparr>;
          e1 = (if mode \<noteq> AddressMatchingMode_NULL_REGION then
                  e0\<lparr>pR := (configVal AND 1 \<noteq> 0), pW := (configVal AND 2 \<noteq> 0),
                     pX := (configVal AND 4 \<noteq> 0), pL := (configVal AND 0x80 \<noteq> 0)\<rparr>
                else e0)
      in case mode of
           AddressMatchingMode_NULL_REGION \<Rightarrow> Some e1
         | AddressMatchingMode_TOR \<Rightarrow>
             (case prev of
                None \<Rightarrow> None
              | Some p \<Rightarrow>
                  let base = baseAddr p + psize p
                  in Some (e1\<lparr>baseAddr := base, psize := push_bit 2 addrVal - base\<rparr>))
         | AddressMatchingMode_NA4 \<Rightarrow> Some (e1\<lparr>baseAddr := push_bit 2 addrVal, psize := 4\<rparr>)
         | AddressMatchingMode_NAPOT \<Rightarrow>
             let (range, m) = pmp_decode_napot_size_encoding addrVal 0
             in Some (e1\<lparr>baseAddr := push_bit 2 (addrVal AND NOT m),
                         psize := push_bit (unat range) 1\<rparr>))"

text \<open>The two configuration registers are the CSR values read.\<close>

definition pmp_getConfigVal :: "u64 \<Rightarrow> u64 \<Rightarrow> nat \<Rightarrow> u8" where
  "pmp_getConfigVal pmpcfg0 pmpcfg1 index =
     (let result = (if index < 8 then pmpcfg0 else if index < 16 then pmpcfg1 else 0);
          result = (if index < 8 then drop_bit (index * 8) result
                    else if index < 15 then drop_bit ((index - 8) * 8) result
                    else result)
      in ucast (result AND 0xFF))"

section \<open>Which entry decides\<close>

lemma check_loop_find:
  "check_loop perm ps s e result =
     (case find_index (\<lambda>p. pA p \<noteq> AddressMatchingMode_NULL_REGION \<and> pmp_covers p s e) ps of
        None \<Rightarrow> result
      | Some i \<Rightarrow> perm (ps ! i))"
  by (induction ps) (auto split: option.splits)

lemma check_loop_inactive:
  "(\<forall>p\<in>set ps. pA p = AddressMatchingMode_NULL_REGION) \<Longrightarrow> check_loop perm ps s e result = result"
  by (induction ps) auto

section \<open>NAPOT decoding\<close>

lemma and_mask_eq_iff: "(a :: u64) AND mask m = mask m \<longleftrightarrow> (\<forall>i < m. i < 64 \<longrightarrow> bit a i)"
  by (auto simp: bit_eq_iff bit_and_iff bit_mask_iff)

lemma drop_bit_mask_Suc: "m < 64 \<Longrightarrow> drop_bit 1 (mask (Suc m) :: u64) = mask m"
  by (rule bit_word_eqI) (auto simp: bit_drop_bit_eq bit_mask_iff)

lemma mask_eq_0_iff_u64: "m \<le> 64 \<Longrightarrow> (mask m :: u64) = 0 \<longleftrightarrow> m = 0"
proof -
  have "m \<noteq> 0 \<Longrightarrow> m \<le> 64 \<Longrightarrow> bit (mask m :: u64) 0" by (simp add: bit_mask_iff)
  then show "m \<le> 64 \<Longrightarrow> ?thesis" by auto
qed

lemma napot_loop_trailing_ones:
  assumes "k \<le> m" and "m \<le> 63" and "\<forall>i < k. bit a i" and "\<not> bit a k"
  shows "napot_loop a (mask m) (of_nat (m + 3)) p = (of_nat (k + 3), if k = 0 then p else mask k)"
  using assms(1,2)
proof (induction m)
  case 0
  then show ?case by (simp add: napot_loop.simps)
next
  case (Suc m)
  show ?case
  proof (cases "k = Suc m")
    case True
    then have "a AND mask (Suc m) = mask (Suc m)" using assms(3) by (simp add: and_mask_eq_iff)
    moreover have "(mask (Suc m) :: u64) \<noteq> 0" using Suc.prems by (simp add: mask_eq_0_iff_u64)
    ultimately show ?thesis using True by (subst napot_loop.simps) simp
  next
    case False
    then have k: "k \<le> m" using Suc.prems by simp
    then have n: "a AND mask (Suc m) \<noteq> mask (Suc m)"
      using assms(4) Suc.prems by (auto simp: and_mask_eq_iff intro!: exI [of _ k])
    have z: "(mask (Suc m) :: u64) \<noteq> 0" using Suc.prems by (simp add: mask_eq_0_iff_u64)
    have "napot_loop a (mask (Suc m)) (of_nat (Suc m + 3)) p
        = napot_loop a (drop_bit 1 (mask (Suc m))) (of_nat (Suc m + 3) - 1) p"
      using n z by (subst napot_loop.simps) simp
    also have "\<dots> = napot_loop a (mask m) (of_nat (m + 3)) p"
      using Suc.prems by (simp only: drop_bit_mask_Suc) (simp add: add.commute)
    finally show ?thesis using Suc.IH k Suc.prems by (simp only: Suc_leD)
  qed
qed

lemma napot_size_encoding:
  assumes "k \<le> 63" and "\<forall>i < k. bit a i" and "\<not> bit a k"
  shows "pmp_decode_napot_size_encoding a 0 = (of_nat (k + 3), mask k)"
proof -
  have "drop_bit 1 (0 - 1 :: u64) = mask 63"
    by (rule bit_word_eqI) (auto simp: bit_drop_bit_eq bit_mask_iff)
  then show ?thesis
    using napot_loop_trailing_ones [of k 63 a 0] assms
    by (simp add: pmp_decode_napot_size_encoding_def)
qed

lemma drop_bit_0x18: "unat (drop_bit 3 (0x18 :: u8)) = 3"
  by (simp add: drop_bit_eq_div unat_div)

section \<open>Properties\<close>

text \<open>
  Decoding a NAPOT entry recovers the region it encodes: for a base aligned to its
  size \<open>2 ^ (k + 3)\<close>, up to \<open>2 ^ 63\<close> bytes, the address register
  \<open>base >> 2\<close> with \<open>k\<close> trailing ones decodes to that base and size, with
  the permission bits of the configuration byte.
\<close>

theorem pmp_napot_roundtrip:
  assumes k: "k \<le> 60" and aligned: "\<forall>i < k + 3. \<not> bit base i"
    and napot: "cfg AND 0x18 = 0x18"
  shows "pmp_decode e prev cfg (drop_bit 2 base OR mask k) =
    Some (e\<lparr>pA := AddressMatchingMode_NAPOT,
      pR := (cfg AND 1 \<noteq> 0), pW := (cfg AND 2 \<noteq> 0), pX := (cfg AND 4 \<noteq> 0),
      pL := (cfg AND 0x80 \<noteq> 0), baseAddr := base, psize := 2 ^ (k + 3)\<rparr>)"
proof -
  let ?a = "drop_bit 2 base OR mask k"
  have ones: "\<forall>i < k. bit ?a i" using k by (simp add: bit_or_iff bit_mask_iff)
  have zero: "\<not> bit ?a k"
    using aligned by (simp add: bit_or_iff bit_mask_iff bit_drop_bit_eq)
  have size: "pmp_decode_napot_size_encoding ?a 0 = (of_nat (k + 3), mask k)"
    using k by (intro napot_size_encoding ones zero) simp
  have base: "push_bit 2 (?a AND NOT (mask k)) = base"
  proof (rule bit_word_eqI)
    fix n assume n: "n < LENGTH(64)"
    show "bit (push_bit 2 (?a AND NOT (mask k))) n = bit base n"
    proof (cases "n < k + 3")
      case True
      then have z: "\<not> bit base n" using aligned by simp
      have "Suc (Suc (n - 2)) = n" if "2 \<le> n" using that by simp
      then have "bit base (Suc (Suc (n - 2))) \<longleftrightarrow> bit base n" if "2 \<le> n"
        using that by (simp only:)
      with z show ?thesis
        by (auto simp: bit_push_bit_iff bit_and_iff bit_not_iff bit_or_iff bit_mask_iff
            bit_drop_bit_eq)
    next
      case False
      then have m: "2 \<le> n" "Suc (Suc (n - 2)) = n" "\<not> n - 2 < k" by simp_all
      then show ?thesis
        using n by (simp add: bit_push_bit_iff bit_and_iff bit_not_iff bit_or_iff bit_mask_iff
            bit_drop_bit_eq)
    qed
  qed
  have range: "unat (of_nat (k + 3) :: u64) = k + 3"
    using k by (subst unat_of_nat) simp
  have mode: "mode_of (unat (drop_bit 3 (cfg AND 0x18))) = AddressMatchingMode_NAPOT"
    using drop_bit_0x18 unfolding napot by (simp add: numeral_3_eq_3)
  show ?thesis
    unfolding pmp_decode_def Let_def mode size
    by (simp add: base range push_bit_of_1 del: of_nat_add push_bit_and push_bit_or)
qed

theorem pmp_napot_roundtrip_witness:
  "pmp_decode zero_PmpEntry None 0x9B (drop_bit 2 0x80000000 OR mask 13) =
    Some \<lparr>baseAddr = 0x80000000, psize = 0x10000, pA = AddressMatchingMode_NAPOT,
      pR = True, pW = True, pX = False, pL = True\<rparr>"
proof -
  have al: "\<forall>i < 13 + 3. \<not> bit (2 ^ 31 :: u64) i"
    by (simp only: bit_exp_iff) simp
  show ?thesis
    using pmp_napot_roundtrip [of 13 "2 ^ 31" "0x9B" zero_PmpEntry None, OF _ al]
    unfolding zero_PmpEntry_def by simp
qed

text \<open>
  C39. The write check: the first active entry whose region strictly contains the request
  decides by its write bit, and a request no entry covers is allowed.
\<close>

theorem pmp_check_write_first_match:
  "HSS_PMP_CheckWrite t h start len \<longleftrightarrow>
     (\<forall>i < length (t ! h).
        pA (t ! h ! i) \<noteq> AddressMatchingMode_NULL_REGION \<and> pmp_covers (t ! h ! i) start (start + len) \<and>
        (\<forall>j < i. pA (t ! h ! j) = AddressMatchingMode_NULL_REGION \<or>
                 \<not> pmp_covers (t ! h ! j) start (start + len))
        \<longrightarrow> pW (t ! h ! i))"
proof -
  let ?P = "\<lambda>p. pA p \<noteq> AddressMatchingMode_NULL_REGION \<and> pmp_covers p start (start + len)"
  have "(\<exists>i. find_index ?P (t ! h) = Some i \<and> pW (t ! h ! i)) \<or> find_index ?P (t ! h) = None
    \<longleftrightarrow> (\<forall>i. find_index ?P (t ! h) = Some i \<longrightarrow> pW (t ! h ! i))"
    by (cases "find_index ?P (t ! h)") auto
  then show ?thesis
    unfolding HSS_PMP_CheckWrite_def check_loop_find
    by (auto simp: find_index_Some_iff split: option.splits)
qed

theorem pmp_check_write_first_match_witness:
  "\<not> HSS_PMP_CheckWrite [[zero_PmpEntry\<lparr>baseAddr := 0x1000, psize := 0x1000,
       pA := AddressMatchingMode_NA4\<rparr>]] 0 0x1000 16"
proof -
  have c: "pmp_covers (zero_PmpEntry\<lparr>baseAddr := 0x1000, psize := 0x1000,
       pA := AddressMatchingMode_NA4\<rparr>) 0x1000 (0x1000 + 16)"
    by (simp add: pmp_covers_def zero_PmpEntry_def word_sle_eq word_sless_alt)
  then show ?thesis
    by (subst pmp_check_write_first_match) (simp add: zero_PmpEntry_def)
qed

text \<open>
  What the checks enforce as built: \<open>HSS_PMP_Init\<close> leaves the static table
  empty, so every write of every hart is permitted and every read is refused. (The
  header comment of the boot service calls this check vitally important, and the
  scatter-gather DMA service copies only when both checks pass.)
\<close>

theorem pmp_checks_as_initialised:
  assumes "h < HSS_HART_NUM_PEERS" and "HSS_PMP_Init pmpEntry_static = (ok, t)"
  shows "ok \<and> HSS_PMP_CheckWrite t h start len \<and> \<not> HSS_PMP_CheckRead t h start len"
proof -
  have t: "t = pmpEntry_static" "ok" using assms(2) by (auto simp: HSS_PMP_Init_def)
  have "\<forall>p\<in>set (t ! h). pA p = AddressMatchingMode_NULL_REGION"
    using assms(1) by (simp add: t pmpEntry_static_def zero_PmpEntry_def)
  then show ?thesis
    by (simp add: t(2) HSS_PMP_CheckWrite_def HSS_PMP_CheckRead_def check_loop_inactive)
qed

theorem pmp_checks_as_initialised_witness:
  "HSS_PMP_CheckWrite pmpEntry_static 1 0x80000000 64 \<and>
    \<not> HSS_PMP_CheckRead pmpEntry_static 1 0x80000000 64"
  using pmp_checks_as_initialised [of 1 True pmpEntry_static "0x80000000" 64]
  by (simp add: HSS_PMP_Init_def)

text \<open>
  Entry \<open>i\<close>'s configuration byte is byte \<open>i mod 8\<close> of its register for
  every index below 15; for the last entry the shift is skipped (the guard is
  \<open>index < 15\<close>) and the byte of entry 8 is returned.
\<close>

theorem pmp_config_byte:
  "(index < 8 \<longrightarrow> pmp_getConfigVal c0 c1 index = ucast (drop_bit (index * 8) c0)) \<and>
   (8 \<le> index \<and> index < 15 \<longrightarrow> pmp_getConfigVal c0 c1 index = ucast (drop_bit ((index - 8) * 8) c1)) \<and>
   pmp_getConfigVal c0 c1 15 = pmp_getConfigVal c0 c1 8"
proof -
  have m: "(ucast ((x :: u64) AND 0xFF) :: u8) = ucast x" for x
  proof (rule bit_word_eqI)
    fix n assume "n < LENGTH(8)"
    then show "bit (ucast (x AND 0xFF) :: u8) n = bit (ucast x :: u8) n"
      using bit_mask_iff [of 8 n, where 'a = "64 word"]
      by (simp add: bit_ucast_iff bit_and_iff mask_numeral)
  qed
  show ?thesis by (auto simp: pmp_getConfigVal_def m)
qed

theorem pmp_config_byte_witness:
  "pmp_getConfigVal 0x1F00 0 1 = 0x1F \<and> pmp_getConfigVal 0 0x0F00000000000018 15 = 0x18"
  using pmp_config_byte [of 1 "0x1F00" 0] pmp_config_byte [of 8 0 "0x0F00000000000018"]
  by (simp add: pmp_getConfigVal_def)

end
