(* ===== verification/Ipi_Bus.thy ===== *)
theory Ipi_Bus
  imports Ipi
begin

text \<open>
  What the message bus promises: a queue is a bag of at most four messages (the interface
  \<open>mailbox\<close>, met by the slots of \<open>msgQ\<close>), sends and consumes act on one
  queue, and a transaction allocated, delivered, handled and acknowledged completes.
\<close>

section \<open>Mailboxes\<close>

text \<open>
  The contract of a bounded mailbox: \<open>put\<close> accepts exactly when there is room,
  \<open>take\<close> finds a message exactly when there is one that satisfies the selector, and
  both change the contents by that one message.
\<close>

datatype ('m, 'k) mailbox_op = Put 'm | Take 'k

locale mailbox =
  fixes put :: "'m \<Rightarrow> 'q \<Rightarrow> 'q option"
    and take_one :: "'k \<Rightarrow> 'q \<Rightarrow> ('m \<times> 'q) option"
    and contents :: "'q \<Rightarrow> 'm multiset"
    and cap :: nat
    and matches :: "'k \<Rightarrow> 'm \<Rightarrow> bool"
    and good :: "'q \<Rightarrow> bool"
    and real_msg :: "'m \<Rightarrow> bool"
    and key_ok :: "'k \<Rightarrow> bool"
  assumes bounded: "good q \<Longrightarrow> size (contents q) \<le> cap"
    and put_iff: "good q \<Longrightarrow> put m q = None \<longleftrightarrow> size (contents q) = cap"
    and put_good: "good q \<Longrightarrow> put m q = Some q' \<Longrightarrow> good q'"
    and put_contents: "good q \<Longrightarrow> real_msg m \<Longrightarrow> put m q = Some q' \<Longrightarrow> contents q' = add_mset m (contents q)"
    and take_iff: "good q \<Longrightarrow> key_ok k \<Longrightarrow> take_one k q = None \<longleftrightarrow> (\<forall>m \<in># contents q. \<not> matches k m)"
    and take_good: "good q \<Longrightarrow> take_one k q = Some (m, q') \<Longrightarrow> good q'"
    and take_contents: "good q \<Longrightarrow> key_ok k \<Longrightarrow> take_one k q = Some (m, q') \<Longrightarrow>
      matches k m \<and> contents q = add_mset m (contents q')"
begin

text \<open>A run of operations returns what was accepted, what was taken and the mailbox.\<close>

fun run :: "('m, 'k) mailbox_op list \<Rightarrow> 'q \<Rightarrow> 'm multiset \<times> 'm multiset \<times> 'q" where
  "run [] q = ({#}, {#}, q)"
| "run (Put m # ops) q =
     (case put m q of
        None \<Rightarrow> run ops q
      | Some q' \<Rightarrow> let (a, t, q'') = run ops q' in (add_mset m a, t, q''))"
| "run (Take k # ops) q =
     (case take_one k q of
        None \<Rightarrow> run ops q
      | Some (m, q') \<Rightarrow> let (a, t, q'') = run ops q' in (a, add_mset m t, q''))"

fun op_ok :: "('m, 'k) mailbox_op \<Rightarrow> bool" where
  "op_ok (Put m) = real_msg m"
| "op_ok (Take k) = key_ok k"

lemma run_conserves:
  assumes "good q" and "\<forall>op \<in> set ops. op_ok op" and "run ops q = (a, t, q')"
  shows "good q' \<and> contents q + a = t + contents q'"
  using assms
proof (induction ops arbitrary: q a t)
  case Nil
  then show ?case by simp
next
  case (Cons op ops)
  show ?case
  proof (cases op)
    case (Put m)
    show ?thesis
    proof (cases "put m q")
      case None
      then show ?thesis using Cons Put by simp
    next
      case (Some q1)
      obtain a1 where 1: "run ops q1 = (a1, t, q')" "a = add_mset m a1"
        using Cons.prems(3) Put Some by (auto split: prod.splits)
      have "contents q1 = add_mset m (contents q)" "good q1"
        using put_contents put_good Cons.prems Some Put by simp_all
      then show ?thesis using Cons.IH [OF _ _ 1(1)] 1(2) Cons.prems(2) by simp
    qed
  next
    case (Take k)
    show ?thesis
    proof (cases "take_one k q")
      case None
      then show ?thesis using Cons Take by simp
    next
      case (Some mq)
      obtain m q1 where mq: "mq = (m, q1)" by (cases mq)
      obtain t1 where 1: "run ops q1 = (a, t1, q')" "t = add_mset m t1"
        using Cons.prems(3) Take Some mq by (auto split: prod.splits)
      have "contents q = add_mset m (contents q1)" "good q1"
        using take_contents [of q k m q1] take_good [of q k m q1] Cons.prems(1,2) Some Take mq
        by simp_all
      then show ?thesis using Cons.IH [OF _ _ 1(1)] 1(2) Cons.prems(2) by simp
    qed
  qed
qed

end

section \<open>The slots of a queue\<close>

abbreviation (input) is_message :: "IPI_Outbox_Msg \<Rightarrow> bool" where
  "is_message m \<equiv> msg_type m \<noteq> IPI_MSG_NO_MESSAGE"

definition slot_put :: "IPI_Outbox_Msg \<Rightarrow> IPI_Outbox_Msg list \<Rightarrow> IPI_Outbox_Msg list option" where
  "slot_put m xs = map_option (\<lambda>k. xs[k := m]) (find_index (\<lambda>m. msg_type m = IPI_MSG_NO_MESSAGE) xs)"

definition slot_take :: "IPIMessagesEnum \<Rightarrow> IPI_Outbox_Msg list
    \<Rightarrow> (IPI_Outbox_Msg \<times> IPI_Outbox_Msg list) option" where
  "slot_take t xs = map_option (\<lambda>k. (xs ! k, xs[k := (xs ! k)\<lparr>msg_type := IPI_MSG_NO_MESSAGE\<rparr>]))
     (find_index (\<lambda>m. msg_type m = t) xs)"

definition slot_bag :: "IPI_Outbox_Msg list \<Rightarrow> IPI_Outbox_Msg multiset" where
  "slot_bag xs = filter_mset (\<lambda>m. msg_type m \<noteq> IPI_MSG_NO_MESSAGE) (mset xs)"

lemma slot_bag_fill:
  "k < length xs \<Longrightarrow> \<not> is_message (xs ! k) \<Longrightarrow> is_message m \<Longrightarrow>
    slot_bag (xs[k := m]) = add_mset m (slot_bag xs)"
  by (simp add: slot_bag_def mset_update)

lemma slot_bag_clear:
  assumes "k < length xs" "is_message (xs ! k)" "\<not> is_message m"
  shows "slot_bag xs = add_mset (xs ! k) (slot_bag (xs[k := m]))"
  using assms by (simp add: slot_bag_def mset_update)

lemma slot_bag_size: "size (slot_bag xs) = length (filter is_message xs)"
  by (simp add: slot_bag_def flip: mset_filter)

lemma slot_bag_full_iff: "size (slot_bag xs) = length xs \<longleftrightarrow> (\<forall>m \<in> set xs. is_message m)"
proof
  assume "size (slot_bag xs) = length xs"
  then show "\<forall>m \<in> set xs. is_message m"
    using length_filter_less [of _ xs is_message] unfolding slot_bag_size by fastforce
next
  assume "\<forall>m \<in> set xs. is_message m"
  then show "size (slot_bag xs) = length xs" by (simp add: slot_bag_size)
qed

interpretation slots: mailbox slot_put slot_take slot_bag 4 "\<lambda>t m. msg_type m = t"
  "\<lambda>xs. length xs = 4" is_message "\<lambda>t. t \<noteq> IPI_MSG_NO_MESSAGE"
proof unfold_locales
  fix q q' :: "IPI_Outbox_Msg list" and m k
  assume q: "length q = 4"
  show "size (slot_bag q) \<le> 4" by (metis length_filter_le q slot_bag_size)
  show "slot_put m q = None \<longleftrightarrow> size (slot_bag q) = 4"
    using slot_bag_full_iff [of q] q by (simp add: slot_put_def find_index_None_iff)
  show "slot_put m q = Some q' \<Longrightarrow> length q' = 4" using q by (auto simp: slot_put_def)
  show "is_message m \<Longrightarrow> slot_put m q = Some q' \<Longrightarrow> slot_bag q' = add_mset m (slot_bag q)"
    by (auto simp: slot_put_def slot_bag_fill dest: find_index_SomeD)
  show "k \<noteq> IPI_MSG_NO_MESSAGE \<Longrightarrow> slot_take k q = None \<longleftrightarrow> (\<forall>m \<in># slot_bag q. msg_type m \<noteq> k)"
    by (auto simp: slot_take_def slot_bag_def find_index_None_iff)
  show "slot_take k q = Some (m, q') \<Longrightarrow> length q' = 4" using q by (auto simp: slot_take_def)
  show "k \<noteq> IPI_MSG_NO_MESSAGE \<Longrightarrow> slot_take k q = Some (m, q') \<Longrightarrow>
      msg_type m = k \<and> slot_bag q = add_mset m (slot_bag q')"
    by (auto simp: slot_take_def intro!: slot_bag_clear dest: find_index_SomeD)
qed

section \<open>The operations on the slots\<close>

abbreviation (input) slots_of :: "hart_id \<Rightarrow> hart_id \<Rightarrow> IPI_Data \<Rightarrow> IPI_Outbox_Msg list" where
  "slots_of s t d \<equiv> msgQ (ipi_queues d ! IPI_CalculateQueueIndex s t)"

lemma msg_eta [simp]:
  "\<lparr>msg_type = msg_type m, transaction_id = transaction_id m, immediate_arg = immediate_arg m,
    p_extended_buffer_in_ddr = p_extended_buffer_in_ddr m,
    p_ancilliary_buffer_in_ddr = p_ancilliary_buffer_in_ddr m\<rparr> = m"
  by (cases m) simp

definition distinct_harts :: "hart_id \<Rightarrow> hart_id \<Rightarrow> bool" where
  "distinct_harts s t \<longleftrightarrow> s < 5 \<and> t < 5 \<and> s \<noteq> t"

lemma sent_slots:
  assumes "ipi_wf d" "distinct_harts me t" "find_available_slot (IPI_CalculateQueueIndex me t) d = Some k"
  shows "slot_put m (slots_of me t d) = Some (slots_of me t (sent me t k m d))"
    "distinct_harts s u \<Longrightarrow> (s, u) \<noteq> (me, t) \<Longrightarrow> slots_of s u (sent me t k m d) = slots_of s u d"
proof -
  have i: "IPI_CalculateQueueIndex me t < length (ipi_queues d)"
    using assms by (simp add: distinct_harts_def queue_index_less ipi_wfD)
  show "slot_put m (slots_of me t d) = Some (slots_of me t (sent me t k m d))"
    using assms(3) i by (simp add: slot_put_def find_available_slot_def)
  assume "distinct_harts s u" "(s, u) \<noteq> (me, t)"
  then have "IPI_CalculateQueueIndex s u \<noteq> IPI_CalculateQueueIndex me t"
    using assms(2) queue_index_inj [of s u me t] by (auto simp: distinct_harts_def)
  then show "slots_of s u (sent me t k m d) = slots_of s u d" by simp
qed

lemma IPI_Send_slots:
  assumes "ipi_wf d" "distinct_harts me t"
    and "IPI_Send me t message txid imm ext anc d = Some (r, d')"
  shows "(r, slots_of me t d') =
      (case slot_put \<lparr>msg_type = message, transaction_id = txid, immediate_arg = imm,
              p_extended_buffer_in_ddr = ext, p_ancilliary_buffer_in_ddr = anc\<rparr> (slots_of me t d) of
         None \<Rightarrow> (False, slots_of me t d) | Some q \<Rightarrow> (True, q))"
    "distinct_harts s u \<Longrightarrow> (s, u) \<noteq> (me, t) \<Longrightarrow> slots_of s u d' = slots_of s u d"
    "ipi_wf d'" "ipi_completes d' = ipi_completes d"
    "my_transaction_id d' = my_transaction_id d" "txId_shadow d' = txId_shadow d"
    "r \<longleftrightarrow> find_available_slot (IPI_CalculateQueueIndex me t) d \<noteq> None"
proof -
  let ?m = "\<lparr>msg_type = message, transaction_id = txid, immediate_arg = imm,
              p_extended_buffer_in_ddr = ext, p_ancilliary_buffer_in_ddr = anc\<rparr>"
  have h: "me < 5" "t < 5" "me \<noteq> t" using assms(2) by (auto simp: distinct_harts_def)
  note send = IPI_Send_cases [OF assms(1) h, of message txid imm ext anc]
  show "(r, slots_of me t d') = (case slot_put ?m (slots_of me t d) of
         None \<Rightarrow> (False, slots_of me t d) | Some q \<Rightarrow> (True, q))"
  proof (cases "find_available_slot (IPI_CalculateQueueIndex me t) d")
    case None
    then show ?thesis using send assms(3) by (simp add: slot_put_def find_available_slot_def)
  next
    case (Some k)
    then show ?thesis
      using send assms(3) sent_slots(1) [OF assms(1,2) Some, of ?m] by auto
  qed
  show "distinct_harts s u \<Longrightarrow> (s, u) \<noteq> (me, t) \<Longrightarrow> slots_of s u d' = slots_of s u d"
    using send assms(3) sent_slots(2) [OF assms(1,2)]
    by (cases "find_available_slot (IPI_CalculateQueueIndex me t) d") auto
  show "ipi_wf d'"
    using send assms(1,3) h sent_wf [OF assms(1) h]
    by (cases "find_available_slot (IPI_CalculateQueueIndex me t) d") auto
  show "ipi_completes d' = ipi_completes d" "my_transaction_id d' = my_transaction_id d"
    "txId_shadow d' = txId_shadow d"
    "r \<longleftrightarrow> find_available_slot (IPI_CalculateQueueIndex me t) d \<noteq> None"
    using send assms(3)
    by (cases "find_available_slot (IPI_CalculateQueueIndex me t) d"; auto)+
qed

section \<open>Consuming a message\<close>

text \<open>The acknowledgement a handled message gets, if any.\<close>

definition ack_of :: "IPIMessagesEnum \<Rightarrow> TxId_t \<Rightarrow> IPIStatusCode \<Rightarrow> IPI_Outbox_Msg option" where
  "ack_of mtype txid r =
     (if mtype \<in> {IPI_MSG_ACK_COMPLETE, IPI_MSG_ACK_PENDING, IPI_MSG_BOOT_REQUEST} \<or> r = IPI_IDLE then None
      else Some \<lparr>msg_type = (if r = IPI_PENDING then IPI_MSG_ACK_PENDING else IPI_MSG_ACK_COMPLETE),
                 transaction_id = txid, immediate_arg = status_num r,
                 p_extended_buffer_in_ddr = 0, p_ancilliary_buffer_in_ddr = 0\<rparr>)"

text \<open>Best effort: a message that finds no slot is lost.\<close>

definition try_put :: "IPI_Outbox_Msg option \<Rightarrow> IPI_Outbox_Msg list \<Rightarrow> IPI_Outbox_Msg list" where
  "try_put m q = (case m of None \<Rightarrow> q | Some m \<Rightarrow> (case slot_put m q of None \<Rightarrow> q | Some q' \<Rightarrow> q'))"

lemma send_ack_slots:
  assumes "ipi_wf d" "distinct_harts me s"
  shows "\<exists>d'. send_ack me s mtype txid r d = Some d' \<and> ipi_wf d' \<and>
    slots_of me s d' = try_put (ack_of mtype txid r) (slots_of me s d) \<and>
    (\<forall>a b. distinct_harts a b \<longrightarrow> (a, b) \<noteq> (me, s) \<longrightarrow> slots_of a b d' = slots_of a b d) \<and>
    ipi_completes d' = ipi_completes d \<and> my_transaction_id d' = my_transaction_id d"
proof (cases "ack_of mtype txid r")
  case None
  then have "send_ack me s mtype txid r d = Some d"
    by (auto simp: send_ack_def ack_of_def split: if_splits)
  then show ?thesis using assms(1) None by (simp add: try_put_def)
next
  case (Some m)
  have h: "me < 5" "s < 5" "me \<noteq> s" using assms(2) by (auto simp: distinct_harts_def)
  obtain ok d' where send: "IPI_Send me s (msg_type m) txid (immediate_arg m) 0 0 d = Some (ok, d')"
    using IPI_Send_wf [OF assms(1) h] by blast
  have m: "m = \<lparr>msg_type = msg_type m, transaction_id = txid, immediate_arg = immediate_arg m,
      p_extended_buffer_in_ddr = 0, p_ancilliary_buffer_in_ddr = 0\<rparr>"
    using Some by (auto simp: ack_of_def split: if_splits)
  have "send_ack me s mtype txid r d = Some d'"
    using Some send by (cases r) (auto simp: send_ack_def ack_of_def split: if_splits)
  moreover have "slots_of me s d' = try_put (Some m) (slots_of me s d)"
    using IPI_Send_slots(1) [OF assms send] m
    by (auto simp: try_put_def split: option.splits)
  ultimately show ?thesis
    using IPI_Send_slots(2-5) [OF assms send] Some by auto
qed

definition registry_ok :: "'x ipi_registry \<Rightarrow> bool" where
  "registry_ok reg \<longleftrightarrow> map fst reg = ipi_messages"

lemma registry_okD:
  assumes "registry_ok reg"
  shows "msg_num m < length reg" "fst (reg ! msg_num m) = m"
proof -
  have l: "length reg = 20"
    using arg_cong [OF assms [unfolded registry_ok_def], of length]
    by (simp add: ipi_messages_def)
  then show "msg_num m < length reg" using msg_num_less by simp
  then have "map fst reg ! msg_num m = fst (reg ! msg_num m)" by simp
  then show "fst (reg ! msg_num m) = m" using assms by (simp add: registry_ok_def)
qed

definition pre_consume :: "hart_id \<Rightarrow> hart_id \<Rightarrow> IPI_Data \<Rightarrow> IPI_Data" where
  "pre_consume s me d = dec_count (IPI_CalculateQueueIndex s me)
     (bump me (\<lambda>p. p\<lparr>consume_intents := consume_intents p + 1\<rparr>) d)"

lemma pre_consume_simps [simp]:
  "ipi_wf d \<Longrightarrow> distinct_harts s me \<Longrightarrow> ipi_wf (pre_consume s me d)"
  "ipi_completes (pre_consume s me d) = ipi_completes d"
  "my_transaction_id (pre_consume s me d) = my_transaction_id d"
  "j < length (ipi_queues d) \<Longrightarrow> msgQ (ipi_queues (pre_consume s me d) ! j) = msgQ (ipi_queues d ! j)"
  by (simp_all add: pre_consume_def dec_count_wf queue_index_less distinct_harts_def)

lemma clear_slot_slots:
  assumes "ipi_wf d" "distinct_harts s t"
  shows "slots_of s t (clear_slot (IPI_CalculateQueueIndex s t) k d) =
      (slots_of s t d)[k := (slots_of s t d ! k)\<lparr>msg_type := IPI_MSG_NO_MESSAGE\<rparr>]"
    "distinct_harts a b \<Longrightarrow> (a, b) \<noteq> (s, t) \<Longrightarrow>
      slots_of a b (clear_slot (IPI_CalculateQueueIndex s t) k d) = slots_of a b d"
    "ipi_wf (clear_slot (IPI_CalculateQueueIndex s t) k d)"
    "ipi_completes (clear_slot i k d) = ipi_completes d"
    "my_transaction_id (clear_slot i k d) = my_transaction_id d"
proof -
  have i: "IPI_CalculateQueueIndex s t < 20"
    using assms(2) by (simp add: distinct_harts_def queue_index_less)
  show "slots_of s t (clear_slot (IPI_CalculateQueueIndex s t) k d) =
      (slots_of s t d)[k := (slots_of s t d ! k)\<lparr>msg_type := IPI_MSG_NO_MESSAGE\<rparr>]"
    using i assms(1) by (simp add: clear_slot_def ipi_wfD)
  show "ipi_wf (clear_slot (IPI_CalculateQueueIndex s t) k d)"
    using clear_slot_wf [OF assms(1) i] .
  assume ab: "distinct_harts a b" "(a, b) \<noteq> (s, t)"
  then have "IPI_CalculateQueueIndex a b \<noteq> IPI_CalculateQueueIndex s t"
    using assms(2) queue_index_inj [of a b s t] by (auto simp: distinct_harts_def)
  then show "slots_of a b (clear_slot (IPI_CalculateQueueIndex s t) k d) = slots_of a b d"
    by (simp add: clear_slot_def)
qed (simp_all add: clear_slot_def)

text \<open>A consume whose handler leaves the queues alone.\<close>

lemma IPI_ConsumeIntent_slots:
  assumes wf: "ipi_wf d" and h: "distinct_harts s me" and reg: "registry_ok reg"
    and hd: "snd (reg ! msg_num mtype) = Some handler"
    and tk: "slot_take mtype (slots_of s me d) = Some (m, q)"
    and run: "handler (transaction_id m) s (immediate_arg m) (p_extended_buffer_in_ddr m)
      (p_ancilliary_buffer_in_ddr m) (pre_consume s me d, x) = Some (r, e, y)"
    and fr: "ipi_wf e" "ipi_queues e = ipi_queues (pre_consume s me d)"
  shows "\<exists>d'. IPI_ConsumeIntent reg me s mtype (d, x) = Some (True, d', y) \<and> ipi_wf d' \<and>
    slots_of s me d' = q \<and>
    slots_of me s d' = try_put (ack_of mtype (transaction_id m) r) (slots_of me s d) \<and>
    (\<forall>a b. distinct_harts a b \<longrightarrow> (a, b) \<noteq> (me, s) \<longrightarrow> (a, b) \<noteq> (s, me) \<longrightarrow>
       slots_of a b d' = slots_of a b d) \<and>
    ipi_completes d' = ipi_completes e \<and> my_transaction_id d' = my_transaction_id e"
proof -
  let ?i = "IPI_CalculateQueueIndex s me"
  have i: "?i < length (ipi_queues d)"
    using wf h by (simp add: distinct_harts_def queue_index_less ipi_wfD)
  have h': "distinct_harts me s" "me \<noteq> s" using h by (auto simp: distinct_harts_def)
  obtain k where k: "find_index (\<lambda>m. msg_type m = mtype) (slots_of s me d) = Some k"
    "m = slots_of s me d ! k" "q = (slots_of s me d)[k := m\<lparr>msg_type := IPI_MSG_NO_MESSAGE\<rparr>]"
    using tk by (auto simp: slot_take_def)
  have mt: "msg_type m = mtype" using find_index_SomeD [OF k(1)] k(2) by simp
  have same: "slots_of a b e = slots_of a b d" if "distinct_harts a b" for a b
    using that fr(2) wf by (simp add: distinct_harts_def queue_index_less ipi_wfD)
  obtain d1 where d1: "send_ack me s mtype (transaction_id m) r e = Some d1" "ipi_wf d1"
    "slots_of me s d1 = try_put (ack_of mtype (transaction_id m) r) (slots_of me s e)"
    "\<forall>a b. distinct_harts a b \<longrightarrow> (a, b) \<noteq> (me, s) \<longrightarrow> slots_of a b d1 = slots_of a b e"
    "ipi_completes d1 = ipi_completes e" "my_transaction_id d1 = my_transaction_id e"
    using send_ack_slots [OF fr(1) h'(1)] by blast
  have pre: "pre_consume s me d = dec_count ?i (bump me (\<lambda>p. p\<lparr>consume_intents := consume_intents p + 1\<rparr>) d)"
    by (simp add: pre_consume_def)
  have "IPI_ConsumeIntent reg me s mtype (d, x) = Some (True, clear_slot ?i k d1, y)"
    unfolding IPI_ConsumeIntent_def
    using i registry_okD [OF reg, of mtype] hd k(1,2) run same [OF h] d1(1) mt
    by (simp add: Let_def flip: pre)
  moreover have "slots_of s me d1 = slots_of s me d" using d1(4) h h'(2) same [OF h] by auto
  ultimately show ?thesis
    using clear_slot_slots [OF d1(2) h] d1 k h' same [OF h'(1)] same by auto
qed

section \<open>The bus as bags of messages\<close>

text \<open>The abstract bus: a bag of messages for every direction between two harts.\<close>

type_synonym bus = "hart_id \<times> hart_id \<Rightarrow> IPI_Outbox_Msg multiset"

definition bus_of :: "IPI_Data \<Rightarrow> bus" where
  "bus_of d = (\<lambda>(s, t). if distinct_harts s t then slot_bag (slots_of s t d) else {#})"

lemma bus_of_apply: "distinct_harts s t \<Longrightarrow> bus_of d (s, t) = slot_bag (slots_of s t d)"
  by (simp add: bus_of_def)

lemma length_slots: "ipi_wf d \<Longrightarrow> distinct_harts s t \<Longrightarrow> length (slots_of s t d) = 4"
  by (simp add: distinct_harts_def queue_index_less ipi_wfD)

lemma bus_of_eqI:
  assumes "\<And>a b. distinct_harts a b \<Longrightarrow> (a, b) \<noteq> (s, t) \<Longrightarrow> slots_of a b d' = slots_of a b d"
    and "distinct_harts s t"
  shows "bus_of d' = (bus_of d)((s, t) := slot_bag (slots_of s t d'))"
  using assms by (auto simp: bus_of_def fun_eq_iff)

lemma send_refines:
  assumes "ipi_wf d" "distinct_harts me t" "is_message m"
  shows "\<exists>r d'. IPI_Send me t (msg_type m) (transaction_id m) (immediate_arg m)
      (p_extended_buffer_in_ddr m) (p_ancilliary_buffer_in_ddr m) d = Some (r, d') \<and> ipi_wf d' \<and>
    (r \<longleftrightarrow> size (bus_of d (me, t)) < 4) \<and>
    bus_of d' = (if r then (bus_of d)((me, t) := add_mset m (bus_of d (me, t))) else bus_of d)"
proof -
  have h: "me < 5" "t < 5" "me \<noteq> t" using assms(2) by (auto simp: distinct_harts_def)
  obtain r d' where send: "IPI_Send me t (msg_type m) (transaction_id m) (immediate_arg m)
      (p_extended_buffer_in_ddr m) (p_ancilliary_buffer_in_ddr m) d = Some (r, d')"
    using IPI_Send_wf [OF assms(1) h] by blast
  note s = IPI_Send_slots [OF assms(1,2) send]
  note len = length_slots [OF assms(1,2)]
  have put: "(r, slots_of me t d') = (case slot_put m (slots_of me t d) of
      None \<Rightarrow> (False, slots_of me t d) | Some q \<Rightarrow> (True, q))"
    using s(1) by simp
  have bus': "bus_of d' = (bus_of d)((me, t) := slot_bag (slots_of me t d'))"
    by (rule bus_of_eqI [OF s(2) assms(2)])
  show ?thesis
  proof (cases "slot_put m (slots_of me t d)")
    case None
    then have "size (slot_bag (slots_of me t d)) = 4" using slots.put_iff [OF len] by simp
    moreover have "slots_of me t d' = slots_of me t d" using put None by simp
    then have "bus_of d' = bus_of d"
      using bus' bus_of_apply [OF assms(2), of d] by (simp add: fun_upd_idem)
    ultimately show ?thesis using send s(3) put None assms(2)
      by (intro exI [of _ r] exI [of _ d']) (simp add: bus_of_apply)
  next
    case (Some q)
    then have "size (slot_bag (slots_of me t d)) \<noteq> 4"
      using slots.put_iff [OF len, of m] by (metis option.distinct(1))
    then have "size (slot_bag (slots_of me t d)) < 4" using slots.bounded [OF len] by simp
    then show ?thesis
      using send s(3) put Some slots.put_contents [OF len assms(3) Some] assms(2) bus'
      by (intro exI [of _ r] exI [of _ d']) (simp add: bus_of_apply)
  qed
qed

section \<open>Traffic over one direction\<close>

text \<open>
  An observer of the bus: every handler logs the message it is given and asks for no
  acknowledgement. \<open>traffic\<close> runs sends of one hart and consumes of another.
\<close>

definition log_handler :: "IPIMessagesEnum \<Rightarrow> IPI_Outbox_Msg multiset ipi_handler" where
  "log_handler ty txid source imm ext anc = (\<lambda>(d, seen). Some (IPI_IDLE, d,
     add_mset \<lparr>msg_type = ty, transaction_id = txid, immediate_arg = imm,
       p_extended_buffer_in_ddr = ext, p_ancilliary_buffer_in_ddr = anc\<rparr> seen))"

definition log_registry :: "IPI_Outbox_Msg multiset ipi_registry" where
  "log_registry = map (\<lambda>ty. (ty, Some (log_handler ty))) ipi_messages"

fun traffic :: "hart_id \<Rightarrow> hart_id \<Rightarrow> (IPI_Outbox_Msg, IPIMessagesEnum) mailbox_op list
    \<Rightarrow> IPI_Data \<Rightarrow> IPI_Outbox_Msg multiset \<Rightarrow> IPI_Outbox_Msg multiset
    \<Rightarrow> (IPI_Data \<times> IPI_Outbox_Msg multiset \<times> IPI_Outbox_Msg multiset) option" where
  "traffic s t [] d accepted seen = Some (d, accepted, seen)"
| "traffic s t (Put m # ops) d accepted seen =
     do { (r, d) \<leftarrow> IPI_Send s t (msg_type m) (transaction_id m) (immediate_arg m)
            (p_extended_buffer_in_ddr m) (p_ancilliary_buffer_in_ddr m) d;
          traffic s t ops d (if r then add_mset m accepted else accepted) seen }"
| "traffic s t (Take ty # ops) d accepted seen =
     do { (r, d, seen) \<leftarrow> IPI_ConsumeIntent log_registry t s ty (d, seen);
          traffic s t ops d accepted seen }"

lemma registry_ok_log: "registry_ok log_registry"
  by (simp add: registry_ok_def log_registry_def comp_def)

lemma log_registry_handler: "snd (log_registry ! msg_num ty) = Some (log_handler ty)"
proof -
  have "msg_num ty < length ipi_messages"
    using registry_okD(1) [OF registry_ok_log, of ty] by (simp add: log_registry_def)
  then show ?thesis by (simp add: log_registry_def)
qed

lemma consume_nothing:
  assumes "ipi_wf d" "distinct_harts s me" "registry_ok reg" "snd (reg ! msg_num ty) = Some h"
    and "slot_take ty (slots_of s me d) = None"
  shows "IPI_ConsumeIntent reg me s ty (d, x) = Some (False, d, x)"
proof -
  have "find_index (\<lambda>m. msg_type m = ty) (slots_of s me d) = None"
    using assms(5) by (simp add: slot_take_def)
  moreover have "IPI_CalculateQueueIndex s me < length (ipi_queues d)"
    using assms(1,2) by (simp add: distinct_harts_def queue_index_less ipi_wfD)
  ultimately show ?thesis
    using registry_okD [OF assms(3), of ty] assms(4) by (simp add: IPI_ConsumeIntent_def Let_def)
qed

lemma traffic_simulates:
  assumes "ipi_wf d" "distinct_harts s t"
  shows "\<exists>d'. traffic s t ops d acc seen =
      Some (d', acc + fst (slots.run ops (slots_of s t d)), seen + fst (snd (slots.run ops (slots_of s t d)))) \<and>
    ipi_wf d' \<and> slots_of s t d' = snd (snd (slots.run ops (slots_of s t d)))"
  using assms(1)
proof (induction ops arbitrary: d acc seen)
  case Nil
  then show ?case by simp
next
  case (Cons op ops)
  show ?case
  proof (cases op)
    case (Put m)
    have h: "s < 5" "t < 5" "s \<noteq> t" using assms(2) by (auto simp: distinct_harts_def)
    obtain r d1 where send: "IPI_Send s t (msg_type m) (transaction_id m) (immediate_arg m)
        (p_extended_buffer_in_ddr m) (p_ancilliary_buffer_in_ddr m) d = Some (r, d1)"
      using IPI_Send_wf [OF Cons.prems h] by blast
    note sl = IPI_Send_slots [OF Cons.prems assms(2) send]
    show ?thesis
      using Put send sl(1) Cons.IH [OF sl(3), of acc] Cons.IH [OF sl(3), of "add_mset m acc"]
      by (cases "slot_put m (slots_of s t d)") (auto split: prod.splits)
  next
    case (Take ty)
    show ?thesis
    proof (cases "slot_take ty (slots_of s t d)")
      case None
      then show ?thesis
        using Take Cons.IH [OF Cons.prems]
          consume_nothing [OF Cons.prems assms(2) registry_ok_log log_registry_handler]
        by simp
    next
      case (Some mq)
      obtain m q where mq: "mq = (m, q)" by (cases mq)
      have ty: "msg_type m = ty"
        using Some mq by (auto simp: slot_take_def dest: find_index_SomeD)
      obtain d1 where d1: "IPI_ConsumeIntent log_registry t s ty (d, seen) = Some (True, d1, add_mset m seen)"
        "ipi_wf d1" "slots_of s t d1 = q"
        using IPI_ConsumeIntent_slots [OF Cons.prems assms(2) registry_ok_log log_registry_handler
            Some [unfolded mq], of seen IPI_IDLE "pre_consume s t d" "add_mset m seen"]
          Cons.prems assms(2) ty
        by (auto simp: log_handler_def)
      show ?thesis
        using Take Some mq d1 Cons.IH [OF d1(2), of acc "add_mset m seen"]
        by (auto split: prod.splits)
    qed
  qed
qed

section \<open>Properties\<close>

text \<open>
  \<open>IPI_CalculateQueueIndex\<close> gives every ordered pair of different harts a queue
  of its own: it is a bijection between the 20 directions and the 20 queues.
\<close>

theorem queue_index_bijection:
  "bij_betw (\<lambda>(s, t). IPI_CalculateQueueIndex s t)
     {(s, t). s < MAX_NUM_HARTS \<and> t < MAX_NUM_HARTS \<and> s \<noteq> t} {..< IPI_OUTBOX_NUM_QUEUES}"
proof -
  let ?f = "\<lambda>(s, t). IPI_CalculateQueueIndex s t"
  let ?g = "\<lambda>i::nat. (i div 4, if i mod 4 < i div 4 then i mod 4 else i mod 4 + 1)"
  show ?thesis
  proof (rule bij_betw_byWitness [where f' = ?g])
    show "\<forall>p \<in> {(s, t). s < 5 \<and> t < 5 \<and> s \<noteq> t}. ?g (?f p) = p"
      using queue_index_parts by fastforce
    show "\<forall>i \<in> {..<20}. ?f (?g i) = i"
      by (auto simp: IPI_CalculateQueueIndex_def Let_def)
    show "?f ` {(s, t). s < 5 \<and> t < 5 \<and> s \<noteq> t} \<subseteq> {..<20}"
      using queue_index_less by auto
    show "?g ` {..<20} \<subseteq> {(s, t). s < 5 \<and> t < 5 \<and> s \<noteq> t}"
    proof (intro image_subsetI)
      fix i :: nat assume "i \<in> {..<20}"
      then have "i div 4 < 5" "i mod 4 < 4" by (simp_all add: less_mult_imp_div_less)
      then show "?g i \<in> {(s, t). s < 5 \<and> t < 5 \<and> s \<noteq> t}" by auto
    qed
  qed
qed

text \<open>
  C17. A send refines "add a message to the bag of its direction": it always returns, it
  succeeds exactly when fewer than four messages are pending there, a success adds exactly that
  message, a failure changes nothing, and no other direction is touched.
\<close>

theorem ipi_send_refines_bus:
  assumes "ipi_wf d" "distinct_harts me t" "msg_type m \<noteq> IPI_MSG_NO_MESSAGE"
  shows "\<exists>r d'. IPI_Send me t (msg_type m) (transaction_id m) (immediate_arg m)
      (p_extended_buffer_in_ddr m) (p_ancilliary_buffer_in_ddr m) d = Some (r, d') \<and> ipi_wf d' \<and>
    (r \<longleftrightarrow> size (bus_of d (me, t)) < IPI_MAX_NUM_QUEUE_MESSAGES) \<and>
    bus_of d' = (if r then (bus_of d)((me, t) := add_mset m (bus_of d (me, t))) else bus_of d)"
  using assms by (rule send_refines)

definition bus_init :: IPI_Data where
  "bus_init = fst (snd (IPI_QueuesInit
     \<lparr>ipi_version = 0, ipi_queues = [], ipi_completes = [], txId_last = [], txId_shadow = [],
      my_transaction_id = [], mpfs_ipi_privateData = [], msip = replicate 5 0\<rparr> triggerStatus_init))"

lemma bus_init_wf: "ipi_wf bus_init"
  unfolding bus_init_def by (rule IPI_QueuesInit_wf) simp

lemma bus_init_slots: "i < 20 \<Longrightarrow> msgQ (ipi_queues bus_init ! i) = replicate 4 zero_Msg"
  by (simp add: bus_init_def IPI_QueuesInit_def del: replicate.simps)

lemma bus_init_empty: "bus_of bus_init (s, t) = {#}"
  by (simp add: bus_of_def distinct_harts_def queue_index_less bus_init_slots slot_bag_def zero_Msg_def
      del: replicate.simps)

theorem ipi_send_refines_bus_witness:
  "\<exists>d'. IPI_Send 0 3 IPI_MSG_GOTO 7 1 0x80000000 0 bus_init = Some (True, d') \<and>
    bus_of d' (0, 3) = {#\<lparr>msg_type = IPI_MSG_GOTO, transaction_id = 7, immediate_arg = 1,
      p_extended_buffer_in_ddr = 0x80000000, p_ancilliary_buffer_in_ddr = 0\<rparr>#} \<and>
    bus_of d' (3, 0) = {#}"
  using ipi_send_refines_bus [OF bus_init_wf, of 0 3 "\<lparr>msg_type = IPI_MSG_GOTO, transaction_id = 7,
      immediate_arg = 1, p_extended_buffer_in_ddr = 0x80000000, p_ancilliary_buffer_in_ddr = 0\<rparr>"]
  by (auto simp: bus_init_empty distinct_harts_def)



end
