(* ===== verification/Ipi_Protocol.thy ===== *)
theory Ipi_Protocol
  imports Ipi_Bus
begin

text \<open>
  Transactions on the message bus: allocation, delivery, acknowledgement, completion, and the
  safety of every interleaving of the bus operations of the five harts.
\<close>

section \<open>Allocation\<close>

lemma IPI_MessageAlloc_None:
  "fst (IPI_MessageAlloc me d) = None \<longleftrightarrow> (\<forall>c \<in> set (ipi_completes d). used c)"
  by (simp add: IPI_MessageAlloc_def Let_def find_index_None_iff split: option.split)
    (metis find_index_None_iff option.distinct(1))

lemma IPI_MessageAlloc_SomeD:
  assumes "IPI_MessageAlloc me d = (Some i, d')"
  shows "i < length (ipi_completes d)" "\<not> used (ipi_completes d ! i)"
    "\<forall>j < i. used (ipi_completes d ! j)"
    "ipi_completes d' = (ipi_completes d)[i := \<lparr>used = True,
       ctransaction_id = my_transaction_id d ! me, cstatus = IPI_PENDING\<rparr>]"
    "my_transaction_id d' = (my_transaction_id d)[me := my_transaction_id d ! me + 1]"
    "ipi_queues d' = ipi_queues d"
  using assms
  by (auto simp: IPI_MessageAlloc_def Let_def split: option.splits dest: find_index_SomeD)

lemma take_unique:
  assumes "length q = 4" "slot_put m q = Some q'" "is_message m"
    and "\<forall>n \<in># slot_bag q. msg_type n \<noteq> msg_type m"
  shows "\<exists>q''. slot_take (msg_type m) q' = Some (m, q'') \<and> slot_bag q'' = slot_bag q"
proof -
  have q': "length q' = 4" "slot_bag q' = add_mset m (slot_bag q)"
    using slots.put_good [OF assms(1,2)] slots.put_contents [OF assms(1,3,2)] by simp_all
  then have "slot_take (msg_type m) q' \<noteq> None"
    using slots.take_iff [OF q'(1) assms(3)] by auto
  then obtain n q'' where n: "slot_take (msg_type m) q' = Some (n, q'')" by auto
  have c: "msg_type n = msg_type m" "slot_bag q' = add_mset n (slot_bag q'')"
    using slots.take_contents [OF q'(1) assms(3) n] by auto
  have "n \<in># slot_bag q'" using c(2) by simp
  then have "n = m" using q'(2) c(1) assms(4) by auto
  then show ?thesis using n c(2) q'(2) by simp
qed

lemma room:
  assumes "ipi_wf d" "distinct_harts s t" "size (bus_of d (s, t)) < 4"
  shows "\<exists>q. slot_put m (slots_of s t d) = Some q"
proof -
  have "slot_put m (slots_of s t d) \<noteq> None"
    using slots.put_iff [OF length_slots [OF assms(1,2)]] assms(3) by (simp add: bus_of_apply [OF assms(2)])
  then show ?thesis by simp
qed

lemma update_status_fresh:
  assumes "ipi_completes d = cs[i := c]" "i < length cs" "ctransaction_id c = tx"
    and "\<forall>c \<in> set cs. ctransaction_id c \<noteq> tx"
  shows "IPI_MessageUpdateStatus tx s d = (True, d\<lparr>ipi_completes := cs[i := c\<lparr>cstatus := s\<rparr>]\<rparr>)"
proof -
  have "find_index (\<lambda>c. ctransaction_id c = tx) (cs[i := c]) = Some i"
    using assms(2-4) by (intro find_index_SomeI) auto
  then show ?thesis using assms(1,2) by (simp add: IPI_MessageUpdateStatus_def)
qed

lemma check_complete:
  "ipi_completes d = cs[i := c] \<Longrightarrow> i < length cs \<Longrightarrow> length cs = 16 \<Longrightarrow> used c \<Longrightarrow>
    IPI_MessageCheckIfComplete i d = Some (cstatus c \<noteq> IPI_PENDING)"
  by (simp add: IPI_MessageCheckIfComplete_def)

section \<open>The acknowledgement protocol\<close>

definition ack_type :: "IPIStatusCode \<Rightarrow> IPIMessagesEnum" where
  "ack_type r = (if r = IPI_PENDING then IPI_MSG_ACK_PENDING else IPI_MSG_ACK_COMPLETE)"

text \<open>The message types whose handling is acknowledged.\<close>

definition acked_type :: "IPIMessagesEnum \<Rightarrow> bool" where
  "acked_type t \<longleftrightarrow>
     t \<notin> {IPI_MSG_NO_MESSAGE, IPI_MSG_ACK_COMPLETE, IPI_MSG_ACK_PENDING, IPI_MSG_BOOT_REQUEST}"

text \<open>Both directions are ready for one transaction of type \<open>t\<close> from \<open>a\<close>
  to \<open>b\<close>.\<close>

definition ready_for :: "hart_id \<Rightarrow> hart_id \<Rightarrow> IPIMessagesEnum \<Rightarrow> IPI_Data \<Rightarrow> bool" where
  "ready_for a b t d \<longleftrightarrow>
     size (bus_of d (a, b)) < 4 \<and> (\<forall>m \<in># bus_of d (a, b). msg_type m \<noteq> t) \<and>
     size (bus_of d (b, a)) < 4 \<and>
     (\<forall>m \<in># bus_of d (b, a). msg_type m \<noteq> IPI_MSG_ACK_COMPLETE \<and> msg_type m \<noteq> IPI_MSG_ACK_PENDING) \<and>
     (\<exists>c \<in> set (ipi_completes d). \<not> used c) \<and>
     (\<forall>c \<in> set (ipi_completes d). ctransaction_id c \<noteq> my_transaction_id d ! a)"

lemma deliver_step:
  assumes "ipi_wf d" "distinct_harts a b" "i < 16" "used (ipi_completes d ! i)"
    and "slot_put \<lparr>msg_type = t, transaction_id = ctransaction_id (ipi_completes d ! i),
      immediate_arg = imm, p_extended_buffer_in_ddr = ext, p_ancilliary_buffer_in_ddr = anc\<rparr>
      (slots_of a b d) = Some q"
  shows "\<exists>d'. IPI_MessageDeliver a i b t imm ext anc d = Some (True, d') \<and> ipi_wf d' \<and>
    slots_of a b d' = q \<and> slots_of b a d' = slots_of b a d \<and>
    ipi_completes d' = ipi_completes d \<and> my_transaction_id d' = my_transaction_id d"
proof -
  have h: "a < 5" "b < 5" "a \<noteq> b" "distinct_harts b a" using assms(2) by (auto simp: distinct_harts_def)
  obtain r d1 where send: "IPI_Send a b t (ctransaction_id (ipi_completes d ! i)) imm ext anc d = Some (r, d1)"
    using IPI_Send_wf [OF assms(1) h(1-3)] by blast
  note s = IPI_Send_slots [OF assms(1,2) send]
  have "r" "slots_of a b d1 = q" using s(1) assms(5) by simp_all
  moreover have "slots_of b a d1 = slots_of b a d" using s(2) [OF h(4)] h(3) by simp
  ultimately show ?thesis
    using assms(1,3,4) send s(3-5) by (simp add: IPI_MessageDeliver_def ipi_wfD)
qed

lemma ack_handler_run:
  "IPI_ACK_IPIHandler tx s imm ext anc (e, x) =
    Some (IPI_SUCCESS, snd (IPI_MessageUpdateStatus tx IPI_IDLE e), x)"
  by (simp add: IPI_ACK_IPIHandler_def)

lemma protocol_run:
  assumes wf: "ipi_wf d" and h: "distinct_harts a b" and reg: "registry_ok reg"
    and hd: "snd (reg ! msg_num t) = Some handler" and t: "acked_type t"
    and ack: "snd (reg ! msg_num (ack_type r)) = Some IPI_ACK_IPIHandler"
    and quiet: "\<And>e y. handler (my_transaction_id d ! a) a imm ext anc (e, y) = Some (r, e, g y)"
    and r: "r \<noteq> IPI_IDLE" and ready: "ready_for a b t d"
  shows "\<exists>i d1 d2 d3 d4.
    IPI_MessageAlloc a d = (Some i, d1) \<and>
    IPI_MessageDeliver a i b t imm ext anc d1 = Some (True, d2) \<and>
    IPI_MessageCheckIfComplete i d2 = Some False \<and>
    IPI_ConsumeIntent reg b a t (d2, x) = Some (True, d3, g x) \<and>
    IPI_MessageCheckIfComplete i d3 = Some False \<and>
    IPI_ConsumeIntent reg a b (ack_type r) (d3, y) = Some (True, d4, y) \<and>
    IPI_MessageCheckIfComplete i d4 = Some True"
proof -
  let ?tx = "my_transaction_id d ! a"
  let ?c = "\<lparr>used = True, ctransaction_id = ?tx, cstatus = IPI_PENDING\<rparr>"
  let ?m = "\<lparr>msg_type = t, transaction_id = ?tx, immediate_arg = imm,
    p_extended_buffer_in_ddr = ext, p_ancilliary_buffer_in_ddr = anc\<rparr>"
  let ?k = "\<lparr>msg_type = ack_type r, transaction_id = ?tx, immediate_arg = status_num r,
    p_extended_buffer_in_ddr = 0, p_ancilliary_buffer_in_ddr = 0\<rparr>"
  have h': "distinct_harts b a" using h by (auto simp: distinct_harts_def)
  have len: "length (ipi_completes d) = 16" using wf by (simp add: ipi_wfD)
  have "fst (IPI_MessageAlloc a d) \<noteq> None"
    using IPI_MessageAlloc_None [of a d] ready by (auto simp: ready_for_def)
  then obtain i d1 where al: "IPI_MessageAlloc a d = (Some i, d1)"
    by (cases "IPI_MessageAlloc a d") auto
  note A = IPI_MessageAlloc_SomeD [OF al]
  have wf1: "ipi_wf d1" using IPI_MessageAlloc_wf [OF wf, of a] al by simp
  have i: "i < 16" using A(1) len by simp
  have c1: "ipi_completes d1 ! i = ?c" using A(1,4) by simp
  obtain q1 where q1: "slot_put ?m (slots_of a b d) = Some q1"
    using room [OF wf h] ready unfolding ready_for_def by blast
  obtain d2 where d2: "IPI_MessageDeliver a i b t imm ext anc d1 = Some (True, d2)" "ipi_wf d2"
    "slots_of a b d2 = q1" "slots_of b a d2 = slots_of b a d" "ipi_completes d2 = ipi_completes d1"
    using deliver_step [OF wf1 h i, of t imm ext anc q1] c1 q1 A(6) by auto
  obtain q2 where q2: "slot_take t q1 = Some (?m, q2)"
    using take_unique [OF length_slots [OF wf h] q1] t ready
    by (auto simp: acked_type_def ready_for_def bus_of_apply [OF h])
  have ackm: "ack_of t ?tx r = Some ?k"
    using t r by (auto simp: ack_of_def acked_type_def ack_type_def)
  obtain q3 where q3: "slot_put ?k (slots_of b a d) = Some q3"
    using room [OF wf h'] ready unfolding ready_for_def by blast
  obtain d3 where d3: "IPI_ConsumeIntent reg b a t (d2, x) = Some (True, d3, g x)" "ipi_wf d3"
    "slots_of b a d3 = q3" "ipi_completes d3 = ipi_completes d1"
    using IPI_ConsumeIntent_slots [OF d2(2) h reg hd, of ?m q2 x r "pre_consume a b d2" "g x"]
      q2 d2(2-5) quiet q3 ackm h by (auto simp: try_put_def)
  have noack: "\<forall>n \<in># slot_bag (slots_of b a d). msg_type n \<noteq> ack_type r"
    "ack_type r \<noteq> IPI_MSG_NO_MESSAGE"
    using ready by (simp_all add: ready_for_def bus_of_apply [OF h'] ack_type_def)
  obtain q4 where q4: "slot_take (ack_type r) q3 = Some (?k, q4)"
    using take_unique [OF length_slots [OF wf h'] q3] noack by auto
  have fresh: "\<forall>c \<in> set (ipi_completes d). ctransaction_id c \<noteq> ?tx"
    using ready by (simp add: ready_for_def)
  let ?e = "(pre_consume b a d3)\<lparr>ipi_completes := (ipi_completes d)[i := ?c\<lparr>cstatus := IPI_IDLE\<rparr>]\<rparr>"
  have upd: "IPI_MessageUpdateStatus ?tx IPI_IDLE (pre_consume b a d3) = (True, ?e)"
    using d3(4) A(1,4) fresh by (intro update_status_fresh) simp_all
  have wfe: "ipi_wf ?e"
    using IPI_MessageUpdateStatus_wf [of "pre_consume b a d3" ?tx IPI_IDLE] upd d3(2) h' by simp
  obtain d4 where d4: "IPI_ConsumeIntent reg a b (ack_type r) (d3, y) = Some (True, d4, y)"
    "ipi_completes d4 = (ipi_completes d)[i := ?c\<lparr>cstatus := IPI_IDLE\<rparr>]"
    using IPI_ConsumeIntent_slots [OF d3(2) h' reg ack, of ?k q4 y IPI_SUCCESS ?e y]
      q4 d3(3) upd wfe by (auto simp: ack_handler_run)
  show ?thesis
    using al d2(1,5) d3(1,4) d4 A(1,4) len
      check_complete [of d2 "ipi_completes d" i ?c] check_complete [of d3 "ipi_completes d" i ?c]
      check_complete [of d4 "ipi_completes d" i "?c\<lparr>cstatus := IPI_IDLE\<rparr>"]
    by auto
qed

section \<open>Every interleaving is safe\<close>

text \<open>
  The operations the harts perform on the bus, and the ones that make sense: between two
  different harts, on a slot of the pool, freeing only what is in use.
\<close>

datatype bus_op =
    Op_Send hart_id hart_id IPIMessagesEnum TxId_t u32 u64 u64
  | Op_Poll hart_id u32
  | Op_Consume hart_id hart_id IPIMessagesEnum
  | Op_Alloc hart_id
  | Op_Deliver hart_id nat hart_id IPIMessagesEnum u32 u64 u64
  | Op_Check nat
  | Op_Update TxId_t IPIStatusCode
  | Op_Free hart_id nat
  | Op_ClearMSIP hart_id

fun bus_exec :: "'x ipi_registry \<Rightarrow> bus_op \<Rightarrow> IPI_Data \<times> 'x \<Rightarrow> (IPI_Data \<times> 'x) option" where
  "bus_exec reg (Op_Send me t m tx imm ext anc) (d, x) =
     map_option (\<lambda>(r, d). (d, x)) (IPI_Send me t m tx imm ext anc d)"
| "bus_exec reg (Op_Poll me mk) (d, x) = Some (snd (IPI_PollReceive me mk d), x)"
| "bus_exec reg (Op_Consume me s t) (d, x) = map_option snd (IPI_ConsumeIntent reg me s t (d, x))"
| "bus_exec reg (Op_Alloc me) (d, x) = Some (snd (IPI_MessageAlloc me d), x)"
| "bus_exec reg (Op_Deliver me i t m imm ext anc) (d, x) =
     map_option (\<lambda>(r, d). (d, x)) (IPI_MessageDeliver me i t m imm ext anc d)"
| "bus_exec reg (Op_Check i) (d, x) = map_option (\<lambda>b. (d, x)) (IPI_MessageCheckIfComplete i d)"
| "bus_exec reg (Op_Update tx s) (d, x) = Some (snd (IPI_MessageUpdateStatus tx s d), x)"
| "bus_exec reg (Op_Free me i) (d, x) = map_option (\<lambda>d. (d, x)) (IPI_MessageFree me i d)"
| "bus_exec reg (Op_ClearMSIP t) (d, x) = map_option (\<lambda>d. (d, x)) (CLINT_Clear_MSIP t d)"

fun op_valid :: "bus_op \<Rightarrow> IPI_Data \<Rightarrow> bool" where
  "op_valid (Op_Send me t m tx imm ext anc) d = distinct_harts me t"
| "op_valid (Op_Poll me mk) d = (me < 5)"
| "op_valid (Op_Consume me s t) d = distinct_harts s me"
| "op_valid (Op_Alloc me) d = (me < 5)"
| "op_valid (Op_Deliver me i t m imm ext anc) d = (distinct_harts me t \<and> i < 16)"
| "op_valid (Op_Check i) d = (i \<le> 16)"
| "op_valid (Op_Update tx s) d = True"
| "op_valid (Op_Free me i) d = (me < 5 \<and> i < 16 \<and> used (ipi_completes d ! i))"
| "op_valid (Op_ClearMSIP t) d = (t < 5)"

text \<open>A handler is safe when it returns and keeps the bus well formed.\<close>

definition handlers_safe :: "'x ipi_registry \<Rightarrow> bool" where
  "handlers_safe reg \<longleftrightarrow> (\<forall>t h. snd (reg ! msg_num t) = Some h \<longrightarrow>
     (\<forall>tx s imm ext anc d x. ipi_wf d \<longrightarrow>
        (\<exists>r d' x'. h tx s imm ext anc (d, x) = Some (r, d', x') \<and> ipi_wf d')))"

inductive bus_reachable :: "'x ipi_registry \<Rightarrow> 'x \<Rightarrow> IPI_Data \<times> 'x \<Rightarrow> bool" for reg x0 where
  init: "length (msip d) = 5 \<Longrightarrow> bus_reachable reg x0 (fst (snd (IPI_QueuesInit d tr)), x0)"
| step: "bus_reachable reg x0 (d, x) \<Longrightarrow> op_valid op d \<Longrightarrow> bus_exec reg op (d, x) = Some s
    \<Longrightarrow> bus_reachable reg x0 s"

lemma consume_safe:
  assumes wf: "ipi_wf d" and h: "distinct_harts s me" and reg: "registry_ok reg" "handlers_safe reg"
  shows "\<exists>r d' x'. IPI_ConsumeIntent reg me s t (d, x) = Some (r, d', x') \<and> ipi_wf d'"
proof -
  let ?i = "IPI_CalculateQueueIndex s me"
  have i: "?i < 20" "?i < length (ipi_queues d)"
    using wf h by (simp_all add: distinct_harts_def queue_index_less ipi_wfD)
  note R = registry_okD [OF reg(1), of t]
  show ?thesis
  proof (cases "snd (reg ! msg_num t)")
    case None
    then show ?thesis using R i wf by (auto simp: IPI_ConsumeIntent_def Let_def drop_unhandled_wf)
  next
    case (Some f)
    show ?thesis
    proof (cases "find_index (\<lambda>m. msg_type m = t) (msgQ (ipi_queues d ! ?i))")
      case None
      then show ?thesis using Some R i wf by (auto simp: IPI_ConsumeIntent_def Let_def)
    next
      case (Some k)
      let ?d = "pre_consume s me d" and ?m = "msgQ (ipi_queues (pre_consume s me d) ! ?i) ! k"
      obtain r e y where f: "f (transaction_id ?m) s (immediate_arg ?m) (p_extended_buffer_in_ddr ?m)
          (p_ancilliary_buffer_in_ddr ?m) (?d, x) = Some (r, e, y)" "ipi_wf e"
        using reg(2) \<open>snd (reg ! msg_num t) = Some f\<close> wf h
        unfolding handlers_safe_def by (metis pre_consume_simps(1))
      have p: "me < 5" "s < 5" "me \<noteq> s" using h by (auto simp: distinct_harts_def)
      obtain d1 where d1: "send_ack me s (msg_type (msgQ (ipi_queues e ! ?i) ! k))
          (transaction_id (msgQ (ipi_queues e ! ?i) ! k)) r e = Some d1" "ipi_wf d1"
        using send_ack_wf [OF f(2) p] by blast
      show ?thesis
        using R i Some \<open>snd (reg ! msg_num t) = Some f\<close> f d1 clear_slot_wf [OF d1(2) i(1), of k]
        unfolding IPI_ConsumeIntent_def pre_consume_def by (auto simp: Let_def)
    qed
  qed
qed

lemma bus_op_safe:
  assumes "ipi_wf d" "registry_ok reg" "handlers_safe reg" "op_valid op d"
  shows "\<exists>d' x'. bus_exec reg op (d, x) = Some (d', x') \<and> ipi_wf d'"
proof (cases op)
  case (Op_Send me t m tx imm ext anc)
  then show ?thesis
    using IPI_Send_wf [OF assms(1), of me t m tx imm ext anc] assms(4) by (auto simp: distinct_harts_def)
next
  case (Op_Consume me s t)
  then show ?thesis using consume_safe [OF assms(1) _ assms(2,3), of s me t x] assms(4) by auto
next
  case (Op_Deliver me i t m imm ext anc)
  then show ?thesis
    using IPI_Send_wf [OF assms(1), of me t m "ctransaction_id (ipi_completes d ! i)" imm ext anc] assms(1,4)
    by (cases "used (ipi_completes d ! i)") (auto simp: distinct_harts_def IPI_MessageDeliver_def ipi_wfD)
qed (use assms in \<open>auto simp: IPI_PollReceive_wf IPI_MessageAlloc_wf IPI_MessageUpdateStatus_wf
  IPI_MessageCheckIfComplete_def IPI_MessageFree_def CLINT_Clear_MSIP_def clint_set_MSIP_def ipi_wfD\<close>)

lemma bus_reachable_wf:
  assumes "bus_reachable reg x0 s" "registry_ok reg" "handlers_safe reg"
  shows "ipi_wf (fst s)"
  using assms(1)
proof (induction rule: bus_reachable.induct)
  case (init d tr)
  then show ?case by (simp add: IPI_QueuesInit_wf)
next
  case (step d x op s)
  then obtain d' x' where "bus_exec reg op (d, x) = Some (d', x')" "ipi_wf d'"
    using bus_op_safe [OF _ assms(2,3), of d op x] by auto
  then show ?case using step.hyps(3) by simp
qed

section \<open>Polling\<close>

abbreviation (input) new_mail :: "hart_id \<Rightarrow> IPI_Data \<Rightarrow> hart_id \<Rightarrow> bool" where
  "new_mail me d i \<equiv> txId_last d ! IPI_CalculateQueueIndex i me \<noteq> txId_shadow d ! IPI_CalculateQueueIndex i me"

lemma poll_queue_frame:
  "txId_last (snd (poll_queue j d)) = txId_last d"
  "ipi_wf d \<Longrightarrow> j < 20 \<Longrightarrow> txId_shadow (snd (poll_queue j d)) = (txId_shadow d)[j := txId_last d ! j]"
  "fst (poll_queue j d) \<longleftrightarrow> txId_shadow d ! j \<noteq> txId_last d ! j"
  by (auto simp: poll_queue_def Let_def) (metis list_update_id)

lemma poll_loop_result:
  assumes "me < 5" "ipi_wf d" "distinct is" "\<forall>i \<in> set is. i < 5"
  shows "(fst (poll_loop me mk is r d) \<longleftrightarrow> r \<or> (\<exists>i \<in> set is. i \<noteq> me \<and> bit mk i \<and> new_mail me d i)) \<and>
    txId_last (snd (poll_loop me mk is r d)) = txId_last d \<and>
    (\<forall>i < 5. i \<noteq> me \<longrightarrow> txId_shadow (snd (poll_loop me mk is r d)) ! IPI_CalculateQueueIndex i me =
       (if i \<in> set is \<and> bit mk i then txId_last d ! IPI_CalculateQueueIndex i me
        else txId_shadow d ! IPI_CalculateQueueIndex i me))"
  using assms(2-4)
proof (induction "is" arbitrary: r d)
  case Nil
  then show ?case by simp
next
  case (Cons j "is")
  show ?case
  proof (cases "j = me \<or> \<not> bit mk j")
    case True
    then show ?thesis using Cons by auto
  next
    case False
    let ?q = "IPI_CalculateQueueIndex j me"
    have j: "j < 5" "j \<noteq> me" "bit mk j" "?q < 20"
      using Cons.prems False assms(1) by (auto intro: queue_index_less)
    obtain b d1 where pq: "poll_queue ?q d = (b, d1)" by (cases "poll_queue ?q d")
    have wf1: "ipi_wf d1" using poll_queue_wf [OF Cons.prems(1) j(4)] pq by simp
    have fr: "txId_last d1 = txId_last d" "txId_shadow d1 = (txId_shadow d)[?q := txId_last d ! ?q]"
      "b \<longleftrightarrow> txId_shadow d ! ?q \<noteq> txId_last d ! ?q"
      using poll_queue_frame [where j = ?q and d = d] Cons.prems(1) j(4) pq by auto
    have ne: "IPI_CalculateQueueIndex i me \<noteq> ?q" if "i < 5" "i \<noteq> me" "i \<noteq> j" for i
      using that queue_index_inj [of i me j me] j assms(1) by auto
    have sh: "txId_shadow d1 ! ?q = txId_last d ! ?q"
      using fr(2) Cons.prems(1) j(4) by (simp add: ipi_wfD)
    have sh': "txId_shadow d1 ! IPI_CalculateQueueIndex i me = txId_shadow d ! IPI_CalculateQueueIndex i me"
      if "i < 5" "i \<noteq> me" "i \<noteq> j" for i
      using ne [OF that] fr(2) by simp
    have mem: "new_mail me d1 i \<longleftrightarrow> new_mail me d i" if i: "i \<in> set is" "i \<noteq> me" for i
    proof -
      have "i < 5" "i \<noteq> j" using i(1) Cons.prems(2,3) by auto
      then show ?thesis using sh' [OF _ i(2)] fr(1) by simp
    qed
    have e: "poll_loop me mk (j # is) r d = poll_loop me mk is (r \<or> b) d1"
      using j pq by (simp add: Let_def)
    have ih: "(fst (poll_loop me mk is (r \<or> b) d1) \<longleftrightarrow> (r \<or> b) \<or>
          (\<exists>i \<in> set is. i \<noteq> me \<and> bit mk i \<and> new_mail me d1 i)) \<and>
      txId_last (snd (poll_loop me mk is (r \<or> b) d1)) = txId_last d1 \<and>
      (\<forall>i < 5. i \<noteq> me \<longrightarrow> txId_shadow (snd (poll_loop me mk is (r \<or> b) d1)) ! IPI_CalculateQueueIndex i me =
         (if i \<in> set is \<and> bit mk i then txId_last d1 ! IPI_CalculateQueueIndex i me
          else txId_shadow d1 ! IPI_CalculateQueueIndex i me))"
      using Cons.IH [OF wf1] Cons.prems(2,3) by simp
    show ?thesis
      unfolding e using ih mem fr(1,3) sh sh' j Cons.prems(2) by auto
  qed
qed

lemma poll_result:
  assumes "me < 5" "ipi_wf d"
  shows "fst (IPI_PollReceive me mk d) \<longleftrightarrow> (\<exists>i < 5. i \<noteq> me \<and> bit mk i \<and> new_mail me d i)"
    "txId_last (snd (IPI_PollReceive me mk d)) = txId_last d"
    "i < 5 \<Longrightarrow> i \<noteq> me \<Longrightarrow> bit mk i \<Longrightarrow>
      txId_shadow (snd (IPI_PollReceive me mk d)) ! IPI_CalculateQueueIndex i me =
        txId_last d ! IPI_CalculateQueueIndex i me"
  using poll_loop_result [OF assms, of "[0..<5]" mk False]
  by (auto simp: IPI_PollReceive_def)

section \<open>Properties\<close>


lemma handlers_safe_log: "handlers_safe log_registry"
  by (simp add: handlers_safe_def log_registry_handler log_handler_def)

lemma bus_init_reachable: "bus_reachable reg x0 (bus_init, x0)"
  unfolding bus_init_def by (rule bus_reachable.init) simp



definition ack_registry :: "IPIStatusCode \<Rightarrow> nat ipi_registry" where
  "ack_registry r = map (\<lambda>t. (t, Some (if t = IPI_MSG_ACK_COMPLETE \<or> t = IPI_MSG_ACK_PENDING
     then IPI_ACK_IPIHandler else (\<lambda>tx s imm ext anc (d, n). Some (r, d, Suc n))))) ipi_messages"

lemma ack_registry_facts:
  "registry_ok (ack_registry r)"
  "snd (ack_registry r ! msg_num t) = Some (if t = IPI_MSG_ACK_COMPLETE \<or> t = IPI_MSG_ACK_PENDING
     then IPI_ACK_IPIHandler else (\<lambda>tx s imm ext anc (d, n). Some (r, d, Suc n)))"
proof -
  show ok: "registry_ok (ack_registry r)" by (simp add: registry_ok_def ack_registry_def comp_def)
  have "msg_num t < length ipi_messages"
    using registry_okD(1) [OF ok, of t] by (simp add: ack_registry_def)
  then show "snd (ack_registry r ! msg_num t) = Some (if t = IPI_MSG_ACK_COMPLETE \<or> t = IPI_MSG_ACK_PENDING
     then IPI_ACK_IPIHandler else (\<lambda>tx s imm ext anc (d, n). Some (r, d, Suc n)))"
    by (simp add: ack_registry_def)
qed

lemma bus_init_completes: "ipi_completes bus_init = replicate 16 zero_Complete"
  "my_transaction_id bus_init = replicate 5 1"
  by (simp_all add: bus_init_def IPI_QueuesInit_def del: replicate.simps)


text \<open>
  Allocation gives the lowest unused record of the pool and fails exactly when all sixteen
  are used; the new transaction is pending, carries the hart's counter, and no other record of
  the pool carries the same id while the counter has not passed it (records freed earlier
  included, so an acknowledgement finds the right one).
\<close>

theorem alloc_unique_id:
  assumes "ipi_wf d" "me < 5"
    and "\<forall>c \<in> set (ipi_completes d). ctransaction_id c < my_transaction_id d ! me"
    and "my_transaction_id d ! me < 2 ^ 32 - 1"
  shows "case IPI_MessageAlloc me d of
      (None, d') \<Rightarrow> d' = d \<and> (\<forall>c \<in> set (ipi_completes d). used c)
    | (Some i, d') \<Rightarrow> i < 16 \<and> \<not> used (ipi_completes d ! i) \<and> (\<forall>j < i. used (ipi_completes d ! j)) \<and>
        IPI_MessageCheckIfComplete i d' = Some False \<and>
        (\<forall>j < 16. j \<noteq> i \<longrightarrow> ctransaction_id (ipi_completes d' ! j) \<noteq> ctransaction_id (ipi_completes d' ! i)) \<and>
        (\<forall>c \<in> set (ipi_completes d'). ctransaction_id c < my_transaction_id d' ! me)"
proof (cases "IPI_MessageAlloc me d")
  case (Pair r d')
  show ?thesis
  proof (cases r)
    case None
    moreover have "d' = d" using Pair None by (auto simp: IPI_MessageAlloc_def Let_def split: option.splits)
    ultimately show ?thesis using Pair IPI_MessageAlloc_None [of me d] by simp
  next
    case (Some i)
    note A = IPI_MessageAlloc_SomeD [OF Pair [unfolded Some]]
    let ?t = "my_transaction_id d ! me"
    have len: "length (ipi_completes d) = 16" "me < length (my_transaction_id d)"
      using assms(1,2) by (simp_all add: ipi_wfD)
    have lt: "?t < ?t + 1" using assms(4) by (simp add: word_less_nat_alt unat_word_ariths)
    have old: "ctransaction_id (ipi_completes d ! j) < ?t" if "j < 16" for j
      using that assms(3) len by simp
    have below: "\<forall>c \<in> set (ipi_completes d'). ctransaction_id c < my_transaction_id d' ! me"
    proof
      fix c assume "c \<in> set (ipi_completes d')"
      then have "c \<in> set (ipi_completes d) \<or> ctransaction_id c = ?t"
        using A(4) set_update_subset_insert by fastforce
      then have "ctransaction_id c \<le> ?t" using assms(3) by auto
      then show "ctransaction_id c < my_transaction_id d' ! me" using lt A(5) len(2) by simp
    qed
    have "ctransaction_id (ipi_completes d' ! j) \<noteq> ctransaction_id (ipi_completes d' ! i)"
      if "j < 16" "j \<noteq> i" for j
      using that old [of j] A(1,4) len by auto
    then show ?thesis
      using Pair Some A(1-4) below len by (simp add: IPI_MessageCheckIfComplete_def)
  qed
qed

theorem alloc_unique_id_witness:
  "fst (IPI_MessageAlloc 0 bus_init) \<noteq> None"
proof -
  have "\<forall>c \<in> set (ipi_completes bus_init). ctransaction_id c < my_transaction_id bus_init ! 0"
    by (simp add: bus_init_completes zero_Complete_def del: replicate.simps)
  moreover have "my_transaction_id bus_init ! 0 < 2 ^ 32 - 1"
    by (simp add: bus_init_completes del: replicate.simps)
  ultimately have "case IPI_MessageAlloc 0 bus_init of
      (None, d') \<Rightarrow> d' = bus_init \<and> (\<forall>c \<in> set (ipi_completes bus_init). used c) | (Some i, d') \<Rightarrow> True"
    using alloc_unique_id [OF bus_init_wf, of 0] by (auto split: prod.splits option.splits)
  then show ?thesis
    by (auto simp: bus_init_completes zero_Complete_def simp del: replicate.simps split: prod.splits option.splits)
qed

text \<open>
  Polling reports mail exactly when the last transaction id of a selected queue differs
  from the one seen before. So a message sent with the id that was last seen on its queue, as a
  second acknowledgement of one transaction is, is not reported although it is pending.
\<close>

theorem poll_misses_repeated_id:
  assumes "ipi_wf d" "distinct_harts s me" "bit mk s"
    and "IPI_Send s me m tx imm ext anc (snd (IPI_PollReceive me mk d)) = Some (True, d')"
  shows "fst (IPI_PollReceive me (2 ^ s) d') \<longleftrightarrow> tx \<noteq> txId_last d ! IPI_CalculateQueueIndex s me"
proof -
  let ?d = "snd (IPI_PollReceive me mk d)" and ?i = "IPI_CalculateQueueIndex s me"
  have h: "me < 5" "s < 5" "s \<noteq> me" using assms(2) by (auto simp: distinct_harts_def)
  have wf: "ipi_wf ?d" using IPI_PollReceive_wf [OF assms(1) h(1)] .
  have sh: "txId_shadow ?d ! ?i = txId_last d ! ?i"
    using poll_result(3) [OF h(1) assms(1) h(2,3) assms(3)] .
  note S = IPI_Send_slots [OF wf assms(2,4)]
  have last: "txId_last d' ! ?i = tx"
    using IPI_Send_cases [OF wf h(2,1,3), of m tx imm ext anc] assms(4) wf
      queue_index_less [OF h(2,1,3)]
    by (auto simp: ipi_wfD split: option.splits)
  have b: "bit (2 ^ s :: u32) i \<longleftrightarrow> i = s" if "i < 5" for i
    using that h by (auto simp: bit_exp_iff)
  show ?thesis
    using poll_result(1) [OF h(1) S(3), of "2 ^ s"] b h last sh S(6) by auto
qed

lemma poll_loop_quiet:
  "(\<forall>j < 20. poll_queue j d = (False, d)) \<Longrightarrow> me < 5 \<Longrightarrow> \<forall>i \<in> set is. i < 5 \<Longrightarrow>
    poll_loop me mk is r d = (r, d)"
  by (induction "is") (auto simp: queue_index_less)

lemma poll_bus_init: "me < 5 \<Longrightarrow> IPI_PollReceive me mk bus_init = (False, bus_init)"
  unfolding IPI_PollReceive_def
  by (rule poll_loop_quiet) (auto simp: poll_queue_def bus_init_def IPI_QueuesInit_def simp del: replicate.simps)

theorem poll_misses_repeated_id_witness:
  "\<exists>d'. IPI_Send 1 0 IPI_MSG_ACK_COMPLETE 0 1 0 0 (snd (IPI_PollReceive 0 0x1E bus_init)) = Some (True, d') \<and>
    \<not> fst (IPI_PollReceive 0 (2 ^ 1) d')"
proof -
  have i: "IPI_CalculateQueueIndex 1 0 = 4" by (simp add: IPI_CalculateQueueIndex_def)
  have b: "bit (0x1E :: u32) 1" by (simp add: bit_numeral_rec)
  have "find_available_slot 4 bus_init = Some 0"
    by (simp add: find_available_slot_def bus_init_slots zero_Msg_def numeral_eq_Suc)
  then obtain d' where s: "IPI_Send 1 0 IPI_MSG_ACK_COMPLETE 0 1 0 0 bus_init = Some (True, d')"
    using IPI_Send_cases [OF bus_init_wf, of 1 0 IPI_MSG_ACK_COMPLETE 0 1 0 0] i by simp
  have "txId_last bus_init ! 4 = 0"
    by (simp add: bus_init_def IPI_QueuesInit_def del: replicate.simps)
  then show ?thesis
    using poll_misses_repeated_id [OF bus_init_wf _ b, of 0 IPI_MSG_ACK_COMPLETE 0 1 0 0 d'] s i
    by (simp add: poll_bus_init distinct_harts_def)
qed

end
