(* ===== verification/Ymodem.thy ===== *)
theory Ymodem
  imports Crc
begin

text \<open>
  The YMODEM receiver, \<open>services/ymodem/ymodem_protocol.c\<close>.

  The serial line is a list of what successive calls of \<open>getchar_with_timeout_\<close> give:
  \<open>Some b\<close> a byte, \<open>None\<close> a time-out; after the list every call times out.
  Everything sent is logged in \<open>tx\<close>. The destination is the byte list
  \<open>buffer\<close> of the caller's \<open>bufferSize\<close>; a copy that would leave it is
  \<open>None\<close>. The protocol argument is XMODEM or YMODEM as in the code. The packet is
  static, so its bytes survive from one packet to the next.
\<close>

section \<open>Data\<close>

record line =
  rx :: "u8 option list"
  tx :: "u8 list"

fun getchar_with_timeout :: "line \<Rightarrow> u8 option \<times> line" where
  "getchar_with_timeout io = (case rx io of [] \<Rightarrow> (None, io) | c # cs \<Rightarrow> (c, io\<lparr>rx := cs\<rparr>))"

definition putchar :: "u8 \<Rightarrow> line \<Rightarrow> line" where
  "putchar b io = io\<lparr>tx := tx io @ [b]\<rparr>"

abbreviation (input) XYMODEM_SOH :: u8 where "XYMODEM_SOH \<equiv> 0x01"
abbreviation (input) XYMODEM_STX :: u8 where "XYMODEM_STX \<equiv> 0x02"
abbreviation (input) XYMODEM_ETX :: u8 where "XYMODEM_ETX \<equiv> 0x03"
abbreviation (input) XYMODEM_EOT :: u8 where "XYMODEM_EOT \<equiv> 0x04"
abbreviation (input) XYMODEM_ACK :: u8 where "XYMODEM_ACK \<equiv> 0x06"
abbreviation (input) XYMODEM_NAK :: u8 where "XYMODEM_NAK \<equiv> 0x15"
abbreviation (input) XYMODEM_CAN :: u8 where "XYMODEM_CAN \<equiv> 0x18"
abbreviation (input) XYMODEM_C :: u8 where "XYMODEM_C \<equiv> 0x43"

datatype xy_protocol = XMODEM | YMODEM

record XYModem_Packet =
  startByte :: u8
  blkNum :: u8
  blkNumOnesComplement :: u8
  pbuffer :: "u8 list"
  plength :: nat

text \<open>\<open>status.done\<close> is the union of the three flags.\<close>

record XYModem_State =
  protocol :: xy_protocol
  syncFail :: bool
  endOfSession :: bool
  abort :: bool
  eotReceived :: bool
  lastReceivedBlkNum :: u8
  expectedBlkNum :: u8
  totalReceivedSize :: nat
  numReceivedPackets :: nat
  numNAKs :: nat
  filename :: "u8 list"
  expectedSize :: nat
  maxSize :: nat

definition status_done :: "XYModem_State \<Rightarrow> bool" where
  "status_done st \<longleftrightarrow> syncFail st \<or> endOfSession st \<or> abort st"

definition zero_Packet :: XYModem_Packet where
  "zero_Packet = \<lparr>startByte = 0, blkNum = 0, blkNumOnesComplement = 0,
     pbuffer = replicate 1026 0, plength = 0\<rparr>"

section \<open>Operations\<close>

definition XYMODEM_SendReadyChar :: "XYModem_State \<Rightarrow> line \<Rightarrow> XYModem_State \<times> line" where
  "XYMODEM_SendReadyChar st io =
     (if protocol st = YMODEM then (st, putchar XYMODEM_C io)
      else (st\<lparr>numNAKs := numNAKs st + 1\<rparr>, putchar XYMODEM_NAK io))"

definition XYMODEM_SendCAN :: "line \<Rightarrow> line" where
  "XYMODEM_SendCAN io = (putchar XYMODEM_CAN ^^ 8) io"

text \<open>At most \<open>n\<close> characters are thrown away.\<close>

fun purge_loop :: "nat \<Rightarrow> line \<Rightarrow> line" where
  "purge_loop n io =
     (case getchar_with_timeout io of
        (None, io) \<Rightarrow> io
      | (Some c, io) \<Rightarrow> (case n of 0 \<Rightarrow> io | Suc 0 \<Rightarrow> io | Suc m \<Rightarrow> purge_loop m io))"

declare purge_loop.simps [simp del]

definition XYMODEM_Purge :: "line \<Rightarrow> line" where
  "XYMODEM_Purge io = purge_loop 10 io"

definition XYMODEM_ValidatePacket :: "XYModem_Packet \<Rightarrow> XYModem_State \<Rightarrow> bool" where
  "XYMODEM_ValidatePacket p st =
     (let crc16 = CRC16_calculate (take (plength p + 2) (pbuffer p))
      in if crc16 \<noteq> 0 then False
         else if blkNum p \<noteq> (blkNumOnesComplement p XOR 0xFF) then False
         else if blkNum p \<noteq> expectedBlkNum st then False
         else True)"

text \<open>The synchronisation loop; the result says whether a packet started.\<close>

function sync_loop :: "nat \<Rightarrow> nat \<Rightarrow> XYModem_Packet \<Rightarrow> XYModem_State \<Rightarrow> line
    \<Rightarrow> bool \<times> XYModem_Packet \<times> XYModem_State \<times> line" where
  "sync_loop syncAttempt can_rx_count p st io =
     (if syncAttempt \<ge> 20 then (False, p, st, io)
      else
        let (c, io) = getchar_with_timeout io;
            p = p\<lparr>startByte := (case c of None \<Rightarrow> 0 | Some b \<Rightarrow> b)\<rparr>
        in if c = Some XYMODEM_SOH then (True, p\<lparr>plength := 128\<rparr>, st, io)
           else if c = Some XYMODEM_STX then (True, p\<lparr>plength := 1024\<rparr>, st, io)
           else if c = Some XYMODEM_EOT then (True, p\<lparr>plength := 0\<rparr>, st\<lparr>eotReceived := True\<rparr>, io)
           else if c = Some XYMODEM_ETX then (False, p\<lparr>plength := 0\<rparr>, st\<lparr>abort := True\<rparr>, io)
           else if c = Some XYMODEM_CAN then
             (if can_rx_count + 1 = 2 then (False, p\<lparr>plength := 0\<rparr>, st\<lparr>abort := True\<rparr>, io)
              else sync_loop (syncAttempt + 1) (can_rx_count + 1) p st io)
           else let (st, io) = XYMODEM_SendReadyChar st io
                in sync_loop (syncAttempt + 1) 0 p st io)"
  by pat_completeness auto
termination by (relation "measure (\<lambda>(n, _). 20 - n)") auto

declare sync_loop.simps [simp del]

text \<open>A time-out is \<open>-1\<close>, stored in a byte.\<close>

definition getbyte :: "line \<Rightarrow> u8 \<times> line" where
  "getbyte io = (let (c, io) = getchar_with_timeout io in (case c of None \<Rightarrow> 0xFF | Some b \<Rightarrow> b, io))"

fun getbytes :: "nat \<Rightarrow> line \<Rightarrow> u8 list \<times> line" where
  "getbytes 0 io = ([], io)"
| "getbytes (Suc n) io = (let (b, io) = getbyte io; (bs, io) = getbytes n io in (b # bs, io))"

definition XYMODEM_ReadPacket :: "XYModem_Packet \<Rightarrow> XYModem_State \<Rightarrow> line
    \<Rightarrow> bool \<times> XYModem_Packet \<times> XYModem_State \<times> line" where
  "XYMODEM_ReadPacket p st io =
     (if status_done st then (False, p, st, io)
      else
        let (synced, p, st, io) = sync_loop 0 0 p st io
        in if endOfSession st then (True, p, st, io)
           else if synced then
             (let (b1, io) = getbyte io;
                  (b2, io) = getbyte io;
                  p = p\<lparr>blkNum := b1, blkNumOnesComplement := b2\<rparr>;
                  st = st\<lparr>numReceivedPackets := numReceivedPackets st + 1\<rparr>;
                  (bs, io) = getbytes (plength p + 2) io;
                  p = p\<lparr>pbuffer := splice (pbuffer p) 0 bs\<rparr>
              in if status_done st then (True, p, st, io)
                 else if eotReceived st then (True, p, st, io)
                 else if XYMODEM_ValidatePacket p st then
                   (True, p, st\<lparr>lastReceivedBlkNum := blkNum p, expectedBlkNum := expectedBlkNum st + 1\<rparr>, io)
                 else (False, p, st, io))
           else (abort st, p\<lparr>plength := 0\<rparr>, st\<lparr>syncFail := True\<rparr>, io))"

text \<open>
  \<open>XYMODEM_GetFileSize\<close>: after the name's terminating zero, decimal digits up to the
  first other character. The sum wraps as \<open>size_t\<close>.
\<close>

fun filesize_loop :: "bool \<Rightarrow> nat \<Rightarrow> u8 list \<Rightarrow> nat" where
  "filesize_loop hunting fileSize [] = fileSize"
| "filesize_loop hunting fileSize (c # cs) =
     (if c = 0 then (if \<not> hunting then fileSize else filesize_loop False fileSize cs)
      else if 0x30 \<le> c \<and> c \<le> 0x39 then
        filesize_loop hunting (if \<not> hunting then (fileSize * 10 + unat (c - 0x30)) mod 2 ^ 64 else fileSize) cs
      else if \<not> hunting then fileSize
      else filesize_loop hunting fileSize cs)"

definition XYMODEM_GetFileSize :: "u8 list \<Rightarrow> nat" where
  "XYMODEM_GetFileSize buf = filesize_loop True 0 buf"

text \<open>The reaction to a good packet while the transfer is not done: the flag says that the
  loop is left by \<open>break\<close>.\<close>

definition accept_packet :: "XYModem_Packet \<Rightarrow> XYModem_State \<Rightarrow> line \<Rightarrow> u8 list
    \<Rightarrow> (bool \<times> XYModem_State \<times> line \<times> u8 list) option" where
  "accept_packet p st io buf =
     (if protocol st = YMODEM \<and> lastReceivedBlkNum st = 0 \<and> numReceivedPackets st = 1 then
        let st = st\<lparr>filename := splice (filename st) 0 (take 63 (pbuffer p)),
                    expectedSize := XYMODEM_GetFileSize (pbuffer p)\<rparr>
        in if expectedSize st > maxSize st then
             Some (True, st\<lparr>abort := True, totalReceivedSize := 0\<rparr>, XYMODEM_SendCAN io, buf)
           else Some (False, st, io, buf)
      else if eotReceived st then
        Some (False, st\<lparr>endOfSession := True\<rparr>, putchar XYMODEM_ACK io, buf)
      else if (totalReceivedSize st + plength p) mod 2 ^ 64 < maxSize st then do {
        buf \<leftarrow> memcpy_to (totalReceivedSize st) (take (plength p) (pbuffer p)) buf;
        Some (False, st\<lparr>totalReceivedSize := (totalReceivedSize st + plength p) mod 2 ^ 64\<rparr>, io, buf) }
      else Some (True, st\<lparr>abort := True, totalReceivedSize := 0\<rparr>, XYMODEM_SendCAN io, buf))"

text \<open>One round of the main loop.\<close>

definition receive_round :: "nat \<Rightarrow> XYModem_Packet \<Rightarrow> XYModem_State \<Rightarrow> line \<Rightarrow> u8 list
    \<Rightarrow> (bool \<times> nat \<times> XYModem_Packet \<times> XYModem_State \<times> line \<times> u8 list) option" where
  "receive_round retries p st io buf =
     (let (ok, p, st, io) = XYMODEM_ReadPacket p st io in
      if ok then
        let io = putchar XYMODEM_ACK io in
        if \<not> status_done st then
          map_option (\<lambda>(brk, st, io, buf). (brk, retries, p, st, io, buf)) (accept_packet p st io buf)
        else if abort st then
          Some (True, retries, p, st\<lparr>totalReceivedSize := 0\<rparr>, XYMODEM_SendCAN io, buf)
        else if endOfSession st then
          Some (False, retries, p, st, XYMODEM_Purge (putchar XYMODEM_ACK io), buf)
        else Some (False, retries, p, st, io, buf)
      else if numReceivedPackets st \<noteq> 0 then
        Some (False, retries + 1, p, st\<lparr>numNAKs := numNAKs st + 1\<rparr>,
              putchar XYMODEM_NAK (XYMODEM_Purge io), buf)
      else Some (False, retries + 1, p, st, io, buf))"

section \<open>What a packet read leaves alone\<close>

lemma putchar_rx [simp]: "rx (putchar b io) = rx io"
  by (simp add: putchar_def)

lemma SendCAN_rx [simp]: "rx (XYMODEM_SendCAN io) = rx io"
  by (simp add: XYMODEM_SendCAN_def eval_nat_numeral)

lemma getchar_rx: "getchar_with_timeout io = (c, io') \<Longrightarrow>
    rx io' = tl (rx io) \<and> tx io' = tx io \<and> (c \<noteq> None \<longrightarrow> rx io \<noteq> [])"
  by (auto split: list.splits)

lemma getbyte_rx: "getbyte io = (b, io') \<Longrightarrow> rx io' = tl (rx io)"
  by (auto simp: getbyte_def Let_def split: prod.splits list.splits)

lemma getbytes_rx: "getbytes n io = (bs, io') \<Longrightarrow> rx io' = drop n (rx io) \<and> length bs = n"
  by (induction n arbitrary: io bs io')
    (auto simp: Let_def drop_Suc dest!: getbyte_rx split: prod.splits)

lemma SendReadyChar_simps:
  "rx (snd (XYMODEM_SendReadyChar st io)) = rx io"
  "fst (XYMODEM_SendReadyChar st io) = st\<lparr>numNAKs := numNAKs (fst (XYMODEM_SendReadyChar st io))\<rparr>"
  by (auto simp: XYMODEM_SendReadyChar_def)

text \<open>The receiver's state without what the synchronisation may touch.\<close>

definition sync_core :: "XYModem_State \<Rightarrow> XYModem_State" where
  "sync_core st = st\<lparr>numNAKs := 0, abort := False, eotReceived := False\<rparr>"

lemma sync_core_simps [simp]:
  "sync_core (st\<lparr>abort := b\<rparr>) = sync_core st" "sync_core (st\<lparr>eotReceived := b\<rparr>) = sync_core st"
  "sync_core (st\<lparr>numNAKs := n\<rparr>) = sync_core st"
  by (simp_all add: sync_core_def)

lemma sync_core_ready [simp]: "sync_core (fst (XYMODEM_SendReadyChar st io)) = sync_core st"
  by (simp add: XYMODEM_SendReadyChar_def)

lemma sync_coreD:
  assumes "sync_core st' = sync_core st"
  shows "protocol st' = protocol st" "syncFail st' = syncFail st" "endOfSession st' = endOfSession st"
    "lastReceivedBlkNum st' = lastReceivedBlkNum st" "expectedBlkNum st' = expectedBlkNum st"
    "totalReceivedSize st' = totalReceivedSize st" "numReceivedPackets st' = numReceivedPackets st"
    "filename st' = filename st" "expectedSize st' = expectedSize st" "maxSize st' = maxSize st"
  using assms by (cases st; cases st'; simp add: sync_core_def)+

text \<open>The outcomes of the synchronisation.\<close>

definition sync_result :: "XYModem_Packet \<Rightarrow> XYModem_State \<Rightarrow> line
    \<Rightarrow> bool \<times> XYModem_Packet \<times> XYModem_State \<times> line \<Rightarrow> bool" where
  "sync_result p st io = (\<lambda>(s, p', st', io').
     sync_core st' = sync_core st \<and> pbuffer p' = pbuffer p \<and>
     length (rx io') \<le> length (rx io) \<and>
     (s \<longrightarrow> length (rx io') < length (rx io) \<and> (abort st' \<longrightarrow> abort st) \<and>
        (if plength p' = 0 then eotReceived st'
         else plength p' \<in> {128, 1024} \<and> eotReceived st' = eotReceived st)) \<and>
     (\<not> s \<longrightarrow> eotReceived st' = eotReceived st \<and> (abort st' \<longrightarrow> abort st \<or> length (rx io') < length (rx io))))"

lemma sync_result_step:
  assumes "sync_result p1 st1 io1 r" "sync_core st1 = sync_core st" "pbuffer p1 = pbuffer p"
    and "length (rx io1) \<le> length (rx io)" "abort st1 = abort st" "eotReceived st1 = eotReceived st"
  shows "sync_result p st io r"
  using assms by (auto simp: sync_result_def split: if_splits)

lemma sync_loop_result: "sync_result p st io (sync_loop n k p st io)"
proof (induction n k p st io rule: sync_loop.induct)
  case (1 n k p st io)
  obtain c io1 where c: "getchar_with_timeout io = (c, io1)" by (cases "getchar_with_timeout io")
  note r = getchar_rx [OF c]
  let ?p = "p\<lparr>startByte := (case c of None \<Rightarrow> 0 | Some b \<Rightarrow> b)\<rparr>"
  obtain st2 io2 where s: "XYMODEM_SendReadyChar st io1 = (st2, io2)" by (cases "XYMODEM_SendReadyChar st io1")
  have s': "rx io2 = rx io1" "sync_core st2 = sync_core st" "abort st2 = abort st"
    "eotReceived st2 = eotReceived st"
    using s SendReadyChar_simps [of st io1] sync_core_ready [of st io1]
    by (auto simp: XYMODEM_SendReadyChar_def split: if_splits)
  have l: "length (rx io1) \<le> length (rx io)" "c \<noteq> None \<Longrightarrow> length (rx io1) < length (rx io)"
    using r by (simp, cases "rx io", auto)
  show ?case
  proof (cases "n \<ge> 20")
    case True
    then show ?thesis by (subst sync_loop.simps) (simp add: sync_result_def)
  next
    case False
    note ih1 = "1.IH"(1) [OF False c [symmetric] refl]
    note ih2 = "1.IH"(2) [OF False c [symmetric] refl]
    have u: "sync_loop n k p st io =
      (if c = Some XYMODEM_SOH then (True, ?p\<lparr>plength := 128\<rparr>, st, io1)
       else if c = Some XYMODEM_STX then (True, ?p\<lparr>plength := 1024\<rparr>, st, io1)
       else if c = Some XYMODEM_EOT then (True, ?p\<lparr>plength := 0\<rparr>, st\<lparr>eotReceived := True\<rparr>, io1)
       else if c = Some XYMODEM_ETX then (False, ?p\<lparr>plength := 0\<rparr>, st\<lparr>abort := True\<rparr>, io1)
       else if c = Some XYMODEM_CAN then
         (if k + 1 = 2 then (False, ?p\<lparr>plength := 0\<rparr>, st\<lparr>abort := True\<rparr>, io1)
          else sync_loop (n + 1) (k + 1) ?p st io1)
       else sync_loop (n + 1) 0 ?p st2 io2)"
      by (subst sync_loop.simps) (simp only: c s False if_False Let_def prod.case)
    have a: "sync_result p st io (sync_loop (n + 1) (k + 1) ?p st io1)"
      if "c = Some XYMODEM_CAN" "k + 1 \<noteq> 2"
      by (rule sync_result_step [OF ih1]) (use that l in simp_all)
    have b: "sync_result p st io (sync_loop (n + 1) 0 ?p st2 io2)"
      if "c \<noteq> Some XYMODEM_SOH" "c \<noteq> Some XYMODEM_STX" "c \<noteq> Some XYMODEM_EOT"
        "c \<noteq> Some XYMODEM_ETX" "c \<noteq> Some XYMODEM_CAN"
      by (rule sync_result_step [OF ih2]) (use that l s s' in simp_all)
    show ?thesis
      unfolding u using a b l by (simp add: sync_result_def split del: if_split cong: if_cong) (auto simp: sync_result_def)
  qed
qed

section \<open>What a packet read does\<close>

definition receive_core :: "XYModem_State \<Rightarrow> XYModem_State" where
  "receive_core st = st\<lparr>numNAKs := 0, abort := False, eotReceived := False, syncFail := False,
     lastReceivedBlkNum := 0, expectedBlkNum := 0, numReceivedPackets := 0\<rparr>"

lemma receive_coreD:
  assumes "receive_core st' = receive_core st"
  shows "protocol st' = protocol st" "endOfSession st' = endOfSession st"
    "totalReceivedSize st' = totalReceivedSize st" "filename st' = filename st"
    "expectedSize st' = expectedSize st" "maxSize st' = maxSize st"
  using assms by (cases st; cases st'; simp add: receive_core_def)+

lemma sync_receive_core: "sync_core st' = sync_core st \<Longrightarrow> receive_core st' = receive_core st"
  by (cases st; cases st'; simp add: receive_core_def sync_core_def)

lemma receive_core_simps [simp]:
  "receive_core (st\<lparr>abort := b\<rparr>) = receive_core st" "receive_core (st\<lparr>eotReceived := b\<rparr>) = receive_core st"
  "receive_core (st\<lparr>numNAKs := n\<rparr>) = receive_core st" "receive_core (st\<lparr>syncFail := b\<rparr>) = receive_core st"
  "receive_core (st\<lparr>numReceivedPackets := n\<rparr>) = receive_core st"
  "receive_core (st\<lparr>lastReceivedBlkNum := x, expectedBlkNum := y\<rparr>) = receive_core st"
  "receive_core (st\<lparr>numReceivedPackets := n, lastReceivedBlkNum := x, expectedBlkNum := y\<rparr>) = receive_core st"
  "receive_core (st\<lparr>lastReceivedBlkNum := x, expectedBlkNum := y, numReceivedPackets := n\<rparr>) = receive_core st"
  by (simp_all add: receive_core_def)

lemma length_splice_0 [simp]: "length bs \<le> length xs \<Longrightarrow> length (splice xs 0 bs) = length xs"
  by simp

text \<open>
  A read that is not refused outright: the line shrinks, the packet buffer keeps its size, the
  receiver's books stay as they are, and success means a packet (or an abort) was seen.
\<close>

lemma ReadPacket_result:
  assumes "XYMODEM_ReadPacket p st io = (ok, p', st', io')" "\<not> status_done st"
  shows "receive_core st' = receive_core st"
    "length (pbuffer p) = 1026 \<Longrightarrow> length (pbuffer p') = 1026"
    "length (rx io') \<le> length (rx io)"
    "ok \<Longrightarrow> length (rx io') < length (rx io)"
    "ok \<Longrightarrow> \<not> status_done st' \<Longrightarrow> numReceivedPackets st' = numReceivedPackets st + 1 \<and>
       plength p' \<le> 1024 \<and> (\<not> eotReceived st' \<longrightarrow> plength p' \<in> {128, 1024})"
    "ok \<Longrightarrow> status_done st' \<Longrightarrow> abort st'"
    "numReceivedPackets st \<le> numReceivedPackets st'"
proof -
  obtain s p1 st1 io1 where sy: "sync_loop 0 0 p st io = (s, p1, st1, io1)" by (metis prod_cases4)
  have R: "sync_result p st io (s, p1, st1, io1)" using sync_loop_result [of p st io 0 0] sy by simp
  then have R1: "sync_core st1 = sync_core st" "pbuffer p1 = pbuffer p" "length (rx io1) \<le> length (rx io)"
    by (auto simp: sync_result_def)
  have nd: "\<not> abort st" "\<not> syncFail st" "\<not> endOfSession st" using assms(2) by (auto simp: status_done_def)
  note C = sync_coreD [OF R1(1)]
  have all: "receive_core st' = receive_core st \<and>
    (length (pbuffer p) = 1026 \<longrightarrow> length (pbuffer p') = 1026) \<and> length (rx io') \<le> length (rx io) \<and> (ok \<longrightarrow> length (rx io') < length (rx io)) \<and>
    (ok \<longrightarrow> \<not> status_done st' \<longrightarrow> numReceivedPackets st' = numReceivedPackets st + 1 \<and>
       plength p' \<le> 1024 \<and> (\<not> eotReceived st' \<longrightarrow> plength p' \<in> {128, 1024})) \<and>
    (ok \<longrightarrow> status_done st' \<longrightarrow> abort st') \<and> numReceivedPackets st \<le> numReceivedPackets st'"
  proof (cases s)
    case False
    then have e: "ok = abort st1" "p' = p1\<lparr>plength := 0\<rparr>" "st' = st1\<lparr>syncFail := True\<rparr>" "io' = io1"
      using assms(1) sy assms(2) C(3) nd by (auto simp: XYMODEM_ReadPacket_def)
    have "abort st1 \<longrightarrow> length (rx io1) < length (rx io)"
      using R False nd(1) by (auto simp: sync_result_def)
    then show ?thesis
      using e R1 C sync_receive_core [OF R1(1)] by (auto simp: status_done_def)
  next
    case True
    have pl: "if plength p1 = 0 then eotReceived st1 else plength p1 \<in> {128, 1024} \<and> eotReceived st1 = eotReceived st"
      and lt: "length (rx io1) < length (rx io)" and na: "\<not> abort st1"
      using R True nd(1) by (auto simp: sync_result_def)
    have le: "plength p1 \<le> 1024" using pl by (auto split: if_splits)
    obtain b1 io2 where g1: "getbyte io1 = (b1, io2)" by (cases "getbyte io1")
    obtain b2 io3 where g2: "getbyte io2 = (b2, io3)" by (cases "getbyte io2")
    obtain bs io4 where g3: "getbytes (plength p1 + 2) io3 = (bs, io4)"
      by (cases "getbytes (plength p1 + 2) io3")
    have len: "length (rx io4) < length (rx io)" "length bs = plength p1 + 2"
      using getbyte_rx [OF g1] getbyte_rx [OF g2] getbytes_rx [OF g3] lt by auto
    let ?p = "p1\<lparr>blkNum := b1, blkNumOnesComplement := b2, pbuffer := splice (pbuffer p1) 0 bs\<rparr>"
    let ?st = "st1\<lparr>numReceivedPackets := numReceivedPackets st1 + 1\<rparr>"
    have pb: "length (pbuffer p) = 1026 \<longrightarrow> length (pbuffer ?p) = 1026" using R1(2) len(2) le by simp
    have nd1: "\<not> status_done st1" using na C nd by (simp add: status_done_def)
    have e: "(ok, p', st', io') =
      (if eotReceived st1 then (True, ?p, ?st, io4)
       else if XYMODEM_ValidatePacket ?p ?st
       then (True, ?p, ?st\<lparr>lastReceivedBlkNum := blkNum ?p, expectedBlkNum := expectedBlkNum ?st + 1\<rparr>, io4)
       else (False, ?p, ?st, io4))"
      using assms(1,2) sy True C(3) nd nd1 g1 g2 g3
      by (auto simp: XYMODEM_ReadPacket_def Let_def status_done_def simp del: getbytes.simps split: if_splits)
    show ?thesis
      using e pb len le pl nd1 C(7) sync_receive_core [OF R1(1)]
      by (auto simp: status_done_def split: if_splits)
  qed
  show "receive_core st' = receive_core st"
    "length (pbuffer p) = 1026 \<Longrightarrow> length (pbuffer p') = 1026"
    "length (rx io') \<le> length (rx io)"
    "ok \<Longrightarrow> length (rx io') < length (rx io)"
    "ok \<Longrightarrow> \<not> status_done st' \<Longrightarrow> numReceivedPackets st' = numReceivedPackets st + 1 \<and>
       plength p' \<le> 1024 \<and> (\<not> eotReceived st' \<longrightarrow> plength p' \<in> {128, 1024})"
    "ok \<Longrightarrow> status_done st' \<Longrightarrow> abort st'"
    "numReceivedPackets st \<le> numReceivedPackets st'"
    using all by blast+
qed

section \<open>The main loop\<close>

lemma purge_rx: "length (rx (purge_loop n io)) \<le> length (rx io)"
proof (induction n io rule: purge_loop.induct)
  case (1 n io)
  show ?case
  proof (cases "rx io")
    case Nil
    then show ?thesis by (subst purge_loop.simps) simp
  next
    case (Cons c cs)
    show ?thesis
    proof (cases c)
      case None
      then show ?thesis using Cons by (subst purge_loop.simps) simp
    next
      case (Some b)
      have "length (rx (purge_loop m (io\<lparr>rx := cs\<rparr>))) \<le> length cs" if "n = Suc m" "m \<noteq> 0" for m
        using "1.IH" [of "Some b" "io\<lparr>rx := cs\<rparr>" b m "m - 1"] Cons Some that by (cases m) auto
      then show ?thesis
        using Cons Some by (subst purge_loop.simps) (auto split: nat.split)
    qed
  qed
qed

lemma Purge_rx: "length (rx (XYMODEM_Purge io)) \<le> length (rx io)"
  by (simp add: XYMODEM_Purge_def purge_rx)

lemma accept_rx:
  "accept_packet p st io buf = Some (brk, st', io', buf') \<Longrightarrow> rx io' = rx io"
  by (auto simp: accept_packet_def Let_def split: if_splits bind_splits)

lemma round_decreases:
  assumes "receive_round retries p st io buf = Some (brk, retries', p', st', io', buf')"
    and "\<not> status_done st" "retries < 10"
  shows "(10 - retries') + length (rx io') < (10 - retries) + length (rx io)"
proof -
  obtain ok p1 st1 io1 where rp: "XYMODEM_ReadPacket p st io = (ok, p1, st1, io1)" by (metis prod_cases4)
  note R = ReadPacket_result(3,4) [OF rp assms(2)]
  have P: "length (rx (XYMODEM_Purge io1)) \<le> length (rx io1)"
    "length (rx (XYMODEM_Purge (putchar XYMODEM_ACK (putchar XYMODEM_ACK io1)))) \<le> length (rx io1)"
    using Purge_rx [of io1] Purge_rx [of "putchar XYMODEM_ACK (putchar XYMODEM_ACK io1)"] by simp_all
  show ?thesis
    using assms(1,3) R P
    by (auto simp: receive_round_def Let_def rp split: if_splits dest!: accept_rx)
qed

text \<open>The loop of \<open>XYMODEM_Receive\<close>. A round either counts a retry or takes a
  character off the line.\<close>

function receive_loop :: "nat \<Rightarrow> XYModem_Packet \<Rightarrow> XYModem_State \<Rightarrow> line \<Rightarrow> u8 list
    \<Rightarrow> (XYModem_State \<times> line \<times> u8 list) option" where
  "receive_loop retries p st io buf =
     (if \<not> status_done st \<and> retries < 10 then
        case receive_round retries p st io buf of
          None \<Rightarrow> None
        | Some (brk, retries', p', st', io', buf') \<Rightarrow>
            (if brk then Some (st', io', buf') else receive_loop retries' p' st' io' buf')
      else Some (st, io, buf))"
  by pat_completeness auto
termination
  by (relation "measure (\<lambda>(retries, p, st, io, buf). (10 - retries) + length (rx io))")
    (auto dest: round_decreases)

declare receive_loop.simps [simp del]

definition XYMODEM_Receive :: "xy_protocol \<Rightarrow> XYModem_State \<Rightarrow> line \<Rightarrow> u8 list \<Rightarrow> nat
    \<Rightarrow> (nat \<times> XYModem_State \<times> line \<times> u8 list) option" where
  "XYMODEM_Receive proto st io buf bufferSize =
     (let st = st\<lparr>syncFail := False, endOfSession := False, abort := False, lastReceivedBlkNum := 0,
            expectedBlkNum := 0, totalReceivedSize := 0, numReceivedPackets := 0,
            expectedSize := 0, maxSize := bufferSize, protocol := proto\<rparr>;
          (st, io) = XYMODEM_SendReadyChar st io;
          st = (if protocol st \<noteq> YMODEM then st\<lparr>expectedBlkNum := 1\<rparr> else st)
      in case receive_loop 0 zero_Packet st io buf of
           None \<Rightarrow> None
         | Some (st, io, buf) \<Rightarrow>
             Some (if expectedSize st \<noteq> 0 then min (expectedSize st) (totalReceivedSize st)
                   else totalReceivedSize st, st, XYMODEM_Purge io, buf))"

definition zero_State :: XYModem_State where
  "zero_State = \<lparr>protocol = XMODEM, syncFail = False, endOfSession = False, abort = False,
     eotReceived = False, lastReceivedBlkNum = 0, expectedBlkNum = 0, totalReceivedSize = 0,
     numReceivedPackets = 0, numNAKs = 0, filename = replicate 64 0, expectedSize = 0, maxSize = 0\<rparr>"

text \<open>The checksum that is printed is left out.\<close>

definition ymodem_receive :: "line \<Rightarrow> u8 list \<Rightarrow> nat \<Rightarrow> (nat \<times> line \<times> u8 list) option" where
  "ymodem_receive io buf bufferSize =
     map_option (\<lambda>(n, st, io, buf). (n, io, buf)) (XYMODEM_Receive YMODEM zero_State io buf bufferSize)"

section \<open>The line is only consumed\<close>

lemma round_rx:
  assumes "receive_round retries p st io buf = Some (brk, retries', p', st', io', buf')" "\<not> status_done st"
  shows "length (rx io') \<le> length (rx io)"
proof -
  obtain ok p1 st1 io1 where rp: "XYMODEM_ReadPacket p st io = (ok, p1, st1, io1)" by (metis prod_cases4)
  note R = ReadPacket_result(3) [OF rp assms(2)]
  have P: "length (rx (XYMODEM_Purge io1)) \<le> length (rx io1)"
    "length (rx (XYMODEM_Purge (putchar XYMODEM_ACK (putchar XYMODEM_ACK io1)))) \<le> length (rx io1)"
    using Purge_rx [of io1] Purge_rx [of "putchar XYMODEM_ACK (putchar XYMODEM_ACK io1)"] by simp_all
  show ?thesis
    using assms(1) R P by (auto simp: receive_round_def Let_def rp split: if_splits dest!: accept_rx)
qed

lemma loop_rx: "receive_loop retries p st io buf = Some (st', io', buf') \<Longrightarrow> length (rx io') \<le> length (rx io)"
proof (induction retries p st io buf rule: receive_loop.induct)
  case (1 retries p st io buf)
  show ?case
  proof (cases "\<not> status_done st \<and> retries < 10")
    case True
    then obtain brk retries' p' st1 io1 buf1 where
      r: "receive_round retries p st io buf = Some (brk, retries', p', st1, io1, buf1)"
      using "1.prems" by (subst (asm) receive_loop.simps) (auto split: option.splits prod.splits)
    have le: "length (rx io1) \<le> length (rx io)" using round_rx [OF r] True by simp
    show ?thesis
    proof (cases brk)
      case False
      then have "receive_loop retries' p' st1 io1 buf1 = Some (st', io', buf')"
        using "1.prems" True r by (subst (asm) receive_loop.simps) simp
      then show ?thesis using "1.IH" [OF True r] False le by fastforce
    qed (use "1.prems" True r le in \<open>simp add: receive_loop.simps [of retries]\<close>)
  qed (use "1.prems" in \<open>auto simp: receive_loop.simps [of retries]\<close>)
qed

lemma ymodem_receive_rx: "ymodem_receive io buf n = Some (k, io', buf') \<Longrightarrow> length (rx io') \<le> length (rx io)"
  by (auto simp: ymodem_receive_def XYMODEM_Receive_def Let_def XYMODEM_SendReadyChar_def
      split: option.splits if_splits dest!: loop_rx intro: order.trans [OF Purge_rx])

section \<open>The buffer is never left\<close>

definition receiver_ok :: "XYModem_Packet \<Rightarrow> XYModem_State \<Rightarrow> u8 list \<Rightarrow> bool" where
  "receiver_ok p st buf \<longleftrightarrow> length (pbuffer p) = 1026 \<and> maxSize st = length buf \<and>
     totalReceivedSize st \<le> maxSize st \<and> maxSize st \<le> 2 ^ 63"

lemma accept_ok:
  assumes "receiver_ok p st buf" "plength p \<le> 1024"
  shows "\<exists>brk st' io' buf'. accept_packet p st io buf = Some (brk, st', io', buf') \<and>
    receiver_ok p st' buf' \<and> length buf' = length buf \<and>
    (\<not> brk \<longrightarrow> \<not> status_done st' \<longrightarrow>
       (numReceivedPackets st = 1 \<or> totalReceivedSize st' = totalReceivedSize st + plength p) \<and>
       numReceivedPackets st' = numReceivedPackets st)"
proof -
  have w: "(totalReceivedSize st + plength p) mod 2 ^ 64 = totalReceivedSize st + plength p"
    using assms by (intro mod_less) (auto simp: receiver_ok_def)
  have m: "memcpy_to (totalReceivedSize st) (take (plength p) (pbuffer p)) buf =
      Some (splice buf (totalReceivedSize st) (take (plength p) (pbuffer p)))"
    if "totalReceivedSize st + plength p < maxSize st"
    using that assms by (simp add: memcpy_to_def receiver_ok_def)
  let ?hd = "protocol st = YMODEM \<and> lastReceivedBlkNum st = 0 \<and> numReceivedPackets st = 1"
  consider (header) ?hd | (eot) "\<not> ?hd" "eotReceived st"
    | (data) "\<not> ?hd" "\<not> eotReceived st" "totalReceivedSize st + plength p < maxSize st"
    | (full) "\<not> ?hd" "\<not> eotReceived st" "\<not> totalReceivedSize st + plength p < maxSize st"
    by blast
  then show ?thesis
  proof cases
    case header
    then show ?thesis
      using assms(1) by (auto simp: accept_packet_def Let_def receiver_ok_def)
  next
    case eot
    then show ?thesis using assms(1)
      by (simp only: accept_packet_def if_False if_True) (auto simp: receiver_ok_def status_done_def)
  next
    case data
    then have "accept_packet p st io buf = Some (False,
        st\<lparr>totalReceivedSize := totalReceivedSize st + plength p\<rparr>, io,
        splice buf (totalReceivedSize st) (take (plength p) (pbuffer p)))"
      by (simp only: accept_packet_def if_False if_True w m) simp
    then show ?thesis using assms data(3) by (auto simp: receiver_ok_def)
  next
    case full
    then have "accept_packet p st io buf =
        Some (True, st\<lparr>abort := True, totalReceivedSize := 0\<rparr>, XYMODEM_SendCAN io, buf)"
      by (simp only: accept_packet_def if_False if_True w m)
    then show ?thesis using assms(1) by (auto simp: receiver_ok_def)
  qed
qed

lemma round_ok:
  assumes "receiver_ok p st buf" "\<not> status_done st"
  shows "\<exists>brk retries' p' st' io' buf'. receive_round retries p st io buf = Some (brk, retries', p', st', io', buf') \<and>
    receiver_ok p' st' buf' \<and> length buf' = length buf"
proof -
  obtain ok p1 st1 io1 where rp: "XYMODEM_ReadPacket p st io = (ok, p1, st1, io1)" by (metis prod_cases4)
  note R = ReadPacket_result [OF rp assms(2)]
  note C = receive_coreD [OF R(1)]
  have ok1: "receiver_ok p1 st1 buf" using assms(1) R(2) C by (simp add: receiver_ok_def)
  show ?thesis
  proof (cases "ok \<and> \<not> status_done st1")
    case True
    then obtain brk st2 io2 buf2 where
      "accept_packet p1 st1 (putchar XYMODEM_ACK io1) buf = Some (brk, st2, io2, buf2)"
      "receiver_ok p1 st2 buf2" "length buf2 = length buf"
      using accept_ok [OF ok1, of "putchar XYMODEM_ACK io1"] R(5) by blast
    then show ?thesis using True by (simp add: receive_round_def rp)
  next
    case False
    then show ?thesis
      using ok1 by (auto simp: receive_round_def rp Let_def receiver_ok_def)
  qed
qed

lemma loop_ok:
  assumes "receiver_ok p st buf"
  shows "\<exists>st' io' buf'. receive_loop retries p st io buf = Some (st', io', buf') \<and>
    totalReceivedSize st' \<le> length buf \<and> length buf' = length buf"
  using assms
proof (induction retries p st io buf rule: receive_loop.induct)
  case (1 retries p st io buf)
  show ?case
  proof (cases "\<not> status_done st \<and> retries < 10")
    case True
    obtain brk retries' p' st' io' buf' where r:
      "receive_round retries p st io buf = Some (brk, retries', p', st', io', buf')"
      "receiver_ok p' st' buf'" "length buf' = length buf"
      using round_ok [OF "1.prems", of retries io] True by blast
    show ?thesis
    proof (cases brk)
      case True
      then show ?thesis
        using r \<open>\<not> status_done st \<and> retries < 10\<close>
        by (subst receive_loop.simps) (simp add: receiver_ok_def)
    next
      case False
      then show ?thesis
        using r True "1.IH" [OF True r(1)] by (subst receive_loop.simps) auto
    qed
  next
    case False
    then show ?thesis using "1.prems" by (subst receive_loop.simps) (auto simp: receiver_ok_def)
  qed
qed

section \<open>A well-behaved sender\<close>

text \<open>The frames of the protocol comment at the top of the file: start byte, block number, its
  complement, the data and its CRC-16, high byte first.\<close>

definition crc_bytes :: "u8 list \<Rightarrow> u8 list" where
  "crc_bytes ds = [ucast (drop_bit 8 (CRC16_calculate ds)), ucast (CRC16_calculate ds)]"

definition frame :: "u8 \<Rightarrow> u8 \<Rightarrow> u8 list \<Rightarrow> u8 option list" where
  "frame start blk ds = map Some ([start, blk, NOT blk] @ ds @ crc_bytes ds)"

fun data_frames :: "u8 \<Rightarrow> u8 list list \<Rightarrow> u8 option list" where
  "data_frames blk [] = []"
| "data_frames blk (ds # dss) = frame XYMODEM_STX blk ds @ data_frames (blk + 1) dss"

fun decimal :: "nat \<Rightarrow> u8 list" where
  "decimal n = (if n < 10 then [0x30 + of_nat n] else decimal (n div 10) @ [0x30 + of_nat (n mod 10)])"

declare decimal.simps [simp del]

text \<open>Block 0 holds the name, a zero, the size in decimal and zeros up to 128 bytes.\<close>

definition header_block :: "u8 list \<Rightarrow> nat \<Rightarrow> u8 list" where
  "header_block name n =
     name @ [0] @ decimal n @ replicate (128 - (length name + 1 + length (decimal n))) 0"

definition session :: "u8 list \<Rightarrow> nat \<Rightarrow> u8 list list \<Rightarrow> u8 option list" where
  "session name n blocks =
     frame XYMODEM_SOH 0 (header_block name n) @ data_frames 1 blocks @ [Some XYMODEM_EOT]"

lemma length_crc_bytes [simp]: "length (crc_bytes ds) = 2"
  by (simp add: crc_bytes_def)

lemma crc_bytes_ok: "CRC16_calculate (ds @ crc_bytes ds) = 0"
  by (simp add: crc_bytes_def CRC16_calculate_def crc16_trailer_zero)

lemma getbyte_Some: "rx io = Some b # cs \<Longrightarrow> getbyte io = (b, io\<lparr>rx := cs\<rparr>)"
  by (simp add: getbyte_def)

lemma getbytes_Some:
  "rx io = map Some bs @ cs \<Longrightarrow> length bs = n \<Longrightarrow> getbytes n io = (bs, io\<lparr>rx := cs\<rparr>)"
  by (induction n arbitrary: io bs)
    (auto simp: Let_def getbyte_Some length_Suc_conv split: prod.splits)

text \<open>A line on which the next \<open>n\<close> reads time out.\<close>

definition timeouts :: "nat \<Rightarrow> line \<Rightarrow> bool" where
  "timeouts n io \<longleftrightarrow> set (take n (rx io)) \<subseteq> {None}"

lemma timeouts_putchar [simp]: "timeouts n (putchar b io) = timeouts n io"
  by (simp add: timeouts_def)

lemma timeouts_getchar: "timeouts (Suc n) io \<Longrightarrow> getchar_with_timeout io = (None, io\<lparr>rx := drop 1 (rx io)\<rparr>) \<and>
    timeouts n (io\<lparr>rx := drop 1 (rx io)\<rparr>)"
  by (cases "rx io") (simp_all add: timeouts_def)

lemma timeouts_getbyte: "timeouts (Suc n) io \<Longrightarrow> getbyte io = (0xFF, io\<lparr>rx := drop 1 (rx io)\<rparr>) \<and>
    timeouts n (io\<lparr>rx := drop 1 (rx io)\<rparr>)"
  by (frule timeouts_getchar) (simp add: getbyte_def del: getchar_with_timeout.simps)

lemma timeouts_getbytes: "timeouts (n + k) io \<Longrightarrow> getbytes n io = (replicate n 0xFF, io\<lparr>rx := drop n (rx io)\<rparr>) \<and>
    timeouts k (io\<lparr>rx := drop n (rx io)\<rparr>)"
proof (induction n arbitrary: io)
  case (Suc n)
  let ?io = "io\<lparr>rx := drop 1 (rx io)\<rparr>"
  have g: "getbyte io = (0xFF, ?io)" "timeouts (n + k) ?io" using timeouts_getbyte [of "n + k" io] Suc.prems by simp_all
  then show ?case using Suc.IH [OF g(2)] by (simp add: Let_def)
qed simp

lemma timeouts_purge: "timeouts 1 io \<Longrightarrow> XYMODEM_Purge io = io\<lparr>rx := drop 1 (rx io)\<rparr>"
  unfolding XYMODEM_Purge_def
  by (subst purge_loop.simps) (use timeouts_getchar [of 0 io] in \<open>simp del: getchar_with_timeout.simps\<close>)

lemma sync_start:
  "rx io = Some XYMODEM_SOH # cs \<Longrightarrow>
    sync_loop 0 0 p st io = (True, p\<lparr>startByte := XYMODEM_SOH, plength := 128\<rparr>, st, io\<lparr>rx := cs\<rparr>)"
  "rx io = Some XYMODEM_STX # cs \<Longrightarrow>
    sync_loop 0 0 p st io = (True, p\<lparr>startByte := XYMODEM_STX, plength := 1024\<rparr>, st, io\<lparr>rx := cs\<rparr>)"
  "rx io = Some XYMODEM_EOT # cs \<Longrightarrow>
    sync_loop 0 0 p st io = (True, p\<lparr>startByte := XYMODEM_EOT, plength := 0\<rparr>, st\<lparr>eotReceived := True\<rparr>, io\<lparr>rx := cs\<rparr>)"
  by (subst sync_loop.simps; simp add: Let_def)+

text \<open>Reading one good frame.\<close>

lemma read_frame:
  assumes rx: "rx io = frame start blk ds @ cs"
    and start: "start = XYMODEM_SOH \<and> length ds = 128 \<or> start = XYMODEM_STX \<and> length ds = 1024"
    and st: "\<not> status_done st" "\<not> eotReceived st" "blk = expectedBlkNum st"
    and p: "length (pbuffer p) = 1026"
  shows "XYMODEM_ReadPacket p st io =
    (True,
     p\<lparr>startByte := start, plength := length ds, blkNum := blk, blkNumOnesComplement := NOT blk,
       pbuffer := splice (pbuffer p) 0 (ds @ crc_bytes ds)\<rparr>,
     st\<lparr>numReceivedPackets := numReceivedPackets st + 1, lastReceivedBlkNum := blk,
       expectedBlkNum := blk + 1\<rparr>,
     io\<lparr>rx := cs\<rparr>)"
proof -
  let ?cs1 = "map Some ([blk, NOT blk] @ ds @ crc_bytes ds) @ cs"
  have rx': "rx io = Some start # ?cs1" using rx by (simp add: frame_def)
  have sy: "sync_loop 0 0 p st io = (True, p\<lparr>startByte := start, plength := length ds\<rparr>, st, io\<lparr>rx := ?cs1\<rparr>)"
    using start sync_start [of io ?cs1 p st] rx' by auto
  have g1: "getbyte (io\<lparr>rx := ?cs1\<rparr>) = (blk, io\<lparr>rx := tl ?cs1\<rparr>)"
    by (subst getbyte_Some) simp_all
  have g2: "getbyte (io\<lparr>rx := tl ?cs1\<rparr>) = (NOT blk, io\<lparr>rx := map Some (ds @ crc_bytes ds) @ cs\<rparr>)"
    by (subst getbyte_Some) simp_all
  have g3: "getbytes (length ds + 2) (io\<lparr>rx := map Some (ds @ crc_bytes ds) @ cs\<rparr>) =
      (ds @ crc_bytes ds, io\<lparr>rx := cs\<rparr>)"
    by (subst getbytes_Some [where bs = "ds @ crc_bytes ds" and cs = cs]) simp_all
  have len: "length ds + 2 \<le> 1026" using start by auto
  have tk: "take (length ds + 2) (splice (pbuffer p) 0 (ds @ crc_bytes ds)) = ds @ crc_bytes ds"
    by (simp add: splice_def)
  have nb: "NOT blk XOR 0xFF = blk"
  proof -
    have e: "(0xFF :: u8) = NOT 0" by simp
    show ?thesis unfolding e by (rule bit_word_eqI) (auto simp: bit_xor_iff bit_not_iff)
  qed
  have v: "XYMODEM_ValidatePacket (p\<lparr>startByte := start, plength := length ds, blkNum := blk,
      blkNumOnesComplement := NOT blk, pbuffer := splice (pbuffer p) 0 (ds @ crc_bytes ds)\<rparr>)
      (st\<lparr>numReceivedPackets := numReceivedPackets st + 1\<rparr>)"
    using st(3) nb by (simp add: XYMODEM_ValidatePacket_def tk [simplified] crc_bytes_ok)
  show ?thesis
    using st v g1 g2 g3
    by (simp add: XYMODEM_ReadPacket_def sy Let_def status_done_def del: getbytes.simps)
qed

section \<open>A whole session\<close>

lemma round_data:
  assumes rx: "rx io = frame XYMODEM_STX blk ds @ cs" and ds: "length ds = 1024"
    and st: "\<not> status_done st" "\<not> eotReceived st" "blk = expectedBlkNum st" "0 < numReceivedPackets st"
    and ok: "receiver_ok p st buf" and room: "totalReceivedSize st + 1024 < maxSize st"
  shows "\<exists>p' io'. receive_round 0 p st io buf = Some (False, 0, p',
      st\<lparr>numReceivedPackets := numReceivedPackets st + 1, lastReceivedBlkNum := blk,
         expectedBlkNum := blk + 1, totalReceivedSize := totalReceivedSize st + 1024\<rparr>, io',
      splice buf (totalReceivedSize st) ds) \<and> rx io' = cs \<and> length (pbuffer p') = 1026"
proof -
  have pl: "length (pbuffer p) = 1026" using ok by (simp add: receiver_ok_def)
  note R = read_frame [OF rx _ st(1-3) pl]
  have w: "(totalReceivedSize st + 1024) mod 2 ^ 64 = totalReceivedSize st + 1024"
    using ok room by (intro mod_less) (auto simp: receiver_ok_def)
  have tk: "take 1024 (splice (pbuffer p) 0 (ds @ crc_bytes ds)) = ds"
    using ds by (simp add: splice_def)
  show ?thesis
    using st room ok R ds w tk
    by (auto simp: receive_round_def Let_def accept_packet_def status_done_def memcpy_to_def receiver_ok_def)
qed

lemma round_eot:
  assumes rx: "rx io = Some XYMODEM_EOT # rest" and st: "\<not> status_done st" "0 < numReceivedPackets st"
    and ok: "receiver_ok p st buf" and pause: "set (take 5 rest) \<subseteq> {None}"
  shows "\<exists>p' io'. receive_round 0 p st io buf = Some (False, 0, p',
      st\<lparr>numReceivedPackets := numReceivedPackets st + 1, eotReceived := True, endOfSession := True\<rparr>,
      io', buf) \<and> rx io' = drop 4 rest \<and> timeouts 1 io'"
proof -
  let ?io = "io\<lparr>rx := rest\<rparr>"
  have sy: "sync_loop 0 0 p st io =
      (True, p\<lparr>startByte := XYMODEM_EOT, plength := 0\<rparr>, st\<lparr>eotReceived := True\<rparr>, ?io)"
    by (rule sync_start(3)) (rule rx)
  have q: "timeouts 5 ?io" using pause by (simp add: timeouts_def)
  have g1: "getbyte ?io = (0xFF, ?io\<lparr>rx := drop 1 rest\<rparr>)" "timeouts 4 (?io\<lparr>rx := drop 1 rest\<rparr>)"
    using timeouts_getbyte [of 4 ?io] q by simp_all
  have g2: "getbyte (?io\<lparr>rx := drop 1 rest\<rparr>) = (0xFF, ?io\<lparr>rx := drop 2 rest\<rparr>)" "timeouts 3 (?io\<lparr>rx := drop 2 rest\<rparr>)"
    using timeouts_getbyte [of 3 "?io\<lparr>rx := drop 1 rest\<rparr>"] g1(2) by (simp_all add: numeral_2_eq_2)
  have r2: "replicate 2 (0xFF :: u8) = [0xFF, 0xFF]" by (simp add: numeral_2_eq_2)
  have g3: "getbytes 2 (?io\<lparr>rx := drop 2 rest\<rparr>) = ([0xFF, 0xFF], ?io\<lparr>rx := drop 4 rest\<rparr>)"
    "timeouts 1 (?io\<lparr>rx := drop 4 rest\<rparr>)"
    using timeouts_getbytes [of 2 1 "?io\<lparr>rx := drop 2 rest\<rparr>"] g2(2)
    by (simp_all add: r2 del: getbytes.simps)
  have g4: "getbytes (Suc (Suc 0)) (?io\<lparr>rx := drop 2 rest\<rparr>) = ([0xFF, 0xFF], ?io\<lparr>rx := drop 4 rest\<rparr>)"
    using g3(1) by (simp only: numeral_2_eq_2)
  show ?thesis
    using st g1(1) g2(1) g3(2) g4
    by (simp add: receive_round_def XYMODEM_ReadPacket_def Let_def sy status_done_def accept_packet_def
        del: getbytes.simps)
qed

lemma loop_step:
  assumes "receive_round retries p st io buf = Some (False, retries', p', st', io', buf')"
    and "\<not> status_done st" "retries < 10"
  shows "receive_loop retries p st io buf = receive_loop retries' p' st' io' buf'"
  using assms by (subst receive_loop.simps) simp

lemma splice_append:
  "off + length xs + length ys \<le> length buf \<Longrightarrow>
    splice (splice buf off xs) (off + length xs) ys = splice buf off (xs @ ys)"
  by (cases xs) (auto simp: splice_def min_def drop_drop add.commute add.left_commute)

lemma loop_blocks:
  assumes "rx io = data_frames (expectedBlkNum st) blocks @ Some XYMODEM_EOT # rest"
    and "\<forall>ds \<in> set blocks. length ds = 1024"
    and "\<not> status_done st" "\<not> eotReceived st" "0 < numReceivedPackets st" "receiver_ok p st buf"
    and "totalReceivedSize st + 1024 * length blocks < maxSize st" and "set (take 5 rest) \<subseteq> {None}"
  shows "\<exists>st' io'. receive_loop 0 p st io buf =
      Some (st', io', splice buf (totalReceivedSize st) (concat blocks)) \<and>
    totalReceivedSize st' = totalReceivedSize st + 1024 * length blocks \<and>
    expectedSize st' = expectedSize st \<and> rx io' = drop 4 rest \<and> timeouts 1 io'"
  using assms
proof (induction blocks arbitrary: p st io buf)
  case Nil
  obtain p' io' where r: "receive_round 0 p st io buf = Some (False, 0, p',
      st\<lparr>numReceivedPackets := numReceivedPackets st + 1, eotReceived := True, endOfSession := True\<rparr>, io', buf)"
    "rx io' = drop 4 rest" "timeouts 1 io'"
    using round_eot [of io rest st p buf] Nil by auto
  have "receive_loop 0 p'
      (st\<lparr>numReceivedPackets := numReceivedPackets st + 1, eotReceived := True, endOfSession := True\<rparr>) io' buf =
    Some (st\<lparr>numReceivedPackets := numReceivedPackets st + 1, eotReceived := True, endOfSession := True\<rparr>, io', buf)"
    by (subst receive_loop.simps) (simp add: status_done_def)
  then show ?case
    using loop_step [OF r(1) Nil.prems(3)] r(2,3) by (simp add: splice_def)
next
  case (Cons ds blocks)
  let ?st = "st\<lparr>numReceivedPackets := numReceivedPackets st + 1, lastReceivedBlkNum := expectedBlkNum st,
     expectedBlkNum := expectedBlkNum st + 1, totalReceivedSize := totalReceivedSize st + 1024\<rparr>"
  let ?buf = "splice buf (totalReceivedSize st) ds"
  have rx: "rx io = frame XYMODEM_STX (expectedBlkNum st) ds @
      (data_frames (expectedBlkNum st + 1) blocks @ Some XYMODEM_EOT # rest)"
    using Cons.prems(1) by simp
  have ds: "length ds = 1024" "totalReceivedSize st + 1024 < maxSize st" using Cons.prems by auto
  obtain p' io' where r: "receive_round 0 p st io buf = Some (False, 0, p', ?st, io', ?buf)"
    "rx io' = data_frames (expectedBlkNum st + 1) blocks @ Some XYMODEM_EOT # rest" "length (pbuffer p') = 1026"
    using round_data [OF rx ds(1) Cons.prems(3,4) refl Cons.prems(5,6) ds(2)] by blast
  have ok: "receiver_ok p' ?st ?buf" using Cons.prems(6) r(3) ds by (simp add: receiver_ok_def)
  have "\<exists>st' io''. receive_loop 0 p' ?st io' ?buf =
      Some (st', io'', splice ?buf (totalReceivedSize ?st) (concat blocks)) \<and>
    totalReceivedSize st' = totalReceivedSize ?st + 1024 * length blocks \<and>
    expectedSize st' = expectedSize ?st \<and> rx io'' = drop 4 rest \<and> timeouts 1 io''"
    by (rule Cons.IH) (use r(2) ok Cons.prems ds in \<open>auto simp: status_done_def\<close>)
  moreover have "splice ?buf (totalReceivedSize ?st) (concat blocks) =
      splice buf (totalReceivedSize st) (concat (ds # blocks))"
  proof -
    have "length (concat blocks) = 1024 * length blocks"
      using Cons.prems(2) by (induction blocks) auto
    then show ?thesis
      using splice_append [of "totalReceivedSize st" ds "concat blocks" buf] Cons.prems(6,7) ds
      by (simp add: receiver_ok_def)
  qed
  ultimately show ?case using loop_step [OF r(1) Cons.prems(3)] by auto
qed

text \<open>The size field.\<close>

lemma filesize_digit:
  "d < 10 \<Longrightarrow> filesize_loop False acc ((0x30 + of_nat d) # cs) = filesize_loop False ((acc * 10 + d) mod 2 ^ 64) cs"
proof -
  assume d: "d < 10"
  then have "d \<in> {0,1,2,3,4,5,6,7,8,9}" by auto
  then show ?thesis by auto
qed

lemma filesize_decimal:
  "n < 2 ^ 64 \<Longrightarrow> filesize_loop False 0 (decimal n @ cs) = filesize_loop False n cs"
proof (induction n arbitrary: cs rule: decimal.induct)
  case (1 n)
  show ?case
  proof (cases "n < 10")
    case True
    then show ?thesis
      using "1.prems" filesize_digit [OF True, of 0 cs]
      by (subst decimal.simps) (simp del: filesize_loop.simps)
  next
    case False
    have "filesize_loop False 0 (decimal (n div 10) @ [0x30 + of_nat (n mod 10)] @ cs) =
        filesize_loop False (n div 10) ([0x30 + of_nat (n mod 10)] @ cs)"
      using "1.IH" [OF False] "1.prems" by simp
    also have "\<dots> = filesize_loop False n cs"
      using "1.prems" filesize_digit [of "n mod 10" "n div 10" cs] by (simp del: filesize_loop.simps)
    finally show ?thesis using False by (subst decimal.simps) simp
  qed
qed

lemma filesize_name:
  "\<forall>c \<in> set name. c \<noteq> 0 \<Longrightarrow> filesize_loop True 0 (name @ 0 # cs) = filesize_loop False 0 cs"
  by (induction name) auto

lemma filesize_header:
  assumes "\<forall>c \<in> set name. c \<noteq> 0" "length name + 1 + length (decimal n) < 128" "n < 2 ^ 64"
  shows "XYMODEM_GetFileSize (header_block name n @ cs) = n"
proof -
  let ?k = "126 - (length name + length (decimal n))"
  have k: "128 - (length name + 1 + length (decimal n)) = Suc ?k" using assms(2) by arith
  have "header_block name n @ cs = name @ 0 # (decimal n @ 0 # (replicate ?k 0 @ cs))"
    unfolding header_block_def k by simp
  then show ?thesis
    using filesize_name [OF assms(1)] filesize_decimal [OF assms(3)]
    by (simp add: XYMODEM_GetFileSize_def)
qed

lemma length_header_block:
  "length name + 1 + length (decimal n) < 128 \<Longrightarrow> length (header_block name n) = 128"
  by (simp add: header_block_def)

lemma session_received:
  assumes name: "\<forall>c \<in> set name. c \<noteq> 0" "length name + 1 + length (decimal n) < 128"
    and n: "0 < n" "n \<le> 1024 * length blocks"
    and blocks: "\<forall>ds \<in> set blocks. length ds = 1024"
    and room: "1024 * length blocks < length buf" "length buf \<le> 2 ^ 63"
    and pause: "set (take 5 rest) \<subseteq> {None}"
  shows "\<exists>io'. ymodem_receive \<lparr>rx = session name n blocks @ rest, tx = sent\<rparr> buf (length buf) =
    Some (n, io', splice buf 0 (concat blocks)) \<and> rx io' = drop 5 rest"
proof -
  let ?hb = "header_block name n"
  let ?st = "zero_State\<lparr>maxSize := length buf, protocol := YMODEM\<rparr>"
  let ?io = "\<lparr>rx = session name n blocks @ rest, tx = sent @ [XYMODEM_C]\<rparr>"
  let ?cs = "data_frames 1 blocks @ Some XYMODEM_EOT # rest"
  let ?p = "zero_Packet\<lparr>startByte := XYMODEM_SOH, plength := length ?hb, blkNum := 0,
     blkNumOnesComplement := NOT 0, pbuffer := splice (pbuffer zero_Packet) 0 (?hb @ crc_bytes ?hb)\<rparr>"
  have hb: "length ?hb = 128" using length_header_block [OF name(2)] .
  have st0: "\<not> status_done ?st" "\<not> eotReceived ?st" "0 = expectedBlkNum ?st"
    by (simp_all add: status_done_def zero_State_def)
  have rp: "XYMODEM_ReadPacket zero_Packet ?st ?io = (True, ?p,
      ?st\<lparr>numReceivedPackets := numReceivedPackets ?st + 1, lastReceivedBlkNum := 0, expectedBlkNum := 0 + 1\<rparr>,
      ?io\<lparr>rx := ?cs\<rparr>)"
    by (rule read_frame [OF _ _ st0]) (use hb in \<open>simp_all add: session_def zero_Packet_def\<close>)
  have fs: "XYMODEM_GetFileSize (pbuffer ?p) = n"
    using filesize_header [OF name, of "crc_bytes ?hb @ drop 130 (pbuffer zero_Packet)"] n room
    by (simp add: splice_def hb)
  define st1 where "st1 = ?st\<lparr>numReceivedPackets := 1, lastReceivedBlkNum := 0, expectedBlkNum := 1,
     filename := splice (filename ?st) 0 (take 63 (pbuffer ?p)), expectedSize := n\<rparr>"
  have z: "numReceivedPackets zero_State = 0" "\<not> syncFail zero_State" "\<not> abort zero_State"
    "\<not> endOfSession zero_State" by (simp_all add: zero_State_def)
  define io1 where "io1 = putchar XYMODEM_ACK (?io\<lparr>rx := ?cs\<rparr>)"
  have r: "receive_round 0 zero_Packet ?st ?io buf = Some (False, 0, ?p, st1, io1, buf)"
    "rx io1 = ?cs"
    using fs n room z
    by (auto simp: io1_def receive_round_def rp accept_packet_def status_done_def st1_def Let_def)
  have pl: "length (pbuffer ?p) = 1026" using hb by (simp add: zero_Packet_def)
  have "\<exists>st' io'. receive_loop 0 ?p st1 io1 buf =
      Some (st', io', splice buf (totalReceivedSize st1) (concat blocks)) \<and>
    totalReceivedSize st' = totalReceivedSize st1 + 1024 * length blocks \<and>
    expectedSize st' = expectedSize st1 \<and> rx io' = drop 4 rest \<and> timeouts 1 io'"
    by (rule loop_blocks)
      (use r(2) blocks room pl pause in \<open>simp_all add: st1_def zero_State_def status_done_def receiver_ok_def\<close>)
  then obtain st' io' where l: "receive_loop 0 zero_Packet ?st ?io buf =
      Some (st', io', splice buf 0 (concat blocks))"
    "totalReceivedSize st' = 1024 * length blocks" "expectedSize st' = n" "rx io' = drop 4 rest" "timeouts 1 io'"
    using loop_step [OF r(1) st0(1)] by (auto simp: st1_def zero_State_def)
  then show ?thesis
    using n timeouts_purge [OF l(5)] by (simp add: ymodem_receive_def XYMODEM_Receive_def Let_def XYMODEM_SendReadyChar_def
        putchar_def zero_State_def min_def)
qed

lemma receiver_in_buffer:
  assumes "length buf \<le> 2 ^ 63"
  shows "\<exists>n io' buf'. ymodem_receive io buf (length buf) = Some (n, io', buf') \<and>
    n \<le> length buf \<and> length buf' = length buf"
proof -
  obtain st0 io0 where s: "XYMODEM_SendReadyChar (zero_State\<lparr>maxSize := length buf, protocol := YMODEM\<rparr>) io = (st0, io0)"
    by (metis surj_pair)
  then have st0: "st0 = zero_State\<lparr>maxSize := length buf, protocol := YMODEM\<rparr>"
    by (simp add: XYMODEM_SendReadyChar_def)
  have "receiver_ok zero_Packet st0 buf"
    using assms by (simp add: receiver_ok_def st0 zero_State_def zero_Packet_def)
  then obtain st' io' buf' where "receive_loop 0 zero_Packet st0 io0 buf = Some (st', io', buf')"
    "totalReceivedSize st' \<le> length buf" "length buf' = length buf"
    using loop_ok by blast
  then show ?thesis
    using s st0 by (auto simp: ymodem_receive_def XYMODEM_Receive_def Let_def zero_State_def)
qed

section \<open>Properties\<close>

text \<open>
  C8. Whatever arrives on the line, the receiver returns, never copies outside the caller's
  buffer, and reports at most the size of the buffer.
\<close>

theorem ymodem_stays_in_buffer:
  assumes "length buf \<le> 2 ^ 63"
  shows "\<exists>n io' buf'. ymodem_receive io buf (length buf) = Some (n, io', buf') \<and>
    n \<le> length buf \<and> length buf' = length buf"
  using receiver_in_buffer [OF assms] .

theorem ymodem_stays_in_buffer_witness:
  "\<exists>n io' buf'. ymodem_receive \<lparr>rx = [Some 1, None, Some 0x18], tx = []\<rparr> (replicate 200 0) 200 = Some (n, io', buf') \<and>
    n \<le> 200 \<and> length buf' = 200"
  using ymodem_stays_in_buffer [of "replicate 200 0" "\<lparr>rx = [Some 1, None, Some 0x18], tx = []\<rparr>"] by simp

text \<open>
  C24. A session of a well-behaved sender is received exactly: with the name and size in block
  0, 1024-byte data blocks in order and the end marker, the call returns the announced size and
  the buffer starts with the data sent, as long as the blocks are strictly smaller than the
  buffer (a file that fills the last byte is refused).
\<close>

theorem ymodem_roundtrip:
  assumes "\<forall>c \<in> set name. c \<noteq> 0" and "length name + 1 + length (decimal (length file)) < 128"
    and "file \<noteq> []" and "concat blocks = file @ padding" and "\<forall>ds \<in> set blocks. length ds = 1024"
    and "1024 * length blocks < length buf" and "length buf \<le> 2 ^ 63"
  shows "\<exists>io' buf'. ymodem_receive \<lparr>rx = session name (length file) blocks, tx = sent\<rparr> buf (length buf) =
    Some (length file, io', buf') \<and> take (length file) buf' = file"
proof -
  have l: "length (concat blocks) = 1024 * length blocks"
    using assms(5) by (induction blocks) auto
  then have n: "0 < length file" "length file \<le> 1024 * length blocks" using assms(3,4) by auto
  obtain io' where "ymodem_receive \<lparr>rx = session name (length file) blocks, tx = sent\<rparr> buf (length buf) =
      Some (length file, io', splice buf 0 (concat blocks))"
    using session_received [OF assms(1,2) n assms(5-7), of "[]" sent] by auto
  then show ?thesis using assms(4) by (simp add: splice_def)
qed

theorem ymodem_roundtrip_witness:
  "\<exists>io' buf'. ymodem_receive \<lparr>rx = session [0x61] 3 [[7, 8, 9] @ replicate 1021 0x1A], tx = []\<rparr>
      (replicate 2000 0) 2000 = Some (3, io', buf') \<and> take 3 buf' = [7, 8, 9]"
  using ymodem_roundtrip [of "[0x61]" "[7, 8, 9]" "[[7, 8, 9] @ replicate 1021 0x1A]" "replicate 1021 0x1A"
      "replicate 2000 0" "[]"]
  by (simp add: decimal.simps numeral_3_eq_3)

text \<open>
  A header block that had to be sent twice is not recognised: when the first packet was
  corrupt, the good copy of block 0 is the second packet received, so it is stored as 128 bytes
  of file data, and the announced size is lost.
\<close>

theorem ymodem_header_retry_stored_as_data:
  assumes "rx io = frame XYMODEM_SOH 0 (header_block name n) @ cs"
    and "length name + 1 + length (decimal n) < 128"
    and "\<not> status_done st" "\<not> eotReceived st" "expectedBlkNum st = 0" "totalReceivedSize st = 0"
    and "numReceivedPackets st = 1" "receiver_ok p st buf" "128 < maxSize st"
  shows "\<exists>p' st' io'. receive_round retries p st io buf =
      Some (False, retries, p', st', io', splice buf 0 (header_block name n)) \<and>
    totalReceivedSize st' = 128 \<and> expectedSize st' = expectedSize st"
proof -
  have hb: "length (header_block name n) = 128" using length_header_block [OF assms(2)] .
  have pl: "length (pbuffer p) = 1026" using assms(8) by (simp add: receiver_ok_def)
  note R = read_frame [OF assms(1) _ assms(3,4) assms(5) [symmetric] pl]
  have tk: "take 128 (splice (pbuffer p) 0 (header_block name n @ crc_bytes (header_block name n))) = header_block name n"
    using hb by (simp add: splice_def)
  show ?thesis
    using assms(3-9) R hb tk
    by (auto simp: receive_round_def Let_def accept_packet_def status_done_def memcpy_to_def receiver_ok_def)
qed

theorem ymodem_header_retry_stored_as_data_witness:
  "\<exists>p' st' io'. receive_round 1 zero_Packet (zero_State\<lparr>protocol := YMODEM, numReceivedPackets := 1, maxSize := 200\<rparr>)
      \<lparr>rx = frame XYMODEM_SOH 0 (header_block [0x61] 5) @ [], tx = []\<rparr> (replicate 200 0) =
      Some (False, 1, p', st', io', splice (replicate 200 0) 0 (header_block [0x61] 5)) \<and>
    totalReceivedSize st' = 128 \<and> expectedSize st' = 0"
  using ymodem_header_retry_stored_as_data [of "\<lparr>rx = frame XYMODEM_SOH 0 (header_block [0x61] 5) @ [], tx = []\<rparr>"
      "[0x61]" 5 "[]" "zero_State\<lparr>protocol := YMODEM, numReceivedPackets := 1, maxSize := 200\<rparr>"
      zero_Packet "replicate 200 0" 1]
  by (simp add: status_done_def zero_State_def zero_Packet_def receiver_ok_def decimal.simps)

end
