(* ===== verification/Gpt.thy ===== *)
theory Gpt
  imports Crc
begin

text \<open>
  The GUID partition table reader, \<open>services/boot/gpt.c\<close>.

  The block device is the parameter \<open>rb\<close>, the function pointer \<open>readBlockFnPtr\<close>: for a
  byte offset and a count it gives the success flag and the bytes it stores. The structure
  \<open>HSS_GPT_t\<close> is the header block and the two-block entry buffer as bytes; the fields
  are read from them, little endian, at the offsets of the C structures. An access outside the
  structure is \<open>None\<close>, as is a failed assertion. Sizes and indices are 64-bit words, so the
  address arithmetic wraps as in the code.
\<close>

section \<open>Data\<close>

type_synonym read_block = "u64 \<Rightarrow> u64 \<Rightarrow> bool \<times> u8 list"

record HSS_GPT =
  hbuffer :: "u8 list"
  lbaBuffer :: "u8 list"
  lbaSize :: u64
  headerValid :: bool
  partitionEntriesValid :: bool

abbreviation (input) GPT_MAX_LBA_SIZE :: nat where "GPT_MAX_LBA_SIZE \<equiv> 512"

text \<open>\<open>HSS_GPT_Header_t\<close>.\<close>

definition hdr_signature :: "HSS_GPT \<Rightarrow> u8 list" where "hdr_signature g = take 8 (hbuffer g)"
definition hdr_revision :: "HSS_GPT \<Rightarrow> u32" where "hdr_revision g = of_nat (le_at 8 4 (hbuffer g))"
definition hdr_headerSize :: "HSS_GPT \<Rightarrow> u32" where "hdr_headerSize g = of_nat (le_at 12 4 (hbuffer g))"
definition hdr_headerCrc32 :: "HSS_GPT \<Rightarrow> u32" where "hdr_headerCrc32 g = of_nat (le_at 16 4 (hbuffer g))"
definition hdr_currentLBA :: "HSS_GPT \<Rightarrow> u64" where "hdr_currentLBA g = of_nat (le_at 24 8 (hbuffer g))"
definition hdr_startingLBA :: "HSS_GPT \<Rightarrow> u64" where "hdr_startingLBA g = of_nat (le_at 72 8 (hbuffer g))"
definition hdr_numPartitions :: "HSS_GPT \<Rightarrow> u32" where "hdr_numPartitions g = of_nat (le_at 80 4 (hbuffer g))"
definition hdr_sizeOfEntry :: "HSS_GPT \<Rightarrow> u32" where "hdr_sizeOfEntry g = of_nat (le_at 84 4 (hbuffer g))"
definition hdr_entriesCrc32 :: "HSS_GPT \<Rightarrow> u32" where "hdr_entriesCrc32 g = of_nat (le_at 88 4 (hbuffer g))"

text \<open>\<open>HSS_GPT_GUID_t\<close>, and the fields of \<open>HSS_GPT_PartitionEntry_t\<close> in the bytes of an
  entry.\<close>

record HSS_GPT_GUID =
  data1 :: u32
  data2 :: u16
  data3 :: u16
  data4 :: u64

definition guid_at :: "nat \<Rightarrow> u8 list \<Rightarrow> HSS_GPT_GUID" where
  "guid_at off e = \<lparr>data1 = of_nat (le_at off 4 e), data2 = of_nat (le_at (off + 4) 2 e),
     data3 = of_nat (le_at (off + 6) 2 e), data4 = of_nat (le_at (off + 8) 8 e)\<rparr>"

definition partitionTypeGUID :: "u8 list \<Rightarrow> HSS_GPT_GUID" where "partitionTypeGUID e = guid_at 0 e"
definition uniquePartitionGUID :: "u8 list \<Rightarrow> HSS_GPT_GUID" where "uniquePartitionGUID e = guid_at 16 e"
definition firstLBA :: "u8 list \<Rightarrow> u64" where "firstLBA e = of_nat (le_at 32 8 e)"

section \<open>Operations\<close>

text \<open>The manually chosen boot partition, two static variables.\<close>

record boot_partition =
  bootPartitionIndexValid :: bool
  bootPartitionIndex :: u64

definition GPT_SetBootPartitionIndex :: "u64 \<Rightarrow> boot_partition \<Rightarrow> boot_partition" where
  "GPT_SetBootPartitionIndex index s = s\<lparr>bootPartitionIndexValid := True, bootPartitionIndex := index\<rparr>"

definition GPT_GetBootPartitionIndex :: "u64 \<Rightarrow> boot_partition \<Rightarrow> bool \<times> u64" where
  "GPT_GetBootPartitionIndex index s =
     (bootPartitionIndexValid s, if bootPartitionIndexValid s then bootPartitionIndex s else index)"

definition GPT_EXPECTED_SIGNATURE :: "u8 list" where
  "GPT_EXPECTED_SIGNATURE = [0x45, 0x46, 0x49, 0x20, 0x50, 0x41, 0x52, 0x54]"

text \<open>The header checksum: \<open>headerSize\<close> bytes from the header on, with the checksum
  field zero. The structure has 1536 bytes from there.\<close>

definition header_checksum :: "HSS_GPT \<Rightarrow> u32 option" where
  "header_checksum g =
     map_option CRC32_calculate
       (slice 0 (unat (hdr_headerSize g)) (splice (hbuffer g) 16 [0, 0, 0, 0] @ lbaBuffer g))"

definition GPT_ValidateHeader :: "HSS_GPT \<Rightarrow> (bool \<times> HSS_GPT) option" where
  "GPT_ValidateHeader g =
     (if hdr_signature g \<noteq> GPT_EXPECTED_SIGNATURE then Some (False, g)
      else if hdr_revision g \<noteq> 0x00010000 then Some (False, g)
      else do {
        checksum \<leftarrow> header_checksum g;
        if checksum \<noteq> hdr_headerCrc32 g then Some (False, g)
        else if hdr_currentLBA g \<noteq> 1 then Some (False, g)
        else if hdr_startingLBA g \<noteq> 2 then Some (False, g)
        else Some (True, g\<lparr>headerValid := True\<rparr>) })"

definition GPT_ReadHeader :: "read_block \<Rightarrow> HSS_GPT \<Rightarrow> (bool \<times> HSS_GPT) option" where
  "GPT_ReadHeader rb g =
     (let (ok, bs) = rb (1 * lbaSize g) (lbaSize g) in
      do { h \<leftarrow> memcpy_to 0 bs (hbuffer g);
           let g = g\<lparr>hbuffer := h\<rparr>;
           if \<not> ok then Some (False, g) else GPT_ValidateHeader g })"

text \<open>The result is the offset of the entry in the buffer, if it was read.\<close>

definition ReadPartitionEntryIntoBuffer :: "read_block \<Rightarrow> u64 \<Rightarrow> u64 \<Rightarrow> HSS_GPT
    \<Rightarrow> (u64 option \<times> HSS_GPT) option" where
  "ReadPartitionEntryIntoBuffer rb lbaIndex partitionIndex g =
     (let offset = ucast (hdr_sizeOfEntry g) * partitionIndex - (lbaIndex - hdr_startingLBA g) * lbaSize g;
          (ok, bs) = rb (lbaIndex * lbaSize g) (lbaSize g)
      in do {
        b \<leftarrow> memcpy_to 0 bs (lbaBuffer g);
        let g = g\<lparr>lbaBuffer := b\<rparr>;
        if \<not> ok then Some (None, g)
        else if offset \<ge> lbaSize g then do {
          let (ok, bs) = rb ((lbaIndex + 1) * lbaSize g) (lbaSize g);
          b \<leftarrow> memcpy_to (unat (lbaSize g)) bs (lbaBuffer g);
          Some (if ok then Some offset else None, g\<lparr>lbaBuffer := b\<rparr>) }
        else Some (Some offset, g) })"

definition CheckIfGUIDMatch :: "HSS_GPT_GUID \<Rightarrow> HSS_GPT_GUID \<Rightarrow> bool" where
  "CheckIfGUIDMatch a b \<longleftrightarrow>
     data1 a = data1 b \<and> data2 a = data2 b \<and> data3 a = data3 b \<and> data4 a = data4 b"

definition CheckIfTypeIdMatch :: "u8 list \<Rightarrow> HSS_GPT_GUID \<Rightarrow> bool" where
  "CheckIfTypeIdMatch e guid = CheckIfGUIDMatch (partitionTypeGUID e) guid"

definition CheckIfUniqueIdMatch :: "u8 list \<Rightarrow> HSS_GPT_GUID \<Rightarrow> bool" where
  "CheckIfUniqueIdMatch e guid = CheckIfGUIDMatch (uniquePartitionGUID e) guid"

definition entry_lba :: "u64 \<Rightarrow> HSS_GPT \<Rightarrow> u64" where
  "entry_lba partitionIndex g =
     hdr_startingLBA g + (partitionIndex * ucast (hdr_sizeOfEntry g)) div lbaSize g"

text \<open>The bytes a pointer to an entry gives access to.\<close>

definition entry_bytes :: "u64 \<Rightarrow> nat \<Rightarrow> HSS_GPT \<Rightarrow> u8 list option" where
  "entry_bytes offset n g = slice (unat offset) n (lbaBuffer g)"

text \<open>A failed read leaves a null pointer, which is dereferenced when the index is valid.\<close>

definition GPT_PartitionIdToLBAOffset :: "read_block \<Rightarrow> u64 \<Rightarrow> HSS_GPT
    \<Rightarrow> (u64 option \<times> HSS_GPT) option" where
  "GPT_PartitionIdToLBAOffset rb partitionIndex g =
     do { (p, g) \<leftarrow> ReadPartitionEntryIntoBuffer rb (entry_lba partitionIndex g) partitionIndex g;
          if partitionIndex < ucast (hdr_numPartitions g) then
            (case p of
               None \<Rightarrow> None
             | Some offset \<Rightarrow> map_option (\<lambda>e. (Some (firstLBA e), g)) (entry_bytes offset 128 g))
          else Some (None, g) }"

definition GPT_ReadPartitionEntryByIndex :: "read_block \<Rightarrow> u64 \<Rightarrow> HSS_GPT
    \<Rightarrow> (u64 option \<times> HSS_GPT) option" where
  "GPT_ReadPartitionEntryByIndex rb partitionIndex g =
     ReadPartitionEntryIntoBuffer rb (entry_lba partitionIndex g) partitionIndex g"

text \<open>The search; every read is asserted to succeed. The result is the index found.\<close>

fun find_loop :: "read_block \<Rightarrow> (u8 list \<Rightarrow> bool) \<Rightarrow> u64 \<Rightarrow> nat list \<Rightarrow> HSS_GPT
    \<Rightarrow> (u64 option \<times> HSS_GPT) option" where
  "find_loop rb matches from [] g = Some (None, g)"
| "find_loop rb matches from (i # is) g =
     do { (p, g) \<leftarrow> GPT_ReadPartitionEntryByIndex rb (of_nat i) g;
          case p of
            None \<Rightarrow> None
          | Some offset \<Rightarrow>
              if of_nat i < from then find_loop rb matches from is g
              else do {
                e \<leftarrow> entry_bytes offset 128 g;
                if matches e then Some (Some (of_nat i), g) else find_loop rb matches from is g } }"

definition FindPartitionById :: "read_block \<Rightarrow> HSS_GPT_GUID \<Rightarrow> (u8 list \<Rightarrow> HSS_GPT_GUID \<Rightarrow> bool) \<Rightarrow> u64
    \<Rightarrow> HSS_GPT \<Rightarrow> (u64 option \<times> HSS_GPT) option" where
  "FindPartitionById rb guid check from g =
     find_loop rb (\<lambda>e. check e guid) from [0 ..< unat (hdr_numPartitions g)] g"

definition GPT_FindPartitionByTypeId :: "read_block \<Rightarrow> HSS_GPT_GUID \<Rightarrow> u64 \<Rightarrow> HSS_GPT
    \<Rightarrow> (u64 option \<times> HSS_GPT) option" where
  "GPT_FindPartitionByTypeId rb guid from g = FindPartitionById rb guid CheckIfTypeIdMatch from g"

definition GPT_FindPartitionByUniqueId :: "read_block \<Rightarrow> HSS_GPT_GUID \<Rightarrow> u64 \<Rightarrow> HSS_GPT
    \<Rightarrow> (u64 option \<times> HSS_GPT) option" where
  "GPT_FindPartitionByUniqueId rb guid from g = FindPartitionById rb guid CheckIfUniqueIdMatch from g"

fun entries_crc_loop :: "read_block \<Rightarrow> nat list \<Rightarrow> u32 \<Rightarrow> HSS_GPT \<Rightarrow> (u32 option \<times> HSS_GPT) option" where
  "entries_crc_loop rb [] crc g = Some (Some crc, g)"
| "entries_crc_loop rb (i # is) crc g =
     do { (p, g) \<leftarrow> ReadPartitionEntryIntoBuffer rb (entry_lba (of_nat i) g) (of_nat i) g;
          case p of
            None \<Rightarrow> Some (None, g)
          | Some offset \<Rightarrow> do {
              e \<leftarrow> entry_bytes offset (unat (hdr_sizeOfEntry g)) g;
              entries_crc_loop rb is (CRC32_calculate_ex crc e) g } }"

definition GPT_ValidatePartitionEntries :: "read_block \<Rightarrow> HSS_GPT \<Rightarrow> (bool \<times> HSS_GPT) option" where
  "GPT_ValidatePartitionEntries rb g =
     do { (crc, g) \<leftarrow> entries_crc_loop rb [0 ..< unat (hdr_numPartitions g)] 0 g;
          Some (if crc = Some (hdr_entriesCrc32 g) then (True, g\<lparr>partitionEntriesValid := True\<rparr>)
                else (False, g)) }"

definition diskGUID_boot :: HSS_GPT_GUID where
  "diskGUID_boot = \<lparr>data1 = 0x21686148, data2 = 0x6449, data3 = 0x6E6F, data4 = 0x4946456465654e74\<rparr>"

definition GPT_FindBootSectorIndex :: "read_block \<Rightarrow> u64 \<Rightarrow> HSS_GPT \<Rightarrow> (u64 option \<times> HSS_GPT) option" where
  "GPT_FindBootSectorIndex rb srcIndex g =
     do { (result, g) \<leftarrow> (if headerValid g then Some (True, g) else GPT_ValidateHeader g);
          (result, g) \<leftarrow> (if partitionEntriesValid g then Some (True, g)
                          else GPT_ValidatePartitionEntries rb g);
          if result then GPT_FindPartitionByTypeId rb diskGUID_boot srcIndex g
          else Some (None, g) }"

definition GPT_Init :: "HSS_GPT \<Rightarrow> HSS_GPT" where
  "GPT_Init g = g\<lparr>headerValid := False, partitionEntriesValid := False\<rparr>"

section \<open>Reading entries from a disk\<close>

text \<open>A device that always works and holds the bytes \<open>disk\<close>; and the layouts the format
  prescribes: 512-byte blocks, the array from block 2 on, entries of 128, 256 or 512 bytes.\<close>

definition disk_reader :: "(nat \<Rightarrow> u8) \<Rightarrow> read_block" where
  "disk_reader disk off n = (True, map disk [unat off ..< unat off + unat n])"

definition entry_size :: "HSS_GPT \<Rightarrow> nat" where "entry_size g = unat (hdr_sizeOfEntry g)"

definition gpt_layout :: "HSS_GPT \<Rightarrow> bool" where
  "gpt_layout g \<longleftrightarrow> length (hbuffer g) = 512 \<and> length (lbaBuffer g) = 1024 \<and> lbaSize g = 512 \<and>
     hdr_startingLBA g = 2 \<and> 128 \<le> entry_size g \<and> entry_size g dvd 512"

definition disk_entry :: "(nat \<Rightarrow> u8) \<Rightarrow> nat \<Rightarrow> nat \<Rightarrow> u8 list" where
  "disk_entry disk s i = map disk [1024 + s * i ..< 1024 + s * i + s]"

lemma hdr_fields_lba [simp]:
  "hdr_startingLBA (g\<lparr>lbaBuffer := b\<rparr>) = hdr_startingLBA g"
  "hdr_sizeOfEntry (g\<lparr>lbaBuffer := b\<rparr>) = hdr_sizeOfEntry g"
  "hdr_numPartitions (g\<lparr>lbaBuffer := b\<rparr>) = hdr_numPartitions g"
  "hdr_entriesCrc32 (g\<lparr>lbaBuffer := b\<rparr>) = hdr_entriesCrc32 g"
  "entry_lba i (g\<lparr>lbaBuffer := b\<rparr>) = entry_lba i g"
  "entry_size (g\<lparr>lbaBuffer := b\<rparr>) = entry_size g"
  by (simp_all add: hdr_startingLBA_def hdr_sizeOfEntry_def hdr_numPartitions_def hdr_entriesCrc32_def
      entry_lba_def entry_size_def)

lemma gpt_layout_lba [simp]: "length b = 1024 \<Longrightarrow> gpt_layout g \<Longrightarrow> gpt_layout (g\<lparr>lbaBuffer := b\<rparr>)"
  by (simp add: gpt_layout_def)

text \<open>The offset computation is a remainder, whatever the header says, so the test for the second
  block is never true.\<close>

lemma entry_offset:
  "ucast (hdr_sizeOfEntry g) * i - (entry_lba i g - hdr_startingLBA g) * lbaSize g =
    (i * ucast (hdr_sizeOfEntry g)) mod lbaSize g"
  unfolding entry_lba_def
  by (simp only: add_diff_cancel_left' mult.commute [of "ucast (hdr_sizeOfEntry g)" i] minus_div_mult_eq_mod)

lemma entry_offset_less:
  assumes "lbaSize g \<noteq> 0"
  shows "(i * ucast (hdr_sizeOfEntry g)) mod lbaSize g < lbaSize g"
proof -
  have "0 < unat (lbaSize g)" using assms by (simp add: unat_gt_0)
  then show ?thesis by (simp add: word_less_nat_alt unat_mod)
qed

lemma index_product:
  assumes "i < 2 ^ 32"
  shows "unat ((of_nat i :: u64) * ucast (hdr_sizeOfEntry g)) = entry_size g * i"
proof -
  have s: "entry_size g < 2 ^ 32" using unsigned_less [of "hdr_sizeOfEntry g"] by (simp add: entry_size_def)
  then have "entry_size g * i \<le> (2 ^ 32 - 1) * (2 ^ 32 - 1)"
    using assms by (intro mult_le_mono) auto
  then have "entry_size g * i < 2 ^ 64" by simp
  moreover have "unat (of_nat i :: u64) = i" using assms by (subst unat_of_nat) simp
  moreover have "unat (ucast (hdr_sizeOfEntry g) :: u64) = entry_size g"
    using s by (simp add: entry_size_def unsigned_ucast_eq take_bit_nat_eq_self)
  ultimately show ?thesis
    by (simp add: unat_word_ariths mult.commute)
qed

lemma entry_position:
  fixes s i :: nat
  assumes "s dvd 512" "0 < s"
  shows "s * i div 512 * 512 + s * i mod 512 = s * i" "s * i mod 512 + s \<le> 512"
proof -
  show "s * i div 512 * 512 + s * i mod 512 = s * i" by simp
  obtain k where k: "512 = s * k" using assms(1) by (metis dvdE)
  have "s * i mod 512 = s * (i mod k)" unfolding k by simp
  moreover have "i mod k < k" using k by (intro mod_less_divisor) (cases k; simp)
  then have "s * (i mod k) + s \<le> s * k" by (metis Suc_leI mult_Suc_right add.commute mult_le_mono2)
  ultimately show "s * i mod 512 + s \<le> 512" using k by (simp only:)
qed

lemma take_drop_map_upt:
  "a + k + n \<le> b \<Longrightarrow> take n (drop k (map f [a ..< b])) = map f [a + k ..< a + k + n]"
  by (simp add: take_map drop_map drop_upt take_upt)

lemma read_entry:
  assumes g: "gpt_layout g" and i: "i < 2 ^ 32"
  shows "\<exists>offset b. ReadPartitionEntryIntoBuffer (disk_reader disk) (entry_lba (of_nat i) g) (of_nat i) g =
      Some (Some offset, g\<lparr>lbaBuffer := b\<rparr>) \<and> length b = 1024 \<and>
    drop 512 b = drop 512 (lbaBuffer g) \<and>
    (\<forall>n \<le> entry_size g. entry_bytes offset n (g\<lparr>lbaBuffer := b\<rparr>) = Some (take n (disk_entry disk (entry_size g) i)))"
proof -
  let ?s = "entry_size g"
  let ?m = "(of_nat i :: u64) * ucast (hdr_sizeOfEntry g)"
  let ?off = "?m mod lbaSize g"
  let ?pos = "entry_lba (of_nat i) g * lbaSize g"
  have L: "length (hbuffer g) = 512" "length (lbaBuffer g) = 1024" "lbaSize g = 512"
    "hdr_startingLBA g = 2" "128 \<le> ?s" "?s dvd 512" using g by (auto simp: gpt_layout_def)
  have s: "0 < ?s" "?s \<le> 512" using L by (auto dest: dvd_imp_le)
  have um: "unat ?m = ?s * i" by (rule index_product [OF i])
  have off: "unat ?off = ?s * i mod 512" using um L(3) by (simp add: unat_mod)
  have dv: "unat (?m div lbaSize g) = ?s * i div 512" using um L(3) by (simp add: unat_div)
  have si: "?s * i < 512 * 2 ^ 32" using s i by (intro mult_le_less_imp_less) auto
  then have "?s * i div 512 < 2 ^ 32" by (simp add: less_mult_imp_div_less mult.commute)
  then have pos: "unat ?pos = 1024 + ?s * i div 512 * 512"
    using dv L(3,4) by (simp add: entry_lba_def unat_word_ariths)
  let ?blk = "map disk [unat ?pos ..< unat ?pos + 512]"
  let ?b = "splice (lbaBuffer g) 0 ?blk"
  have lt: "?off < lbaSize g" using entry_offset_less [of g "of_nat i"] L(3) by simp
  have rd: "ReadPartitionEntryIntoBuffer (disk_reader disk) (entry_lba (of_nat i) g) (of_nat i) g =
      Some (Some ?off, g\<lparr>lbaBuffer := ?b\<rparr>)"
    using lt L(2,3) unfolding ReadPartitionEntryIntoBuffer_def entry_offset
    by (simp add: disk_reader_def memcpy_to_def Let_def not_le)
  have "entry_bytes ?off n (g\<lparr>lbaBuffer := ?b\<rparr>) = Some (take n (disk_entry disk ?s i))" if n: "n \<le> ?s" for n
  proof -
    let ?o = "?s * i mod 512"
    have P: "?s * i div 512 * 512 + ?o = ?s * i" "?o + ?s \<le> 512" using entry_position [OF L(6) s(1)] by auto
    have bl: "length ?blk = 512" by simp
    have "take n (drop ?o ?b) = take n (drop ?o ?blk)"
      using P(2) n bl by (simp add: splice_def)
    also have "\<dots> = map disk [1024 + ?s * i ..< 1024 + ?s * i + n]"
    proof -
      define q where "q = ?s * i div 512 * 512"
      have e: "1024 + q + ?o = 1024 + ?s * i" using P(1) by (simp only: q_def add.assoc)
      have "1024 + q + ?o + n \<le> 1024 + q + 512" using P n unfolding q_def by linarith
      then show ?thesis
        unfolding pos q_def [symmetric] by (simp only: take_drop_map_upt e)
    qed
    also have "\<dots> = take n (disk_entry disk ?s i)"
      using n by (simp add: disk_entry_def take_map take_upt)
    finally show ?thesis
      using P(2) n L(2) bl by (simp add: entry_bytes_def slice_def off)
  qed
  then show ?thesis
    using rd L(2) by (intro exI [of _ ?off] exI [of _ ?b]) (auto simp: splice_def)
qed

lemma find_loop_disk:
  assumes "gpt_layout g" "\<forall>i \<in> set is. i < 2 ^ 32"
  shows "\<exists>b. find_loop (disk_reader disk) matches from is g =
      Some (map_option of_nat (List.find (\<lambda>i. \<not> of_nat i < from \<and> matches (take 128 (disk_entry disk (entry_size g) i))) is),
            g\<lparr>lbaBuffer := b\<rparr>) \<and> length b = 1024"
  using assms
proof (induction "is" arbitrary: g)
  case Nil
  then show ?case by (auto simp: gpt_layout_def intro!: exI [of _ "lbaBuffer g"])
next
  case (Cons i "is")
  obtain offset b where r:
    "ReadPartitionEntryIntoBuffer (disk_reader disk) (entry_lba (of_nat i) g) (of_nat i) g =
      Some (Some offset, g\<lparr>lbaBuffer := b\<rparr>)" "length b = 1024"
    "entry_bytes offset 128 (g\<lparr>lbaBuffer := b\<rparr>) = Some (take 128 (disk_entry disk (entry_size g) i))"
    using read_entry [OF Cons.prems(1), of i disk] Cons.prems by (auto simp: gpt_layout_def)
  let ?g = "g\<lparr>lbaBuffer := b\<rparr>"
  have "gpt_layout ?g" using Cons.prems(1) r(2) by simp
  then obtain b' where ih: "find_loop (disk_reader disk) matches from is ?g =
      Some (map_option of_nat (List.find (\<lambda>i. \<not> of_nat i < from \<and> matches (take 128 (disk_entry disk (entry_size g) i))) is),
            g\<lparr>lbaBuffer := b'\<rparr>)" "length b' = 1024"
    using Cons.IH [of ?g] Cons.prems(2) by auto
  show ?case
    using ih r by (auto simp: GPT_ReadPartitionEntryByIndex_def)
qed

lemma entries_crc_disk:
  assumes "gpt_layout g" "\<forall>i \<in> set is. i < 2 ^ 32"
  shows "\<exists>b. entries_crc_loop (disk_reader disk) is crc g =
      Some (Some (CRC32_calculate_ex crc (concat (map (disk_entry disk (entry_size g)) is))),
            g\<lparr>lbaBuffer := b\<rparr>) \<and> length b = 1024"
  using assms
proof (induction "is" arbitrary: g crc)
  case Nil
  then show ?case
    by (auto simp: gpt_layout_def CRC32_calculate_ex_def intro!: exI [of _ "lbaBuffer g"])
next
  case (Cons i "is")
  have len: "length (disk_entry disk (entry_size g) i) = entry_size g" by (simp add: disk_entry_def)
  obtain offset b where r:
    "ReadPartitionEntryIntoBuffer (disk_reader disk) (entry_lba (of_nat i) g) (of_nat i) g =
      Some (Some offset, g\<lparr>lbaBuffer := b\<rparr>)" "length b = 1024"
    "entry_bytes offset (entry_size g) (g\<lparr>lbaBuffer := b\<rparr>) = Some (disk_entry disk (entry_size g) i)"
    using read_entry [OF Cons.prems(1), of i disk] Cons.prems(2) len by force
  let ?g = "g\<lparr>lbaBuffer := b\<rparr>" and ?crc = "CRC32_calculate_ex crc (disk_entry disk (entry_size g) i)"
  have "gpt_layout ?g" using Cons.prems(1) r(2) by simp
  then obtain b' where ih: "entries_crc_loop (disk_reader disk) is ?crc ?g =
      Some (Some (CRC32_calculate_ex ?crc (concat (map (disk_entry disk (entry_size g)) is))),
            g\<lparr>lbaBuffer := b'\<rparr>)" "length b' = 1024"
    using Cons.IH [of ?g ?crc] Cons.prems(2) by auto
  show ?case
    using ih r by (auto simp: entry_size_def CRC32_calculate_ex_def)
qed

lemma concat_entries:
  "concat (map (disk_entry disk s) [0..<n]) = map disk [1024 ..< 1024 + s * n]"
proof (induction n)
  case 0
  then show ?case by simp
next
  case (Suc n)
  have "[1024 ..< 1024 + s * Suc n] = [1024 ..< 1024 + s * n] @ [1024 + s * n ..< 1024 + s * n + s]"
  proof -
    have e: "1024 + s * Suc n = (1024 + s * n) + s" by simp
    show ?thesis unfolding e by (rule upt_add_eq_append) simp
  qed
  then show ?case using Suc by (simp add: disk_entry_def)
qed

lemma find_upt_Some:
  "List.find P [0..<n] = Some i \<longleftrightarrow> i < n \<and> P i \<and> (\<forall>j < i. \<not> P j)"
  by (auto simp: find_Some_iff)

lemma le_at_take: "off + n \<le> m \<Longrightarrow> le_at off n (take m e) = le_at off n e"
  by (simp add: le_at_def drop_take)

lemma type_guid_take: "partitionTypeGUID (take 128 e) = partitionTypeGUID e"
  by (simp add: partitionTypeGUID_def guid_at_def le_at_take)

lemma CheckIfGUIDMatch_eq: "CheckIfGUIDMatch a b \<longleftrightarrow> a = b"
  by (cases a; cases b) (simp add: CheckIfGUIDMatch_def)

lemma numPartitions_less: "unat (hdr_numPartitions g) \<le> 2 ^ 32"
  by (rule less_imp_le, rule order_less_le_trans [OF unsigned_less]) simp

text \<open>A table to state examples on: 4 entries of 128 bytes.\<close>

definition sample_gpt :: HSS_GPT where
  "sample_gpt = \<lparr>hbuffer = splice (splice (splice (replicate 512 0) 72 [2]) 80 [4]) 84 [128],
     lbaBuffer = replicate 1024 0, lbaSize = 512, headerValid = False, partitionEntriesValid = True\<rparr>"

lemma drop_replicate_splice_zeros: "le_nat (replicate n 0) = 0"
  by (induction n) auto

lemma sample_fields:
  "le_at 72 8 (hbuffer sample_gpt) = 2" "le_at 80 4 (hbuffer sample_gpt) = 4"
  "le_at 84 4 (hbuffer sample_gpt) = 128" "length (hbuffer sample_gpt) = 512"
  "take 8 (hbuffer sample_gpt) = replicate 8 0"
  by (simp_all add: sample_gpt_def splice_def le_at_def min_def drop_replicate_splice_zeros)

lemma sample_layout: "gpt_layout sample_gpt"
  by (simp add: gpt_layout_def hdr_startingLBA_def entry_size_def hdr_sizeOfEntry_def sample_fields)
    (simp add: sample_gpt_def)

section \<open>Properties\<close>

text \<open>
  C28. The search by type returns, and finds the first partition at or after the given index whose
  type on the disk is the one asked for; it finds none exactly when there is none.
\<close>

theorem gpt_find_least:
  assumes "gpt_layout g"
  shows "\<exists>r b. GPT_FindPartitionByTypeId (disk_reader disk) guid from g = Some (r, g\<lparr>lbaBuffer := b\<rparr>) \<and>
    (case r of
       None \<Rightarrow> \<forall>i < unat (hdr_numPartitions g). from \<le> of_nat i \<longrightarrow>
         partitionTypeGUID (disk_entry disk (entry_size g) i) \<noteq> guid
     | Some w \<Rightarrow> from \<le> w \<and> unat w < unat (hdr_numPartitions g) \<and>
         partitionTypeGUID (disk_entry disk (entry_size g) (unat w)) = guid \<and>
         (\<forall>j < unat w. from \<le> of_nat j \<longrightarrow> partitionTypeGUID (disk_entry disk (entry_size g) j) \<noteq> guid))"
proof -
  let ?n = "unat (hdr_numPartitions g)"
  let ?P = "\<lambda>i. \<not> of_nat i < from \<and> CheckIfTypeIdMatch (take 128 (disk_entry disk (entry_size g) i)) guid"
  have P: "?P i \<longleftrightarrow> from \<le> of_nat i \<and> partitionTypeGUID (disk_entry disk (entry_size g) i) = guid" for i
    by (simp add: CheckIfTypeIdMatch_def CheckIfGUIDMatch_eq type_guid_take not_less)
  have "\<forall>i \<in> set [0..<?n]. i < 2 ^ 32" using numPartitions_less [of g] by auto
  then obtain b where f: "GPT_FindPartitionByTypeId (disk_reader disk) guid from g =
      Some (map_option of_nat (List.find ?P [0..<?n]), g\<lparr>lbaBuffer := b\<rparr>)"
    using find_loop_disk [OF assms, of "[0..<?n]" disk "\<lambda>e. CheckIfTypeIdMatch e guid" "from"]
    by (auto simp: GPT_FindPartitionByTypeId_def FindPartitionById_def)
  show ?thesis
  proof (cases "List.find ?P [0..<?n]")
    case None
    then have "\<forall>i < ?n. \<not> ?P i" by (auto simp: find_None_iff)
    then show ?thesis using f None P by auto
  next
    case (Some i)
    then have i: "i < ?n" "?P i" "\<forall>j < i. \<not> ?P j" using find_upt_Some [of ?P ?n i] by blast+
    have "unat (of_nat i :: u64) = i"
      using i(1) numPartitions_less [of g] by (subst unat_of_nat) simp
    then show ?thesis using f Some i P by auto
  qed
qed

lemma zero_disk_entry: "disk_entry (\<lambda>_. 0) s i = replicate s 0"
  by (simp add: disk_entry_def map_replicate_const)

lemma zero_guid: "partitionTypeGUID (replicate s 0) = \<lparr>data1 = 0, data2 = 0, data3 = 0, data4 = 0\<rparr>"
  by (simp add: partitionTypeGUID_def guid_at_def le_at_def drop_replicate_splice_zeros)

theorem gpt_find_least_witness:
  "\<exists>b. GPT_FindPartitionByTypeId (disk_reader (\<lambda>_. 0))
      \<lparr>data1 = 0, data2 = 0, data3 = 0, data4 = 0\<rparr> 1 sample_gpt = Some (Some 1, sample_gpt\<lparr>lbaBuffer := b\<rparr>)"
proof -
  let ?guid = "\<lparr>data1 = 0, data2 = 0, data3 = 0, data4 = 0\<rparr> :: HSS_GPT_GUID"
  have n: "unat (hdr_numPartitions sample_gpt) = 4"
    by (simp add: hdr_numPartitions_def sample_fields)
  obtain r b where r: "GPT_FindPartitionByTypeId (disk_reader (\<lambda>_. 0)) ?guid 1 sample_gpt =
      Some (r, sample_gpt\<lparr>lbaBuffer := b\<rparr>)"
    "case r of None \<Rightarrow> \<forall>i < (4::nat). (1 :: u64) \<le> of_nat i \<longrightarrow> False
     | Some w \<Rightarrow> 1 \<le> w \<and> (\<forall>j < unat w. (1 :: u64) \<le> of_nat j \<longrightarrow> False)"
    using gpt_find_least [OF sample_layout, of "\<lambda>_. 0" ?guid 1]
    by (auto simp: zero_disk_entry zero_guid n split: option.splits)
  have "r = Some 1"
  proof (cases r)
    case None
    then show ?thesis using r(2) by (auto dest: spec [of _ 1])
  next
    case (Some w)
    then have w: "1 \<le> w" "\<not> 1 < unat w" using r(2) by auto
    then have "unat w = 1" by (simp add: word_le_nat_alt)
    then show ?thesis using Some by (simp add: word_unat_eq_iff)
  qed
  then show ?thesis using r(1) by (intro exI [of _ b]) simp
qed

text \<open>
  The entry check accepts exactly the tables whose checksum in the header is the CRC-32 of
  the whole partition array on the disk, however the entries fall into blocks.
\<close>

theorem gpt_entries_checksum:
  assumes "gpt_layout g"
  shows "\<exists>r b. GPT_ValidatePartitionEntries (disk_reader disk) g =
      Some (r, g\<lparr>lbaBuffer := b, partitionEntriesValid := (r \<or> partitionEntriesValid g)\<rparr>) \<and>
    (r \<longleftrightarrow> CRC32_calculate (map disk [1024 ..< 1024 + entry_size g * unat (hdr_numPartitions g)]) =
       hdr_entriesCrc32 g)"
proof -
  let ?n = "unat (hdr_numPartitions g)"
  have "\<forall>i \<in> set [0..<?n]. i < 2 ^ 32" using numPartitions_less [of g] by auto
  then obtain b where "entries_crc_loop (disk_reader disk) [0..<?n] 0 g =
      Some (Some (CRC32_calculate (map disk [1024 ..< 1024 + entry_size g * ?n])), g\<lparr>lbaBuffer := b\<rparr>)"
    using entries_crc_disk [OF assms, of "[0..<?n]" disk 0] by (auto simp: concat_entries CRC32_calculate_def)
  then show ?thesis by (auto simp: GPT_ValidatePartitionEntries_def)
qed

theorem gpt_entries_checksum_witness:
  "\<exists>r b. GPT_ValidatePartitionEntries (disk_reader (\<lambda>_. 0)) sample_gpt =
      Some (r, sample_gpt\<lparr>lbaBuffer := b, partitionEntriesValid := True\<rparr>) \<and>
    (r \<longleftrightarrow> CRC32_calculate (map (\<lambda>_. 0) [1024 ..< 1024 + 128 * 4]) = 0)"
proof -
  have f: "unat (hdr_numPartitions sample_gpt) = 4" "entry_size sample_gpt = 128"
    "hdr_entriesCrc32 sample_gpt = 0" "partitionEntriesValid sample_gpt"
    by (simp_all add: hdr_numPartitions_def entry_size_def hdr_sizeOfEntry_def sample_fields)
      (simp_all add: hdr_entriesCrc32_def le_at_def sample_gpt_def splice_def min_def drop_replicate_splice_zeros)
  show ?thesis
    using gpt_entries_checksum [OF sample_layout, of "\<lambda>_. 0"] by (simp only: f simp_thms)
qed

text \<open>
  A single changed byte anywhere in the part of the header the checksum covers is caught,
  outside the size field itself: a header that validates no longer does.
\<close>

theorem gpt_header_corruption_detected:
  assumes "length (hbuffer g) = 512" and "GPT_ValidateHeader g = Some (True, g')"
    and "p < unat (hdr_headerSize g)" "p < 512" "p < 12 \<or> 16 \<le> p" "b \<noteq> hbuffer g ! p"
  shows "\<exists>g''. GPT_ValidateHeader (g\<lparr>hbuffer := (hbuffer g)[p := b]\<rparr>) = Some (False, g'')"
proof -
  let ?g = "g\<lparr>hbuffer := (hbuffer g)[p := b]\<rparr>" and ?z = "[0, 0, 0, 0] :: u8 list"
  let ?hs = "unat (hdr_headerSize g)"
  let ?ys = "take ?hs (splice (hbuffer g) 16 ?z @ lbaBuffer g)"
  have V: "header_checksum g = Some (hdr_headerCrc32 g)"
    using assms(2) by (auto simp: GPT_ValidateHeader_def split: if_splits bind_splits)
  have hs: "hdr_headerSize ?g = hdr_headerSize g"
    using assms(5) by (auto simp: hdr_headerSize_def le_field_same)
  have len: "?hs \<le> 512 + length (lbaBuffer g)"
    using V assms(1) by (auto simp: header_checksum_def slice_def split: if_splits)
  have old: "CRC32_calculate ?ys = hdr_headerCrc32 g"
    using V by (auto simp: header_checksum_def slice_def split: if_splits)
  have "\<exists>c. header_checksum ?g = Some c \<and> c \<noteq> hdr_headerCrc32 ?g"
  proof (cases "p < 20 \<and> 16 \<le> p")
    case True
    have "splice ((hbuffer g)[p := b]) 16 ?z = splice (hbuffer g) 16 ?z"
      using True assms(1) by (intro nth_equalityI) (auto simp: splice_def nth_append nth_list_update min_def)
    then have "header_checksum ?g = header_checksum g" by (simp add: header_checksum_def hs)
    moreover have "hdr_headerCrc32 ?g \<noteq> hdr_headerCrc32 g"
      using True assms(1,6) le_field_changed [of 16 p "hbuffer g" b] by (simp add: hdr_headerCrc32_def)
    ultimately show ?thesis using V by auto
  next
    case False
    have sp: "splice ((hbuffer g)[p := b]) 16 ?z = (splice (hbuffer g) 16 ?z)[p := b]"
      using False assms(1) by (intro splice_update) auto
    have "header_checksum ?g = Some (CRC32_calculate (?ys[p := b]))"
      using len assms(1,4) by (simp add: header_checksum_def hs slice_def sp take_update_swap
          flip: list_update_append1)
    moreover have "?ys ! p = hbuffer g ! p"
      using False assms(1,3,4) by (auto simp: splice_def nth_append min_def)
    then have "CRC32_calculate (?ys[p := b]) \<noteq> hdr_headerCrc32 g"
      using crc32_changed [of p ?ys b] old assms(1,3,4,6) by simp
    moreover have "hdr_headerCrc32 ?g = hdr_headerCrc32 g"
      using False assms(1) by (auto simp: hdr_headerCrc32_def le_field_same)
    ultimately show ?thesis by auto
  qed
  then show ?thesis by (auto simp: GPT_ValidateHeader_def)
qed

definition valid_gpt :: HSS_GPT where
  "valid_gpt = \<lparr>hbuffer = ([0x45, 0x46, 0x49, 0x20, 0x50, 0x41, 0x52, 0x54, 0, 0, 1, 0, 1, 0, 0, 0,
       0x92, 0x5a, 0xb4, 0xd4, 0, 0, 0, 0, 1, 0, 0, 0, 0, 0, 0, 0] @ replicate 40 0) @ [2] @ replicate 439 0,
     lbaBuffer = replicate 1024 0, lbaSize = 512, headerValid = False, partitionEntriesValid = False\<rparr>"

lemma crc32_E: "CRC32_calculate [0x45] = 0xd4b45a92"
  by code_simp

lemma valid_gpt_valid: "GPT_ValidateHeader valid_gpt = Some (True, valid_gpt\<lparr>headerValid := True\<rparr>)"
proof -
  have f: "hdr_signature valid_gpt = GPT_EXPECTED_SIGNATURE" "hdr_revision valid_gpt = 0x00010000"
    "hdr_headerSize valid_gpt = 1" "hdr_headerCrc32 valid_gpt = 0xd4b45a92" "hdr_currentLBA valid_gpt = 1"
    by (simp_all add: valid_gpt_def hdr_signature_def GPT_EXPECTED_SIGNATURE_def hdr_revision_def
        hdr_headerSize_def hdr_headerCrc32_def hdr_currentLBA_def le_at_def)
  have s: "hdr_startingLBA valid_gpt = 2"
  proof -
    have "drop 72 (hbuffer valid_gpt) = [2] @ replicate 439 0"
      unfolding valid_gpt_def by simp
    then show ?thesis
      by (simp add: hdr_startingLBA_def le_at_def drop_replicate_splice_zeros)
  qed
  have c: "header_checksum valid_gpt = Some 0xd4b45a92"
    unfolding header_checksum_def f(3) by (simp add: slice_def splice_def valid_gpt_def crc32_E)
  show ?thesis by (simp add: GPT_ValidateHeader_def f s c)
qed

theorem gpt_header_corruption_detected_witness:
  "\<exists>g''. GPT_ValidateHeader (valid_gpt\<lparr>hbuffer := (hbuffer valid_gpt)[0 := 0x46]\<rparr>) = Some (False, g'')"
proof -
  have "length (hbuffer valid_gpt) = 512" "hbuffer valid_gpt ! 0 = 0x45" "hdr_headerSize valid_gpt = 1"
    by (simp_all add: valid_gpt_def hdr_headerSize_def le_at_def)
  then show ?thesis
    using gpt_header_corruption_detected [OF _ valid_gpt_valid, of 0 "0x46"] by simp
qed

text \<open>
  The header's validity plays no part in finding the boot partition: once the partition array
  has been accepted, a table without the signature, or with any other bad header, is searched just
  the same.
\<close>

theorem gpt_invalid_header_ignored:
  assumes "partitionEntriesValid g" "\<not> headerValid g" "hdr_signature g \<noteq> GPT_EXPECTED_SIGNATURE"
  shows "fst (the (GPT_ValidateHeader g)) = False \<and>
    GPT_FindBootSectorIndex rb srcIndex g = GPT_FindPartitionByTypeId rb diskGUID_boot srcIndex g"
  using assms by (simp add: GPT_FindBootSectorIndex_def GPT_ValidateHeader_def)

theorem gpt_invalid_header_ignored_witness:
  "fst (the (GPT_ValidateHeader sample_gpt)) = False \<and>
    GPT_FindBootSectorIndex (disk_reader (\<lambda>_. 0)) 0 sample_gpt =
      GPT_FindPartitionByTypeId (disk_reader (\<lambda>_. 0)) diskGUID_boot 0 sample_gpt"
proof -
  have "hdr_signature sample_gpt \<noteq> GPT_EXPECTED_SIGNATURE"
    using sample_fields(5) by (auto simp: hdr_signature_def GPT_EXPECTED_SIGNATURE_def dest!: arg_cong [of _ _ hd])
  moreover have "partitionEntriesValid sample_gpt" "\<not> headerValid sample_gpt"
    by (simp_all add: sample_gpt_def)
  ultimately show ?thesis by (rule gpt_invalid_header_ignored [rotated 2])
qed

end
