(* ===== verification/Harts.thy ===== *)
theory Harts
  imports Hss_Base
begin

text \<open>
  What the E51 knows of the application harts: the state each last reported
  (\<open>application/hart1-4/u54_state.c\<close>) and the ledger of the domains they belong to
  (\<open>services/opensbi/platform.c\<close>, the part between the boot service and OpenSBI).
  \<open>None\<close> is a failed assertion or an index outside an array.
\<close>

section \<open>Hart states\<close>

datatype HSSHartState =
    HSS_State_Idle | HSS_State_Booting | HSS_State_SBIHartInit | HSS_State_SBIWaitForColdboot
  | HSS_State_Running | HSS_State_Trap | HSS_State_Fatal

record U54_State =
  hartStates :: "HSSHartState list"
  reportingFlag :: bool

definition u54_static :: U54_State where
  "u54_static = \<lparr>hartStates = replicate HSS_HART_NUM_PEERS HSS_State_Idle, reportingFlag = False\<rparr>"

definition is_u54 :: "hart_id \<Rightarrow> bool" where
  "is_u54 h \<longleftrightarrow> HSS_HART_U54_1 \<le> h \<and> h \<le> HSS_HART_U54_4"

text \<open>
  The kit's configuration has no \<open>CONFIG_ALLOW_COLDREBOOT_ON_OPENSBI_FAULT\<close>, so a
  fatal state is only recorded.
\<close>

definition HSS_U54_SetState_Ex :: "hart_id \<Rightarrow> HSSHartState \<Rightarrow> U54_State \<Rightarrow> U54_State option" where
  "HSS_U54_SetState_Ex hartId s u =
     (if is_u54 hartId then
        Some (u\<lparr>hartStates := (hartStates u)[hartId := s], reportingFlag := True\<rparr>)
      else None)"

definition HSS_U54_GetState_Ex :: "hart_id \<Rightarrow> U54_State \<Rightarrow> HSSHartState option" where
  "HSS_U54_GetState_Ex hartId u =
     (if hartId < length (hartStates u) then Some (hartStates u ! hartId) else None)"

definition HSS_U54_SetState :: "hart_id \<Rightarrow> HSSHartState \<Rightarrow> U54_State \<Rightarrow> U54_State option" where
  "HSS_U54_SetState me s u = (if is_u54 me then HSS_U54_SetState_Ex me s u else None)"

definition HSS_U54_GetState :: "hart_id \<Rightarrow> U54_State \<Rightarrow> HSSHartState option" where
  "HSS_U54_GetState me u = (if is_u54 me then HSS_U54_GetState_Ex me u else None)"

definition HSS_U54_GetStateName :: "HSSHartState \<Rightarrow> string" where
  "HSS_U54_GetStateName s = (case s of
     HSS_State_Idle \<Rightarrow> ''Idle'' | HSS_State_Booting \<Rightarrow> ''Booting''
   | HSS_State_SBIHartInit \<Rightarrow> ''SBIHartInit'' | HSS_State_SBIWaitForColdboot \<Rightarrow> ''SBIWaitForColdboot''
   | HSS_State_Running \<Rightarrow> ''Running'' | HSS_State_Trap \<Rightarrow> ''Trap'' | HSS_State_Fatal \<Rightarrow> ''Fatal'')"

text \<open>The report is the line of state names the console gets, if it gets one.\<close>

definition HSS_U54_DumpStatesIfChanged :: "U54_State \<Rightarrow> string list option \<times> U54_State" where
  "HSS_U54_DumpStatesIfChanged u =
     (if reportingFlag u then
        (Some (map (\<lambda>i. HSS_U54_GetStateName (hartStates u ! i)) [HSS_HART_U54_1..<HSS_HART_NUM_PEERS]),
         u\<lparr>reportingFlag := False\<rparr>)
      else (None, u))"

section \<open>Domains\<close>

record Hart_Ledger =
  ledger_name :: "u8 list"
  next_addr :: u64
  next_arg1 :: u64
  hartMask :: u32
  next_mode :: u32
  owner_hartid :: nat
  boot_pending :: nat
  reset_type :: u32
  reset_reason :: u32
  allow_cold_reboot :: bool
  allow_warm_reboot :: bool

record Domains =
  hart_ledger :: "Hart_Ledger list"
  hart_index2id :: "nat option list"

definition zero_Ledger :: Hart_Ledger where
  "zero_Ledger = \<lparr>ledger_name = replicate 64 0, next_addr = 0, next_arg1 = 0, hartMask = 0,
     next_mode = 0, owner_hartid = 0, boot_pending = 0, reset_type = 0, reset_reason = 0,
     allow_cold_reboot = False, allow_warm_reboot = False\<rparr>"

text \<open>\<open>-1\<close> in \<open>mpfs_hart_index2id\<close>, "not in use", is \<open>None\<close>.\<close>

definition domains_static :: Domains where
  "domains_static = \<lparr>hart_ledger = replicate MAX_NUM_HARTS zero_Ledger,
     hart_index2id = [None, Some 1, Some 2, Some 3, Some 4]\<rparr>"

definition with_ledger :: "hart_id \<Rightarrow> (Hart_Ledger \<Rightarrow> Hart_Ledger) \<Rightarrow> Domains \<Rightarrow> Domains option" where
  "with_ledger h f d = (if h < length (hart_ledger d)
     then Some (d\<lparr>hart_ledger := (hart_ledger d)[h := f (hart_ledger d ! h)]\<rparr>) else None)"

definition mpfs_domains_register_hart :: "hart_id \<Rightarrow> hart_id \<Rightarrow> Domains \<Rightarrow> Domains option" where
  "mpfs_domains_register_hart hartid boot_hartid =
     with_ledger hartid (\<lambda>l. l\<lparr>owner_hartid := boot_hartid, boot_pending := 1,
       reset_reason := 0, reset_type := 0\<rparr>)"

definition mpfs_domains_deregister_hart :: "hart_id \<Rightarrow> Domains \<Rightarrow> Domains option" where
  "mpfs_domains_deregister_hart hartid d =
     do { d \<leftarrow> with_ledger hartid (\<lambda>l. l\<lparr>owner_hartid := 0, boot_pending := 0\<rparr>) d;
          if 0 < hartid \<and> hartid < length (hart_index2id d)
          then Some (d\<lparr>hart_index2id := (hart_index2id d)[hartid := None]\<rparr>) else None }"

definition mpfs_is_hart_using_opensbi :: "hart_id \<Rightarrow> Domains \<Rightarrow> bool option" where
  "mpfs_is_hart_using_opensbi hartid d =
     (if 0 < hartid \<and> hartid < length (hart_index2id d)
      then Some (hart_index2id d ! hartid \<noteq> None) else None)"

definition mpfs_mark_hart_as_booted :: "hart_id \<Rightarrow> Domains \<Rightarrow> Domains option" where
  "mpfs_mark_hart_as_booted hartid = with_ledger hartid (\<lambda>l. l\<lparr>boot_pending := 0\<rparr>)"

definition mpfs_are_harts_in_same_domain :: "hart_id \<Rightarrow> hart_id \<Rightarrow> Domains \<Rightarrow> bool option" where
  "mpfs_are_harts_in_same_domain h1 h2 d =
     (if h1 < length (hart_ledger d) \<and> h2 < length (hart_ledger d)
      then Some (owner_hartid (hart_ledger d ! h1) = owner_hartid (hart_ledger d ! h2)) else None)"

definition mpfs_is_cold_reboot_allowed :: "hart_id \<Rightarrow> Domains \<Rightarrow> bool option" where
  "mpfs_is_cold_reboot_allowed hartid d =
     (if hartid < length (hart_ledger d) then Some (allow_cold_reboot (hart_ledger d ! hartid)) else None)"

definition mpfs_is_warm_reboot_allowed :: "hart_id \<Rightarrow> Domains \<Rightarrow> bool option" where
  "mpfs_is_warm_reboot_allowed hartid d =
     (if hartid < length (hart_ledger d) then Some (allow_warm_reboot (hart_ledger d ! hartid)) else None)"

definition mpfs_is_last_hart_ready :: "Domains \<Rightarrow> bool" where
  "mpfs_is_last_hart_ready d \<longleftrightarrow> sum_list (map boot_pending (hart_ledger d)) = 0"

text \<open>The 63 first bytes of the name are copied; the last byte of the field stays 0.\<close>

definition mpfs_domains_register_boot_hart :: "u8 list \<Rightarrow> u32 \<Rightarrow> hart_id \<Rightarrow> u32 \<Rightarrow> u64 \<Rightarrow> u64
    \<Rightarrow> bool \<Rightarrow> bool \<Rightarrow> Domains \<Rightarrow> Domains option" where
  "mpfs_domains_register_boot_hart pName harts boot_hartid privMode entryPoint pArg1 cold warm d =
     (if boot_hartid < length (hart_ledger d) \<and>
         owner_hartid (hart_ledger d ! boot_hartid) = boot_hartid
      then with_ledger boot_hartid (\<lambda>l. l\<lparr>
             ledger_name := take 63 pName @ drop 63 (ledger_name l), next_addr := entryPoint,
             next_arg1 := pArg1, hartMask := harts, next_mode := privMode,
             allow_cold_reboot := cold, allow_warm_reboot := warm\<rparr>) d
      else None)"

section \<open>Lemmas\<close>

definition domains_wf :: "Domains \<Rightarrow> bool" where
  "domains_wf d \<longleftrightarrow> length (hart_ledger d) = 5 \<and> length (hart_index2id d) = 5"

definition u54_wf :: "U54_State \<Rightarrow> bool" where
  "u54_wf u \<longleftrightarrow> length (hartStates u) = 5"

lemma with_ledger_wf [hss_inv]:
  "domains_wf d \<Longrightarrow> h < 5 \<Longrightarrow> \<exists>d'. with_ledger h f d = Some d' \<and> domains_wf d'"
  by (simp add: with_ledger_def domains_wf_def)

lemma with_ledger_SomeD:
  "with_ledger h f d = Some d' \<Longrightarrow> h < length (hart_ledger d) \<and>
     d' = d\<lparr>hart_ledger := (hart_ledger d)[h := f (hart_ledger d ! h)]\<rparr>"
  by (simp add: with_ledger_def split: if_splits)

lemma with_ledger_keeps_wf: "with_ledger h f d = Some d' \<Longrightarrow> domains_wf d \<Longrightarrow> domains_wf d'"
  by (auto dest!: with_ledger_SomeD simp: domains_wf_def)

lemma register_hart_keeps_wf:
  "mpfs_domains_register_hart h b d = Some d' \<Longrightarrow> domains_wf d \<Longrightarrow> domains_wf d'"
  by (auto simp: mpfs_domains_register_hart_def intro: with_ledger_keeps_wf)

lemma deregister_hart_keeps_wf:
  "mpfs_domains_deregister_hart h d = Some d' \<Longrightarrow> domains_wf d \<Longrightarrow> domains_wf d'"
  by (auto simp: mpfs_domains_deregister_hart_def bind_eq_Some_conv domains_wf_def split: if_splits
      dest: with_ledger_SomeD)

lemma set_state_ex_wf:
  "HSS_U54_SetState_Ex h s u = Some u' \<Longrightarrow> u54_wf u \<Longrightarrow> u54_wf u'"
  by (auto simp: HSS_U54_SetState_Ex_def u54_wf_def split: if_splits)

section \<open>Properties\<close>

text \<open>
  A change of state reaches the console exactly once: after any sequence of reports of
  application harts the next dump shows the last state each reported (and the old one of the
  others), and a second dump shows nothing until a hart reports again.
\<close>

theorem u54_changes_reported_once:
  assumes "u54_wf u" and "\<forall>(h, s) \<in> set ((h0, s0) # xs). is_u54 h"
  shows "\<exists>u'. foldl (\<lambda>r (h, s). r \<bind> HSS_U54_SetState_Ex h s) (Some u) ((h0, s0) # xs) = Some u' \<and>
    fst (HSS_U54_DumpStatesIfChanged u') =
      Some (map (\<lambda>i. HSS_U54_GetStateName
        (case map_of (rev ((h0, s0) # xs)) i of Some s \<Rightarrow> s | None \<Rightarrow> hartStates u ! i)) [1..<5]) \<and>
    fst (HSS_U54_DumpStatesIfChanged (snd (HSS_U54_DumpStatesIfChanged u'))) = None"
proof -
  have run: "\<exists>u'. foldl (\<lambda>r (h, s). r \<bind> HSS_U54_SetState_Ex h s) (Some v) ys = Some u' \<and>
      (\<forall>i < 5. hartStates u' ! i = (case map_of (rev ys) i of Some s \<Rightarrow> s | None \<Rightarrow> hartStates v ! i)) \<and>
      (ys \<noteq> [] \<longrightarrow> reportingFlag u') \<and> u54_wf u'"
    if "u54_wf v" "\<forall>(h, s) \<in> set ys. is_u54 h" for v ys
    using that
  proof (induction ys rule: rev_induct)
    case Nil
    then show ?case by simp
  next
    case (snoc y ys)
    then obtain u' where u': "foldl (\<lambda>r (h, s). r \<bind> HSS_U54_SetState_Ex h s) (Some v) ys = Some u'"
      "\<forall>i < 5. hartStates u' ! i = (case map_of (rev ys) i of Some s \<Rightarrow> s | None \<Rightarrow> hartStates v ! i)"
      "u54_wf u'" by auto
    obtain h s where y: "y = (h, s)" by (cases y)
    have h: "is_u54 h" using snoc.prems(2) y by simp
    have "HSS_U54_SetState_Ex h s u' = Some (u'\<lparr>hartStates := (hartStates u')[h := s], reportingFlag := True\<rparr>)"
      using h by (simp add: HSS_U54_SetState_Ex_def)
    then show ?case
      using u' by (simp add: y u54_wf_def nth_list_update)
  qed
  obtain u' where u': "foldl (\<lambda>r (h, s). r \<bind> HSS_U54_SetState_Ex h s) (Some u) ((h0, s0) # xs) = Some u'"
    "\<forall>i < 5. hartStates u' ! i =
       (case map_of (rev ((h0, s0) # xs)) i of Some s \<Rightarrow> s | None \<Rightarrow> hartStates u ! i)"
    "reportingFlag u'" using run [OF assms] by blast
  show ?thesis
    using u' by (intro exI [of _ u']) (auto simp: HSS_U54_DumpStatesIfChanged_def simp del: foldl_Cons)
qed

theorem u54_changes_reported_once_witness:
  "\<exists>u'. foldl (\<lambda>r (h, s). r \<bind> HSS_U54_SetState_Ex h s) (Some u54_static)
      [(1, HSS_State_Booting), (3, HSS_State_Fatal), (1, HSS_State_Running)] = Some u' \<and>
    fst (HSS_U54_DumpStatesIfChanged u') = Some [''Running'', ''Idle'', ''Fatal'', ''Idle''] \<and>
    fst (HSS_U54_DumpStatesIfChanged (snd (HSS_U54_DumpStatesIfChanged u'))) = None"
proof -
  have r: "[Suc 0..<5] = [1, 2, 3, 4::nat]" by (simp add: upt_rec)
  have s: "replicate 5 HSS_State_Idle = [HSS_State_Idle, HSS_State_Idle, HSS_State_Idle, HSS_State_Idle, HSS_State_Idle]"
    by (simp add: numeral_eq_Suc)
  show ?thesis
    using u54_changes_reported_once [of u54_static 1 HSS_State_Booting
        "[(3, HSS_State_Fatal), (1, HSS_State_Running)]"]
    by (simp add: u54_static_def u54_wf_def is_u54_def r s HSS_U54_GetStateName_def nth_Cons' del: foldl_Cons)
qed

end
