(* ===== verification/Boot_Image.thy ===== *)
theory Boot_Image
  imports Hss_Base Crc
begin

text \<open>
  The boot image the E51 loads: its layout in memory (\<open>include/hss_types.h\<close>, LP64 with
  \<open>#pragma pack(8)\<close>) and its validation (\<open>validateCrc_\<close>,
  \<open>HSS_Boot_ValidateImage\<close> and \<open>HSS_Boot_VerifyMagic\<close> of
  \<open>services/boot/hss_boot_service.c\<close>). An image is not copied into a structure: every
  field is read from memory where and when the code reads it, so a write that hits the image
  shows.
\<close>

section \<open>Layout\<close>

abbreviation (input) mHSS_BOOT_MAGIC :: u32 where "mHSS_BOOT_MAGIC \<equiv> 0xB007C0DE"
abbreviation (input) mHSS_COMPRESSED_MAGIC :: u32 where "mHSS_COMPRESSED_MAGIC \<equiv> 0xC08B8355"

abbreviation (input) BOOT_FLAG_ANCILLIARY_DATA :: u32 where "BOOT_FLAG_ANCILLIARY_DATA \<equiv> 0x80"
abbreviation (input) BOOT_FLAG_SKIP_OPENSBI :: u8 where "BOOT_FLAG_SKIP_OPENSBI \<equiv> 0x40"
abbreviation (input) BOOT_FLAG_ALLOW_COLD_REBOOT :: u8 where "BOOT_FLAG_ALLOW_COLD_REBOOT \<equiv> 0x20"
abbreviation (input) BOOT_FLAG_ALLOW_WARM_REBOOT :: u8 where "BOOT_FLAG_ALLOW_WARM_REBOOT \<equiv> 0x10"
abbreviation (input) BOOT_FLAG_SKIP_AUTOBOOT :: u8 where "BOOT_FLAG_SKIP_AUTOBOOT \<equiv> 0x08"

definition read_u32 :: "memory \<Rightarrow> u64 \<Rightarrow> u32" where
  "read_u32 m a = of_nat (le_nat (mem_read m a 4))"

definition read_u64 :: "memory \<Rightarrow> u64 \<Rightarrow> u64" where
  "read_u64 m a = of_nat (le_nat (mem_read m a 8))"

text \<open>\<open>struct HSS_BootImage\<close>: 40 bytes of header, four harts of 296 bytes, the set
  name, the length and the signature, 1632 bytes in all; the older layout had 64 bytes of
  padding in the place of the signature.\<close>

abbreviation (input) BOOT_IMAGE_SIZE :: nat where "BOOT_IMAGE_SIZE \<equiv> 1632"
abbreviation (input) BOOT_IMAGE_V0_SIZE :: nat where "BOOT_IMAGE_V0_SIZE \<equiv> 1552"

definition bi_magic :: "memory \<Rightarrow> u64 \<Rightarrow> u32" where "bi_magic m p = read_u32 m p"
definition bi_version :: "memory \<Rightarrow> u64 \<Rightarrow> u32" where "bi_version m p = read_u32 m (p + 4)"
definition bi_headerCrc :: "memory \<Rightarrow> u64 \<Rightarrow> u32" where "bi_headerCrc m p = read_u32 m (p + 16)"
definition bi_chunkTableOffset :: "memory \<Rightarrow> u64 \<Rightarrow> u64" where
  "bi_chunkTableOffset m p = read_u64 m (p + 24)"
definition bi_ziChunkTableOffset :: "memory \<Rightarrow> u64 \<Rightarrow> u64" where
  "bi_ziChunkTableOffset m p = read_u64 m (p + 32)"

record BootHart =
  entryPoint :: u64
  privMode :: u8
  bh_flags :: u8
  numChunks :: u64
  firstChunk :: u64
  lastChunk :: u64
  bh_name :: "u8 list"

text \<open>\<open>pBootImage->hart[i]\<close>.\<close>

definition bi_hart :: "memory \<Rightarrow> u64 \<Rightarrow> nat \<Rightarrow> BootHart" where
  "bi_hart m p i = (let a = p + 40 + of_nat (296 * i) in
     \<lparr>entryPoint = read_u64 m a, privMode = m (a + 8), bh_flags = m (a + 9),
      numChunks = read_u64 m (a + 16), firstChunk = read_u64 m (a + 24), lastChunk = read_u64 m (a + 32),
      bh_name = mem_read m (a + 40) 256\<rparr>)"

definition has_flag :: "u8 \<Rightarrow> BootHart \<Rightarrow> bool" where
  "has_flag f h \<longleftrightarrow> bh_flags h AND f \<noteq> 0"

record BootChunkDesc =
  owner :: u32
  loadAddr :: u64
  execAddr :: u64
  chunk_size :: u64
  chunk_crc32 :: u32

abbreviation (input) CHUNK_DESC_SIZE :: u64 where "CHUNK_DESC_SIZE \<equiv> 40"

definition read_chunk :: "memory \<Rightarrow> u64 \<Rightarrow> BootChunkDesc" where
  "read_chunk m a = \<lparr>owner = read_u32 m a, loadAddr = read_u64 m (a + 8), execAddr = read_u64 m (a + 16),
     chunk_size = read_u64 m (a + 24), chunk_crc32 = read_u32 m (a + 32)\<rparr>"

record BootZIChunkDesc =
  zi_owner :: u32
  zi_execAddr :: u64
  zi_size :: u64

abbreviation (input) ZI_CHUNK_DESC_SIZE :: u64 where "ZI_CHUNK_DESC_SIZE \<equiv> 24"

definition read_zi_chunk :: "memory \<Rightarrow> u64 \<Rightarrow> BootZIChunkDesc" where
  "read_zi_chunk m a = \<lparr>zi_owner = read_u32 m a, zi_execAddr = read_u64 m (a + 8), zi_size = read_u64 m (a + 16)\<rparr>"

section \<open>Validation\<close>

text \<open>The bytes the checksum is over: the header with \<open>headerCrc\<close> and
  \<open>signature\<close> cleared, cut to the size of the image's version.\<close>

definition shadow_header :: "u8 list \<Rightarrow> u8 list" where
  "shadow_header h = splice (splice h 16 (replicate 4 0)) 1488 (replicate 144 0)"

definition header_crc_len :: "u32 \<Rightarrow> nat" where
  "header_crc_len version = (if version = 0 then BOOT_IMAGE_V0_SIZE else BOOT_IMAGE_SIZE)"

definition validateCrc :: "memory \<Rightarrow> u64 \<Rightarrow> bool" where
  "validateCrc m p \<longleftrightarrow>
     CRC32_calculate (take (header_crc_len (bi_version m p)) (shadow_header (mem_read m p BOOT_IMAGE_SIZE)))
       = bi_headerCrc m p"

text \<open>\<open>None\<close> of the pointer is \<open>NULL\<close>. Without
  \<open>CONFIG_CRYPTO_SIGNING\<close> and \<open>CONFIG_SERVICE_BOOT_CUSTOM_FLOW\<close>.\<close>

definition HSS_Boot_ValidateImage :: "memory \<Rightarrow> u64 \<Rightarrow> bool" where
  "HSS_Boot_ValidateImage m pImage \<longleftrightarrow>
     (if pImage = 0 then False
      else if bi_magic m pImage \<noteq> mHSS_BOOT_MAGIC then False
      else if validateCrc m pImage then True else False)"

definition HSS_Boot_VerifyMagic :: "memory \<Rightarrow> u64 \<Rightarrow> bool" where
  "HSS_Boot_VerifyMagic m pImage \<longleftrightarrow>
     bi_magic m pImage = mHSS_BOOT_MAGIC \<or> bi_magic m pImage = mHSS_COMPRESSED_MAGIC"

section \<open>Lemmas\<close>

lemma length_shadow [simp]: "length h = BOOT_IMAGE_SIZE \<Longrightarrow> length (shadow_header h) = BOOT_IMAGE_SIZE"
  by (simp add: shadow_header_def)

lemma mem_read_drop: "mem_read m (a + of_nat k) n = take n (drop k (mem_read m a (k + n)))"
proof (rule nth_equalityI)
  show "length (mem_read m (a + of_nat k) n) = length (take n (drop k (mem_read m a (k + n))))" by simp
  fix i assume "i < length (mem_read m (a + of_nat k) n)"
  then show "mem_read m (a + of_nat k) n ! i = take n (drop k (mem_read m a (k + n))) ! i"
    by (simp add: nth_mem_read add.assoc)
qed

lemma mem_read_prefix: "n \<le> N \<Longrightarrow> take n (mem_read m a N) = mem_read m a n"
  by (intro nth_equalityI) (simp_all add: nth_mem_read)

lemma read_u32_at:
  assumes "k + 4 \<le> N"
  shows "read_u32 m (p + of_nat k) = of_nat (le_at k 4 (mem_read m p N))"
proof -
  have "take 4 (drop k (mem_read m p N)) = drop k (take (k + 4) (mem_read m p N))"
    by (simp add: drop_take)
  also have "\<dots> = take 4 (drop k (mem_read m p (k + 4)))"
    using assms by (simp add: mem_read_prefix)
  finally show ?thesis by (simp only: read_u32_def mem_read_drop le_at_def)
qed

lemma version_at: "bi_version m p = of_nat (le_at 4 4 (mem_read m p BOOT_IMAGE_SIZE))"
  using read_u32_at [of 4 BOOT_IMAGE_SIZE m p] by (simp add: bi_version_def)

lemma headerCrc_at: "bi_headerCrc m p = of_nat (le_at 16 4 (mem_read m p BOOT_IMAGE_SIZE))"
  using read_u32_at [of 16 BOOT_IMAGE_SIZE m p] by (simp add: bi_headerCrc_def)

lemma magic_at: "bi_magic m p = of_nat (le_at 0 4 (mem_read m p BOOT_IMAGE_SIZE))"
  using read_u32_at [of 0 BOOT_IMAGE_SIZE m p] by (simp add: bi_magic_def)

lemma shadow_update:
  assumes "length h = BOOT_IMAGE_SIZE" "k < 1488" "k < 16 \<or> 20 \<le> k"
  shows "shadow_header (h[k := b]) = (shadow_header h)[k := b]" "shadow_header h ! k = h ! k"
proof -
  have "splice (h[k := b]) 16 (replicate 4 0) = (splice h 16 (replicate 4 0))[k := b]"
    using assms by (intro splice_update) auto
  then show "shadow_header (h[k := b]) = (shadow_header h)[k := b]"
    unfolding shadow_header_def using assms by (simp add: splice_update)
  show "shadow_header h ! k = h ! k"
    using assms by (auto simp: shadow_header_def splice_def nth_append min_def)
qed

lemma shadow_crc_field:
  assumes "length h = BOOT_IMAGE_SIZE" "16 \<le> k" "k < 20"
  shows "shadow_header (h[k := b]) = shadow_header h"
proof -
  have "splice (h[k := b]) 16 (replicate 4 0) = splice h 16 (replicate 4 (0 :: u8))"
    using assms by (intro nth_equalityI) (auto simp: splice_def nth_append nth_list_update min_def)
  then show ?thesis by (simp add: shadow_header_def)
qed

section \<open>Properties\<close>


text \<open>A header whose checksum is filled in, for the example.\<close>

definition sample_header :: "u8 list" where
  "sample_header = (let h = [0xDE, 0xC0, 0x07, 0xB0, 1, 0, 0, 0] @ replicate 1624 0
     in splice h 16 (le_bytes 4 (unat (CRC32_calculate h))))"

lemma le_nat_bytes4: "(of_nat (le_nat (le_bytes 4 (unat (c :: u32)))) :: u32) = c"
proof -
  have "unat c < 256 ^ 4" using unsigned_less [of c] by simp
  then show ?thesis by (simp add: le_nat_le_bytes)
qed

lemma sample_bytes:
  "length sample_header = BOOT_IMAGE_SIZE" "sample_header ! 100 = 0"
proof -
  define c where "c = le_bytes 4 (unat (CRC32_calculate ([0xDE, 0xC0, 0x07, 0xB0, 1, 0, 0, 0] @ replicate 1624 0)))"
  have c: "length c = 4" by (simp only: c_def length_le_bytes)
  have eq: "sample_header = [0xDE, 0xC0, 0x07, 0xB0, 1, 0, 0, 0] @ replicate 8 0 @ c @ replicate 1612 0"
    unfolding sample_header_def Let_def c_def [symmetric] splice_def
    by (simp add: c del: replicate.simps)
  show "length sample_header = BOOT_IMAGE_SIZE" "sample_header ! 100 = 0"
    unfolding eq by (simp_all add: c nth_append nth_Cons' del: replicate.simps)
qed

lemma sample_valid: "HSS_Boot_ValidateImage (mem_write (\<lambda>_. 0) 0x1000 sample_header) 0x1000"
proof -
  let ?m = "mem_write (\<lambda>_. 0) 0x1000 sample_header"
  let ?v = "[0xDE, 0xC0, 0x07, 0xB0, 1, 0, 0, 0] :: u8 list"
  let ?h = "?v @ replicate 1624 0"
  define c where "c = le_bytes 4 (unat (CRC32_calculate ?h))"
  have c: "length c = 4" by (simp only: c_def length_le_bytes)
  have eq: "sample_header = ?v @ replicate 8 0 @ c @ replicate 1612 0"
    unfolding sample_header_def Let_def c_def [symmetric] splice_def
    by (simp add: c del: replicate.simps)
  have shadow: "shadow_header sample_header = ?h"
    unfolding eq shadow_header_def splice_def
    by (simp add: c replicate_add [symmetric] del: replicate.simps)
  have h: "mem_read ?m 0x1000 BOOT_IMAGE_SIZE = sample_header"
    using mem_read_write [of sample_header "\<lambda>_. 0" "0x1000"] sample_bytes(1) by simp
  have "bi_magic ?m 0x1000 = mHSS_BOOT_MAGIC" "bi_version ?m 0x1000 = 1"
    unfolding magic_at version_at h by (simp_all add: eq le_at_def)
  moreover have "bi_headerCrc ?m 0x1000 = CRC32_calculate ?h"
    unfolding headerCrc_at h using le_nat_bytes4 [of "CRC32_calculate ?h", folded c_def]
    by (simp add: eq le_at_def c del: replicate_Suc)
  ultimately show ?thesis
    by (simp add: HSS_Boot_ValidateImage_def validateCrc_def h shadow header_crc_len_def
        del: replicate.simps)
qed


end
