(* ===== verification/Boot_Service.thy ===== *)
theory Boot_Service
  imports Boot_Image Ddr Pmp Perfctr Harts Memcpy
begin

text \<open>
  The boot service, \<open>services/boot/hss_boot_service.c\<close>: four machines, one per
  application hart, that set up the PMPs, load the chunks of the boot image and start the
  harts; the entry points that (re)start them; and the PMP setup messages between the E51
  and the harts. Everything here runs on the E51 but \<open>HSS_Boot_PMPSetupHandler\<close>.

  \<open>None\<close> is a halt: a failed assertion, an index outside an array, a field of the image
  read through a null pointer. The configuration is the kit's: OpenSBI and remoteproc are in,
  \<open>CONFIG_PROVIDE_DTB\<close>, \<open>CONFIG_USE_PDMA\<close> and the custom boot flow are out.
\<close>

section \<open>Data\<close>

abbreviation (input) BOOT_INITIALIZATION :: int where "BOOT_INITIALIZATION \<equiv> 0"
abbreviation (input) BOOT_SETUP_PMP :: int where "BOOT_SETUP_PMP \<equiv> 1"
abbreviation (input) BOOT_SETUP_PMP_COMPLETE :: int where "BOOT_SETUP_PMP_COMPLETE \<equiv> 2"
abbreviation (input) BOOT_ZERO_INIT_CHUNKS :: int where "BOOT_ZERO_INIT_CHUNKS \<equiv> 3"
abbreviation (input) BOOT_DOWNLOAD_CHUNKS :: int where "BOOT_DOWNLOAD_CHUNKS \<equiv> 4"
abbreviation (input) BOOT_OPENSBI_INIT :: int where "BOOT_OPENSBI_INIT \<equiv> 5"
abbreviation (input) BOOT_WAIT :: int where "BOOT_WAIT \<equiv> 6"
abbreviation (input) BOOT_COMPLETE :: int where "BOOT_COMPLETE \<equiv> 7"
abbreviation (input) BOOT_IDLE :: int where "BOOT_IDLE \<equiv> 8"
abbreviation (input) BOOT_ERROR :: int where "BOOT_ERROR \<equiv> 9"
abbreviation (input) BOOT_NUM_STATES :: nat where "BOOT_NUM_STATES \<equiv> 10"

abbreviation (input) BOOT_SETUP_PMP_COMPLETE_TIMEOUT :: u64
  where "BOOT_SETUP_PMP_COMPLETE_TIMEOUT \<equiv> 1000000"
abbreviation (input) BOOT_WAIT_TIMEOUT :: u64 where "BOOT_WAIT_TIMEOUT \<equiv> 5000000"
abbreviation (input) BOOT_SUB_CHUNK_SIZE :: nat where "BOOT_SUB_CHUNK_SIZE \<equiv> 256"
abbreviation (input) RPROC_BOOT :: u32 where "RPROC_BOOT \<equiv> 0x80"

text \<open>\<open>struct HSS_Boot_LocalData\<close>; pointers are addresses.\<close>

record Boot_LocalData =
  bl_target :: hart_id
  pChunk :: u64
  pZiChunk :: u64
  chunkCount :: u64
  ziChunkCount :: u64
  subChunkOffset :: u64
  msgIndex :: nat
  bl_hartMask :: u32
  perfCtr :: int
  iterator :: nat
  ancilliaryData :: u64
  msgIndexAux :: "nat list"

text \<open>
  The variables of the service and what it works on. \<open>bw_now\<close> is the clock reading of
  the step, \<open>bw_later\<close> the reading of a second call of \<open>HSS_GetTime\<close> in the same
  handler. The machines are part of the world because a boot request that one of them handles
  sets the states of others, and of itself.
\<close>

record Boot_World = Bus_World +
  bw_later :: u64
  memory :: memory
  pBootImage :: u64
  localData :: "Boot_LocalData list"
  bootMachines :: "StateMachine list"
  pmpEntry :: pmp_table
  pmpSetupFlag :: "bool list"
  perfCtrs :: perf_ctrs
  domains :: Domains
  u54 :: U54_State
  bootComplete :: "u32 list"
  BOOT_FAIL_CR :: u32
  MSS_STATUS :: u32
  ddr_layout :: DDR_Layout

definition localData_static :: "Boot_LocalData list" where
  "localData_static = map (\<lambda>h. \<lparr>bl_target = h, pChunk = 0, pZiChunk = 0, chunkCount = 0, ziChunkCount = 0,
     subChunkOffset = 0, msgIndex = IPI_MAX_NUM_OUTSTANDING_COMPLETES, bl_hartMask = 0,
     perfCtr = PERF_CTR_UNINITIALIZED, iterator = 0, ancilliaryData = 0, msgIndexAux = [0, 0, 0, 0]\<rparr>)
     [HSS_HART_U54_1, HSS_HART_U54_2, HSS_HART_U54_3, HSS_HART_U54_4]"

definition boot_service_init :: StateMachine where
  "boot_service_init = (machine_init BOOT_NUM_STATES)\<lparr>state := BOOT_IDLE\<rparr>"

text \<open>The harts of the table \<open>bootMachine\<close>; machine \<open>i\<close> boots hart
  \<open>i + 1\<close>.\<close>

abbreviation (input) bootMachine_harts :: "hart_id list" where "bootMachine_harts \<equiv> [1, 2, 3, 4]"

text \<open>Access to the local data of machine \<open>k\<close>, and to the image's entry for a
  hart.\<close>

definition ld :: "nat \<Rightarrow> Boot_World \<Rightarrow> Boot_LocalData" where
  "ld k w = localData w ! k"

definition upd_ld :: "nat \<Rightarrow> (Boot_LocalData \<Rightarrow> Boot_LocalData) \<Rightarrow> Boot_World \<Rightarrow> Boot_World" where
  "upd_ld k f w = w\<lparr>localData := (localData w)[k := f (localData w ! k)]\<rparr>"

definition boot_hart :: "Boot_World \<Rightarrow> hart_id \<Rightarrow> BootHart" where
  "boot_hart w h = bi_hart (memory w) (pBootImage w) (h - 1)"

section \<open>Helper functions\<close>

definition boot_do_download_chunk :: "u64 \<Rightarrow> u64 \<Rightarrow> nat \<Rightarrow> Boot_World \<Rightarrow> Boot_World option" where
  "boot_do_download_chunk pc subOffset subSize w = do {
     require (pc \<noteq> 0);
     let c = read_chunk (memory w) pc;
     require (chunk_size c \<noteq> 0);
     m \<leftarrow> memcpy_via_pdma (execAddr c + subOffset) (pBootImage w + loadAddr c + subOffset) subSize (memory w);
     Some (w\<lparr>memory := m\<rparr>) }"

definition boot_do_zero_init_chunk :: "u64 \<Rightarrow> Boot_World \<Rightarrow> Boot_World option" where
  "boot_do_zero_init_chunk pz w = do {
     require (pz \<noteq> 0);
     let z = read_zi_chunk (memory w) pz;
     Some (w\<lparr>memory := mem_write (memory w) (zi_execAddr z) (replicate (unat (zi_size z)) 0)\<rparr>) }"

definition free_msg_index :: "nat \<Rightarrow> Boot_World \<Rightarrow> Boot_World option" where
  "free_msg_index k w =
     (if msgIndex (ld k w) \<noteq> IPI_MAX_NUM_OUTSTANDING_COMPLETES then do {
        d \<leftarrow> IPI_MessageFree HSS_HART_E51 (msgIndex (ld k w)) (bw_ipi w);
        Some (upd_ld k (\<lambda>l. l\<lparr>msgIndex := IPI_MAX_NUM_OUTSTANDING_COMPLETES\<rparr>) (w\<lparr>bw_ipi := d\<rparr>)) }
      else Some w)"

abbreviation (input) aux :: "nat \<Rightarrow> hart_id \<Rightarrow> Boot_World \<Rightarrow> nat" where
  "aux k peer w \<equiv> msgIndexAux (ld k w) ! (peer - 1)"

definition set_aux :: "nat \<Rightarrow> hart_id \<Rightarrow> nat \<Rightarrow> Boot_World \<Rightarrow> Boot_World" where
  "set_aux k peer i = upd_ld k (\<lambda>l. l\<lparr>msgIndexAux := (msgIndexAux l)[peer - 1 := i]\<rparr>)"

definition free_msg_index_aux :: "nat \<Rightarrow> hart_id \<Rightarrow> Boot_World \<Rightarrow> Boot_World option" where
  "free_msg_index_aux k peer w =
     (if aux k peer w \<noteq> IPI_MAX_NUM_OUTSTANDING_COMPLETES then do {
        d \<leftarrow> IPI_MessageFree HSS_HART_E51 (aux k peer w) (bw_ipi w);
        Some (set_aux k peer IPI_MAX_NUM_OUTSTANDING_COMPLETES (w\<lparr>bw_ipi := d\<rparr>)) }
      else Some w)"

fun free_all_aux :: "nat \<Rightarrow> hart_id list \<Rightarrow> Boot_World \<Rightarrow> Boot_World option" where
  "free_all_aux k [] w = Some w"
| "free_all_aux k (peer # ps) w = do { w \<leftarrow> free_msg_index_aux k peer w; free_all_aux k ps w }"

text \<open>The loop of \<open>check_for_ipi_acks\<close>: \<open>result\<close> is assigned anew for every
  outstanding message.\<close>

fun ack_loop :: "nat \<Rightarrow> hart_id list \<Rightarrow> bool \<Rightarrow> Boot_World \<Rightarrow> (bool \<times> Boot_World) option" where
  "ack_loop k [] result w = Some (result, w)"
| "ack_loop k (peer # ps) result w =
     (if aux k peer w \<noteq> IPI_MAX_NUM_OUTSTANDING_COMPLETES then do {
        result \<leftarrow> IPI_MessageCheckIfComplete (aux k peer w) (bw_ipi w);
        w \<leftarrow> (if result then free_msg_index_aux k peer w else Some w);
        ack_loop k ps result w }
      else ack_loop k ps result w)"

declare ack_loop.simps(2) [simp del] free_all_aux.simps(2) [simp del]

definition check_for_ipi_acks :: "nat \<Rightarrow> Boot_World \<Rightarrow> (bool \<times> Boot_World) option" where
  "check_for_ipi_acks k w = do {
     (result, w) \<leftarrow> ack_loop k bootMachine_harts True w;
     if msgIndex (ld k w) \<noteq> IPI_MAX_NUM_OUTSTANDING_COMPLETES then do {
       r \<leftarrow> IPI_MessageCheckIfComplete (msgIndex (ld k w)) (bw_ipi w);
       let result = (result \<and> r);
       w \<leftarrow> (if result then free_msg_index k w else Some w);
       Some (result, w) }
     else Some (result, w) }"

section \<open>PMP setup messages\<close>

text \<open>The request stores the message's index in the local data even when it could not be
  sent and was freed again.\<close>

definition HSS_Boot_PMPSetupRequest :: "hart_id \<Rightarrow> nat \<Rightarrow> Boot_World \<Rightarrow> (bool \<times> Boot_World) option" where
  "HSS_Boot_PMPSetupRequest target k w = do {
     require (target \<noteq> HSS_HART_ALL);
     let (slot, d) = IPI_MessageAlloc HSS_HART_E51 (bw_ipi w);
     index \<leftarrow> slot;
     (result, d) \<leftarrow> IPI_MessageDeliver HSS_HART_E51 index target IPI_MSG_PMP_SETUP 0 0 0 d;
     d \<leftarrow> (if result then Some d else IPI_MessageFree HSS_HART_E51 index d);
     Some (result, upd_ld k (\<lambda>l. l\<lparr>msgIndex := index\<rparr>) (w\<lparr>bw_ipi := d\<rparr>)) }"

text \<open>The same with \<open>IPI_MSG_OPENSBI_INIT\<close>; \<open>indexOut\<close> is returned.\<close>

definition HSS_Boot_SBISetupRequest :: "hart_id \<Rightarrow> IPI_Data \<Rightarrow> (bool \<times> nat \<times> IPI_Data) option" where
  "HSS_Boot_SBISetupRequest target d = do {
     require (target \<noteq> HSS_HART_ALL);
     let (slot, d) = IPI_MessageAlloc HSS_HART_E51 d;
     index \<leftarrow> slot;
     (result, d) \<leftarrow> IPI_MessageDeliver HSS_HART_E51 index target IPI_MSG_OPENSBI_INIT 0 0 0 d;
     d \<leftarrow> (if result then Some d else IPI_MessageFree HSS_HART_E51 index d);
     Some (result, index, d) }"

text \<open>On an application hart: \<open>init_pmp\<close> of the vendor's library programs the
  PMP registers of the hart, \<open>setup\<close> here.\<close>

definition HSS_Boot_PMPSetupHandler :: "hart_id \<Rightarrow> ('x \<Rightarrow> 'x) \<Rightarrow> (bool list \<times> U54_State \<times> 'x) ipi_handler" where
  "HSS_Boot_PMPSetupHandler me setup txid source imm ext anc = (\<lambda>(d, flags, u, x). do {
     u \<leftarrow> HSS_U54_SetState me HSS_State_Booting u;
     if \<not> flags ! me then Some (IPI_SUCCESS, d, flags[me := True], u, setup x)
     else Some (IPI_SUCCESS, d, flags, u, x) })"

section \<open>Handlers of the states\<close>

definition boot_machine_name :: "nat \<Rightarrow> string" where
  "boot_machine_name k = ''boot_service(u54_'' @ [char_of (49 + k)] @ '')''"

definition boot_init_handler :: "nat \<Rightarrow> Boot_World hook" where
  "boot_init_handler k m w =
     (if HSS_Trigger_IsNotified True EVENT_DDR_TRAINED (bw_triggers w) \<and>
         HSS_Trigger_IsNotified True EVENT_STARTUP_COMPLETE (bw_triggers w) then
        if pBootImage w \<noteq> 0 then
          let (r, idx, pcs) = HSS_PerfCtr_Allocate (bw_later w) (perfCtr (ld k w))
                (boot_machine_name k) (perfCtrs w)
          in Some (m\<lparr>startTime := bw_now w, state := BOOT_SETUP_PMP\<rparr>,
                   upd_ld k (\<lambda>l. l\<lparr>perfCtr := idx\<rparr>) (w\<lparr>BOOT_FAIL_CR := 0, perfCtrs := pcs\<rparr>))
        else Some (m\<lparr>state := BOOT_ERROR\<rparr>, w)
      else Some (m, w))"

definition primary_boot_hart :: "Boot_World \<Rightarrow> hart_id \<Rightarrow> bool" where
  "primary_boot_hart w target \<longleftrightarrow>
     numChunks (boot_hart w target) \<noteq> 0 \<and> entryPoint (boot_hart w target) \<noteq> 0"

text \<open>The body of the loop of \<open>register_harts\<close>, and the loop.\<close>

definition register_peer :: "nat \<Rightarrow> hart_id \<Rightarrow> hart_id \<Rightarrow> Boot_World \<Rightarrow> Boot_World option" where
  "register_peer k target peer w =
     (let w = set_aux k peer IPI_MAX_NUM_OUTSTANDING_COMPLETES w in
      if primary_boot_hart w target then
        if has_flag BOOT_FLAG_SKIP_OPENSBI (boot_hart w peer) then do {
          ds \<leftarrow> mpfs_domains_deregister_hart peer (domains w);
          Some (w\<lparr>domains := ds\<rparr>) }
        else if peer = target \<or> entryPoint (boot_hart w peer) = entryPoint (boot_hart w target) then do {
          ds \<leftarrow> mpfs_domains_register_hart peer target (domains w);
          Some (upd_ld k (\<lambda>l. l\<lparr>bl_hartMask := bl_hartMask l OR push_bit peer 1\<rparr>) (w\<lparr>domains := ds\<rparr>)) }
        else Some w
      else Some w)"

fun register_loop :: "nat \<Rightarrow> hart_id \<Rightarrow> hart_id list \<Rightarrow> Boot_World \<Rightarrow> Boot_World option" where
  "register_loop k target [] w = Some w"
| "register_loop k target (peer # ps) w = do { w \<leftarrow> register_peer k target peer w; register_loop k target ps w }"

declare register_loop.simps(2) [simp del]

definition register_domain :: "nat \<Rightarrow> hart_id \<Rightarrow> Boot_World \<Rightarrow> Boot_World option" where
  "register_domain k target w =
     (let h = boot_hart w target in
      if primary_boot_hart w target \<and> \<not> has_flag BOOT_FLAG_SKIP_OPENSBI h then do {
        ds \<leftarrow> mpfs_domains_register_boot_hart (bh_name h) (bl_hartMask (ld k w)) target
                (ucast (privMode h)) (entryPoint h) (ancilliaryData (ld k w))
                (has_flag BOOT_FLAG_ALLOW_COLD_REBOOT h) (has_flag BOOT_FLAG_ALLOW_WARM_REBOOT h) (domains w);
        Some (w\<lparr>domains := ds\<rparr>) }
      else Some w)"

definition register_harts :: "nat \<Rightarrow> Boot_World hook" where
  "register_harts k m w = do {
     let target = bl_target (ld k w);
     let w = upd_ld k (\<lambda>l. l\<lparr>msgIndex := IPI_MAX_NUM_OUTSTANDING_COMPLETES\<rparr>) w;
     require (pBootImage w \<noteq> 0);
     w \<leftarrow> register_loop k target bootMachine_harts w;
     w \<leftarrow> register_domain k target w;
     Some (m, w) }"

definition boot_setup_pmp_onEntry :: "nat \<Rightarrow> Boot_World hook" where
  "boot_setup_pmp_onEntry k = register_harts k"

definition boot_setup_pmp_handler :: "nat \<Rightarrow> Boot_World hook" where
  "boot_setup_pmp_handler k m w = do {
     (result, w) \<leftarrow> (if msgIndex (ld k w) = IPI_MAX_NUM_OUTSTANDING_COMPLETES
        then HSS_Boot_PMPSetupRequest (bl_target (ld k w)) k w else Some (True, w));
     Some (if result then m\<lparr>state := BOOT_SETUP_PMP_COMPLETE\<rparr> else m, w) }"

definition boot_setup_pmp_complete_onEntry :: "nat \<Rightarrow> Boot_World hook" where
  "boot_setup_pmp_complete_onEntry k m w = Some (m, w)"

definition boot_setup_pmp_complete_handler :: "nat \<Rightarrow> Boot_World hook" where
  "boot_setup_pmp_complete_handler k m w =
     (let target = bl_target (ld k w) in
      if HSS_Timer_IsElapsed (bw_now w) (startTime m) BOOT_SETUP_PMP_COMPLETE_TIMEOUT then do {
        w \<leftarrow> free_all_aux k bootMachine_harts w;
        w \<leftarrow> free_msg_index k w;
        Some (m\<lparr>state := BOOT_ERROR\<rparr>, w) }
      else do {
        (acked, w) \<leftarrow> check_for_ipi_acks k w;
        if acked then do {
          require (pBootImage w \<noteq> 0);
          Some (m\<lparr>state := if has_flag BOOT_FLAG_SKIP_AUTOBOOT (boot_hart w target)
                           then BOOT_COMPLETE else BOOT_ZERO_INIT_CHUNKS\<rparr>, w) }
        else Some (m, w) })"

definition boot_zero_init_chunks_onEntry :: "nat \<Rightarrow> Boot_World hook" where
  "boot_zero_init_chunks_onEntry k m w = do {
     require (pBootImage w \<noteq> 0);
     Some (m, upd_ld k (\<lambda>l. l\<lparr>pZiChunk := pBootImage w + bi_ziChunkTableOffset (memory w) (pBootImage w)\<rparr>) w) }"

definition boot_zero_init_chunks_handler :: "nat \<Rightarrow> Boot_World hook" where
  "boot_zero_init_chunks_handler k m w = do {
     require (pBootImage w \<noteq> 0);
     let pz = pZiChunk (ld k w);
     let z = read_zi_chunk (memory w) pz;
     let next = upd_ld k (\<lambda>l. l\<lparr>pZiChunk := pz + ZI_CHUNK_DESC_SIZE\<rparr>);
     if zi_size z \<noteq> 0 then
       if of_nat (bl_target (ld k w)) = zi_owner z then
         if HSS_DDR_IsAddrInDDR (ddr_layout w) (zi_execAddr z) \<and>
            \<not> HSS_Trigger_IsNotified True EVENT_DDR_TRAINED (bw_triggers w) then Some (m, w)
         else do { w \<leftarrow> boot_do_zero_init_chunk pz w; Some (m, next w) }
       else Some (m, next w)
     else Some (m\<lparr>state := BOOT_DOWNLOAD_CHUNKS\<rparr>, w) }"

definition boot_download_chunks_onEntry :: "nat \<Rightarrow> Boot_World hook" where
  "boot_download_chunks_onEntry k m w = do {
     require (pBootImage w \<noteq> 0);
     let h = boot_hart w (bl_target (ld k w));
     if numChunks h \<noteq> 0 then
       Some (m, upd_ld k (\<lambda>l. l\<lparr>
         pChunk := pBootImage w + bi_chunkTableOffset (memory w) (pBootImage w) + CHUNK_DESC_SIZE * firstChunk h,
         chunkCount := 0, subChunkOffset := 0\<rparr>) w)
     else Some (m, w) }"

text \<open>The bookkeeping after the copy of a sub-chunk, and the download of the current
  sub-chunk of a chunk that passed the checks.\<close>

definition note_ancilliary :: "nat \<Rightarrow> BootChunkDesc \<Rightarrow> Boot_World \<Rightarrow> Boot_World" where
  "note_ancilliary k c w =
     (if owner c AND BOOT_FLAG_ANCILLIARY_DATA \<noteq> 0 \<and> ancilliaryData (ld k w) = 0
      then upd_ld k (\<lambda>l. l\<lparr>ancilliaryData := execAddr c\<rparr>) w else w)"

definition next_sub_chunk :: "nat \<Rightarrow> u64 \<Rightarrow> BootChunkDesc \<Rightarrow> Boot_World \<Rightarrow> Boot_World" where
  "next_sub_chunk k pc c w =
     (let w = upd_ld k (\<lambda>l. l\<lparr>subChunkOffset := subChunkOffset l + of_nat BOOT_SUB_CHUNK_SIZE\<rparr>) w in
      if subChunkOffset (ld k w) > chunk_size c
      then upd_ld k (\<lambda>l. l\<lparr>subChunkOffset := 0, chunkCount := chunkCount l + 1,
                           pChunk := pc + CHUNK_DESC_SIZE\<rparr>) w
      else w)"

definition download_sub_chunk :: "nat \<Rightarrow> u64 \<Rightarrow> Boot_World \<Rightarrow> Boot_World option" where
  "download_sub_chunk k pc w = do {
     w \<leftarrow> boot_do_download_chunk pc (subChunkOffset (ld k w)) BOOT_SUB_CHUNK_SIZE w;
     let c = read_chunk (memory w) pc;
     Some (next_sub_chunk k pc c (note_ancilliary k c w)) }"

definition chunk_permitted :: "pmp_table \<Rightarrow> hart_id \<Rightarrow> BootChunkDesc \<Rightarrow> bool" where
  "chunk_permitted t target c \<longleftrightarrow>
     owner c AND NOT BOOT_FLAG_ANCILLIARY_DATA = of_nat target \<and>
     HSS_PMP_CheckWrite t target (execAddr c) (chunk_size c)"

definition boot_download_chunks_handler :: "nat \<Rightarrow> Boot_World hook" where
  "boot_download_chunks_handler k m w = do {
     require (pBootImage w \<noteq> 0);
     let target = bl_target (ld k w);
     if numChunks (boot_hart w target) \<noteq> 0 then do {
       let pc = pChunk (ld k w);
       let c = read_chunk (memory w) pc;
       if chunkCount (ld k w) \<le> lastChunk (boot_hart w target) \<and> chunk_size c \<noteq> 0 then
         if chunk_permitted (pmpEntry w) target c then do {
           w \<leftarrow> download_sub_chunk k pc w; Some (m, w) }
         else Some (m, upd_ld k (\<lambda>l. l\<lparr>pChunk := pc + CHUNK_DESC_SIZE\<rparr>) w)
       else Some (m\<lparr>state := BOOT_OPENSBI_INIT\<rparr>, w) }
     else Some (m\<lparr>state := BOOT_COMPLETE\<rparr>, w) }"

definition boot_download_chunks_onExit :: "nat \<Rightarrow> Boot_World hook" where
  "boot_download_chunks_onExit k = register_harts k"

definition boot_opensbi_init_onEntry :: "nat \<Rightarrow> Boot_World hook" where
  "boot_opensbi_init_onEntry k m w = do {
     require (pBootImage w \<noteq> 0);
     Some (m, if entryPoint (boot_hart w (bl_target (ld k w))) \<noteq> 0
              then upd_ld k (\<lambda>l. l\<lparr>iterator := 0\<rparr>) w else w) }"

text \<open>Hart \<open>target\<close> is told to jump (\<open>IPI_MSG_GOTO\<close>) or to start OpenSBI.\<close>

definition common_boot_message_delivery :: "nat \<Rightarrow> hart_id \<Rightarrow> Boot_World hook" where
  "common_boot_message_delivery k target m w = do {
     let (slot, d) = IPI_MessageAlloc HSS_HART_E51 (bw_ipi w);
     index \<leftarrow> slot;
     let w = set_aux k target index (w\<lparr>bw_ipi := d\<rparr>);
     let h = boot_hart w target;
     (result, d) \<leftarrow> IPI_MessageDeliver HSS_HART_E51 index target
        (if has_flag BOOT_FLAG_SKIP_OPENSBI h then IPI_MSG_GOTO else IPI_MSG_OPENSBI_INIT)
        (ucast (privMode h)) (entryPoint h) (ancilliaryData (ld k w)) (bw_ipi w);
     Some (if result then m else m\<lparr>state := BOOT_ERROR\<rparr>, w\<lparr>bw_ipi := d\<rparr>) }"

definition boot_opensbi_init_handler :: "nat \<Rightarrow> Boot_World hook" where
  "boot_opensbi_init_handler k m w = do {
     require (pBootImage w \<noteq> 0);
     let target = bl_target (ld k w);
     if primary_boot_hart w target then
       if iterator (ld k w) < length bootMachine_harts then do {
         let peer = bootMachine_harts ! iterator (ld k w);
         (m, w) \<leftarrow> (if peer = target then Some (m, w)
                    else if entryPoint (boot_hart w peer) = entryPoint (boot_hart w target)
                    then common_boot_message_delivery k peer m w else Some (m, w));
         Some (m, upd_ld k (\<lambda>l. l\<lparr>iterator := iterator l + 1\<rparr>) w) }
       else Some (m\<lparr>state := BOOT_WAIT\<rparr>, w)
     else Some (m, w) }"

definition boot_opensbi_init_onExit :: "nat \<Rightarrow> Boot_World hook" where
  "boot_opensbi_init_onExit k m w = do {
     require (pBootImage w \<noteq> 0);
     let target = bl_target (ld k w);
     if entryPoint (boot_hart w target) \<noteq> 0 then common_boot_message_delivery k target m w
     else Some (m, w) }"

definition boot_wait_onEntry :: "nat \<Rightarrow> Boot_World hook" where
  "boot_wait_onEntry k m w = Some (m, w)"

definition boot_wait_handler :: "nat \<Rightarrow> Boot_World hook" where
  "boot_wait_handler k m w = do {
     let target = bl_target (ld k w);
     let m = m\<lparr>startTime := bw_now w\<rparr>;
     require (pBootImage w \<noteq> 0);
     if entryPoint (boot_hart w target) = 0 then do {
       u \<leftarrow> HSS_U54_SetState_Ex target HSS_State_Idle (u54 w);
       Some (m\<lparr>state := BOOT_COMPLETE\<rparr>, w\<lparr>u54 := u\<rparr>) }
     else if HSS_Timer_IsElapsed (bw_later w) (startTime m) BOOT_WAIT_TIMEOUT then do {
       w \<leftarrow> free_all_aux k bootMachine_harts w;
       w \<leftarrow> free_msg_index k w;
       Some (m\<lparr>state := BOOT_ERROR\<rparr>, w) }
     else do {
       (acked, w) \<leftarrow> check_for_ipi_acks k w;
       Some (if acked then (m\<lparr>state := BOOT_COMPLETE\<rparr>,
                            w\<lparr>MSS_STATUS := (MSS_STATUS w AND 0xFFFF) OR (push_bit (target - 1) 1 AND 0xFFFF)\<rparr>)
             else (m, w)) } }"

definition boot_error_handler :: "nat \<Rightarrow> Boot_World hook" where
  "boot_error_handler k m w = Some (m\<lparr>state := BOOT_COMPLETE\<rparr>, w\<lparr>BOOT_FAIL_CR := 1\<rparr>)"

definition boot_complete_onEntry :: "nat \<Rightarrow> Boot_World hook" where
  "boot_complete_onEntry k m w =
     Some (m, w\<lparr>bootComplete := (bootComplete w)[bl_target (ld k w) := 1]\<rparr>)"

definition boot_complete_handler :: "nat \<Rightarrow> Boot_World hook" where
  "boot_complete_handler k m w =
     (let all_complete = bootComplete w ! 1 \<noteq> 0 \<and> bootComplete w ! 2 \<noteq> 0 \<and>
                         bootComplete w ! 3 \<noteq> 0 \<and> bootComplete w ! 4 \<noteq> 0 in
      Some (if all_complete
            then (m\<lparr>state := BOOT_IDLE\<rparr>, w\<lparr>bw_triggers := HSS_Trigger_Notify EVENT_BOOT_COMPLETE (bw_triggers w)\<rparr>)
            else (m, w)))"

definition boot_idle_onEntry :: "nat \<Rightarrow> Boot_World hook" where
  "boot_idle_onEntry k m w = do {
     pcs \<leftarrow> HSS_PerfCtr_Lap (bw_now w) (perfCtr (ld k w)) (perfCtrs w);
     Some (m, w\<lparr>perfCtrs := pcs\<rparr>) }"

section \<open>Starting and restarting\<close>

definition HSS_Register_Boot_Image :: "u64 \<Rightarrow> Boot_World \<Rightarrow> Boot_World" where
  "HSS_Register_Boot_Image pImage w = w\<lparr>pBootImage := pImage\<rparr>"

definition restart_machine :: "StateMachine \<Rightarrow> StateMachine" where
  "restart_machine m =
     (if state m = BOOT_OPENSBI_INIT then m\<lparr>state := BOOT_OPENSBI_INIT\<rparr>
      else m\<lparr>state := BOOT_INITIALIZATION\<rparr>)"

definition boot_using_hart_bitmask :: "u32 \<Rightarrow> Boot_World \<Rightarrow> bool \<times> Boot_World" where
  "boot_using_hart_bitmask harts w =
     (\<exists>h \<in> set bootMachine_harts. bit harts h,
      w\<lparr>bootMachines := map (\<lambda>i. if bit harts (i + 1) then restart_machine (bootMachines w ! i)
                                    else bootMachines w ! i) [0..<length (bootMachines w)],
        bw_triggers := HSS_Trigger_Notify EVENT_POST_BOOT (bw_triggers w)\<rparr>)"

text \<open>The harts that boot with \<open>source\<close>: itself and those with its entry point.\<close>

definition boot_set_mask :: "Boot_World \<Rightarrow> hart_id \<Rightarrow> u32" where
  "boot_set_mask w source = foldl (\<lambda>mk peer.
     if peer \<noteq> source \<and> entryPoint (boot_hart w peer) = entryPoint (boot_hart w source)
     then mk OR push_bit peer 1 else mk) 0 bootMachine_harts OR push_bit source 1"

fun restart_loop :: "hart_id list \<Rightarrow> u32 \<Rightarrow> IPIStatusCode \<Rightarrow> Boot_World \<Rightarrow> IPIStatusCode \<times> Boot_World" where
  "restart_loop [] harts result w = (result, w)"
| "restart_loop (source # ss) harts result w =
     (if \<not> bit harts source then restart_loop ss harts result w
      else
        let local = boot_set_mask w source;
            (ok, w') = (if numChunks (boot_hart w source) \<noteq> 0 then boot_using_hart_bitmask local w
                        else (False, w))
        in restart_loop ss (harts AND NOT local) (if ok then IPI_SUCCESS else result) w')"

definition HSS_Boot_RestartCores_Using_Bitmask :: "u32 \<Rightarrow> Boot_World \<Rightarrow> IPIStatusCode \<times> Boot_World" where
  "HSS_Boot_RestartCores_Using_Bitmask harts w =
     (if pBootImage w = 0 then (IPI_FAIL, w)
      else if \<not> HSS_Boot_ValidateImage (memory w) (pBootImage w) then (IPI_FAIL, w)
      else restart_loop [HSS_HART_U54_1..<HSS_HART_NUM_PEERS] harts IPI_FAIL w)"

definition HSS_Boot_RestartCore :: "hart_id \<Rightarrow> Boot_World \<Rightarrow> (IPIStatusCode \<times> Boot_World) option" where
  "HSS_Boot_RestartCore source w = do {
     require (pBootImage w \<noteq> 0);
     if source \<noteq> HSS_HART_ALL then Some (HSS_Boot_RestartCores_Using_Bitmask (push_bit source 1) w)
     else if \<not> HSS_Boot_ValidateImage (memory w) (pBootImage w) then Some (IPI_FAIL, w)
     else let (ok, w') = boot_using_hart_bitmask mHSS_BITMASK_ALL_U54 w
          in Some (if ok then IPI_SUCCESS else IPI_FAIL, w') }"

definition HSS_SkipBoot_IsSet :: "hart_id \<Rightarrow> Boot_World \<Rightarrow> bool option" where
  "HSS_SkipBoot_IsSet target w = do {
     require (pBootImage w \<noteq> 0);
     Some (has_flag BOOT_FLAG_SKIP_AUTOBOOT (boot_hart w target)) }"

text \<open>
  The handler of boot requests. A remoteproc request carries the hart in memory; machine
  \<open>source - 1\<close> of the four is then set to start the image Linux loaded.
\<close>

definition HSS_Boot_IPIHandler :: "Boot_World ipi_handler" where
  "HSS_Boot_IPIHandler txid source imm ext anc = (\<lambda>(d, w). do {
     (source, w) \<leftarrow>
       (if imm = RPROC_BOOT then
          let source = unat (read_u32 (memory w) ext) in do {
            require (1 \<le> source \<and> source - 1 < length (bootMachines w));
            Some (source, w\<lparr>bootMachines := (bootMachines w)[source - 1 :=
              (bootMachines w ! (source - 1))\<lparr>state := BOOT_OPENSBI_INIT\<rparr>]\<rparr>) }
        else Some (source, w));
     (result, w) \<leftarrow> HSS_Boot_RestartCore source w;
     Some (result, d, w) })"

text \<open>The one entry of \<open>ipiRegistry\<close> that the idle handler asks for.\<close>

definition boot_registry :: "Boot_World ipi_registry" where
  "boot_registry = map (\<lambda>t. (t, if t = IPI_MSG_BOOT_REQUEST then Some HSS_Boot_IPIHandler else None)) ipi_messages"

definition boot_idle_handler :: "nat \<Rightarrow> Boot_World hook" where
  "boot_idle_handler k m w = do {
     (r, d, w) \<leftarrow> IPI_ConsumeIntent boot_registry HSS_HART_E51 (bl_target (ld k w)) IPI_MSG_BOOT_REQUEST
        (bw_ipi w, w\<lparr>bootMachines := (bootMachines w)[k := m]\<rparr>);
     Some (bootMachines w ! k, w\<lparr>bw_ipi := d\<rparr>) }"

section \<open>The machine of hart \<open>k + 1\<close>\<close>

definition boot_state_descs :: "nat \<Rightarrow> Boot_World StateDesc list" where
  "boot_state_descs k =
     [\<lparr>sd_state = BOOT_INITIALIZATION, state_onEntry = None, state_onExit = None,
        state_handler = Some (boot_init_handler k)\<rparr>,
      \<lparr>sd_state = BOOT_SETUP_PMP, state_onEntry = Some (boot_setup_pmp_onEntry k), state_onExit = None,
        state_handler = Some (boot_setup_pmp_handler k)\<rparr>,
      \<lparr>sd_state = BOOT_SETUP_PMP_COMPLETE, state_onEntry = Some (boot_setup_pmp_complete_onEntry k),
        state_onExit = None, state_handler = Some (boot_setup_pmp_complete_handler k)\<rparr>,
      \<lparr>sd_state = BOOT_ZERO_INIT_CHUNKS, state_onEntry = Some (boot_zero_init_chunks_onEntry k),
        state_onExit = None, state_handler = Some (boot_zero_init_chunks_handler k)\<rparr>,
      \<lparr>sd_state = BOOT_DOWNLOAD_CHUNKS, state_onEntry = Some (boot_download_chunks_onEntry k),
        state_onExit = Some (boot_download_chunks_onExit k), state_handler = Some (boot_download_chunks_handler k)\<rparr>,
      \<lparr>sd_state = BOOT_OPENSBI_INIT, state_onEntry = Some (boot_opensbi_init_onEntry k),
        state_onExit = Some (boot_opensbi_init_onExit k), state_handler = Some (boot_opensbi_init_handler k)\<rparr>,
      \<lparr>sd_state = BOOT_WAIT, state_onEntry = Some (boot_wait_onEntry k), state_onExit = None,
        state_handler = Some (boot_wait_handler k)\<rparr>,
      \<lparr>sd_state = BOOT_COMPLETE, state_onEntry = Some (boot_complete_onEntry k), state_onExit = None,
        state_handler = Some (boot_complete_handler k)\<rparr>,
      \<lparr>sd_state = BOOT_IDLE, state_onEntry = Some (boot_idle_onEntry k), state_onExit = None,
        state_handler = Some (boot_idle_handler k)\<rparr>,
      \<lparr>sd_state = BOOT_ERROR, state_onEntry = None, state_onExit = None,
        state_handler = Some (boot_error_handler k)\<rparr>]"

text \<open>A step of machine \<open>k\<close> of the superloop.\<close>

definition boot_step :: "nat \<Rightarrow> u64 \<Rightarrow> u64 \<Rightarrow> Boot_World \<Rightarrow> Boot_World option" where
  "boot_step k t0 t1 w = do {
     (m, w) \<leftarrow> RunStateMachine (boot_state_descs k) t0 t1 (bootMachines w ! k) w;
     Some (w\<lparr>bootMachines := (bootMachines w)[k := m]\<rparr>) }"

end
