(* ===== verification/Boot_Safety.thy ===== *)
theory Boot_Safety
  imports Boot_Service Ipi_Bus
begin

text \<open>
  Safety of the boot service: the well-formedness of its variables, kept by every hook of its
  table, and the interpretation of the engine's contract on that table for each of the four
  machines.
\<close>

section \<open>Well-formedness\<close>

definition boot_machine_ok :: "StateMachine \<Rightarrow> bool" where
  "boot_machine_ok m \<longleftrightarrow> 0 \<le> state m \<and> state m < 10 \<and> numStates m \<le> 10"

definition locals_wf :: "Boot_LocalData list \<Rightarrow> bool" where
  "locals_wf ls \<longleftrightarrow> length ls = 4 \<and> (\<forall>i < 4. bl_target (ls ! i) = i + 1 \<and> length (msgIndexAux (ls ! i)) = 4)"

definition boot_wf :: "Boot_World \<Rightarrow> bool" where
  "boot_wf w \<longleftrightarrow> ipi_wf (bw_ipi w) \<and> domains_wf (domains w) \<and> u54_wf (u54 w) \<and>
     length (bootComplete w) = 5 \<and> length (bootMachines w) = 4 \<and>
     (\<forall>m \<in> set (bootMachines w). boot_machine_ok m) \<and> locals_wf (localData w)"

lemma length_boot_descs [simp]: "length (boot_state_descs k) = 10"
  by (simp add: boot_state_descs_def)

lemma machine_ok_boot: "machine_ok (boot_state_descs k) m \<longleftrightarrow> boot_machine_ok m"
  by (auto simp: machine_ok_def boot_machine_ok_def)

lemma boot_machine_ok_update [simp]:
  "boot_machine_ok m \<Longrightarrow> boot_machine_ok (m\<lparr>state := s\<rparr>) \<longleftrightarrow> 0 \<le> s \<and> s < 10"
  "boot_machine_ok (m\<lparr>startTime := t\<rparr>) = boot_machine_ok m"
  by (auto simp: boot_machine_ok_def)

lemma boot_wf_update [simp]:
  "boot_wf (w\<lparr>memory := a\<rparr>) = boot_wf w"
  "boot_wf (w\<lparr>BOOT_FAIL_CR := b\<rparr>) = boot_wf w"
  "boot_wf (w\<lparr>MSS_STATUS := b\<rparr>) = boot_wf w"
  "boot_wf (w\<lparr>perfCtrs := c\<rparr>) = boot_wf w"
  "boot_wf (w\<lparr>bw_triggers := d\<rparr>) = boot_wf w"
  "boot_wf (w\<lparr>pBootImage := e\<rparr>) = boot_wf w"
  "boot_wf w \<Longrightarrow> ipi_wf f \<Longrightarrow> boot_wf (w\<lparr>bw_ipi := f\<rparr>)"
  "boot_wf w \<Longrightarrow> domains_wf g \<Longrightarrow> boot_wf (w\<lparr>domains := g\<rparr>)"
  "boot_wf w \<Longrightarrow> u54_wf h \<Longrightarrow> boot_wf (w\<lparr>u54 := h\<rparr>)"
  by (simp_all add: boot_wf_def)

lemma boot_wfD:
  assumes "boot_wf w"
  shows "ipi_wf (bw_ipi w)" "domains_wf (domains w)" "u54_wf (u54 w)" "length (bootComplete w) = 5"
    "length (bootMachines w) = 4" "i < 4 \<Longrightarrow> boot_machine_ok (bootMachines w ! i)"
    "length (localData w) = 4" "i < 4 \<Longrightarrow> bl_target (ld i w) = i + 1"
    "i < 4 \<Longrightarrow> length (msgIndexAux (ld i w)) = 4"
  using assms by (auto simp: boot_wf_def locals_wf_def ld_def)

lemma ld_upd [simp]:
  "k < length (localData w) \<Longrightarrow> ld k (upd_ld k f w) = f (ld k w)"
  "j \<noteq> k \<Longrightarrow> ld j (upd_ld k f w) = ld j w"
  by (simp_all add: ld_def upd_ld_def)

lemma upd_ld_simps [simp]:
  "bw_ipi (upd_ld k f w) = bw_ipi w" "domains (upd_ld k f w) = domains w"
  "memory (upd_ld k f w) = memory w" "pBootImage (upd_ld k f w) = pBootImage w"
  "bootMachines (upd_ld k f w) = bootMachines w" "u54 (upd_ld k f w) = u54 w"
  "pmpEntry (upd_ld k f w) = pmpEntry w" "bw_now (upd_ld k f w) = bw_now w"
  "bw_later (upd_ld k f w) = bw_later w" "bw_triggers (upd_ld k f w) = bw_triggers w"
  "bootComplete (upd_ld k f w) = bootComplete w" "boot_hart (upd_ld k f w) h = boot_hart w h"
  "length (localData (upd_ld k f w)) = length (localData w)"
  by (simp_all add: upd_ld_def boot_hart_def)

lemma upd_ld_wf [simp]:
  assumes "boot_wf w" "\<And>l. bl_target (f l) = bl_target l"
    "\<And>l. length (msgIndexAux (f l)) = length (msgIndexAux l)"
  shows "boot_wf (upd_ld k f w)"
proof -
  have "locals_wf ((localData w)[k := f (localData w ! k)])"
    unfolding locals_wf_def
  proof (intro conjI allI impI)
    have l: "length (localData w) = 4" "\<forall>i < 4. bl_target (localData w ! i) = i + 1 \<and>
        length (msgIndexAux (localData w ! i)) = 4"
      using assms(1) by (simp_all add: boot_wf_def locals_wf_def)
    show "length ((localData w)[k := f (localData w ! k)]) = 4" using l by simp
    fix i :: nat assume "i < 4"
    then show "bl_target ((localData w)[k := f (localData w ! k)] ! i) = i + 1"
      "length (msgIndexAux ((localData w)[k := f (localData w ! k)] ! i)) = 4"
      using l assms(2,3) by (cases "k = i"; simp)+
  qed
  then show ?thesis using assms(1) by (simp add: boot_wf_def upd_ld_def)
qed

lemma set_aux_wf [simp]: "boot_wf w \<Longrightarrow> boot_wf (set_aux k p i w)"
  by (simp add: set_aux_def)

lemma require_Some [simp]: "require b \<bind> f = Some x \<longleftrightarrow> b \<and> f () = Some x"
  by (simp add: require_def)

lemma require_unit [simp]: "require b = Some u \<longleftrightarrow> b"
  by (simp add: require_def)

section \<open>Every operation keeps it\<close>

lemma message_free_wf: "IPI_MessageFree me i d = Some d' \<Longrightarrow> ipi_wf d \<Longrightarrow> ipi_wf d'"
  by (auto simp: IPI_MessageFree_def split: if_splits)

lemma message_alloc_wf: "IPI_MessageAlloc me d = (r, d') \<Longrightarrow> ipi_wf d \<Longrightarrow> ipi_wf d'"
  using IPI_MessageAlloc_wf [of d me] by simp

lemma message_deliver_wf:
  assumes "IPI_MessageDeliver me i t msg imm ext anc d = Some (r, d')" "ipi_wf d" "me < 5" "t < 5" "me \<noteq> t"
  shows "ipi_wf d'"
  using assms(1) IPI_Send_wf [OF assms(2-5), of msg "ctransaction_id (ipi_completes d ! i)" imm ext anc] assms(2)
  by (auto simp: IPI_MessageDeliver_def split: if_splits)

lemmas boot_msg_wf = message_free_wf message_alloc_wf message_deliver_wf boot_wfD(1)

lemma free_msg_index_wf: "free_msg_index k w = Some w' \<Longrightarrow> boot_wf w \<Longrightarrow> boot_wf w'"
  by (auto simp: free_msg_index_def bind_eq_Some_conv split: if_splits dest: message_free_wf intro: boot_wfD(1))

lemma free_msg_index_aux_wf: "free_msg_index_aux k p w = Some w' \<Longrightarrow> boot_wf w \<Longrightarrow> boot_wf w'"
  by (auto simp: free_msg_index_aux_def bind_eq_Some_conv split: if_splits dest: message_free_wf intro: boot_wfD(1))

lemma free_all_aux_wf: "free_all_aux k ps w = Some w' \<Longrightarrow> boot_wf w \<Longrightarrow> boot_wf w'"
  by (induction ps arbitrary: w) (auto simp: free_all_aux.simps(2) bind_eq_Some_conv dest: free_msg_index_aux_wf)

lemma ack_loop_wf: "ack_loop k ps r w = Some (r', w') \<Longrightarrow> boot_wf w \<Longrightarrow> boot_wf w'"
proof (induction ps arbitrary: r w)
  case Nil
  then show ?case by simp
next
  case (Cons p ps)
  show ?case
  proof (cases "aux k p w = IPI_MAX_NUM_OUTSTANDING_COMPLETES")
    case True
    then show ?thesis using Cons by (simp add: ack_loop.simps(2))
  next
    case False
    then obtain b v where "(if b then free_msg_index_aux k p w else Some w) = Some v"
      and v: "ack_loop k ps b v = Some (r', w')"
      using Cons.prems(1) by (auto simp: ack_loop.simps(2) bind_eq_Some_conv)
    then have "boot_wf v" using Cons.prems(2) free_msg_index_aux_wf by (cases b) auto
    then show ?thesis using Cons.IH [OF v] by simp
  qed
qed

lemma check_for_ipi_acks_wf: "check_for_ipi_acks k w = Some (r, w') \<Longrightarrow> boot_wf w \<Longrightarrow> boot_wf w'"
proof -
  assume c: "check_for_ipi_acks k w = Some (r, w')" and w: "boot_wf w"
  obtain b v where v: "ack_loop k [1, 2, 3, 4] True w = Some (b, v)"
    and r: "w' = v \<or> free_msg_index k v = Some w'"
    using c by (auto simp: check_for_ipi_acks_def bind_eq_Some_conv Let_def split: if_splits
)
  show "boot_wf w'" using r ack_loop_wf [OF v w] free_msg_index_wf by auto
qed

lemma note_ancilliary_wf [simp]: "boot_wf w \<Longrightarrow> boot_wf (note_ancilliary k c w)"
  by (simp add: note_ancilliary_def)

lemma next_sub_chunk_wf [simp]: "boot_wf w \<Longrightarrow> boot_wf (next_sub_chunk k pc c w)"
  by (simp add: next_sub_chunk_def Let_def)

lemma download_sub_chunk_wf:
  assumes "download_sub_chunk k pc w = Some w'" "boot_wf w"
  shows "boot_wf w'"
proof -
  obtain v where v: "boot_do_download_chunk pc (subChunkOffset (ld k w)) BOOT_SUB_CHUNK_SIZE w = Some v"
    and w': "w' = next_sub_chunk k pc (read_chunk (memory v) pc) (note_ancilliary k (read_chunk (memory v) pc) v)"
    using assms(1) by (auto simp: download_sub_chunk_def bind_eq_Some_conv Let_def)
  have "boot_wf v" using v assms(2)
    by (auto simp: boot_do_download_chunk_def bind_eq_Some_conv Let_def)
  then show ?thesis by (simp add: w')
qed

lemma register_peer_wf: "register_peer k t p w = Some w' \<Longrightarrow> boot_wf w \<Longrightarrow> boot_wf w'"
proof -
  assume r: "register_peer k t p w = Some w'" and w: "boot_wf w"
  have "boot_wf (set_aux k p IPI_MAX_NUM_OUTSTANDING_COMPLETES w)" using w by simp
  then show "boot_wf w'"
    using r by (auto simp: register_peer_def Let_def bind_eq_Some_conv split: if_splits
        dest: deregister_hart_keeps_wf register_hart_keeps_wf intro: boot_wfD(2))
qed

lemma register_loop_wf: "register_loop k t ps w = Some w' \<Longrightarrow> boot_wf w \<Longrightarrow> boot_wf w'"
  by (induction ps arbitrary: w) (auto simp: register_loop.simps(2) bind_eq_Some_conv dest: register_peer_wf)

lemma register_boot_hart_wf:
  "mpfs_domains_register_boot_hart n hm b pm e a c wm d = Some d' \<Longrightarrow> domains_wf d \<Longrightarrow> domains_wf d'"
  by (auto simp: mpfs_domains_register_boot_hart_def split: if_splits dest: with_ledger_keeps_wf)

lemma register_domain_wf:
  assumes "register_domain k t w = Some w'" "boot_wf w"
  shows "boot_wf w'"
  using assms register_boot_hart_wf boot_wfD(2)
  by (fastforce simp: register_domain_def Let_def bind_eq_Some_conv split: if_splits)

lemma register_harts_wf:
  assumes "register_harts k m w = Some (m', w')" "boot_wf w"
  shows "m' = m" "boot_wf w'"
proof -
  let ?w = "upd_ld k (\<lambda>l. l\<lparr>msgIndex := IPI_MAX_NUM_OUTSTANDING_COMPLETES\<rparr>) w"
  obtain v where v: "register_loop k (bl_target (ld k w)) [1, 2, 3, 4] ?w = Some v"
    and c: "m' = m" "register_domain k (bl_target (ld k w)) v = Some w'"
    using assms(1) by (auto simp: register_harts_def Let_def bind_eq_Some_conv)
  have "boot_wf v" using register_loop_wf [OF v] assms(2) by simp
  then show "m' = m" "boot_wf w'" using c register_domain_wf by auto
qed

lemma common_boot_message_delivery_wf:
  assumes "common_boot_message_delivery k t m w = Some (m', w')" "boot_wf w" "0 < t" "t < 5"
  shows "(m' = m \<or> m' = m\<lparr>state := BOOT_ERROR\<rparr>) \<and> boot_wf w'"
proof -
  obtain i d where a: "IPI_MessageAlloc HSS_HART_E51 (bw_ipi w) = (Some i, d)"
    using assms(1) by (auto simp: common_boot_message_delivery_def Let_def bind_eq_Some_conv split: prod.splits)
  have d: "ipi_wf d" using message_alloc_wf [OF a] boot_wfD(1) [OF assms(2)] .
  have "boot_wf (set_aux k t i (w\<lparr>bw_ipi := d\<rparr>))" using assms(2) d by simp
  then show ?thesis
    using assms(1) a d assms(3,4)
    by (auto simp: common_boot_message_delivery_def Let_def bind_eq_Some_conv set_aux_def
        split: if_splits dest!: message_deliver_wf)
qed

section \<open>Requests\<close>

lemma restart_machine_ok: "boot_machine_ok m \<Longrightarrow> boot_machine_ok (restart_machine m)"
  by (simp add: restart_machine_def)

lemma boot_using_hart_bitmask_wf: "boot_wf w \<Longrightarrow> boot_wf (snd (boot_using_hart_bitmask mk w))"
  by (auto simp: boot_using_hart_bitmask_def boot_wf_def intro!: restart_machine_ok)

lemma restart_loop_wf: "boot_wf w \<Longrightarrow> boot_wf (snd (restart_loop ss mk r w))"
proof (induction ss arbitrary: mk r w)
  case Nil
  then show ?case by simp
next
  case (Cons s ss)
  then show ?case using boot_using_hart_bitmask_wf [of w "boot_set_mask w s"]
    by (auto simp: Let_def split: prod.splits if_splits)
qed

lemma restart_core_wf:
  assumes "HSS_Boot_RestartCore s w = Some (r, w')" "boot_wf w"
  shows "boot_wf w'"
proof -
  have "boot_wf (snd (HSS_Boot_RestartCores_Using_Bitmask mk w))" for mk
    using assms(2) restart_loop_wf by (simp add: HSS_Boot_RestartCores_Using_Bitmask_def)
  then show ?thesis
    using assms boot_using_hart_bitmask_wf [OF assms(2), of mHSS_BITMASK_ALL_U54]
    by (auto simp: HSS_Boot_RestartCore_def split: if_splits prod.splits) (metis snd_conv)+
qed

lemma boot_request_wf:
  assumes "HSS_Boot_IPIHandler tx s imm ext anc (d, w) = Some (r, d', w')" "boot_wf w"
  shows "boot_wf w' \<and> d' = d"
proof -
  obtain s' v where v: "(if imm = RPROC_BOOT then
          let source = unat (read_u32 (memory w) ext) in do {
            require (1 \<le> source \<and> source - 1 < length (bootMachines w));
            Some (source, w\<lparr>bootMachines := (bootMachines w)[source - 1 :=
              (bootMachines w ! (source - 1))\<lparr>state := BOOT_OPENSBI_INIT\<rparr>]\<rparr>) }
        else Some (s, w)) = Some (s', v)"
    and r: "HSS_Boot_RestartCore s' v = Some (r, w')" "d' = d"
    using assms(1) by (auto simp: HSS_Boot_IPIHandler_def bind_eq_Some_conv)
  have "boot_wf (w\<lparr>bootMachines := (bootMachines w)[i := (bootMachines w ! i)\<lparr>state := BOOT_OPENSBI_INIT\<rparr>]\<rparr>)"
    if "i < length (bootMachines w)" for i
    using assms(2) that unfolding boot_wf_def
    by (auto dest!: set_update_subset_insert [THEN subsetD])
  then have "boot_wf v" using v assms(2) by (auto simp: Let_def split: if_splits)
  then show ?thesis using restart_core_wf [OF r(1)] r(2) by simp
qed

lemma boot_registry_entry:
  "length boot_registry = 20" "fst (boot_registry ! msg_num IPI_MSG_BOOT_REQUEST) = IPI_MSG_BOOT_REQUEST"
  "snd (boot_registry ! msg_num IPI_MSG_BOOT_REQUEST) = Some HSS_Boot_IPIHandler"
  by (simp_all add: boot_registry_def ipi_messages_def msg_num_def)

lemma boot_consume_wf:
  assumes "IPI_ConsumeIntent boot_registry HSS_HART_E51 s IPI_MSG_BOOT_REQUEST (d, w) = Some (r, d', w')"
    and "ipi_wf d" "0 < s" "s < 5" "boot_wf w"
  shows "ipi_wf d' \<and> boot_wf w'"
proof -
  let ?i = "IPI_CalculateQueueIndex s HSS_HART_E51"
  have i: "?i < 20" "?i < length (ipi_queues d)"
    using assms(2-4) by (simp_all add: queue_index_less ipi_wfD)
  show ?thesis
  proof (cases "find_index (\<lambda>m. msg_type m = IPI_MSG_BOOT_REQUEST) (msgQ (ipi_queues d ! ?i))")
    case None
    then show ?thesis using assms i msg_num_less [of IPI_MSG_BOOT_REQUEST]
      by (simp add: IPI_ConsumeIntent_def boot_registry_entry Let_def)
  next
    case (Some j)
    then obtain tx imm ext anc e d1 r1 where h: "HSS_Boot_IPIHandler tx s imm ext anc
        (dec_count ?i (bump HSS_HART_E51 (\<lambda>p. p\<lparr>consume_intents := consume_intents p + 1\<rparr>) d), w) = Some (r1, e, w')"
      and a: "\<exists>ty tx2. send_ack HSS_HART_E51 s ty tx2 r1 e = Some d1" "d' = clear_slot ?i j d1"
      using assms(1) i msg_num_less [of IPI_MSG_BOOT_REQUEST]
      by (auto simp: IPI_ConsumeIntent_def boot_registry_entry Let_def bind_eq_Some_conv) blast
    have e: "ipi_wf e" "boot_wf w'"
      using boot_request_wf [OF h assms(5)] dec_count_wf [OF _ i(1)] assms(2) by simp_all
    obtain ty tx2 where "send_ack HSS_HART_E51 s ty tx2 r1 e = Some d1" using a(1) by blast
    then have "ipi_wf d1" using send_ack_wf [OF e(1), of 0 s ty tx2 r1] assms(3,4) by auto
    then show ?thesis using a(2) e(2) clear_slot_wf [OF _ i(1)] by simp
  qed
qed

section \<open>The contract of the table\<close>

lemma boot_keepsI:
  "(\<And>m w m' w'. boot_machine_ok m \<Longrightarrow> boot_wf w \<Longrightarrow> f m w = Some (m', w') \<Longrightarrow> boot_machine_ok m' \<and> boot_wf w')
    \<Longrightarrow> hook_keeps (boot_state_descs k) boot_wf f"
  unfolding hook_keeps_def machine_ok_boot by blast

lemma boot_register_keeps:
  "hook_keeps (boot_state_descs k) boot_wf (register_harts j)"
  by (rule boot_keepsI) (use register_harts_wf in blast)

lemma boot_init_keeps: "hook_keeps (boot_state_descs k) boot_wf (boot_init_handler k)"
proof (rule boot_keepsI)
  fix m w m' w' assume m: "boot_machine_ok m" and w: "boot_wf w" and f: "boot_init_handler k m w = Some (m', w')"
  have "(m' = m \<or> m' = m\<lparr>state := BOOT_ERROR\<rparr> \<or> m' = m\<lparr>startTime := bw_now w, state := BOOT_SETUP_PMP\<rparr>) \<and>
    (w' = w \<or> (\<exists>i pcs. w' = upd_ld k (\<lambda>l. l\<lparr>perfCtr := i\<rparr>) (w\<lparr>BOOT_FAIL_CR := 0, perfCtrs := pcs\<rparr>)))"
    using f unfolding boot_init_handler_def Let_def by (auto split: if_splits prod.splits)
  then show "boot_machine_ok m' \<and> boot_wf w'" using m w by auto
qed

lemma boot_pmp_keeps:
  assumes "k < 4"
  shows "hook_keeps (boot_state_descs k) boot_wf (boot_setup_pmp_handler k)"
proof (rule boot_keepsI)
  fix m w m' w' assume m: "boot_machine_ok m" and w: "boot_wf w" and f: "boot_setup_pmp_handler k m w = Some (m', w')"
  have "boot_wf v" if r: "HSS_Boot_PMPSetupRequest (bl_target (ld k w)) k w = Some (b, v)" for b v
  proof -
    obtain i d e d2 where a: "IPI_MessageAlloc HSS_HART_E51 (bw_ipi w) = (Some i, d)"
      and dv: "IPI_MessageDeliver HSS_HART_E51 i (bl_target (ld k w)) IPI_MSG_PMP_SETUP 0 0 0 d = Some (b, e)"
      and fr: "d2 = e \<or> IPI_MessageFree HSS_HART_E51 i e = Some d2"
      and v: "v = upd_ld k (\<lambda>l. l\<lparr>msgIndex := i\<rparr>) (w\<lparr>bw_ipi := d2\<rparr>)"
      using r by (auto simp: HSS_Boot_PMPSetupRequest_def bind_eq_Some_conv Let_def split: prod.splits if_splits) blast+
    have "ipi_wf d" using message_alloc_wf [OF a] boot_wfD(1) [OF w] .
    then have "ipi_wf e" using message_deliver_wf [OF dv] boot_wfD(8) [OF w assms] assms by simp
    then have "ipi_wf d2" using fr message_free_wf by blast
    then show ?thesis using w by (simp add: v)
  qed
  then show "boot_machine_ok m' \<and> boot_wf w'"
    using f m w by (auto simp: boot_setup_pmp_handler_def bind_eq_Some_conv split: if_splits)
qed

lemma boot_pmp_complete_keeps:
  "hook_keeps (boot_state_descs k) boot_wf (boot_setup_pmp_complete_handler k)"
proof (rule boot_keepsI)
  fix m w m' w' assume m: "boot_machine_ok m" and w: "boot_wf w"
    and f: "boot_setup_pmp_complete_handler k m w = Some (m', w')"
  show "boot_machine_ok m' \<and> boot_wf w'"
  proof (cases "HSS_Timer_IsElapsed (bw_now w) (startTime m) BOOT_SETUP_PMP_COMPLETE_TIMEOUT")
    case True
    then obtain v where "free_all_aux k [1, 2, 3, 4] w = Some v" "free_msg_index k v = Some w'"
      "m' = m\<lparr>state := BOOT_ERROR\<rparr>"
      using f by (auto simp: boot_setup_pmp_complete_handler_def Let_def bind_eq_Some_conv)
    then show ?thesis using m w free_all_aux_wf free_msg_index_wf by simp
  next
    case False
    then obtain b where "check_for_ipi_acks k w = Some (b, w')"
      and "m' = m \<or> m' = m\<lparr>state := BOOT_COMPLETE\<rparr> \<or> m' = m\<lparr>state := BOOT_ZERO_INIT_CHUNKS\<rparr>"
      using f by (auto simp: boot_setup_pmp_complete_handler_def Let_def bind_eq_Some_conv split: if_splits)
    then show ?thesis using m w check_for_ipi_acks_wf by auto
  qed
qed

lemma boot_wait_keeps:
  "hook_keeps (boot_state_descs k) boot_wf (boot_wait_handler k)"
proof (rule boot_keepsI)
  fix m w m' w' assume m: "boot_machine_ok m" and w: "boot_wf w" and f: "boot_wait_handler k m w = Some (m', w')"
  let ?m = "m\<lparr>startTime := bw_now w\<rparr>"
  show "boot_machine_ok m' \<and> boot_wf w'"
  proof (cases "entryPoint (boot_hart w (bl_target (ld k w))) = 0")
    case True
    then obtain u where "HSS_U54_SetState_Ex (bl_target (ld k w)) HSS_State_Idle (u54 w) = Some u"
      "m' = ?m\<lparr>state := BOOT_COMPLETE\<rparr>" "w' = w\<lparr>u54 := u\<rparr>"
      using f by (auto simp: boot_wait_handler_def Let_def bind_eq_Some_conv)
    then show ?thesis using m w set_state_ex_wf boot_wfD(3) by simp
  next
    case entry: False
    show ?thesis
    proof (cases "HSS_Timer_IsElapsed (bw_later w) (bw_now w) BOOT_WAIT_TIMEOUT")
      case True
      then obtain v where "free_all_aux k [1, 2, 3, 4] w = Some v" "free_msg_index k v = Some w'"
        "m' = ?m\<lparr>state := BOOT_ERROR\<rparr>"
        using f entry by (auto simp: boot_wait_handler_def Let_def bind_eq_Some_conv)
      then show ?thesis using m w free_all_aux_wf free_msg_index_wf by simp
    next
      case False
      then obtain b v where "check_for_ipi_acks k w = Some (b, v)"
        and "m' = ?m \<and> w' = v \<or> m' = ?m\<lparr>state := BOOT_COMPLETE\<rparr> \<and> (\<exists>s. w' = v\<lparr>MSS_STATUS := s\<rparr>)"
        using f entry by (auto simp: boot_wait_handler_def Let_def bind_eq_Some_conv split: if_splits)
      then show ?thesis using m w check_for_ipi_acks_wf by auto
    qed
  qed
qed

lemma boot_zero_init_keeps:
  "hook_keeps (boot_state_descs k) boot_wf (boot_zero_init_chunks_onEntry k)"
  "hook_keeps (boot_state_descs k) boot_wf (boot_zero_init_chunks_handler k)"
proof -
  show "hook_keeps (boot_state_descs k) boot_wf (boot_zero_init_chunks_onEntry k)"
    by (rule boot_keepsI) (auto simp: boot_zero_init_chunks_onEntry_def)
  show "hook_keeps (boot_state_descs k) boot_wf (boot_zero_init_chunks_handler k)"
  proof (rule boot_keepsI)
    fix m w m' w' assume m: "boot_machine_ok m" and w: "boot_wf w"
      and f: "boot_zero_init_chunks_handler k m w = Some (m', w')"
    have "(m' = m \<or> m' = m\<lparr>state := BOOT_DOWNLOAD_CHUNKS\<rparr>) \<and>
      (w' = w \<or> (\<exists>a. w' = upd_ld k (\<lambda>l. l\<lparr>pZiChunk := a\<rparr>) w) \<or>
       (\<exists>a b. w' = upd_ld k (\<lambda>l. l\<lparr>pZiChunk := a\<rparr>) (w\<lparr>memory := b\<rparr>)))"
      using f unfolding boot_zero_init_chunks_handler_def boot_do_zero_init_chunk_def Let_def
      by (auto split: if_splits)
    then show "boot_machine_ok m' \<and> boot_wf w'" using m w by auto
  qed
qed

lemma boot_download_keeps:
  "hook_keeps (boot_state_descs k) boot_wf (boot_download_chunks_onEntry k)"
  "hook_keeps (boot_state_descs k) boot_wf (boot_download_chunks_handler k)"
  by (rule boot_keepsI; auto simp: boot_download_chunks_onEntry_def boot_download_chunks_handler_def
      bind_eq_Some_conv Let_def split: if_splits dest: download_sub_chunk_wf)+

lemma boot_opensbi_keeps:
  assumes "k < 4"
  shows "hook_keeps (boot_state_descs k) boot_wf (boot_opensbi_init_onEntry k)"
    "hook_keeps (boot_state_descs k) boot_wf (boot_opensbi_init_onExit k)"
    "hook_keeps (boot_state_descs k) boot_wf (boot_opensbi_init_handler k)"
proof -
  show "hook_keeps (boot_state_descs k) boot_wf (boot_opensbi_init_onEntry k)"
    by (rule boot_keepsI) (auto simp: boot_opensbi_init_onEntry_def)
  show "hook_keeps (boot_state_descs k) boot_wf (boot_opensbi_init_onExit k)"
  proof (rule boot_keepsI)
    fix m w m' w' assume m: "boot_machine_ok m" and w: "boot_wf w"
      and f: "boot_opensbi_init_onExit k m w = Some (m', w')"
    have "0 < bl_target (ld k w)" "bl_target (ld k w) < 5" using boot_wfD(8) [OF w assms] assms by simp_all
    then show "boot_machine_ok m' \<and> boot_wf w'"
      using f m w by (auto simp: boot_opensbi_init_onExit_def Let_def split: if_splits
          dest!: common_boot_message_delivery_wf)
  qed
  show "hook_keeps (boot_state_descs k) boot_wf (boot_opensbi_init_handler k)"
  proof (rule boot_keepsI)
    fix m w m' w' assume m: "boot_machine_ok m" and w: "boot_wf w"
      and f: "boot_opensbi_init_handler k m w = Some (m', w')"
    show "boot_machine_ok m' \<and> boot_wf w'"
    proof (cases "primary_boot_hart w (bl_target (ld k w)) \<and> iterator (ld k w) < 4")
      case True
      let ?p = "[1, 2, 3, 4 :: nat] ! iterator (ld k w)"
      have "iterator (ld k w) = 0 \<or> iterator (ld k w) = 1 \<or> iterator (ld k w) = 2 \<or> iterator (ld k w) = 3"
        using True by auto
      then have p: "0 < ?p" "?p < 5" by auto
      obtain m1 w1 where c: "(m1, w1) = (m, w) \<or> common_boot_message_delivery k ?p m w = Some (m1, w1)"
        and w': "m' = m1" "w' = upd_ld k (\<lambda>l. l\<lparr>iterator := iterator l + 1\<rparr>) w1"
        using f True by (auto simp: boot_opensbi_init_handler_def Let_def bind_eq_Some_conv split: if_splits)
      have "boot_machine_ok m1 \<and> boot_wf w1"
        using c m w common_boot_message_delivery_wf [of k ?p m w m1 w1] p by (elim disjE) auto
      then show ?thesis using w' by simp
    next
      case False
      then show ?thesis using f m w by (auto simp: boot_opensbi_init_handler_def Let_def split: if_splits)
    qed
  qed
qed

lemma boot_complete_keeps:
  "hook_keeps (boot_state_descs k) boot_wf (boot_complete_onEntry k)"
  "hook_keeps (boot_state_descs k) boot_wf (boot_complete_handler k)"
  "hook_keeps (boot_state_descs k) boot_wf (boot_error_handler k)"
  "hook_keeps (boot_state_descs k) boot_wf (boot_idle_onEntry k)"
  "hook_keeps (boot_state_descs k) boot_wf (boot_wait_onEntry k)"
  "hook_keeps (boot_state_descs k) boot_wf (boot_setup_pmp_complete_onEntry k)"
  by (rule boot_keepsI; auto simp: boot_complete_onEntry_def boot_complete_handler_def boot_error_handler_def
      boot_idle_onEntry_def boot_wait_onEntry_def boot_setup_pmp_complete_onEntry_def Let_def bind_eq_Some_conv
      boot_wf_def split: if_splits)+

lemma boot_idle_keeps:
  assumes "k < 4"
  shows "hook_keeps (boot_state_descs k) boot_wf (boot_idle_handler k)"
proof (rule boot_keepsI)
  fix m w m' w' assume m: "boot_machine_ok m" and w: "boot_wf w" and f: "boot_idle_handler k m w = Some (m', w')"
  let ?w = "w\<lparr>bootMachines := (bootMachines w)[k := m]\<rparr>"
  have wk: "boot_wf ?w"
    using w m unfolding boot_wf_def by (auto dest!: set_update_subset_insert [THEN subsetD])
  obtain r d v where c: "IPI_ConsumeIntent boot_registry HSS_HART_E51 (bl_target (ld k w)) IPI_MSG_BOOT_REQUEST
      (bw_ipi w, ?w) = Some (r, d, v)" and w': "m' = bootMachines v ! k" "w' = v\<lparr>bw_ipi := d\<rparr>"
    using f by (auto simp: boot_idle_handler_def bind_eq_Some_conv)
  have "ipi_wf d \<and> boot_wf v"
    using boot_consume_wf [OF c boot_wfD(1) [OF w] _ _ wk] boot_wfD(8) [OF w assms] assms by simp
  then show "boot_machine_ok m' \<and> boot_wf w'" using w' boot_wfD(6) [of v k] assms by simp
qed

lemma boot_contract:
  assumes "k < 4"
  shows "machine_contract (boot_state_descs k) boot_wf"
proof
  fix d assume d: "d \<in> set (boot_state_descs k)"
  show "desc_keeps (boot_state_descs k) boot_wf d"
    using d [unfolded boot_state_descs_def] boot_register_keeps boot_init_keeps boot_pmp_keeps [OF assms]
      boot_pmp_complete_keeps boot_wait_keeps boot_zero_init_keeps boot_download_keeps
      boot_opensbi_keeps [OF assms] boot_complete_keeps boot_idle_keeps [OF assms]
    by (auto simp: desc_keeps_entry boot_setup_pmp_onEntry_def boot_download_chunks_onExit_def)
qed

interpretation boot1: machine_contract "boot_state_descs 0" boot_wf by (rule boot_contract) simp
interpretation boot2: machine_contract "boot_state_descs 1" boot_wf by (rule boot_contract) simp
interpretation boot3: machine_contract "boot_state_descs 2" boot_wf by (rule boot_contract) simp
interpretation boot4: machine_contract "boot_state_descs 3" boot_wf by (rule boot_contract) simp

section \<open>The service at power-on\<close>

text \<open>The static values of every variable, the bus after its initialisation, startup and
  DDR training done, and an image registered at \<open>img\<close> of a memory.\<close>

definition boot_world0 :: "memory \<Rightarrow> u64 \<Rightarrow> Boot_World" where
  "boot_world0 mem img = \<lparr>bw_ipi = bus_init,
     bw_triggers = HSS_Trigger_Notify EVENT_STARTUP_COMPLETE (HSS_Trigger_Notify EVENT_DDR_TRAINED triggerStatus_init),
     bw_now = 0, bw_later = 0, memory = mem, pBootImage = img, localData = localData_static,
     bootMachines = replicate 4 boot_service_init, pmpEntry = pmpEntry_static,
     pmpSetupFlag = replicate 5 False, perfCtrs = perfCtrs_static, domains = domains_static,
     u54 = u54_static, bootComplete = replicate 5 0, BOOT_FAIL_CR = 0, MSS_STATUS = 0,
     ddr_layout = \<lparr>ddr_start = 0x80000000, ddr_size = 0x10000000, ddrhi_start = 0x1000000000, ddrhi_size = 0x10000000\<rparr>\<rparr>"

lemma boot_world0_simps [simp]:
  "bw_ipi (boot_world0 mem img) = bus_init" "memory (boot_world0 mem img) = mem"
  "pBootImage (boot_world0 mem img) = img" "localData (boot_world0 mem img) = localData_static"
  "bootMachines (boot_world0 mem img) = replicate 4 boot_service_init"
  "pmpEntry (boot_world0 mem img) = pmpEntry_static" "domains (boot_world0 mem img) = domains_static"
  "boot_hart (boot_world0 mem img) h = bi_hart mem img (h - 1)"
  by (simp_all add: boot_world0_def boot_hart_def)

lemma ld_static [simp]:
  "k < 4 \<Longrightarrow> ld k (boot_world0 mem img) = \<lparr>bl_target = k + 1, pChunk = 0, pZiChunk = 0, chunkCount = 0,
     ziChunkCount = 0, subChunkOffset = 0, msgIndex = 16, bl_hartMask = 0, perfCtr = - 1, iterator = 0,
     ancilliaryData = 0, msgIndexAux = [0, 0, 0, 0]\<rparr>"
  by (auto simp: ld_def localData_static_def nth_Cons' less_Suc_eq numeral_eq_Suc)

lemma boot_world0_wf: "boot_wf (boot_world0 mem img)"
proof -
  have "locals_wf localData_static"
    unfolding locals_wf_def localData_static_def by (auto simp: nth_Cons' less_Suc_eq numeral_eq_Suc)
  then show ?thesis
    using bus_init_wf by (simp add: boot_wf_def boot_world0_def domains_wf_def domains_static_def u54_wf_def
        u54_static_def boot_service_init_def boot_machine_ok_def machine_init_def)
qed

end
