(* ===== verification/Boot_Load.thy ===== *)
theory Boot_Load
  imports Boot_Safety
begin

text \<open>
  The download phase of the boot service against its specification: from the step that enters
  \<open>BOOT_DOWNLOAD_CHUNKS\<close> the machine works through the chunk table, one sub-chunk of
  256 bytes per pass of the superloop, and leaves for \<open>BOOT_OPENSBI_INIT\<close> after a
  number of passes the table determines, with exactly the copies of the permitted chunks made.
\<close>

section \<open>Specification\<close>

text \<open>The chunk table at an address: entries of non-zero size up to a sentinel.\<close>

fun chunks_at :: "memory \<Rightarrow> u64 \<Rightarrow> BootChunkDesc list \<Rightarrow> bool" where
  "chunks_at m a [] \<longleftrightarrow> chunk_size (read_chunk m a) = 0"
| "chunks_at m a (c # cs) \<longleftrightarrow> read_chunk m a = c \<and> chunk_size c \<noteq> 0 \<and> chunks_at m (a + CHUNK_DESC_SIZE) cs"

text \<open>The number of bytes that are copied for a chunk: whole sub-chunks, and one more than
  the size needs when it is a multiple of 256.\<close>

definition sub_chunks :: "BootChunkDesc \<Rightarrow> nat" where
  "sub_chunks c = unat (chunk_size c) div 256 + 1"

definition copied_len :: "BootChunkDesc \<Rightarrow> nat" where
  "copied_len c = 256 * sub_chunks c"

definition copy_chunk :: "u64 \<Rightarrow> BootChunkDesc \<Rightarrow> memory \<Rightarrow> memory" where
  "copy_chunk img c m = mem_write m (execAddr c) (mem_read m (img + loadAddr c) (copied_len c))"

definition load_chunks :: "pmp_table \<Rightarrow> hart_id \<Rightarrow> u64 \<Rightarrow> BootChunkDesc list \<Rightarrow> memory \<Rightarrow> memory" where
  "load_chunks t target img cs m =
     fold (\<lambda>c m. if chunk_permitted t target c then copy_chunk img c m else m) cs m"

definition note_anc :: "BootChunkDesc \<Rightarrow> u64 \<Rightarrow> u64" where
  "note_anc c anc = (if owner c AND BOOT_FLAG_ANCILLIARY_DATA \<noteq> 0 \<and> anc = 0 then execAddr c else anc)"

definition load_anc :: "pmp_table \<Rightarrow> hart_id \<Rightarrow> BootChunkDesc list \<Rightarrow> u64 \<Rightarrow> u64" where
  "load_anc t target cs anc = fold (\<lambda>c a. if chunk_permitted t target c then note_anc c a else a) cs anc"

definition load_passes :: "pmp_table \<Rightarrow> hart_id \<Rightarrow> BootChunkDesc list \<Rightarrow> nat" where
  "load_passes t target cs = sum_list (map (\<lambda>c. if chunk_permitted t target c then sub_chunks c else 1) cs)"

text \<open>A copy that overlaps neither itself, nor the end of memory, nor the protected
  addresses \<open>P\<close>.\<close>

definition chunk_fits :: "u64 set \<Rightarrow> u64 \<Rightarrow> BootChunkDesc \<Rightarrow> bool" where
  "chunk_fits P img c \<longleftrightarrow>
     (let n = copied_len c; s = unat (img + loadAddr c); d = unat (execAddr c) in
      s + n < 2 ^ 64 \<and> d + n < 2 ^ 64 \<and> (s + n \<le> d \<or> d + n \<le> s) \<and>
      (\<forall>i < n. execAddr c + of_nat i \<notin> P))"

definition header_bytes :: "u64 \<Rightarrow> u64 set" where
  "header_bytes img = {img + of_nat i | i. i < BOOT_IMAGE_SIZE}"

definition table_bytes :: "u64 \<Rightarrow> nat \<Rightarrow> u64 set" where
  "table_bytes a n = {a + of_nat i | i. i < 40 * (n + 1)}"

section \<open>Memory\<close>

lemma copy_extend:
  assumes "unat s + n < 2 ^ 64" "unat d + n < 2 ^ 64" "unat s + n \<le> unat d \<or> unat d + n \<le> unat s"
    and "i + j \<le> n"
  shows "mem_write (mem_write m d (mem_read m s i)) (d + of_nat i)
      (mem_read (mem_write m d (mem_read m s i)) (s + of_nat i) j) = mem_write m d (mem_read m s (i + j))"
proof -
  have "mem_read (mem_write m d (mem_read m s i)) (s + of_nat i) j = mem_read m (s + of_nat i) j"
  proof (rule mem_read_cong)
    fix x assume x: "x < j"
    show "mem_write m d (mem_read m s i) (s + of_nat i + of_nat x) = m (s + of_nat i + of_nat x)"
    proof (rule mem_write_other, intro allI impI notI)
      fix y assume y: "y < length (mem_read m s i)"
        and e: "s + of_nat i + of_nat x = d + of_nat y"
      have "unat (s + of_nat (i + x)) = unat (d + of_nat y)" using e by (simp add: add.assoc)
      then show False
        using word_range_eq [OF assms(1), of "i + x"] word_range_eq [OF assms(2), of y] x y assms(3,4) by auto
    qed
  qed
  then show ?thesis by (simp add: mem_read_append mem_write_append)
qed

lemma read_chunk_cong:
  "(\<And>i. i < 40 \<Longrightarrow> m (a + of_nat i) = m' (a + of_nat i)) \<Longrightarrow> read_chunk m a = read_chunk m' a"
proof -
  assume e: "\<And>i. i < 40 \<Longrightarrow> m (a + of_nat i) = m' (a + of_nat i)"
  have r: "mem_read m (a + of_nat j) n = mem_read m' (a + of_nat j) n" if "j + n \<le> 40" for j n
    by (rule mem_read_cong) (use that e [of "j + _"] in \<open>simp add: add.assoc\<close>)
  show ?thesis
    using r [of 0 4] r [of 8 8] r [of 16 8] r [of 24 8] r [of 32 4]
    by (simp add: read_chunk_def read_u32_def read_u64_def)
qed

lemma bi_hart_cong:
  assumes "\<And>x. x \<in> header_bytes img \<Longrightarrow> m x = m' x" "h < 4"
  shows "bi_hart m img h = bi_hart m' img h"
proof -
  have e: "m (img + 40 + of_nat (296 * h) + of_nat i) = m' (img + 40 + of_nat (296 * h) + of_nat i)"
    if "i < 296" for i
  proof -
    have "img + 40 + of_nat (296 * h) + of_nat i = img + of_nat (40 + 296 * h + i)" by simp
    moreover have "40 + 296 * h + i < BOOT_IMAGE_SIZE" using that assms(2) by simp
    ultimately show ?thesis using assms(1) unfolding header_bytes_def by blast
  qed
  have r: "mem_read m (img + 40 + of_nat (296 * h) + of_nat j) n = mem_read m' (img + 40 + of_nat (296 * h) + of_nat j) n"
    if "j + n \<le> 296" for j n
  proof (rule mem_read_cong)
    fix i assume "i < n"
    then show "m (img + 40 + of_nat (296 * h) + of_nat j + of_nat i) = m' (img + 40 + of_nat (296 * h) + of_nat j + of_nat i)"
      using e [of "j + i"] that by (simp add: add.assoc)
  qed
  show ?thesis
    using r [of 0 8] r [of 16 8] r [of 24 8] r [of 32 8] r [of 40 256] e [of 8] e [of 9]
    by (simp add: bi_hart_def Let_def read_u64_def)
qed

section \<open>One pass\<close>

text \<open>A pass of the handler that stays in the state, and the one that leaves it.\<close>

definition dl_step :: "nat \<Rightarrow> Boot_World \<Rightarrow> Boot_World \<Rightarrow> bool" where
  "dl_step k w w' \<longleftrightarrow> (\<forall>m. boot_download_chunks_handler k m w = Some (m, w'))"

definition dl_done :: "nat \<Rightarrow> Boot_World \<Rightarrow> bool" where
  "dl_done k w \<longleftrightarrow> (\<forall>m. boot_download_chunks_handler k m w = Some (m\<lparr>state := BOOT_OPENSBI_INIT\<rparr>, w))"

definition dl_at :: "nat \<Rightarrow> u64 \<Rightarrow> pmp_table \<Rightarrow> hart_id \<Rightarrow> u64 \<Rightarrow> nat \<Rightarrow> nat \<Rightarrow> u64 \<Rightarrow> memory \<Rightarrow> Boot_World \<Rightarrow> bool" where
  "dl_at k img t target a cnt off anc m w \<longleftrightarrow>
     k < length (localData w) \<and> pBootImage w = img \<and> pmpEntry w = t \<and> memory w = m \<and>
     bl_target (ld k w) = target \<and> pChunk (ld k w) = a \<and> chunkCount (ld k w) = of_nat cnt \<and>
     subChunkOffset (ld k w) = of_nat off \<and> ancilliaryData (ld k w) = anc"

lemma memcpy_sub_chunk:
  assumes "chunk_fits P img c" "j < sub_chunks c"
  shows "memcpy_via_pdma (execAddr c + of_nat (256 * j)) (img + loadAddr c + of_nat (256 * j)) 256 m =
    Some (mem_write m (execAddr c + of_nat (256 * j)) (mem_read m (img + loadAddr c + of_nat (256 * j)) 256))"
proof -
  let ?n = "copied_len c" and ?s = "img + loadAddr c" and ?d = "execAddr c"
  have f: "unat ?s + ?n < 2 ^ 64" "unat ?d + ?n < 2 ^ 64" "unat ?s + ?n \<le> unat ?d \<or> unat ?d + ?n \<le> unat ?s"
    using assms(1) by (simp_all add: chunk_fits_def Let_def)
  have le: "256 * j + 256 \<le> ?n" using assms(2) by (simp add: copied_len_def)
  have u: "unat (x + of_nat (256 * j)) = unat x + 256 * j"
    "unat (x + of_nat (256 * j) + of_nat 256 - 1) = unat x + 256 * j + 255"
    if "unat x + ?n < 2 ^ 64" for x :: u64
  proof -
    show "unat (x + of_nat (256 * j)) = unat x + 256 * j" using word_range_eq [OF that, of "256 * j"] le by simp
    have "x + of_nat (256 * j) + of_nat 256 - 1 = x + of_nat (256 * j + 255)" by simp
    then show "unat (x + of_nat (256 * j) + of_nat 256 - 1) = unat x + 256 * j + 255"
      using word_range_eq [OF that, of "256 * j + 255"] le by (simp only:)
  qed
  note us = u [OF f(1)] and ud = u [OF f(2)]
  show ?thesis
    using f(3) le unfolding memcpy_via_pdma_def word_less_nat_alt us ud by (auto simp: less_le)
qed


text \<open>What the passes over one table find there.\<close>

definition dl_context :: "u64 set \<Rightarrow> memory \<Rightarrow> u64 \<Rightarrow> pmp_table \<Rightarrow> hart_id \<Rightarrow> memory \<Rightarrow> bool" where
  "dl_context P m0 img t target m \<longleftrightarrow>
     img \<noteq> 0 \<and> header_bytes img \<subseteq> P \<and> (\<forall>x \<in> P. m x = m0 x) \<and> 0 < target \<and> target < 5 \<and>
     numChunks (bi_hart m0 img (target - 1)) \<noteq> 0"

lemma dl_hart:
  assumes "dl_context P m0 img t target m" "dl_at k img t target a cnt off anc m w"
  shows "boot_hart w target = bi_hart m0 img (target - 1)"
proof -
  have "bi_hart m img (target - 1) = bi_hart m0 img (target - 1)"
    using assms(1) by (intro bi_hart_cong) (auto simp: dl_context_def)
  then show ?thesis using assms(2) by (simp add: dl_at_def boot_hart_def)
qed

lemma chunk_at_context:
  assumes "dl_context P m0 img t target m" "table_bytes a n \<subseteq> P"
  shows "read_chunk m a = read_chunk m0 a"
proof (rule read_chunk_cong)
  fix i :: nat assume "i < 40"
  then have "a + of_nat i \<in> P" using assms(2) unfolding table_bytes_def by fastforce
  then show "m (a + of_nat i) = m0 (a + of_nat i)" using assms(1) by (simp add: dl_context_def)
qed

lemma context_write:
  assumes "dl_context P m0 img t target m" "chunk_fits P img c" "256 * j + length bs \<le> copied_len c"
  shows "dl_context P m0 img t target (mem_write m (execAddr c + of_nat (256 * j)) bs)"
proof -
  have "mem_write m (execAddr c + of_nat (256 * j)) bs x = m x" if "x \<in> P" for x
  proof (rule mem_write_other, intro allI impI notI)
    fix i assume i: "i < length bs" and "x = execAddr c + of_nat (256 * j) + of_nat i"
    then have "x = execAddr c + of_nat (256 * j + i)" by (simp add: add.assoc)
    moreover have "256 * j + i < copied_len c" using i assms(3) by simp
    moreover have "\<forall>i < copied_len c. execAddr c + of_nat i \<notin> P"
      using assms(2) by (simp add: chunk_fits_def Let_def)
    ultimately show False using that by blast
  qed
  then show ?thesis using assms(1) by (simp add: dl_context_def)
qed

lemma next_offset:
  assumes "chunk_fits P img c" "j < sub_chunks c"
  shows "chunk_size c < of_nat (256 * j + 256) \<longleftrightarrow> sub_chunks c = j + 1"
proof -
  have "copied_len c < 2 ^ 64" using assms(1) by (auto simp: chunk_fits_def Let_def)
  then have "unat (of_nat (256 * j + 256) :: u64) = 256 * j + 256"
    using assms(2) by (intro unat_of_nat_u64) (simp add: copied_len_def)
  then have "chunk_size c < of_nat (256 * j + 256) \<longleftrightarrow> unat (chunk_size c) < 256 * (j + 1)"
    by (simp add: word_less_nat_alt add.commute)
  also have "\<dots> \<longleftrightarrow> unat (chunk_size c) div 256 < j + 1" by (simp add: div_less_iff_less_mult mult.commute)
  finally show ?thesis using assms(2) by (auto simp: sub_chunks_def)
qed

lemma dl_sub_chunk:
  assumes ctx: "dl_context P m0 img t target m" and at: "dl_at k img t target a cnt (256 * j) anc m w"
    and tab: "table_bytes a n \<subseteq> P" "a \<noteq> 0" and c: "read_chunk m0 a = c" "chunk_size c \<noteq> 0"
    and cnt: "of_nat cnt \<le> lastChunk (bi_hart m0 img (target - 1))"
    and perm: "chunk_permitted t target c" and fits: "chunk_fits P img c" and j: "j < sub_chunks c"
  shows "\<exists>w'. dl_step k w w' \<and>
    (let m' = mem_write m (execAddr c + of_nat (256 * j)) (mem_read m (img + loadAddr c + of_nat (256 * j)) 256) in
     dl_context P m0 img t target m' \<and>
     (if sub_chunks c = j + 1 then dl_at k img t target (a + 40) (cnt + 1) 0 (note_anc c anc) m' w'
      else dl_at k img t target a cnt (256 * (j + 1)) (note_anc c anc) m' w'))"
proof -
  define m' where "m' = mem_write m (execAddr c + of_nat (256 * j)) (mem_read m (img + loadAddr c + of_nat (256 * j)) 256)"
  define w' where "w' = next_sub_chunk k a c (note_ancilliary k c (w\<lparr>memory := m'\<rparr>))"
  have w: "k < length (localData w)" "pBootImage w = img" "pmpEntry w = t" "memory w = m"
    "bl_target (ld k w) = target" "pChunk (ld k w) = a" "chunkCount (ld k w) = of_nat cnt"
    "subChunkOffset (ld k w) = of_nat (256 * j)" "ancilliaryData (ld k w) = anc" "img \<noteq> 0"
    "numChunks (boot_hart w target) \<noteq> 0"
    using at ctx dl_hart [OF ctx at] by (simp_all add: dl_at_def dl_context_def)
  have rc: "read_chunk m a = c" using chunk_at_context [OF ctx tab(1)] c(1) by simp
  have ctx': "dl_context P m0 img t target m'"
    unfolding m'_def using j by (intro context_write [OF ctx fits]) (simp add: copied_len_def)
  have rc': "read_chunk m' a = c" using chunk_at_context [OF ctx' tab(1)] c(1) by simp
  have cp: "boot_do_download_chunk a (of_nat (256 * j)) 256 w = Some (w\<lparr>memory := m'\<rparr>)"
    using memcpy_sub_chunk [OF fits j, of m] c(2) tab(2)
    by (simp add: boot_do_download_chunk_def require_def w rc m'_def)
  have "dl_step k w w'"
    unfolding dl_step_def boot_download_chunks_handler_def
    using cnt perm c(2) cp w(11) unfolding dl_hart [OF ctx at]
    by (simp add: w(1-10) dl_hart [OF ctx at] rc require_def download_sub_chunk_def rc' w'_def)
  moreover have "if sub_chunks c = j + 1 then dl_at k img t target (a + 40) (cnt + 1) 0 (note_anc c anc) m' w'
      else dl_at k img t target a cnt (256 * (j + 1)) (note_anc c anc) m' w'"
  proof -
    let ?v = "note_ancilliary k c (w\<lparr>memory := m'\<rparr>)"
    have ldm: "ld k (w\<lparr>memory := m'\<rparr>) = ld k w" by (simp add: ld_def)
    have "dl_at k img t target a cnt (256 * j) (note_anc c anc) m' ?v"
      using w by (auto simp: dl_at_def note_ancilliary_def note_anc_def ldm)
    then show ?thesis
      using next_offset [OF fits j]
      by (auto simp: w'_def next_sub_chunk_def Let_def dl_at_def add.commute)
  qed
  ultimately show ?thesis using ctx' unfolding m'_def [symmetric] Let_def by blast
qed

section \<open>All passes\<close>

lemma dl_chunk_prefix:
  assumes ctx: "dl_context P m0 img t target m" and at: "dl_at k img t target a cnt 0 anc m w"
    and tab: "table_bytes a n \<subseteq> P" "a \<noteq> 0" and c: "read_chunk m0 a = c" "chunk_size c \<noteq> 0"
    and cnt: "of_nat cnt \<le> lastChunk (bi_hart m0 img (target - 1))"
    and perm: "chunk_permitted t target c" and fits: "chunk_fits P img c"
  shows "j < sub_chunks c \<Longrightarrow> \<exists>w'. (dl_step k ^^ j) w w' \<and>
    (let m' = mem_write m (execAddr c) (mem_read m (img + loadAddr c) (256 * j)) in
     dl_context P m0 img t target m' \<and>
     dl_at k img t target a cnt (256 * j) (if j = 0 then anc else note_anc c anc) m' w')"
proof (induction j)
  case 0
  then show ?case using ctx at by simp
next
  case (Suc j)
  let ?m = "mem_write m (execAddr c) (mem_read m (img + loadAddr c) (256 * j))"
  obtain w' where w': "(dl_step k ^^ j) w w'" "dl_context P m0 img t target ?m"
    "dl_at k img t target a cnt (256 * j) (if j = 0 then anc else note_anc c anc) ?m w'"
    using Suc by (auto simp: Let_def)
  have j: "j < sub_chunks c" "sub_chunks c \<noteq> j + 1" using Suc.prems by auto
  have e: "mem_write ?m (execAddr c + of_nat (256 * j)) (mem_read ?m (img + loadAddr c + of_nat (256 * j)) 256)
      = mem_write m (execAddr c) (mem_read m (img + loadAddr c) (256 * Suc j))"
    using copy_extend [of "img + loadAddr c" "copied_len c" "execAddr c" "256 * j" 256 m] fits Suc.prems
    by (simp add: chunk_fits_def Let_def copied_len_def add.commute)
  have anc: "note_anc c (if j = 0 then anc else note_anc c anc) = note_anc c anc"
    by (simp add: note_anc_def)
  from dl_sub_chunk [OF w'(2,3) tab c cnt perm fits j(1)] j(2)
  obtain v where "dl_step k w' v" "dl_context P m0 img t target (mem_write m (execAddr c) (mem_read m (img + loadAddr c) (256 * Suc j)))"
    "dl_at k img t target a cnt (256 * Suc j) (note_anc c anc)
       (mem_write m (execAddr c) (mem_read m (img + loadAddr c) (256 * Suc j))) v"
    unfolding e anc by (auto simp: Let_def)
  then show ?case using w'(1) by (intro exI [of _ v]) (auto simp: Let_def)
qed

lemma dl_chunk:
  assumes ctx: "dl_context P m0 img t target m" and at: "dl_at k img t target a cnt 0 anc m w"
    and tab: "table_bytes a n \<subseteq> P" "a \<noteq> 0" and c: "read_chunk m0 a = c" "chunk_size c \<noteq> 0"
    and cnt: "of_nat cnt \<le> lastChunk (bi_hart m0 img (target - 1))"
    and fits: "chunk_permitted t target c \<Longrightarrow> chunk_fits P img c"
  shows "\<exists>w' cnt'. (dl_step k ^^ load_passes t target [c]) w w' \<and> cnt' \<le> cnt + 1 \<and>
    dl_context P m0 img t target (load_chunks t target img [c] m) \<and>
    dl_at k img t target (a + 40) cnt' 0 (load_anc t target [c] anc) (load_chunks t target img [c] m) w'"
proof (cases "chunk_permitted t target c")
  case True
  note F = fits [OF True]
  define q where "q = unat (chunk_size c) div 256"
  have q: "q < sub_chunks c" "sub_chunks c = q + 1" by (simp_all add: q_def sub_chunks_def)
  let ?m = "mem_write m (execAddr c) (mem_read m (img + loadAddr c) (256 * q))"
  obtain w' where w': "(dl_step k ^^ q) w w'" "dl_context P m0 img t target ?m"
    "dl_at k img t target a cnt (256 * q) (if q = 0 then anc else note_anc c anc) ?m w'"
    using dl_chunk_prefix [OF ctx at tab c cnt True F q(1)] by (auto simp: Let_def)
  have e: "mem_write ?m (execAddr c + of_nat (256 * q)) (mem_read ?m (img + loadAddr c + of_nat (256 * q)) 256)
      = copy_chunk img c m"
    using copy_extend [of "img + loadAddr c" "copied_len c" "execAddr c" "256 * q" 256 m] F
    by (simp add: chunk_fits_def Let_def copied_len_def copy_chunk_def q(2) add.commute)
  have anc: "note_anc c (if q = 0 then anc else note_anc c anc) = note_anc c anc"
    by (simp add: note_anc_def)
  from dl_sub_chunk [OF w'(2,3) tab c cnt True F q(1)] q(2)
  obtain v where v: "dl_step k w' v" "dl_context P m0 img t target (copy_chunk img c m)"
    "dl_at k img t target (a + 40) (cnt + 1) 0 (note_anc c anc) (copy_chunk img c m) v"
    unfolding e anc by (auto simp: Let_def)
  have "(dl_step k ^^ load_passes t target [c]) w v"
    using w'(1) v(1) q(2) by (auto simp: load_passes_def True)
  then show ?thesis using v(2,3) True by (intro exI [of _ v] exI [of _ "cnt + 1"])
      (simp add: load_chunks_def load_anc_def)
next
  case False
  define w' where "w' = upd_ld k (\<lambda>l. l\<lparr>pChunk := a + 40\<rparr>) w"
  have rc: "read_chunk (memory w) (pChunk (ld k w)) = c"
    using chunk_at_context [OF ctx tab(1)] c(1) at by (simp add: dl_at_def)
  have "dl_step k w w'"
    unfolding dl_step_def boot_download_chunks_handler_def
    using at ctx cnt c(2) False dl_hart [OF ctx at] rc
    by (simp add: dl_at_def dl_context_def require_def w'_def Let_def)
  moreover have "dl_at k img t target (a + 40) cnt 0 anc m w'"
    using at by (simp add: dl_at_def w'_def)
  ultimately show ?thesis
    using ctx False by (intro exI [of _ w'] exI [of _ cnt])
      (auto simp: load_passes_def load_chunks_def load_anc_def)
qed

lemma table_bytes_Suc: "table_bytes (a + 40) n \<subseteq> table_bytes a (Suc n)" "table_bytes a 0 \<subseteq> table_bytes a n"
proof -
  have "a + 40 + of_nat i = a + of_nat (40 + i)" for i by simp
  then show "table_bytes (a + 40) n \<subseteq> table_bytes a (Suc n)" unfolding table_bytes_def
    by (force simp del: of_nat_add)
  show "table_bytes a 0 \<subseteq> table_bytes a n" unfolding table_bytes_def by force
qed

lemma dl_table:
  assumes "dl_context P m0 img t target m" "dl_at k img t target a cnt 0 anc m w"
    and "table_bytes a (length cs) \<subseteq> P" "chunks_at m0 a cs"
    and "a \<noteq> 0" "unat a + 40 * length cs < 2 ^ 64"
    and "cnt + length cs \<le> unat (lastChunk (bi_hart m0 img (target - 1))) + 1"
    and "\<forall>c \<in> set cs. chunk_permitted t target c \<longrightarrow> chunk_fits P img c"
  shows "\<exists>w' cnt'. (dl_step k ^^ load_passes t target cs) w w' \<and> dl_done k w' \<and>
    dl_at k img t target (a + 40 * of_nat (length cs)) cnt' 0 (load_anc t target cs anc)
      (load_chunks t target img cs m) w'"
  using assms
proof (induction cs arbitrary: a cnt anc m w)
  case Nil
  have rc: "chunk_size (read_chunk (memory w) (pChunk (ld k w))) = 0"
    using chunk_at_context [OF Nil(1), of a 0] Nil(2-4) by (simp add: dl_at_def)
  have "dl_done k w"
    unfolding dl_done_def boot_download_chunks_handler_def
    using Nil(1,2) dl_hart [OF Nil(1,2)] rc
    by (simp add: dl_at_def dl_context_def require_def Let_def)
  then show ?case using Nil(2)
    by (intro exI [of _ w] exI [of _ cnt]) (simp add: load_passes_def load_chunks_def load_anc_def)
next
  case (Cons c cs)
  have c: "read_chunk m0 a = c" "chunk_size c \<noteq> 0" "chunks_at m0 (a + 40) cs" using Cons.prems(4) by simp_all
  have tab: "table_bytes a 0 \<subseteq> P" "table_bytes (a + 40) (length cs) \<subseteq> P"
    using Cons.prems(3) table_bytes_Suc by fastforce+
  have le: "of_nat cnt \<le> lastChunk (bi_hart m0 img (target - 1))"
  proof -
    have "cnt \<le> unat (lastChunk (bi_hart m0 img (target - 1)))" using Cons.prems(7) by simp
    moreover have "unat (lastChunk (bi_hart m0 img (target - 1))) < 2 ^ 64"
      using unsigned_less [of "lastChunk (bi_hart m0 img (target - 1))"] by simp
    ultimately show ?thesis by (simp add: word_le_nat_alt unat_of_nat_u64)
  qed
  have a': "unat (a + 40) = unat a + 40"
    using word_range_eq [of a 40 40] Cons.prems(6) by simp
  obtain v cnt' where v: "(dl_step k ^^ load_passes t target [c]) w v" "cnt' \<le> cnt + 1"
    "dl_context P m0 img t target (load_chunks t target img [c] m)"
    "dl_at k img t target (a + 40) cnt' 0 (load_anc t target [c] anc) (load_chunks t target img [c] m) v"
    using dl_chunk [OF Cons.prems(1,2) tab(1) Cons.prems(5) c(1,2) le] Cons.prems(8) by fastforce
  have "a + 40 \<noteq> 0" using a' by (metis add_is_0 unat_0 zero_neq_numeral)
  then obtain w' cnt2 where w': "(dl_step k ^^ load_passes t target cs) v w'" "dl_done k w'"
    "dl_at k img t target (a + 40 + 40 * of_nat (length cs)) cnt2 0 (load_anc t target cs (load_anc t target [c] anc))
      (load_chunks t target img cs (load_chunks t target img [c] m)) w'"
    using Cons.IH [OF v(3,4) tab(2) c(3)] Cons.prems(6-8) a' v(2) by auto
  have "(dl_step k ^^ (load_passes t target [c] + load_passes t target cs)) w w'"
    using v(1) w'(1) unfolding relpowp_add by blast
  moreover have "load_passes t target [c] + load_passes t target cs = load_passes t target (c # cs)"
    by (simp add: load_passes_def)
  moreover have "load_chunks t target img cs (load_chunks t target img [c] m) = load_chunks t target img (c # cs) m"
    "load_anc t target cs (load_anc t target [c] anc) = load_anc t target (c # cs) anc"
    by (simp_all add: load_chunks_def load_anc_def)
  ultimately show ?case using w'(2,3)
    by (intro exI [of _ w'] exI [of _ cnt2]) (simp add: algebra_simps)
qed

section \<open>The passes as steps of the machine\<close>

definition at_download :: "StateMachine \<Rightarrow> bool" where
  "at_download m \<longleftrightarrow> state m = BOOT_DOWNLOAD_CHUNKS \<and> prevState m = BOOT_DOWNLOAD_CHUNKS"

lemma download_desc:
  "desc_at (boot_state_descs k) BOOT_DOWNLOAD_CHUNKS = Some
     \<lparr>sd_state = BOOT_DOWNLOAD_CHUNKS, state_onEntry = Some (boot_download_chunks_onEntry k),
      state_onExit = Some (boot_download_chunks_onExit k), state_handler = Some (boot_download_chunks_handler k)\<rparr>"
  "\<exists>d. desc_at (boot_state_descs k) BOOT_ZERO_INIT_CHUNKS = Some d \<and> sd_state d = BOOT_ZERO_INIT_CHUNKS \<and>
     state_onExit d = None"
  by (simp_all add: desc_at_def boot_state_descs_def)

lemma download_run_step:
  assumes "at_download m" "dl_step k w w'"
  shows "RunStateMachine (boot_state_descs k) t0 t1 m w = Some (stamp_end t0 t1 (stamp_begin t0 m), w')"
  using assms by (simp add: RunStateMachine_def change_state_def at_download_def dl_step_def download_desc(1))

lemma download_run_passes:
  assumes "(dl_step k ^^ n) w w'" "length ts = n" "at_download m"
  shows "\<exists>m'. run_times (boot_state_descs k) ts m w = Some (m', w') \<and> at_download m'"
  using assms
proof (induction n arbitrary: ts m w)
  case 0
  then show ?case by simp
next
  case (Suc n)
  obtain t0 t1 us where ts: "ts = (t0, t1) # us" using Suc.prems(2) by (cases ts) auto
  obtain v where v: "dl_step k w v" "(dl_step k ^^ n) v w'" using relpowp_Suc_D2 [OF Suc.prems(1)] by blast
  have "at_download (stamp_end t0 t1 (stamp_begin t0 m))" using Suc.prems(3) by (simp add: at_download_def)
  then show ?case
    using Suc.IH [OF v(2), of us] Suc.prems(2) download_run_step [OF Suc.prems(3) v(1)] ts by simp
qed

lemma download_run_done:
  assumes "at_download m" "dl_done k w"
  shows "\<exists>m'. run_times (boot_state_descs k) [t] m w = Some (m', w) \<and> state m' = BOOT_OPENSBI_INIT"
  using assms by (cases t)
    (simp add: RunStateMachine_def change_state_def at_download_def dl_done_def download_desc(1))

lemma download_entry:
  assumes "state m = BOOT_DOWNLOAD_CHUNKS" "prevState m = BOOT_ZERO_INIT_CHUNKS" "numStates m = BOOT_NUM_STATES"
    and "\<And>m. boot_download_chunks_onEntry k m w = Some (m, w1)"
  shows "run_times (boot_state_descs k) (t # ts) m w =
    run_times (boot_state_descs k) (t # ts) (m\<lparr>executionCount := 0, prevState := BOOT_DOWNLOAD_CHUNKS\<rparr>) w1"
proof -
  obtain d where d: "desc_at (boot_state_descs k) BOOT_ZERO_INIT_CHUNKS = Some d"
    "sd_state d = BOOT_ZERO_INIT_CHUNKS" "state_onExit d = None" using download_desc(2) by blast
  have s: "(stamp_begin t0 m)\<lparr>executionCount := 0, prevState := BOOT_DOWNLOAD_CHUNKS\<rparr> =
      stamp_begin t0 (m\<lparr>executionCount := 0, prevState := BOOT_DOWNLOAD_CHUNKS\<rparr>)" for t0
    by (cases m) (simp add: stamp_begin_def)
  show ?thesis using assms d
    by (cases t) (simp add: RunStateMachine_def change_state_def leave_state_def IsValidState_def
        download_desc(1) s)
qed

lemma download_run:
  assumes img_def: "img = pBootImage w" and h_def: "h = boot_hart w (k + 1)"
    and a_def: "a = img + bi_chunkTableOffset (memory w) img + CHUNK_DESC_SIZE * firstChunk h"
    and "boot_wf w" "k < 4" "img \<noteq> 0" "numChunks h \<noteq> 0"
    and "state m = BOOT_DOWNLOAD_CHUNKS" "prevState m = BOOT_ZERO_INIT_CHUNKS" "numStates m = BOOT_NUM_STATES"
    and "chunks_at (memory w) a cs" "a \<noteq> 0" "unat a + 40 * length cs < 2 ^ 64"
    and "length cs \<le> unat (lastChunk h) + 1"
    and "\<forall>c \<in> set cs. chunk_permitted (pmpEntry w) (k + 1) c \<longrightarrow>
           chunk_fits (header_bytes img \<union> table_bytes a (length cs)) img c"
    and "length ts = load_passes (pmpEntry w) (k + 1) cs + 1"
  shows "\<exists>m' w'. run_times (boot_state_descs k) ts m w = Some (m', w') \<and> state m' = BOOT_OPENSBI_INIT \<and>
    memory w' = load_chunks (pmpEntry w) (k + 1) img cs (memory w) \<and>
    ancilliaryData (ld k w') = load_anc (pmpEntry w) (k + 1) cs (ancilliaryData (ld k w))"
proof -
  let ?P = "header_bytes img \<union> table_bytes a (length cs)"
  let ?w = "upd_ld k (\<lambda>l. l\<lparr>pChunk := a, chunkCount := 0, subChunkOffset := 0\<rparr>) w"
  let ?m = "m\<lparr>executionCount := 0, prevState := BOOT_DOWNLOAD_CHUNKS\<rparr>"
  have tgt: "bl_target (ld k w) = k + 1" and len: "k < length (localData w)"
    using boot_wfD(7,8) [OF assms(4)] assms(5) by simp_all
  have entry: "boot_download_chunks_onEntry k m w = Some (m, ?w)" for m
    using assms(6,7) tgt by (simp add: boot_download_chunks_onEntry_def require_def img_def h_def a_def)
  have ctx: "dl_context ?P (memory w) img (pmpEntry w) (k + 1) (memory w)"
    using assms(5-7) by (simp add: dl_context_def h_def img_def boot_hart_def)
  have at: "dl_at k img (pmpEntry w) (k + 1) a 0 0 (ancilliaryData (ld k w)) (memory w) ?w"
    using len tgt by (simp add: dl_at_def img_def)
  have h: "bi_hart (memory w) img (k + 1 - 1) = h" by (simp add: h_def img_def boot_hart_def)
  have "\<exists>w' cnt'. (dl_step k ^^ load_passes (pmpEntry w) (k + 1) cs) ?w w' \<and> dl_done k w' \<and>
    dl_at k img (pmpEntry w) (k + 1) (a + 40 * of_nat (length cs)) cnt' 0
      (load_anc (pmpEntry w) (k + 1) cs (ancilliaryData (ld k w)))
      (load_chunks (pmpEntry w) (k + 1) img cs (memory w)) w'"
    using assms(11-15) by (intro dl_table [OF ctx at]) (simp_all only: h, auto)
  then obtain w' where w': "(dl_step k ^^ load_passes (pmpEntry w) (k + 1) cs) ?w w'" "dl_done k w'"
    "memory w' = load_chunks (pmpEntry w) (k + 1) img cs (memory w)"
    "ancilliaryData (ld k w') = load_anc (pmpEntry w) (k + 1) cs (ancilliaryData (ld k w))"
    by (auto simp: dl_at_def)
  obtain us t where ts: "ts = us @ [t]" "length us = load_passes (pmpEntry w) (k + 1) cs"
    using assms(16) by (cases ts rule: rev_cases) auto
  have m: "at_download ?m" using assms(8) by (simp add: at_download_def)
  obtain m1 where m1: "run_times (boot_state_descs k) us ?m ?w = Some (m1, w')" "at_download m1"
    using download_run_passes [OF w'(1) ts(2) m] by blast
  obtain m2 where m2: "run_times (boot_state_descs k) [t] m1 w' = Some (m2, w')" "state m2 = BOOT_OPENSBI_INIT"
    using download_run_done [OF m1(2) w'(2)] by blast
  obtain u vs where uv: "ts = u # vs" using assms(16) by (cases ts) simp_all
  have "run_times (boot_state_descs k) ts m w = run_times (boot_state_descs k) ts ?m ?w"
    unfolding uv by (rule download_entry [OF assms(8-10) entry])
  also have "\<dots> = Some (m2, w')" using m1 m2 by (simp add: ts(1) run_times_append del: run_times.simps)
  finally show ?thesis using m2(2) w'(3,4) by blast
qed

section \<open>Properties\<close>

text \<open>
  C2. The download phase does what the chunk table says, and ends. Let a machine enter
  \<open>BOOT_DOWNLOAD_CHUNKS\<close> for hart \<open>k + 1\<close> of a registered image whose
  table, from the hart's first chunk on, lists the chunks \<open>cs\<close>; no copy may overlap
  itself, the end of memory, the header or the table. Then after \<open>load_passes\<close> passes
  of the superloop and one more the machine is in \<open>BOOT_OPENSBI_INIT\<close>, and memory
  is the old one with exactly the chunks copied, in order, that the hart owns and its PMPs
  permit; the ancillary data it hands on is the first such chunk that is marked so.
\<close>

theorem boot_download_loads_image:
  assumes img_def: "img = pBootImage w" and h_def: "h = boot_hart w (k + 1)"
    and a_def: "a = img + bi_chunkTableOffset (memory w) img + CHUNK_DESC_SIZE * firstChunk h"
    and "boot_wf w" "k < 4" "img \<noteq> 0" "numChunks h \<noteq> 0"
    and "state m = BOOT_DOWNLOAD_CHUNKS" "prevState m = BOOT_ZERO_INIT_CHUNKS" "numStates m = BOOT_NUM_STATES"
    and "chunks_at (memory w) a cs" "a \<noteq> 0" "unat a + 40 * length cs < 2 ^ 64"
    and "length cs \<le> unat (lastChunk h) + 1"
    and "\<forall>c \<in> set cs. chunk_permitted (pmpEntry w) (k + 1) c \<longrightarrow>
           chunk_fits (header_bytes img \<union> table_bytes a (length cs)) img c"
    and "length ts = load_passes (pmpEntry w) (k + 1) cs + 1"
  shows "\<exists>m' w'. run_times (boot_state_descs k) ts m w = Some (m', w') \<and> state m' = BOOT_OPENSBI_INIT \<and>
    memory w' = load_chunks (pmpEntry w) (k + 1) img cs (memory w) \<and>
    ancilliaryData (ld k w') = load_anc (pmpEntry w) (k + 1) cs (ancilliaryData (ld k w))"
  using assms by (rule download_run)

text \<open>An image at \<open>0x10000\<close> with one chunk of three bytes for hart 1.\<close>

definition small_image :: memory where
  "small_image = (\<lambda>_. 0)(0x10019 := 8, 0x10038 := 1, 0x10800 := 1, 0x10809 := 0x10, 0x10813 := 0x80,
     0x10818 := 3, 0x11000 := 0xAA, 0x11001 := 0xBB, 0x11002 := 0xCC)"

definition small_chunk :: BootChunkDesc where
  "small_chunk = \<lparr>owner = 1, loadAddr = 0x1000, execAddr = 0x80000000, chunk_size = 3, chunk_crc32 = 0\<rparr>"

lemma small_image_fields:
  "read_u64 small_image 0x10018 = 0x800" "read_u64 small_image 0x10038 = 1"
  "read_u64 small_image 0x10040 = 0" "read_u64 small_image 0x10048 = 0"
  "read_chunk small_image 0x10800 = small_chunk" "read_u64 small_image 0x10840 = 0"
  by (simp_all add: read_u64_def read_u32_def mem_read_bytes small_image_def read_chunk_def small_chunk_def)

lemma small_image_reads:
  "bi_chunkTableOffset small_image 0x10000 = 0x800" "read_chunk small_image 0x10800 = small_chunk"
  "chunk_size (read_chunk small_image 0x10828) = 0" "numChunks (bi_hart small_image 0x10000 0) = 1"
  "firstChunk (bi_hart small_image 0x10000 0) = 0" "lastChunk (bi_hart small_image 0x10000 0) = 0"
  using small_image_fields
  by (simp_all add: bi_chunkTableOffset_def bi_hart_def Let_def read_chunk_def [of _ "0x10828"])

lemma static_permits: "target < 5 \<Longrightarrow> HSS_PMP_CheckWrite pmpEntry_static target a n"
  unfolding HSS_PMP_CheckWrite_def pmpEntry_static_def
  by (subst check_loop_inactive) (simp_all add: zero_PmpEntry_def del: replicate.simps)

lemma range_apart:
  assumes "unat (a :: u64) + n < 2 ^ 64" "unat b + m < 2 ^ 64" "unat a + n \<le> unat b \<or> unat b + m \<le> unat a"
    and "i < n" "j < m"
  shows "a + of_nat i \<noteq> b + of_nat j"
  using word_range_eq [OF assms(1), of i] word_range_eq [OF assms(2), of j] assms(3-5) by auto

lemma small_fits:
  "chunk_fits (header_bytes 0x10000 \<union> table_bytes 0x10800 1) 0x10000 small_chunk"
proof -
  have "0x80000000 + of_nat i \<notin> header_bytes 0x10000 \<union> table_bytes 0x10800 1" if "i < 256" for i
    using range_apart [of "0x80000000" 256 "0x10000" BOOT_IMAGE_SIZE i]
      range_apart [of "0x80000000" 256 "0x10800" 80 i] that
    by (auto simp: header_bytes_def table_bytes_def)
  then show ?thesis by (simp add: chunk_fits_def copied_len_def sub_chunks_def small_chunk_def)
qed

theorem boot_download_loads_image_witness:
  "\<exists>m' w'. run_times (boot_state_descs 0) [(1, 2), (3, 4)]
      ((machine_init 10)\<lparr>state := 4, prevState := 3\<rparr>) (boot_world0 small_image 0x10000) = Some (m', w') \<and>
    state m' = BOOT_OPENSBI_INIT \<and> mem_read (memory w') 0x80000000 3 = [0xAA, 0xBB, 0xCC]"
proof -
  let ?w = "boot_world0 small_image 0x10000"
  have perm: "chunk_permitted (pmpEntry ?w) 1 small_chunk"
    using static_permits [of 1] by (simp add: chunk_permitted_def small_chunk_def)
  have passes: "load_passes (pmpEntry ?w) 1 [small_chunk] = 1"
    using perm by (simp add: load_passes_def sub_chunks_def small_chunk_def)
  have tab: "chunks_at small_image 0x10800 [small_chunk]"
    using small_image_reads by (simp add: small_chunk_def)
  let ?m = "(machine_init 10)\<lparr>state := 4, prevState := 3\<rparr>"
  obtain m' w' where r: "run_times (boot_state_descs 0) [(1, 2), (3, 4)] ?m ?w = Some (m', w')"
    "state m' = BOOT_OPENSBI_INIT"
    "memory w' = load_chunks (pmpEntry ?w) 1 0x10000 [small_chunk] small_image"
    using boot_download_loads_image [of "0x10000" ?w "bi_hart small_image 0x10000 0" 0 "0x10800" ?m
        "[small_chunk]" "[(1, 2), (3, 4)]"] boot_world0_wf [of small_image "0x10000"] tab small_fits passes
    by (auto simp: small_image_reads machine_init_def)
  have "mem_read (memory w') 0x80000000 3 = take 3 (mem_read small_image 0x11000 256)"
    using mem_read_write [of "mem_read small_image 0x11000 256" small_image "0x80000000"]
      mem_read_prefix [of 3 256 "memory w'" "0x80000000"]
    using perm by (simp add: r(3) load_chunks_def copy_chunk_def copied_len_def sub_chunks_def small_chunk_def)
  also have "\<dots> = mem_read small_image 0x11000 3" by (rule mem_read_prefix) simp
  also have "\<dots> = [0xAA, 0xBB, 0xCC]" by (simp add: small_image_def numeral_3_eq_3)
  finally show ?thesis using r(1,2) by blast
qed

text \<open>
  The copy of a chunk leaves the range that was checked: whole sub-chunks of 256 bytes are
  copied, and one more when the size is a multiple of 256. A chunk that is alone in its table
  overwrites, behind its last byte and up to the next boundary of 256, whatever lies there.
\<close>

theorem boot_download_overruns_chunk:
  assumes "img = pBootImage w" "h = boot_hart w (k + 1)"
    and "a = img + bi_chunkTableOffset (memory w) img + CHUNK_DESC_SIZE * firstChunk h"
    and "boot_wf w" "k < 4" "img \<noteq> 0" "numChunks h \<noteq> 0"
    and "state m = BOOT_DOWNLOAD_CHUNKS" "prevState m = BOOT_ZERO_INIT_CHUNKS" "numStates m = BOOT_NUM_STATES"
    and "chunks_at (memory w) a [c]" "a \<noteq> 0" "unat a + 40 < 2 ^ 64"
    and "chunk_permitted (pmpEntry w) (k + 1) c"
    and "chunk_fits (header_bytes img \<union> table_bytes a 1) img c"
    and "length ts = sub_chunks c + 1"
  shows "\<exists>m' w'. run_times (boot_state_descs k) ts m w = Some (m', w') \<and>
    unat (chunk_size c) < copied_len c \<and>
    (\<forall>i < copied_len c. memory w' (execAddr c + of_nat i) = memory w (img + loadAddr c + of_nat i))"
proof -
  have "load_passes (pmpEntry w) (k + 1) [c] = sub_chunks c" using assms(14) by (simp add: load_passes_def)
  then obtain m' w' where r: "run_times (boot_state_descs k) ts m w = Some (m', w')"
    "memory w' = load_chunks (pmpEntry w) (k + 1) img [c] (memory w)"
    using download_run [OF assms(1-12), of ts] assms(13-16) by auto
  have n: "copied_len c \<le> 2 ^ 64" using assms(15) by (auto simp: chunk_fits_def Let_def)
  have "memory w' (execAddr c + of_nat i) = memory w (img + loadAddr c + of_nat i)" if "i < copied_len c" for i
    using mem_write_nth [of i "mem_read (memory w) (img + loadAddr c) (copied_len c)" "memory w" "execAddr c"]
      that n assms(14) by (simp add: r(2) load_chunks_def copy_chunk_def nth_mem_read)
  moreover have "unat (chunk_size c) < copied_len c" by (simp add: copied_len_def sub_chunks_def)
  ultimately show ?thesis using r(1) by blast
qed

theorem boot_download_overruns_chunk_witness:
  "\<exists>m' w'. run_times (boot_state_descs 0) [(1, 2), (3, 4)]
      ((machine_init 10)\<lparr>state := 4, prevState := 3\<rparr>) (boot_world0 small_image 0x10000) = Some (m', w') \<and>
    (\<forall>i < 256. memory w' (0x80000000 + of_nat i) = small_image (0x11000 + of_nat i))"
proof -
  let ?w = "boot_world0 small_image 0x10000" and ?m = "(machine_init 10)\<lparr>state := 4, prevState := 3\<rparr>"
  have tab: "chunks_at small_image 0x10800 [small_chunk]"
    using small_image_reads by (simp add: small_chunk_def)
  have "chunk_permitted (pmpEntry ?w) 1 small_chunk"
    using static_permits [of 1] by (simp add: chunk_permitted_def small_chunk_def)
  then have "\<exists>m' w'. run_times (boot_state_descs 0) [(1, 2), (3, 4)] ?m ?w = Some (m', w') \<and>
    unat (chunk_size small_chunk) < copied_len small_chunk \<and>
    (\<forall>i < copied_len small_chunk. memory w' (execAddr small_chunk + of_nat i) =
       memory ?w (0x10000 + loadAddr small_chunk + of_nat i))"
    using boot_world0_wf [of small_image "0x10000"] tab small_fits
    by (intro boot_download_overruns_chunk [where h = "bi_hart small_image 0x10000 0" and a = "0x10800"])
      (simp_all add: small_image_reads machine_init_def sub_chunks_def, simp_all add: small_chunk_def)
  then show ?thesis by (simp add: copied_len_def sub_chunks_def small_chunk_def)
qed

end
