(* ===== verification/Boot_Properties.thy ===== *)
theory Boot_Properties
  imports Boot_Load Ipi_Protocol
begin

text \<open>
  What the boot service does around the download: the interleaving of the four machines, the
  registration of boot sets, acknowledgements and time-outs, and restarts.
\<close>

section \<open>Registration\<close>

lemma set_aux_simps [simp]:
  "memory (set_aux k p i w) = memory w" "pBootImage (set_aux k p i w) = pBootImage w"
  "domains (set_aux k p i w) = domains w" "boot_hart (set_aux k p i w) h = boot_hart w h"
  "primary_boot_hart (set_aux k p i w) h = primary_boot_hart w h"
  "bw_ipi (set_aux k p i w) = bw_ipi w"
  by (simp_all add: set_aux_def primary_boot_hart_def)

lemma same_image:
  assumes "memory w' = memory w" "pBootImage w' = pBootImage w"
  shows "boot_hart w' h = boot_hart w h" "primary_boot_hart w' h = primary_boot_hart w h"
  using assms by (simp_all add: boot_hart_def primary_boot_hart_def)

text \<open>The harts that share the entry point of a target.\<close>

definition in_boot_set :: "Boot_World \<Rightarrow> hart_id \<Rightarrow> hart_id \<Rightarrow> bool" where
  "in_boot_set w target p \<longleftrightarrow> p = target \<or> entryPoint (boot_hart w p) = entryPoint (boot_hart w target)"

abbreviation (input) skips_opensbi :: "Boot_World \<Rightarrow> hart_id \<Rightarrow> bool" where
  "skips_opensbi w p \<equiv> has_flag BOOT_FLAG_SKIP_OPENSBI (boot_hart w p)"

text \<open>What the ledger says of a hart after its registration, given the world before.\<close>

definition registered :: "Boot_World \<Rightarrow> hart_id \<Rightarrow> Domains \<Rightarrow> hart_id \<Rightarrow> bool" where
  "registered w target d p \<longleftrightarrow>
     (if skips_opensbi w p then
        owner_hartid (hart_ledger d ! p) = 0 \<and> boot_pending (hart_ledger d ! p) = 0 \<and> hart_index2id d ! p = None
      else if in_boot_set w target p then
        owner_hartid (hart_ledger d ! p) = target \<and> boot_pending (hart_ledger d ! p) = 1
      else hart_ledger d ! p = hart_ledger (domains w) ! p)"

lemma register_peer_spec:
  assumes "boot_wf w" "0 < p" "p < 5" "primary_boot_hart w target" "k < 4"
  shows "\<exists>w'. register_peer k target p w = Some w' \<and> boot_wf w' \<and> memory w' = memory w \<and>
    pBootImage w' = pBootImage w \<and> registered w target (domains w') p \<and>
    (\<forall>j. j \<noteq> p \<longrightarrow> hart_ledger (domains w') ! j = hart_ledger (domains w) ! j \<and>
       hart_index2id (domains w') ! j = hart_index2id (domains w) ! j) \<and>
    bl_hartMask (ld k w') = (if \<not> skips_opensbi w p \<and> in_boot_set w target p
       then bl_hartMask (ld k w) OR push_bit p 1 else bl_hartMask (ld k w)) \<and>
    bl_target (ld k w') = bl_target (ld k w)"
proof -
  have d: "domains_wf (domains w)" and l: "k < length (localData w)" using boot_wfD(2,7) [OF assms(1)] assms(5) by simp_all
  let ?w = "set_aux k p IPI_MAX_NUM_OUTSTANDING_COMPLETES w"
  have lw: "k < length (localData ?w)" "bl_hartMask (ld k ?w) = bl_hartMask (ld k w)"
    "bl_target (ld k ?w) = bl_target (ld k w)" using l by (simp_all add: set_aux_def)
  have ldd: "ld k (v\<lparr>domains := ds\<rparr>) = ld k v" "length (localData (v\<lparr>domains := ds\<rparr>)) = length (localData v)" for v ds
    by (simp_all add: ld_def)
  have wf: "boot_wf w'" if "register_peer k target p w = Some w'" for w'
    using register_peer_wf [OF that assms(1)] .
  consider "skips_opensbi w p" | "\<not> skips_opensbi w p" "in_boot_set w target p"
    | "\<not> skips_opensbi w p" "\<not> in_boot_set w target p" by blast
  then show ?thesis
  proof cases
    case 1
    obtain ds where ds: "mpfs_domains_deregister_hart p (domains w) = Some ds"
      "owner_hartid (hart_ledger ds ! p) = 0" "boot_pending (hart_ledger ds ! p) = 0" "hart_index2id ds ! p = None"
      "\<forall>j. j \<noteq> p \<longrightarrow> hart_ledger ds ! j = hart_ledger (domains w) ! j \<and> hart_index2id ds ! j = hart_index2id (domains w) ! j"
      using assms(2,3) d by (simp add: mpfs_domains_deregister_hart_def with_ledger_def domains_wf_def)
    have "register_peer k target p w = Some (?w\<lparr>domains := ds\<rparr>)"
      using 1 assms(4) ds(1) by (simp add: register_peer_def Let_def)
    then show ?thesis using wf ds 1 lw by (auto simp: registered_def ldd)
  next
    case 2
    obtain ds where ds: "mpfs_domains_register_hart p target (domains w) = Some ds"
      "owner_hartid (hart_ledger ds ! p) = target" "boot_pending (hart_ledger ds ! p) = 1"
      "\<forall>j. j \<noteq> p \<longrightarrow> hart_ledger ds ! j = hart_ledger (domains w) ! j" "hart_index2id ds = hart_index2id (domains w)"
      using assms(3) d by (simp add: mpfs_domains_register_hart_def with_ledger_def domains_wf_def)
    have "register_peer k target p w = Some (upd_ld k (\<lambda>l. l\<lparr>bl_hartMask := bl_hartMask l OR push_bit p 1\<rparr>) (?w\<lparr>domains := ds\<rparr>))"
      using 2 assms(4) ds(1) by (simp add: register_peer_def Let_def in_boot_set_def)
    then show ?thesis using wf ds 2 lw by (auto simp: registered_def ldd)
  next
    case 3
    have "register_peer k target p w = Some ?w"
      using 3 assms(4) by (simp add: register_peer_def Let_def in_boot_set_def)
    then show ?thesis using wf 3 lw by (auto simp: registered_def)
  qed
qed

lemma registered_same_image:
  assumes "memory w' = memory w" "pBootImage w' = pBootImage w"
    and "hart_ledger (domains w') ! p = hart_ledger (domains w) ! p"
  shows "registered w' t d p = registered w t d p"
  by (simp add: registered_def same_image [OF assms(1,2)] in_boot_set_def assms(3))

lemma register_loop_spec:
  assumes "boot_wf w" "\<forall>p \<in> set ps. 0 < p \<and> p < 5" "distinct ps" "primary_boot_hart w target" "k < 4"
  shows "\<exists>w'. register_loop k target ps w = Some w' \<and> boot_wf w' \<and> memory w' = memory w \<and>
    pBootImage w' = pBootImage w \<and> (\<forall>p \<in> set ps. registered w target (domains w') p) \<and>
    (\<forall>j. j \<notin> set ps \<longrightarrow> hart_ledger (domains w') ! j = hart_ledger (domains w) ! j \<and>
       hart_index2id (domains w') ! j = hart_index2id (domains w) ! j) \<and>
    (\<forall>i < 5. bit (bl_hartMask (ld k w')) i \<longleftrightarrow> bit (bl_hartMask (ld k w)) i \<or>
       (i \<in> set ps \<and> \<not> skips_opensbi w i \<and> in_boot_set w target i)) \<and>
    bl_target (ld k w') = bl_target (ld k w)"
  using assms(1-4)
proof (induction ps arbitrary: w)
  case Nil
  then show ?case by simp
next
  case (Cons p ps)
  have p: "0 < p" "p < 5" using Cons.prems(2) by auto
  obtain v where v: "register_peer k target p w = Some v" "boot_wf v" "memory v = memory w" "pBootImage v = pBootImage w"
    "registered w target (domains v) p"
    "\<forall>j. j \<noteq> p \<longrightarrow> hart_ledger (domains v) ! j = hart_ledger (domains w) ! j \<and>
       hart_index2id (domains v) ! j = hart_index2id (domains w) ! j"
    "bl_hartMask (ld k v) = (if \<not> skips_opensbi w p \<and> in_boot_set w target p
       then bl_hartMask (ld k w) OR push_bit p 1 else bl_hartMask (ld k w))"
    "bl_target (ld k v) = bl_target (ld k w)"
    using register_peer_spec [OF Cons.prems(1) p Cons.prems(4) assms(5)] by blast
  note im = same_image [OF v(3,4)]
  have pv: "primary_boot_hart v target" using Cons.prems(4) im by simp
  have dist: "distinct ps" "p \<notin> set ps" and ps: "\<forall>q \<in> set ps. 0 < q \<and> q < 5" using Cons.prems(2,3) by auto
  obtain w' where w': "register_loop k target ps v = Some w'" "boot_wf w'" "memory w' = memory v"
    "pBootImage w' = pBootImage v" "\<forall>q \<in> set ps. registered v target (domains w') q"
    "\<forall>j. j \<notin> set ps \<longrightarrow> hart_ledger (domains w') ! j = hart_ledger (domains v) ! j \<and>
       hart_index2id (domains w') ! j = hart_index2id (domains v) ! j"
    "\<forall>i < 5. bit (bl_hartMask (ld k w')) i \<longleftrightarrow> bit (bl_hartMask (ld k v)) i \<or>
       (i \<in> set ps \<and> \<not> skips_opensbi v i \<and> in_boot_set v target i)"
    "bl_target (ld k w') = bl_target (ld k v)"
    using Cons.IH [OF v(2) ps dist(1) pv] by blast
  have "registered w target (domains w') q" if "q \<in> set ps" for q
    using w'(5) that dist(2) registered_same_image [OF v(3,4), of q] v(6) by metis
  moreover have "registered w target (domains w') p"
    using v(5) w'(6) dist(2) by (simp add: registered_def)
  moreover have "bit (bl_hartMask (ld k w')) i \<longleftrightarrow> bit (bl_hartMask (ld k w)) i \<or>
      (i \<in> set (p # ps) \<and> \<not> skips_opensbi w i \<and> in_boot_set w target i)" if "i < 5" for i
  proof -
    have "bit (push_bit p (1 :: u32)) i \<longleftrightarrow> i = p" using that by (auto simp: bit_exp_iff)
    then have "bit (bl_hartMask (ld k v)) i \<longleftrightarrow> bit (bl_hartMask (ld k w)) i \<or>
        (i = p \<and> \<not> skips_opensbi w p \<and> in_boot_set w target p)"
      unfolding v(7) by (auto simp: bit_or_iff simp del: push_bit_of_1)
    then show ?thesis using w'(7) that by (auto simp: im in_boot_set_def)
  qed
  ultimately show ?case
    using v w' by (intro exI [of _ w']) (auto simp: register_loop.simps(2))
qed

section \<open>Properties\<close>


text \<open>The image above with an entry point for harts 1 and 2.\<close>

definition pair_image :: memory where
  "pair_image = small_image(0x1002B := 0x80, 0x10153 := 0x80)"

lemma pair_image_fields:
  "read_u64 pair_image 0x10028 = 0x80000000" "read_u64 pair_image 0x10150 = 0x80000000"
  "read_u64 pair_image 0x10278 = 0" "read_u64 pair_image 0x103A0 = 0"
  "read_u64 pair_image 0x10038 = 1" "read_u64 pair_image 0x10160 = 0"
  "pair_image 0x10031 = 0" "pair_image 0x10159 = 0" "pair_image 0x10281 = 0"
  by (simp_all add: read_u64_def mem_read_bytes pair_image_def small_image_def)

lemma pair_image_reads:
  "entryPoint (bi_hart pair_image 0x10000 0) = 0x80000000" "entryPoint (bi_hart pair_image 0x10000 1) = 0x80000000"
  "entryPoint (bi_hart pair_image 0x10000 2) = 0" "entryPoint (bi_hart pair_image 0x10000 3) = 0"
  "numChunks (bi_hart pair_image 0x10000 0) = 1" "numChunks (bi_hart pair_image 0x10000 1) = 0"
  "bh_flags (bi_hart pair_image 0x10000 0) = 0" "bh_flags (bi_hart pair_image 0x10000 1) = 0"
  "bh_flags (bi_hart pair_image 0x10000 2) = 0"
  using pair_image_fields by (simp_all add: bi_hart_def Let_def)


section \<open>Interleaving\<close>

text \<open>Any number of passes of any of the four machines, each with its clock readings.\<close>

fun boot_passes :: "(nat \<times> u64 \<times> u64 \<times> u64 \<times> u64) list \<Rightarrow> Boot_World \<Rightarrow> Boot_World option" where
  "boot_passes [] w = Some w"
| "boot_passes ((k, t0, t1, now, later) # ps) w =
     do { w \<leftarrow> boot_step k t0 t1 (w\<lparr>bw_now := now, bw_later := later\<rparr>); boot_passes ps w }"

lemma boot_step_keeps:
  assumes "k < 4" "boot_wf w" "boot_step k t0 t1 w = Some w'"
  shows "boot_wf w'"
proof -
  obtain m v where r: "RunStateMachine (boot_state_descs k) t0 t1 (bootMachines w ! k) w = Some (m, v)"
    and w': "w' = v\<lparr>bootMachines := (bootMachines v)[k := m]\<rparr>"
    using assms(3) by (auto simp: boot_step_def bind_eq_Some_conv)
  have mk: "machine_ok (boot_state_descs k) (bootMachines w ! k)"
    using boot_wfD(6) [OF assms(2,1)] by (simp add: machine_ok_boot)
  have "k = 0 \<or> k = 1 \<or> k = 2 \<or> k = 3" using assms(1) by auto
  then have "machine_ok (boot_state_descs k) m \<and> boot_wf v"
  proof (elim disjE)
    assume k: "k = 0"
    show ?thesis using boot1.step_keeps [OF r [unfolded k] mk [unfolded k] assms(2)] k by simp
  next
    assume k: "k = 1"
    show ?thesis using boot2.step_keeps [OF r [unfolded k] mk [unfolded k] assms(2)] k by simp
  next
    assume k: "k = 2"
    show ?thesis using boot3.step_keeps [OF r [unfolded k] mk [unfolded k] assms(2)] k by simp
  next
    assume k: "k = 3"
    show ?thesis using boot4.step_keeps [OF r [unfolded k] mk [unfolded k] assms(2)] k by simp
  qed
  then show ?thesis
    unfolding w' machine_ok_boot boot_wf_def by (auto dest!: set_update_subset_insert [THEN subsetD])
qed


lemma idle_consume:
  assumes "0 < s" "s < 5"
  shows "IPI_ConsumeIntent boot_registry HSS_HART_E51 s IPI_MSG_BOOT_REQUEST (bus_init, w) = Some (False, bus_init, w)"
proof -
  let ?i = "IPI_CalculateQueueIndex s HSS_HART_E51"
  have i: "?i < 20" using assms by (simp add: queue_index_less)
  have "find_index (\<lambda>m. msg_type m = IPI_MSG_BOOT_REQUEST) (msgQ (ipi_queues bus_init ! ?i)) = None"
    using bus_init_slots [OF i] by (simp add: find_index_None_iff zero_Msg_def del: replicate.simps)
  then show ?thesis
    using i ipi_wfD(1) [OF bus_init_wf] msg_num_less [of IPI_MSG_BOOT_REQUEST]
    by (simp add: IPI_ConsumeIntent_def boot_registry_entry Let_def)
qed

lemma idle_desc:
  "desc_at (boot_state_descs k) BOOT_IDLE = Some \<lparr>sd_state = BOOT_IDLE, state_onEntry = Some (boot_idle_onEntry k),
     state_onExit = None, state_handler = Some (boot_idle_handler k)\<rparr>"
  by (simp add: desc_at_def boot_state_descs_def)

lemma idle_step:
  assumes "k < 4"
  shows "\<exists>m' w'. RunStateMachine (boot_state_descs k) t0 t1 boot_service_init
    ((boot_world0 mem img)\<lparr>bw_now := a, bw_later := b\<rparr>) = Some (m', w') \<and> state m' = BOOT_IDLE"
proof -
  let ?w = "(boot_world0 mem img)\<lparr>bw_now := a, bw_later := b\<rparr>"
  have ld: "ld k ?w = ld k (boot_world0 mem img)" by (simp add: ld_def)
  have "perfCtrs (?w\<lparr>perfCtrs := perfCtrs ?w\<rparr>) = perfCtrs ?w" by simp
  have e: "boot_idle_onEntry k m ?w = Some (m, ?w)" for m
    using assms by (simp add: boot_idle_onEntry_def HSS_PerfCtr_Lap_def with_ctr_def ld)
  have h: "\<exists>w'. boot_idle_handler k m ?w = Some (m, w')" for m
    using assms by (simp add: boot_idle_handler_def ld idle_consume)
  obtain w' where "boot_idle_handler k ((stamp_begin t0 boot_service_init)\<lparr>executionCount := 0, prevState := 8\<rparr>) ?w
      = Some ((stamp_begin t0 boot_service_init)\<lparr>executionCount := 0, prevState := 8\<rparr>, w')" using h by blast
  then show ?thesis
    by (simp add: RunStateMachine_def change_state_def leave_state_def IsValidState_def boot_service_init_def
        machine_init_def idle_desc e)
qed


section \<open>Acknowledgements and time-outs\<close>

text \<open>
  C31. The time-out of \<open>BOOT_WAIT\<close> cannot fire: the handler sets the start of the
  interval to the present time just before it tests whether five seconds have passed since.
  As long as the two readings of the clock are not themselves five seconds apart, a pass never
  leads to \<open>BOOT_ERROR\<close>, however long the machine has been waiting.
\<close>

theorem boot_wait_never_times_out:
  assumes "unat (bw_now w) + 5000000 < 2 ^ 64" "unat (bw_later w) \<le> unat (bw_now w) + 5000000"
    and "state m = BOOT_WAIT" "boot_wait_handler k m w = Some (m', w')"
  shows "state m' = BOOT_WAIT \<or> state m' = BOOT_COMPLETE"
proof -
  have "unat (bw_now w + 5000000) = unat (bw_now w) + 5000000"
    using word_range_eq [OF assms(1), of 5000000] by simp
  then have "\<not> HSS_Timer_IsElapsed (bw_later w) (bw_now w) BOOT_WAIT_TIMEOUT"
    using assms(2) by (simp add: HSS_Timer_IsElapsed_def not_less word_le_nat_alt)
  then have later: "HSS_Timer_IsElapsed (bw_later w) (bw_now w) BOOT_WAIT_TIMEOUT = False" by simp
  show ?thesis
  proof (cases "entryPoint (boot_hart w (bl_target (ld k w))) = 0")
    case True
    then show ?thesis using assms(4)
      by (simp add: boot_wait_handler_def Let_def bind_eq_Some_conv del: One_nat_def) force
  next
    case False
    then show ?thesis using assms(3,4)
      by (simp add: boot_wait_handler_def Let_def later bind_eq_Some_conv del: One_nat_def) (force split: if_splits)
  qed
qed

lemma ack_loop_append:
  "ack_loop k (xs @ ys) r w = do { (r, w) \<leftarrow> ack_loop k xs r w; ack_loop k ys r w }"
proof (induction xs arbitrary: r w)
  case Nil
  then show ?case by simp
next
  case (Cons x xs)
  have IH: "ack_loop k (xs @ ys) r = (\<lambda>w. do { (r, w) \<leftarrow> ack_loop k xs r w; ack_loop k ys r w })" for r
    using Cons.IH by blast
  show ?case by (simp add: ack_loop.simps(2) IH)
qed

lemma ack_loop_skip: "\<forall>p \<in> set ps. aux k p w = 16 \<Longrightarrow> ack_loop k ps r w = Some (r, w)"
  by (induction ps) (simp_all add: ack_loop.simps(2))

text \<open>A world whose first machine waits for the messages \<open>ax\<close> to the four harts, where
  message 0 is pending and message 1 has been answered.\<close>

definition waiting_bus :: IPI_Data where
  "waiting_bus = bus_init\<lparr>ipi_completes := [
     zero_Complete\<lparr>used := True, cstatus := IPI_PENDING\<rparr>,
     zero_Complete\<lparr>used := True, cstatus := IPI_SUCCESS\<rparr>] @ replicate 14 zero_Complete\<rparr>"

definition waiting_world :: "u64 \<Rightarrow> nat list \<Rightarrow> Boot_World" where
  "waiting_world t ax = (boot_world0 pair_image 0x10000)\<lparr>bw_ipi := waiting_bus, bw_now := t, bw_later := t,
     localData := localData_static[0 := (localData_static ! 0)\<lparr>msgIndexAux := ax\<rparr>]\<rparr>"

lemma waiting_world_simps [simp]:
  "bw_ipi (waiting_world t ax) = waiting_bus" "bw_now (waiting_world t ax) = t" "bw_later (waiting_world t ax) = t"
  "pBootImage (waiting_world t ax) = 0x10000"
  "boot_hart (waiting_world t ax) h = bi_hart pair_image 0x10000 (h - 1)"
  "ld 0 (waiting_world t ax) = \<lparr>bl_target = 1, pChunk = 0, pZiChunk = 0, chunkCount = 0,
     ziChunkCount = 0, subChunkOffset = 0, msgIndex = 16, bl_hartMask = 0, perfCtr = - 1, iterator = 0,
     ancilliaryData = 0, msgIndexAux = ax\<rparr>"
  by (simp_all add: waiting_world_def boot_world0_def boot_hart_def ld_def localData_static_def)

lemma waiting_world_wf: "length ax = 4 \<Longrightarrow> boot_wf (waiting_world t ax)"
  using boot_world0_wf [of pair_image "0x10000"] bus_init_wf
  by (auto simp: boot_wf_def waiting_world_def waiting_bus_def ipi_wf_def locals_wf_def nth_list_update
      simp del: replicate.simps)

lemma waiting_bus_completes [simp]:
  "ipi_completes waiting_bus ! 0 = zero_Complete\<lparr>used := True, cstatus := IPI_PENDING\<rparr>"
  "ipi_completes waiting_bus ! Suc 0 = zero_Complete\<lparr>used := True, cstatus := IPI_SUCCESS\<rparr>"
  by (simp_all add: waiting_bus_def del: replicate.simps)

text \<open>The example has waited for hart 2 since time 0, and the clock is years on.\<close>

theorem boot_wait_never_times_out_witness:
  "\<exists>m' w'. boot_wait_handler 0 ((machine_init 10)\<lparr>state := 6\<rparr>)
      (waiting_world 0xFFFFFFFFFFFF [16, 0, 16, 16]) = Some (m', w') \<and>
    (state m' = BOOT_WAIT \<or> state m' = BOOT_COMPLETE)"
proof -
  let ?w = "waiting_world 0xFFFFFFFFFFFF [16, 0, 16, 16]" and ?m = "(machine_init 10)\<lparr>state := 6\<rparr>"
  have "IPI_MessageCheckIfComplete 0 waiting_bus = Some False"
    by (simp add: IPI_MessageCheckIfComplete_def waiting_bus_def del: replicate.simps)
  then have "check_for_ipi_acks 0 ?w = Some (False, ?w)"
    by (simp add: check_for_ipi_acks_def ack_loop.simps(2))
  then obtain m' w' where r: "boot_wait_handler 0 ?m ?w = Some (m', w')"
    using pair_image_reads by (simp add: boot_wait_handler_def Let_def require_def HSS_Timer_IsElapsed_def)
  show ?thesis using boot_wait_never_times_out [OF _ _ _ r] r by (auto simp: machine_init_def)
qed

lemma harts_in_order:
  assumes "1 \<le> p" "p < q" "q \<le> (4 :: nat)"
  obtains xs ys zs where "[1, 2, 3, 4] = xs @ p # ys @ q # zs"
    "\<forall>x \<in> set xs \<union> set ys \<union> set zs. 1 \<le> x \<and> x \<le> 4 \<and> x \<noteq> p \<and> x \<noteq> q"
proof -
  consider "p = 1" "q = 2" | "p = 1" "q = 3" | "p = 1" "q = 4" | "p = 2" "q = 3" | "p = 2" "q = 4" | "p = 3" "q = 4"
    using assms by linarith
  then show ?thesis
  proof cases
    case 1 then show ?thesis using that [of "[]" "[]" "[3, 4]"] by simp
  next
    case 2 then show ?thesis using that [of "[]" "[2]" "[4]"] by simp
  next
    case 3 then show ?thesis using that [of "[]" "[2, 3]" "[]"] by simp
  next
    case 4 then show ?thesis using that [of "[1]" "[]" "[4]"] by simp
  next
    case 5 then show ?thesis using that [of "[1]" "[3]" "[]"] by simp
  next
    case 6 then show ?thesis using that [of "[1, 2]" "[]" "[]"] by simp
  qed
qed

text \<open>
  C30. Only the last outstanding acknowledgement counts. With messages to two harts of the boot
  set outstanding, and the one to the higher-numbered hart answered, the boot of the primary is
  reported complete although the other hart has not answered and its message is still held.
\<close>

theorem boot_completes_with_pending_ack:
  assumes "boot_wf w" "k < 4" "1 \<le> p" "p < q" "q \<le> 4"
    and "aux k p w = i" "aux k q w = j" "i < 16" "j < 16" "i \<noteq> j"
    and "\<forall>r. 1 \<le> r \<and> r \<le> 4 \<and> r \<noteq> p \<and> r \<noteq> q \<longrightarrow> aux k r w = 16" "msgIndex (ld k w) = 16"
    and "used (ipi_completes (bw_ipi w) ! i)" "cstatus (ipi_completes (bw_ipi w) ! i) = IPI_PENDING"
    and "used (ipi_completes (bw_ipi w) ! j)" "cstatus (ipi_completes (bw_ipi w) ! j) \<noteq> IPI_PENDING"
    and "pBootImage w \<noteq> 0" "entryPoint (boot_hart w (k + 1)) \<noteq> 0"
    and "\<not> HSS_Timer_IsElapsed (bw_later w) (bw_now w) BOOT_WAIT_TIMEOUT"
  shows "\<exists>m' w'. boot_wait_handler k m w = Some (m', w') \<and> state m' = BOOT_COMPLETE \<and>
    aux k p w' = i \<and> cstatus (ipi_completes (bw_ipi w') ! i) = IPI_PENDING"
proof -
  obtain xs ys zs where s: "[1, 2, 3, 4] = xs @ p # ys @ q # zs"
    and other: "\<forall>x \<in> set xs \<union> set ys \<union> set zs. 1 \<le> x \<and> x \<le> 4 \<and> x \<noteq> p \<and> x \<noteq> q"
    using harts_in_order [OF assms(3-5)] .
  have wf: "ipi_wf (bw_ipi w)" "k < length (localData w)" "length (msgIndexAux (ld k w)) = 4"
    "bl_target (ld k w) = k + 1" using boot_wfD [OF assms(1)] assms(2) by simp_all
  have skip: "aux k x w = 16" if "x \<in> set xs \<union> set ys \<union> set zs" for x using other that assms(11) by blast
  have pend: "IPI_MessageCheckIfComplete i (bw_ipi w) = Some False" "IPI_MessageCheckIfComplete j (bw_ipi w) = Some True"
    using assms(8,9,13-16) by (simp_all add: IPI_MessageCheckIfComplete_def)
  obtain d where d: "IPI_MessageFree HSS_HART_E51 j (bw_ipi w) = Some d"
    "ipi_completes d = (ipi_completes (bw_ipi w))[j := (ipi_completes (bw_ipi w) ! j)\<lparr>used := False\<rparr>]"
    using assms(9,15) wf(1) by (simp add: IPI_MessageFree_def ipi_wfD)
  define v where "v = set_aux k q 16 (w\<lparr>bw_ipi := d\<rparr>)"
  have ldw: "ld k (w\<lparr>bw_ipi := d\<rparr>) = ld k w" by (simp add: ld_def)
  have free: "free_msg_index_aux k q w = Some v"
    using assms(7,9) d(1) by (simp add: free_msg_index_aux_def v_def)
  have vaux: "aux k x v = (if x = q then 16 else aux k x w)" if "1 \<le> x" "x \<le> 4" for x
    using that assms(3-5) wf(2,3) by (auto simp: v_def set_aux_def ldw nth_list_update)
  have vmsg: "msgIndex (ld k v) = 16" "bw_ipi v = d" "bl_target (ld k v) = k + 1"
    using wf(2,4) assms(12) by (simp_all add: v_def set_aux_def ldw)
  have zs: "\<forall>x \<in> set zs. aux k x v = 16" using other skip vaux by auto
  have "ack_loop k [1, 2, 3, 4] True w = Some (True, v)"
    unfolding s using skip zs free pend assms(6-10)
    by (simp add: ack_loop_append ack_loop_skip ack_loop.simps(2))
  then have ack: "check_for_ipi_acks k w = Some (True, v)"
    using vmsg by (simp add: check_for_ipi_acks_def)
  have "\<exists>m' w'. boot_wait_handler k m w = Some (m', w') \<and> state m' = BOOT_COMPLETE \<and>
      (\<exists>s. w' = v\<lparr>MSS_STATUS := s\<rparr>)"
    using ack assms(17-19) wf(4) by (auto simp: boot_wait_handler_def Let_def require_def)
  then obtain m' w' x where r: "boot_wait_handler k m w = Some (m', w')" "state m' = BOOT_COMPLETE"
    "w' = v\<lparr>MSS_STATUS := x\<rparr>" by blast
  have "ld k w' = ld k v" "bw_ipi w' = d" using vmsg(2) by (simp_all add: r(3) ld_def)
  then show ?thesis
    using r(1,2) vaux [of p] assms(3-6,10,14) d(2) by auto
qed

theorem boot_completes_with_pending_ack_witness:
  "\<exists>m' w'. boot_wait_handler 0 boot_service_init (waiting_world 5 [16, 0, 1, 16]) = Some (m', w') \<and> state m' = BOOT_COMPLETE \<and>
    aux 0 2 w' = 0 \<and> cstatus (ipi_completes (bw_ipi w') ! 0) = IPI_PENDING"
proof (rule boot_completes_with_pending_ack [where p = 2 and q = 3 and i = 0 and j = 1])
  have "r = 1 \<or> r = 2 \<or> r = 3 \<or> r = (4 :: nat)" if "1 \<le> r" "r \<le> 4" for r using that by auto
  then show "\<forall>r. 1 \<le> r \<and> r \<le> 4 \<and> r \<noteq> 2 \<and> r \<noteq> 3 \<longrightarrow> aux 0 r (waiting_world 5 [16, 0, 1, 16]) = 16"
    by fastforce
qed (use pair_image_reads waiting_world_wf in \<open>simp_all add: HSS_Timer_IsElapsed_def\<close>)

end
