(* ===== verification/Watchdog.thy ===== *)
theory Watchdog
  imports Ddr Harts Ipi_Protocol
begin

text \<open>
  Watchdogs and reboots: \<open>services/wdog/wdog_service.c\<close> and
  \<open>services/reboot/reboot_service.c\<close>. The vendor's watchdog driver is a log of the calls
  made to it; the status register of the system and its \<open>forbidden\<close> bit are inputs. A reset
  of the chip is a result of its own: the function that asks for it never returns.
\<close>

section \<open>Reboots\<close>

abbreviation (input) PRV_M :: u32 where "PRV_M \<equiv> 3"

text \<open>The configuration switches, the address of \<open>do_srst_ecall\<close>, and what the
  system controller answers to the two Auto Update requests.\<close>

record Reboot_Config =
  ALLOW_COLDREBOOT :: bool
  ALLOW_COLDREBOOT_ALWAYS :: bool
  COLDREBOOT_TRY_AUTO_UPDATE :: bool
  COLDREBOOT_FULL_FPGA_RESET :: bool
  srst_ecall :: u64
  iap_authenticates :: u16
  iap_executes :: u16

datatype chip_reset = Auto_Update_Running | Tamper_Reset | Mss_Reset

datatype wdog_call = WD_configure hart_id bool u32 | WD_reload hart_id | WD_force_reset hart_id

record Wdog_World = Bus_World +
  ww_domains :: Domains
  scb_MSS_STATUS :: u32
  wd_hartBitmask :: u32
  wdogInitTime :: "u64 list"
  wd_clock :: "hart_id \<Rightarrow> u64"
  wd0_forbidden :: bool
  wd_calls :: "wdog_call list"

definition wd_call :: "wdog_call \<Rightarrow> 'z Wdog_World_scheme \<Rightarrow> 'z Wdog_World_scheme" where
  "wd_call c w = w\<lparr>wd_calls := wd_calls w @ [c]\<rparr>"

text \<open>\<open>None\<close> is the endless wait for the update; otherwise the error returned.\<close>

definition HSS_reboot_auto_update :: "Reboot_Config \<Rightarrow> u16 option" where
  "HSS_reboot_auto_update cfg =
     (if iap_authenticates cfg \<noteq> 0 then Some (iap_authenticates cfg)
      else if iap_executes cfg \<noteq> 0 then Some (iap_executes cfg)
      else None)"

definition HSS_reboot_cold_all :: "Reboot_Config \<Rightarrow> chip_reset" where
  "HSS_reboot_cold_all cfg =
     (if COLDREBOOT_TRY_AUTO_UPDATE cfg \<and> HSS_reboot_auto_update cfg = None then Auto_Update_Running
      else if COLDREBOOT_FULL_FPGA_RESET cfg then Tamper_Reset
      else Mss_Reset)"

definition HSS_reboot_cold :: "Reboot_Config \<Rightarrow> hart_id \<Rightarrow> 'z Wdog_World_scheme
    \<Rightarrow> (chip_reset + 'z Wdog_World_scheme) option" where
  "HSS_reboot_cold cfg target w =
     (if target \<le> HSS_HART_U54_4 then Some (Inr (wd_call (WD_force_reset target) w))
      else if target = HSS_HART_ALL then Some (Inl (HSS_reboot_cold_all cfg))
      else None)"

definition HSS_Wdog_Init_Time :: "hart_id \<Rightarrow> 'z Wdog_World_scheme \<Rightarrow> 'z Wdog_World_scheme" where
  "HSS_Wdog_Init_Time h w = w\<lparr>wdogInitTime := (wdogInitTime w)[h := wd_clock w h]\<rparr>"

text \<open>The first loop of \<open>HSS_reboot\<close> and its inner loop.\<close>

fun add_domain_peers :: "Domains \<Rightarrow> hart_id \<Rightarrow> hart_id list \<Rightarrow> u32 \<Rightarrow> u32 option" where
  "add_domain_peers ds source [] mk = Some mk"
| "add_domain_peers ds source (peer # ps) mk =
     (if peer = source then add_domain_peers ds source ps mk
      else do { same \<leftarrow> mpfs_are_harts_in_same_domain peer source ds;
                add_domain_peers ds source ps (if same then mk OR push_bit peer 1 else mk) })"

fun collect_restarts :: "Reboot_Config \<Rightarrow> Domains \<Rightarrow> u32 \<Rightarrow> hart_id list \<Rightarrow> u32 \<Rightarrow> (chip_reset + u32) option" where
  "collect_restarts cfg ds wdog_status [] mk = Some (Inr mk)"
| "collect_restarts cfg ds wdog_status (source # ss) mk =
     (if \<not> bit wdog_status source then collect_restarts cfg ds wdog_status ss mk
      else do {
        allowed \<leftarrow> (if ALLOW_COLDREBOOT cfg then mpfs_is_cold_reboot_allowed source ds else Some False);
        if allowed then Some (Inl (HSS_reboot_cold_all cfg))
        else do {
          mk \<leftarrow> add_domain_peers ds source [HSS_HART_U54_1..<HSS_HART_NUM_PEERS] (mk OR push_bit source 1);
          collect_restarts cfg ds wdog_status ss mk } })"

text \<open>The second loop; whether the message found room is not looked at.\<close>

fun warm_restart :: "Reboot_Config \<Rightarrow> u32 \<Rightarrow> hart_id list \<Rightarrow> 'z Wdog_World_scheme \<Rightarrow> 'z Wdog_World_scheme option" where
  "warm_restart cfg mk [] w = Some w"
| "warm_restart cfg mk (peer # ps) w =
     (if \<not> bit mk peer then warm_restart cfg mk ps w
      else do {
        (sent, d) \<leftarrow> IPI_Send HSS_HART_E51 peer IPI_MSG_GOTO 0 PRV_M (srst_ecall cfg) 0 (bw_ipi w);
        warm_restart cfg mk ps (HSS_Wdog_Init_Time peer (w\<lparr>bw_ipi := d\<rparr>)) })"

definition HSS_reboot :: "Reboot_Config \<Rightarrow> u32 \<Rightarrow> 'z Wdog_World_scheme
    \<Rightarrow> (chip_reset + 'z Wdog_World_scheme) option" where
  "HSS_reboot cfg wdog_status w =
     (if ALLOW_COLDREBOOT_ALWAYS cfg then Some (Inl (HSS_reboot_cold_all cfg))
      else do {
        r \<leftarrow> collect_restarts cfg (ww_domains w) wdog_status [HSS_HART_U54_1..<HSS_HART_NUM_PEERS] 0;
        case r of Inl x \<Rightarrow> Some (Inl x)
        | Inr mk \<Rightarrow> map_option Inr (warm_restart cfg mk [HSS_HART_U54_1..<HSS_HART_NUM_PEERS] w) })"

section \<open>The watchdog service\<close>

abbreviation (input) WDOG_INITIALIZATION :: int where "WDOG_INITIALIZATION \<equiv> 0"
abbreviation (input) WDOG_IDLE :: int where "WDOG_IDLE \<equiv> 1"
abbreviation (input) WDOG_MONITORING :: int where "WDOG_MONITORING \<equiv> 2"

definition HSS_Wdog_E51_Tickle :: "'z Wdog_World_scheme \<Rightarrow> 'z Wdog_World_scheme" where
  "HSS_Wdog_E51_Tickle = wd_call (WD_configure HSS_HART_E51 True 0xFFFF000)"

definition wdog_init_handler :: "'z Wdog_World_scheme hook" where
  "wdog_init_handler m w = Some (m\<lparr>state := WDOG_IDLE\<rparr>, HSS_Wdog_E51_Tickle w)"

text \<open>The four tests of \<open>wdog_idle_handler\<close>, one per hart.\<close>

definition init_time_if :: "hart_id \<Rightarrow> 'z Wdog_World_scheme \<Rightarrow> 'z Wdog_World_scheme" where
  "init_time_if h w = (if bit (wd_hartBitmask w) h then HSS_Wdog_Init_Time h w else w)"

definition wdog_idle_handler :: "'z Wdog_World_scheme hook" where
  "wdog_idle_handler m w =
     (if wd_hartBitmask w \<noteq> 0
      then Some (m\<lparr>state := WDOG_MONITORING\<rparr>,
                 init_time_if 4 (init_time_if 3 (init_time_if 2 (init_time_if 1 w))))
      else Some (m, w))"

text \<open>A reset of the chip ends the program: \<open>None\<close>.\<close>

definition wdog_monitoring_handler :: "Reboot_Config \<Rightarrow> 'z Wdog_World_scheme hook" where
  "wdog_monitoring_handler cfg m w = do {
     let w = (if wd0_forbidden w then w else wd_call (WD_reload HSS_HART_E51) w);
     let wdog_status = drop_bit 4 (scb_MSS_STATUS w) AND mHSS_BITMASK_ALL_U54 AND wd_hartBitmask w;
     if wdog_status \<noteq> 0 then do {
       r \<leftarrow> HSS_reboot cfg wdog_status w;
       case r of Inl _ \<Rightarrow> None | Inr w \<Rightarrow> Some (m, w) }
     else Some (m, w) }"

definition wdog_state_descs :: "Reboot_Config \<Rightarrow> 'z Wdog_World_scheme StateDesc list" where
  "wdog_state_descs cfg =
     [\<lparr>sd_state = WDOG_INITIALIZATION, state_onEntry = None, state_onExit = None, state_handler = Some wdog_init_handler\<rparr>,
      \<lparr>sd_state = WDOG_IDLE, state_onEntry = None, state_onExit = None, state_handler = Some wdog_idle_handler\<rparr>,
      \<lparr>sd_state = WDOG_MONITORING, state_onEntry = None, state_onExit = None,
        state_handler = Some (wdog_monitoring_handler cfg)\<rparr>]"

definition wdog_service :: StateMachine where
  "wdog_service = machine_init 3"

definition HSS_Wdog_MonitorHart :: "hart_id \<Rightarrow> 'z Wdog_World_scheme \<Rightarrow> 'z Wdog_World_scheme option" where
  "HSS_Wdog_MonitorHart target w =
     (if HSS_HART_U54_1 \<le> target \<and> target \<le> HSS_HART_U54_4
      then Some (w\<lparr>wd_hartBitmask := wd_hartBitmask w OR push_bit target 1\<rparr>)
      else if target = HSS_HART_ALL
      then Some (w\<lparr>wd_hartBitmask := wd_hartBitmask w OR mHSS_BITMASK_ALL_U54\<rparr>)
      else None)"

section \<open>What a reboot request does\<close>

text \<open>The harts to restart: those whose watchdog fired and those that share their domain. A
  hart in no domain has owner 0, so all the harts in no domain count as one.\<close>

definition to_restart :: "Domains \<Rightarrow> u32 \<Rightarrow> hart_id \<Rightarrow> bool" where
  "to_restart ds st h \<longleftrightarrow> (\<exists>s \<in> {1..4}. bit st s \<and>
     (h = s \<or> owner_hartid (hart_ledger ds ! h) = owner_hartid (hart_ledger ds ! s)))"

definition cold_wanted :: "Reboot_Config \<Rightarrow> Domains \<Rightarrow> u32 \<Rightarrow> bool" where
  "cold_wanted cfg ds st \<longleftrightarrow> ALLOW_COLDREBOOT_ALWAYS cfg \<or>
     (ALLOW_COLDREBOOT cfg \<and> (\<exists>s \<in> {1..4}. bit st s \<and> allow_cold_reboot (hart_ledger ds ! s)))"

definition goto_srst :: "Reboot_Config \<Rightarrow> IPI_Outbox_Msg" where
  "goto_srst cfg = \<lparr>msg_type = IPI_MSG_GOTO, transaction_id = 0, immediate_arg = PRV_M,
     p_extended_buffer_in_ddr = srst_ecall cfg, p_ancilliary_buffer_in_ddr = 0\<rparr>"

lemma bit_push_1: "i < 32 \<Longrightarrow> bit (push_bit p (1 :: u32)) i \<longleftrightarrow> i = p"
  by (auto simp: bit_exp_iff)

lemma add_domain_peers_spec:
  assumes "domains_wf ds" "source < 5" "\<forall>p \<in> set ps. p < 5"
  shows "\<exists>mk'. add_domain_peers ds source ps mk = Some mk' \<and>
    (\<forall>i < 32. bit mk' i \<longleftrightarrow> bit mk i \<or> (i \<in> set ps \<and> i \<noteq> source \<and>
       owner_hartid (hart_ledger ds ! i) = owner_hartid (hart_ledger ds ! source)))"
  using assms(3)
proof (induction ps arbitrary: mk)
  case Nil
  then show ?case by simp
next
  case (Cons p ps)
  let ?same = "owner_hartid (hart_ledger ds ! p) = owner_hartid (hart_ledger ds ! source)"
  have s: "mpfs_are_harts_in_same_domain p source ds = Some ?same"
    using assms(1,2) Cons.prems by (simp add: mpfs_are_harts_in_same_domain_def domains_wf_def)
  let ?mk = "if p \<noteq> source \<and> ?same then mk OR push_bit p 1 else mk"
  obtain mk' where mk': "add_domain_peers ds source ps ?mk = Some mk'"
    "\<forall>i < 32. bit mk' i \<longleftrightarrow> bit ?mk i \<or> (i \<in> set ps \<and> i \<noteq> source \<and>
       owner_hartid (hart_ledger ds ! i) = owner_hartid (hart_ledger ds ! source))"
    using Cons.IH [of ?mk] Cons.prems by auto
  have "bit ?mk i \<longleftrightarrow> bit mk i \<or> (i = p \<and> p \<noteq> source \<and> ?same)" if "i < 32" for i
    using bit_push_1 [OF that, of p] by (auto simp: bit_or_iff simp del: push_bit_of_1)
  then show ?case using mk' s by (intro exI [of _ mk']) auto
qed

lemma collect_restarts_spec:
  assumes "domains_wf ds" "\<forall>p \<in> set ss. 1 \<le> p \<and> p < 5"
  shows "(ALLOW_COLDREBOOT cfg \<and> (\<exists>s \<in> set ss. bit st s \<and> allow_cold_reboot (hart_ledger ds ! s)) \<longrightarrow>
      collect_restarts cfg ds st ss mk = Some (Inl (HSS_reboot_cold_all cfg))) \<and>
    (\<not> (ALLOW_COLDREBOOT cfg \<and> (\<exists>s \<in> set ss. bit st s \<and> allow_cold_reboot (hart_ledger ds ! s))) \<longrightarrow>
      (\<exists>mk'. collect_restarts cfg ds st ss mk = Some (Inr mk') \<and>
        (\<forall>i \<in> {1..4}. bit mk' i \<longleftrightarrow> bit mk i \<or> (\<exists>s \<in> set ss. bit st s \<and>
           (i = s \<or> owner_hartid (hart_ledger ds ! i) = owner_hartid (hart_ledger ds ! s))))))"
  using assms(2)
proof (induction ss arbitrary: mk)
  case Nil
  then show ?case by simp
next
  case (Cons s ss)
  have ss: "\<forall>p \<in> set ss. 1 \<le> p \<and> p < 5" and s: "1 \<le> s" "s < 5" using Cons.prems by auto
  note IH = Cons.IH [OF ss]
  show ?case
  proof (cases "bit st s")
    case False
    then show ?thesis using IH [of mk] by auto
  next
    case True
    have a: "mpfs_is_cold_reboot_allowed s ds = Some (allow_cold_reboot (hart_ledger ds ! s))"
      using assms(1) s by (simp add: mpfs_is_cold_reboot_allowed_def domains_wf_def)
    show ?thesis
    proof (cases "ALLOW_COLDREBOOT cfg \<and> allow_cold_reboot (hart_ledger ds ! s)")
      case True
      then show ?thesis using a \<open>bit st s\<close> by auto
    next
      case no: False
      obtain mk' where mk': "add_domain_peers ds s [1..<5] (mk OR push_bit s 1) = Some mk'"
        "\<forall>i < 32. bit mk' i \<longleftrightarrow> bit (mk OR push_bit s 1) i \<or> (i \<in> set [1..<5] \<and> i \<noteq> s \<and>
           owner_hartid (hart_ledger ds ! i) = owner_hartid (hart_ledger ds ! s))"
        using add_domain_peers_spec [OF assms(1) s(2), of "[1..<5]"] by (auto simp del: push_bit_of_1)
      have "collect_restarts cfg ds st (s # ss) mk = collect_restarts cfg ds st ss mk'"
        using True no a mk'(1) by (cases "ALLOW_COLDREBOOT cfg") (simp_all del: upt_Suc upt_rec_numeral push_bit_of_1)
      moreover have "bit mk' i \<longleftrightarrow> bit mk i \<or> i = s \<or>
          owner_hartid (hart_ledger ds ! i) = owner_hartid (hart_ledger ds ! s)" if "i \<in> {1..4}" for i
        using mk'(2) that bit_push_1 [of i s] by (auto simp: bit_or_iff simp del: push_bit_of_1)
      ultimately show ?thesis using IH [of mk'] True no by auto
    qed
  qed
qed

definition wdog_ok :: "'z Wdog_World_scheme \<Rightarrow> bool" where
  "wdog_ok w \<longleftrightarrow> ipi_wf (bw_ipi w) \<and> domains_wf (ww_domains w) \<and> length (wdogInitTime w) = 5"

lemma warm_restart_spec:
  assumes "wdog_ok w" "distinct ps" "\<forall>p \<in> set ps. 1 \<le> p \<and> p < 5"
  shows "\<exists>w'. warm_restart cfg mk ps w = Some w' \<and> wdog_ok w' \<and>
    (\<forall>h. wdogInitTime w' ! h = (if h \<in> set ps \<and> bit mk h then wd_clock w h else wdogInitTime w ! h)) \<and>
    bus_of (bw_ipi w') = (\<lambda>(s, t). if s = 0 \<and> t \<in> set ps \<and> bit mk t \<and> size (bus_of (bw_ipi w) (s, t)) < 4
       then add_mset (goto_srst cfg) (bus_of (bw_ipi w) (s, t)) else bus_of (bw_ipi w) (s, t))"
  using assms
proof (induction ps arbitrary: w)
  case Nil
  then show ?case by auto
next
  case (Cons p ps)
  have ps: "distinct ps" "\<forall>p \<in> set ps. 1 \<le> p \<and> p < 5" and p: "1 \<le> p" "p < 5" "p \<notin> set ps"
    using Cons.prems by auto
  show ?case
  proof (cases "bit mk p")
    case False
    then show ?thesis using Cons.IH [OF Cons.prems(1) ps] by fastforce
  next
    case True
    have dh: "distinct_harts 0 p" using p by (simp add: distinct_harts_def)
    obtain r d where d: "IPI_Send 0 p IPI_MSG_GOTO 0 PRV_M (srst_ecall cfg) 0 (bw_ipi w) = Some (r, d)" "ipi_wf d"
      "r \<longleftrightarrow> size (bus_of (bw_ipi w) (0, p)) < 4"
      "bus_of d = (if r then (bus_of (bw_ipi w))((0, p) := add_mset (goto_srst cfg) (bus_of (bw_ipi w) (0, p))) else bus_of (bw_ipi w))"
      using send_refines [of "bw_ipi w" 0 p "goto_srst cfg"] Cons.prems(1) dh
      by (auto simp: goto_srst_def wdog_ok_def)
    let ?w = "HSS_Wdog_Init_Time p (w\<lparr>bw_ipi := d\<rparr>)"
    have ok: "wdog_ok ?w" using Cons.prems(1) d(2) by (simp add: wdog_ok_def HSS_Wdog_Init_Time_def)
    obtain w' where w': "warm_restart cfg mk ps ?w = Some w'" "wdog_ok w'"
      "\<forall>h. wdogInitTime w' ! h = (if h \<in> set ps \<and> bit mk h then wd_clock ?w h else wdogInitTime ?w ! h)"
      "bus_of (bw_ipi w') = (\<lambda>(s, t). if s = 0 \<and> t \<in> set ps \<and> bit mk t \<and> size (bus_of (bw_ipi ?w) (s, t)) < 4
       then add_mset (goto_srst cfg) (bus_of (bw_ipi ?w) (s, t)) else bus_of (bw_ipi ?w) (s, t))"
      using Cons.IH [OF ok ps] by blast
    have run: "warm_restart cfg mk (p # ps) w = Some w'" using True d(1) w'(1) by simp
    have t: "wdogInitTime ?w = (wdogInitTime w)[p := wd_clock w p]" "wd_clock ?w = wd_clock w" "bw_ipi ?w = d"
      by (simp_all add: HSS_Wdog_Init_Time_def)
    have l: "p < length (wdogInitTime w)" using Cons.prems(1) p by (simp add: wdog_ok_def)
    have "wdogInitTime w' ! h = (if h \<in> set (p # ps) \<and> bit mk h then wd_clock w h else wdogInitTime w ! h)" for h
      using w'(3) l True p(3) by (cases "h = p") (auto simp: t)
    moreover have "bus_of (bw_ipi w') = (\<lambda>(s, t). if s = 0 \<and> t \<in> set (p # ps) \<and> bit mk t \<and>
        size (bus_of (bw_ipi w) (s, t)) < 4 then add_mset (goto_srst cfg) (bus_of (bw_ipi w) (s, t))
        else bus_of (bw_ipi w) (s, t))"
      unfolding w'(4) t d(4) using d(3) p(3) True by (auto simp: fun_eq_iff)
    ultimately show ?thesis using run w'(2) by blast
  qed
qed

section \<open>Safety\<close>

lemma wdog_ok_call [simp]: "wdog_ok (wd_call c w) = wdog_ok w"
  by (simp add: wdog_ok_def wd_call_def)

lemma init_time_if_ok [simp]: "wdog_ok (init_time_if h w) = wdog_ok w"
  by (simp add: wdog_ok_def init_time_if_def HSS_Wdog_Init_Time_def)

text \<open>What \<open>HSS_reboot\<close> does, whichever way it goes.\<close>

lemma HSS_reboot_spec:
  assumes "wdog_ok w"
  shows "cold_wanted cfg (ww_domains w) st \<Longrightarrow> HSS_reboot cfg st w = Some (Inl (HSS_reboot_cold_all cfg))"
    and "\<not> cold_wanted cfg (ww_domains w) st \<Longrightarrow> \<exists>w'. HSS_reboot cfg st w = Some (Inr w') \<and> wdog_ok w' \<and>
      (\<forall>h \<in> {1..4}. wdogInitTime w' ! h =
         (if to_restart (ww_domains w) st h then wd_clock w h else wdogInitTime w ! h)) \<and>
      bus_of (bw_ipi w') = (\<lambda>(s, t). if s = 0 \<and> t \<in> {1..4} \<and> to_restart (ww_domains w) st t \<and>
           size (bus_of (bw_ipi w) (s, t)) < 4
         then add_mset (goto_srst cfg) (bus_of (bw_ipi w) (s, t)) else bus_of (bw_ipi w) (s, t))"
proof -
  have ds: "domains_wf (ww_domains w)" using assms by (simp add: wdog_ok_def)
  have set: "set [1..<5] = {1..4 :: nat}" by auto
  have ran: "\<forall>p \<in> set [1..<5 :: nat]. 1 \<le> p \<and> p < 5" by simp
  note c = collect_restarts_spec [OF ds ran, of cfg st 0, unfolded set]
  show "HSS_reboot cfg st w = Some (Inl (HSS_reboot_cold_all cfg))" if "cold_wanted cfg (ww_domains w) st"
    using c that unfolding HSS_reboot_def cold_wanted_def
    by (cases "ALLOW_COLDREBOOT_ALWAYS cfg") (simp_all del: upt_rec_numeral upt_Suc)
  assume cold: "\<not> cold_wanted cfg (ww_domains w) st"
  then obtain mk where mk: "collect_restarts cfg (ww_domains w) st [1..<5] 0 = Some (Inr mk)"
    "\<forall>i \<in> {1..4}. bit mk i \<longleftrightarrow> to_restart (ww_domains w) st i"
    using c unfolding cold_wanted_def to_restart_def by (auto simp del: upt_rec_numeral upt_Suc)
  obtain w' where w': "warm_restart cfg mk [1..<5] w = Some w'" "wdog_ok w'"
    "\<forall>h. wdogInitTime w' ! h = (if h \<in> {1..4} \<and> bit mk h then wd_clock w h else wdogInitTime w ! h)"
    "bus_of (bw_ipi w') = (\<lambda>(s, t). if s = 0 \<and> t \<in> {1..4} \<and> bit mk t \<and> size (bus_of (bw_ipi w) (s, t)) < 4
       then add_mset (goto_srst cfg) (bus_of (bw_ipi w) (s, t)) else bus_of (bw_ipi w) (s, t))"
    using warm_restart_spec [OF assms distinct_upt ran, of cfg mk, unfolded set] by blast
  have "HSS_reboot cfg st w = Some (Inr w')"
    using cold mk(1) w'(1) by (simp add: HSS_reboot_def cold_wanted_def del: upt_rec_numeral upt_Suc)
  moreover have "bus_of (bw_ipi w') = (\<lambda>(s, t). if s = 0 \<and> t \<in> {1..4} \<and> to_restart (ww_domains w) st t \<and>
           size (bus_of (bw_ipi w) (s, t)) < 4
         then add_mset (goto_srst cfg) (bus_of (bw_ipi w) (s, t)) else bus_of (bw_ipi w) (s, t))"
    unfolding w'(4) using mk(2) by (intro ext) auto
  ultimately show "\<exists>w'. HSS_reboot cfg st w = Some (Inr w') \<and> wdog_ok w' \<and>
      (\<forall>h \<in> {1..4}. wdogInitTime w' ! h =
         (if to_restart (ww_domains w) st h then wd_clock w h else wdogInitTime w ! h)) \<and>
      bus_of (bw_ipi w') = (\<lambda>(s, t). if s = 0 \<and> t \<in> {1..4} \<and> to_restart (ww_domains w) st t \<and>
           size (bus_of (bw_ipi w) (s, t)) < 4
         then add_mset (goto_srst cfg) (bus_of (bw_ipi w) (s, t)) else bus_of (bw_ipi w) (s, t))"
    using w'(2,3) mk(2) by auto
qed

lemma length_wdog [simp]: "length (wdog_state_descs cfg) = 3"
  by (simp add: wdog_state_descs_def)

lemma wdog_hooks:
  "hook_keeps (wdog_state_descs cfg) wdog_ok wdog_init_handler"
  "hook_keeps (wdog_state_descs cfg) wdog_ok wdog_idle_handler"
  "hook_keeps (wdog_state_descs cfg) wdog_ok (wdog_monitoring_handler cfg)"
proof -
  show "hook_keeps (wdog_state_descs cfg) wdog_ok wdog_init_handler"
    by (rule hook_keepsI) (auto simp: wdog_init_handler_def HSS_Wdog_E51_Tickle_def)
  show "hook_keeps (wdog_state_descs cfg) wdog_ok wdog_idle_handler"
    by (rule hook_keepsI) (auto simp: wdog_idle_handler_def split: if_splits)
  show "hook_keeps (wdog_state_descs cfg) wdog_ok (wdog_monitoring_handler cfg)"
  proof (rule hook_keepsI, goal_cases)
    case (1 m w m' w')
    let ?w = "if wd0_forbidden w then w else wd_call (WD_reload HSS_HART_E51) w"
    have w: "wdog_ok ?w" using 1(2) by simp
    then show ?case
      using 1(1,3) HSS_reboot_spec [OF w] unfolding wdog_monitoring_handler_def Let_def
      by (cases "cold_wanted cfg (ww_domains ?w) (drop_bit 4 (scb_MSS_STATUS ?w) AND mHSS_BITMASK_ALL_U54 AND wd_hartBitmask ?w)")
        (fastforce split: if_split_asm)+
  qed
qed

interpretation wdog: machine_contract "wdog_state_descs cfg" wdog_ok
proof unfold_locales
  fix d assume d: "d \<in> set (wdog_state_descs cfg)"
  show "desc_keeps (wdog_state_descs cfg) wdog_ok d"
    using d [unfolded wdog_state_descs_def] wdog_hooks by (auto simp: desc_keeps_entry)
qed

section \<open>Properties\<close>

text \<open>The harts the service monitors whose watchdog shows as fired.\<close>

definition fired :: "'z Wdog_World_scheme \<Rightarrow> hart_id set" where
  "fired w = {h \<in> {1..4}. bit (scb_MSS_STATUS w) (h + 4) \<and> bit (wd_hartBitmask w) h}"

definition fired_status :: "'z Wdog_World_scheme \<Rightarrow> u32" where
  "fired_status w = drop_bit 4 (scb_MSS_STATUS w) AND mHSS_BITMASK_ALL_U54 AND wd_hartBitmask w"

lemma bit_all_u54: "bit mHSS_BITMASK_ALL_U54 n \<longleftrightarrow> n \<in> {1..4}"
proof (cases "n < 6")
  case True
  then have "n = 0 \<or> n = 1 \<or> n = 2 \<or> n = 3 \<or> n = 4 \<or> n = 5" by auto
  then show ?thesis by (elim disjE) (simp_all add: bit_numeral_rec)
next
  case False
  then obtain k where "n = k + 6" by (metis add.commute le_Suc_ex not_less)
  then show ?thesis by (simp add: bit_numeral_rec numeral_eq_Suc)
qed

lemma fired_bits: "bit (fired_status w) h \<longleftrightarrow> h \<in> fired w"
  unfolding fired_status_def fired_def bit_and_iff bit_drop_bit_eq bit_all_u54 by (auto simp: add.commute)

lemma fired_zero: "fired_status w = 0 \<longleftrightarrow> fired w = {}"
proof
  assume "fired_status w = 0"
  then have "\<not> bit (fired_status w) h" for h by simp
  then show "fired w = {}" by (auto simp: fired_bits)
next
  assume "fired w = {}"
  then show "fired_status w = 0" by (simp add: bit_eq_iff fired_bits)
qed

lemma fired_spec:
  "cold_wanted cfg ds (fired_status w) \<longleftrightarrow> ALLOW_COLDREBOOT_ALWAYS cfg \<or>
     (ALLOW_COLDREBOOT cfg \<and> (\<exists>s \<in> fired w. allow_cold_reboot (hart_ledger ds ! s)))"
  "to_restart ds (fired_status w) h \<longleftrightarrow> (\<exists>s \<in> fired w. h = s \<or>
     owner_hartid (hart_ledger ds ! h) = owner_hartid (hart_ledger ds ! s))"
  unfolding cold_wanted_def to_restart_def fired_bits by (auto simp: fired_def)


text \<open>Hart 2 fires; harts 2 and 3 are in the domain of hart 2, hart 1 is on its own.\<close>

definition wdog_cfg :: Reboot_Config where
  "wdog_cfg = \<lparr>ALLOW_COLDREBOOT = True, ALLOW_COLDREBOOT_ALWAYS = False, COLDREBOOT_TRY_AUTO_UPDATE = False,
     COLDREBOOT_FULL_FPGA_RESET = False, srst_ecall = 0x8000100, iap_authenticates = 0, iap_executes = 0\<rparr>"

definition wdog_world :: Wdog_World where
  "wdog_world = \<lparr>bw_ipi = bus_init, bw_triggers = triggerStatus_init, bw_now = 7,
     ww_domains = domains_static\<lparr>hart_ledger := map (\<lambda>h. zero_Ledger\<lparr>owner_hartid := h\<rparr>) [0, 1, 2, 2, 4]\<rparr>,
     scb_MSS_STATUS = 0x40, wd_hartBitmask = 0x1E, wdogInitTime = [0, 0, 0, 0, 0], wd_clock = (\<lambda>_. 9),
     wd0_forbidden = True, wd_calls = []\<rparr>"

lemma wdog_world_fired: "fired wdog_world = {2}"
  by (auto simp: fired_def wdog_world_def bit_numeral_rec numeral_eq_Suc le_Suc_eq)


end
