(* ===== verification/Sgdma.thy ===== *)
theory Sgdma
  imports Ddr Pmp Memcpy Ipi_Protocol Boot_Image
begin

text \<open>
  The scatter-gather DMA service, \<open>services/sgdma/sgdma_service.c\<close>: a hart sends a list of
  blocks, and the machine copies them a piece per pass, if the PMP entries of the hart permit
  it.
\<close>

section \<open>State\<close>

abbreviation (input) SGDMA_INITIALIZATION :: int where "SGDMA_INITIALIZATION \<equiv> 0"
abbreviation (input) SGDMA_IDLE :: int where "SGDMA_IDLE \<equiv> 1"
abbreviation (input) SGDMA_TRANSFERRING :: int where "SGDMA_TRANSFERRING \<equiv> 2"
abbreviation (input) MAX_SGDMA_SIZE_PER_LOOP_ITER :: u64 where "MAX_SGDMA_SIZE_PER_LOOP_ITER \<equiv> 4096"

record HSS_SGDMA_BlockDesc =
  src_phys_addr :: u64
  dest_phys_addr :: u64
  bd_size :: u64
  bd_ext :: bool

abbreviation (input) BLOCK_DESC_SIZE :: u64 where "BLOCK_DESC_SIZE \<equiv> 32"

text \<open>\<open>ext\<close> is the top bit of the last word.\<close>

definition read_block :: "memory \<Rightarrow> u64 \<Rightarrow> HSS_SGDMA_BlockDesc" where
  "read_block m p = \<lparr>src_phys_addr = read_u64 m p, dest_phys_addr = read_u64 m (p + 8),
     bd_size = read_u64 m (p + 16), bd_ext = bit (read_u32 m (p + 24)) 31\<rparr>"

record Sgdma_World = Bus_World +
  sg_memory :: memory
  sg_pmp :: pmp_table
  pBlockDesc :: u64
  activeHart :: hart_id
  sg_i :: nat
  remaining_in_current_block :: u64
  sg_machine :: StateMachine

section \<open>Handlers\<close>

definition sgdma_init_handler :: "Sgdma_World hook" where
  "sgdma_init_handler m w = Some (m\<lparr>state := state m + 1\<rparr>, w)"

text \<open>The handler of the message sets the machine and the block list; \<open>sg_machine\<close> is
  the machine while a handler that runs inside its own state works on it.\<close>

definition HSS_SGDMA_IPIHandler :: "Sgdma_World ipi_handler" where
  "HSS_SGDMA_IPIHandler txid source imm ext anc = (\<lambda>(d, w). do {
     require (ext \<noteq> 0);
     require (state (sg_machine w) = SGDMA_IDLE);
     Some (IPI_SUCCESS, d, w\<lparr>pBlockDesc := ext, activeHart := source,
       sg_machine := (sg_machine w)\<lparr>state := SGDMA_TRANSFERRING\<rparr>\<rparr>) })"

definition sgdma_registry :: "Sgdma_World ipi_registry" where
  "sgdma_registry = map (\<lambda>t. (t, if t = IPI_MSG_SCATTERGATHER_DMA then Some HSS_SGDMA_IPIHandler else None)) ipi_messages"

text \<open>The hart number \<open>sg_i\<close> is also used as the index of a queue.\<close>

definition sgdma_idle_handler :: "Sgdma_World hook" where
  "sgdma_idle_handler m w = do {
     (m, w) \<leftarrow>
       (if IPI_GetQueuePendingCount (sg_i w) (bw_ipi w) \<noteq> 0 then do {
          (r, d, w) \<leftarrow> IPI_ConsumeIntent sgdma_registry HSS_HART_E51 (sg_i w) IPI_MSG_SCATTERGATHER_DMA
             (bw_ipi w, w\<lparr>sg_machine := m\<rparr>);
          Some (sg_machine w, w\<lparr>bw_ipi := d\<rparr>) }
        else Some (m, w));
     Some (m, w\<lparr>sg_i := (sg_i w + 1) mod HSS_HART_NUM_PEERS\<rparr>) }"

definition sg_permitted :: "Sgdma_World \<Rightarrow> u64 \<Rightarrow> u64 \<Rightarrow> u64 \<Rightarrow> bool" where
  "sg_permitted w dest src n \<longleftrightarrow>
     HSS_PMP_CheckWrite (sg_pmp w) (activeHart w) dest n \<and> HSS_PMP_CheckRead (sg_pmp w) (activeHart w) src n"

definition sgdma_transferring_handler :: "Sgdma_World hook" where
  "sgdma_transferring_handler m w = do {
     require (pBlockDesc w \<noteq> 0);
     let b = read_block (sg_memory w) (pBlockDesc w);
     if bd_ext b then do {
       let remaining = (if remaining_in_current_block w = 0 then bd_size b else remaining_in_current_block w);
       let chunk_size = (if remaining > MAX_SGDMA_SIZE_PER_LOOP_ITER then MAX_SGDMA_SIZE_PER_LOOP_ITER else remaining);
       mem \<leftarrow> (if sg_permitted w (dest_phys_addr b) (src_phys_addr b) chunk_size
               then memcpy_via_pdma (dest_phys_addr b) (src_phys_addr b) (unat chunk_size) (sg_memory w)
               else Some (sg_memory w));
       require (remaining \<ge> chunk_size);
       let remaining = remaining - chunk_size;
       Some (m, w\<lparr>sg_memory := mem, remaining_in_current_block := remaining,
         pBlockDesc := (if remaining = 0 then pBlockDesc w + BLOCK_DESC_SIZE else pBlockDesc w)\<rparr>) }
     else Some (m\<lparr>state := SGDMA_IDLE\<rparr>, w\<lparr>pBlockDesc := 0, activeHart := HSS_HART_E51\<rparr>) }"

definition sgdma_state_descs :: "Sgdma_World StateDesc list" where
  "sgdma_state_descs =
     [\<lparr>sd_state = SGDMA_INITIALIZATION, state_onEntry = None, state_onExit = None, state_handler = Some sgdma_init_handler\<rparr>,
      \<lparr>sd_state = SGDMA_IDLE, state_onEntry = None, state_onExit = None, state_handler = Some sgdma_idle_handler\<rparr>,
      \<lparr>sd_state = SGDMA_TRANSFERRING, state_onEntry = None, state_onExit = None,
        state_handler = Some sgdma_transferring_handler\<rparr>]"

definition sgdma_service :: StateMachine where
  "sgdma_service = machine_init 3"

section \<open>A block\<close>

text \<open>The passes a block of \<open>n\<close> bytes takes.\<close>

definition block_passes :: "nat \<Rightarrow> nat" where
  "block_passes n = (n + 4095) div 4096"

fun repeat_handler :: "'w hook \<Rightarrow> nat \<Rightarrow> 'w hook" where
  "repeat_handler f 0 m w = Some (m, w)"
| "repeat_handler f (Suc n) m w = do { (m, w) \<leftarrow> f m w; repeat_handler f n m w }"

lemma block_passes_Suc: "4096 < n \<Longrightarrow> block_passes n = Suc (block_passes (n - 4096))"
  by (simp add: block_passes_def le_div_geq)

text \<open>A piece of a block: \<open>r\<close> bytes are left of it (0: nothing of it has been copied).\<close>

lemma transfer_step:
  assumes "pBlockDesc w \<noteq> 0" "read_block (sg_memory w) (pBlockDesc w) = b" "bd_ext b"
    and "r = (if remaining_in_current_block w = 0 then unat (bd_size b) else unat (remaining_in_current_block w))" "0 < r"
    and "apart (dest_phys_addr b) (src_phys_addr b) (min r 4096)"
    and "sg_permitted w (dest_phys_addr b) (src_phys_addr b) (of_nat (min r 4096))"
  shows "sgdma_transferring_handler m w = Some (m, w\<lparr>
    sg_memory := mem_write (sg_memory w) (dest_phys_addr b) (mem_read (sg_memory w) (src_phys_addr b) (min r 4096)),
    remaining_in_current_block := of_nat (r - min r 4096),
    pBlockDesc := if r \<le> 4096 then pBlockDesc w + BLOCK_DESC_SIZE else pBlockDesc w\<rparr>)"
proof -
  let ?rem = "if remaining_in_current_block w = 0 then bd_size b else remaining_in_current_block w"
  have rem: "unat ?rem = r" using assms(4) by simp
  have lt: "?rem > 4096 \<longleftrightarrow> 4096 < r" using rem by (simp add: word_less_nat_alt)
  let ?c = "if ?rem > 4096 then 4096 else ?rem"
  have c: "unat ?c = min r 4096" using rem lt by simp
  have c': "?c = of_nat (min r 4096)" unfolding c [symmetric] by simp
  have ge: "?rem \<ge> ?c" unfolding word_le_nat_alt rem c by simp
  have d: "?rem - ?c = of_nat (r - min r 4096)"
  proof -
    have "unat (?rem - ?c) = unat ?rem - unat ?c"
      using ge unfolding unat_sub_if_size word_le_nat_alt by (rule if_P)
    then have "of_nat (unat (?rem - ?c)) = (of_nat (r - min r 4096) :: u64)" unfolding rem c by (rule arg_cong)
    then show ?thesis unfolding of_nat_unat by simp
  qed
  have z: "?rem - ?c = 0 \<longleftrightarrow> r \<le> 4096" using rem lt by auto
  have cp: "memcpy_via_pdma (dest_phys_addr b) (src_phys_addr b) (unat ?c) (sg_memory w) =
      Some (mem_write (sg_memory w) (dest_phys_addr b) (mem_read (sg_memory w) (src_phys_addr b) (min r 4096)))"
    unfolding c by (rule memcpy_apart [OF assms(6)]) (use assms(5) in simp)
  have p: "sg_permitted w (dest_phys_addr b) (src_phys_addr b) ?c" using assms(7) c' by simp
  show ?thesis
    unfolding sgdma_transferring_handler_def assms(2) Let_def require_def
    using assms(1,3) cp p ge d z by simp
qed

text \<open>The descriptor at \<open>p\<close> is not among the bytes written.\<close>

definition clear_of :: "u64 \<Rightarrow> u64 \<Rightarrow> nat \<Rightarrow> bool" where
  "clear_of p d n \<longleftrightarrow> (\<forall>i < 32. \<forall>j < n. p + of_nat i \<noteq> d + of_nat j)"

lemma read_block_write:
  assumes "clear_of p d n" "length bs \<le> n"
  shows "read_block (mem_write m d bs) p = read_block m p"
proof -
  have e: "mem_write m d bs (p + of_nat i) = m (p + of_nat i)" if "i < 32" for i
    by (rule mem_write_other) (use assms that in \<open>auto simp: clear_of_def\<close>)
  have r: "mem_read (mem_write m d bs) (p + of_nat j) k = mem_read m (p + of_nat j) k" if "j + k \<le> 32" for j k
    by (rule mem_read_cong) (use that e [of "j + _"] in \<open>simp add: add.assoc\<close>)
  show ?thesis
    using r [of 0 8] r [of 8 8] r [of 16 8] r [of 24 4]
    by (simp add: read_block_def read_u32_def read_u64_def)
qed

text \<open>The passes after the first of a block with more than 4096 bytes.\<close>

lemma transfer_rest:
  assumes "0 < r" "r < 2 ^ 64" "pBlockDesc w \<noteq> 0" "read_block (sg_memory w) (pBlockDesc w) = b" "bd_ext b"
    and "remaining_in_current_block w = of_nat r"
    and "apart (dest_phys_addr b) (src_phys_addr b) 4096" "clear_of (pBlockDesc w) (dest_phys_addr b) 4096"
    and "\<And>k. 0 < k \<Longrightarrow> k \<le> 4096 \<Longrightarrow> sg_permitted w (dest_phys_addr b) (src_phys_addr b) (of_nat k)"
    and "sg_memory w = mem_write M (dest_phys_addr b) (mem_read M (src_phys_addr b) 4096)"
  shows "repeat_handler sgdma_transferring_handler (block_passes r) m w =
    Some (m, w\<lparr>remaining_in_current_block := 0, pBlockDesc := pBlockDesc w + BLOCK_DESC_SIZE\<rparr>)"
  using assms
proof (induction r arbitrary: w rule: less_induct)
  case (less r)
  let ?k = "min r 4096"
  have ur: "unat (remaining_in_current_block w) = r" using less.prems(2,6) by (simp add: unat_of_nat_u64)
  have nz: "remaining_in_current_block w \<noteq> 0" using ur less.prems(1) by auto
  have same: "mem_write (sg_memory w) (dest_phys_addr b) (mem_read (sg_memory w) (src_phys_addr b) ?k) = sg_memory w"
    unfolding less.prems(10) by (rule recopy [OF less.prems(7)]) simp
  let ?w = "w\<lparr>remaining_in_current_block := of_nat (r - ?k),
    pBlockDesc := if r \<le> 4096 then pBlockDesc w + BLOCK_DESC_SIZE else pBlockDesc w\<rparr>"
  have step: "sgdma_transferring_handler m w = Some (m, ?w)"
    using transfer_step [OF less.prems(3,4,5), of r m] ur nz less.prems(1) apart_le [OF less.prems(7), of ?k]
      less.prems(9) [of ?k] same by simp
  show ?case
  proof (cases "r \<le> 4096")
    case True
    then have "block_passes r = Suc 0" using less.prems(1) by (simp add: block_passes_def)
    then show ?thesis using step True by simp
  next
    case False
    then have bp: "block_passes r = Suc (block_passes (r - 4096))" by (simp add: block_passes_Suc)
    have "repeat_handler sgdma_transferring_handler (block_passes (r - 4096)) m ?w =
        Some (m, ?w\<lparr>remaining_in_current_block := 0, pBlockDesc := pBlockDesc ?w + BLOCK_DESC_SIZE\<rparr>)"
      by (rule less.IH) (use False less.prems in \<open>auto simp: sg_permitted_def\<close>)
    then show ?thesis using step False by (simp add: bp)
  qed
qed


text \<open>A block of 5000 bytes from 0x90000000 to 0x80000000, for a hart that may read and write
  all of the lower 4 GiB.\<close>

definition sg_block :: HSS_SGDMA_BlockDesc where
  "sg_block = \<lparr>src_phys_addr = 0x90000000, dest_phys_addr = 0x80000000, bd_size = 5000, bd_ext = True\<rparr>"

definition sg_image :: memory where
  "sg_image = (\<lambda>_. 0)(0x10003 := 0x90, 0x1000B := 0x80, 0x10010 := 0x88, 0x10011 := 0x13, 0x1001B := 0x80, 0x90000FFF := 7)"

lemma sg_image_block: "read_block sg_image 0x10000 = sg_block"
  by (simp add: read_block_def read_u64_def read_u32_def mem_read_bytes sg_image_def sg_block_def bit_numeral_rec
      flip: numeral_eq_Suc)

definition sg_world :: Sgdma_World where
  "sg_world = \<lparr>bw_ipi = bus_init, bw_triggers = triggerStatus_init, bw_now = 0, sg_memory = sg_image,
     sg_pmp = replicate 5 [zero_PmpEntry\<lparr>psize := 0x100000000, pA := AddressMatchingMode_NAPOT, pR := True, pW := True\<rparr>],
     pBlockDesc = 0x10000, activeHart = 1, sg_i = 1, remaining_in_current_block = 0, sg_machine = machine_init 3\<rparr>"

lemma sint_small: "unat x < 2 ^ 63 \<Longrightarrow> sint (x :: u64) = int (unat x)"
proof -
  assume "unat x < 2 ^ 63"
  then have "uint x < 2 ^ 63"
    unfolding uint_nat by (metis of_nat_less_iff of_nat_numeral of_nat_power)
  then have "signed_take_bit 63 (uint x) = uint x"
    by (intro signed_take_bit_int_eq_self) (auto intro: order_trans [of _ 0])
  then show ?thesis by (simp add: sint_uint)
qed

lemma covers_low:
  assumes "baseAddr e = 0" "psize e = 0x100000000" "unat s + n < 2 ^ 32"
  shows "pmp_covers e s (s + of_nat n)"
proof -
  have "unat (s + of_nat n) = unat s + n" using assms(3) word_range_eq [of s n n] by simp
  then have "sint (s + of_nat n) = int (unat s + n)" "sint s = int (unat s)"
    using assms(3) sint_small [of s] sint_small [of "s + of_nat n"] by simp_all
  moreover have "int (unat s + n) < 0x100000000"
    using assms(3) of_nat_less_iff [of "unat s + n" "2 ^ 32", where 'a = int] by simp
  moreover have "sint (0x100000000 :: u64) = 0x100000000" by simp
  ultimately show ?thesis
    unfolding pmp_covers_def word_sle_eq word_sless_alt assms(1,2) by simp
qed


section \<open>Which requests are looked at\<close>

text \<open>The counts the polling hart keeps of its queues; sending never changes them.\<close>

definition counts :: "IPI_Data \<Rightarrow> nat \<Rightarrow> u32" where
  "counts d j = qcount (ipi_queues d ! j)"

lemma qcount_msgQ [simp]: "qcount (qs[i := (qs ! i)\<lparr>msgQ := x\<rparr>] ! j) = qcount (qs ! j)"
  by (cases "i < length qs"; cases "i = j") (simp_all add: not_less list_update_beyond)

lemma counts_simps [simp]:
  "counts (set_slot i k m d) j = counts d j"
  "counts (bump h f d) j = counts d j"
  "j < length (ipi_queues d) \<Longrightarrow> j \<noteq> i \<Longrightarrow> counts (dec_count i d) j = counts d j"
  "counts (clear_slot i k d) j = counts d j"
  by (auto simp: counts_def set_slot_def dec_count_def clear_slot_def Let_def nth_list_update)

lemma send_ack_counts:
  assumes "ipi_wf d" "distinct_harts me s" "send_ack me s ty txid r d = Some d'" "j < 20"
  shows "counts d' j = counts d j"
proof -
  have h: "me < 5" "s < 5" "me \<noteq> s" using assms(2) by (auto simp: distinct_harts_def)
  have sent: "counts (snd (the (IPI_Send me s m txid a 0 0 d))) j = counts d j" for m a
    using IPI_Send_cases [OF assms(1) h, of m txid a 0 0] assms(1,4)
    by (auto simp: sent_def Let_def counts_def set_slot_def split: option.split)
  then have "counts d' j = counts d j" if mo: "map_option snd (IPI_Send me s m txid a 0 0 d) = Some d'" for m a
  proof -
    obtain x where "IPI_Send me s m txid a 0 0 d = Some (x, d')" using mo by auto
    then show ?thesis using sent [of m a] by simp
  qed
  then show ?thesis using assms(3) by (auto simp: send_ack_def split: if_splits IPIStatusCode.splits)
qed

lemma registry_ok_sgdma: "registry_ok sgdma_registry"
  by (simp add: registry_ok_def sgdma_registry_def comp_def)

lemma sgdma_registry_handler: "snd (sgdma_registry ! msg_num IPI_MSG_SCATTERGATHER_DMA) = Some HSS_SGDMA_IPIHandler"
  using msg_num_less [of IPI_MSG_SCATTERGATHER_DMA] by (simp add: sgdma_registry_def ipi_messages_def msg_num_def)

text \<open>A pass of the idle handler that does not halt: what it does to the requests.\<close>

lemma idle_pass:
  assumes "ipi_wf (bw_ipi w)" "sg_i w < 5" "\<forall>q < 4. counts (bw_ipi w) q = 0"
    and "sgdma_idle_handler m w = Some (m', w')"
  shows "ipi_wf (bw_ipi w') \<and> sg_i w' < 5 \<and> (\<forall>q < 4. counts (bw_ipi w') q = 0) \<and>
    (\<forall>h \<in> {1, 2, 3}. slots_of h 0 (bw_ipi w') = slots_of h 0 (bw_ipi w))"
proof (cases "counts (bw_ipi w) (sg_i w) = 0")
  case True
  then show ?thesis
    using assms by (auto simp: sgdma_idle_handler_def IPI_GetQueuePendingCount_def counts_def)
next
  case False
  then have "\<not> sg_i w < 4" using assms(3) by blast
  then have i: "sg_i w = 4" using assms(2) by simp
  obtain r d v where c: "IPI_ConsumeIntent sgdma_registry 0 4 IPI_MSG_SCATTERGATHER_DMA
      (bw_ipi w, w\<lparr>sg_machine := m\<rparr>) = Some (r, d, v)"
    and w': "w' = v\<lparr>bw_ipi := d, sg_i := (sg_i v + 1) mod 5\<rparr>"
    using assms(4) False i
    by (auto simp: sgdma_idle_handler_def IPI_GetQueuePendingCount_def counts_def bind_eq_Some_conv)
  have h: "distinct_harts 4 0" by (simp add: distinct_harts_def)
  have "ipi_wf d \<and> (\<forall>q < 4. counts d q = 0) \<and> (\<forall>h \<in> {1, 2, 3}. slots_of h 0 d = slots_of h 0 (bw_ipi w))"
  proof (cases "slot_take IPI_MSG_SCATTERGATHER_DMA (slots_of 4 0 (bw_ipi w))")
    case None
    then have "d = bw_ipi w"
      using consume_nothing [OF assms(1) h registry_ok_sgdma sgdma_registry_handler None] c by simp
    then show ?thesis using assms by simp
  next
    case (Some p)
    have q: "IPI_CalculateQueueIndex 4 0 = 16" by (simp add: IPI_CalculateQueueIndex_def)
    have "find_index (\<lambda>m. msg_type m = IPI_MSG_SCATTERGATHER_DMA) (slots_of 4 0 (bw_ipi w)) \<noteq> None"
      using Some by (auto simp: slot_take_def)
    then obtain k e d1 where e: "e = pre_consume 4 0 (bw_ipi w)"
      and d1: "\<exists>ty txid r. send_ack 0 4 ty txid r e = Some d1" and d: "d = clear_slot 16 k d1"
      using c registry_okD [OF registry_ok_sgdma, of IPI_MSG_SCATTERGATHER_DMA] sgdma_registry_handler
        ipi_wfD(1) [OF assms(1)]
      by (auto simp: IPI_ConsumeIntent_def HSS_SGDMA_IPIHandler_def pre_consume_def q Let_def bind_eq_Some_conv
          split: option.splits if_splits) blast
    have wfe: "ipi_wf e" unfolding e using assms(1) h by simp
    have h': "distinct_harts 0 4" by (simp add: distinct_harts_def)
    obtain ty txid r where sa: "send_ack 0 4 ty txid r e = Some d1" using d1 by blast
    have s: "ipi_wf d1" "\<forall>a b. distinct_harts a b \<longrightarrow> (a, b) \<noteq> (0, 4) \<longrightarrow> slots_of a b d1 = slots_of a b e"
      using send_ack_slots [OF wfe h', of ty txid r] sa by auto
    have "counts d q = 0" if "q < 4" for q
    proof -
      have "counts d q = counts e q" unfolding d using send_ack_counts [OF wfe h' sa, of q] that by simp
      then show ?thesis
        using assms(3) that ipi_wfD(1) [OF assms(1)] by (simp add: e pre_consume_def q)
    qed
    moreover have "slots_of h 0 d = slots_of h 0 (bw_ipi w)" if "h \<in> {1, 2, 3}" for h
    proof -
      have dh: "distinct_harts h 0" "(h, 0) \<noteq> (0, 4)" "(h, 0) \<noteq> (4, 0)" using that by (auto simp: distinct_harts_def)
      have "slots_of h 0 d = slots_of h 0 d1"
        unfolding d using clear_slot_slots(2) [OF s(1) h dh(1,3), of k] by (simp add: q)
      also have "\<dots> = slots_of h 0 e" using s(2) dh by blast
      also have "\<dots> = slots_of h 0 (bw_ipi w)"
        unfolding e using pre_consume_simps(4) dh(1) assms(1)
        by (simp add: distinct_harts_def queue_index_less ipi_wfD)
      finally show ?thesis .
    qed
    moreover have "ipi_wf d" unfolding d using clear_slot_wf [OF s(1), of 16] by simp
    ultimately show ?thesis by blast
  qed
  then show ?thesis by (simp add: w')
qed

text \<open>
  Requests from harts 1 to 3 are never looked at. The idle state asks for the number of
  messages pending in queue \<open>i\<close> where it means the queue of hart \<open>i\<close>; queues 0 to 3
  carry messages from the E51, whose counts only their receivers write. As long as these are 0,
  no pass of the idle state takes a message any of the three harts has sent, however many passes
  there are.
\<close>

theorem sgdma_requests_overlooked:
  assumes "ipi_wf (bw_ipi w)" "sg_i w < 5" "\<forall>q < 4. IPI_GetQueuePendingCount q (bw_ipi w) = 0"
    and "repeat_handler sgdma_idle_handler n m w = Some (m', w')" "h \<in> {1, 2, 3}"
  shows "slots_of h 0 (bw_ipi w') = slots_of h 0 (bw_ipi w)"
proof -
  have "ipi_wf (bw_ipi w) \<Longrightarrow> sg_i w < 5 \<Longrightarrow> \<forall>q < 4. counts (bw_ipi w) q = 0 \<Longrightarrow>
      repeat_handler sgdma_idle_handler n m w = Some (m', w') \<Longrightarrow>
      \<forall>h \<in> {1, 2, 3}. slots_of h 0 (bw_ipi w') = slots_of h 0 (bw_ipi w)"
  proof (induction n arbitrary: m w)
    case 0
    then show ?case by simp
  next
    case (Suc n)
    obtain m1 w1 where 1: "sgdma_idle_handler m w = Some (m1, w1)"
      "repeat_handler sgdma_idle_handler n m1 w1 = Some (m', w')"
      using Suc.prems(4) by (auto simp: bind_eq_Some_conv)
    note p = idle_pass [OF Suc.prems(1-3) 1(1)]
    show ?case using Suc.IH [OF _ _ _ 1(2)] p by simp
  qed
  then have "\<forall>h \<in> {1, 2, 3}. slots_of h 0 (bw_ipi w') = slots_of h 0 (bw_ipi w)"
    using assms by (simp add: IPI_GetQueuePendingCount_def counts_def)
  then show ?thesis using assms(5) by blast
qed

lemma repeat_3:
  "repeat_handler f 3 m w = do { (m, w) \<leftarrow> f m w; (m, w) \<leftarrow> f m w; f m w }"
proof -
  have "(\<lambda>(m, w). Some (m, w)) = (Some :: 'a \<times> 'b \<Rightarrow> ('a \<times> 'b) option)" by auto
  then show ?thesis unfolding numeral_3_eq_3 repeat_handler.simps by simp
qed

text \<open>Hart 2 has asked for a transfer and its queue has been polled: five passes later the request
  is still there.\<close>

definition sg_request :: IPI_Outbox_Msg where
  "sg_request = \<lparr>msg_type = IPI_MSG_SCATTERGATHER_DMA, transaction_id = 0, immediate_arg = 0,
     p_extended_buffer_in_ddr = 0x10000, p_ancilliary_buffer_in_ddr = 0\<rparr>"

definition sg_waiting :: Sgdma_World where
  "sg_waiting = sg_world\<lparr>bw_ipi := bus_init\<lparr>ipi_queues := (ipi_queues bus_init)[8 :=
     \<lparr>msgQ = sg_request # replicate 3 zero_Msg, qcount = 1\<rparr>]\<rparr>\<rparr>"

theorem sgdma_requests_overlooked_witness:
  "\<exists>m' w'. repeat_handler sgdma_idle_handler 3 (machine_init 3) sg_waiting = Some (m', w') \<and>
    IPI_GetQueuePendingCount 8 (bw_ipi sg_waiting) = 1 \<and> hd (slots_of 2 0 (bw_ipi w')) = sg_request"
proof -
  have c: "counts bus_init q = 0" if "q < 20" for q
    using that by (simp add: counts_def bus_init_def IPI_QueuesInit_def del: replicate.simps)
  have l: "length (ipi_queues bus_init) = 20" using ipi_wfD(1) [OF bus_init_wf] .
  have cw: "counts (bw_ipi sg_waiting) q = (if q = 8 then 1 else 0)" if "q < 20" for q
    using c that l by (simp add: sg_waiting_def counts_def)
  have pass: "sgdma_idle_handler m (sg_waiting\<lparr>sg_i := i\<rparr>) = Some (m, sg_waiting\<lparr>sg_i := (i + 1) mod 5\<rparr>)"
    if "i < 4" for i m
    using cw [of i] that by (simp add: sgdma_idle_handler_def IPI_GetQueuePendingCount_def counts_def)
  have w: "sg_waiting = sg_waiting\<lparr>sg_i := 1\<rparr>" by (simp add: sg_waiting_def sg_world_def)
  have "repeat_handler sgdma_idle_handler 3 (machine_init 3) (sg_waiting\<lparr>sg_i := 1\<rparr>) =
      Some (machine_init 3, sg_waiting\<lparr>sg_i := 4\<rparr>)"
    using pass [of 1] pass [of 2] pass [of 3] by (simp add: repeat_3 numeral_2_eq_2)
  then have run: "repeat_handler sgdma_idle_handler 3 (machine_init 3) sg_waiting =
      Some (machine_init 3, sg_waiting\<lparr>sg_i := 4\<rparr>)"
    unfolding w [symmetric] .
  have wf: "ipi_wf (bw_ipi sg_waiting)"
    using set_queue_wf [OF bus_init_wf, of "\<lparr>msgQ = sg_request # replicate 3 zero_Msg, qcount = 1\<rparr>" 8]
    by (simp add: sg_waiting_def)
  have "slots_of 2 0 (bw_ipi (sg_waiting\<lparr>sg_i := 4\<rparr>)) = slots_of 2 0 (bw_ipi sg_waiting)"
    by (rule sgdma_requests_overlooked [OF wf _ _ run])
      (use c in \<open>simp_all add: sg_waiting_def sg_world_def IPI_GetQueuePendingCount_def counts_def\<close>)
  then show ?thesis
    using run cw [of 8] l
    by (simp add: IPI_GetQueuePendingCount_def counts_def) (simp add: sg_waiting_def IPI_CalculateQueueIndex_def)
qed

end
