(* ===== verification/Monitors.thy ===== *)
theory Monitors
  imports Ddr Ipi_Bus
begin

text \<open>
  Two services that watch registers: the bus error unit, \<open>services/beu/beu_service.c\<close>, and
  the health monitor, \<open>services/healthmon/healthmon_service.c\<close>. What the hardware does to
  the registers between two passes is an input; what the services print is a log.
\<close>

section \<open>The bus error unit\<close>

record BEU_Regs =
  VALUE :: u64
  ENABLE :: u64
  ACCRUED :: u64

text \<open>The causes counted, in the order of \<open>beu_stats_\<close>; the numbers are those of the
  table in the service's comment.\<close>

definition beu_stats_bits :: "nat list" where
  "beu_stats_bits = [2, 3, 5, 6, 7]"

definition BEU_ENABLE_MASK :: u64 where "BEU_ENABLE_MASK = 0xEC"
definition BEU_ENABLE_UNCORRECTABLE_MASK :: u64 where "BEU_ENABLE_UNCORRECTABLE_MASK = 0x88"

datatype beu_report = Uncorrectable hart_id u64 u64 | Beu_Event hart_id nat

record Beu_World =
  beu_regs :: "BEU_Regs list"
  beu_counters :: "u64 list"
  shadow_value :: "u64 list"
  beu_log :: "beu_report list"

definition beu_init_hart :: "hart_id \<Rightarrow> Beu_World \<Rightarrow> Beu_World" where
  "beu_init_hart h w = w\<lparr>beu_regs := (beu_regs w)[h := \<lparr>VALUE = 0, ENABLE = BEU_ENABLE_MASK, ACCRUED = 0\<rparr>]\<rparr>"

definition beu_init_handler :: "Beu_World hook" where
  "beu_init_handler m w = Some (m\<lparr>state := state m + 1\<rparr>, foldl (\<lambda>w h. beu_init_hart h w) w [0..<5])"

text \<open>One turn of the inner loop: event \<open>i\<close> of the table, for the value of
  \<open>ACCRUED\<close> read at the start.\<close>

definition beu_count_event :: "hart_id \<Rightarrow> u64 \<Rightarrow> nat \<Rightarrow> Beu_World \<Rightarrow> Beu_World" where
  "beu_count_event h accrued i w =
     (if bit accrued (beu_stats_bits ! i) then
        w\<lparr>beu_counters := (beu_counters w)[i := beu_counters w ! i + 1],
          beu_regs := (beu_regs w)[h := (beu_regs w ! h)\<lparr>ACCRUED :=
            ACCRUED (beu_regs w ! h) AND NOT (push_bit (beu_stats_bits ! i) 1)\<rparr>],
          beu_log := beu_log w @ [Beu_Event h (beu_stats_bits ! i)]\<rparr>
      else w)"

definition beu_uncorrectable :: "hart_id \<Rightarrow> u64 \<Rightarrow> u64 \<Rightarrow> Beu_World \<Rightarrow> Beu_World" where
  "beu_uncorrectable h accrued value w =
     (if accrued AND BEU_ENABLE_UNCORRECTABLE_MASK \<noteq> 0 then
        let w = (if ENABLE (beu_regs w ! h) \<noteq> 0 \<and> value = shadow_value w ! h
                 then w\<lparr>beu_log := beu_log w @ [Uncorrectable h accrued value]\<rparr> else w)
        in w\<lparr>beu_regs := (beu_regs w)[h := (beu_regs w ! h)\<lparr>ENABLE := 0\<rparr>]\<rparr>
      else w)"

definition beu_check_hart :: "hart_id \<Rightarrow> Beu_World \<Rightarrow> Beu_World" where
  "beu_check_hart h w =
     (let accrued = ACCRUED (beu_regs w ! h); value = VALUE (beu_regs w ! h) in
      if accrued AND BEU_ENABLE_MASK \<noteq> 0 then
        let w = beu_uncorrectable h accrued value w;
            w = foldl (\<lambda>w i. beu_count_event h accrued i w) w [0..<length beu_stats_bits]
        in w\<lparr>shadow_value := (shadow_value w)[h := value]\<rparr>
      else w)"

definition beu_monitoring_handler :: "Beu_World hook" where
  "beu_monitoring_handler m w = Some (m, foldl (\<lambda>w h. beu_check_hart h w) w [0..<5])"

definition beu_state_descs :: "Beu_World StateDesc list" where
  "beu_state_descs =
     [\<lparr>sd_state = 0, state_onEntry = None, state_onExit = None, state_handler = Some beu_init_handler\<rparr>,
      \<lparr>sd_state = 1, state_onEntry = None, state_onExit = None, state_handler = Some beu_monitoring_handler\<rparr>]"

definition beu_service :: StateMachine where
  "beu_service = machine_init 2"

section \<open>The health monitor\<close>

datatype HealthMon_CheckType =
    ABOVE_THRESHOLD
  | BELOW_THRESHOLD
  | ABOVE_OR_BELOW_THRESHOLD
  | EQUAL_TO_VALUE
  | NOT_EQUAL_TO_VALUE
  | CHANGED_SINCE_LAST

record HealthMonitor =
  hm_pAddr :: u64
  hm_checkType :: HealthMon_CheckType
  maxValue :: u32
  minValue :: u32
  hm_shift :: nat
  hm_mask :: u64
  triggerCallback :: bool
  throttleScale :: u32

record HealthMonitor_Status =
  throttle_startTime :: u64
  lastValue :: u32
  hm_count :: u64
  hm_initialized :: bool

text \<open>\<open>hw_read\<close> is what the registers read at the present pass, \<open>hw_later\<close> the
  clock when a report is made.\<close>

record Health_World = Bus_World +
  monitor_status :: "HealthMonitor_Status list"
  hw_read :: "u64 \<Rightarrow> u32"
  hw_later :: u64
  hw_reports :: "(nat \<times> u32) list"
  hw_callbacks :: "u64 list"

definition sample_value :: "HealthMonitor \<Rightarrow> u32 \<Rightarrow> u32" where
  "sample_value mon v =
     (let v = (if hm_shift mon \<noteq> 0 then drop_bit (hm_shift mon) v else v)
      in if hm_mask mon \<noteq> 0 then ucast (ucast v AND hm_mask mon) else v)"

definition check_triggers :: "HealthMonitor \<Rightarrow> HealthMonitor_Status \<Rightarrow> u32 \<Rightarrow> bool" where
  "check_triggers mon st v =
     (case hm_checkType mon of
        ABOVE_THRESHOLD \<Rightarrow> v > maxValue mon
      | BELOW_THRESHOLD \<Rightarrow> v < minValue mon
      | ABOVE_OR_BELOW_THRESHOLD \<Rightarrow> v > maxValue mon \<or> v < minValue mon
      | EQUAL_TO_VALUE \<Rightarrow> v = maxValue mon
      | NOT_EQUAL_TO_VALUE \<Rightarrow> v \<noteq> maxValue mon
      | CHANGED_SINCE_LAST \<Rightarrow> hm_initialized st \<and> v \<noteq> lastValue st)"

text \<open>The body of the loop for monitor \<open>i\<close>.\<close>

definition check_monitor :: "nat \<Rightarrow> HealthMonitor \<Rightarrow> Health_World \<Rightarrow> Health_World" where
  "check_monitor i mon w =
     (let st = monitor_status w ! i in
      if HSS_Timer_IsElapsed (bw_now w) (throttle_startTime st) (ucast (throttleScale mon) * ONE_SEC) then
        let v = sample_value mon (hw_read w (hm_pAddr mon));
            triggered = check_triggers mon st v;
            st = (if hm_checkType mon = CHANGED_SINCE_LAST then st\<lparr>hm_initialized := True\<rparr> else st)
        in if triggered \<and> v \<noteq> lastValue st then
             w\<lparr>monitor_status := (monitor_status w)[i := st\<lparr>hm_count := hm_count st + 1,
                 throttle_startTime := hw_later w, lastValue := v\<rparr>],
               hw_reports := hw_reports w @ [(i, v)],
               hw_callbacks := hw_callbacks w @ (if triggerCallback mon then [hm_pAddr mon] else [])\<rparr>
           else w\<lparr>monitor_status := (monitor_status w)[i := st]\<rparr>
      else w)"

fun check_monitors :: "nat \<Rightarrow> HealthMonitor list \<Rightarrow> Health_World \<Rightarrow> Health_World" where
  "check_monitors i [] w = w"
| "check_monitors i (mon # ms) w = check_monitors (Suc i) ms (check_monitor i mon w)"

definition healthmon_init_handler :: "Health_World hook" where
  "healthmon_init_handler m w =
     Some (if HSS_Trigger_IsNotified True EVENT_DDR_TRAINED (bw_triggers w) \<and>
              HSS_Trigger_IsNotified True EVENT_STARTUP_COMPLETE (bw_triggers w) \<and>
              HSS_Trigger_IsNotified True EVENT_POST_BOOT (bw_triggers w)
           then m\<lparr>state := 1\<rparr> else m, w)"

definition healthmon_monitoring_handler :: "HealthMonitor list \<Rightarrow> Health_World hook" where
  "healthmon_monitoring_handler ms m w = Some (m, check_monitors 0 ms w)"

definition healthmon_state_descs :: "HealthMonitor list \<Rightarrow> Health_World StateDesc list" where
  "healthmon_state_descs ms =
     [\<lparr>sd_state = 0, state_onEntry = None, state_onExit = None, state_handler = Some healthmon_init_handler\<rparr>,
      \<lparr>sd_state = 1, state_onEntry = None, state_onExit = None,
        state_handler = Some (healthmon_monitoring_handler ms)\<rparr>]"

definition healthmon_service :: StateMachine where
  "healthmon_service = machine_init 2"

lemma length_healthmon [simp]: "length (healthmon_state_descs ms) = 2"
  by (simp add: healthmon_state_descs_def)

lemma check_monitor_length [simp]: "length (monitor_status (check_monitor i mon w)) = length (monitor_status w)"
  by (simp add: check_monitor_def Let_def)

lemma check_monitors_length [simp]: "length (monitor_status (check_monitors i ms w)) = length (monitor_status w)"
  by (induction i ms w rule: check_monitors.induct) simp_all

lemma healthmon_hooks:
  "hook_ok (healthmon_state_descs ms) (\<lambda>w. length (monitor_status w) = length ms) healthmon_init_handler"
  "hook_ok (healthmon_state_descs ms) (\<lambda>w. length (monitor_status w) = length ms) (healthmon_monitoring_handler ms)"
  by (rule hook_okI, simp add: healthmon_init_handler_def healthmon_monitoring_handler_def)+

interpretation health: service_machine "healthmon_state_descs ms" "\<lambda>w. length (monitor_status w) = length ms"
proof unfold_locales
  fix i :: nat assume "i < length (healthmon_state_descs ms)"
  then have "i = 0 \<or> i = 1" by auto
  then show "sd_state (healthmon_state_descs ms ! i) = int i" by (elim disjE) (simp_all add: healthmon_state_descs_def)
next
  fix d assume d: "d \<in> set (healthmon_state_descs ms)"
  show "desc_ok (healthmon_state_descs ms) (\<lambda>w. length (monitor_status w) = length ms) d"
    using d [unfolded healthmon_state_descs_def] healthmon_hooks [of ms] by (auto simp: desc_ok_entry)
qed

section \<open>What a pass of the bus error unit does\<close>

definition beu_ok :: "Beu_World \<Rightarrow> bool" where
  "beu_ok w \<longleftrightarrow> length (beu_regs w) = 5 \<and> length (beu_counters w) = 5 \<and> length (shadow_value w) = 5"

abbreviation (input) cause :: "nat \<Rightarrow> nat" where "cause i \<equiv> beu_stats_bits ! i"

lemma cause_less: "i < 5 \<Longrightarrow> cause i < 64"
  by (auto simp: beu_stats_bits_def less_Suc_eq numeral_eq_Suc)

lemma length_stats: "length beu_stats_bits = 5"
  by (simp add: beu_stats_bits_def)

lemma causes: "(\<exists>i < 5. n = cause i) \<longleftrightarrow> n \<in> {2, 3, 5, 6, 7}"
proof
  assume "\<exists>i < 5. n = cause i"
  then obtain i where "i < 5" "n = cause i" by blast
  then have "i = 0 \<or> i = 1 \<or> i = 2 \<or> i = 3 \<or> i = 4" "n = cause i" by auto
  then show "n \<in> {2, 3, 5, 6, 7}" by (elim disjE) (simp_all add: beu_stats_bits_def)
next
  assume "n \<in> {2, 3, 5, 6, 7}"
  then have "n = cause 0 \<or> n = cause 1 \<or> n = cause 2 \<or> n = cause 3 \<or> n = cause 4"
    by (simp add: beu_stats_bits_def)
  moreover have "(0 :: nat) < 5" "(1 :: nat) < 5" "(2 :: nat) < 5" "(3 :: nat) < 5" "(4 :: nat) < 5" by simp_all
  ultimately show "\<exists>i < 5. n = cause i" by blast
qed

lemma bit_enable_mask: "bit BEU_ENABLE_MASK n \<longleftrightarrow> (\<exists>i < 5. n = cause i)"
  unfolding causes
proof (cases "n < 8")
  case True
  then have "n = 0 \<or> n = 1 \<or> n = 2 \<or> n = 3 \<or> n = 4 \<or> n = 5 \<or> n = 6 \<or> n = 7" by auto
  then show "bit BEU_ENABLE_MASK n \<longleftrightarrow> n \<in> {2, 3, 5, 6, 7}"
    by (elim disjE) (simp_all add: BEU_ENABLE_MASK_def bit_numeral_rec)
next
  case False
  then obtain k where "n = k + 8" by (metis add.commute le_Suc_ex not_less)
  then show "bit BEU_ENABLE_MASK n \<longleftrightarrow> n \<in> {2, 3, 5, 6, 7}"
    by (simp add: BEU_ENABLE_MASK_def bit_numeral_rec numeral_eq_Suc)
qed

lemma bit_push_64: "n < 64 \<Longrightarrow> bit (push_bit p (1 :: u64)) n \<longleftrightarrow> n = p"
  by (auto simp: bit_exp_iff)

lemma beu_count_event_spec:
  assumes "beu_ok w" "h < 5" "i < 5"
  shows "beu_ok (beu_count_event h a i w) \<and>
    beu_counters (beu_count_event h a i w) = (beu_counters w)[i := beu_counters w ! i + of_bool (bit a (cause i))] \<and>
    (\<forall>g. g \<noteq> h \<longrightarrow> beu_regs (beu_count_event h a i w) ! g = beu_regs w ! g) \<and>
    beu_regs (beu_count_event h a i w) ! h = (beu_regs w ! h)\<lparr>ACCRUED :=
      if bit a (cause i) then ACCRUED (beu_regs w ! h) AND NOT (push_bit (cause i) 1) else ACCRUED (beu_regs w ! h)\<rparr>"
  using assms by (auto simp: beu_count_event_def beu_ok_def)

lemma beu_count_events:
  assumes "beu_ok w" "h < 5" "distinct js" "\<forall>i \<in> set js. i < 5"
  shows "beu_ok (foldl (\<lambda>w i. beu_count_event h a i w) w js) \<and>
    (\<forall>i < 5. beu_counters (foldl (\<lambda>w i. beu_count_event h a i w) w js) ! i =
       beu_counters w ! i + of_bool (i \<in> set js \<and> bit a (cause i))) \<and>
    (\<forall>g. g \<noteq> h \<longrightarrow> beu_regs (foldl (\<lambda>w i. beu_count_event h a i w) w js) ! g = beu_regs w ! g) \<and>
    VALUE (beu_regs (foldl (\<lambda>w i. beu_count_event h a i w) w js) ! h) = VALUE (beu_regs w ! h) \<and>
    ENABLE (beu_regs (foldl (\<lambda>w i. beu_count_event h a i w) w js) ! h) = ENABLE (beu_regs w ! h) \<and>
    (\<forall>n < 64. bit (ACCRUED (beu_regs (foldl (\<lambda>w i. beu_count_event h a i w) w js) ! h)) n \<longleftrightarrow>
       bit (ACCRUED (beu_regs w ! h)) n \<and> \<not> (\<exists>i \<in> set js. bit a (cause i) \<and> n = cause i))"
  using assms
proof (induction "js" arbitrary: w)
  case Nil
  then show ?case by simp
next
  case (Cons i js)
  have i: "i < 5" "distinct js" "i \<notin> set js" "\<forall>i \<in> set js. i < 5" using Cons.prems by auto
  note one = beu_count_event_spec [OF Cons.prems(1,2) i(1), of a]
  let ?w = "beu_count_event h a i w"
  have l: "length (beu_counters w) = 5" using Cons.prems(1) by (simp add: beu_ok_def)
  note IH = Cons.IH [OF conjunct1 [OF one] Cons.prems(2) i(2,4)]
  have c: "beu_counters ?w ! j = beu_counters w ! j + of_bool (j = i \<and> bit a (cause i))" if "j < 5" for j
    using one that l by (auto simp: nth_list_update)
  have b: "bit (ACCRUED (beu_regs ?w ! h)) n \<longleftrightarrow> bit (ACCRUED (beu_regs w ! h)) n \<and> \<not> (bit a (cause i) \<and> n = cause i)"
    if "n < 64" for n
    using one bit_push_64 [OF that, of "cause i"] that by (auto simp: bit_and_iff bit_not_iff simp del: push_bit_of_1)
  show ?case unfolding foldl_Cons
    using IH c b one i(3) by (auto simp: of_bool_def)
qed

text \<open>One hart: what it had accrued, and what is left.\<close>

definition hart_checked :: "Beu_World \<Rightarrow> Beu_World \<Rightarrow> hart_id \<Rightarrow> bool" where
  "hart_checked w w' h \<longleftrightarrow> (let r = beu_regs w ! h; r' = beu_regs w' ! h in
     VALUE r' = VALUE r \<and> ACCRUED r' = ACCRUED r AND NOT BEU_ENABLE_MASK \<and>
     ENABLE r' = (if ACCRUED r AND BEU_ENABLE_UNCORRECTABLE_MASK \<noteq> 0 then 0 else ENABLE r))"

lemma beu_uncorrectable_spec:
  assumes "beu_ok w" "h < 5"
  shows "beu_ok (beu_uncorrectable h a v w) \<and> beu_counters (beu_uncorrectable h a v w) = beu_counters w \<and>
    (\<forall>g. g \<noteq> h \<longrightarrow> beu_regs (beu_uncorrectable h a v w) ! g = beu_regs w ! g) \<and>
    beu_regs (beu_uncorrectable h a v w) ! h = (beu_regs w ! h)\<lparr>ENABLE :=
      if a AND BEU_ENABLE_UNCORRECTABLE_MASK \<noteq> 0 then 0 else ENABLE (beu_regs w ! h)\<rparr>"
  using assms by (auto simp: beu_uncorrectable_def beu_ok_def Let_def)

lemma uncorrectable_enabled: "a AND BEU_ENABLE_UNCORRECTABLE_MASK \<noteq> 0 \<Longrightarrow> a AND BEU_ENABLE_MASK \<noteq> 0"
proof (rule notI)
  assume "a AND BEU_ENABLE_MASK = 0"
  then have "a AND (BEU_ENABLE_MASK AND BEU_ENABLE_UNCORRECTABLE_MASK) = 0" by (simp flip: and.assoc)
  moreover assume "a AND BEU_ENABLE_UNCORRECTABLE_MASK \<noteq> 0"
  ultimately show False by (simp add: BEU_ENABLE_MASK_def BEU_ENABLE_UNCORRECTABLE_MASK_def)
qed

lemma beu_check_hart_spec:
  assumes "beu_ok w" "h < 5"
  shows "beu_ok (beu_check_hart h w) \<and> hart_checked w (beu_check_hart h w) h \<and>
    (\<forall>g. g \<noteq> h \<longrightarrow> beu_regs (beu_check_hart h w) ! g = beu_regs w ! g) \<and>
    (\<forall>i < 5. beu_counters (beu_check_hart h w) ! i =
       beu_counters w ! i + of_bool (bit (ACCRUED (beu_regs w ! h)) (cause i)))"
proof (cases "ACCRUED (beu_regs w ! h) AND BEU_ENABLE_MASK = 0")
  case True
  have none: "\<not> bit (ACCRUED (beu_regs w ! h)) (cause i)" if "i < 5" for i
  proof
    assume "bit (ACCRUED (beu_regs w ! h)) (cause i)"
    then have "bit (ACCRUED (beu_regs w ! h) AND BEU_ENABLE_MASK) (cause i)"
      using that unfolding bit_and_iff bit_enable_mask by blast
    then show False using True by simp
  qed
  have "ACCRUED (beu_regs w ! h) = ACCRUED (beu_regs w ! h) AND NOT BEU_ENABLE_MASK"
  proof (rule bit_word_eqI)
    fix n assume "n < LENGTH(64)"
    then show "bit (ACCRUED (beu_regs w ! h)) n = bit (ACCRUED (beu_regs w ! h) AND NOT BEU_ENABLE_MASK) n"
      using none by (auto simp: bit_and_iff bit_not_iff bit_enable_mask)
  qed
  then show ?thesis
    using True none assms uncorrectable_enabled [of "ACCRUED (beu_regs w ! h)"]
    by (auto simp: beu_check_hart_def hart_checked_def Let_def)
next
  case False
  let ?a = "ACCRUED (beu_regs w ! h)" and ?v = "VALUE (beu_regs w ! h)"
  let ?u = "beu_uncorrectable h ?a ?v w"
  let ?c = "foldl (\<lambda>w i. beu_count_event h ?a i w) ?u [0..<5]"
  have run: "beu_check_hart h w = ?c\<lparr>shadow_value := (shadow_value ?c)[h := ?v]\<rparr>"
    using False by (simp add: beu_check_hart_def Let_def length_stats del: upt_Suc upt_rec_numeral)
  note u = beu_uncorrectable_spec [OF assms, of ?a ?v]
  note c = beu_count_events [OF conjunct1 [OF u] assms(2), of "[0..<5]" ?a]
  have acc: "ACCRUED (beu_regs ?c ! h) = ?a AND NOT BEU_ENABLE_MASK"
  proof (rule bit_word_eqI)
    fix n assume "n < LENGTH(64)"
    then show "bit (ACCRUED (beu_regs ?c ! h)) n = bit (?a AND NOT BEU_ENABLE_MASK) n"
      using c u by (auto simp: bit_and_iff bit_not_iff bit_enable_mask simp del: upt_Suc upt_rec_numeral)
  qed
  show ?thesis unfolding run
    using c u acc by (auto simp: hart_checked_def Let_def beu_ok_def simp del: upt_Suc upt_rec_numeral)
qed

lemma beu_check_harts:
  assumes "beu_ok w" "distinct hs" "\<forall>h \<in> set hs. h < 5"
  shows "beu_ok (foldl (\<lambda>w h. beu_check_hart h w) w hs) \<and>
    (\<forall>h. if h \<in> set hs then hart_checked w (foldl (\<lambda>w h. beu_check_hart h w) w hs) h
          else beu_regs (foldl (\<lambda>w h. beu_check_hart h w) w hs) ! h = beu_regs w ! h) \<and>
    (\<forall>i < 5. beu_counters (foldl (\<lambda>w h. beu_check_hart h w) w hs) ! i =
       beu_counters w ! i + of_nat (card {h \<in> set hs. bit (ACCRUED (beu_regs w ! h)) (cause i)}))"
  using assms
proof (induction hs arbitrary: w)
  case Nil
  then show ?case by simp
next
  case (Cons h hs)
  have h: "h < 5" "distinct hs" "h \<notin> set hs" "\<forall>h \<in> set hs. h < 5" using Cons.prems by auto
  let ?w = "beu_check_hart h w"
  note one = beu_check_hart_spec [OF Cons.prems(1) h(1)]
  note IH = Cons.IH [OF conjunct1 [OF one] h(2,4)]
  have same: "beu_regs ?w ! g = beu_regs w ! g" if "g \<noteq> h" for g using one that by blast
  have same': "beu_regs ?w ! g = beu_regs w ! g" if "g \<in> set hs" for g using same h(3) that by metis
  have "{g \<in> set (h # hs). bit (ACCRUED (beu_regs w ! g)) (cause i)} =
      (if bit (ACCRUED (beu_regs w ! h)) (cause i) then {h} else {}) \<union>
      {g \<in> set hs. bit (ACCRUED (beu_regs ?w ! g)) (cause i)}" for i
    using same' by auto
  then have card: "card {g \<in> set (h # hs). bit (ACCRUED (beu_regs w ! g)) (cause i)} =
      of_bool (bit (ACCRUED (beu_regs w ! h)) (cause i)) + card {g \<in> set hs. bit (ACCRUED (beu_regs ?w ! g)) (cause i)}" for i
    using h(3) by simp
  have "if g \<in> set (h # hs) then hart_checked w (foldl (\<lambda>w h. beu_check_hart h w) ?w hs) g
        else beu_regs (foldl (\<lambda>w h. beu_check_hart h w) ?w hs) ! g = beu_regs w ! g" for g
  proof (cases "g = h")
    case True
    then have "beu_regs (foldl (\<lambda>w h. beu_check_hart h w) ?w hs) ! g = beu_regs ?w ! g" using IH h(3) by metis
    then show ?thesis using one True by (simp add: hart_checked_def)
  next
    case False
    have "if g \<in> set hs then hart_checked ?w (foldl (\<lambda>w h. beu_check_hart h w) ?w hs) g
        else beu_regs (foldl (\<lambda>w h. beu_check_hart h w) ?w hs) ! g = beu_regs ?w ! g" using IH by blast
    moreover have "hart_checked ?w v g = hart_checked w v g" for v by (simp only: hart_checked_def same [OF False])
    ultimately show ?thesis using False same [OF False] by (auto split: if_splits)
  qed
  then show ?case unfolding foldl_Cons using IH one card by auto
qed


definition beu_world :: Beu_World where
  "beu_world = \<lparr>beu_regs = map (\<lambda>a. \<lparr>VALUE = 7, ENABLE = BEU_ENABLE_MASK, ACCRUED = a\<rparr>) [0x04, 0, 0x88, 0x05, 0],
     beu_counters = replicate 5 0, shadow_value = replicate 5 0, beu_log = []\<rparr>"


section \<open>What the health monitor reports\<close>

text \<open>A single monitor without throttle at the passes whose readings are given.\<close>

fun watch :: "HealthMonitor \<Rightarrow> u32 list \<Rightarrow> Health_World \<Rightarrow> Health_World" where
  "watch mon [] w = w"
| "watch mon (v # vs) w = watch mon vs (check_monitor 0 mon (w\<lparr>hw_read := (\<lambda>_. v)\<rparr>))"

text \<open>Of a steady non-zero reading after the first, with no throttle, the second pass reports a
  change; from then on the monitor is silent as long as the reading stays.\<close>

lemma check_monitor_change:
  assumes "hm_checkType mon = CHANGED_SINCE_LAST" "monitor_status w = [st]"
    and "HSS_Timer_IsElapsed (bw_now w) (throttle_startTime st) (ucast (throttleScale mon) * ONE_SEC)"
    and "sample_value mon (hw_read w (hm_pAddr mon)) = v"
  shows "check_monitor 0 mon w = (if hm_initialized st \<and> v \<noteq> lastValue st
     then w\<lparr>monitor_status := [st\<lparr>hm_count := hm_count st + 1, throttle_startTime := hw_later w, lastValue := v\<rparr>],
       hw_reports := hw_reports w @ [(0, v)],
       hw_callbacks := hw_callbacks w @ (if triggerCallback mon then [hm_pAddr mon] else [])\<rparr>
     else w\<lparr>monitor_status := [st\<lparr>hm_initialized := True\<rparr>]\<rparr>)"
  using assms by (auto simp: check_monitor_def check_triggers_def Let_def)

text \<open>
  A register that never changes is reported as changed: the first sample of a monitor of
  type \<open>CHANGED_SINCE_LAST\<close> marks it initialised without recording the value, and the second,
  equal one is compared with the initial 0. Without throttle and with a clock that moves, a
  steady non-zero reading is reported exactly once, at the second of any number of passes.
\<close>

theorem healthmon_reports_steady_value:
  assumes "hm_checkType mon = CHANGED_SINCE_LAST" "throttleScale mon = 0" "v = sample_value mon r" "v \<noteq> 0"
    and "monitor_status w = [\<lparr>throttle_startTime = 0, lastValue = 0, hm_count = 0, hm_initialized = False\<rparr>]"
    and "0 < bw_now w" "hw_later w < bw_now w"
  shows "hw_reports (watch mon (replicate n r) w) = hw_reports w @ (if n < 2 then [] else [(0, v)])"
proof -
  have elapsed: "HSS_Timer_IsElapsed (bw_now u) (throttle_startTime st) (ucast (throttleScale mon) * ONE_SEC)"
    if "bw_now u = bw_now w" "throttle_startTime st < bw_now w" for u st
    using that assms(2) by (simp add: HSS_Timer_IsElapsed_def)
  have quiet: "hw_reports (watch mon (replicate n r) u) = hw_reports u"
    if "monitor_status u = [st]" "hm_initialized st" "lastValue st = v" "throttle_startTime st < bw_now w"
      "bw_now u = bw_now w" for n u st
    using that
  proof (induction n arbitrary: u st)
    case 0
    then show ?case by simp
  next
    case (Suc n)
    let ?u = "u\<lparr>hw_read := (\<lambda>_. r)\<rparr>"
    have "check_monitor 0 mon ?u = ?u\<lparr>monitor_status := [st\<lparr>hm_initialized := True\<rparr>]\<rparr>"
      using check_monitor_change [OF assms(1), of ?u st v] elapsed [of ?u st] Suc.prems assms(3) by simp
    then show ?case
      using Suc.IH [of "?u\<lparr>monitor_status := [st\<lparr>hm_initialized := True\<rparr>]\<rparr>" "st\<lparr>hm_initialized := True\<rparr>"] Suc.prems
      by simp
  qed
  let ?w = "w\<lparr>hw_read := (\<lambda>_. r)\<rparr>"
    and ?st = "\<lparr>throttle_startTime = 0, lastValue = 0, hm_count = 0, hm_initialized = False\<rparr>"
  have first: "check_monitor 0 mon ?w = ?w\<lparr>monitor_status := [?st\<lparr>hm_initialized := True\<rparr>]\<rparr>"
    using check_monitor_change [OF assms(1), of ?w ?st v] elapsed [of ?w ?st] assms(3,5,6) by simp
  let ?w1 = "?w\<lparr>monitor_status := [?st\<lparr>hm_initialized := True\<rparr>]\<rparr>"
    and ?st2 = "?st\<lparr>hm_initialized := True, hm_count := 1, throttle_startTime := hw_later w, lastValue := v\<rparr>"
  have second: "check_monitor 0 mon (?w1\<lparr>hw_read := (\<lambda>_. r)\<rparr>) = (?w1\<lparr>hw_read := (\<lambda>_. r)\<rparr>)\<lparr>monitor_status := [?st2],
      hw_reports := hw_reports w @ [(0, v)],
      hw_callbacks := hw_callbacks w @ (if triggerCallback mon then [hm_pAddr mon] else [])\<rparr>"
    using check_monitor_change [OF assms(1), of "?w1\<lparr>hw_read := (\<lambda>_. r)\<rparr>" "?st\<lparr>hm_initialized := True\<rparr>" v]
      elapsed [of "?w1\<lparr>hw_read := (\<lambda>_. r)\<rparr>" "?st\<lparr>hm_initialized := True\<rparr>"] assms(3,4,6) by simp
  consider "n = 0" | "n = 1" | k where "n = Suc (Suc k)" by (metis One_nat_def not0_implies_Suc)
  then show ?thesis
  proof cases
    case 1
    then show ?thesis by simp
  next
    case 2
    then show ?thesis using first by simp
  next
    case 3
    then show ?thesis
      using first second quiet [of "(?w1\<lparr>hw_read := (\<lambda>_. r)\<rparr>)\<lparr>monitor_status := [?st2], hw_reports := hw_reports w @ [(0, v)],
        hw_callbacks := hw_callbacks w @ (if triggerCallback mon then [hm_pAddr mon] else [])\<rparr>" ?st2 k] assms(7)
      by simp
  qed
qed

theorem healthmon_reports_steady_value_witness:
  "hw_reports (watch \<lparr>hm_pAddr = 0x20001000, hm_checkType = CHANGED_SINCE_LAST, maxValue = 0, minValue = 0, hm_shift = 4,
      hm_mask = 0xFF, triggerCallback = False, throttleScale = 0\<rparr> (replicate 4 0x120)
    \<lparr>bw_ipi = bus_init, bw_triggers = triggerStatus_init, bw_now = 9,
      monitor_status = [\<lparr>throttle_startTime = 0, lastValue = 0, hm_count = 0, hm_initialized = False\<rparr>],
      hw_read = (\<lambda>_. 0), hw_later = 8, hw_reports = [], hw_callbacks = []\<rparr>) = [(0, 0x12)]"
  by (subst healthmon_reports_steady_value [where v = "0x12"]) (simp_all add: sample_value_def Let_def)

end
