(* ===== verification/Mmc.thy ===== *)
theory Mmc
  imports Memcpy Gpt
begin

text \<open>
  Reading and writing the card, \<open>services/mmc/mmc_api.c\<close>. The vendor's driver is a
  parameter: what its blocking transfers return once their interrupts have been served. The
  locale \<open>block_storage\<close> is what the boot code expects of a storage: a read that is aligned
  and within the limits returns the bytes of the medium.
\<close>

section \<open>The driver\<close>

abbreviation (input) HSS_MMC_SECTOR_SIZE :: u64 where "HSS_MMC_SECTOR_SIZE \<equiv> 512"

text \<open>\<open>MSS_MMC_sdma_read sector size\<close>, and \<open>MSS_MMC_single_block_write\<close> and
  \<open>MSS_MMC_sdma_write\<close> on a medium \<open>'d\<close>.\<close>

type_synonym sdma_read = "u32 \<Rightarrow> u32 \<Rightarrow> bool \<times> u8 list"
type_synonym 'd block_write = "u8 list \<Rightarrow> u32 \<Rightarrow> 'd \<Rightarrow> bool \<times> 'd"
type_synonym 'd sdma_write = "u8 list \<Rightarrow> u32 \<Rightarrow> u32 \<Rightarrow> 'd \<Rightarrow> bool \<times> 'd"

section \<open>Operations\<close>

text \<open>The medium the user selected; the initialisation itself is the driver's.\<close>

datatype mmc_medium = MMC_SELECT_SDCARD_FALLBACK_EMMC | MMC_SELECT_SDCARD_ONLY | MMC_SELECT_EMMC_ONLY

definition mmc_init_common :: "bool \<Rightarrow> bool \<Rightarrow> bool" where
  "mmc_init_common first_try second_try \<longleftrightarrow> (if \<not> first_try then second_try else first_try)"

definition HSS_MMCInit :: "mmc_medium \<Rightarrow> bool \<Rightarrow> bool \<Rightarrow> bool" where
  "HSS_MMCInit medium first_try second_try \<longleftrightarrow>
     (medium = MMC_SELECT_SDCARD_ONLY \<or> medium = MMC_SELECT_SDCARD_FALLBACK_EMMC) \<and>
     mmc_init_common first_try second_try"

text \<open>Selecting the SD card runs the initialisation only when the selection changes; the other
  two selections are compiled out with an SD card as the only medium.\<close>

definition HSS_MMC_SelectSDCARD :: "mmc_medium \<Rightarrow> mmc_medium \<times> bool" where
  "HSS_MMC_SelectSDCARD medium = (MMC_SELECT_SDCARD_ONLY, medium \<noteq> MMC_SELECT_SDCARD_ONLY)"

text \<open>The bytes \<open>HSS_MMC_ReadBlock\<close> puts at its destination. \<open>sectorByteCount\<close> is
  32 bits wide; the remainder is read through a sector buffer.\<close>

definition HSS_MMC_ReadBlock :: "sdma_read \<Rightarrow> u64 \<Rightarrow> u64 \<Rightarrow> u64 \<Rightarrow> (bool \<times> u8 list) option" where
  "HSS_MMC_ReadBlock sdma dest srcOffset byteCount = do {
     require (srcOffset AND (HSS_MMC_SECTOR_SIZE - 1) = 0);
     require (dest AND 3 = 0);
     let src_sector_num = (ucast (srcOffset div HSS_MMC_SECTOR_SIZE) :: u32);
     let sectorByteCount = (ucast (byteCount - byteCount mod HSS_MMC_SECTOR_SIZE) :: u32);
     let (ok, bs) = sdma src_sector_num sectorByteCount;
     let byteCount = byteCount - ucast sectorByteCount;
     if ok \<and> byteCount \<noteq> 0 then do {
       require (byteCount < HSS_MMC_SECTOR_SIZE);
       let (ok, runt) = sdma (src_sector_num + ucast (sectorByteCount div 512)) 512;
       Some (ok, if ok then bs @ take (unat byteCount) runt else bs) }
     else Some (ok, bs) }"

text \<open>The loop of \<open>HSS_MMC_WriteBlock\<close>, sector by sector.\<close>

fun write_sectors :: "'d block_write \<Rightarrow> u8 list \<Rightarrow> u32 \<Rightarrow> nat \<Rightarrow> 'd \<Rightarrow> bool \<times> 'd" where
  "write_sectors wr bs dst_sector_num 0 d = (True, d)"
| "write_sectors wr bs dst_sector_num (Suc n) d =
     (let (ok, d) = wr (take 512 bs) dst_sector_num d
      in if ok then write_sectors wr (drop 512 bs) (dst_sector_num + 1) n d else (False, d))"

definition round_up_sector :: "u64 \<Rightarrow> u64" where
  "round_up_sector byteCount =
     (if byteCount AND (HSS_MMC_SECTOR_SIZE - 1) \<noteq> 0
      then (byteCount + HSS_MMC_SECTOR_SIZE) AND NOT (HSS_MMC_SECTOR_SIZE - 1) else byteCount)"

definition HSS_MMC_WriteBlock :: "'d block_write \<Rightarrow> u64 \<Rightarrow> u64 \<Rightarrow> u64 \<Rightarrow> memory \<Rightarrow> 'd \<Rightarrow> (bool \<times> 'd) option" where
  "HSS_MMC_WriteBlock wr dstOffset src byteCount m d = do {
     let byteCount = round_up_sector byteCount;
     require (dstOffset AND (HSS_MMC_SECTOR_SIZE - 1) = 0);
     require (src AND 3 = 0);
     require (byteCount AND (HSS_MMC_SECTOR_SIZE - 1) = 0);
     Some (write_sectors wr (mem_read m src (unat byteCount)) (ucast (dstOffset div HSS_MMC_SECTOR_SIZE))
             (unat byteCount div 512) d) }"

definition HSS_MMC_WriteBlockSDMA :: "'d sdma_write \<Rightarrow> u64 \<Rightarrow> u64 \<Rightarrow> u64 \<Rightarrow> memory \<Rightarrow> 'd \<Rightarrow> (bool \<times> 'd) option" where
  "HSS_MMC_WriteBlockSDMA wr dstOffset src byteCount m d = do {
     let byteCount = round_up_sector byteCount;
     require (dstOffset AND (HSS_MMC_SECTOR_SIZE - 1) = 0);
     require (src AND 3 = 0);
     require (byteCount AND (HSS_MMC_SECTOR_SIZE - 1) = 0);
     Some (wr (mem_read m src (unat byteCount)) (ucast (dstOffset div HSS_MMC_SECTOR_SIZE)) (ucast byteCount) d) }"

section \<open>The interface\<close>

text \<open>What the driver's documentation and code promise: transfers of whole sectors, at least
  one and less than 32 MiB, return the medium's bytes; others are refused.\<close>

definition sdma_serves :: "sdma_read \<Rightarrow> (nat \<Rightarrow> u8) \<Rightarrow> bool" where
  "sdma_serves sdma disk \<longleftrightarrow> (\<forall>s n.
     if unat n mod 512 = 0 \<and> 0 < unat n \<and> unat n \<le> 33554432 - 512
     then sdma s n = (True, map disk [512 * unat s ..< 512 * unat s + unat n])
     else \<not> fst (sdma s n))"

lemma map_upt_split: "map f [a ..< a + b] @ map f [a + b ..< a + b + r] = map f [a ..< a + (b + r)]"
proof -
  have "[a ..< a + (b + r)] = [a ..< a + b] @ [a + b ..< a + b + r]"
    using upt_add_eq_append [of a "a + b" r] by (simp only: add.assoc le_add1)
  then show ?thesis by (simp only: map_append)
qed

locale block_storage =
  fixes read :: "u64 \<Rightarrow> u64 \<Rightarrow> (bool \<times> u8 list) option"
    and disk :: "nat \<Rightarrow> u8"
    and limit :: nat
  assumes reads: "unat off mod 512 = 0 \<Longrightarrow> unat off < 2 ^ 40 \<Longrightarrow> 512 \<le> unat n \<Longrightarrow> unat n < limit \<Longrightarrow>
    read off n = Some (True, map disk [unat off ..< unat off + unat n])"
    and limit_small: "limit \<le> 2 ^ 40"
begin

text \<open>Two reads that follow each other are one.\<close>

lemma read_pieces:
  assumes "unat off mod 512 = 0" "unat n mod 512 = 0" "512 \<le> unat n" "512 \<le> unat k"
    and "unat off + unat n < 2 ^ 40" "unat n + unat k < limit"
  shows "\<exists>xs ys. read off n = Some (True, xs) \<and> read (off + n) k = Some (True, ys) \<and>
    read off (n + k) = Some (True, xs @ ys)"
proof -
  have s: "unat (off + n) = unat off + unat n" "unat (n + k) = unat n + unat k"
    using assms(5,6) limit_small by (simp_all add: unat_word_ariths)
  have m: "(unat off + unat n) mod 512 = 0" using assms(1,2) by (metis mod_add_eq add_0 mod_0)
  have "read off n = Some (True, map disk [unat off ..< unat off + unat n])"
    using reads [of off n] assms by simp
  moreover have "read (off + n) k = Some (True, map disk [unat off + unat n ..< unat off + unat n + unat k])"
    using reads [of "off + n" k] assms m by (simp add: s)
  moreover have "read off (n + k) = Some (True, map disk [unat off ..< unat off + (unat n + unat k)])"
    using reads [of off "n + k"] assms by (simp add: s)
  moreover have "map disk [unat off ..< unat off + (unat n + unat k)] =
      map disk [unat off ..< unat off + unat n] @ map disk [unat off + unat n ..< unat off + unat n + unat k]"
    by (simp only: map_upt_split)
  ultimately show ?thesis by metis
qed

end

section \<open>The card provides it\<close>

lemma and_511: "(x :: u64) AND 511 = 0 \<longleftrightarrow> unat x mod 512 = 0"
proof -
  have "x AND 511 = take_bit 9 x" by (simp add: take_bit_eq_mask mask_numeral)
  moreover have "unat (take_bit 9 x) = unat x mod 512"
    by (simp add: take_bit_eq_mod unat_mod)
  ultimately show ?thesis by (metis unat_eq_0 unsigned_0)
qed

lemma unat_ucast_up: "unat (ucast (c :: u32) :: u64) = unat c"
proof -
  have "unat c < 2 ^ 32" using unsigned_less [of c] by simp
  then show ?thesis by (simp add: unsigned_ucast_eq take_bit_nat_eq_self)
qed

lemma mmc_reads:
  assumes "sdma_serves sdma disk" "dest AND 3 = 0"
    and "unat off mod 512 = 0" "unat off < 2 ^ 40" "512 \<le> unat n" "unat n < 33554432"
  shows "HSS_MMC_ReadBlock sdma dest off n = Some (True, map disk [unat off ..< unat off + unat n])"
proof -
  let ?s = "ucast (off div 512) :: u32" and ?c = "ucast (n - n mod 512) :: u32"
  have sec: "unat ?s = unat off div 512"
  proof -
    have "unat off div 512 < 2 ^ 32" using assms(4) by (simp add: div_less_iff_less_mult)
    then show ?thesis by (simp add: unsigned_ucast_eq unat_div take_bit_nat_eq_self)
  qed
  have cnt: "unat ?c = unat n - unat n mod 512"
  proof -
    have "unat n mod 512 \<le> unat n" by simp
    then have "unat (n - n mod 512) = unat n - unat n mod 512"
      by (simp add: unat_sub_if_size unat_mod)
    moreover have "unat n - unat n mod 512 < 2 ^ 32" using assms(6) by simp
    ultimately show ?thesis by (simp add: unsigned_ucast_eq take_bit_nat_eq_self)
  qed
  have whole: "sdma ?s ?c = (True, map disk [unat off ..< unat off + unat ?c])"
  proof -
    have "unat ?c mod 512 = 0" "0 < unat ?c" "unat ?c \<le> 33554432 - 512"
      unfolding cnt using assms(5,6) by (simp_all add: minus_mod_eq_mult_div)
    then have "sdma ?s ?c = (True, map disk [512 * unat ?s ..< 512 * unat ?s + unat ?c])"
      using assms(1) unfolding sdma_serves_def by meson
    moreover have "512 * unat ?s = unat off" unfolding sec using assms(3) mult_div_mod_eq [of 512 "unat off"] by simp
    ultimately show ?thesis by simp
  qed
  have al: "off AND 511 = 0" using assms(3) and_511 by simp
  have cn: "unat ?c \<le> unat n" unfolding cnt by simp
  have uc: "unat (ucast ?c :: u64) = unat ?c" by (rule unat_ucast_up)
  have rem: "unat (n - ucast ?c) = unat n mod 512"
    using cn by (simp add: unat_sub_if_size uc cnt)
  show ?thesis
  proof (cases "unat n mod 512 = 0")
    case True
    then have "n - ucast ?c = 0" using rem by (metis unat_eq_0 unsigned_0)
    then show ?thesis
      using al assms(2) whole True cnt by (simp add: HSS_MMC_ReadBlock_def Let_def require_def)
  next
    case False
    then have nz: "n - ucast ?c \<noteq> 0" using rem by (metis unsigned_0)
    have lt: "n - ucast ?c < 512" unfolding word_less_nat_alt rem by simp
    let ?t = "?s + ucast (?c div 512)"
    have t: "unat ?t = unat off div 512 + unat ?c div 512"
    proof -
      have "unat off div 512 < 2 ^ 31" "unat ?c div 512 < 2 ^ 31"
        using assms(4,6) cn by (simp_all add: div_less_iff_less_mult)
      moreover have "(2 :: nat) ^ 31 + 2 ^ 31 = 2 ^ 32" by simp
      ultimately have "unat off div 512 + unat ?c div 512 < 2 ^ 32" by linarith
      moreover have "unat (x + ucast (y div 512)) = unat x + unat y div 512"
        if "unat x + unat y div 512 < 2 ^ 32" for x y :: u32
        using that by (simp add: unat_word_ariths unat_div)
      ultimately show ?thesis using sec by metis
    qed
    have pos: "512 * unat ?t = unat off + unat ?c"
    proof -
      have "unat ?c mod 512 = 0" unfolding cnt by (simp add: minus_mod_eq_mult_div)
      then have cm: "unat ?c mod 512 = 0" .
      have arith: "512 * (a div 512 + b div 512) = a + b" if "a mod 512 = 0" "b mod 512 = 0" for a b :: nat
        using that mult_div_mod_eq [of 512 a] mult_div_mod_eq [of 512 b] by (simp only: distrib_left add_0_right)
      show ?thesis unfolding t by (rule arith [OF assms(3) cm])
    qed
    have "sdma ?t 512 = (True, map disk [512 * unat ?t ..< 512 * unat ?t + 512])"
      using assms(1) [unfolded sdma_serves_def, rule_format, of 512 ?t] by simp
    then have runt: "sdma ?t 512 = (True, map disk [unat off + unat ?c ..< unat off + unat ?c + 512])"
      by (simp only: pos)
    have "take (unat n mod 512) (map disk [unat off + unat ?c ..< unat off + unat ?c + 512]) =
        map disk [unat off + unat ?c ..< unat off + unat ?c + unat n mod 512]"
      by (simp add: take_map take_upt)
    moreover have "unat ?c + unat n mod 512 = unat n" unfolding cnt by simp
    ultimately have bytes: "map disk [unat off ..< unat off + unat ?c] @
        take (unat n mod 512) (map disk [unat off + unat ?c ..< unat off + unat ?c + 512]) =
        map disk [unat off ..< unat off + unat n]"
      using map_upt_split [of disk "unat off" "unat ?c" "unat n mod 512"] by (simp only:)
    show ?thesis
      using al assms(2) whole nz lt runt rem bytes
      by (simp add: HSS_MMC_ReadBlock_def Let_def require_def)
  qed
qed

lemma mmc_read_any:
  assumes "sdma_serves sdma disk" "dest AND 3 = 0" "unat off mod 512 = 0" "unat off < 2 ^ 40" "unat n < 2 ^ 32"
  shows "if 512 \<le> unat n \<and> unat n < 33554432
    then HSS_MMC_ReadBlock sdma dest off n = Some (True, map disk [unat off ..< unat off + unat n])
    else \<exists>bs. HSS_MMC_ReadBlock sdma dest off n = Some (False, bs)"
proof (cases "512 \<le> unat n \<and> unat n < 33554432")
  case True
  then show ?thesis using mmc_reads [OF assms(1-4)] by simp
next
  case False
  let ?c = "ucast (n - n mod 512) :: u32"
  have "unat ?c = unat n - unat n mod 512"
  proof -
    have "unat (n - n mod 512) = unat n - unat n mod 512" by (simp add: unat_sub_if_size unat_mod)
    moreover have "unat n - unat n mod 512 < 2 ^ 32" using assms(5) by (rule le_less_trans [OF diff_le_self])
    ultimately show ?thesis by (simp add: unsigned_ucast_eq take_bit_nat_eq_self)
  qed
  moreover have "unat n - unat n mod 512 = 0 \<or> 33554432 - 512 < unat n - unat n mod 512"
  proof (cases "unat n < 512")
    case True
    then show ?thesis by simp
  next
    case ge: False
    have "unat n mod 512 < 512" by simp
    then show ?thesis using False ge by linarith
  qed
  ultimately have "\<not> fst (sdma s ?c)" for s
    using assms(1) [unfolded sdma_serves_def, rule_format, of ?c s] by (auto split: if_splits)
  then have "\<exists>bs. sdma (ucast (off div 512)) ?c = (False, bs)" by (metis prod.collapse)
  then have "\<exists>bs. HSS_MMC_ReadBlock sdma dest off n = Some (False, bs)"
    using assms(2,3) and_511 by (auto simp: HSS_MMC_ReadBlock_def Let_def require_def)
  then show ?thesis using False by auto
qed

text \<open>A driver for a medium, and the card as the boot code's storage.\<close>

definition disk_sdma :: "(nat \<Rightarrow> u8) \<Rightarrow> sdma_read" where
  "disk_sdma disk s n =
     (if unat n mod 512 = 0 \<and> 0 < unat n \<and> unat n \<le> 33554432 - 512
      then (True, map disk [512 * unat s ..< 512 * unat s + unat n]) else (False, []))"

lemma disk_sdma_serves: "sdma_serves (disk_sdma disk) disk"
  by (simp add: sdma_serves_def disk_sdma_def)

abbreviation (input) BOOT_DDR_TARGET_ADDR :: u64 where "BOOT_DDR_TARGET_ADDR \<equiv> 0x103FC00000"

interpretation card: block_storage "HSS_MMC_ReadBlock (disk_sdma disk) BOOT_DDR_TARGET_ADDR" disk 33554432
proof unfold_locales
  fix off n :: u64
  assume "unat off mod 512 = 0" "unat off < 2 ^ 40" "512 \<le> unat n" "unat n < 33554432"
  then show "HSS_MMC_ReadBlock (disk_sdma disk) BOOT_DDR_TARGET_ADDR off n =
      Some (True, map disk [unat off ..< unat off + unat n])"
    by (intro mmc_reads [OF disk_sdma_serves]) simp_all
qed simp

section \<open>Properties\<close>

text \<open>
  What a read of the card returns. For an aligned source and destination, with a driver that
  serves whole sectors below 32 MiB as its documentation says: exactly the bytes of the card, the
  remainder of a sector included, if at least one sector is asked for and less than 32 MiB; and
  failure otherwise, for a read of less than a sector too, although the comment on the function
  promises it.
\<close>

theorem mmc_read_block:
  assumes "sdma_serves sdma disk" "dest AND 3 = 0" "unat off mod 512 = 0" "unat off < 2 ^ 40" "unat n < 2 ^ 32"
  shows "if 512 \<le> unat n \<and> unat n < 33554432
    then HSS_MMC_ReadBlock sdma dest off n = Some (True, map disk [unat off ..< unat off + unat n])
    else \<exists>bs. HSS_MMC_ReadBlock sdma dest off n = Some (False, bs)"
  using mmc_read_any [OF assms] .

theorem mmc_read_block_witness:
  "HSS_MMC_ReadBlock (disk_sdma of_nat) 0x80000000 1024 1632 = Some (True, map of_nat [1024 ..< 1024 + 1632]) \<and>
    (\<exists>bs. HSS_MMC_ReadBlock (disk_sdma of_nat) 0x80000000 1024 100 = Some (False, bs))"
proof -
  have u: "unat (1024 :: u64) = 1024" "unat (1632 :: u64) = 1632" "unat (100 :: u64) = 100" by simp_all
  have a: "(0x80000000 :: u64) AND 3 = 0" "(1024 :: nat) mod 512 = 0" "(1024 :: nat) < 2 ^ 40"
    "(1632 :: nat) < 2 ^ 32" "(100 :: nat) < 2 ^ 32" by simp_all
  have c: "(512 :: nat) \<le> 1632 \<and> (1632 :: nat) < 33554432" "\<not> ((512 :: nat) \<le> 100 \<and> (100 :: nat) < 33554432)"
    by simp_all
  note r = mmc_read_block [OF disk_sdma_serves a(1), of 1024 _ of_nat, unfolded u, OF a(2,3)]
  show ?thesis
    using r [of 1632, unfolded u, OF a(4)] r [of 100, unfolded u, OF a(5)] by (simp only: c if_True if_False simp_thms)
qed

end
