(* ===== verification/Boot_Init.thy ===== *)
theory Boot_Init
  imports Boot_Properties Mmc
begin

text \<open>
  Where the boot image comes from: \<open>init/hss_boot_init.c\<close> with the card as the only
  storage, as configured. The image's header is read first, then the whole image is copied to
  its place in DDR and registered with the boot service.
\<close>

section \<open>State\<close>

text \<open>The boot service's world, the storage the user chose (a position in
  \<open>pStorages\<close>) and the boot partition set by hand.\<close>

record Init_World =
  iw_boot :: Boot_World
  pDefaultStorage :: "nat option"
  iw_partition :: boot_partition

text \<open>\<open>struct HSS_Storage\<close>, as far as booting uses it: what its initialisation returns,
  if it has one, and its way to get an image.\<close>

record HSS_Storage =
  storage_name :: string
  storage_init :: "bool option"
  getBootImage :: "Init_World \<Rightarrow> (bool \<times> u64 \<times> Init_World) option"

definition bi_bootImageLength :: "memory \<Rightarrow> u64 \<Rightarrow> u64" where
  "bi_bootImageLength m p = read_u64 m (p + 1480)"

definition map_boot :: "(Boot_World \<Rightarrow> Boot_World) \<Rightarrow> Init_World \<Rightarrow> Init_World" where
  "map_boot f w = w\<lparr>iw_boot := f (iw_boot w)\<rparr>"

definition write_boot_memory :: "u64 \<Rightarrow> u8 list \<Rightarrow> Init_World \<Rightarrow> Init_World" where
  "write_boot_memory a bs = map_boot (\<lambda>b. b\<lparr>memory := mem_write (memory b) a bs\<rparr>)"

text \<open>A counter is allocated before and stopped after a piece of work.\<close>

definition start_counter :: "string \<Rightarrow> Init_World \<Rightarrow> int \<times> Init_World" where
  "start_counter name w =
     (let (r, idx, pcs) = HSS_PerfCtr_Allocate (bw_now (iw_boot w)) PERF_CTR_UNINITIALIZED name (perfCtrs (iw_boot w))
      in (idx, map_boot (\<lambda>b. b\<lparr>perfCtrs := pcs\<rparr>) w))"

definition stop_counter :: "int \<Rightarrow> Init_World \<Rightarrow> Init_World option" where
  "stop_counter idx w = do {
     pcs \<leftarrow> HSS_PerfCtr_Lap (bw_later (iw_boot w)) idx (perfCtrs (iw_boot w));
     Some (map_boot (\<lambda>b. b\<lparr>perfCtrs := pcs\<rparr>) w) }"

section \<open>The card\<close>

text \<open>The reader the partition code is given; its offsets are multiples of the block size.\<close>

definition card_reader :: "sdma_read \<Rightarrow> read_block" where
  "card_reader sdma off n = (case HSS_MMC_ReadBlock sdma 0 off n of Some r \<Rightarrow> r | None \<Rightarrow> (False, []))"

text \<open>The block the boot partition starts at; 0 when there is none.\<close>

definition boot_lba :: "read_block \<Rightarrow> boot_partition \<Rightarrow> HSS_GPT \<Rightarrow> u64 option" where
  "boot_lba rb part gpt = do {
     (ok, gpt) \<leftarrow> GPT_ReadHeader rb (GPT_Init gpt);
     if ok then do {
       let (manual, srcIndex) = GPT_GetBootPartitionIndex 0 part;
       (found, gpt) \<leftarrow> (if manual then Some (Some srcIndex, gpt) else GPT_FindBootSectorIndex rb srcIndex gpt);
       case found of
         None \<Rightarrow> Some 0
       | Some srcIndex \<Rightarrow> do {
           (r, gpt) \<leftarrow> GPT_PartitionIdToLBAOffset rb srcIndex gpt;
           Some (case r of None \<Rightarrow> 0 | Some lba \<Rightarrow> lba) } }
     else Some 0 }"

text \<open>\<open>hdr\<close> is the address of the static \<open>bootImage\<close>, \<open>gpt\<close> what the local
  variable of that name holds before it is initialised.\<close>

definition getBootImageFromMMC :: "sdma_read \<Rightarrow> u32 \<Rightarrow> u64 \<Rightarrow> HSS_GPT \<Rightarrow> Init_World
    \<Rightarrow> (bool \<times> u64 \<times> Init_World) option" where
  "getBootImageFromMMC sdma blockSize hdr gpt w = do {
     srcLBAOffset \<leftarrow> boot_lba (card_reader sdma) (iw_partition w) (gpt\<lparr>lbaSize := ucast blockSize\<rparr>);
     let src = srcLBAOffset * ucast blockSize;
     (result, bs) \<leftarrow> HSS_MMC_ReadBlock sdma hdr src (of_nat BOOT_IMAGE_SIZE);
     let w = write_boot_memory hdr bs w;
     if \<not> result then Some (False, 0, w)
     else if \<not> HSS_Boot_VerifyMagic (memory (iw_boot w)) hdr then Some (False, 0, w)
     else do {
       let (idx, w) = start_counter ''Boot Image MMC Copy'' w;
       (result, bs) \<leftarrow> HSS_MMC_ReadBlock sdma BOOT_DDR_TARGET_ADDR src (bi_bootImageLength (memory (iw_boot w)) hdr);
       let w = write_boot_memory BOOT_DDR_TARGET_ADDR bs w;
       w \<leftarrow> stop_counter idx w;
       Some (result, BOOT_DDR_TARGET_ADDR, w) } }"

definition mmcStorage :: "bool \<Rightarrow> sdma_read \<Rightarrow> u32 \<Rightarrow> u64 \<Rightarrow> HSS_GPT \<Rightarrow> HSS_Storage" where
  "mmcStorage init_ok sdma blockSize hdr gpt = \<lparr>storage_name = ''MMC'', storage_init = Some init_ok,
     getBootImage = getBootImageFromMMC sdma blockSize hdr gpt\<rparr>"

section \<open>Booting from a storage\<close>

definition HSS_BootGetActiveStorage :: "HSS_Storage list \<Rightarrow> Init_World \<Rightarrow> HSS_Storage" where
  "HSS_BootGetActiveStorage sts w = (case pDefaultStorage w of Some i \<Rightarrow> sts ! i | None \<Rightarrow> sts ! 0)"

definition tryBootFunction :: "HSS_Storage \<Rightarrow> Init_World \<Rightarrow> (bool \<times> Init_World) option" where
  "tryBootFunction st w = do {
     (result, img, w) \<leftarrow> getBootImage st w;
     Some (result, map_boot (HSS_Register_Boot_Image (if result then img else 0)) w) }"

definition storage_ready :: "HSS_Storage \<Rightarrow> bool" where
  "storage_ready st = (case storage_init st of Some r \<Rightarrow> r | None \<Rightarrow> True)"

fun try_storages :: "HSS_Storage list \<Rightarrow> bool \<Rightarrow> Init_World \<Rightarrow> (bool \<times> Init_World) option" where
  "try_storages [] result w = Some (result, w)"
| "try_storages (st # sts) result w =
     (if storage_ready st then do {
        (result, w) \<leftarrow> tryBootFunction st w;
        if result then Some (True, w) else try_storages sts False w }
      else try_storages sts False w)"

definition HSS_BootInit :: "HSS_Storage list \<Rightarrow> Init_World \<Rightarrow> (bool \<times> Init_World) option" where
  "HSS_BootInit sts w = do {
     let (idx, w) = start_counter ''Boot Image Init'' w;
     (result, w) \<leftarrow>
       (case pDefaultStorage w of
          Some i \<Rightarrow> if storage_ready (sts ! i) then tryBootFunction (sts ! i) w else Some (False, w)
        | None \<Rightarrow> try_storages sts True w);
     w \<leftarrow> stop_counter idx w;
     Some (result, w) }"

text \<open>The harts that are idle are started.\<close>

definition idle_mask :: "U54_State \<Rightarrow> u32" where
  "idle_mask u = foldl (\<lambda>mk i. if HSS_U54_GetState_Ex i u = Some HSS_State_Idle then mk OR push_bit i 1 else mk)
     0 [HSS_HART_U54_1..<HSS_HART_NUM_PEERS]"

definition HSS_BootHarts :: "Init_World \<Rightarrow> Init_World" where
  "HSS_BootHarts w =
     (let mk = idle_mask (u54 (iw_boot w)) in
      if mk \<noteq> 0 then map_boot (\<lambda>b. snd (HSS_Boot_RestartCores_Using_Bitmask mk b)) w else w)"

text \<open>Choosing a storage forgets the registered image.\<close>

definition HSS_BootSelectSDCARD :: "mmc_medium \<Rightarrow> Init_World \<Rightarrow> mmc_medium \<times> Init_World" where
  "HSS_BootSelectSDCARD medium w =
     (fst (HSS_MMC_SelectSDCARD medium),
      map_boot (HSS_Register_Boot_Image 0) (w\<lparr>pDefaultStorage := Some 0\<rparr>))"

section \<open>Lemmas\<close>

lemma map_boot_simps [simp]:
  "iw_boot (map_boot f w) = f (iw_boot w)" "pDefaultStorage (map_boot f w) = pDefaultStorage w"
  "iw_partition (map_boot f w) = iw_partition w"
  by (simp_all add: map_boot_def)

lemma write_boot_memory_simps [simp]:
  "memory (iw_boot (write_boot_memory a bs w)) = mem_write (memory (iw_boot w)) a bs"
  "perfCtrs (iw_boot (write_boot_memory a bs w)) = perfCtrs (iw_boot w)"
  "pDefaultStorage (write_boot_memory a bs w) = pDefaultStorage w"
  "iw_partition (write_boot_memory a bs w) = iw_partition w"
  by (simp_all add: write_boot_memory_def)

text \<open>Counting changes the counters alone, and cannot halt.\<close>

lemma start_counter_spec:
  "\<exists>idx pcs. start_counter name w = (idx, map_boot (\<lambda>b. b\<lparr>perfCtrs := pcs\<rparr>) w) \<and> ctr_ok idx pcs \<and>
    length pcs = length (perfCtrs (iw_boot w))"
proof -
  let ?r = "HSS_PerfCtr_Allocate (bw_now (iw_boot w)) PERF_CTR_UNINITIALIZED name (perfCtrs (iw_boot w))"
  obtain r idx pcs where r: "?r = (r, idx, pcs)" by (cases ?r)
  then have "ctr_ok idx pcs" "length pcs = length (perfCtrs (iw_boot w))"
    using allocate_index_ok [of "bw_now (iw_boot w)" PERF_CTR_UNINITIALIZED name "perfCtrs (iw_boot w)"]
      allocate_length [of "bw_now (iw_boot w)" PERF_CTR_UNINITIALIZED name "perfCtrs (iw_boot w)"] by simp_all
  then show ?thesis using r by (intro exI [of _ idx] exI [of _ pcs]) (simp add: start_counter_def)
qed

lemma ctr_ok_length: "ctr_ok idx pcs \<Longrightarrow> length pcs' = length pcs \<Longrightarrow> ctr_ok idx pcs'"
  by (simp add: ctr_ok_def)

lemma stop_counter_spec:
  "ctr_ok idx (perfCtrs (iw_boot w)) \<Longrightarrow>
    \<exists>pcs. stop_counter idx w = Some (map_boot (\<lambda>b. b\<lparr>perfCtrs := pcs\<rparr>) w) \<and> length pcs = length (perfCtrs (iw_boot w))"
proof -
  assume "ctr_ok idx (perfCtrs (iw_boot w))"
  then obtain pcs where "HSS_PerfCtr_Lap (bw_later (iw_boot w)) idx (perfCtrs (iw_boot w)) = Some pcs"
    "length pcs = length (perfCtrs (iw_boot w))"
    using with_ctr_ok [of idx "perfCtrs (iw_boot w)" "\<lambda>c. c\<lparr>lapTime := bw_later (iw_boot w)\<rparr>"]
    by (auto simp: HSS_PerfCtr_Lap_def)
  then show ?thesis by (intro exI [of _ pcs]) (simp add: stop_counter_def)
qed

text \<open>The memory after the header has been read.\<close>

definition with_header :: "(nat \<Rightarrow> u8) \<Rightarrow> u64 \<Rightarrow> u64 \<Rightarrow> Init_World \<Rightarrow> memory" where
  "with_header disk hdr src w = mem_write (memory (iw_boot w)) hdr (map disk [unat src ..< unat src + BOOT_IMAGE_SIZE])"

lemma get_image_mmc:
  assumes card: "sdma_serves sdma disk" and lba: "boot_lba (card_reader sdma) (iw_partition w) (gpt\<lparr>lbaSize := ucast bs\<rparr>) = Some lba"
    and src: "src = lba * ucast bs" "unat src mod 512 = 0" "unat src < 2 ^ 40" and hdr: "hdr AND 3 = 0"
    and magic: "HSS_Boot_VerifyMagic (with_header disk hdr src w) hdr"
    and len: "n = bi_bootImageLength (with_header disk hdr src w) hdr" "unat n < 2 ^ 32"
  shows "\<exists>ok w'. getBootImageFromMMC sdma bs hdr gpt w = Some (ok, BOOT_DDR_TARGET_ADDR, w') \<and>
    (ok \<longleftrightarrow> 512 \<le> unat n \<and> unat n < 33554432) \<and>
    (ok \<longrightarrow> mem_read (memory (iw_boot w')) BOOT_DDR_TARGET_ADDR (unat n) = map disk [unat src ..< unat src + unat n]) \<and>
    pDefaultStorage w' = pDefaultStorage w \<and> length (perfCtrs (iw_boot w')) = length (perfCtrs (iw_boot w))"
proof -
  have h: "HSS_MMC_ReadBlock sdma hdr src (of_nat BOOT_IMAGE_SIZE) =
      Some (True, map disk [unat src ..< unat src + BOOT_IMAGE_SIZE])"
    using mmc_reads [OF card hdr src(2,3), of "of_nat BOOT_IMAGE_SIZE"] by (simp del: upt_rec_numeral)
  let ?w1 = "write_boot_memory hdr (map disk [unat src ..< unat src + BOOT_IMAGE_SIZE]) w"
  have m1: "memory (iw_boot ?w1) = with_header disk hdr src w" by (simp add: with_header_def)
  obtain idx pcs where c: "start_counter ''Boot Image MMC Copy'' ?w1 = (idx, map_boot (\<lambda>b. b\<lparr>perfCtrs := pcs\<rparr>) ?w1)"
    "ctr_ok idx pcs" "length pcs = length (perfCtrs (iw_boot ?w1))"
    using start_counter_spec by blast
  let ?w2 = "map_boot (\<lambda>b. b\<lparr>perfCtrs := pcs\<rparr>) ?w1"
  define ok where "ok \<longleftrightarrow> 512 \<le> unat n \<and> unat n < 33554432"
  obtain xs where r: "HSS_MMC_ReadBlock sdma BOOT_DDR_TARGET_ADDR src n = Some (ok, xs)"
    "ok \<longrightarrow> xs = map disk [unat src ..< unat src + unat n]"
    using mmc_read_any [OF card _ src(2,3) len(2), of BOOT_DDR_TARGET_ADDR] unfolding ok_def [symmetric]
    by (cases ok) auto
  let ?w3 = "write_boot_memory BOOT_DDR_TARGET_ADDR xs ?w2"
  obtain pcs' where e: "stop_counter idx ?w3 = Some (map_boot (\<lambda>b. b\<lparr>perfCtrs := pcs'\<rparr>) ?w3)"
    "length pcs' = length (perfCtrs (iw_boot ?w3))"
    using stop_counter_spec [of idx ?w3] c(2) by auto
  have "getBootImageFromMMC sdma bs hdr gpt w = Some (ok, BOOT_DDR_TARGET_ADDR, map_boot (\<lambda>b. b\<lparr>perfCtrs := pcs'\<rparr>) ?w3)"
    unfolding getBootImageFromMMC_def
    using lba h c(1) r(1) e(1) magic len(1) m1 by (simp add: Let_def src(1) [symmetric] del: write_boot_memory_simps(1))
  moreover have "ok \<longrightarrow> mem_read (mem_write m BOOT_DDR_TARGET_ADDR xs) BOOT_DDR_TARGET_ADDR (unat n) = xs" for m
    using r(2) mem_read_write [of xs m BOOT_DDR_TARGET_ADDR] len(2) by auto
  ultimately show ?thesis using r(2) e(2) c(3) ok_def by auto
qed

section \<open>Properties\<close>


text \<open>A card without partitions: an image of 4096 bytes from its first sector on.\<close>

definition plain_card :: "nat \<Rightarrow> u8" where
  "plain_card = (\<lambda>_. 0)(0 := 0xDE, 1 := 0xC0, 2 := 0x07, 3 := 0xB0, 1481 := 0x10, 2000 := 0x55)"

definition blank_gpt :: HSS_GPT where
  "blank_gpt = \<lparr>hbuffer = replicate 512 0, lbaBuffer = replicate 1024 0, lbaSize = 512, headerValid = False,
     partitionEntriesValid = False\<rparr>"

definition init_world :: Init_World where
  "init_world = \<lparr>iw_boot = boot_world0 (\<lambda>_. 0) 0, pDefaultStorage = None,
     iw_partition = \<lparr>bootPartitionIndexValid = False, bootPartitionIndex = 0\<rparr>\<rparr>"

lemma plain_card_lba:
  "boot_lba (card_reader (disk_sdma plain_card)) (iw_partition init_world) (blank_gpt\<lparr>lbaSize := ucast (512 :: u32)\<rparr>) = Some 0"
proof -
  let ?bs = "map plain_card [512 ..< 512 + 512]"
  have u: "unat (512 :: u64) = 512" by simp
  have r: "card_reader (disk_sdma plain_card) 512 512 = (True, ?bs)"
    using mmc_reads [OF disk_sdma_serves, of 0 512 512 plain_card] unfolding u
    by (simp add: card_reader_def del: upt_rec_numeral)
  have "take 8 ?bs = map plain_card [512 ..< 512 + 8]" by (simp only: take_map take_upt)
  moreover have "map plain_card [512 ..< 512 + 8] \<noteq> GPT_EXPECTED_SIGNATURE"
    by (simp add: plain_card_def GPT_EXPECTED_SIGNATURE_def)
  moreover have "hbuffer (blank_gpt\<lparr>hbuffer := b\<rparr>) = b" for b by simp
  ultimately have "hdr_signature (blank_gpt\<lparr>hbuffer := ?bs\<rparr>) \<noteq> GPT_EXPECTED_SIGNATURE"
    by (simp only: hdr_signature_def not_False_eq_True)
  then show ?thesis
    using r by (simp add: boot_lba_def GPT_ReadHeader_def GPT_Init_def GPT_ValidateHeader_def memcpy_to_def
        blank_gpt_def splice_def hdr_signature_def Let_def del: upt_rec_numeral)
qed

lemma card_header_byte:
  assumes "k < BOOT_IMAGE_SIZE"
  shows "with_header plain_card hdr 0 w (hdr + of_nat k) = plain_card k"
  using mem_write_nth [of k "map plain_card [0 ..< BOOT_IMAGE_SIZE]" "memory (iw_boot w)" hdr] assms
  by (simp add: with_header_def)

lemma card_header:
  "HSS_Boot_VerifyMagic (with_header plain_card 0x8000000 0 w) 0x8000000"
  "bi_bootImageLength (with_header plain_card 0x8000000 0 w) 0x8000000 = 4096"
proof -
  let ?m = "with_header plain_card 0x8000000 0 w"
  have b: "?m (0x8000000 + of_nat k) = plain_card k" if "k < BOOT_IMAGE_SIZE" for k
    using card_header_byte [OF that] .
  show "HSS_Boot_VerifyMagic ?m 0x8000000"
    using b [of 0] b [of 1] b [of 2] b [of 3]
    by (simp add: HSS_Boot_VerifyMagic_def bi_magic_def read_u32_def mem_read_bytes plain_card_def)
  show "bi_bootImageLength ?m 0x8000000 = 4096"
    using b [of 1480] b [of 1481] b [of 1482] b [of 1483] b [of 1484] b [of 1485] b [of 1486] b [of 1487]
    by (simp add: bi_bootImageLength_def read_u64_def mem_read_bytes plain_card_def)
qed


end
