(* ===== verification/Payload.thy ===== *)
theory Payload
  imports Boot_Load
begin

text \<open>
  The payload generator, \<open>tools/hss-payload-generator\<close>: how a boot image is put together on
  the host (\<open>generate_payload.c\<close>, \<open>blob_handler.c\<close>, \<open>elf_parser.c\<close>,
  \<open>crc32.c\<close>). The library \<open>libelf\<close> is a parameter: an ELF file is the headers and the
  section data it hands out. A failing \<open>assert\<close> and an \<open>exit\<close> are \<open>None\<close>; writing
  the output never fails, and signing is left out.
\<close>

section \<open>The checksum of the tool\<close>

definition tool_precalcTable :: "u32 list" where
  "tool_precalcTable = [
    0x00000000, 0x77073096, 0xEE0E612C, 0x990951BA, 0x076DC419, 0x706AF48F, 0xE963A535, 0x9E6495A3,
    0x0EDB8832, 0x79DCB8A4, 0xE0D5E91E, 0x97D2D988, 0x09B64C2B, 0x7EB17CBD, 0xE7B82D07, 0x90BF1D91,
    0x1DB71064, 0x6AB020F2, 0xF3B97148, 0x84BE41DE, 0x1ADAD47D, 0x6DDDE4EB, 0xF4D4B551, 0x83D385C7,
    0x136C9856, 0x646BA8C0, 0xFD62F97A, 0x8A65C9EC, 0x14015C4F, 0x63066CD9, 0xFA0F3D63, 0x8D080DF5,
    0x3B6E20C8, 0x4C69105E, 0xD56041E4, 0xA2677172, 0x3C03E4D1, 0x4B04D447, 0xD20D85FD, 0xA50AB56B,
    0x35B5A8FA, 0x42B2986C, 0xDBBBC9D6, 0xACBCF940, 0x32D86CE3, 0x45DF5C75, 0xDCD60DCF, 0xABD13D59,
    0x26D930AC, 0x51DE003A, 0xC8D75180, 0xBFD06116, 0x21B4F4B5, 0x56B3C423, 0xCFBA9599, 0xB8BDA50F,
    0x2802B89E, 0x5F058808, 0xC60CD9B2, 0xB10BE924, 0x2F6F7C87, 0x58684C11, 0xC1611DAB, 0xB6662D3D,
    0x76DC4190, 0x01DB7106, 0x98D220BC, 0xEFD5102A, 0x71B18589, 0x06B6B51F, 0x9FBFE4A5, 0xE8B8D433,
    0x7807C9A2, 0x0F00F934, 0x9609A88E, 0xE10E9818, 0x7F6A0DBB, 0x086D3D2D, 0x91646C97, 0xE6635C01,
    0x6B6B51F4, 0x1C6C6162, 0x856530D8, 0xF262004E, 0x6C0695ED, 0x1B01A57B, 0x8208F4C1, 0xF50FC457,
    0x65B0D9C6, 0x12B7E950, 0x8BBEB8EA, 0xFCB9887C, 0x62DD1DDF, 0x15DA2D49, 0x8CD37CF3, 0xFBD44C65,
    0x4DB26158, 0x3AB551CE, 0xA3BC0074, 0xD4BB30E2, 0x4ADFA541, 0x3DD895D7, 0xA4D1C46D, 0xD3D6F4FB,
    0x4369E96A, 0x346ED9FC, 0xAD678846, 0xDA60B8D0, 0x44042D73, 0x33031DE5, 0xAA0A4C5F, 0xDD0D7CC9,
    0x5005713C, 0x270241AA, 0xBE0B1010, 0xC90C2086, 0x5768B525, 0x206F85B3, 0xB966D409, 0xCE61E49F,
    0x5EDEF90E, 0x29D9C998, 0xB0D09822, 0xC7D7A8B4, 0x59B33D17, 0x2EB40D81, 0xB7BD5C3B, 0xC0BA6CAD,
    0xEDB88320, 0x9ABFB3B6, 0x03B6E20C, 0x74B1D29A, 0xEAD54739, 0x9DD277AF, 0x04DB2615, 0x73DC1683,
    0xE3630B12, 0x94643B84, 0x0D6D6A3E, 0x7A6A5AA8, 0xE40ECF0B, 0x9309FF9D, 0x0A00AE27, 0x7D079EB1,
    0xF00F9344, 0x8708A3D2, 0x1E01F268, 0x6906C2FE, 0xF762575D, 0x806567CB, 0x196C3671, 0x6E6B06E7,
    0xFED41B76, 0x89D32BE0, 0x10DA7A5A, 0x67DD4ACC, 0xF9B9DF6F, 0x8EBEEFF9, 0x17B7BE43, 0x60B08ED5,
    0xD6D6A3E8, 0xA1D1937E, 0x38D8C2C4, 0x4FDFF252, 0xD1BB67F1, 0xA6BC5767, 0x3FB506DD, 0x48B2364B,
    0xD80D2BDA, 0xAF0A1B4C, 0x36034AF6, 0x41047A60, 0xDF60EFC3, 0xA867DF55, 0x316E8EEF, 0x4669BE79,
    0xCB61B38C, 0xBC66831A, 0x256FD2A0, 0x5268E236, 0xCC0C7795, 0xBB0B4703, 0x220216B9, 0x5505262F,
    0xC5BA3BBE, 0xB2BD0B28, 0x2BB45A92, 0x5CB36A04, 0xC2D7FFA7, 0xB5D0CF31, 0x2CD99E8B, 0x5BDEAE1D,
    0x9B64C2B0, 0xEC63F226, 0x756AA39C, 0x026D930A, 0x9C0906A9, 0xEB0E363F, 0x72076785, 0x05005713,
    0x95BF4A82, 0xE2B87A14, 0x7BB12BAE, 0x0CB61B38, 0x92D28E9B, 0xE5D5BE0D, 0x7CDCEFB7, 0x0BDBDF21,
    0x86D3D2D4, 0xF1D4E242, 0x68DDB3F8, 0x1FDA836E, 0x81BE16CD, 0xF6B9265B, 0x6FB077E1, 0x18B74777,
    0x88085AE6, 0xFF0F6A70, 0x66063BCA, 0x11010B5C, 0x8F659EFF, 0xF862AE69, 0x616BFFD3, 0x166CCF45,
    0xA00AE278, 0xD70DD2EE, 0x4E048354, 0x3903B3C2, 0xA7672661, 0xD06016F7, 0x4969474D, 0x3E6E77DB,
    0xAED16A4A, 0xD9D65ADC, 0x40DF0B66, 0x37D83BF0, 0xA9BCAE53, 0xDEBB9EC5, 0x47B2CF7F, 0x30B5FFE9,
    0xBDBDF21C, 0xCABAC28A, 0x53B39330, 0x24B4A3A6, 0xBAD03605, 0xCDD70693, 0x54DE5729, 0x23D967BF,
    0xB3667A2E, 0xC4614AB8, 0x5D681B02, 0x2A6F2B94, 0xB40BBE37, 0xC30C8EA1, 0x5A05DF1B, 0x2D02EF8D]"

definition tool_CRC32_updateByte :: "u32 \<Rightarrow> u8 \<Rightarrow> u32" where
  "tool_CRC32_updateByte crc32 byte =
     (let index = (crc32 XOR ucast byte) AND 0xFF;
          crc32 = drop_bit 8 crc32 XOR tool_precalcTable ! unat index
      in crc32 AND 0xFFFFFFFF)"

definition tool_CRC32_calculate_ex :: "u32 \<Rightarrow> u8 list \<Rightarrow> u32" where
  "tool_CRC32_calculate_ex seed pInput = NOT (foldl tool_CRC32_updateByte (NOT seed) pInput)"

definition tool_CRC32_calculate :: "u8 list \<Rightarrow> u32" where
  "tool_CRC32_calculate pInput = tool_CRC32_calculate_ex 0 pInput"

section \<open>State\<close>

text \<open>\<open>struct HSS_BootImage\<close> as the tool fills it in.\<close>

record BootImage =
  gi_magic :: u32
  gi_version :: u32
  gi_headerLength :: u64
  gi_headerCrc :: u32
  gi_chunkTableOffset :: u64
  gi_ziChunkTableOffset :: u64
  gi_hart :: "BootHart list"
  gi_set_name :: "u8 list"
  gi_bootImageLength :: u64
  gi_signature :: "u8 list"

text \<open>The header, the two tables, the private chunk counters of the two handlers, the paddings
  that were computed and the output file with its position.\<close>

record Generator =
  bootImage :: BootImage
  chunkTable :: "(BootChunkDesc \<times> u8 list) list"
  ziChunkTable :: "BootZIChunkDesc list"
  blob_numChunks :: u64
  elf_numChunks :: u64
  bootImagePaddedSize :: u64
  chunkTablePaddedSize :: u64
  ziChunkTablePaddedSize :: u64
  out_file :: "u8 list"
  out_pos :: nat

abbreviation (input) PAD_SIZE :: u64 where "PAD_SIZE \<equiv> 8"

text \<open>What the statics hold before \<open>main\<close> runs.\<close>

definition zero_hart :: BootHart where
  "zero_hart = \<lparr>entryPoint = 0, privMode = 0, bh_flags = 0, numChunks = 0, firstChunk = 0, lastChunk = 0,
     bh_name = replicate 256 0\<rparr>"

definition generator_static :: Generator where
  "generator_static = \<lparr>bootImage = \<lparr>gi_magic = 0, gi_version = 0, gi_headerLength = 0, gi_headerCrc = 0,
       gi_chunkTableOffset = 0, gi_ziChunkTableOffset = 0, gi_hart = replicate 4 zero_hart,
       gi_set_name = replicate 256 0, gi_bootImageLength = 0, gi_signature = replicate 144 0\<rparr>,
     chunkTable = [], ziChunkTable = [], blob_numChunks = 0, elf_numChunks = 0, bootImagePaddedSize = 0,
     chunkTablePaddedSize = 0, ziChunkTablePaddedSize = 0, out_file = [], out_pos = 0\<rparr>"

definition map_image :: "(BootImage \<Rightarrow> BootImage) \<Rightarrow> Generator \<Rightarrow> Generator" where
  "map_image f g = g\<lparr>bootImage := f (bootImage g)\<rparr>"

definition upd_hart :: "nat \<Rightarrow> (BootHart \<Rightarrow> BootHart) \<Rightarrow> BootImage \<Rightarrow> BootImage" where
  "upd_hart i f img = img\<lparr>gi_hart := (gi_hart img)[i := f (gi_hart img ! i)]\<rparr>"

definition generate_init :: "Generator \<Rightarrow> Generator" where
  "generate_init = map_image (\<lambda>img. img\<lparr>gi_magic := mHSS_BOOT_MAGIC, gi_version := 1\<rparr>)"

section \<open>Structures as bytes\<close>

definition u32_bytes :: "u32 \<Rightarrow> u8 list" where "u32_bytes x = le_bytes 4 (unat x)"
definition u64_bytes :: "u64 \<Rightarrow> u8 list" where "u64_bytes x = le_bytes 8 (unat x)"

definition hart_bytes :: "BootHart \<Rightarrow> u8 list" where
  "hart_bytes h = u64_bytes (entryPoint h) @ [privMode h, bh_flags h] @ replicate 6 0 @ u64_bytes (numChunks h) @
     u64_bytes (firstChunk h) @ u64_bytes (lastChunk h) @ bh_name h"

definition image_bytes :: "BootImage \<Rightarrow> u8 list" where
  "image_bytes img = u32_bytes (gi_magic img) @ u32_bytes (gi_version img) @ u64_bytes (gi_headerLength img) @
     u32_bytes (gi_headerCrc img) @ replicate 4 0 @ u64_bytes (gi_chunkTableOffset img) @
     u64_bytes (gi_ziChunkTableOffset img) @ concat (map hart_bytes (gi_hart img)) @ gi_set_name img @
     u64_bytes (gi_bootImageLength img) @ gi_signature img"

text \<open>The two gaps in a descriptor hold whatever was there: \<open>junk\<close>.\<close>

type_synonym junk = "nat \<Rightarrow> u32 \<times> u32"

definition chunk_bytes :: "u32 \<times> u32 \<Rightarrow> BootChunkDesc \<Rightarrow> u8 list" where
  "chunk_bytes j c = u32_bytes (owner c) @ u32_bytes (fst j) @ u64_bytes (loadAddr c) @ u64_bytes (execAddr c) @
     u64_bytes (chunk_size c) @ u32_bytes (chunk_crc32 c) @ u32_bytes (snd j)"

definition zi_chunk_bytes :: "u32 \<times> u32 \<Rightarrow> BootZIChunkDesc \<Rightarrow> u8 list" where
  "zi_chunk_bytes j c = u32_bytes (zi_owner c) @ u32_bytes (fst j) @ u64_bytes (zi_execAddr c) @ u64_bytes (zi_size c)"

section \<open>Writing the image\<close>

definition calculate_padding :: "u64 \<Rightarrow> u64 \<Rightarrow> u64" where
  "calculate_padding size' pad = ((size' + (pad - 1)) div pad) * pad - size'"

text \<open>\<open>fwrite\<close> overwrites at the file's position, or extends the file.\<close>

definition fwrite :: "u8 list \<Rightarrow> Generator \<Rightarrow> Generator" where
  "fwrite bs g = g\<lparr>out_file := splice (out_file g) (out_pos g) bs, out_pos := out_pos g + length bs\<rparr>"

definition write_pad :: "u64 \<Rightarrow> Generator \<Rightarrow> Generator" where
  "write_pad pad = fwrite (replicate (unat pad) 0)"

definition generate_header :: "Generator \<Rightarrow> Generator" where
  "generate_header g =
     (let g = write_pad (calculate_padding (of_nat BOOT_IMAGE_SIZE) PAD_SIZE)
                (fwrite (image_bytes (bootImage g)) (g\<lparr>out_pos := 0\<rparr>))
      in g\<lparr>bootImagePaddedSize := of_nat (out_pos g)\<rparr>)"

text \<open>Where the first blob goes: behind both tables, each with its sentinel.\<close>

definition blob_base :: "Generator \<Rightarrow> u64" where
  "blob_base g = (let n = of_nat (length (chunkTable g)); z = of_nat (length (ziChunkTable g)) in
     gi_chunkTableOffset (bootImage g) + n * CHUNK_DESC_SIZE + CHUNK_DESC_SIZE +
     calculate_padding (CHUNK_DESC_SIZE * (n + 1)) PAD_SIZE + z * ZI_CHUNK_DESC_SIZE + ZI_CHUNK_DESC_SIZE +
     calculate_padding (ZI_CHUNK_DESC_SIZE * (z + 1)) PAD_SIZE)"

text \<open>The loop over the table: each entry gets its \<open>loadAddr\<close> and is written.\<close>

fun chunk_loop :: "junk \<Rightarrow> nat \<Rightarrow> nat \<Rightarrow> u64 \<Rightarrow> Generator \<Rightarrow> Generator" where
  "chunk_loop junk i 0 cumulativeBlobSize g = g"
| "chunk_loop junk i (Suc k) cumulativeBlobSize g =
     (let (c, pBuffer) = chunkTable g ! i;
          c = c\<lparr>loadAddr := blob_base g + cumulativeBlobSize + calculate_padding cumulativeBlobSize PAD_SIZE\<rparr>
      in chunk_loop junk (Suc i) k (cumulativeBlobSize + (chunk_size c + calculate_padding (chunk_size c) PAD_SIZE))
           (fwrite (chunk_bytes (junk i) c) (g\<lparr>chunkTable := (chunkTable g)[i := (c, pBuffer)]\<rparr>)))"

definition zero_chunk :: BootChunkDesc where
  "zero_chunk = \<lparr>owner = 0, loadAddr = 0, execAddr = 0, chunk_size = 0, chunk_crc32 = 0\<rparr>"

definition generate_chunks :: "junk \<Rightarrow> Generator \<Rightarrow> Generator option" where
  "generate_chunks junk g = do {
     let g = map_image (\<lambda>img. img\<lparr>gi_chunkTableOffset := of_nat (out_pos g)\<rparr>) g;
     require (gi_chunkTableOffset (bootImage g) =
       of_nat BOOT_IMAGE_SIZE + calculate_padding (of_nat BOOT_IMAGE_SIZE) PAD_SIZE);
     let n = length (chunkTable g);
     let g = chunk_loop junk 0 n 0 g;
     let g = fwrite (chunk_bytes (junk n) zero_chunk) g;
     let g = write_pad (calculate_padding (CHUNK_DESC_SIZE * (of_nat n + 1)) PAD_SIZE) g;
     Some (g\<lparr>chunkTablePaddedSize := of_nat (out_pos g) - gi_chunkTableOffset (bootImage g)\<rparr>) }"

fun zi_chunk_loop :: "junk \<Rightarrow> nat \<Rightarrow> BootZIChunkDesc list \<Rightarrow> Generator \<Rightarrow> Generator" where
  "zi_chunk_loop junk i [] g = g"
| "zi_chunk_loop junk i (c # cs) g = zi_chunk_loop junk (Suc i) cs (fwrite (zi_chunk_bytes (junk i) c) g)"

definition zero_zi_chunk :: BootZIChunkDesc where
  "zero_zi_chunk = \<lparr>zi_owner = 0, zi_execAddr = 0, zi_size = 0\<rparr>"

definition generate_ziChunks :: "junk \<Rightarrow> Generator \<Rightarrow> Generator option" where
  "generate_ziChunks junk g = do {
     let g = map_image (\<lambda>img. img\<lparr>gi_ziChunkTableOffset := of_nat (out_pos g)\<rparr>) g;
     let n = of_nat (length (chunkTable g));
     require (gi_ziChunkTableOffset (bootImage g) =
       gi_chunkTableOffset (bootImage g) + n * CHUNK_DESC_SIZE + CHUNK_DESC_SIZE +
       calculate_padding (CHUNK_DESC_SIZE * (n + 1)) PAD_SIZE);
     let z = length (ziChunkTable g);
     let g = zi_chunk_loop junk 0 (ziChunkTable g) g;
     let g = fwrite (zi_chunk_bytes (junk z) zero_zi_chunk) g;
     let g = write_pad (calculate_padding (ZI_CHUNK_DESC_SIZE * (of_nat z + 1)) PAD_SIZE) g;
     Some (g\<lparr>ziChunkTablePaddedSize := of_nat (out_pos g) - gi_ziChunkTableOffset (bootImage g)\<rparr>) }"

fun blob_loop :: "(BootChunkDesc \<times> u8 list) list \<Rightarrow> Generator \<Rightarrow> Generator" where
  "blob_loop [] g = g"
| "blob_loop ((c, pBuffer) # es) g =
     blob_loop es (write_pad (calculate_padding (chunk_size c) PAD_SIZE)
       (fwrite (take (unat (chunk_size c)) pBuffer) g))"

text \<open>With no chunk at all the first entry is read through a null pointer.\<close>

definition generate_blobs :: "Generator \<Rightarrow> Generator option" where
  "generate_blobs g = do {
     require (chunkTable g \<noteq> []);
     let z = of_nat (length (ziChunkTable g));
     require (loadAddr (fst (chunkTable g ! 0)) =
       gi_ziChunkTableOffset (bootImage g) + z * ZI_CHUNK_DESC_SIZE + ZI_CHUNK_DESC_SIZE +
       calculate_padding (ZI_CHUNK_DESC_SIZE * (z + 1)) PAD_SIZE);
     Some (blob_loop (chunkTable g) g) }"

text \<open>Without a private key.\<close>

definition generate_payload :: "junk \<Rightarrow> junk \<Rightarrow> Generator \<Rightarrow> Generator option" where
  "generate_payload junk zjunk g = do {
     let g = generate_header (g\<lparr>out_file := [], out_pos := 0\<rparr>);
     g \<leftarrow> generate_chunks junk g;
     g \<leftarrow> generate_ziChunks zjunk g;
     let g = map_image (\<lambda>img. img\<lparr>gi_headerLength := of_nat (out_pos g)\<rparr>) g;
     require (gi_headerLength (bootImage g) =
       bootImagePaddedSize g + chunkTablePaddedSize g + ziChunkTablePaddedSize g);
     g \<leftarrow> generate_blobs g;
     let g = map_image (\<lambda>img. img\<lparr>gi_bootImageLength := of_nat (out_pos g)\<rparr>) g;
     let g = map_image (\<lambda>img. img\<lparr>gi_headerCrc := tool_CRC32_calculate (image_bytes img)\<rparr>) g;
     Some (generate_header g) }"

section \<open>Adding chunks\<close>

definition generate_add_chunk :: "BootChunkDesc \<Rightarrow> u8 list \<Rightarrow> Generator \<Rightarrow> u64 \<times> Generator" where
  "generate_add_chunk chunk pBuffer g =
     (let g = (if chunk_size chunk \<noteq> 0 then g\<lparr>chunkTable := chunkTable g @ [(chunk, pBuffer)]\<rparr> else g)
      in (of_nat (length (chunkTable g)), g))"

definition generate_add_ziChunk :: "BootZIChunkDesc \<Rightarrow> Generator \<Rightarrow> Generator" where
  "generate_add_ziChunk ziChunk g = g\<lparr>ziChunkTable := ziChunkTable g @ [ziChunk]\<rparr>"

definition process_blob :: "u8 list \<Rightarrow> u64 \<Rightarrow> u64 \<Rightarrow> bool \<Rightarrow> Generator \<Rightarrow> Generator" where
  "process_blob pBuffer exec_addr own is_ancilliary_data g =
     (let chunk = \<lparr>owner = ucast (own OR (if is_ancilliary_data then 0x80 else 0)), loadAddr = 0,
            execAddr = exec_addr, chunk_size = of_nat (length pBuffer), chunk_crc32 = tool_CRC32_calculate pBuffer\<rparr>;
          (n, g) = generate_add_chunk chunk pBuffer g
      in g\<lparr>blob_numChunks := n\<rparr>)"

text \<open>\<open>hart[owner-1].firstChunk\<close> is set unless it is non-zero already; afterwards the last
  chunk and the number follow the handler's own counter.\<close>

definition set_firstChunk :: "u64 \<Rightarrow> nat \<Rightarrow> BootImage \<Rightarrow> BootImage" where
  "set_firstChunk n own = upd_hart (own - 1) (\<lambda>h. if firstChunk h = 0 then h\<lparr>firstChunk := n\<rparr> else h)"

definition count_blob :: "nat \<Rightarrow> Generator \<Rightarrow> Generator" where
  "count_blob own g = map_image (upd_hart (own - 1)
     (\<lambda>h. h\<lparr>lastChunk := blob_numChunks g - 1, numChunks := numChunks h + 1\<rparr>)) g"

definition blob_handler :: "u8 list \<Rightarrow> u64 \<Rightarrow> nat \<Rightarrow> u8 list option \<Rightarrow> Generator \<Rightarrow> Generator" where
  "blob_handler file exec_addr own ancilliary g =
     (let g = map_image (set_firstChunk (blob_numChunks g) own) g;
          g = count_blob own (process_blob file exec_addr (of_nat own) False g)
      in case ancilliary of
           None \<Rightarrow> g
         | Some data \<Rightarrow>
             count_blob own (process_blob data (exec_addr + of_nat (length file)) (of_nat own) True g))"

section \<open>ELF files\<close>

text \<open>What \<open>libelf\<close> hands out of a file: the file's kind and class, its header, the program
  headers, and the sections with their names and data, where it has them.\<close>

abbreviation (input) PT_LOAD :: u32 where "PT_LOAD \<equiv> 1"
abbreviation (input) SHT_NOBITS :: u32 where "SHT_NOBITS \<equiv> 8"
abbreviation (input) EM_RISCV :: u16 where "EM_RISCV \<equiv> 243"
abbreviation (input) ET_EXEC :: u16 where "ET_EXEC \<equiv> 2"

record Elf_Phdr =
  p_type :: u32
  p_vaddr :: u64
  p_memsz :: u64

record Elf_Section =
  sh_name :: "string option"
  sh_type :: u32
  sh_addr :: u64
  sh_size :: u64
  sh_data :: "u8 list option"

record Elf =
  elf_is_elf :: bool
  elf_has_class :: bool
  e_machine :: u16
  e_type :: u16
  elf_phdrs :: "Elf_Phdr list"
  elf_sections :: "Elf_Section list"

definition is_section_in_segment :: "Elf_Section \<Rightarrow> Elf_Phdr \<Rightarrow> bool" where
  "is_section_in_segment s ph \<longleftrightarrow>
     p_vaddr ph \<le> sh_addr s \<and> sh_addr s + sh_size s \<le> p_vaddr ph + p_memsz ph"

text \<open>A loadable section becomes a chunk, one without bytes in the file a zero-initialised
  chunk.\<close>

definition process_section :: "Elf_Phdr \<Rightarrow> u64 \<Rightarrow> Elf_Section \<Rightarrow> Generator \<Rightarrow> Generator option" where
  "process_section ph own s g = do {
     require (sh_name s \<noteq> None);
     if is_section_in_segment s ph \<and> p_type ph = PT_LOAD then
       (if sh_type s \<noteq> SHT_NOBITS then
          (case sh_data s of
             None \<Rightarrow> Some g
           | Some d \<Rightarrow> do {
               require (sh_size s = of_nat (length d));
               let chunk = \<lparr>owner = ucast own, loadAddr = 0, execAddr = sh_addr s, chunk_size = of_nat (length d),
                 chunk_crc32 = tool_CRC32_calculate d\<rparr>;
               let (n, g) = generate_add_chunk chunk d g;
               Some (g\<lparr>elf_numChunks := n\<rparr>) })
        else Some (generate_add_ziChunk \<lparr>zi_owner = ucast own, zi_execAddr = sh_addr s, zi_size = sh_size s\<rparr> g))
     else Some g }"

fun process_sections_in_segment :: "Elf_Section list \<Rightarrow> Elf_Phdr \<Rightarrow> u64 \<Rightarrow> Generator \<Rightarrow> Generator option" where
  "process_sections_in_segment [] ph own g = Some g"
| "process_sections_in_segment (s # ss) ph own g = do {
     g \<leftarrow> process_section ph own s g;
     process_sections_in_segment ss ph own g }"

fun process_segments :: "Elf_Section list \<Rightarrow> Elf_Phdr list \<Rightarrow> u64 \<Rightarrow> Generator \<Rightarrow> Generator option" where
  "process_segments ss [] own g = Some g"
| "process_segments ss (ph # phs) own g = do {
     g \<leftarrow> process_sections_in_segment ss ph own g;
     process_segments ss phs own g }"

definition parse_elf_program_headers :: "Elf \<Rightarrow> u64 \<Rightarrow> Generator \<Rightarrow> Generator option" where
  "parse_elf_program_headers elf own g = do {
     require (elf_has_class elf);
     require (e_machine elf = EM_RISCV);
     require (e_type elf = ET_EXEC);
     process_segments (elf_sections elf) (elf_phdrs elf) own g }"

definition elf_parser :: "Elf \<Rightarrow> nat \<Rightarrow> Generator \<Rightarrow> (bool \<times> Generator) option" where
  "elf_parser elf own g = do {
     let g = map_image (set_firstChunk (elf_numChunks g) own) g;
     if \<not> elf_is_elf elf then Some (False, g)
     else do {
       g \<leftarrow> parse_elf_program_headers elf (of_nat own) g;
       Some (True, map_image (upd_hart (own - 1) (\<lambda>h. h\<lparr>lastChunk := elf_numChunks g - 1,
         numChunks := elf_numChunks g - 1 - firstChunk h + 1\<rparr>)) g) } }"

section \<open>The two checksums\<close>

lemma tool_crc_byte: "tool_CRC32_updateByte = CRC32_updateByte"
  by (intro ext) (simp add: tool_CRC32_updateByte_def CRC32_updateByte_def tool_precalcTable_def precalcTable_def
      Let_def del: nth_Cons_numeral)

lemma tool_crc: "tool_CRC32_calculate = CRC32_calculate"
  by (intro ext) (simp add: tool_CRC32_calculate_def CRC32_calculate_def tool_CRC32_calculate_ex_def
      CRC32_calculate_ex_def tool_crc_byte)

section \<open>The layout of the output\<close>

text \<open>The abstract picture: where each blob is placed, and the bytes of both tables and of the
  blob area.\<close>

definition pad8 :: "nat \<Rightarrow> nat" where "pad8 n = (8 - n mod 8) mod 8"

fun placed :: "nat \<Rightarrow> (BootChunkDesc \<times> u8 list) list \<Rightarrow> (BootChunkDesc \<times> u8 list) list" where
  "placed off [] = []"
| "placed off ((c, b) # es) = (c\<lparr>loadAddr := of_nat off\<rparr>, b) # placed (off + length b + pad8 (length b)) es"

fun chunk_table :: "junk \<Rightarrow> nat \<Rightarrow> BootChunkDesc list \<Rightarrow> u8 list" where
  "chunk_table junk i [] = chunk_bytes (junk i) zero_chunk"
| "chunk_table junk i (c # cs) = chunk_bytes (junk i) c @ chunk_table junk (Suc i) cs"

fun zi_table :: "junk \<Rightarrow> nat \<Rightarrow> BootZIChunkDesc list \<Rightarrow> u8 list" where
  "zi_table junk i [] = zi_chunk_bytes (junk i) zero_zi_chunk"
| "zi_table junk i (c # cs) = zi_chunk_bytes (junk i) c @ zi_table junk (Suc i) cs"

fun blob_area :: "(BootChunkDesc \<times> u8 list) list \<Rightarrow> u8 list" where
  "blob_area [] = []"
| "blob_area ((c, b) # es) = b @ replicate (pad8 (length b)) 0 @ blob_area es"

definition entries_ok :: "(BootChunkDesc \<times> u8 list) list \<Rightarrow> bool" where
  "entries_ok es \<longleftrightarrow> (\<forall>(c, b) \<in> set es. unat (chunk_size c) = length b \<and> b \<noteq> [])"

definition image_ok :: "BootImage \<Rightarrow> bool" where
  "image_ok img \<longleftrightarrow> length (gi_hart img) = 4 \<and> (\<forall>h \<in> set (gi_hart img). length (bh_name h) = 256) \<and>
     length (gi_set_name img) = 256 \<and> gi_signature img = replicate 144 0"

lemma pad8_eq:
  "pad8 n = (n + 7) div 8 * 8 - n" "n \<le> (n + 7) div 8 * 8"
proof -
  define q r where "q = n div 8" and "r = n mod 8"
  have n: "n = 8 * q + r" "r < 8" by (simp_all add: q_def r_def)
  have "r = 0 \<or> (r + 7) div 8 = 1" using n(2) by (cases "r = 0") (auto intro!: div_nat_eqI)
  then have d: "(n + 7) div 8 = (if r = 0 then q else q + 1)" unfolding n(1) by auto
  have p: "pad8 n = (if r = 0 then 0 else 8 - r)" unfolding pad8_def n(1) using n(2) by auto
  show "pad8 n = (n + 7) div 8 * 8 - n" "n \<le> (n + 7) div 8 * 8" unfolding d p using n by auto
qed

lemma pad8_mod: "(n + pad8 n) mod 8 = 0"
  using pad8_eq [of n] by simp

lemma calculate_padding_8:
  assumes "unat s + 7 < 2 ^ 64"
  shows "unat (calculate_padding s 8) = pad8 (unat s)"
proof -
  let ?n = "unat s"
  have "unat (s + 7) = ?n + 7" using assms by (simp add: unat_word_ariths)
  moreover have "(?n + 7) div 8 * 8 \<le> ?n + 7" by simp
  ultimately have "unat ((s + 7) div 8 * 8) = (?n + 7) div 8 * 8"
    using assms by (simp add: unat_word_ariths unat_div)
  moreover have "?n \<le> (?n + 7) div 8 * 8" "(?n + 7) div 8 * 8 - ?n = pad8 ?n"
    using pad8_eq [of ?n] by simp_all
  ultimately show ?thesis
    by (simp add: calculate_padding_def unat_sub_if_size word_size)
qed

lemma padding_0: "unat s mod 8 = 0 \<Longrightarrow> unat s + 7 < 2 ^ 64 \<Longrightarrow> calculate_padding s 8 = 0"
  using calculate_padding_8 [of s] by (simp add: pad8_def unat_eq_0)

lemma length_fields [simp]:
  "length (u32_bytes x) = 4" "length (u64_bytes y) = 8" "length (chunk_bytes j c) = 40" "length (zi_chunk_bytes j z) = 24"
  by (simp_all add: u32_bytes_def u64_bytes_def chunk_bytes_def zi_chunk_bytes_def)

lemma length_tables [simp]:
  "length (chunk_table junk i cs) = 40 * (length cs + 1)" "length (zi_table zjunk i zs) = 24 * (length zs + 1)"
proof -
  show "length (chunk_table junk i cs) = 40 * (length cs + 1)" by (induction cs arbitrary: i) simp_all
  show "length (zi_table zjunk i zs) = 24 * (length zs + 1)" by (induction zs arbitrary: i) simp_all
qed

lemma length_placed [simp]: "length (placed off es) = length es"
  by (induction off es rule: placed.induct) simp_all

lemma blob_area_placed [simp]: "blob_area (placed off es) = blob_area es"
  by (induction off es rule: placed.induct) simp_all

lemma length_concat_hart: "\<forall>h \<in> set hs. length (bh_name h) = 256 \<Longrightarrow> length (concat (map hart_bytes hs)) = 296 * length hs"
  by (induction hs) (simp_all add: hart_bytes_def)

lemma length_image_bytes: "image_ok img \<Longrightarrow> length (image_bytes img) = BOOT_IMAGE_SIZE"
  by (simp add: image_ok_def image_bytes_def length_concat_hart del: replicate.simps length_concat)

text \<open>Writing at the end of the file.\<close>

definition at_end :: "Generator \<Rightarrow> bool" where
  "at_end g \<longleftrightarrow> out_pos g = length (out_file g)"

definition appended :: "u8 list \<Rightarrow> Generator \<Rightarrow> Generator" where
  "appended bs g = g\<lparr>out_file := out_file g @ bs, out_pos := length (out_file g @ bs)\<rparr>"

lemma fwrite_at_end: "at_end g \<Longrightarrow> fwrite bs g = appended bs g"
  by (simp add: at_end_def fwrite_def appended_def splice_def)

lemma at_end_appended [simp]: "at_end (appended bs g)"
  by (simp add: at_end_def appended_def)

lemma appended_simps [simp]:
  "appended ys (appended xs g) = appended (xs @ ys) g" "bootImage (appended xs g) = bootImage g"
  "chunkTable (appended xs g) = chunkTable g" "ziChunkTable (appended xs g) = ziChunkTable g"
  "out_file (appended xs g) = out_file g @ xs" "out_pos (appended xs g) = length (out_file g) + length xs"
  "bootImagePaddedSize (appended xs g) = bootImagePaddedSize g"
  "chunkTablePaddedSize (appended xs g) = chunkTablePaddedSize g"
  "ziChunkTablePaddedSize (appended xs g) = ziChunkTablePaddedSize g"
  by (simp_all add: appended_def)

lemma appended_nil: "at_end g \<Longrightarrow> appended [] g = g"
  by (simp add: appended_def at_end_def)

lemma write_pad_at_end:
  "at_end g \<Longrightarrow> write_pad pad g = appended (replicate (unat pad) 0) g"
  by (simp add: write_pad_def fwrite_at_end)

lemma chunk_loop_layout:
  assumes "at_end g" "chunkTable g = pre @ es" "entries_ok es" "q mod 8 = 0"
    and "unat (blob_base g) + q + length (blob_area es) < 2 ^ 63"
  shows "fwrite (chunk_bytes (junk (length (pre @ es))) zero_chunk) (chunk_loop junk (length pre) (length es) (of_nat q) g) =
    appended (chunk_table junk (length pre) (map fst (placed (unat (blob_base g) + q) es)))
      (g\<lparr>chunkTable := pre @ placed (unat (blob_base g) + q) es\<rparr>)"
  using assms
proof (induction es arbitrary: pre g q)
  case Nil
  have "g\<lparr>chunkTable := pre\<rparr> = g" using Nil.prems(2) by simp
  then show ?case using Nil.prems(1) by (simp add: fwrite_at_end)
next
  case (Cons e es)
  obtain c b where e: "e = (c, b)" by (cases e)
  let ?B = "unat (blob_base g)"
  let ?c = "c\<lparr>loadAddr := of_nat (?B + q)\<rparr>" and ?q = "q + length b + pad8 (length b)"
  let ?g = "appended (chunk_bytes (junk (length pre)) ?c) (g\<lparr>chunkTable := (pre @ [(?c, b)]) @ es\<rparr>)"
  have sz: "unat (chunk_size c) = length b" "entries_ok es" using Cons.prems(3) e by (auto simp: entries_ok_def)
  have small: "?B + ?q + length (blob_area es) < 2 ^ 63" using Cons.prems(5) e by simp
  have qq: "unat (of_nat q :: u64) = q" using small by (intro unat_of_nat_u64) simp
  have p0: "calculate_padding (of_nat q) 8 = 0" using Cons.prems(4) small qq by (intro padding_0) simp_all
  have addr: "blob_base g + of_nat q + calculate_padding (of_nat q) 8 = of_nat (?B + q)" using p0 by simp
  have "unat (calculate_padding (chunk_size c) 8) = pad8 (length b)"
    using calculate_padding_8 [of "chunk_size c"] sz(1) small by simp
  then have pad: "calculate_padding (chunk_size c) 8 = of_nat (pad8 (length b))" by (simp flip: \<open>_ = pad8 _\<close>)
  have size: "chunk_size c = of_nat (length b)" by (simp flip: sz(1))
  have cum: "of_nat q + (chunk_size c + calculate_padding (chunk_size c) 8) = of_nat ?q"
    unfolding pad unfolding size by simp
  have at: "at_end (g\<lparr>chunkTable := (pre @ [(?c, b)]) @ es\<rparr>)" using Cons.prems(1) by (simp add: at_end_def)
  have nth: "chunkTable g ! length pre = (c, b)" "(chunkTable g)[length pre := (?c, b)] = (pre @ [(?c, b)]) @ es"
    using Cons.prems(2) e by simp_all
  have step: "chunk_loop junk (length pre) (length (e # es)) (of_nat q) g =
      chunk_loop junk (length (pre @ [(?c, b)])) (length es) (of_nat ?q) ?g"
    using fwrite_at_end [OF at] by (simp add: nth addr cum Let_def del: of_nat_add)
  have base: "blob_base ?g = blob_base g" using Cons.prems(2) e by (simp add: blob_base_def)
  have q8: "?q mod 8 = 0" using Cons.prems(4) pad8_mod [of "length b"] by (metis add.assoc add_0 mod_add_left_eq)
  have ih: "fwrite (chunk_bytes (junk (length ((pre @ [(?c, b)]) @ es))) zero_chunk)
      (chunk_loop junk (length (pre @ [(?c, b)])) (length es) (of_nat ?q) ?g) =
    appended (chunk_table junk (length (pre @ [(?c, b)])) (map fst (placed (?B + ?q) es)))
      (?g\<lparr>chunkTable := (pre @ [(?c, b)]) @ placed (?B + ?q) es\<rparr>)"
    using Cons.IH [of ?g "pre @ [(?c, b)]" ?q] sz(2) q8 small base by (simp del: append_assoc)
  have l: "length (pre @ e # es) = length ((pre @ [(?c, b)]) @ es)" by simp
  show ?case unfolding step l ih by (simp add: e add.assoc appended_def)
qed

lemma zi_loop_layout:
  "at_end g \<Longrightarrow> fwrite (zi_chunk_bytes (junk (i + length zs)) zero_zi_chunk) (zi_chunk_loop junk i zs g) =
     appended (zi_table junk i zs) g"
proof (induction zs arbitrary: i g)
  case Nil
  then show ?case by (simp add: fwrite_at_end)
next
  case (Cons z zs)
  show ?case using Cons.IH [of "appended (zi_chunk_bytes (junk i) z) g" "Suc i"] Cons.prems
    by (simp add: fwrite_at_end)
qed

lemma blob_loop_layout:
  assumes "at_end g" "entries_ok es" "length (blob_area es) < 2 ^ 63"
  shows "blob_loop es g = appended (blob_area es) g"
  using assms
proof (induction es arbitrary: g)
  case Nil
  then show ?case by (simp add: appended_nil)
next
  case (Cons e es)
  obtain c b where e: "e = (c, b)" by (cases e)
  have sz: "unat (chunk_size c) = length b" "entries_ok es" using Cons.prems(2) e by (auto simp: entries_ok_def)
  have "unat (calculate_padding (chunk_size c) 8) = pad8 (length b)"
    using calculate_padding_8 [of "chunk_size c"] sz(1) Cons.prems(3) e by simp
  then show ?case using Cons.IH [of "appended (b @ replicate (pad8 (length b)) 0) g"] Cons.prems sz
    by (simp add: e fwrite_at_end write_pad_at_end)
qed

text \<open>The whole file, and its header.\<close>

definition payload_base :: "Generator \<Rightarrow> nat" where
  "payload_base g = BOOT_IMAGE_SIZE + 40 * (length (chunkTable g) + 1) + 24 * (length (ziChunkTable g) + 1)"

definition payload_small :: "Generator \<Rightarrow> bool" where
  "payload_small g \<longleftrightarrow> payload_base g + length (blob_area (chunkTable g)) < 2 ^ 63"

definition filled_image :: "Generator \<Rightarrow> BootImage" where
  "filled_image g = (bootImage g)\<lparr>gi_chunkTableOffset := of_nat BOOT_IMAGE_SIZE,
     gi_ziChunkTableOffset := of_nat (BOOT_IMAGE_SIZE + 40 * (length (chunkTable g) + 1)),
     gi_headerLength := of_nat (payload_base g),
     gi_bootImageLength := of_nat (payload_base g + length (blob_area (chunkTable g)))\<rparr>"

definition final_image :: "Generator \<Rightarrow> BootImage" where
  "final_image g = (filled_image g)\<lparr>gi_headerCrc := CRC32_calculate (image_bytes (filled_image g))\<rparr>"

definition payload_file :: "junk \<Rightarrow> junk \<Rightarrow> Generator \<Rightarrow> u8 list" where
  "payload_file junk zjunk g = image_bytes (final_image g) @
     chunk_table junk 0 (map fst (placed (payload_base g) (chunkTable g))) @ zi_table zjunk 0 (ziChunkTable g) @
     blob_area (chunkTable g)"

lemma padding_multiple:
  "n < 2 ^ 60 \<Longrightarrow> calculate_padding (of_nat (8 * n)) 8 = 0"
proof -
  assume n: "n < 2 ^ 60"
  have "unat (of_nat (8 * n) :: u64) = 8 * n" using n by (intro unat_of_nat_u64) simp
  then show ?thesis using n by (intro padding_0) simp_all
qed

lemma header_padding: "calculate_padding 1632 8 = 0"
  using padding_multiple [of 204] by simp

lemma table_padding:
  "40 * (n + 1) < 2 ^ 63 \<Longrightarrow> calculate_padding (40 * (of_nat n + 1)) 8 = 0"
  "24 * (n + 1) < 2 ^ 63 \<Longrightarrow> calculate_padding (24 * (of_nat n + 1)) 8 = 0"
  using padding_multiple [of "5 * (n + 1)"] padding_multiple [of "3 * (n + 1)"] by (simp_all add: algebra_simps)

lemma generate_header_at_end:
  "image_ok (bootImage g) \<Longrightarrow> length (out_file g) \<le> BOOT_IMAGE_SIZE \<Longrightarrow>
    generate_header g = g\<lparr>out_file := image_bytes (bootImage g), out_pos := BOOT_IMAGE_SIZE,
      bootImagePaddedSize := of_nat BOOT_IMAGE_SIZE\<rparr>"
  using length_image_bytes [of "bootImage g"]
  by (simp add: generate_header_def header_padding fwrite_def write_pad_def splice_def Let_def)

lemma generate_header_again:
  "image_ok (bootImage g) \<Longrightarrow> length h = BOOT_IMAGE_SIZE \<Longrightarrow> out_file g = h @ rest \<Longrightarrow>
    out_file (generate_header g) = image_bytes (bootImage g) @ rest \<and> bootImage (generate_header g) = bootImage g \<and>
    chunkTable (generate_header g) = chunkTable g"
  using length_image_bytes [of "bootImage g"]
  by (simp add: generate_header_def header_padding fwrite_def write_pad_def splice_def Let_def)

lemma generate_chunks_layout:
  assumes "at_end g" "length (out_file g) = BOOT_IMAGE_SIZE" "entries_ok (chunkTable g)" "payload_small g"
  shows "generate_chunks junk g = Some ((appended
      (chunk_table junk 0 (map fst (placed (payload_base g) (chunkTable g))))
      (map_image (\<lambda>img. img\<lparr>gi_chunkTableOffset := of_nat BOOT_IMAGE_SIZE\<rparr>) g))
    \<lparr>chunkTable := placed (payload_base g) (chunkTable g),
     chunkTablePaddedSize := of_nat (40 * (length (chunkTable g) + 1))\<rparr>)"
proof -
  let ?g = "map_image (\<lambda>img. img\<lparr>gi_chunkTableOffset := of_nat BOOT_IMAGE_SIZE\<rparr>) g"
  let ?n = "length (chunkTable g)" and ?z = "length (ziChunkTable g)"
  have small: "40 * (?n + 1) < 2 ^ 63" "24 * (?z + 1) < 2 ^ 63"
    using assms(4) by (simp_all add: payload_small_def payload_base_def)
  have base: "blob_base ?g = of_nat (payload_base g)"
    using table_padding(1) [OF small(1)] table_padding(2) [OF small(2)]
    by (simp add: blob_base_def payload_base_def map_image_def Let_def algebra_simps)
  have ubase: "unat (blob_base ?g) = payload_base g"
    unfolding base using assms(4) by (intro unat_of_nat_u64) (simp add: payload_small_def)
  have end': "at_end ?g" using assms(1) by (simp add: at_end_def map_image_def)
  have tab: "chunkTable ?g = chunkTable g" by (simp add: map_image_def)
  have loop: "fwrite (chunk_bytes (junk ?n) zero_chunk) (chunk_loop junk 0 ?n 0 ?g) =
      appended (chunk_table junk 0 (map fst (placed (payload_base g) (chunkTable g))))
        (?g\<lparr>chunkTable := placed (payload_base g) (chunkTable g)\<rparr>)"
    using chunk_loop_layout [OF end', of "[]" "chunkTable g" 0 junk, unfolded ubase tab] assms(3,4)
    by (simp add: payload_small_def)
  have pos: "out_pos g = BOOT_IMAGE_SIZE" using assms(1,2) by (simp add: at_end_def)
  have pad: "write_pad 0 (appended bs h) = appended bs h" for bs h
    by (simp add: write_pad_at_end)
  have "generate_chunks junk g = (let g' = write_pad (calculate_padding (CHUNK_DESC_SIZE * (of_nat ?n + 1)) PAD_SIZE)
      (fwrite (chunk_bytes (junk ?n) zero_chunk) (chunk_loop junk 0 ?n 0 ?g)) in
      Some (g'\<lparr>chunkTablePaddedSize := of_nat (out_pos g') - gi_chunkTableOffset (bootImage g')\<rparr>))"
    using pos header_padding by (simp add: generate_chunks_def require_def map_image_def Let_def)
  then show ?thesis unfolding loop table_padding(1) [OF small(1)] pad
    using assms(2) by (simp add: Let_def map_image_def appended_def)
qed

lemma generate_ziChunks_layout:
  assumes "at_end g" "length (out_file g) = BOOT_IMAGE_SIZE + 40 * (length (chunkTable g) + 1)"
    and "gi_chunkTableOffset (bootImage g) = of_nat BOOT_IMAGE_SIZE" "payload_small g"
  shows "generate_ziChunks zjunk g = Some ((appended (zi_table zjunk 0 (ziChunkTable g))
      (map_image (\<lambda>img. img\<lparr>gi_ziChunkTableOffset := of_nat (BOOT_IMAGE_SIZE + 40 * (length (chunkTable g) + 1))\<rparr>) g))
    \<lparr>ziChunkTablePaddedSize := of_nat (24 * (length (ziChunkTable g) + 1))\<rparr>)"
proof -
  let ?n = "length (chunkTable g)" and ?z = "length (ziChunkTable g)"
  let ?o = "of_nat (BOOT_IMAGE_SIZE + 40 * (?n + 1)) :: u64"
  let ?g = "map_image (\<lambda>img. img\<lparr>gi_ziChunkTableOffset := ?o\<rparr>) g"
  have small: "40 * (?n + 1) < 2 ^ 63" "24 * (?z + 1) < 2 ^ 63"
    using assms(4) by (simp_all add: payload_small_def payload_base_def)
  have pos: "out_pos g = BOOT_IMAGE_SIZE + 40 * (?n + 1)" using assms(1,2) by (simp add: at_end_def)
  have end': "at_end ?g" using assms(1) by (simp add: at_end_def map_image_def)
  have loop: "fwrite (zi_chunk_bytes (zjunk ?z) zero_zi_chunk) (zi_chunk_loop zjunk 0 (ziChunkTable g) ?g) =
      appended (zi_table zjunk 0 (ziChunkTable g)) ?g"
    using zi_loop_layout [OF end', of zjunk 0 "ziChunkTable g"] by simp
  have pad: "write_pad 0 (appended bs h) = appended bs h" for bs h
    by (simp add: write_pad_at_end)
  have check: "?o = of_nat BOOT_IMAGE_SIZE + of_nat ?n * CHUNK_DESC_SIZE + CHUNK_DESC_SIZE +
      calculate_padding (CHUNK_DESC_SIZE * (of_nat ?n + 1)) PAD_SIZE"
    unfolding table_padding(1) [OF small(1)] by (simp add: algebra_simps)
  have tab: "chunkTable ?g = chunkTable g" "ziChunkTable ?g = ziChunkTable g" by (simp_all add: map_image_def)
  have fields: "gi_ziChunkTableOffset (bootImage ?g) = ?o" "gi_chunkTableOffset (bootImage ?g) = of_nat BOOT_IMAGE_SIZE"
    using assms(3) by (simp_all add: map_image_def)
  have req: "require (gi_ziChunkTableOffset (bootImage ?g) = gi_chunkTableOffset (bootImage ?g) +
      of_nat ?n * CHUNK_DESC_SIZE + CHUNK_DESC_SIZE + calculate_padding (CHUNK_DESC_SIZE * (of_nat ?n + 1)) PAD_SIZE) = Some ()"
    unfolding fields require_def using check by (rule if_P)
  have "generate_ziChunks zjunk g = (let g' = write_pad (calculate_padding (ZI_CHUNK_DESC_SIZE * (of_nat ?z + 1)) PAD_SIZE)
      (fwrite (zi_chunk_bytes (zjunk ?z) zero_zi_chunk) (zi_chunk_loop zjunk 0 (ziChunkTable g) ?g)) in
      Some (g'\<lparr>ziChunkTablePaddedSize := of_nat (out_pos g') - gi_ziChunkTableOffset (bootImage g')\<rparr>))"
    unfolding generate_ziChunks_def pos Let_def tab req by (simp only: Option.bind.simps)
  then show ?thesis unfolding loop table_padding(2) [OF small(2)] pad
    using assms(2) by (simp add: Let_def map_image_def appended_def)
qed

lemma bootImage_map_image: "bootImage (map_image f g) = f (bootImage g)"
  by (simp add: map_image_def)

lemma hd_placed: "es \<noteq> [] \<Longrightarrow> loadAddr (fst (placed off es ! 0)) = of_nat off"
  by (cases "(off, es)" rule: placed.cases) simp_all

lemma entries_ok_placed: "entries_ok (placed off es) = entries_ok es"
  by (induction off es rule: placed.induct) (auto simp: entries_ok_def)

lemma image_ok_simps [simp]:
  "image_ok (img\<lparr>gi_headerCrc := c\<rparr>) = image_ok img" "image_ok (img\<lparr>gi_chunkTableOffset := x\<rparr>) = image_ok img"
  "image_ok (img\<lparr>gi_ziChunkTableOffset := x\<rparr>) = image_ok img" "image_ok (img\<lparr>gi_headerLength := x\<rparr>) = image_ok img"
  "image_ok (img\<lparr>gi_bootImageLength := x\<rparr>) = image_ok img"
  by (simp_all add: image_ok_def)

lemma generate_payload_layout:
  assumes "image_ok (bootImage g)" "entries_ok (chunkTable g)" "chunkTable g \<noteq> []" "payload_small g"
  shows "\<exists>g'. generate_payload junk zjunk g = Some g' \<and> out_file g' = payload_file junk zjunk g \<and>
    bootImage g' = final_image g \<and> chunkTable g' = placed (payload_base g) (chunkTable g)"
proof -
  let ?n = "length (chunkTable g)" and ?z = "length (ziChunkTable g)"
  let ?es = "placed (payload_base g) (chunkTable g)"
  define h where "h = image_bytes (bootImage g)"
  define ct where "ct = chunk_table junk 0 (map fst ?es)"
  define zt where "zt = zi_table zjunk 0 (ziChunkTable g)"
  define img2 where "img2 = (bootImage g)\<lparr>gi_chunkTableOffset := of_nat BOOT_IMAGE_SIZE,
    gi_ziChunkTableOffset := of_nat (BOOT_IMAGE_SIZE + 40 * (?n + 1))\<rparr>"
  have len: "length h = BOOT_IMAGE_SIZE" "length ct = 40 * (?n + 1)" "length zt = 24 * (?z + 1)"
    using length_image_bytes [OF assms(1)] by (simp_all add: h_def ct_def zt_def)
  let ?g1 = "g\<lparr>out_file := h, out_pos := BOOT_IMAGE_SIZE, bootImagePaddedSize := of_nat BOOT_IMAGE_SIZE\<rparr>"
  have 1: "generate_header (g\<lparr>out_file := [], out_pos := 0\<rparr>) = ?g1"
    using generate_header_at_end [of "g\<lparr>out_file := [], out_pos := 0\<rparr>"] assms(1) by (simp add: h_def)
  let ?g2 = "(appended ct (map_image (\<lambda>img. img\<lparr>gi_chunkTableOffset := of_nat BOOT_IMAGE_SIZE\<rparr>) ?g1))
    \<lparr>chunkTable := ?es, chunkTablePaddedSize := of_nat (40 * (?n + 1))\<rparr>"
  have base: "payload_base ?g1 = payload_base g" "payload_base ?g2 = payload_base g"
    by (simp_all add: payload_base_def map_image_def)
  have 2: "generate_chunks junk ?g1 = Some ?g2"
    using generate_chunks_layout [of ?g1 junk] assms(2,4) len(1) base
    by (simp add: at_end_def payload_small_def ct_def)
  let ?g3 = "(appended zt (map_image (\<lambda>img. img\<lparr>gi_ziChunkTableOffset := of_nat (BOOT_IMAGE_SIZE + 40 * (?n + 1))\<rparr>) ?g2))
    \<lparr>ziChunkTablePaddedSize := of_nat (24 * (?z + 1))\<rparr>"
  have 3: "generate_ziChunks zjunk ?g2 = Some ?g3"
    using generate_ziChunks_layout [of ?g2 zjunk] assms(4) len(1,2) base
    by (simp add: at_end_def payload_small_def zt_def map_image_def)
  have pos3: "out_pos ?g3 = payload_base g" using len by (simp add: payload_base_def map_image_def)
  let ?g4 = "map_image (\<lambda>img. img\<lparr>gi_headerLength := of_nat (out_pos ?g3)\<rparr>) ?g3"
  have g4: "chunkTable ?g4 = ?es" "ziChunkTable ?g4 = ziChunkTable g" "out_file ?g4 = h @ ct @ zt" "at_end ?g4"
    "bootImage ?g4 = img2\<lparr>gi_headerLength := of_nat (payload_base g)\<rparr>"
    "bootImagePaddedSize ?g4 = of_nat BOOT_IMAGE_SIZE" "chunkTablePaddedSize ?g4 = of_nat (40 * (?n + 1))"
    "ziChunkTablePaddedSize ?g4 = of_nat (24 * (?z + 1))"
    using pos3 by (simp_all add: map_image_def at_end_def appended_def img2_def)
  have len4: "gi_headerLength (bootImage ?g4) =
      bootImagePaddedSize ?g4 + chunkTablePaddedSize ?g4 + ziChunkTablePaddedSize ?g4"
    unfolding g4 by (simp add: payload_base_def)
  have req4: "require (gi_headerLength (bootImage ?g4) =
      bootImagePaddedSize ?g4 + chunkTablePaddedSize ?g4 + ziChunkTablePaddedSize ?g4) = Some ()"
    unfolding require_def using len4 by (rule if_P)
  let ?g5 = "appended (blob_area (chunkTable g)) ?g4"
  have 5: "generate_blobs ?g4 = Some ?g5"
  proof -
    have small: "24 * (?z + 1) < 2 ^ 63" using assms(4) by (simp add: payload_small_def payload_base_def)
    have "loadAddr (fst (chunkTable ?g4 ! 0)) = of_nat (payload_base g)"
      unfolding g4(1) by (rule hd_placed [OF assms(3)])
    also have "\<dots> = gi_ziChunkTableOffset (bootImage ?g4) + of_nat ?z * ZI_CHUNK_DESC_SIZE + ZI_CHUNK_DESC_SIZE +
        calculate_padding (ZI_CHUNK_DESC_SIZE * (of_nat ?z + 1)) PAD_SIZE"
      unfolding g4(5) table_padding(2) [OF small] by (simp add: payload_base_def img2_def)
    finally have chk: "loadAddr (fst (chunkTable ?g4 ! 0)) = gi_ziChunkTableOffset (bootImage ?g4) +
        of_nat ?z * ZI_CHUNK_DESC_SIZE + ZI_CHUNK_DESC_SIZE +
        calculate_padding (ZI_CHUNK_DESC_SIZE * (of_nat ?z + 1)) PAD_SIZE" .
    have req: "require (loadAddr (fst (chunkTable ?g4 ! 0)) = gi_ziChunkTableOffset (bootImage ?g4) +
        of_nat ?z * ZI_CHUNK_DESC_SIZE + ZI_CHUNK_DESC_SIZE +
        calculate_padding (ZI_CHUNK_DESC_SIZE * (of_nat ?z + 1)) PAD_SIZE) = Some ()"
      unfolding require_def using chk by (rule if_P)
    have ne: "require (chunkTable ?g4 \<noteq> []) = Some ()"
      using assms(3) unfolding g4(1) by (cases "(payload_base g, chunkTable g)" rule: placed.cases) (simp_all add: require_def)
    have "generate_blobs ?g4 = Some (blob_loop (chunkTable ?g4) ?g4)"
      unfolding generate_blobs_def Let_def ne g4(2) req by (simp only: Option.bind.simps)
    also have "blob_loop (chunkTable ?g4) ?g4 = appended (blob_area ?es) ?g4"
      using assms(2,4) blob_loop_layout [OF g4(4), of ?es]
      unfolding g4(1) by (simp add: entries_ok_placed payload_small_def)
    finally show ?thesis by simp
  qed
  have pos5: "out_pos ?g5 = payload_base g + length (blob_area (chunkTable g))"
    unfolding appended_simps(6) g4(3) by (simp add: len payload_base_def)
  let ?g6 = "map_image (\<lambda>img. img\<lparr>gi_bootImageLength := of_nat (out_pos ?g5)\<rparr>) ?g5"
  let ?g7 = "map_image (\<lambda>img. img\<lparr>gi_headerCrc := tool_CRC32_calculate (image_bytes img)\<rparr>) ?g6"
  have "bootImage ?g6 = filled_image g"
    unfolding bootImage_map_image [of _ ?g5] appended_simps(2) [of _ ?g4] g4(5) pos5 by (simp add: filled_image_def img2_def)
  then have img7: "bootImage ?g7 = final_image g"
    by (simp add: map_image_def final_image_def tool_crc)
  have file7: "out_file ?g7 = h @ ct @ zt @ blob_area (chunkTable g)" "chunkTable ?g7 = ?es"
    using g4(1,3) by (simp_all add: map_image_def)
  have ok: "image_ok (bootImage ?g7)" unfolding img7 using assms(1) by (simp add: final_image_def filled_image_def)
  have pf: "payload_file junk zjunk g = image_bytes (final_image g) @ ct @ zt @ blob_area (chunkTable g)"
    by (simp only: payload_file_def ct_def zt_def)
  have "generate_payload junk zjunk g = Some (generate_header ?g7)"
    unfolding generate_payload_def Let_def 1
    by (simp only: 2 3 5 req4 Option.bind.simps)
  moreover have "out_file (generate_header ?g7) = payload_file junk zjunk g \<and>
      bootImage (generate_header ?g7) = final_image g \<and> chunkTable (generate_header ?g7) = ?es"
    using generate_header_again [OF ok len(1) file7(1)]
    unfolding img7 file7(2) pf .
  ultimately show ?thesis by blast
qed

end
