(* ===== verification/Payload_Boot.thy ===== *)
theory Payload_Boot
  imports Payload
begin

text \<open>
  The generator and the boot monitor together: an image written by \<open>generate_payload\<close> is
  read back by the monitor's own accessors, passes its validation, and its download state puts
  the payloads where the configuration wants them.
\<close>

section \<open>Fields of a structure in memory\<close>

lemma le_nat_bytes8: "(of_nat (le_nat (le_bytes 8 (unat (c :: u64)))) :: u64) = c"
proof -
  have "unat c < 256 ^ 8" using unsigned_less [of c] by simp
  then show ?thesis by (simp add: le_nat_le_bytes)
qed

lemma read_u32_bytes: "mem_read m a 4 = u32_bytes x \<Longrightarrow> read_u32 m a = x"
  by (simp add: read_u32_def u32_bytes_def le_nat_bytes4)

lemma read_u64_bytes: "mem_read m a 8 = u64_bytes x \<Longrightarrow> read_u64 m a = x"
  by (simp add: read_u64_def u64_bytes_def le_nat_bytes8)

text \<open>Reading a concatenation is reading its parts.\<close>

lemma mem_read_parts:
  "mem_read m a n = xs @ ys \<longleftrightarrow> length xs + length ys = n \<and> mem_read m a (length xs) = xs \<and>
     mem_read m (a + of_nat (length xs)) (length ys) = ys"
  using mem_read_append [of m a "length xs" "length ys"] length_mem_read [of m a n]
  by (metis append_eq_append_conv length_append length_mem_read)

lemma read_chunk_bytes:
  assumes "mem_read m a 40 = chunk_bytes j c"
  shows "read_chunk m a = c"
  using assms unfolding chunk_bytes_def mem_read_parts
  by (cases c) (simp add: read_chunk_def read_u32_bytes read_u64_bytes add.assoc)

lemma read_zi_chunk_bytes:
  assumes "mem_read m a 24 = zi_chunk_bytes j c"
  shows "read_zi_chunk m a = c"
  using assms unfolding zi_chunk_bytes_def mem_read_parts
  by (cases c) (simp add: read_zi_chunk_def read_u32_bytes read_u64_bytes add.assoc)

lemma hart_bytes_in_memory:
  assumes "mem_read m (p + 40 + of_nat (296 * i)) 296 = hart_bytes h" "length (bh_name h) = 256"
  shows "bi_hart m p i = h"
proof -
  define a where "a = p + 40 + of_nat (296 * i)"
  have b: "mem_read m a 296 = hart_bytes h" using assms(1) unfolding a_def .
  have "mem_read m a 296 ! 8 = privMode h" "mem_read m a 296 ! 9 = bh_flags h"
    unfolding b by (simp_all add: hart_bytes_def nth_append)
  then have "m (a + 8) = privMode h" "m (a + 9) = bh_flags h" by (simp_all add: nth_mem_read)
  then show ?thesis
    using b assms(2) unfolding hart_bytes_def mem_read_parts bi_hart_def Let_def a_def [symmetric]
    by (cases h) (auto simp: read_u64_bytes add.assoc)
qed

lemma harts_in_memory:
  assumes "mem_read m (p + 40 + of_nat (296 * i)) (296 * length hs) = concat (map hart_bytes hs)"
    and "\<forall>h \<in> set hs. length (bh_name h) = 256" "k < length hs"
  shows "bi_hart m p (i + k) = hs ! k"
  using assms
proof (induction hs arbitrary: i k)
  case Nil
  then show ?case by simp
next
  case (Cons h hs)
  have len: "length (hart_bytes h) = 296" using Cons.prems(2) by (simp add: hart_bytes_def)
  have parts: "mem_read m (p + 40 + of_nat (296 * i)) 296 = hart_bytes h"
    "mem_read m (p + 40 + of_nat (296 * i) + of_nat 296) (296 * length hs) = concat (map hart_bytes hs)"
    using Cons.prems(1,2) length_concat_hart [of hs]
    unfolding list.map concat.simps mem_read_parts len by (simp_all del: length_concat)
  have "p + 40 + of_nat (296 * i) + of_nat 296 = p + 40 + (of_nat (296 * Suc i) :: u64)" by (simp add: algebra_simps)
  then show ?case using hart_bytes_in_memory [OF parts(1)] parts(2) Cons.prems(2,3) Cons.IH [of "Suc i" "k - 1"]
    by (cases k) simp_all
qed

section \<open>Tables and blobs in memory\<close>

lemma chunk_table_in_memory:
  assumes "mem_read m a (40 * (length cs + 1)) = chunk_table junk i cs" "\<forall>c \<in> set cs. chunk_size c \<noteq> 0"
  shows "chunks_at m a cs"
  using assms
proof (induction cs arbitrary: a i)
  case Nil
  then have "read_chunk m a = zero_chunk" by (intro read_chunk_bytes) simp
  then show ?case by (simp add: zero_chunk_def)
next
  case (Cons c cs)
  have "mem_read m a 40 = chunk_bytes (junk i) c" "mem_read m (a + 40) (40 * (length cs + 1)) = chunk_table junk (Suc i) cs"
    using Cons.prems(1) unfolding chunk_table.simps mem_read_parts by simp_all
  then show ?case using Cons read_chunk_bytes by simp
qed

lemma chunks_at_drop: "chunks_at m a cs \<Longrightarrow> k \<le> length cs \<Longrightarrow> chunks_at m (a + 40 * of_nat k) (drop k cs)"
proof (induction cs arbitrary: a k)
  case Nil
  then show ?case by simp
next
  case (Cons c cs)
  show ?case
  proof (cases k)
    case 0
    then show ?thesis using Cons.prems by simp
  next
    case (Suc n)
    have e: "a + 40 * of_nat k = a + 40 + 40 * of_nat n" unfolding Suc by (simp add: algebra_simps)
    have "chunks_at m (a + 40 + 40 * of_nat n) (drop n cs)" using Cons.IH [of "a + 40" n] Cons.prems Suc by simp
    then show ?thesis unfolding e unfolding Suc by (simp only: drop_Suc_Cons)
  qed
qed

lemma zi_table_in_memory:
  assumes "mem_read m a (24 * (length zs + 1)) = zi_table junk i zs" "k \<le> length zs"
  shows "read_zi_chunk m (a + 24 * of_nat k) = (zs @ [zero_zi_chunk]) ! k"
  using assms
proof (induction zs arbitrary: a i k)
  case Nil
  then show ?case by (simp add: read_zi_chunk_bytes)
next
  case (Cons z zs)
  have p: "mem_read m a 24 = zi_chunk_bytes (junk i) z" "mem_read m (a + 24) (24 * (length zs + 1)) = zi_table junk (Suc i) zs"
    using Cons.prems(1) unfolding zi_table.simps mem_read_parts by simp_all
  show ?case using Cons.IH [OF p(2), of "k - 1"] Cons.prems(2) read_zi_chunk_bytes [OF p(1)]
    by (cases k) (simp_all add: algebra_simps)
qed

lemma blobs_in_memory:
  assumes "mem_read m (img + of_nat off) (length (blob_area es)) = blob_area es" "(c, b) \<in> set (placed off es)"
  shows "mem_read m (img + loadAddr c) (length b) = b"
  using assms
proof (induction off es rule: placed.induct)
  case (1 off)
  then show ?case by simp
next
  case (2 off c' b' es)
  have "mem_read m (img + of_nat off) (length b') = b'"
    "mem_read m (img + of_nat (off + length b' + pad8 (length b'))) (length (blob_area es)) = blob_area es"
    using 2(2) unfolding blob_area.simps mem_read_parts by (simp_all add: add.assoc)
  then show ?case using 2(1,3) by auto
qed

section \<open>The header\<close>

definition payload_ok :: "Generator \<Rightarrow> bool" where
  "payload_ok g \<longleftrightarrow> image_ok (bootImage g) \<and> gi_magic (bootImage g) = mHSS_BOOT_MAGIC \<and>
     gi_version (bootImage g) = 1 \<and> gi_headerCrc (bootImage g) = 0 \<and> entries_ok (chunkTable g) \<and>
     chunkTable g \<noteq> [] \<and> payload_small g"

lemma image_bytes_split:
  assumes "image_ok img"
  shows "\<exists>A B. length A = 16 \<and> length B = 1468 \<and>
    (\<forall>c. image_bytes (img\<lparr>gi_headerCrc := c\<rparr>) = A @ u32_bytes c @ B @ replicate 144 0)"
proof (intro exI conjI allI)
  let ?A = "u32_bytes (gi_magic img) @ u32_bytes (gi_version img) @ u64_bytes (gi_headerLength img)"
  let ?B = "replicate 4 0 @ u64_bytes (gi_chunkTableOffset img) @ u64_bytes (gi_ziChunkTableOffset img) @
    concat (map hart_bytes (gi_hart img)) @ gi_set_name img @ u64_bytes (gi_bootImageLength img)"
  show "length ?A = 16" by simp
  show "length ?B = 1468" using assms by (simp add: image_ok_def length_concat_hart del: length_concat)
  show "image_bytes (img\<lparr>gi_headerCrc := c\<rparr>) = ?A @ u32_bytes c @ ?B @ replicate 144 0" for c
    using assms by (simp add: image_bytes_def image_ok_def)
qed

lemma le_bytes_0: "le_bytes n 0 = replicate n 0"
  by (induction n) simp_all

lemma zero_crc_bytes: "u32_bytes 0 = replicate 4 0"
  by (simp only: u32_bytes_def unat_0 le_bytes_0)

text \<open>The checksum that is stored is the one the monitor computes.\<close>

lemma shadow_of_image:
  assumes "image_ok img" "gi_headerCrc img = 0"
  shows "shadow_header (image_bytes (img\<lparr>gi_headerCrc := c\<rparr>)) = image_bytes img"
proof -
  obtain A B where AB: "length A = 16" "length B = 1468"
    "\<And>c. image_bytes (img\<lparr>gi_headerCrc := c\<rparr>) = A @ u32_bytes c @ B @ replicate 144 0"
    using image_bytes_split [OF assms(1)] by blast
  have same: "img\<lparr>gi_headerCrc := 0\<rparr> = img" using assms(2) by (cases img) simp
  have "image_bytes img = A @ replicate 4 0 @ B @ replicate 144 0"
    using AB(3) [of 0] unfolding zero_crc_bytes same .
  moreover have "shadow_header (A @ u32_bytes c @ B @ replicate 144 0) = A @ replicate 4 0 @ B @ replicate 144 0"
    using AB(1,2) by (simp add: shadow_header_def splice_def)
  ultimately show ?thesis by (simp add: AB(3))
qed

lemma header_fields:
  assumes "mem_read m p BOOT_IMAGE_SIZE = image_bytes img" "image_ok img"
  shows "bi_magic m p = gi_magic img" "bi_version m p = gi_version img" "bi_headerCrc m p = gi_headerCrc img"
    "bi_chunkTableOffset m p = gi_chunkTableOffset img" "bi_ziChunkTableOffset m p = gi_ziChunkTableOffset img"
    "k < 4 \<Longrightarrow> bi_hart m p k = gi_hart img ! k"
proof -
  have ok: "length (gi_hart img) = 4" "\<forall>h \<in> set (gi_hart img). length (bh_name h) = 256" "length (gi_set_name img) = 256"
    using assms(2) by (simp_all add: image_ok_def)
  note parts = assms(1) [unfolded image_bytes_def mem_read_parts length_fields]
  show "bi_magic m p = gi_magic img" "bi_version m p = gi_version img" "bi_headerCrc m p = gi_headerCrc img"
    "bi_chunkTableOffset m p = gi_chunkTableOffset img" "bi_ziChunkTableOffset m p = gi_ziChunkTableOffset img"
    using parts by (simp_all add: bi_magic_def bi_version_def bi_headerCrc_def bi_chunkTableOffset_def
        bi_ziChunkTableOffset_def read_u32_bytes read_u64_bytes add.assoc)
  have len: "length (concat (map hart_bytes (gi_hart img))) = 296 * length (gi_hart img)"
    using length_concat_hart [OF ok(2)] .
  have "mem_read m (p + 40) (296 * length (gi_hart img)) = concat (map hart_bytes (gi_hart img))"
    unfolding len [symmetric] using parts by (simp add: add.assoc del: length_concat)
  then show "bi_hart m p k = gi_hart img ! k" if "k < 4"
    using harts_in_memory [of m p 0 "gi_hart img" k] ok that by simp
qed

section \<open>The image in memory\<close>

lemma entries_nonzero: "entries_ok es \<Longrightarrow> \<forall>c \<in> set (map fst (placed off es)). chunk_size c \<noteq> 0"
  by (induction off es rule: placed.induct) (auto simp: entries_ok_def)

lemma payload_in_memory:
  assumes "payload_ok g" "mem_read m p (length (payload_file junk zjunk g)) = payload_file junk zjunk g"
  shows "bi_chunkTableOffset m p = of_nat BOOT_IMAGE_SIZE"
    and "bi_ziChunkTableOffset m p = of_nat (BOOT_IMAGE_SIZE + 40 * (length (chunkTable g) + 1))"
    and "p \<noteq> 0 \<Longrightarrow> HSS_Boot_ValidateImage m p"
    and "k < 4 \<Longrightarrow> bi_hart m p k = gi_hart (bootImage g) ! k"
    and "chunks_at m (p + of_nat BOOT_IMAGE_SIZE) (map fst (placed (payload_base g) (chunkTable g)))"
    and "i \<le> length (ziChunkTable g) \<Longrightarrow>
      read_zi_chunk m (p + of_nat (BOOT_IMAGE_SIZE + 40 * (length (chunkTable g) + 1)) + 24 * of_nat i) =
        (ziChunkTable g @ [zero_zi_chunk]) ! i"
    and "(c, b) \<in> set (placed (payload_base g) (chunkTable g)) \<Longrightarrow> mem_read m (p + loadAddr c) (length b) = b"
proof -
  let ?img = "final_image g" and ?cs = "map fst (placed (payload_base g) (chunkTable g))"
  have ok: "image_ok (bootImage g)" "image_ok (filled_image g)" "image_ok ?img"
    using assms(1) by (simp_all add: payload_ok_def filled_image_def final_image_def)
  note len = length_image_bytes [OF ok(3)]
  note parts = assms(2) [unfolded payload_file_def mem_read_parts len]
  have hdr: "mem_read m p BOOT_IMAGE_SIZE = image_bytes ?img" using parts by simp
  note f = header_fields [OF hdr ok(3)]
  show "bi_chunkTableOffset m p = of_nat BOOT_IMAGE_SIZE"
    "bi_ziChunkTableOffset m p = of_nat (BOOT_IMAGE_SIZE + 40 * (length (chunkTable g) + 1))"
    unfolding f(4,5) by (simp_all add: final_image_def filled_image_def)
  show "k < 4 \<Longrightarrow> bi_hart m p k = gi_hart (bootImage g) ! k"
    using f(6) by (simp add: final_image_def filled_image_def)
  have "shadow_header (image_bytes ?img) = image_bytes (filled_image g)"
    unfolding final_image_def using assms(1) ok(2)
    by (intro shadow_of_image) (simp_all add: payload_ok_def filled_image_def)
  then have "validateCrc m p"
    using f(2,3) assms(1) length_image_bytes [OF ok(2)]
    by (simp add: validateCrc_def hdr header_crc_len_def payload_ok_def final_image_def filled_image_def)
  then show "p \<noteq> 0 \<Longrightarrow> HSS_Boot_ValidateImage m p"
    using f(1) assms(1) by (simp add: HSS_Boot_ValidateImage_def payload_ok_def final_image_def filled_image_def)
  have tab: "mem_read m (p + of_nat BOOT_IMAGE_SIZE) (40 * (length ?cs + 1)) = chunk_table junk 0 ?cs"
    using parts by simp
  then show "chunks_at m (p + of_nat BOOT_IMAGE_SIZE) ?cs"
    using assms(1) entries_nonzero [of "chunkTable g" "payload_base g"]
    by (intro chunk_table_in_memory) (simp_all add: payload_ok_def)
  have zi: "mem_read m (p + of_nat (BOOT_IMAGE_SIZE + 40 * (length (chunkTable g) + 1))) (24 * (length (ziChunkTable g) + 1)) =
      zi_table zjunk 0 (ziChunkTable g)"
    using parts by (simp add: add.assoc)
  then show "i \<le> length (ziChunkTable g) \<Longrightarrow>
      read_zi_chunk m (p + of_nat (BOOT_IMAGE_SIZE + 40 * (length (chunkTable g) + 1)) + 24 * of_nat i) =
        (ziChunkTable g @ [zero_zi_chunk]) ! i"
    by (rule zi_table_in_memory)
  have "mem_read m (p + of_nat (payload_base g)) (length (blob_area (chunkTable g))) = blob_area (chunkTable g)"
    using parts by (simp add: payload_base_def add.assoc)
  then show "(c, b) \<in> set (placed (payload_base g) (chunkTable g)) \<Longrightarrow> mem_read m (p + loadAddr c) (length b) = b"
    by (rule blobs_in_memory)
qed

lemma length_payload_file:
  assumes "payload_ok g"
  shows "length (payload_file junk zjunk g) = payload_base g + length (blob_area (chunkTable g))"
    "length (payload_file junk zjunk g) \<le> 2 ^ 64"
proof -
  have "length (image_bytes (final_image g)) = BOOT_IMAGE_SIZE"
    using assms by (intro length_image_bytes) (simp add: payload_ok_def final_image_def filled_image_def)
  then show len: "length (payload_file junk zjunk g) = payload_base g + length (blob_area (chunkTable g))"
    by (simp add: payload_file_def payload_base_def)
  show "length (payload_file junk zjunk g) \<le> 2 ^ 64"
    unfolding len using assms by (simp add: payload_ok_def payload_small_def)
qed

lemma generate_payload_ok:
  assumes "payload_ok g"
  shows "\<exists>g'. generate_payload junk zjunk g = Some g' \<and> out_file g' = payload_file junk zjunk g \<and>
    chunkTable g' = placed (payload_base g) (chunkTable g)"
  using generate_payload_layout [of g junk zjunk] assms unfolding payload_ok_def by blast

lemma placed_same: "map (\<lambda>(c, b). (c\<lparr>loadAddr := 0\<rparr>, b)) (placed off es) = map (\<lambda>(c, b). (c\<lparr>loadAddr := 0\<rparr>, b)) es"
  by (induction off es rule: placed.induct) simp_all

section \<open>Delivery\<close>

text \<open>What copying a chunk leaves alone.\<close>

definition spares :: "BootChunkDesc \<Rightarrow> u64 \<Rightarrow> nat \<Rightarrow> bool" where
  "spares c a n \<longleftrightarrow> (\<forall>i < copied_len c. \<forall>j < n. execAddr c + of_nat i \<noteq> a + of_nat j)"

lemma copy_chunk_spares: "spares c a n \<Longrightarrow> mem_read (copy_chunk img c m) a n = mem_read m a n"
  unfolding copy_chunk_def spares_def by (intro mem_read_cong mem_write_other) (simp, metis)

lemma load_chunks_spare:
  "\<forall>c \<in> set cs. chunk_permitted t target c \<longrightarrow> spares c a n \<Longrightarrow>
    mem_read (load_chunks t target img cs m) a n = mem_read m a n"
  by (induction cs arbitrary: m) (auto simp: load_chunks_def copy_chunk_spares)

lemma load_chunks_append: "load_chunks t target img (xs @ ys) m = load_chunks t target img ys (load_chunks t target img xs m)"
  by (simp add: load_chunks_def)

lemma load_chunks_delivers:
  assumes "chunk_permitted t target c" "n \<le> copied_len c" "copied_len c < 2 ^ 64"
    and "\<forall>d \<in> set xs. chunk_permitted t target d \<longrightarrow> spares d (img + loadAddr c) n"
    and "\<forall>d \<in> set ys. chunk_permitted t target d \<longrightarrow> spares d (execAddr c) n"
  shows "mem_read (load_chunks t target img (xs @ c # ys) m) (execAddr c) n = mem_read m (img + loadAddr c) n"
proof -
  let ?m = "load_chunks t target img xs m"
  have "mem_read (load_chunks t target img (xs @ c # ys) m) (execAddr c) n =
      mem_read (load_chunks t target img ys (copy_chunk img c ?m)) (execAddr c) n"
    using assms(1) by (simp add: load_chunks_append) (simp add: load_chunks_def)
  also have "\<dots> = mem_read (copy_chunk img c ?m) (execAddr c) n" by (rule load_chunks_spare [OF assms(5)])
  also have "\<dots> = take n (mem_read (copy_chunk img c ?m) (execAddr c) (copied_len c))"
    using assms(2) by (simp add: mem_read_prefix)
  also have "\<dots> = take n (mem_read ?m (img + loadAddr c) (copied_len c))"
    using mem_read_write [of "mem_read ?m (img + loadAddr c) (copied_len c)" ?m "execAddr c"] assms(3)
    by (simp add: copy_chunk_def)
  also have "\<dots> = mem_read ?m (img + loadAddr c) n" using assms(2) by (simp add: mem_read_prefix)
  also have "\<dots> = mem_read m (img + loadAddr c) n" by (rule load_chunks_spare [OF assms(4)])
  finally show ?thesis .
qed

section \<open>Properties\<close>

text \<open>
  C12. The boot monitor reads what the generator wrote. Whatever chunks, zero-initialised chunks
  and hart settings have been collected, and whatever the padding of the descriptors holds,
  writing the image succeeds; wherever the file then lies in memory, it passes validation, the
  hart settings are those configured, both tables are read back entry by entry up to their
  sentinels, and every chunk's load address leads to its bytes. Only the load addresses are
  new.
\<close>

theorem payload_reads_back:
  assumes "payload_ok g"
  shows "\<exists>g'. generate_payload junk zjunk g = Some g' \<and>
    map (\<lambda>(c, b). (c\<lparr>loadAddr := 0\<rparr>, b)) (chunkTable g') = map (\<lambda>(c, b). (c\<lparr>loadAddr := 0\<rparr>, b)) (chunkTable g) \<and>
    (\<forall>m p. p \<noteq> 0 \<longrightarrow> mem_read m p (length (out_file g')) = out_file g' \<longrightarrow>
       HSS_Boot_ValidateImage m p \<and> (\<forall>k < 4. bi_hart m p k = gi_hart (bootImage g) ! k) \<and>
       chunks_at m (p + bi_chunkTableOffset m p) (map fst (chunkTable g')) \<and>
       (\<forall>i \<le> length (ziChunkTable g). read_zi_chunk m (p + bi_ziChunkTableOffset m p + 24 * of_nat i) =
          (ziChunkTable g @ [zero_zi_chunk]) ! i) \<and>
       (\<forall>(c, b) \<in> set (chunkTable g'). mem_read m (p + loadAddr c) (length b) = b))"
proof -
  obtain g' where g': "generate_payload junk zjunk g = Some g'" "out_file g' = payload_file junk zjunk g"
    "chunkTable g' = placed (payload_base g) (chunkTable g)"
    using generate_payload_ok [OF assms] by blast
  show ?thesis
  proof (intro exI [of _ g'] conjI allI impI ballI)
    fix m :: memory and p :: u64
    assume "p \<noteq> 0" and "mem_read m p (length (out_file g')) = out_file g'"
    note in_memory = payload_in_memory [OF assms this(2) [unfolded g'(2)]]
    show "HSS_Boot_ValidateImage m p" by (rule in_memory(3)) fact
    show "bi_hart m p k = gi_hart (bootImage g) ! k" if "k < 4" for k using in_memory(4) [OF that] .
    show "chunks_at m (p + bi_chunkTableOffset m p) (map fst (chunkTable g'))"
      using in_memory(5) unfolding in_memory(1) g'(3) .
    show "read_zi_chunk m (p + bi_ziChunkTableOffset m p + 24 * of_nat i) = (ziChunkTable g @ [zero_zi_chunk]) ! i"
      if "i \<le> length (ziChunkTable g)" for i
      using in_memory(6) [OF that] unfolding in_memory(2) .
    show "case x of (c, b) \<Rightarrow> mem_read m (p + loadAddr c) (length b) = b" if "x \<in> set (chunkTable g')" for x
      using in_memory(7) that unfolding g'(3) by (cases x) simp
  qed (use g' placed_same in simp_all)
qed


text \<open>An image with one blob of three bytes for hart 1, put together and written by the tool.\<close>

definition blob3 :: "u8 list" where "blob3 = [0xAA, 0xBB, 0xCC]"

definition sample_generator :: Generator where
  "sample_generator = blob_handler blob3 0x80000000 1 None (generate_init generator_static)"

definition sample_chunk :: BootChunkDesc where
  "sample_chunk = \<lparr>owner = 1, loadAddr = 0, execAddr = 0x80000000, chunk_size = 3,
     chunk_crc32 = tool_CRC32_calculate blob3\<rparr>"

lemma replicate_4_update: "(replicate 4 x)[0 := y] = y # replicate 3 x"
  by (simp add: numeral_eq_Suc)

lemma sample_generator_simps:
  "chunkTable sample_generator = [(sample_chunk, blob3)]" "ziChunkTable sample_generator = []"
  "gi_hart (bootImage sample_generator) = zero_hart\<lparr>numChunks := 1\<rparr> # replicate 3 zero_hart"
  "payload_base sample_generator = 1736"
  by (simp_all add: sample_generator_def blob_handler_def process_blob_def generate_add_chunk_def count_blob_def
      set_firstChunk_def upd_hart_def map_image_def generate_init_def generator_static_def zero_hart_def
      sample_chunk_def blob3_def payload_base_def Let_def replicate_4_update)

lemma sample_generator_ok: "payload_ok sample_generator"
proof -
  have "image_ok (bootImage sample_generator)"
    by (simp add: image_ok_def sample_generator_simps) (simp add: sample_generator_def blob_handler_def process_blob_def
        generate_add_chunk_def count_blob_def set_firstChunk_def upd_hart_def map_image_def generate_init_def
        generator_static_def zero_hart_def Let_def)
  moreover have "gi_magic (bootImage sample_generator) = mHSS_BOOT_MAGIC" "gi_version (bootImage sample_generator) = 1"
    "gi_headerCrc (bootImage sample_generator) = 0"
    by (simp_all add: sample_generator_def blob_handler_def process_blob_def generate_add_chunk_def count_blob_def
        set_firstChunk_def upd_hart_def map_image_def generate_init_def generator_static_def Let_def)
  moreover have "entries_ok (chunkTable sample_generator)" "payload_small sample_generator"
    by (simp_all add: sample_generator_simps entries_ok_def payload_small_def sample_chunk_def blob3_def pad8_def)
  ultimately show ?thesis by (simp add: payload_ok_def sample_generator_simps)
qed

theorem payload_reads_back_witness:
  "\<exists>g'. generate_payload (\<lambda>_. (7, 8)) (\<lambda>_. (9, 0)) sample_generator = Some g' \<and>
    length (chunkTable g') = 1 \<and>
    HSS_Boot_ValidateImage (mem_write (\<lambda>_. 0) 0x10000 (out_file g')) 0x10000 \<and>
    numChunks (bi_hart (mem_write (\<lambda>_. 0) 0x10000 (out_file g')) 0x10000 0) = 1"
proof -
  obtain g' where g': "generate_payload (\<lambda>_. (7, 8)) (\<lambda>_. (9, 0)) sample_generator = Some g'"
    "map (\<lambda>(c, b). (c\<lparr>loadAddr := 0\<rparr>, b)) (chunkTable g') =
       map (\<lambda>(c, b). (c\<lparr>loadAddr := 0\<rparr>, b)) (chunkTable sample_generator)"
    "\<And>m p. p \<noteq> 0 \<Longrightarrow> mem_read m p (length (out_file g')) = out_file g' \<Longrightarrow>
       HSS_Boot_ValidateImage m p \<and> (\<forall>k < 4. bi_hart m p k = gi_hart (bootImage sample_generator) ! k)"
    using payload_reads_back [OF sample_generator_ok, of "\<lambda>_. (7, 8)" "\<lambda>_. (9, 0)"]
    by (elim exE conjE) (rule that, assumption, assumption, simp)
  have "length (out_file g') \<le> 2 ^ 64"
    using generate_payload_ok [OF sample_generator_ok, of "\<lambda>_. (7, 8)" "\<lambda>_. (9, 0)"] g'(1)
      length_payload_file(2) [OF sample_generator_ok] by auto
  then have "mem_read (mem_write (\<lambda>_. 0) 0x10000 (out_file g')) 0x10000 (length (out_file g')) = out_file g'"
    by (rule mem_read_write)
  then have v: "HSS_Boot_ValidateImage (mem_write (\<lambda>_. 0) 0x10000 (out_file g')) 0x10000 \<and>
      (\<forall>k < 4. bi_hart (mem_write (\<lambda>_. 0) 0x10000 (out_file g')) 0x10000 k = gi_hart (bootImage sample_generator) ! k)"
    by (intro g'(3)) simp_all
  have "numChunks (gi_hart (bootImage sample_generator) ! 0) = 1" by (simp add: sample_generator_simps(3))
  then have "numChunks (bi_hart (mem_write (\<lambda>_. 0) 0x10000 (out_file g')) 0x10000 0) = 1"
    using v by (metis zero_less_numeral)
  moreover have "length (chunkTable g') = 1"
    using map_eq_imp_length_eq [OF g'(2)] by (simp add: sample_generator_simps(1))
  ultimately show ?thesis using v g'(1) by blast
qed

lemma sample_payload:
  assumes "generate_payload junk zjunk sample_generator = Some g'"
  shows "chunkTable g' = [(sample_chunk\<lparr>loadAddr := 1736\<rparr>, blob3)]" "length (out_file g') = 1744"
  using generate_payload_ok [OF sample_generator_ok, of junk zjunk] length_payload_file(1) [OF sample_generator_ok, of junk zjunk]
    assms by (auto simp: sample_generator_simps blob3_def pad8_def)

lemma sample_fits:
  "chunk_fits (header_bytes 0x10000 \<union> table_bytes 0x10660 1) 0x10000 (sample_chunk\<lparr>loadAddr := 1736\<rparr>)"
proof -
  have "0x80000000 + of_nat i \<notin> header_bytes 0x10000 \<union> table_bytes 0x10660 1" if "i < 256" for i
    using range_apart [of "0x80000000" 256 "0x10000" BOOT_IMAGE_SIZE i]
      range_apart [of "0x80000000" 256 "0x10660" 80 i] that
    by (auto simp: header_bytes_def table_bytes_def)
  then show ?thesis by (simp add: chunk_fits_def copied_len_def sub_chunks_def sample_chunk_def)
qed


text \<open>
  A hart's first payload can be lost. The first payload of an image starts at entry 0 of the
  table, which the handler takes for "not set": a second one for the same hart moves
  \<open>firstChunk\<close> to its own entry, while both entries name the hart as their owner and both
  are counted. The boot monitor starts at \<open>firstChunk\<close>, and passes over the first.
\<close>

theorem second_blob_hides_first:
  assumes "chunkTable g = []" "blob_numChunks g = 0" "own \<in> {1, 2, 3, 4}" "length (gi_hart (bootImage g)) = 4"
    and "firstChunk (gi_hart (bootImage g) ! (own - 1)) = 0" "numChunks (gi_hart (bootImage g) ! (own - 1)) = 0"
    and "f1 \<noteq> []" "length f1 < 2 ^ 63" "f2 \<noteq> []" "length f2 < 2 ^ 63"
    and "g2 = blob_handler f2 e2 own None (blob_handler f1 e1 own None g)" "h = gi_hart (bootImage g2) ! (own - 1)"
  shows "map (\<lambda>(c, b). (owner c, execAddr c, b)) (chunkTable g2) = [(of_nat own, e1, f1), (of_nat own, e2, f2)] \<and>
    firstChunk h = 1 \<and> lastChunk h = 1 \<and> numChunks h = 2"
proof -
  have len: "(of_nat (length f) :: u64) \<noteq> 0" if "f \<noteq> []" "length f < 2 ^ 63" for f :: "u8 list"
    using that of_nat_u64_inj [of "length f" 0] by simp
  have own: "(ucast (of_nat own OR 0 :: u64) :: u32) = of_nat own" "own - 1 < 4" using assms(3) by auto
  show ?thesis
    using assms(1,2,4-6) own len [OF assms(7,8)] len [OF assms(9,10)] unfolding assms(11,12)
    by (simp add: blob_handler_def process_blob_def generate_add_chunk_def count_blob_def set_firstChunk_def
        upd_hart_def map_image_def Let_def)
qed

theorem second_blob_hides_first_witness:
  "firstChunk (gi_hart (bootImage (blob_handler [2, 3] 0x90000000 1 None
     (blob_handler [1] 0x80000000 1 None (generate_init generator_static)))) ! 0) = 1"
  using second_blob_hides_first [of "generate_init generator_static" 1 "[1]" "[2, 3]" _ "0x90000000" "0x80000000",
      OF _ _ _ _ _ _ _ _ _ _ refl refl]
  by (simp add: generate_init_def map_image_def generator_static_def zero_hart_def)

end
