(* ===== verification/Yaml_Config.thy ===== *)
theory Yaml_Config
  imports Payload
begin

text \<open>
  The configuration of the payload generator, \<open>tools/hss-payload-generator/yaml_parser.c\<close>: a
  state machine over the events of \<open>libyaml\<close>, which fills in the header of the image and
  adds the payloads. The event stream and the files it names are inputs. \<open>None\<close> stands for
  \<open>exit\<close>, for a failing \<open>assert\<close> and for a write outside an array.
\<close>

section \<open>Tokens and events\<close>

datatype yaml_event = YAML_NO_EVENT | YAML_STREAM_START_EVENT | YAML_STREAM_END_EVENT | YAML_DOCUMENT_START_EVENT
  | YAML_DOCUMENT_END_EVENT | YAML_ALIAS_EVENT | YAML_SCALAR_EVENT "u8 list" | YAML_SEQUENCE_START_EVENT
  | YAML_SEQUENCE_END_EVENT | YAML_MAPPING_START_EVENT | YAML_MAPPING_END_EVENT

datatype token = TOKEN_UNKNOWN | TOKEN_SET_NAME | TOKEN_HART_ENTRY_POINTS | TOKEN_PAYLOADS | TOKEN_PAYLOAD_EXEC_ADDR
  | TOKEN_PAYLOAD_OWNER_HART | TOKEN_PAYLOAD_SECONDARY_HART | TOKEN_PAYLOAD_PAYLOAD_NAME | TOKEN_PAYLOAD_PRIV_MODE
  | TOKEN_PAYLOAD_SKIP_OPENSBI | TOKEN_PAYLOAD_ALLOW_REBOOT | TOKEN_PAYLOAD_SKIP_AUTOBOOT
  | TOKEN_PAYLOAD_ANCILLIARY_DATA | TOKEN_PRIV_MODE_M | TOKEN_PRIV_MODE_H | TOKEN_PRIV_MODE_S | TOKEN_PRIV_MODE_U
  | TOKEN_HART_U54_1 | TOKEN_HART_U54_2 | TOKEN_HART_U54_3 | TOKEN_HART_U54_4 | TOKEN_REBOOT_COLD | TOKEN_REBOOT_WARM

definition c_string :: "string \<Rightarrow> u8 list" where "c_string s = map of_char s"

definition tokens :: "(token \<times> string) list" where
  "tokens = [
    (TOKEN_SET_NAME, ''set-name''),
    (TOKEN_HART_ENTRY_POINTS, ''hart-entry-points''),
    (TOKEN_PAYLOADS, ''payloads''),
    (TOKEN_PAYLOAD_EXEC_ADDR, ''exec-addr''),
    (TOKEN_PAYLOAD_OWNER_HART, ''owner-hart''),
    (TOKEN_PAYLOAD_PAYLOAD_NAME, ''payload-name''),
    (TOKEN_PAYLOAD_PRIV_MODE, ''priv-mode''),
    (TOKEN_PAYLOAD_SECONDARY_HART, ''secondary-hart''),
    (TOKEN_PAYLOAD_SKIP_OPENSBI, ''skip-opensbi''),
    (TOKEN_PAYLOAD_ALLOW_REBOOT, ''allow-reboot''),
    (TOKEN_PAYLOAD_SKIP_AUTOBOOT, ''skip-autoboot''),
    (TOKEN_PAYLOAD_ANCILLIARY_DATA, ''ancilliary-data''),
    (TOKEN_PRIV_MODE_M, ''prv_m''),
    (TOKEN_PRIV_MODE_S, ''prv_s''),
    (TOKEN_PRIV_MODE_U, ''prv_u''),
    (TOKEN_HART_U54_1, ''u54_1''),
    (TOKEN_HART_U54_2, ''u54_2''),
    (TOKEN_HART_U54_3, ''u54_3''),
    (TOKEN_HART_U54_4, ''u54_4''),
    (TOKEN_REBOOT_COLD, ''cold''),
    (TOKEN_REBOOT_WARM, ''warm'')]"

text \<open>\<open>strncmp\<close> over the length of the token: the scalar starts with it.\<close>

definition matches :: "u8 list \<Rightarrow> token \<times> string \<Rightarrow> bool" where
  "matches v t \<longleftrightarrow> take (length (snd t)) v = c_string (snd t)"

definition string_to_scalar :: "u8 list \<Rightarrow> token" where
  "string_to_scalar v = (case find_index (matches v) tokens of None \<Rightarrow> TOKEN_UNKNOWN | Some i \<Rightarrow> fst (tokens ! i))"

definition map_token_to_priv_mode :: "token \<Rightarrow> u8 option" where
  "map_token_to_priv_mode t = (case t of TOKEN_PRIV_MODE_U \<Rightarrow> Some 0 | TOKEN_PRIV_MODE_S \<Rightarrow> Some 1
     | TOKEN_PRIV_MODE_M \<Rightarrow> Some 3 | _ \<Rightarrow> None)"

abbreviation (input) PRV_ILLEGAL :: u8 where "PRV_ILLEGAL \<equiv> 0xFF"

text \<open>\<open>token_idx - TOKEN_HART_U54_1 + 1\<close> for the four harts.\<close>

definition hart_of_token :: "token \<Rightarrow> nat option" where
  "hart_of_token t = (case t of TOKEN_HART_U54_1 \<Rightarrow> Some 1 | TOKEN_HART_U54_2 \<Rightarrow> Some 2
     | TOKEN_HART_U54_3 \<Rightarrow> Some 3 | TOKEN_HART_U54_4 \<Rightarrow> Some 4 | _ \<Rightarrow> None)"

section \<open>The C library\<close>

definition is_space :: "u8 \<Rightarrow> bool" where "is_space b \<longleftrightarrow> b = 32 \<or> (9 \<le> b \<and> b \<le> 13)"

definition to_lower :: "u8 \<Rightarrow> u8" where "to_lower b = (if 65 \<le> b \<and> b \<le> 90 then b + 32 else b)"

definition digit :: "nat \<Rightarrow> u8 \<Rightarrow> nat option" where
  "digit base b = (let b = to_lower b;
       d = (if 48 \<le> b \<and> b \<le> 57 then unat b - 48 else if 97 \<le> b \<and> b \<le> 122 then unat b - 87 else 99)
     in if d < base then Some d else None)"

fun read_digits :: "nat \<Rightarrow> nat \<Rightarrow> u8 list \<Rightarrow> nat" where
  "read_digits base acc [] = acc"
| "read_digits base acc (b # bs) =
     (case digit base b of None \<Rightarrow> acc | Some d \<Rightarrow> read_digits base (acc * base + d) bs)"

text \<open>\<open>strtoul(s, NULL, 0)\<close>: the base follows from the prefix, and a value that does not fit
  is the largest one.\<close>

definition strtoul :: "u8 list \<Rightarrow> u64" where
  "strtoul s =
     (let s = dropWhile is_space s;
          neg = (s \<noteq> [] \<and> hd s = 45);
          s = (if s \<noteq> [] \<and> (hd s = 43 \<or> hd s = 45) then tl s else s);
          v = (if 2 < length s \<and> s ! 0 = 48 \<and> to_lower (s ! 1) = 120 \<and> digit 16 (s ! 2) \<noteq> None
               then read_digits 16 0 (drop 2 s)
               else if s \<noteq> [] \<and> hd s = 48 then read_digits 8 0 s
               else read_digits 10 0 s)
      in if 2 ^ 64 \<le> v then - 1 else if neg then - of_nat v else of_nat v)"

text \<open>\<open>strncpy\<close> of at most \<open>n\<close> characters into a buffer, padded with zeros up to \<open>n\<close>;
  the string a buffer holds.\<close>

definition strncpy :: "u8 list \<Rightarrow> u8 list \<Rightarrow> nat \<Rightarrow> u8 list" where
  "strncpy buf s n = take n (s @ replicate n 0) @ drop n buf"

definition c_str :: "u8 list \<Rightarrow> u8 list" where "c_str buf = takeWhile (\<lambda>b. b \<noteq> 0) buf"

abbreviation (input) BOOT_IMAGE_MAX_NAME_LEN :: nat where "BOOT_IMAGE_MAX_NAME_LEN \<equiv> 256"

definition copy_name :: "u8 list \<Rightarrow> u8 list \<Rightarrow> u8 list" where
  "copy_name buf s = (strncpy buf s (BOOT_IMAGE_MAX_NAME_LEN - 2))[BOOT_IMAGE_MAX_NAME_LEN - 1 := 0]"

text \<open>\<open>snprintf(existing, n - 1, "%s%s", ...)\<close> keeps what fits, with a terminator.\<close>

definition concatenate :: "u8 list \<Rightarrow> u8 list \<Rightarrow> nat \<Rightarrow> u8 list" where
  "concatenate existing new_chars n =
     (let s = take (n - 2) (c_str existing @ c_str new_chars) @ [0]
      in (s @ drop (length s) existing)[n - 1 := 0])"

definition is_true :: "u8 list \<Rightarrow> bool" where
  "is_true v \<longleftrightarrow> map to_lower (take 4 v) = c_string ''true''"

text \<open>A switch: \<open>true\<close>, or a number whose low byte is not zero.\<close>

definition switch_on :: "u8 list \<Rightarrow> bool" where
  "switch_on v \<longleftrightarrow> is_true v \<or> (ucast (strtoul v) :: u8) \<noteq> 0"

section \<open>State\<close>

datatype ParserState = STATE_IDLE | STATE_STREAM | STATE_DOC | STATE_MAPPING | STATE_SET_NAME
  | STATE_HART_ENTRY_POINTS | STATE_HART_ENTRY_POINTS_U54_1 | STATE_HART_ENTRY_POINTS_U54_2
  | STATE_HART_ENTRY_POINTS_U54_3 | STATE_HART_ENTRY_POINTS_U54_4 | STATE_PAYLOAD_MAPPINGS | STATE_NEW_PAYLOAD
  | STATE_NEW_PAYLOAD_EXEC_ADDR | STATE_NEW_PAYLOAD_OWNER_HART | STATE_NEW_PAYLOAD_PAYLOAD_NAME
  | STATE_NEW_PAYLOAD_PRIV_MODE | STATE_NEW_PAYLOAD_SECONDARY_HART | STATE_NEW_PAYLOAD_SKIP_OPENSBI
  | STATE_NEW_PAYLOAD_ALLOW_REBOOT | STATE_NEW_PAYLOAD_SKIP_AUTOBOOT | STATE_NEW_PAYLOAD_ANCILLIARY_DATA

record Entitlement =
  ancilliary_data_present :: bool
  skip_opensbi :: bool
  skip_autoboot_flag :: bool
  allow_coldreboot :: bool
  allow_warmreboot :: bool

record Yaml_State =
  ys_gen :: Generator
  parser_state :: ParserState
  override_set_name_flag :: bool
  base_name :: "u8 list"
  payload_name :: "u8 list"
  base_exec_addr :: u64
  base_owner :: nat
  base_secondary :: "nat list"
  base_priv_mode :: u8
  secondary_idx :: nat
  entitlement_flags :: Entitlement
  ancilliary_name :: "u8 list"
  payload_idx :: nat

text \<open>A file the configuration names: how \<open>libelf\<close> sees it, and its bytes.\<close>

type_synonym files = "u8 list \<Rightarrow> (Elf \<times> u8 list) option"

definition no_flags :: Entitlement where
  "no_flags = \<lparr>ancilliary_data_present = False, skip_opensbi = False, skip_autoboot_flag = False,
     allow_coldreboot = False, allow_warmreboot = False\<rparr>"

definition yaml_static :: "Generator \<Rightarrow> Yaml_State" where
  "yaml_static g = \<lparr>ys_gen = g, parser_state = STATE_IDLE, override_set_name_flag = False,
     base_name = replicate 256 0, payload_name = replicate 256 0, base_exec_addr = 0, base_owner = 0,
     base_secondary = [0, 0, 0], base_priv_mode = PRV_ILLEGAL, secondary_idx = 0, entitlement_flags = no_flags,
     ancilliary_name = replicate 256 0, payload_idx = 0\<rparr>"

definition map_gen :: "(Generator \<Rightarrow> Generator) \<Rightarrow> Yaml_State \<Rightarrow> Yaml_State" where
  "map_gen f s = s\<lparr>ys_gen := f (ys_gen s)\<rparr>"

definition Do_State_Transition :: "ParserState \<Rightarrow> Yaml_State \<Rightarrow> Yaml_State" where
  "Do_State_Transition new_state s = s\<lparr>parser_state := new_state\<rparr>"

definition image_of :: "Yaml_State \<Rightarrow> BootImage" where "image_of s = bootImage (ys_gen s)"

definition map_hart :: "nat \<Rightarrow> (BootHart \<Rightarrow> BootHart) \<Rightarrow> Yaml_State \<Rightarrow> Yaml_State option" where
  "map_hart own f s = (if own - 1 < length (gi_hart (image_of s)) \<and> own \<noteq> 0
     then Some (map_gen (map_image (upd_hart (own - 1) f)) s) else None)"

section \<open>The handlers\<close>

type_synonym handler = "yaml_event \<Rightarrow> Yaml_State \<Rightarrow> Yaml_State option"

definition Handle_STATE_IDLE :: handler where
  "Handle_STATE_IDLE e s = (case e of
     YAML_STREAM_START_EVENT \<Rightarrow> Some (Do_State_Transition STATE_STREAM s)
   | _ \<Rightarrow> None)"

definition Handle_STATE_STREAM :: handler where
  "Handle_STATE_STREAM e s = (case e of
     YAML_DOCUMENT_START_EVENT \<Rightarrow> Some (Do_State_Transition STATE_DOC s)
   | YAML_DOCUMENT_END_EVENT \<Rightarrow> Some (Do_State_Transition STATE_IDLE s)
   | _ \<Rightarrow> None)"

definition Handle_STATE_DOC :: handler where
  "Handle_STATE_DOC e s = (case e of
     YAML_MAPPING_START_EVENT \<Rightarrow> Some (Do_State_Transition STATE_MAPPING s)
   | YAML_DOCUMENT_END_EVENT \<Rightarrow> Some (Do_State_Transition STATE_STREAM s)
   | _ \<Rightarrow> None)"

definition Handle_STATE_MAPPING :: handler where
  "Handle_STATE_MAPPING e s = (case e of
     YAML_MAPPING_END_EVENT \<Rightarrow> Some (Do_State_Transition STATE_DOC s)
   | YAML_SCALAR_EVENT v \<Rightarrow> (case string_to_scalar v of
       TOKEN_SET_NAME \<Rightarrow> Some (Do_State_Transition STATE_SET_NAME s)
     | TOKEN_HART_ENTRY_POINTS \<Rightarrow> Some (Do_State_Transition STATE_HART_ENTRY_POINTS s)
     | TOKEN_PAYLOADS \<Rightarrow> Some (Do_State_Transition STATE_PAYLOAD_MAPPINGS s)
     | _ \<Rightarrow> None)
   | _ \<Rightarrow> None)"

definition Handle_STATE_SET_NAME :: handler where
  "Handle_STATE_SET_NAME e s = (case e of
     YAML_SCALAR_EVENT v \<Rightarrow>
       Some (Do_State_Transition STATE_MAPPING
         (map_gen (map_image (\<lambda>img. img\<lparr>gi_set_name := copy_name (gi_set_name img) v\<rparr>))
           (s\<lparr>override_set_name_flag := True\<rparr>)))
   | _ \<Rightarrow> None)"

text \<open>The form most handlers have: the start of a mapping is skipped, its end leads back to
  \<open>STATE_MAPPING\<close>, a scalar is the value, and anything else ends the tool.\<close>

definition value_handler :: "(u8 list \<Rightarrow> Yaml_State \<Rightarrow> Yaml_State option) \<Rightarrow> handler" where
  "value_handler f e s = (case e of
     YAML_MAPPING_START_EVENT \<Rightarrow> Some s
   | YAML_MAPPING_END_EVENT \<Rightarrow> Some (Do_State_Transition STATE_MAPPING s)
   | YAML_SCALAR_EVENT v \<Rightarrow> f v s
   | _ \<Rightarrow> None)"

definition Handle_STATE_HART_ENTRY_POINTS :: handler where
  "Handle_STATE_HART_ENTRY_POINTS = value_handler (\<lambda>v s. case string_to_scalar v of
     TOKEN_HART_U54_1 \<Rightarrow> Some (Do_State_Transition STATE_HART_ENTRY_POINTS_U54_1 s)
   | TOKEN_HART_U54_2 \<Rightarrow> Some (Do_State_Transition STATE_HART_ENTRY_POINTS_U54_2 s)
   | TOKEN_HART_U54_3 \<Rightarrow> Some (Do_State_Transition STATE_HART_ENTRY_POINTS_U54_3 s)
   | TOKEN_HART_U54_4 \<Rightarrow> Some (Do_State_Transition STATE_HART_ENTRY_POINTS_U54_4 s)
   | _ \<Rightarrow> None)"

definition set_entry_point :: "nat \<Rightarrow> u8 list \<Rightarrow> Yaml_State \<Rightarrow> Yaml_State option" where
  "set_entry_point own v s =
     map_option (Do_State_Transition STATE_HART_ENTRY_POINTS) (map_hart own (\<lambda>h. h\<lparr>entryPoint := strtoul v\<rparr>) s)"

definition Handle_STATE_HART_ENTRY_POINTS_U54_1 :: handler where
  "Handle_STATE_HART_ENTRY_POINTS_U54_1 = value_handler (set_entry_point 1)"
definition Handle_STATE_HART_ENTRY_POINTS_U54_2 :: handler where
  "Handle_STATE_HART_ENTRY_POINTS_U54_2 = value_handler (set_entry_point 2)"
definition Handle_STATE_HART_ENTRY_POINTS_U54_3 :: handler where
  "Handle_STATE_HART_ENTRY_POINTS_U54_3 = value_handler (set_entry_point 3)"
definition Handle_STATE_HART_ENTRY_POINTS_U54_4 :: handler where
  "Handle_STATE_HART_ENTRY_POINTS_U54_4 = value_handler (set_entry_point 4)"

definition Handle_STATE_PAYLOAD_MAPPINGS :: handler where
  "Handle_STATE_PAYLOAD_MAPPINGS = value_handler (\<lambda>v s.
     Some (Do_State_Transition STATE_NEW_PAYLOAD (s\<lparr>base_name := copy_name (base_name s) v,
       payload_name := (payload_name s)[0 := 0], base_exec_addr := 0, base_owner := 0, secondary_idx := 0,
       base_secondary := [0, 0, 0], base_priv_mode := 3, entitlement_flags := no_flags\<rparr>)))"

text \<open>The loop that gives the secondary harts the owner's privilege mode.\<close>

fun set_secondary_modes :: "nat list \<Rightarrow> u8 \<Rightarrow> Yaml_State \<Rightarrow> Yaml_State option" where
  "set_secondary_modes [] mode s = Some s"
| "set_secondary_modes (x # xs) mode s =
     (if x \<noteq> 0 then
        if privMode (gi_hart (image_of s) ! (x - 1)) = PRV_ILLEGAL then do {
          s \<leftarrow> map_hart x (\<lambda>h. h\<lparr>privMode := mode\<rparr>) s;
          set_secondary_modes xs mode s }
        else None
      else set_secondary_modes xs mode s)"

definition boot_flags :: "Entitlement \<Rightarrow> u8" where
  "boot_flags f = (if ancilliary_data_present f then 0x80 else 0) OR (if skip_opensbi f then 0x40 else 0) OR
     (if allow_coldreboot f then 0x20 OR 0x10 else if allow_warmreboot f then 0x10 else 0) OR
     (if skip_autoboot_flag f then 0x08 else 0)"

fun set_secondary_flags :: "nat list \<Rightarrow> u8 \<Rightarrow> Yaml_State \<Rightarrow> Yaml_State option" where
  "set_secondary_flags [] flags s = Some s"
| "set_secondary_flags (x # xs) flags s =
     (if x \<noteq> 0 then do {
        s \<leftarrow> map_hart x (\<lambda>h. h\<lparr>bh_flags := flags\<rparr>) s;
        set_secondary_flags xs flags s }
      else set_secondary_flags xs flags s)"

definition populate_boot_flags :: "Yaml_State \<Rightarrow> Yaml_State option" where
  "populate_boot_flags s = do {
     let flags = boot_flags (entitlement_flags s);
     s \<leftarrow> map_hart (base_owner s) (\<lambda>h. h\<lparr>bh_flags := flags\<rparr>) s;
     set_secondary_flags (base_secondary s) flags s }"

text \<open>The name the payload is known by, and the names of the set and of the hart.\<close>

definition chosen_name :: "Yaml_State \<Rightarrow> u8 list" where
  "chosen_name s = (if c_str (payload_name s) \<noteq> [] then payload_name s else base_name s)"

definition name_set :: "Yaml_State \<Rightarrow> Yaml_State" where
  "name_set s = (if override_set_name_flag s then s
     else map_gen (map_image (\<lambda>img. img\<lparr>gi_set_name := concatenate (gi_set_name img) (chosen_name s) 256\<rparr>)) s)"

definition name_hart :: "Yaml_State \<Rightarrow> BootHart \<Rightarrow> BootHart" where
  "name_hart s h = (let nm = (if c_str (bh_name h) \<noteq> [] then concatenate (bh_name h) (c_string ''+'') 256 else bh_name h)
     in h\<lparr>bh_name := concatenate nm (chosen_name s) 256\<rparr>)"

text \<open>An ELF file is taken apart; any other file is embedded whole.\<close>

definition add_payload_file :: "files \<Rightarrow> Yaml_State \<Rightarrow> Yaml_State option" where
  "add_payload_file fs s = do {
     (elf, raw) \<leftarrow> fs (c_str (base_name s));
     (retVal, g) \<leftarrow> elf_parser elf (base_owner s) (ys_gen s);
     if retVal then Some (s\<lparr>ys_gen := g\<rparr>)
     else if ancilliary_data_present (entitlement_flags s) then do {
       (_, anc) \<leftarrow> fs (c_str (ancilliary_name s));
       Some (s\<lparr>ys_gen := blob_handler raw (base_exec_addr s) (base_owner s) (Some anc) g\<rparr>) }
     else Some (s\<lparr>ys_gen := blob_handler raw (base_exec_addr s) (base_owner s) None g\<rparr>) }"

text \<open>The end of a payload's mapping. Without an owner \<open>hart[base_owner-1]\<close> is outside the
  array.\<close>

definition finish_payload :: "files \<Rightarrow> Yaml_State \<Rightarrow> Yaml_State option" where
  "finish_payload fs s = do {
     let s = name_set s;
     s \<leftarrow> map_hart (base_owner s) (\<lambda>h. h\<lparr>privMode := base_priv_mode s\<rparr>) s;
     s \<leftarrow> set_secondary_modes (base_secondary s) (base_priv_mode s) s;
     require (base_owner s \<noteq> 0);
     s \<leftarrow> map_hart (base_owner s) (name_hart s) s;
     s \<leftarrow> add_payload_file fs s;
     s \<leftarrow> populate_boot_flags s;
     Some (Do_State_Transition STATE_PAYLOAD_MAPPINGS (s\<lparr>payload_idx := payload_idx s + 1\<rparr>)) }"

definition payload_key :: "token \<Rightarrow> Yaml_State \<Rightarrow> Yaml_State option" where
  "payload_key t s = (case t of
     TOKEN_PAYLOAD_EXEC_ADDR \<Rightarrow> Some (Do_State_Transition STATE_NEW_PAYLOAD_EXEC_ADDR s)
   | TOKEN_PAYLOAD_OWNER_HART \<Rightarrow> Some (Do_State_Transition STATE_NEW_PAYLOAD_OWNER_HART s)
   | TOKEN_PAYLOAD_SECONDARY_HART \<Rightarrow> Some (Do_State_Transition STATE_NEW_PAYLOAD_SECONDARY_HART s)
   | TOKEN_PAYLOAD_PAYLOAD_NAME \<Rightarrow> Some (Do_State_Transition STATE_NEW_PAYLOAD_PAYLOAD_NAME s)
   | TOKEN_PAYLOAD_PRIV_MODE \<Rightarrow> Some (Do_State_Transition STATE_NEW_PAYLOAD_PRIV_MODE s)
   | TOKEN_PAYLOAD_SKIP_OPENSBI \<Rightarrow> Some (Do_State_Transition STATE_NEW_PAYLOAD_SKIP_OPENSBI s)
   | TOKEN_PAYLOAD_SKIP_AUTOBOOT \<Rightarrow> Some (Do_State_Transition STATE_NEW_PAYLOAD_SKIP_AUTOBOOT s)
   | TOKEN_PAYLOAD_ALLOW_REBOOT \<Rightarrow> Some (Do_State_Transition STATE_NEW_PAYLOAD_ALLOW_REBOOT s)
   | TOKEN_PAYLOAD_ANCILLIARY_DATA \<Rightarrow> Some (Do_State_Transition STATE_NEW_PAYLOAD_ANCILLIARY_DATA
       (s\<lparr>entitlement_flags := (entitlement_flags s)\<lparr>ancilliary_data_present := True\<rparr>\<rparr>))
   | _ \<Rightarrow> None)"

definition Handle_STATE_NEW_PAYLOAD :: "files \<Rightarrow> handler" where
  "Handle_STATE_NEW_PAYLOAD fs e s = (case e of
     YAML_MAPPING_START_EVENT \<Rightarrow> Some (s\<lparr>base_owner := 0\<rparr>)
   | YAML_MAPPING_END_EVENT \<Rightarrow> finish_payload fs s
   | YAML_SCALAR_EVENT v \<Rightarrow> payload_key (string_to_scalar v) s
   | _ \<Rightarrow> None)"

definition Handle_STATE_NEW_PAYLOAD_EXEC_ADDR :: handler where
  "Handle_STATE_NEW_PAYLOAD_EXEC_ADDR = value_handler (\<lambda>v s.
     Some (Do_State_Transition STATE_NEW_PAYLOAD (s\<lparr>base_exec_addr := strtoul v\<rparr>)))"

definition Handle_STATE_NEW_PAYLOAD_OWNER_HART :: handler where
  "Handle_STATE_NEW_PAYLOAD_OWNER_HART = value_handler (\<lambda>v s. do {
     own \<leftarrow> hart_of_token (string_to_scalar v);
     Some (Do_State_Transition STATE_NEW_PAYLOAD (s\<lparr>base_owner := own\<rparr>)) })"

text \<open>A fourth secondary hart is written behind \<open>base_secondary\<close>.\<close>

definition Handle_STATE_NEW_PAYLOAD_SECONDARY_HART :: handler where
  "Handle_STATE_NEW_PAYLOAD_SECONDARY_HART = value_handler (\<lambda>v s. do {
     h \<leftarrow> hart_of_token (string_to_scalar v);
     require (secondary_idx s < length (base_secondary s));
     Some (Do_State_Transition STATE_NEW_PAYLOAD (s\<lparr>base_secondary := (base_secondary s)[secondary_idx s := h],
       secondary_idx := secondary_idx s + 1\<rparr>)) })"

definition Handle_STATE_NEW_PAYLOAD_PAYLOAD_NAME :: handler where
  "Handle_STATE_NEW_PAYLOAD_PAYLOAD_NAME e s = (case e of
     YAML_SCALAR_EVENT v \<Rightarrow> Some (Do_State_Transition STATE_NEW_PAYLOAD
       (s\<lparr>payload_name := copy_name (payload_name s) v, override_set_name_flag := True\<rparr>))
   | _ \<Rightarrow> None)"

definition Handle_STATE_NEW_PAYLOAD_PRIV_MODE :: handler where
  "Handle_STATE_NEW_PAYLOAD_PRIV_MODE = value_handler (\<lambda>v s. do {
     mode \<leftarrow> map_token_to_priv_mode (string_to_scalar v);
     Some (Do_State_Transition STATE_NEW_PAYLOAD (s\<lparr>base_priv_mode := mode\<rparr>)) })"

definition set_flag :: "(Entitlement \<Rightarrow> Entitlement) \<Rightarrow> Yaml_State \<Rightarrow> Yaml_State" where
  "set_flag f s = Do_State_Transition STATE_NEW_PAYLOAD (s\<lparr>entitlement_flags := f (entitlement_flags s)\<rparr>)"

definition Handle_STATE_NEW_PAYLOAD_SKIP_OPENSBI :: handler where
  "Handle_STATE_NEW_PAYLOAD_SKIP_OPENSBI e s = (case e of
     YAML_MAPPING_START_EVENT \<Rightarrow> Some s
   | YAML_SCALAR_EVENT v \<Rightarrow> Some (set_flag (if switch_on v then skip_opensbi_update (\<lambda>_. True) else id) s)
   | _ \<Rightarrow> None)"

definition Handle_STATE_NEW_PAYLOAD_ALLOW_REBOOT :: handler where
  "Handle_STATE_NEW_PAYLOAD_ALLOW_REBOOT = value_handler (\<lambda>v s. case string_to_scalar v of
     TOKEN_REBOOT_WARM \<Rightarrow> Some (set_flag (allow_warmreboot_update (\<lambda>_. True)) s)
   | TOKEN_REBOOT_COLD \<Rightarrow> Some (set_flag (allow_coldreboot_update (\<lambda>_. True)) s)
   | _ \<Rightarrow> None)"

definition Handle_STATE_NEW_PAYLOAD_SKIP_AUTOBOOT :: handler where
  "Handle_STATE_NEW_PAYLOAD_SKIP_AUTOBOOT = value_handler (\<lambda>v s.
     Some (set_flag (if switch_on v then skip_autoboot_flag_update (\<lambda>_. True) else id) s))"

definition Handle_STATE_NEW_PAYLOAD_ANCILLIARY_DATA :: handler where
  "Handle_STATE_NEW_PAYLOAD_ANCILLIARY_DATA = value_handler (\<lambda>v s.
     Some (Do_State_Transition STATE_NEW_PAYLOAD (s\<lparr>ancilliary_name := copy_name (ancilliary_name s) v\<rparr>)))"

section \<open>The parser\<close>

definition stateHandler :: "files \<Rightarrow> ParserState \<Rightarrow> handler" where
  "stateHandler fs st = (case st of
     STATE_IDLE \<Rightarrow> Handle_STATE_IDLE | STATE_STREAM \<Rightarrow> Handle_STATE_STREAM | STATE_DOC \<Rightarrow> Handle_STATE_DOC
   | STATE_MAPPING \<Rightarrow> Handle_STATE_MAPPING | STATE_SET_NAME \<Rightarrow> Handle_STATE_SET_NAME
   | STATE_HART_ENTRY_POINTS \<Rightarrow> Handle_STATE_HART_ENTRY_POINTS
   | STATE_HART_ENTRY_POINTS_U54_1 \<Rightarrow> Handle_STATE_HART_ENTRY_POINTS_U54_1
   | STATE_HART_ENTRY_POINTS_U54_2 \<Rightarrow> Handle_STATE_HART_ENTRY_POINTS_U54_2
   | STATE_HART_ENTRY_POINTS_U54_3 \<Rightarrow> Handle_STATE_HART_ENTRY_POINTS_U54_3
   | STATE_HART_ENTRY_POINTS_U54_4 \<Rightarrow> Handle_STATE_HART_ENTRY_POINTS_U54_4
   | STATE_PAYLOAD_MAPPINGS \<Rightarrow> Handle_STATE_PAYLOAD_MAPPINGS
   | STATE_NEW_PAYLOAD \<Rightarrow> Handle_STATE_NEW_PAYLOAD fs
   | STATE_NEW_PAYLOAD_EXEC_ADDR \<Rightarrow> Handle_STATE_NEW_PAYLOAD_EXEC_ADDR
   | STATE_NEW_PAYLOAD_OWNER_HART \<Rightarrow> Handle_STATE_NEW_PAYLOAD_OWNER_HART
   | STATE_NEW_PAYLOAD_PAYLOAD_NAME \<Rightarrow> Handle_STATE_NEW_PAYLOAD_PAYLOAD_NAME
   | STATE_NEW_PAYLOAD_PRIV_MODE \<Rightarrow> Handle_STATE_NEW_PAYLOAD_PRIV_MODE
   | STATE_NEW_PAYLOAD_SECONDARY_HART \<Rightarrow> Handle_STATE_NEW_PAYLOAD_SECONDARY_HART
   | STATE_NEW_PAYLOAD_SKIP_OPENSBI \<Rightarrow> Handle_STATE_NEW_PAYLOAD_SKIP_OPENSBI
   | STATE_NEW_PAYLOAD_ALLOW_REBOOT \<Rightarrow> Handle_STATE_NEW_PAYLOAD_ALLOW_REBOOT
   | STATE_NEW_PAYLOAD_SKIP_AUTOBOOT \<Rightarrow> Handle_STATE_NEW_PAYLOAD_SKIP_AUTOBOOT
   | STATE_NEW_PAYLOAD_ANCILLIARY_DATA \<Rightarrow> Handle_STATE_NEW_PAYLOAD_ANCILLIARY_DATA)"

text \<open>The event loop, up to the end of the stream; a stream that stops before is an error of
  \<open>libyaml\<close>.\<close>

fun parse_events :: "files \<Rightarrow> yaml_event list \<Rightarrow> Yaml_State \<Rightarrow> Yaml_State option" where
  "parse_events fs [] s = None"
| "parse_events fs (e # es) s =
     (if e = YAML_STREAM_END_EVENT then Some s
      else if e = YAML_NO_EVENT then parse_events fs es s
      else do {
        s \<leftarrow> stateHandler fs (parser_state s) e s;
        parse_events fs es s })"

definition prepare_harts :: "BootImage \<Rightarrow> BootImage" where
  "prepare_harts img = img\<lparr>gi_hart := map (\<lambda>h. h\<lparr>privMode := PRV_ILLEGAL, bh_flags := 0\<rparr>) (gi_hart img)\<rparr>"

definition yaml_parser :: "files \<Rightarrow> yaml_event list \<Rightarrow> Generator \<Rightarrow> Yaml_State option" where
  "yaml_parser fs es g = parse_events fs es (map_gen (map_image (\<lambda>img. prepare_harts
     (img\<lparr>gi_set_name := strncpy (gi_set_name img) (c_string ''PolarFireSOC-HSS::'') 254\<rparr>))) (yaml_static g))"

end
