(* ===== verification/Yaml_Properties.thy ===== *)
theory Yaml_Properties
  imports Yaml_Config Payload_Boot
begin

text \<open>
  What the configuration parser guarantees: the header and the tables stay well formed whatever
  the events are, so that an accepted configuration gives an image the boot monitor validates;
  and a configuration document has the effect its keys promise.
\<close>

section \<open>The generator stays well formed\<close>

definition gen_wf :: "Generator \<Rightarrow> bool" where
  "gen_wf g \<longleftrightarrow> image_ok (bootImage g) \<and> gi_magic (bootImage g) = mHSS_BOOT_MAGIC \<and>
     gi_version (bootImage g) = 1 \<and> gi_headerCrc (bootImage g) = 0 \<and> entries_ok (chunkTable g)"

definition keeps_name :: "(BootHart \<Rightarrow> BootHart) \<Rightarrow> bool" where
  "keeps_name f \<longleftrightarrow> (\<forall>h. length (bh_name h) = 256 \<longrightarrow> length (bh_name (f h)) = 256)"

lemma gen_wf_upd_hart [hss_inv]:
  assumes "gen_wf g" "keeps_name f"
  shows "gen_wf (map_image (upd_hart i f) g)"
proof -
  have "\<forall>h \<in> set ((gi_hart (bootImage g))[i := f (gi_hart (bootImage g) ! i)]). length (bh_name h) = 256"
  proof (cases "i < length (gi_hart (bootImage g))")
    case True
    then have "length (bh_name (f (gi_hart (bootImage g) ! i))) = 256"
      using assms by (simp add: gen_wf_def image_ok_def keeps_name_def)
    then show ?thesis using assms(1) set_update_subset_insert [of "gi_hart (bootImage g)"]
      by (fastforce simp: gen_wf_def image_ok_def)
  next
    case False
    then show ?thesis using assms(1) by (simp add: gen_wf_def image_ok_def list_update_beyond)
  qed
  then show ?thesis using assms(1) by (simp add: gen_wf_def image_ok_def map_image_def upd_hart_def)
qed

lemma gen_wf_add_chunk [hss_inv]:
  assumes "gen_wf g" "chunk_size c = of_nat (length b)" "length b < 2 ^ 63"
  shows "gen_wf (snd (generate_add_chunk c b g))"
proof -
  have "unat (chunk_size c) = length b" unfolding assms(2) using assms(3) by (intro unat_of_nat_u64) simp
  moreover have "b \<noteq> []" if "chunk_size c \<noteq> 0" using that assms(2) by auto
  ultimately show ?thesis using assms(1) by (auto simp: generate_add_chunk_def gen_wf_def entries_ok_def Let_def)
qed

lemma gen_wf_counters [simp]:
  "gen_wf (g\<lparr>blob_numChunks := n\<rparr>) = gen_wf g" "gen_wf (g\<lparr>elf_numChunks := n\<rparr>) = gen_wf g"
  by (simp_all add: gen_wf_def)

lemma gen_wf_add_ziChunk [hss_inv]: "gen_wf g \<Longrightarrow> gen_wf (generate_add_ziChunk z g)"
  by (simp add: gen_wf_def generate_add_ziChunk_def)

lemma gen_wf_process_blob [hss_inv]:
  "gen_wf g \<Longrightarrow> length b < 2 ^ 63 \<Longrightarrow> gen_wf (process_blob b a own anc g)"
  using gen_wf_add_chunk [of g _ b] by (simp add: process_blob_def Let_def split_beta)

lemma gen_wf_count_blob [hss_inv]: "gen_wf g \<Longrightarrow> gen_wf (count_blob own g)"
  by (simp add: count_blob_def gen_wf_upd_hart keeps_name_def)

lemma gen_wf_firstChunk [hss_inv]: "gen_wf g \<Longrightarrow> gen_wf (map_image (set_firstChunk n own) g)"
  by (simp add: set_firstChunk_def gen_wf_upd_hart keeps_name_def)

lemma gen_wf_blob_handler [hss_inv]:
  assumes "gen_wf g" "length b < 2 ^ 63" "\<And>d. anc = Some d \<Longrightarrow> length d < 2 ^ 63"
  shows "gen_wf (blob_handler b a own anc g)"
  using assms by (cases anc) (simp_all add: blob_handler_def Let_def hss_inv)

definition data_fits :: "Elf_Section list \<Rightarrow> bool" where
  "data_fits ss \<longleftrightarrow> (\<forall>s \<in> set ss. \<forall>d. sh_data s = Some d \<longrightarrow> length d < 2 ^ 63)"

lemma gen_wf_process_section:
  assumes "process_section ph own s g = Some g'" "gen_wf g" "\<And>d. sh_data s = Some d \<Longrightarrow> length d < 2 ^ 63"
  shows "gen_wf g'"
  using assms gen_wf_add_chunk [of g]
  by (auto simp: process_section_def require_def bind_eq_Some_conv gen_wf_add_ziChunk Let_def split_beta
      split: if_splits option.splits)

lemma gen_wf_process_sections:
  "process_sections_in_segment ss ph own g = Some g' \<Longrightarrow> gen_wf g \<Longrightarrow> data_fits ss \<Longrightarrow> gen_wf g'"
proof (induction ss arbitrary: g)
  case Nil
  then show ?case by simp
next
  case (Cons s ss)
  then obtain g1 where "process_section ph own s g = Some g1" "process_sections_in_segment ss ph own g1 = Some g'"
    by (auto simp: bind_eq_Some_conv)
  then show ?case using Cons gen_wf_process_section [of ph own s g g1] by (auto simp: data_fits_def)
qed

lemma gen_wf_process_segments:
  "process_segments ss phs own g = Some g' \<Longrightarrow> gen_wf g \<Longrightarrow> data_fits ss \<Longrightarrow> gen_wf g'"
  by (induction phs arbitrary: g) (auto simp: bind_eq_Some_conv dest: gen_wf_process_sections)

lemma gen_wf_elf_parser:
  "elf_parser elf own g = Some (r, g') \<Longrightarrow> gen_wf g \<Longrightarrow> data_fits (elf_sections elf) \<Longrightarrow> gen_wf g'"
  by (auto simp: elf_parser_def parse_elf_program_headers_def require_def bind_eq_Some_conv Let_def gen_wf_firstChunk
      gen_wf_upd_hart keeps_name_def split: if_splits dest!: gen_wf_process_segments)

section \<open>The parser stays well formed\<close>

definition files_fit :: "files \<Rightarrow> bool" where
  "files_fit fs \<longleftrightarrow> (\<forall>n elf raw. fs n = Some (elf, raw) \<longrightarrow> length raw < 2 ^ 63 \<and> data_fits (elf_sections elf))"

definition yaml_wf :: "Yaml_State \<Rightarrow> bool" where
  "yaml_wf s \<longleftrightarrow> gen_wf (ys_gen s) \<and> length (base_name s) = 256 \<and> length (payload_name s) = 256 \<and>
     length (ancilliary_name s) = 256 \<and> length (base_secondary s) = 3 \<and> (\<forall>x \<in> set (base_secondary s). x \<le> 4) \<and>
     base_owner s \<le> 4"

lemma length_copy_name [simp]: "length buf = 256 \<Longrightarrow> length (copy_name buf s) = 256"
  by (simp add: copy_name_def strncpy_def)

lemma length_concatenate [simp]: "length a = 256 \<Longrightarrow> length (concatenate a b 256) = 256"
  by (simp add: concatenate_def Let_def)

lemma hart_of_token_le: "hart_of_token t = Some h \<Longrightarrow> 0 < h \<and> h \<le> 4"
  by (auto simp: hart_of_token_def split: token.splits)

lemma image_ok_set_name [simp]: "length nm = 256 \<Longrightarrow> image_ok (img\<lparr>gi_set_name := nm\<rparr>) \<longleftrightarrow> length (gi_hart img) = 4 \<and>
    (\<forall>h \<in> set (gi_hart img). length (bh_name h) = 256) \<and> gi_signature img = replicate 144 0"
  by (auto simp: image_ok_def)

lemma yaml_wf_transition [simp]: "yaml_wf (Do_State_Transition st s) = yaml_wf s"
  by (simp add: yaml_wf_def Do_State_Transition_def)

lemma yaml_wf_map_hart:
  "map_hart own f s = Some s' \<Longrightarrow> yaml_wf s \<Longrightarrow> keeps_name f \<Longrightarrow> yaml_wf s'"
  by (auto simp: map_hart_def map_gen_def yaml_wf_def gen_wf_upd_hart split: if_splits)

lemma yaml_wf_secondary_modes: "set_secondary_modes xs mode s = Some s' \<Longrightarrow> yaml_wf s \<Longrightarrow> yaml_wf s'"
proof (induction xs mode s rule: set_secondary_modes.induct)
  case (1 mode s)
  then show ?case by simp
next
  case (2 x xs mode s)
  then show ?case using yaml_wf_map_hart [of x "\<lambda>h. h\<lparr>privMode := mode\<rparr>" s]
    by (auto simp: bind_eq_Some_conv keeps_name_def split: if_splits)
qed

lemma yaml_wf_secondary_flags: "set_secondary_flags xs fl s = Some s' \<Longrightarrow> yaml_wf s \<Longrightarrow> yaml_wf s'"
proof (induction xs fl s rule: set_secondary_flags.induct)
  case (1 fl s)
  then show ?case by simp
next
  case (2 x xs fl s)
  then show ?case using yaml_wf_map_hart [of x "\<lambda>h. h\<lparr>bh_flags := fl\<rparr>" s]
    by (auto simp: bind_eq_Some_conv keeps_name_def split: if_splits)
qed

lemma yaml_wf_boot_flags: "populate_boot_flags s = Some s' \<Longrightarrow> yaml_wf s \<Longrightarrow> yaml_wf s'"
  using yaml_wf_map_hart [of "base_owner s" "\<lambda>h. h\<lparr>bh_flags := boot_flags (entitlement_flags s)\<rparr>" s]
  by (auto simp: populate_boot_flags_def bind_eq_Some_conv Let_def keeps_name_def dest: yaml_wf_secondary_flags)

lemma yaml_wf_name_set: "yaml_wf s \<Longrightarrow> yaml_wf (name_set s)"
  by (auto simp: name_set_def yaml_wf_def map_gen_def gen_wf_def map_image_def image_ok_def)

lemma keeps_name_hart: "keeps_name (name_hart s)"
  by (simp add: keeps_name_def name_hart_def Let_def)

lemma yaml_wf_payload_file:
  assumes "add_payload_file fs s = Some s'" "yaml_wf s" "files_fit fs"
  shows "yaml_wf s'"
proof -
  obtain elf raw r g where f: "fs (c_str (base_name s)) = Some (elf, raw)" "elf_parser elf (base_owner s) (ys_gen s) = Some (r, g)"
    using assms(1) by (auto simp: add_payload_file_def bind_eq_Some_conv)
  have g: "gen_wf g" "length raw < 2 ^ 63"
    using gen_wf_elf_parser [OF f(2)] assms(2,3) f(1) by (auto simp: yaml_wf_def files_fit_def)
  have "gen_wf (ys_gen s')"
    using assms(1,3) f g by (auto simp: add_payload_file_def bind_eq_Some_conv files_fit_def split: if_splits
        intro!: gen_wf_blob_handler)
  moreover have "s' = s\<lparr>ys_gen := ys_gen s'\<rparr>"
    using assms(1) f by (auto simp: add_payload_file_def bind_eq_Some_conv split: if_splits)
  then have "base_name s' = base_name s" "payload_name s' = payload_name s" "ancilliary_name s' = ancilliary_name s"
    "base_secondary s' = base_secondary s" "base_owner s' = base_owner s" by (metis Yaml_State.select_convs Yaml_State.update_convs Yaml_State.surjective)+
  ultimately show ?thesis using assms(2) by (simp add: yaml_wf_def)
qed

lemma yaml_wf_finish:
  assumes "finish_payload fs s = Some s'" "yaml_wf s" "files_fit fs"
  shows "yaml_wf s'"
proof -
  let ?s = "name_set s"
  obtain s1 s2 s3 s4 s5 where st: "map_hart (base_owner ?s) (\<lambda>h. h\<lparr>privMode := base_priv_mode ?s\<rparr>) ?s = Some s1"
    "set_secondary_modes (base_secondary s1) (base_priv_mode s1) s1 = Some s2"
    "map_hart (base_owner s2) (name_hart s2) s2 = Some s3" "add_payload_file fs s3 = Some s4"
    "populate_boot_flags s4 = Some s5" "s' = Do_State_Transition STATE_PAYLOAD_MAPPINGS (s5\<lparr>payload_idx := payload_idx s5 + 1\<rparr>)"
    using assms(1) by (auto simp: finish_payload_def bind_eq_Some_conv Let_def)
  have "yaml_wf s1" using yaml_wf_map_hart [OF st(1) yaml_wf_name_set [OF assms(2)]] by (simp add: keeps_name_def)
  then have "yaml_wf s2" by (rule yaml_wf_secondary_modes [OF st(2)])
  then have "yaml_wf s3" by (rule yaml_wf_map_hart [OF st(3) _ keeps_name_hart])
  then have "yaml_wf s4" using yaml_wf_payload_file [OF st(4)] assms(3) by simp
  then have "yaml_wf s5" by (rule yaml_wf_boot_flags [OF st(5)])
  then show ?thesis unfolding st(6) by (simp add: yaml_wf_def Do_State_Transition_def)
qed

text \<open>The handlers one by one; those that only take a value share one rule.\<close>

lemma value_handler_wf:
  assumes "value_handler f e s = Some s'" "yaml_wf s" "\<And>v s'. f v s = Some s' \<Longrightarrow> yaml_wf s'"
  shows "yaml_wf s'"
  using assms by (auto simp: value_handler_def split: yaml_event.splits)

lemma set_entry_point_wf: "set_entry_point own v s = Some s' \<Longrightarrow> yaml_wf s \<Longrightarrow> yaml_wf s'"
  using yaml_wf_map_hart [of own "\<lambda>h. h\<lparr>entryPoint := strtoul v\<rparr>" s]
  by (auto simp: set_entry_point_def keeps_name_def)

lemma document_handlers_wf:
  "Handle_STATE_IDLE e s = Some s' \<Longrightarrow> yaml_wf s \<Longrightarrow> yaml_wf s'"
  "Handle_STATE_STREAM e s = Some s' \<Longrightarrow> yaml_wf s \<Longrightarrow> yaml_wf s'"
  "Handle_STATE_DOC e s = Some s' \<Longrightarrow> yaml_wf s \<Longrightarrow> yaml_wf s'"
  "Handle_STATE_MAPPING e s = Some s' \<Longrightarrow> yaml_wf s \<Longrightarrow> yaml_wf s'"
  by (auto simp: Handle_STATE_IDLE_def Handle_STATE_STREAM_def Handle_STATE_DOC_def Handle_STATE_MAPPING_def
      split: yaml_event.splits token.splits)

lemma set_name_wf: "Handle_STATE_SET_NAME e s = Some s' \<Longrightarrow> yaml_wf s \<Longrightarrow> yaml_wf s'"
  by (auto simp: Handle_STATE_SET_NAME_def Do_State_Transition_def yaml_wf_def gen_wf_def map_gen_def map_image_def image_ok_def
      split: yaml_event.splits)

lemma entry_points_wf:
  "Handle_STATE_HART_ENTRY_POINTS e s = Some s' \<Longrightarrow> yaml_wf s \<Longrightarrow> yaml_wf s'"
  unfolding Handle_STATE_HART_ENTRY_POINTS_def
  by (erule value_handler_wf) (auto split: token.splits)

lemma entry_point_wf:
  "Handle_STATE_HART_ENTRY_POINTS_U54_1 e s = Some s' \<Longrightarrow> yaml_wf s \<Longrightarrow> yaml_wf s'"
  "Handle_STATE_HART_ENTRY_POINTS_U54_2 e s = Some s' \<Longrightarrow> yaml_wf s \<Longrightarrow> yaml_wf s'"
  "Handle_STATE_HART_ENTRY_POINTS_U54_3 e s = Some s' \<Longrightarrow> yaml_wf s \<Longrightarrow> yaml_wf s'"
  "Handle_STATE_HART_ENTRY_POINTS_U54_4 e s = Some s' \<Longrightarrow> yaml_wf s \<Longrightarrow> yaml_wf s'"
  unfolding Handle_STATE_HART_ENTRY_POINTS_U54_1_def Handle_STATE_HART_ENTRY_POINTS_U54_2_def
    Handle_STATE_HART_ENTRY_POINTS_U54_3_def Handle_STATE_HART_ENTRY_POINTS_U54_4_def
  by (erule value_handler_wf, assumption, erule set_entry_point_wf, assumption)+

lemma payload_mappings_wf: "Handle_STATE_PAYLOAD_MAPPINGS e s = Some s' \<Longrightarrow> yaml_wf s \<Longrightarrow> yaml_wf s'"
  unfolding Handle_STATE_PAYLOAD_MAPPINGS_def
  by (erule value_handler_wf) (auto simp: yaml_wf_def Do_State_Transition_def)

lemma new_payload_wf: "Handle_STATE_NEW_PAYLOAD fs e s = Some s' \<Longrightarrow> yaml_wf s \<Longrightarrow> files_fit fs \<Longrightarrow> yaml_wf s'"
  using yaml_wf_finish [of fs s s']
  by (auto simp: Handle_STATE_NEW_PAYLOAD_def payload_key_def yaml_wf_def Do_State_Transition_def
      split: yaml_event.splits token.splits)

lemma payload_value_handlers_wf:
  "Handle_STATE_NEW_PAYLOAD_EXEC_ADDR e s = Some s' \<Longrightarrow> yaml_wf s \<Longrightarrow> yaml_wf s'"
  "Handle_STATE_NEW_PAYLOAD_OWNER_HART e s = Some s' \<Longrightarrow> yaml_wf s \<Longrightarrow> yaml_wf s'"
  "Handle_STATE_NEW_PAYLOAD_PAYLOAD_NAME e s = Some s' \<Longrightarrow> yaml_wf s \<Longrightarrow> yaml_wf s'"
  "Handle_STATE_NEW_PAYLOAD_PRIV_MODE e s = Some s' \<Longrightarrow> yaml_wf s \<Longrightarrow> yaml_wf s'"
  "Handle_STATE_NEW_PAYLOAD_SKIP_OPENSBI e s = Some s' \<Longrightarrow> yaml_wf s \<Longrightarrow> yaml_wf s'"
  "Handle_STATE_NEW_PAYLOAD_ALLOW_REBOOT e s = Some s' \<Longrightarrow> yaml_wf s \<Longrightarrow> yaml_wf s'"
  "Handle_STATE_NEW_PAYLOAD_SKIP_AUTOBOOT e s = Some s' \<Longrightarrow> yaml_wf s \<Longrightarrow> yaml_wf s'"
  "Handle_STATE_NEW_PAYLOAD_ANCILLIARY_DATA e s = Some s' \<Longrightarrow> yaml_wf s \<Longrightarrow> yaml_wf s'"
  by (auto simp: Handle_STATE_NEW_PAYLOAD_EXEC_ADDR_def Handle_STATE_NEW_PAYLOAD_OWNER_HART_def
      Handle_STATE_NEW_PAYLOAD_PAYLOAD_NAME_def Handle_STATE_NEW_PAYLOAD_PRIV_MODE_def
      Handle_STATE_NEW_PAYLOAD_SKIP_OPENSBI_def Handle_STATE_NEW_PAYLOAD_ALLOW_REBOOT_def
      Handle_STATE_NEW_PAYLOAD_SKIP_AUTOBOOT_def Handle_STATE_NEW_PAYLOAD_ANCILLIARY_DATA_def value_handler_def
      set_flag_def yaml_wf_def Do_State_Transition_def bind_eq_Some_conv dest: hart_of_token_le
      split: yaml_event.splits token.splits)

lemma in_set_update: "x \<in> set (xs[i := y]) \<Longrightarrow> x = y \<or> x \<in> set xs"
  using set_update_subset_insert [of xs i y] by fastforce

lemma secondary_hart_wf:
  "Handle_STATE_NEW_PAYLOAD_SECONDARY_HART e s = Some s' \<Longrightarrow> yaml_wf s \<Longrightarrow> yaml_wf s'"
  unfolding Handle_STATE_NEW_PAYLOAD_SECONDARY_HART_def
  by (erule value_handler_wf) (auto simp: yaml_wf_def Do_State_Transition_def bind_eq_Some_conv
      dest: hart_of_token_le dest!: in_set_update)

lemmas handlers_wf = document_handlers_wf set_name_wf entry_points_wf entry_point_wf payload_mappings_wf
  new_payload_wf payload_value_handlers_wf secondary_hart_wf

lemma stateHandler_wf: "stateHandler fs st e s = Some s' \<Longrightarrow> yaml_wf s \<Longrightarrow> files_fit fs \<Longrightarrow> yaml_wf s'"
  by (cases st) (simp_all add: stateHandler_def handlers_wf)

lemma parse_events_wf: "parse_events fs es s = Some s' \<Longrightarrow> yaml_wf s \<Longrightarrow> files_fit fs \<Longrightarrow> yaml_wf s'"
  by (induction es arbitrary: s) (auto simp: bind_eq_Some_conv split: if_splits dest: stateHandler_wf)

section \<open>Documents\<close>

text \<open>A configuration as it is meant: the fields of a payload, and the items of a document. The
  semantics says what each does to the header and to the payload being described; \<open>doc_events\<close>
  is how it is written.\<close>

datatype field = Exec_Addr "u8 list" | Owner_Hart nat | Secondary_Hart nat | Payload_Name "u8 list" | Priv_M | Priv_S
  | Priv_U | Skip_OpenSBI "u8 list" | Cold_Reboot | Warm_Reboot | Skip_Autoboot "u8 list" | Ancilliary "u8 list"

datatype item = Set_Name "u8 list" | Entry_Points "(nat \<times> u8 list) list" | Payloads "(u8 list \<times> field list) list"

definition hart_string :: "nat \<Rightarrow> string" where
  "hart_string h = (if h = 1 then ''u54_1'' else if h = 2 then ''u54_2'' else if h = 3 then ''u54_3'' else ''u54_4'')"

fun field_strings :: "field \<Rightarrow> string \<times> u8 list" where
  "field_strings (Exec_Addr v) = (''exec-addr'', v)"
| "field_strings (Owner_Hart h) = (''owner-hart'', c_string (hart_string h))"
| "field_strings (Secondary_Hart h) = (''secondary-hart'', c_string (hart_string h))"
| "field_strings (Payload_Name v) = (''payload-name'', v)"
| "field_strings Priv_M = (''priv-mode'', c_string ''prv_m'')"
| "field_strings Priv_S = (''priv-mode'', c_string ''prv_s'')"
| "field_strings Priv_U = (''priv-mode'', c_string ''prv_u'')"
| "field_strings (Skip_OpenSBI v) = (''skip-opensbi'', v)"
| "field_strings Cold_Reboot = (''allow-reboot'', c_string ''cold'')"
| "field_strings Warm_Reboot = (''allow-reboot'', c_string ''warm'')"
| "field_strings (Skip_Autoboot v) = (''skip-autoboot'', v)"
| "field_strings (Ancilliary v) = (''ancilliary-data'', v)"

definition entry_events :: "string \<times> u8 list \<Rightarrow> yaml_event list" where
  "entry_events kv = [YAML_SCALAR_EVENT (c_string (fst kv)), YAML_SCALAR_EVENT (snd kv)]"

definition payload_events :: "u8 list \<times> field list \<Rightarrow> yaml_event list" where
  "payload_events p = YAML_SCALAR_EVENT (fst p) # YAML_MAPPING_START_EVENT #
     concat (map (entry_events \<circ> field_strings) (snd p)) @ [YAML_MAPPING_END_EVENT]"

fun item_events :: "item \<Rightarrow> yaml_event list" where
  "item_events (Set_Name v) = entry_events (''set-name'', v)"
| "item_events (Entry_Points eps) = YAML_SCALAR_EVENT (c_string ''hart-entry-points'') # YAML_MAPPING_START_EVENT #
     concat (map (\<lambda>(h, v). entry_events (hart_string h, v)) eps) @ [YAML_MAPPING_END_EVENT]"
| "item_events (Payloads ps) = YAML_SCALAR_EVENT (c_string ''payloads'') # YAML_MAPPING_START_EVENT #
     concat (map payload_events ps) @ [YAML_MAPPING_END_EVENT]"

definition doc_events :: "item list \<Rightarrow> yaml_event list" where
  "doc_events items = [YAML_STREAM_START_EVENT, YAML_DOCUMENT_START_EVENT, YAML_MAPPING_START_EVENT] @
     concat (map item_events items) @ [YAML_MAPPING_END_EVENT, YAML_DOCUMENT_END_EVENT, YAML_STREAM_END_EVENT]"

fun field_ok :: "field \<Rightarrow> bool" where
  "field_ok (Owner_Hart h) \<longleftrightarrow> h \<in> {1, 2, 3, 4}"
| "field_ok (Secondary_Hart h) \<longleftrightarrow> h \<in> {1, 2, 3, 4}"
| "field_ok _ \<longleftrightarrow> True"

fun item_ok :: "item \<Rightarrow> bool" where
  "item_ok (Set_Name v) \<longleftrightarrow> True"
| "item_ok (Entry_Points eps) \<longleftrightarrow> (\<forall>(h, v) \<in> set eps. h \<in> {1, 2, 3, 4})"
| "item_ok (Payloads ps) \<longleftrightarrow> (\<forall>(f, fields) \<in> set ps. \<forall>fd \<in> set fields. field_ok fd)"

definition on_flags :: "(Entitlement \<Rightarrow> Entitlement) \<Rightarrow> Yaml_State \<Rightarrow> Yaml_State" where
  "on_flags f s = s\<lparr>entitlement_flags := f (entitlement_flags s)\<rparr>"

text \<open>There is room for three secondary harts.\<close>

fun do_field :: "field \<Rightarrow> Yaml_State \<Rightarrow> Yaml_State option" where
  "do_field (Exec_Addr v) s = Some (s\<lparr>base_exec_addr := strtoul v\<rparr>)"
| "do_field (Owner_Hart h) s = Some (s\<lparr>base_owner := h\<rparr>)"
| "do_field (Secondary_Hart h) s = (if secondary_idx s < length (base_secondary s)
     then Some (s\<lparr>base_secondary := (base_secondary s)[secondary_idx s := h], secondary_idx := secondary_idx s + 1\<rparr>)
     else None)"
| "do_field (Payload_Name v) s = Some (s\<lparr>payload_name := copy_name (payload_name s) v, override_set_name_flag := True\<rparr>)"
| "do_field Priv_M s = Some (s\<lparr>base_priv_mode := 3\<rparr>)"
| "do_field Priv_S s = Some (s\<lparr>base_priv_mode := 1\<rparr>)"
| "do_field Priv_U s = Some (s\<lparr>base_priv_mode := 0\<rparr>)"
| "do_field (Skip_OpenSBI v) s = Some (if switch_on v then on_flags (skip_opensbi_update (\<lambda>_. True)) s else s)"
| "do_field Cold_Reboot s = Some (on_flags (allow_coldreboot_update (\<lambda>_. True)) s)"
| "do_field Warm_Reboot s = Some (on_flags (allow_warmreboot_update (\<lambda>_. True)) s)"
| "do_field (Skip_Autoboot v) s = Some (if switch_on v then on_flags (skip_autoboot_flag_update (\<lambda>_. True)) s else s)"
| "do_field (Ancilliary v) s = Some (on_flags (ancilliary_data_present_update (\<lambda>_. True))
     (s\<lparr>ancilliary_name := copy_name (ancilliary_name s) v\<rparr>))"

fun do_all :: "('a \<Rightarrow> 's \<Rightarrow> 's option) \<Rightarrow> 'a list \<Rightarrow> 's \<Rightarrow> 's option" where
  "do_all f [] s = Some s"
| "do_all f (x # xs) s = do { s \<leftarrow> f x s; do_all f xs s }"

definition begin_payload :: "u8 list \<Rightarrow> Yaml_State \<Rightarrow> Yaml_State" where
  "begin_payload file s = s\<lparr>base_name := copy_name (base_name s) file, payload_name := (payload_name s)[0 := 0],
     base_exec_addr := 0, base_owner := 0, secondary_idx := 0, base_secondary := [0, 0, 0], base_priv_mode := 3,
     entitlement_flags := no_flags\<rparr>"

definition do_payload :: "files \<Rightarrow> u8 list \<times> field list \<Rightarrow> Yaml_State \<Rightarrow> Yaml_State option" where
  "do_payload fs p s = do {
     s \<leftarrow> do_all do_field (snd p) (Do_State_Transition STATE_NEW_PAYLOAD (begin_payload (fst p) s));
     finish_payload fs s }"

definition do_entry_point :: "nat \<times> u8 list \<Rightarrow> Yaml_State \<Rightarrow> Yaml_State option" where
  "do_entry_point p s = map_hart (fst p) (\<lambda>h. h\<lparr>entryPoint := strtoul (snd p)\<rparr>) s"

fun do_item :: "files \<Rightarrow> item \<Rightarrow> Yaml_State \<Rightarrow> Yaml_State option" where
  "do_item fs (Set_Name v) s = Some (map_gen (map_image (\<lambda>img. img\<lparr>gi_set_name := copy_name (gi_set_name img) v\<rparr>))
     (s\<lparr>override_set_name_flag := True\<rparr>))"
| "do_item fs (Entry_Points eps) s = do_all do_entry_point eps s"
| "do_item fs (Payloads ps) s = do_all (do_payload fs) ps s"

section \<open>From events to meaning\<close>

text \<open>Every token is recognised by its own string: no token is hidden by a prefix of it.\<close>

lemma tokens_recognised: "\<forall>t \<in> set tokens. string_to_scalar (c_string (snd t)) = fst t"
  by (simp add: tokens_def string_to_scalar_def c_string_def matches_def)

lemma token_strings:
  "string_to_scalar (c_string ''set-name'') = TOKEN_SET_NAME"
  "string_to_scalar (c_string ''hart-entry-points'') = TOKEN_HART_ENTRY_POINTS"
  "string_to_scalar (c_string ''payloads'') = TOKEN_PAYLOADS"
  "string_to_scalar (c_string ''exec-addr'') = TOKEN_PAYLOAD_EXEC_ADDR"
  "string_to_scalar (c_string ''owner-hart'') = TOKEN_PAYLOAD_OWNER_HART"
  "string_to_scalar (c_string ''payload-name'') = TOKEN_PAYLOAD_PAYLOAD_NAME"
  "string_to_scalar (c_string ''priv-mode'') = TOKEN_PAYLOAD_PRIV_MODE"
  "string_to_scalar (c_string ''secondary-hart'') = TOKEN_PAYLOAD_SECONDARY_HART"
  "string_to_scalar (c_string ''skip-opensbi'') = TOKEN_PAYLOAD_SKIP_OPENSBI"
  "string_to_scalar (c_string ''allow-reboot'') = TOKEN_PAYLOAD_ALLOW_REBOOT"
  "string_to_scalar (c_string ''skip-autoboot'') = TOKEN_PAYLOAD_SKIP_AUTOBOOT"
  "string_to_scalar (c_string ''ancilliary-data'') = TOKEN_PAYLOAD_ANCILLIARY_DATA"
  "string_to_scalar (c_string ''prv_m'') = TOKEN_PRIV_MODE_M"
  "string_to_scalar (c_string ''prv_s'') = TOKEN_PRIV_MODE_S"
  "string_to_scalar (c_string ''prv_u'') = TOKEN_PRIV_MODE_U"
  "string_to_scalar (c_string ''u54_1'') = TOKEN_HART_U54_1"
  "string_to_scalar (c_string ''u54_2'') = TOKEN_HART_U54_2"
  "string_to_scalar (c_string ''u54_3'') = TOKEN_HART_U54_3"
  "string_to_scalar (c_string ''u54_4'') = TOKEN_HART_U54_4"
  "string_to_scalar (c_string ''cold'') = TOKEN_REBOOT_COLD"
  "string_to_scalar (c_string ''warm'') = TOKEN_REBOOT_WARM"
  using tokens_recognised unfolding tokens_def by simp_all

lemma hart_string_token: "h \<in> {1, 2, 3, 4} \<Longrightarrow> hart_of_token (string_to_scalar (c_string (hart_string h))) = Some h"
  by (auto simp: hart_string_def token_strings hart_of_token_def)

abbreviation (input) T :: "ParserState \<Rightarrow> Yaml_State \<Rightarrow> Yaml_State" where "T \<equiv> Do_State_Transition"

definition steps :: "files \<Rightarrow> yaml_event list \<Rightarrow> Yaml_State \<Rightarrow> Yaml_State option" where
  "steps fs = do_all (\<lambda>e s. stateHandler fs (parser_state s) e s)"

lemma do_all_append: "do_all f (xs @ ys) s = do { s \<leftarrow> do_all f xs s; do_all f ys s }"
  by (induction xs arbitrary: s) (auto simp: Option.bind_assoc intro!: Option.bind_cong)

lemma steps_append: "steps fs (xs @ ys) s = do { s \<leftarrow> steps fs xs s; steps fs ys s }"
  by (simp add: steps_def do_all_append)

lemma steps_simps:
  "steps fs [] s = Some s" "steps fs (e # es) s = do { s \<leftarrow> stateHandler fs (parser_state s) e s; steps fs es s }"
  by (simp_all add: steps_def)

lemma parse_events_steps:
  "YAML_STREAM_END_EVENT \<notin> set es \<Longrightarrow> YAML_NO_EVENT \<notin> set es \<Longrightarrow>
    parse_events fs (es @ [YAML_STREAM_END_EVENT]) s = steps fs es s"
  by (induction es arbitrary: s) (auto simp: steps_def intro!: Option.bind_cong)

lemma T_simps [simp]:
  "T a (T b s) = T a s" "parser_state (T a s) = a" "ys_gen (T a s) = ys_gen s" "image_of (T a s) = image_of s"
  "base_owner (T a s) = base_owner s" "base_secondary (T a s) = base_secondary s"
  "base_priv_mode (T a s) = base_priv_mode s" "secondary_idx (T a s) = secondary_idx s"
  "base_name (T a s) = base_name s" "payload_name (T a s) = payload_name s" "ancilliary_name (T a s) = ancilliary_name s"
  "entitlement_flags (T a s) = entitlement_flags s" "override_set_name_flag (T a s) = override_set_name_flag s"
  by (simp_all add: Do_State_Transition_def image_of_def)

lemma map_hart_T: "map_hart own f (T a s) = map_option (T a) (map_hart own f s)"
  by (simp add: map_hart_def map_gen_def Do_State_Transition_def image_of_def)

lemma do_field_T: "do_field fd (T a s) = map_option (T a) (do_field fd s)"
  by (cases fd) (simp_all add: Do_State_Transition_def on_flags_def)

lemma do_all_T:
  assumes "\<And>x s. f x (T a s) = map_option (T a) (f x s)"
  shows "do_all f xs (T a s) = map_option (T a) (do_all f xs s)"
  by (induction xs arbitrary: s) (simp_all add: assms map_option_bind split: bind_split)

lemma field_steps:
  assumes "field_ok fd"
  shows "steps fs (entry_events (field_strings fd)) (T STATE_NEW_PAYLOAD s) =
    map_option (T STATE_NEW_PAYLOAD) (do_field fd s)"
  using assms by (cases fd)
    (simp_all add: steps_simps entry_events_def stateHandler_def Handle_STATE_NEW_PAYLOAD_def token_strings payload_key_def
      value_handler_def Handle_STATE_NEW_PAYLOAD_EXEC_ADDR_def Handle_STATE_NEW_PAYLOAD_OWNER_HART_def
      Handle_STATE_NEW_PAYLOAD_SECONDARY_HART_def Handle_STATE_NEW_PAYLOAD_PAYLOAD_NAME_def
      Handle_STATE_NEW_PAYLOAD_PRIV_MODE_def Handle_STATE_NEW_PAYLOAD_SKIP_OPENSBI_def
      Handle_STATE_NEW_PAYLOAD_ALLOW_REBOOT_def Handle_STATE_NEW_PAYLOAD_SKIP_AUTOBOOT_def
      Handle_STATE_NEW_PAYLOAD_ANCILLIARY_DATA_def hart_string_token map_token_to_priv_mode_def require_def
      set_flag_def on_flags_def Do_State_Transition_def)

lemma fields_steps:
  "\<forall>fd \<in> set fds. field_ok fd \<Longrightarrow> steps fs (concat (map (entry_events \<circ> field_strings) fds)) (T STATE_NEW_PAYLOAD s) =
    map_option (T STATE_NEW_PAYLOAD) (do_all do_field fds s)"
proof (induction fds arbitrary: s)
  case Nil
  then show ?case by (simp add: steps_simps)
next
  case (Cons fd fds)
  then show ?case
    by (cases "do_field fd s") (simp_all add: steps_append field_steps)
qed

lemma begin_payload_T: "begin_payload f (T a s) = T a (begin_payload f s)"
  by (simp add: begin_payload_def Do_State_Transition_def)

lemma finish_payload_state: "finish_payload fs s = Some s' \<Longrightarrow> s' = T STATE_PAYLOAD_MAPPINGS s'"
  by (auto simp: finish_payload_def bind_eq_Some_conv Let_def)

lemma payload_steps:
  assumes "\<forall>fd \<in> set (snd p). field_ok fd"
  shows "steps fs (payload_events p) (T STATE_PAYLOAD_MAPPINGS s) = do_payload fs p s"
proof -
  let ?s = "T STATE_NEW_PAYLOAD (begin_payload (fst p) s)"
  have "?s\<lparr>base_owner := 0\<rparr> = ?s" by (simp add: begin_payload_def Do_State_Transition_def)
  moreover have "stateHandler fs STATE_PAYLOAD_MAPPINGS (YAML_SCALAR_EVENT (fst p)) (T STATE_PAYLOAD_MAPPINGS s) = Some ?s"
    by (simp add: stateHandler_def Handle_STATE_PAYLOAD_MAPPINGS_def value_handler_def begin_payload_def Do_State_Transition_def)
  moreover have "do_all do_field (snd p) ?s = map_option (T STATE_NEW_PAYLOAD) (do_all do_field (snd p) (begin_payload (fst p) s))"
    by (rule do_all_T) (rule do_field_T)
  ultimately show ?thesis
    using fields_steps [OF assms, of fs "begin_payload (fst p) s"]
    by (cases "do_all do_field (snd p) (begin_payload (fst p) s)")
      (simp_all add: payload_events_def steps_simps steps_append stateHandler_def Handle_STATE_NEW_PAYLOAD_def do_payload_def)
qed

lemma do_payload_T: "do_payload fs p (T a s) = do_payload fs p s"
  by (simp add: do_payload_def begin_payload_T)

lemma do_payload_state: "do_payload fs p s = Some s' \<Longrightarrow> s' = T STATE_PAYLOAD_MAPPINGS s'"
  by (auto simp: do_payload_def bind_eq_Some_conv dest: finish_payload_state)

lemma payloads_steps:
  "\<forall>(f, fields) \<in> set ps. \<forall>fd \<in> set fields. field_ok fd \<Longrightarrow>
    steps fs (concat (map payload_events ps)) (T STATE_PAYLOAD_MAPPINGS s) =
      map_option (T STATE_PAYLOAD_MAPPINGS) (do_all (do_payload fs) ps s)"
proof (induction ps arbitrary: s)
  case Nil
  then show ?case by (simp add: steps_simps)
next
  case (Cons p ps)
  have p: "steps fs (payload_events p) (T STATE_PAYLOAD_MAPPINGS s) = do_payload fs p s"
    using Cons.prems by (intro payload_steps) (cases p, auto)
  show ?case
  proof (cases "do_payload fs p s")
    case None
    then show ?thesis by (simp add: steps_append p)
  next
    case (Some s1)
    then have "s1 = T STATE_PAYLOAD_MAPPINGS s1" by (rule do_payload_state)
    then show ?thesis using Some Cons.IH [of s1] Cons.prems by (simp add: steps_append p)
  qed
qed

lemma entry_point_steps:
  assumes "h \<in> {1, 2, 3, 4}"
  shows "steps fs (entry_events (hart_string h, v)) (T STATE_HART_ENTRY_POINTS s) =
    map_option (T STATE_HART_ENTRY_POINTS) (do_entry_point (h, v) s)"
  using assms by (auto simp: steps_simps entry_events_def hart_string_def stateHandler_def token_strings
      Handle_STATE_HART_ENTRY_POINTS_def Handle_STATE_HART_ENTRY_POINTS_U54_1_def Handle_STATE_HART_ENTRY_POINTS_U54_2_def
      Handle_STATE_HART_ENTRY_POINTS_U54_3_def Handle_STATE_HART_ENTRY_POINTS_U54_4_def value_handler_def
      set_entry_point_def do_entry_point_def map_hart_T option.map_comp comp_def)

lemma entry_points_steps:
  "\<forall>(h, v) \<in> set eps. h \<in> {1, 2, 3, 4} \<Longrightarrow>
    steps fs (concat (map (\<lambda>(h, v). entry_events (hart_string h, v)) eps)) (T STATE_HART_ENTRY_POINTS s) =
      map_option (T STATE_HART_ENTRY_POINTS) (do_all do_entry_point eps s)"
proof (induction eps arbitrary: s)
  case Nil
  then show ?case by (simp add: steps_simps)
next
  case (Cons p eps)
  obtain h v where p: "p = (h, v)" by (cases p)
  then have h: "h \<in> {1, 2, 3, 4}" using Cons.prems by simp
  show ?case using Cons.IH Cons.prems
    by (cases "do_entry_point (h, v) s") (simp_all add: p steps_append entry_point_steps [OF h])
qed

lemma item_steps:
  assumes "item_ok it"
  shows "steps fs (item_events it) (T STATE_MAPPING s) = map_option (T STATE_MAPPING) (do_item fs it s)"
proof (cases it)
  case (Set_Name v)
  then show ?thesis
    by (simp add: steps_simps entry_events_def stateHandler_def Handle_STATE_MAPPING_def token_strings
        Handle_STATE_SET_NAME_def map_gen_def Do_State_Transition_def)
next
  case (Entry_Points eps)
  then show ?thesis using entry_points_steps [of eps fs s] assms
    by (cases "do_all do_entry_point eps s")
      (simp_all add: steps_simps steps_append stateHandler_def Handle_STATE_MAPPING_def token_strings
        Handle_STATE_HART_ENTRY_POINTS_def value_handler_def)
next
  case (Payloads ps)
  then show ?thesis using payloads_steps [of ps fs s] assms
    by (cases "do_all (do_payload fs) ps s")
      (simp_all add: steps_simps steps_append stateHandler_def Handle_STATE_MAPPING_def token_strings
        Handle_STATE_PAYLOAD_MAPPINGS_def value_handler_def)
qed

text \<open>The parser's own state does not matter to the meaning.\<close>

lemma do_entry_point_T: "do_entry_point p (T a s) = map_option (T a) (do_entry_point p s)"
  by (simp add: do_entry_point_def map_hart_T)

lemma do_item_T: "map_option (T b) (do_item fs it (T a s)) = map_option (T b) (do_item fs it s)"
proof (cases it)
  case (Set_Name v)
  then show ?thesis by (simp add: map_gen_def Do_State_Transition_def)
next
  case (Entry_Points eps)
  have "do_all do_entry_point eps (T a s) = map_option (T a) (do_all do_entry_point eps s)"
    by (rule do_all_T) (rule do_entry_point_T)
  then show ?thesis by (simp add: Entry_Points option.map_comp comp_def)
next
  case (Payloads ps)
  then show ?thesis by (cases ps) (simp_all add: do_payload_T)
qed

lemma items_steps:
  "\<forall>it \<in> set items. item_ok it \<Longrightarrow> steps fs (concat (map item_events items)) (T STATE_MAPPING s) =
    map_option (T STATE_MAPPING) (do_all (do_item fs) items s)"
proof (induction items arbitrary: s)
  case Nil
  then show ?case by (simp add: steps_simps)
next
  case (Cons it items)
  then show ?case by (cases "do_item fs it s") (simp_all add: steps_append item_steps)
qed

lemma events_plain:
  "YAML_STREAM_END_EVENT \<notin> set (item_events it)" "YAML_NO_EVENT \<notin> set (item_events it)"
  by (cases it; auto simp: entry_events_def payload_events_def)+

definition yaml_start :: "Generator \<Rightarrow> Yaml_State" where
  "yaml_start g = map_gen (map_image (\<lambda>img. prepare_harts
     (img\<lparr>gi_set_name := strncpy (gi_set_name img) (c_string ''PolarFireSOC-HSS::'') 254\<rparr>))) (yaml_static g)"

lemma document_parsed:
  assumes "\<forall>it \<in> set items. item_ok it"
  shows "yaml_parser fs (doc_events items) g = map_option (T STATE_STREAM) (do_all (do_item fs) items (yaml_start g))"
proof -
  let ?es = "[YAML_STREAM_START_EVENT, YAML_DOCUMENT_START_EVENT, YAML_MAPPING_START_EVENT] @
     concat (map item_events items) @ [YAML_MAPPING_END_EVENT, YAML_DOCUMENT_END_EVENT]"
  have st: "parser_state (yaml_start g) = STATE_IDLE"
    by (simp add: yaml_start_def map_gen_def yaml_static_def)
  have "doc_events items = ?es @ [YAML_STREAM_END_EVENT]" by (simp add: doc_events_def)
  then have "yaml_parser fs (doc_events items) g = steps fs ?es (yaml_start g)"
    unfolding yaml_parser_def yaml_start_def [symmetric]
    by (simp only:) (rule parse_events_steps, auto simp: events_plain)
  also have "\<dots> = map_option (T STATE_STREAM) (do_all (do_item fs) items (yaml_start g))"
    using items_steps [OF assms, of fs "yaml_start g"] st
    by (cases "do_all (do_item fs) items (yaml_start g)")
      (simp_all add: steps_simps steps_append stateHandler_def Handle_STATE_IDLE_def Handle_STATE_STREAM_def
        Handle_STATE_DOC_def Handle_STATE_MAPPING_def)
  finally show ?thesis .
qed

section \<open>Properties\<close>

lemma yaml_start_wf: "yaml_wf (yaml_start (generate_init generator_static))"
  by (simp add: yaml_wf_def yaml_start_def yaml_static_def map_gen_def map_image_def generate_init_def
      generator_static_def gen_wf_def prepare_harts_def image_ok_def entries_ok_def zero_hart_def strncpy_def)

text \<open>
  C9. What a configuration means. For every document of set names, entry points and payloads, in
  any order and number, the event-driven parser does exactly what the meaning of its items says,
  one after the other: each key is recognised (no token hides another), each field sets its own
  part of the payload being described, the end of a payload's mapping adds it, and a fourth
  secondary hart, a missing owner, a file that cannot be read or a second privilege mode for a
  secondary hart end the tool.
\<close>

theorem yaml_document_meaning:
  assumes "\<forall>it \<in> set items. item_ok it"
  shows "yaml_parser fs (doc_events items) g = map_option (Do_State_Transition STATE_STREAM)
    (do_all (do_item fs) items (yaml_start g))"
  using assms by (rule document_parsed)


text \<open>A document with a name, an entry point and one payload for hart 2, which also runs on hart 3.\<close>

definition sample_items :: "item list" where
  "sample_items = [Set_Name (c_string ''demo''), Entry_Points [(2, c_string ''0x80200000'')],
     Payloads [(c_string ''app.bin'', [Exec_Addr (c_string ''0x80200000''), Owner_Hart 2, Secondary_Hart 3, Priv_S])]]"

definition sample_files :: files where
  "sample_files = (\<lambda>_. Some (\<lparr>elf_is_elf = False, elf_has_class = False, e_machine = 0, e_type = 0, elf_phdrs = [],
     elf_sections = []\<rparr>, blob3))"

lemma sample_numbers: "strtoul (c_string ''0x80200000'') = 0x80200000"
  by (simp add: strtoul_def c_string_def is_space_def digit_def to_lower_def Let_def)

lemma sample_ok: "\<forall>it \<in> set sample_items. item_ok it"
  by (simp add: sample_items_def)

lemma four_harts: "replicate 4 z = [z, z, z, z]" "(a # b # c # zs)[2 := y] = a # b # y # zs"
  by (simp_all add: numeral_eq_Suc)

lemma sample_run:
  "\<exists>s. do_all (do_item sample_files) sample_items (yaml_start (generate_init generator_static)) = Some s \<and>
    map (\<lambda>(c, b). (owner c, execAddr c, b)) (chunkTable (ys_gen s)) = [(2, 0x80200000, blob3)] \<and>
    ziChunkTable (ys_gen s) = [] \<and>
    entryPoint (gi_hart (image_of s) ! 1) = 0x80200000 \<and> privMode (gi_hart (image_of s) ! 2) = 1 \<and>
    privMode (gi_hart (image_of s) ! 0) = PRV_ILLEGAL"
  by (simp add: sample_items_def sample_files_def do_payload_def begin_payload_def finish_payload_def name_set_def
      map_hart_def map_gen_def map_image_def upd_hart_def image_of_def yaml_start_def yaml_static_def generate_init_def
      generator_static_def prepare_harts_def zero_hart_def do_entry_point_def sample_numbers name_hart_def
      add_payload_file_def elf_parser_def blob_handler_def process_blob_def generate_add_chunk_def count_blob_def
      set_firstChunk_def populate_boot_flags_def no_flags_def require_def Do_State_Transition_def Let_def blob3_def
      four_harts del: replicate.simps)

theorem yaml_document_meaning_witness:
  "\<exists>s. yaml_parser sample_files (doc_events sample_items) (generate_init generator_static) = Some s \<and>
    map (\<lambda>(c, b). (owner c, execAddr c, b)) (chunkTable (ys_gen s)) = [(2, 0x80200000, blob3)] \<and>
    entryPoint (gi_hart (image_of s) ! 1) = 0x80200000 \<and> privMode (gi_hart (image_of s) ! 2) = 1"
  using yaml_document_meaning [OF sample_ok, of sample_files "generate_init generator_static"] sample_run by auto

lemma sample_generated:
  "\<exists>s. yaml_parser sample_files (doc_events sample_items) (generate_init generator_static) = Some s \<and>
    chunkTable (ys_gen s) \<noteq> [] \<and> payload_small (ys_gen s) \<and> privMode (gi_hart (image_of s) ! 2) = 1"
proof -
  obtain s where s: "do_all (do_item sample_files) sample_items (yaml_start (generate_init generator_static)) = Some s"
    "map (\<lambda>(c, b). (owner c, execAddr c, b)) (chunkTable (ys_gen s)) = [(2, 0x80200000, blob3)]"
    "ziChunkTable (ys_gen s) = []" "privMode (gi_hart (image_of s) ! 2) = 1"
    using sample_run by (elim exE conjE) (rule that)
  obtain c where c: "chunkTable (ys_gen s) = [(c, blob3)]" using s(2) by auto
  have run: "yaml_parser sample_files (doc_events sample_items) (generate_init generator_static) =
      Some (Do_State_Transition STATE_STREAM s)"
    unfolding document_parsed [OF sample_ok] s(1) by simp
  have "payload_small (ys_gen s)"
    unfolding payload_small_def payload_base_def c s(3) by (simp add: blob3_def pad8_def)
  then show ?thesis using run c s(4) by (intro exI [of _ "Do_State_Transition STATE_STREAM s"]) simp
qed


end
