(* ===== verification/Dispatch.thy ===== *)
theory Dispatch
  imports Boot_Safety Sgdma Ipi_Protocol
begin

text \<open>
  What a hart does with the messages it receives: the registry of message handlers
  (\<open>application/hart0/hss_registry.c\<close>), the software interrupt of the application harts
  (\<open>application/hart1-4/u54_handle_ipi.c\<close>) and the two handlers that leave the HSS for
  the program a hart is to run, \<open>HSS_GOTO_IPIHandler\<close>
  (\<open>services/goto/goto_service.c\<close>) and \<open>HSS_OpenSBI_IPIHandler\<close>
  (\<open>services/opensbi/opensbi_service.c\<close>), with the ecalls of OpenSBI that send
  requests to the E51 (\<open>services/opensbi/opensbi_ecall.c\<close>).

  These two handlers do not return: \<open>sbi_hart_switch_mode\<close> and \<open>sbi_init\<close> end
  in the program started. So a handler here ends in one of three ways, and nothing that
  \<open>IPI_ConsumeIntent\<close> does after the call happens when the hart has departed.
\<close>

section \<open>Data\<close>

text \<open>How a hart leaves the HSS: the arguments of the jump.\<close>

record Departure =
  dep_entry :: u64
  dep_mode :: u64
  dep_arg1 :: u64
  dep_opensbi :: bool

datatype 's run = Halted | Returned IPIStatusCode 's | Departed Departure 's

type_synonym 'x run_handler = "TxId_t \<Rightarrow> hart_id \<Rightarrow> u32 \<Rightarrow> u64 \<Rightarrow> u64 \<Rightarrow> IPI_Data \<times> 'x
    \<Rightarrow> (IPI_Data \<times> 'x) run"

record Hart_Csrs =
  csr_mstatus :: u64
  csr_mie :: u64

text \<open>The fields of \<open>struct sbi_scratch\<close> that the HSS writes; the addresses of
  the platform and of the HSS itself are constants of the link and left out.\<close>

record Scratch =
  sc_next_addr :: u64
  sc_next_mode :: u64
  sc_next_arg1 :: u64
  sc_options :: u64

abbreviation (input) SBI_SCRATCH_DEBUG_PRINTS :: u64 where "SBI_SCRATCH_DEBUG_PRINTS \<equiv> 2"

text \<open>The variables the handlers work on; \<open>hw_env\<close> is what the vendor's code
  (PMP registers, DDR training) works on.\<close>

record 'x HSS_World =
  hw_boot :: Boot_World
  hw_sgdma :: Sgdma_World
  hw_csrs :: "Hart_Csrs list"
  hw_scratches :: "Scratch list"
  hw_env :: 'x

section \<open>Leaving the HSS\<close>

definition CSR_ClearMSIP :: "hart_id \<Rightarrow> IPI_Data \<Rightarrow> IPI_Data option" where
  "CSR_ClearMSIP me d = (if is_u54 me then Some (d\<lparr>msip := (msip d)[me := 0]\<rparr>) else None)"

text \<open>
  \<open>EXTRACT_FIELD\<close> shifts the field down: what is written back to \<open>mstatus\<close> is the
  bit \<open>MPIE\<close> at position 0.
\<close>

definition EXTRACT_FIELD :: "u32 \<Rightarrow> u32 \<Rightarrow> u32" where
  "EXTRACT_FIELD val which = (val AND which) div (which AND NOT (which - 1))"

abbreviation (input) MSTATUS_MPIE :: u32 where "MSTATUS_MPIE \<equiv> 0x80"

definition quiesce_csrs :: "hart_id \<Rightarrow> 'x HSS_World \<Rightarrow> 'x HSS_World" where
  "quiesce_csrs me w = w\<lparr>hw_csrs := (hw_csrs w)[me :=
     (hw_csrs w ! me)\<lparr>csr_mstatus := ucast (EXTRACT_FIELD (ucast (csr_mstatus (hw_csrs w ! me))) MSTATUS_MPIE),
                      csr_mie := 0\<rparr>]\<rparr>"

definition upd_boot :: "(Boot_World \<Rightarrow> Boot_World) \<Rightarrow> 'x HSS_World \<Rightarrow> 'x HSS_World" where
  "upd_boot f w = w\<lparr>hw_boot := f (hw_boot w)\<rparr>"

text \<open>
  The acknowledgement both handlers send themselves, and their search for the message in the
  queue, which goes by the transaction id alone. A search that fails reads the message behind
  the queue; that is \<open>None\<close>.
\<close>

definition ack_and_release :: "hart_id \<Rightarrow> hart_id \<Rightarrow> TxId_t \<Rightarrow> IPI_Data \<Rightarrow> IPI_Data option" where
  "ack_and_release me source txid d = do {
     (r, d) \<leftarrow> IPI_Send me source IPI_MSG_ACK_COMPLETE txid (status_num IPI_SUCCESS) 0 0 d;
     let d = snd (IPI_MessageUpdateStatus txid IPI_IDLE d);
     pMsg \<leftarrow> IPI_DirectionToFirstMsgInQueue source me d;
     k \<leftarrow> find_index (\<lambda>m. transaction_id m = txid) (slots_of source me d);
     Some (clear_slot (IPI_CalculateQueueIndex source me) k d) }"

definition run_of :: "'a run option \<Rightarrow> 'a run" where
  "run_of r = (case r of None \<Rightarrow> Halted | Some x \<Rightarrow> x)"

text \<open>\<open>mode\<close> is the privilege mode to enter, \<open>ext\<close> the address.\<close>

definition HSS_GOTO_IPIHandler :: "hart_id \<Rightarrow> 'x HSS_World run_handler" where
  "HSS_GOTO_IPIHandler me txid source mode ext anc = (\<lambda>(d, w).
     if source \<noteq> HSS_HART_E51 then Returned IPI_FAIL (d, w)
     else if me = HSS_HART_E51 then Returned IPI_FAIL (d, w)
     else run_of (do {
       require (ext \<noteq> 0);
       d \<leftarrow> ack_and_release me source txid d;
       d \<leftarrow> CSR_ClearMSIP me d;
       let w = quiesce_csrs me w;
       u \<leftarrow> HSS_U54_SetState me HSS_State_Running (u54 (hw_boot w));
       Some (Departed \<lparr>dep_entry = ext, dep_mode = ucast mode, dep_arg1 = 0, dep_opensbi = False\<rparr>
               (d, upd_boot (\<lambda>b. b\<lparr>u54 := u\<rparr>) w)) }))"

definition opensbi_scratch_setup :: "hart_id \<Rightarrow> 'x HSS_World \<Rightarrow> 'x HSS_World option" where
  "opensbi_scratch_setup h w =
     (if h < MAX_NUM_HARTS then Some (w\<lparr>hw_scratches := (hw_scratches w)[h :=
        (hw_scratches w ! h)\<lparr>sc_options := SBI_SCRATCH_DEBUG_PRINTS\<rparr>]\<rparr>) else None)"

text \<open>\<open>sbi_init\<close> starts OpenSBI with the hart's scratch area.\<close>

definition HSS_OpenSBI_DoBoot :: "hart_id \<Rightarrow> IPI_Data \<times> 'x HSS_World \<Rightarrow> (IPI_Data \<times> 'x HSS_World) run" where
  "HSS_OpenSBI_DoBoot h = (\<lambda>(d, w). run_of (do {
     let w = quiesce_csrs h w;
     w \<leftarrow> opensbi_scratch_setup h w;
     ds \<leftarrow> mpfs_mark_hart_as_booted h (domains (hw_boot w));
     let sc = hw_scratches w ! h;
     Some (Departed \<lparr>dep_entry = sc_next_addr sc, dep_mode = sc_next_mode sc,
                     dep_arg1 = sc_next_arg1 sc, dep_opensbi = True\<rparr>
             (d, upd_boot (\<lambda>b. b\<lparr>domains := ds\<rparr>) w)) }))"

definition set_next :: "hart_id \<Rightarrow> u64 \<Rightarrow> u64 \<Rightarrow> u64 \<Rightarrow> 'x HSS_World \<Rightarrow> 'x HSS_World" where
  "set_next h addr mode arg1 w = w\<lparr>hw_scratches := (hw_scratches w)[h :=
     (hw_scratches w ! h)\<lparr>sc_next_addr := addr, sc_next_mode := mode, sc_next_arg1 := arg1\<rparr>]\<rparr>"

text \<open>The kit's configuration has no \<open>CONFIG_PROVIDE_DTB\<close>: without a device tree
  in the image the argument is the null pointer.\<close>

definition HSS_OpenSBI_IPIHandler :: "hart_id \<Rightarrow> 'x HSS_World run_handler" where
  "HSS_OpenSBI_IPIHandler me txid source mode ext anc = (\<lambda>(d, w).
     if source \<noteq> HSS_HART_E51 then Returned IPI_FAIL (d, w)
     else if me = HSS_HART_E51 then Returned IPI_FAIL (d, w)
     else (case ack_and_release me source txid d of
         None \<Rightarrow> Halted
       | Some d \<Rightarrow> HSS_OpenSBI_DoBoot me (d, set_next me ext (ucast mode) (if anc \<noteq> 0 then anc else 0) w)))"

section \<open>The registry\<close>

definition HSS_Null_IPIHandler :: "'s run_handler" where
  "HSS_Null_IPIHandler txid source imm ext anc s = Returned IPI_SUCCESS s"

definition plain :: "'x ipi_handler \<Rightarrow> 'x run_handler" where
  "plain h txid source imm ext anc s =
     (case h txid source imm ext anc s of None \<Rightarrow> Halted | Some (r, s') \<Rightarrow> Returned r s')"

text \<open>A handler that works on a part of the world.\<close>

definition on_part :: "('w \<Rightarrow> 'x) \<Rightarrow> ('x \<Rightarrow> 'w \<Rightarrow> 'w) \<Rightarrow> 'x ipi_handler \<Rightarrow> 'w ipi_handler" where
  "on_part get put h txid source imm ext anc = (\<lambda>(d, w).
     (case h txid source imm ext anc (d, get w) of
        None \<Rightarrow> None | Some (r, d', x) \<Rightarrow> Some (r, d', put x w)))"

definition boot_handler :: "'x HSS_World run_handler" where
  "boot_handler = plain (on_part hw_boot (\<lambda>b w. w\<lparr>hw_boot := b\<rparr>) HSS_Boot_IPIHandler)"

definition sgdma_handler :: "'x HSS_World run_handler" where
  "sgdma_handler = plain (on_part hw_sgdma (\<lambda>s w. w\<lparr>hw_sgdma := s\<rparr>) HSS_SGDMA_IPIHandler)"

definition pmp_setup_handler :: "hart_id \<Rightarrow> ('x \<Rightarrow> 'x) \<Rightarrow> 'x HSS_World run_handler" where
  "pmp_setup_handler me setup = plain (on_part
     (\<lambda>w. (pmpSetupFlag (hw_boot w), u54 (hw_boot w), hw_env w))
     (\<lambda>(flags, u, x) w. (upd_boot (\<lambda>b. b\<lparr>pmpSetupFlag := flags, u54 := u\<rparr>) w)\<lparr>hw_env := x\<rparr>)
     (HSS_Boot_PMPSetupHandler me setup))"

definition ddr_train_message_handler :: "('x \<Rightarrow> 'x) \<Rightarrow> 'x HSS_World run_handler" where
  "ddr_train_message_handler train = plain (on_part
     (\<lambda>w. (bw_triggers (hw_boot w), hw_env w))
     (\<lambda>(t, x) w. (upd_boot (\<lambda>b. b\<lparr>bw_triggers := t\<rparr>) w)\<lparr>hw_env := x\<rparr>)
     (HSS_DDR_Train_IPIHandler train))"

definition ipiRegistry :: "hart_id \<Rightarrow> ('x \<Rightarrow> 'x) \<Rightarrow> ('x \<Rightarrow> 'x)
    \<Rightarrow> (IPIMessagesEnum \<times> 'x HSS_World run_handler) list" where
  "ipiRegistry me setup train =
     [(IPI_MSG_NO_MESSAGE, HSS_Null_IPIHandler),
      (IPI_MSG_BOOT_REQUEST, boot_handler),
      (IPI_MSG_PMP_SETUP, pmp_setup_handler me setup),
      (IPI_MSG_SPI_XFER, HSS_Null_IPIHandler),
      (IPI_MSG_NET_RXPOLL, HSS_Null_IPIHandler),
      (IPI_MSG_NET_TX, HSS_Null_IPIHandler),
      (IPI_MSG_SCATTERGATHER_DMA, sgdma_handler),
      (IPI_MSG_WDOG_INIT, HSS_Null_IPIHandler),
      (IPI_MSG_GPIO_SET, HSS_Null_IPIHandler),
      (IPI_MSG_UART_TX, HSS_Null_IPIHandler),
      (IPI_MSG_UART_POLL_RX, HSS_Null_IPIHandler),
      (IPI_MSG_POWERMODE, HSS_Null_IPIHandler),
      (IPI_MSG_ACK_PENDING, plain IPI_ACK_IPIHandler),
      (IPI_MSG_ACK_COMPLETE, plain IPI_ACK_IPIHandler),
      (IPI_MSG_HALT, HSS_Null_IPIHandler),
      (IPI_MSG_CONTINUE, HSS_Null_IPIHandler),
      (IPI_MSG_GOTO, HSS_GOTO_IPIHandler me),
      (IPI_MSG_OPENSBI_INIT, HSS_OpenSBI_IPIHandler me),
      (IPI_MSG_SCRUB, HSS_Null_IPIHandler),
      (IPI_MSG_DDR_TRAIN, ddr_train_message_handler train)]"

section \<open>Consuming a message\<close>

text \<open>
  \<open>IPI_ConsumeIntent\<close> with such a registry: up to the call of the handler it is the one of
  the message bus, and so it is after the call if the call returns.
\<close>

definition returning :: "'x run_handler \<Rightarrow> 'x ipi_handler" where
  "returning h txid source imm ext anc s =
     (case h txid source imm ext anc s of Returned r s' \<Rightarrow> Some (r, s') | _ \<Rightarrow> None)"

definition returning_registry :: "(IPIMessagesEnum \<times> 'x run_handler) list \<Rightarrow> 'x ipi_registry" where
  "returning_registry reg = map (\<lambda>(t, h). (t, Some (returning h))) reg"

definition handler_call :: "(IPIMessagesEnum \<times> 'x run_handler) list \<Rightarrow> hart_id \<Rightarrow> hart_id \<Rightarrow> IPIMessagesEnum
    \<Rightarrow> IPI_Data \<times> 'x \<Rightarrow> (IPI_Data \<times> 'x) run option" where
  "handler_call reg me source mtype = (\<lambda>(d, x).
     (case slot_take mtype (slots_of source me d) of
        None \<Rightarrow> None
      | Some (m, q) \<Rightarrow> Some (snd (reg ! msg_num mtype) (transaction_id m) source (immediate_arg m)
          (p_extended_buffer_in_ddr m) (p_ancilliary_buffer_in_ddr m) (pre_consume source me d, x))))"

datatype 's intent = Intent_Halted | Intent_Returned bool 's | Intent_Departed Departure 's

definition consume_intent :: "(IPIMessagesEnum \<times> 'x run_handler) list \<Rightarrow> hart_id \<Rightarrow> hart_id \<Rightarrow> IPIMessagesEnum
    \<Rightarrow> IPI_Data \<times> 'x \<Rightarrow> (IPI_Data \<times> 'x) intent" where
  "consume_intent reg me source mtype s =
     (case handler_call reg me source mtype s of
        Some (Departed dep s') \<Rightarrow> Intent_Departed dep s'
      | _ \<Rightarrow> (case IPI_ConsumeIntent (returning_registry reg) me source mtype s of
                None \<Rightarrow> Intent_Halted | Some (r, s') \<Rightarrow> Intent_Returned r s'))"

section \<open>The software interrupt of an application hart\<close>

definition intentsArray :: "IPIMessagesEnum list" where
  "intentsArray = [IPI_MSG_PMP_SETUP, IPI_MSG_GOTO, IPI_MSG_OPENSBI_INIT, IPI_MSG_DDR_TRAIN]"

fun handle_intents :: "(IPIMessagesEnum \<times> 'x run_handler) list \<Rightarrow> hart_id \<Rightarrow> IPIMessagesEnum list \<Rightarrow> bool
    \<Rightarrow> IPI_Data \<times> 'x \<Rightarrow> (IPI_Data \<times> 'x) intent" where
  "handle_intents reg me [] found s = Intent_Returned found s"
| "handle_intents reg me (t # ts) found s =
     (case consume_intent reg me HSS_HART_E51 t s of
        Intent_Returned r s' \<Rightarrow> handle_intents reg me ts (r \<or> found) s'
      | other \<Rightarrow> other)"

definition HSS_U54_HandleIPI :: "hart_id \<Rightarrow> ('x \<Rightarrow> 'x) \<Rightarrow> ('x \<Rightarrow> 'x) \<Rightarrow> IPI_Data \<times> 'x HSS_World
    \<Rightarrow> (IPI_Data \<times> 'x HSS_World) intent" where
  "HSS_U54_HandleIPI me setup train = handle_intents (ipiRegistry me setup train) me intentsArray False"

definition HSS_U54_Banner :: "hart_id \<Rightarrow> U54_State \<Rightarrow> U54_State option" where
  "HSS_U54_Banner me u = HSS_U54_SetState me HSS_State_Idle u"

section \<open>Lemmas\<close>

lemma registry_nth:
  "snd (ipiRegistry me setup train ! msg_num t) =
     (case t of IPI_MSG_BOOT_REQUEST \<Rightarrow> boot_handler
      | IPI_MSG_PMP_SETUP \<Rightarrow> pmp_setup_handler me setup
      | IPI_MSG_SCATTERGATHER_DMA \<Rightarrow> sgdma_handler
      | IPI_MSG_ACK_PENDING \<Rightarrow> plain IPI_ACK_IPIHandler
      | IPI_MSG_ACK_COMPLETE \<Rightarrow> plain IPI_ACK_IPIHandler
      | IPI_MSG_GOTO \<Rightarrow> HSS_GOTO_IPIHandler me
      | IPI_MSG_OPENSBI_INIT \<Rightarrow> HSS_OpenSBI_IPIHandler me
      | IPI_MSG_DDR_TRAIN \<Rightarrow> ddr_train_message_handler train
      | _ \<Rightarrow> HSS_Null_IPIHandler)"
  by (cases t) (simp_all add: ipiRegistry_def msg_num_def ipi_messages_def)

lemma registry_ok_code: "registry_ok (returning_registry (ipiRegistry me setup train))"
  by (simp add: registry_ok_def returning_registry_def ipiRegistry_def ipi_messages_def)

lemma length_registry: "length (ipiRegistry me setup train) = 20"
  by (simp add: ipiRegistry_def)

lemma returning_nth:
  "snd (returning_registry (ipiRegistry me setup train) ! msg_num t) =
     Some (returning (snd (ipiRegistry me setup train ! msg_num t)))"
  using msg_num_less [of t] by (simp add: returning_registry_def length_registry split: prod.split)

lemma plain_not_departed [simp]: "plain h tx s imm ext anc x \<noteq> Departed dep y"
  by (simp add: plain_def split: option.split prod.split)

lemma returning_plain [simp]: "returning (plain h) = h"
  by (intro ext) (simp add: returning_def plain_def split: option.split prod.split)

lemma only_two_depart:
  assumes "snd (ipiRegistry me setup train ! msg_num t) tx s imm ext anc x = Departed dep y"
  shows "t = IPI_MSG_GOTO \<or> t = IPI_MSG_OPENSBI_INIT"
  using assms
  by (cases t) (simp_all add: registry_nth HSS_Null_IPIHandler_def boot_handler_def sgdma_handler_def
      pmp_setup_handler_def ddr_train_message_handler_def)

text \<open>The arrays of the world have their declared sizes.\<close>

definition hw_wf :: "'x HSS_World \<Rightarrow> bool" where
  "hw_wf w \<longleftrightarrow> length (hw_scratches w) = 5 \<and> length (hw_csrs w) = 5 \<and>
     length (pmpSetupFlag (hw_boot w)) = 5 \<and> domains_wf (domains (hw_boot w)) \<and>
     length (hartStates (u54 (hw_boot w))) = 5"

text \<open>What a hart departs with is what the message says.\<close>

definition departure_of :: "IPI_Outbox_Msg \<Rightarrow> Departure" where
  "departure_of m =
     (if msg_type m = IPI_MSG_GOTO
      then \<lparr>dep_entry = p_extended_buffer_in_ddr m, dep_mode = ucast (immediate_arg m), dep_arg1 = 0,
            dep_opensbi = False\<rparr>
      else \<lparr>dep_entry = p_extended_buffer_in_ddr m, dep_mode = ucast (immediate_arg m),
            dep_arg1 = p_ancilliary_buffer_in_ddr m, dep_opensbi = True\<rparr>)"

lemma doboot_run:
  assumes "h < 5" "hw_wf w"
  shows "\<exists>w'. HSS_OpenSBI_DoBoot h (d, set_next h addr mode arg1 w) =
      Departed \<lparr>dep_entry = addr, dep_mode = mode, dep_arg1 = arg1, dep_opensbi = True\<rparr> (d, w') \<and>
    hw_wf w' \<and> hw_boot w' = (hw_boot w)\<lparr>domains := domains (hw_boot w')\<rparr>"
  using assms
  by (simp add: HSS_OpenSBI_DoBoot_def quiesce_csrs_def opensbi_scratch_setup_def set_next_def
      mpfs_mark_hart_as_booted_def with_ledger_def run_of_def upd_boot_def hw_wf_def domains_wf_def)

lemma update_status_completes:
  "ipi_completes d = ipi_completes d' \<Longrightarrow>
    ipi_completes (snd (IPI_MessageUpdateStatus tx s d)) = ipi_completes (snd (IPI_MessageUpdateStatus tx s d'))"
  by (simp add: IPI_MessageUpdateStatus_def split: option.split)

lemma update_status_frame [simp]:
  "ipi_queues (snd (IPI_MessageUpdateStatus tx s d)) = ipi_queues d"
  "msip (snd (IPI_MessageUpdateStatus tx s d)) = msip d"
  "my_transaction_id (snd (IPI_MessageUpdateStatus tx s d)) = my_transaction_id d"
  by (simp_all add: IPI_MessageUpdateStatus_def split: option.split)

definition success_ack :: "TxId_t \<Rightarrow> IPI_Outbox_Msg" where
  "success_ack tx = \<lparr>msg_type = IPI_MSG_ACK_COMPLETE, transaction_id = tx, immediate_arg = status_num IPI_SUCCESS,
     p_extended_buffer_in_ddr = 0, p_ancilliary_buffer_in_ddr = 0\<rparr>"

text \<open>What \<open>ack_and_release\<close> does to the bus: the message in slot \<open>k\<close> is gone, its
  acknowledgement is on the way back if there is room, and its transaction is idle.\<close>

definition released :: "hart_id \<Rightarrow> hart_id \<Rightarrow> TxId_t \<Rightarrow> nat \<Rightarrow> IPI_Data \<Rightarrow> IPI_Data \<Rightarrow> bool" where
  "released h s tx k d d' \<longleftrightarrow> ipi_wf d' \<and>
     slots_of s h d' = (slots_of s h d)[k := (slots_of s h d ! k)\<lparr>msg_type := IPI_MSG_NO_MESSAGE\<rparr>] \<and>
     slots_of h s d' = try_put (Some (success_ack tx)) (slots_of h s d) \<and>
     (\<forall>a b. distinct_harts a b \<longrightarrow> (a, b) \<noteq> (h, s) \<longrightarrow> (a, b) \<noteq> (s, h) \<longrightarrow> slots_of a b d' = slots_of a b d) \<and>
     ipi_completes d' = ipi_completes (snd (IPI_MessageUpdateStatus tx IPI_IDLE d)) \<and>
     my_transaction_id d' = my_transaction_id d"

lemma ack_and_release_run:
  assumes wf: "ipi_wf d" and h: "distinct_harts h s"
    and k: "find_index (\<lambda>m. transaction_id m = tx) (slots_of s h d) = Some k"
  shows "\<exists>d'. ack_and_release h s tx d = Some d' \<and> released h s tx k d d'"
proof -
  have p: "h < 5" "s < 5" "h \<noteq> s" "distinct_harts s h" using h by (auto simp: distinct_harts_def)
  obtain r d1 where d1: "IPI_Send h s IPI_MSG_ACK_COMPLETE tx (status_num IPI_SUCCESS) 0 0 d = Some (r, d1)"
    using IPI_Send_wf [OF wf p(1-3)] by blast
  note S = IPI_Send_slots [OF wf h d1]
  let ?d2 = "snd (IPI_MessageUpdateStatus tx IPI_IDLE d1)"
  have wf2: "ipi_wf ?d2" using S(3) by (rule IPI_MessageUpdateStatus_wf)
  have same: "slots_of s h ?d2 = slots_of s h d" using S(2) [OF p(4)] p(3) by simp
  have dir: "\<exists>x. IPI_DirectionToFirstMsgInQueue s h ?d2 = Some x"
    using p by (simp add: IPI_DirectionToFirstMsgInQueue_def)
  have run: "ack_and_release h s tx d = Some (clear_slot (IPI_CalculateQueueIndex s h) k ?d2)"
    using d1 k same dir by (auto simp: ack_and_release_def)
  note C = clear_slot_slots [OF wf2 p(4), where k = k]
  have "slots_of h s (clear_slot (IPI_CalculateQueueIndex s h) k ?d2) = slots_of h s d1"
    using C(2) [OF h] p(3) by simp
  moreover have "slots_of h s d1 = try_put (Some (success_ack tx)) (slots_of h s d)"
    using S(1) by (simp add: try_put_def success_ack_def split: option.splits)
  moreover have "slots_of a b (clear_slot (IPI_CalculateQueueIndex s h) k ?d2) = slots_of a b d"
    if "distinct_harts a b" "(a, b) \<noteq> (h, s)" "(a, b) \<noteq> (s, h)" for a b
    using C(2) [OF that(1,3)] S(2) [OF that(1,2)] by simp
  moreover have "ipi_completes ?d2 = ipi_completes (snd (IPI_MessageUpdateStatus tx IPI_IDLE d))"
    using S(4) by (rule update_status_completes)
  ultimately show ?thesis unfolding run released_def using C(1,3,4,5) same S(5) by simp
qed

lemma released_update_msip: "released h s tx k d (d'\<lparr>msip := (msip d')[h := a]\<rparr>) = released h s tx k d d'"
  by (simp add: released_def)

lemma released_pre_consume:
  assumes "ipi_wf d" "distinct_harts s h" "released h s tx k (pre_consume s h d) d'"
  shows "released h s tx k d d'"
proof -
  have "slots_of a b (pre_consume s h d) = slots_of a b d" if "distinct_harts a b" for a b
    using that assms(1) by (simp add: distinct_harts_def queue_index_less ipi_wfD)
  moreover have "distinct_harts h s" using assms(2) by (auto simp: distinct_harts_def)
  ultimately show ?thesis
    using assms update_status_completes [of "pre_consume s h d" d tx IPI_IDLE]
    by (simp add: released_def)
qed

lemma goto_run:
  assumes "ipi_wf d" "is_u54 h" "hw_wf w" "ext \<noteq> 0"
    and "find_index (\<lambda>m. transaction_id m = tx) (slots_of 0 h d) = Some k"
  shows "\<exists>d' w'. HSS_GOTO_IPIHandler h tx 0 mode ext anc (d, w) =
      Departed \<lparr>dep_entry = ext, dep_mode = ucast mode, dep_arg1 = 0, dep_opensbi = False\<rparr> (d', w') \<and>
    released h 0 tx k d d' \<and> hw_wf w' \<and> hartStates (u54 (hw_boot w')) ! h = HSS_State_Running \<and>
    pmpSetupFlag (hw_boot w') = pmpSetupFlag (hw_boot w)"
proof -
  have h: "distinct_harts h 0" "h \<noteq> 0" "h < 5" using assms(2) by (auto simp: is_u54_def distinct_harts_def)
  obtain d1 where d1: "ack_and_release h 0 tx d = Some d1" "released h 0 tx k d d1"
    using ack_and_release_run [OF assms(1) h(1) assms(5)] by blast
  let ?u = "(u54 (hw_boot w))\<lparr>hartStates := (hartStates (u54 (hw_boot w)))[h := HSS_State_Running], reportingFlag := True\<rparr>"
  have u: "HSS_U54_SetState h HSS_State_Running (u54 (hw_boot (quiesce_csrs h w))) = Some ?u"
    using assms(2) by (simp add: HSS_U54_SetState_def HSS_U54_SetState_Ex_def quiesce_csrs_def)
  have "released h 0 tx k d (d1\<lparr>msip := (msip d1)[h := 0]\<rparr>)"
    using d1(2) by (simp only: released_update_msip)
  moreover have "HSS_GOTO_IPIHandler h tx 0 mode ext anc (d, w) =
      Departed \<lparr>dep_entry = ext, dep_mode = ucast mode, dep_arg1 = 0, dep_opensbi = False\<rparr>
        (d1\<lparr>msip := (msip d1)[h := 0]\<rparr>, upd_boot (\<lambda>b. b\<lparr>u54 := ?u\<rparr>) (quiesce_csrs h w))"
    using h(2) assms(2,4) d1(1) u by (simp add: HSS_GOTO_IPIHandler_def CSR_ClearMSIP_def run_of_def require_def)
  ultimately show ?thesis
    using assms(3) h(3) by (simp add: hw_wf_def upd_boot_def quiesce_csrs_def)
qed

lemma opensbi_run:
  assumes "ipi_wf d" "is_u54 h" "hw_wf w"
    and "find_index (\<lambda>m. transaction_id m = tx) (slots_of 0 h d) = Some k"
  shows "\<exists>d' w'. HSS_OpenSBI_IPIHandler h tx 0 mode ext anc (d, w) =
      Departed \<lparr>dep_entry = ext, dep_mode = ucast mode, dep_arg1 = anc, dep_opensbi = True\<rparr> (d', w') \<and>
    released h 0 tx k d d' \<and> hw_wf w' \<and> pmpSetupFlag (hw_boot w') = pmpSetupFlag (hw_boot w)"
proof -
  have h: "distinct_harts h 0" "h \<noteq> 0" "h < 5" using assms(2) by (auto simp: is_u54_def distinct_harts_def)
  obtain d1 where d1: "ack_and_release h 0 tx d = Some d1" "released h 0 tx k d d1"
    using ack_and_release_run [OF assms(1) h(1) assms(4)] by blast
  obtain w' where w': "HSS_OpenSBI_DoBoot h (d1, set_next h ext (ucast mode) anc w) =
      Departed \<lparr>dep_entry = ext, dep_mode = ucast mode, dep_arg1 = anc, dep_opensbi = True\<rparr> (d1, w')"
    "hw_wf w'" "hw_boot w' = (hw_boot w)\<lparr>domains := domains (hw_boot w')\<rparr>"
    using doboot_run [OF h(3) assms(3)] by blast
  have anc: "(if anc \<noteq> 0 then anc else 0) = anc" by simp
  have "pmpSetupFlag (hw_boot w') = pmpSetupFlag (hw_boot w)"
    using arg_cong [OF w'(3), of pmpSetupFlag] by simp
  then show ?thesis
    using h(2) d1 w' unfolding HSS_OpenSBI_IPIHandler_def anc by simp
qed

text \<open>No other slot of the queue carries the message's transaction id.\<close>

definition own_id :: "IPI_Outbox_Msg \<Rightarrow> IPI_Outbox_Msg list \<Rightarrow> bool" where
  "own_id m xs \<longleftrightarrow> (\<forall>n \<in> set xs. transaction_id n = transaction_id m \<longrightarrow> n = m)"

lemma own_id_slot:
  assumes "slot_take t xs = Some (m, q)" "own_id m xs"
  shows "\<exists>k. find_index (\<lambda>n. transaction_id n = transaction_id m) xs = Some k \<and> xs ! k = m \<and>
    q = xs[k := m\<lparr>msg_type := IPI_MSG_NO_MESSAGE\<rparr>]"
proof -
  obtain k where k: "find_index (\<lambda>n. msg_type n = t) xs = Some k" "m = xs ! k"
    "q = xs[k := m\<lparr>msg_type := IPI_MSG_NO_MESSAGE\<rparr>]"
    using assms(1) by (auto simp: slot_take_def)
  note K = find_index_SomeD [OF k(1)]
  have "transaction_id (xs ! j) \<noteq> transaction_id m" if j: "j < k" for j
  proof
    assume "transaction_id (xs ! j) = transaction_id m"
    then have "xs ! j = m" using assms(2) j K by (simp add: own_id_def)
    then show False using K j k(2) by auto
  qed
  then have "find_index (\<lambda>n. transaction_id n = transaction_id m) xs = Some k"
    using K k(2) by (intro find_index_SomeI) auto
  then show ?thesis using k(2,3) by blast
qed

lemma slot_take_type: "slot_take t xs = Some (m, q) \<Longrightarrow> msg_type m = t"
  by (auto simp: slot_take_def dest: find_index_SomeD)

definition starts_hart :: "IPIMessagesEnum \<Rightarrow> bool" where
  "starts_hart t \<longleftrightarrow> t = IPI_MSG_GOTO \<or> t = IPI_MSG_OPENSBI_INIT"

lemma consume_departs:
  assumes wf: "ipi_wf d" and h: "is_u54 h" and w: "hw_wf w" and t: "starts_hart t"
    and m: "slot_take t (slots_of 0 h d) = Some (m, q)" "own_id m (slots_of 0 h d)"
    and ext: "p_extended_buffer_in_ddr m \<noteq> 0"
  shows "\<exists>d' w'. consume_intent (ipiRegistry h setup train) h 0 t (d, w) = Intent_Departed (departure_of m) (d', w') \<and>
    ipi_wf d' \<and> slots_of 0 h d' = q \<and>
    slots_of h 0 d' = try_put (Some (success_ack (transaction_id m))) (slots_of h 0 d) \<and>
    ipi_completes d' = ipi_completes (snd (IPI_MessageUpdateStatus (transaction_id m) IPI_IDLE d)) \<and>
    pmpSetupFlag (hw_boot w') = pmpSetupFlag (hw_boot w)"
proof -
  have dh: "distinct_harts 0 h" using h by (auto simp: is_u54_def distinct_harts_def)
  let ?d = "pre_consume 0 h d"
  have wf': "ipi_wf ?d" using wf dh by simp
  have same: "slots_of 0 h ?d = slots_of 0 h d"
    using wf dh by (simp add: distinct_harts_def queue_index_less ipi_wfD)
  obtain k where k: "find_index (\<lambda>n. transaction_id n = transaction_id m) (slots_of 0 h ?d) = Some k"
    "slots_of 0 h d ! k = m" "q = (slots_of 0 h d)[k := m\<lparr>msg_type := IPI_MSG_NO_MESSAGE\<rparr>]"
    using own_id_slot [OF m] same by auto
  have "\<exists>d' w'. snd (ipiRegistry h setup train ! msg_num t) (transaction_id m) 0 (immediate_arg m)
      (p_extended_buffer_in_ddr m) (p_ancilliary_buffer_in_ddr m) (?d, w) = Departed (departure_of m) (d', w') \<and>
      released h 0 (transaction_id m) k ?d d' \<and> pmpSetupFlag (hw_boot w') = pmpSetupFlag (hw_boot w)"
    using t slot_take_type [OF m(1)] goto_run [OF wf' h w ext k(1)] opensbi_run [OF wf' h w k(1)]
    unfolding starts_hart_def
    by (elim disjE) (simp_all add: registry_nth departure_of_def, blast+)
  then obtain d' w' where run: "snd (ipiRegistry h setup train ! msg_num t) (transaction_id m) 0 (immediate_arg m)
      (p_extended_buffer_in_ddr m) (p_ancilliary_buffer_in_ddr m) (?d, w) = Departed (departure_of m) (d', w')"
    "released h 0 (transaction_id m) k ?d d'" "pmpSetupFlag (hw_boot w') = pmpSetupFlag (hw_boot w)" by blast
  have "released h 0 (transaction_id m) k d d'" using released_pre_consume [OF wf dh run(2)] .
  then show ?thesis
    using m(1) run(1,3) k(2,3) by (simp add: consume_intent_def handler_call_def released_def)
qed

lemma consume_pmp_setup:
  assumes wf: "ipi_wf d" and h: "is_u54 h" and w: "hw_wf w"
  shows "\<exists>r d' w'. consume_intent (ipiRegistry h setup train) h 0 IPI_MSG_PMP_SETUP (d, w) = Intent_Returned r (d', w') \<and>
    ipi_wf d' \<and> hw_wf w' \<and> ipi_completes d' = ipi_completes d \<and> my_transaction_id d' = my_transaction_id d \<and>
    slots_of 0 h d' = (case slot_take IPI_MSG_PMP_SETUP (slots_of 0 h d) of None \<Rightarrow> slots_of 0 h d | Some (m, q) \<Rightarrow> q) \<and>
    (slot_take IPI_MSG_PMP_SETUP (slots_of 0 h d) \<noteq> None \<longrightarrow> pmpSetupFlag (hw_boot w') ! h)"
proof -
  have dh: "distinct_harts 0 h" "h < 5" using h by (auto simp: is_u54_def distinct_harts_def)
  let ?reg = "ipiRegistry h setup train" and ?R = "returning_registry (ipiRegistry h setup train)"
  have hd: "snd (?R ! msg_num IPI_MSG_PMP_SETUP) = Some (returning (pmp_setup_handler h setup))"
    by (simp add: returning_nth registry_nth)
  show ?thesis
  proof (cases "slot_take IPI_MSG_PMP_SETUP (slots_of 0 h d)")
    case None
    then have "IPI_ConsumeIntent ?R h 0 IPI_MSG_PMP_SETUP (d, w) = Some (False, d, w)"
      using consume_nothing [OF wf dh(1) registry_ok_code hd] by blast
    then show ?thesis using None wf w by (auto simp: consume_intent_def handler_call_def)
  next
    case (Some mq)
    obtain m q where m: "slot_take IPI_MSG_PMP_SETUP (slots_of 0 h d) = Some (m, q)" using Some by (cases mq) auto
    let ?b = "hw_boot w"
    let ?u = "(u54 ?b)\<lparr>hartStates := (hartStates (u54 ?b))[h := HSS_State_Booting], reportingFlag := True\<rparr>"
    let ?w = "(upd_boot (\<lambda>b. b\<lparr>pmpSetupFlag := (pmpSetupFlag b)[h := True], u54 := ?u\<rparr>) w)
      \<lparr>hw_env := (if pmpSetupFlag ?b ! h then hw_env w else setup (hw_env w))\<rparr>"
    have len: "h < length (pmpSetupFlag ?b)" using w dh(2) by (simp add: hw_wf_def)
    have flag: "(pmpSetupFlag ?b)[h := True] = pmpSetupFlag ?b" if "pmpSetupFlag ?b ! h"
      using that len by (metis list_update_id)
    have st: "HSS_U54_SetState h HSS_State_Booting (u54 ?b) = Some ?u"
      using h by (simp add: HSS_U54_SetState_def HSS_U54_SetState_Ex_def)
    have run: "returning (pmp_setup_handler h setup) tx s i e a (y, w) = Some (IPI_SUCCESS, y, ?w)" for tx s i e a y
      using st flag by (simp add: pmp_setup_handler_def on_part_def HSS_Boot_PMPSetupHandler_def upd_boot_def)
    have wfp: "ipi_wf (pre_consume 0 h d)" using wf dh(1) by simp
    obtain d' where d': "IPI_ConsumeIntent ?R h 0 IPI_MSG_PMP_SETUP (d, w) = Some (True, d', ?w)"
      "ipi_wf d'" "slots_of 0 h d' = q" "ipi_completes d' = ipi_completes d" "my_transaction_id d' = my_transaction_id d"
      using IPI_ConsumeIntent_slots [OF wf dh(1) registry_ok_code hd m run wfp refl] by auto
    have nd: "\<And>tx s i e a y dep z. pmp_setup_handler h setup tx s i e a y \<noteq> Departed dep z"
      by (simp add: pmp_setup_handler_def)
    have "consume_intent ?reg h 0 IPI_MSG_PMP_SETUP (d, w) = Intent_Returned True (d', ?w)"
      using d'(1) m nd by (simp add: consume_intent_def handler_call_def registry_nth split: run.split)
    moreover have "hw_wf ?w" using w by (simp add: hw_wf_def upd_boot_def)
    moreover have "pmpSetupFlag (hw_boot ?w) ! h" using len by (simp add: upd_boot_def)
    ultimately show ?thesis using d'(2-5) m by auto
  qed
qed

text \<open>Taking a message of one type leaves the messages of another.\<close>

lemma take_other:
  assumes "slot_take s xs = Some (n, ys)" "t \<noteq> s" "t \<noteq> IPI_MSG_NO_MESSAGE"
  shows "find_index (\<lambda>m. msg_type m = t) ys = find_index (\<lambda>m. msg_type m = t) xs"
    "slot_take t xs = Some (m, q) \<Longrightarrow> \<exists>q'. slot_take t ys = Some (m, q')"
    "slot_take t xs = None \<Longrightarrow> slot_take t ys = None"
    "slot_take t xs = Some (m, q) \<Longrightarrow> own_id m xs \<Longrightarrow> own_id m ys"
    "slot_take t xs = Some (m, q) \<Longrightarrow> slot_take t q = None \<Longrightarrow> slot_take t ys = Some (m, q') \<Longrightarrow>
      slot_take t q' = None"
proof -
  obtain k where k: "find_index (\<lambda>m. msg_type m = s) xs = Some k" "n = xs ! k"
    "ys = xs[k := n\<lparr>msg_type := IPI_MSG_NO_MESSAGE\<rparr>]"
    using assms(1) by (auto simp: slot_take_def)
  note K = find_index_SomeD [OF k(1)]
  have eq: "msg_type (ys ! j) = t \<longleftrightarrow> msg_type (xs ! j) = t" if "j < length xs" for j
    using that k K assms(2,3) by (cases "j = k") auto
  have len: "length ys = length xs" using k(3) by simp
  show f: "find_index (\<lambda>m. msg_type m = t) ys = find_index (\<lambda>m. msg_type m = t) xs"
  proof (cases "find_index (\<lambda>m. msg_type m = t) xs")
    case None
    then have "\<forall>j < length xs. msg_type (xs ! j) \<noteq> t" by (simp add: find_index_None_iff all_set_conv_all_nth)
    then have "\<forall>j < length ys. msg_type (ys ! j) \<noteq> t" using eq len by simp
    then have "find_index (\<lambda>m. msg_type m = t) ys = None"
      by (simp add: find_index_None_iff all_set_conv_all_nth)
    then show ?thesis using None by simp
  next
    case (Some i)
    note I = find_index_SomeD [OF Some]
    have "find_index (\<lambda>m. msg_type m = t) ys = Some i"
      using I eq len by (intro find_index_SomeI) auto
    then show ?thesis using Some by simp
  qed
  show "slot_take t xs = None \<Longrightarrow> slot_take t ys = None" using f by (simp add: slot_take_def)
  assume m: "slot_take t xs = Some (m, q)"
  then obtain i where i: "find_index (\<lambda>m. msg_type m = t) xs = Some i" "m = xs ! i" by (auto simp: slot_take_def)
  note I = find_index_SomeD [OF i(1)]
  have ik: "i \<noteq> k" using I K assms(2) by auto
  then show "\<exists>q'. slot_take t ys = Some (m, q')" using f i k(3) by (simp add: slot_take_def)
  show "slot_take t q' = None" if q: "slot_take t q = None" "slot_take t ys = Some (m, q')"
  proof -
    have e: "q = xs[i := m\<lparr>msg_type := IPI_MSG_NO_MESSAGE\<rparr>]" "q' = ys[i := m\<lparr>msg_type := IPI_MSG_NO_MESSAGE\<rparr>]"
      using m q(2) i f by (auto simp: slot_take_def)
    have "msg_type (q ! j) \<noteq> t" if "j < length xs" for j
      using q(1) e(1) that by (auto simp: slot_take_def find_index_None_iff all_set_conv_all_nth)
    then have "msg_type (q' ! j) \<noteq> t" if "j < length xs" for j
      using that eq [of j] e I len assms(3) by (cases "j = i") force+
    then have "\<forall>x \<in> set q'. msg_type x \<noteq> t" using e(2) len by (simp add: all_set_conv_all_nth)
    then show ?thesis by (simp add: slot_take_def find_index_None_iff)
  qed
  assume own: "own_id m xs"
  show "own_id m ys"
    unfolding own_id_def
  proof (intro ballI impI)
    fix x assume "x \<in> set ys" "transaction_id x = transaction_id m"
    then obtain j where j: "j < length xs" "x = ys ! j" using len by (auto simp: in_set_conv_nth)
    have "j \<noteq> k"
    proof
      assume "j = k"
      then have "transaction_id (xs ! k) = transaction_id m" using j k(2,3) K \<open>transaction_id x = _\<close> by simp
      then have "xs ! k = m" using own K by (simp add: own_id_def)
      then show False using I K i(2) assms(2) by simp
    qed
    then show "x = m" using j k(3) own \<open>transaction_id x = _\<close> by (simp add: own_id_def)
  qed
qed

lemma consume_intent_nothing:
  fixes w :: "'x HSS_World"
  assumes "ipi_wf d" "is_u54 h" "slot_take t (slots_of 0 h d) = None"
  shows "consume_intent (ipiRegistry h setup train) h 0 t (d, w) = Intent_Returned False (d, w)"
proof -
  have "distinct_harts 0 h" using assms(2) by (auto simp: is_u54_def distinct_harts_def)
  then have "IPI_ConsumeIntent (returning_registry (ipiRegistry h setup train)) h 0 t (d, w) = Some (False, d, w)"
    using consume_nothing [OF assms(1) _ registry_ok_code returning_nth assms(3)] by blast
  then show ?thesis using assms(3) by (simp add: consume_intent_def handler_call_def)
qed

lemma handle_departs:
  assumes wf: "ipi_wf d" and h: "is_u54 h" and w: "hw_wf w" and t: "starts_hart t"
    and m: "slot_take t (slots_of 0 h d) = Some (m, q)" "own_id m (slots_of 0 h d)"
    and ext: "p_extended_buffer_in_ddr m \<noteq> 0"
    and only: "slot_take t q = None"
    and first: "t = IPI_MSG_OPENSBI_INIT \<longrightarrow> slot_take IPI_MSG_GOTO (slots_of 0 h d) = None"
  shows "\<exists>d' w'. HSS_U54_HandleIPI h setup train (d, w) = Intent_Departed (departure_of m) (d', w') \<and>
    ipi_wf d' \<and> slot_take t (slots_of 0 h d') = None \<and>
    ipi_completes d' = ipi_completes (snd (IPI_MessageUpdateStatus (transaction_id m) IPI_IDLE d)) \<and>
    (slot_take IPI_MSG_PMP_SETUP (slots_of 0 h d) \<noteq> None \<longrightarrow> pmpSetupFlag (hw_boot w') ! h)"
proof -
  let ?reg = "ipiRegistry h setup train"
  obtain r d1 w1 where 1: "consume_intent ?reg h 0 IPI_MSG_PMP_SETUP (d, w) = Intent_Returned r (d1, w1)"
    "ipi_wf d1" "hw_wf w1" "ipi_completes d1 = ipi_completes d"
    "slots_of 0 h d1 = (case slot_take IPI_MSG_PMP_SETUP (slots_of 0 h d) of None \<Rightarrow> slots_of 0 h d | Some (m, q) \<Rightarrow> q)"
    "slot_take IPI_MSG_PMP_SETUP (slots_of 0 h d) \<noteq> None \<longrightarrow> pmpSetupFlag (hw_boot w1) ! h"
    using consume_pmp_setup [OF wf h w] by blast
  have t': "t \<noteq> IPI_MSG_PMP_SETUP" "t \<noteq> IPI_MSG_NO_MESSAGE" using t by (auto simp: starts_hart_def)
  have "\<exists>q'. slot_take t (slots_of 0 h d1) = Some (m, q') \<and> own_id m (slots_of 0 h d1) \<and>
      slot_take t q' = None \<and>
      (slot_take IPI_MSG_GOTO (slots_of 0 h d) = None \<longrightarrow> slot_take IPI_MSG_GOTO (slots_of 0 h d1) = None)"
  proof (cases "slot_take IPI_MSG_PMP_SETUP (slots_of 0 h d)")
    case None
    then show ?thesis using 1(5) m only by simp
  next
    case (Some ny)
    obtain n ys where ny: "ny = (n, ys)" by (cases ny)
    have ys: "slots_of 0 h d1 = ys" using 1(5) Some ny by simp
    note T = take_other [OF Some [unfolded ny] t']
    obtain q' where q': "slot_take t ys = Some (m, q')" using T(2) [OF m(1)] by blast
    have "slot_take IPI_MSG_GOTO ys = None" if "slot_take IPI_MSG_GOTO (slots_of 0 h d) = None"
      using take_other(3) [OF Some [unfolded ny] _ _ that] by simp
    note goto = this
    show ?thesis
      unfolding ys by (intro exI [of _ q'] conjI impI q' T(4) [OF m] T(5) [OF m(1) only q'] goto)
  qed
  then obtain q' where q': "slot_take t (slots_of 0 h d1) = Some (m, q')" "own_id m (slots_of 0 h d1)"
    "slot_take t q' = None"
    "slot_take IPI_MSG_GOTO (slots_of 0 h d) = None \<longrightarrow> slot_take IPI_MSG_GOTO (slots_of 0 h d1) = None"
    by (elim exE conjE) (rule that)
  obtain d' w' where D: "consume_intent ?reg h 0 t (d1, w1) = Intent_Departed (departure_of m) (d', w')"
    "ipi_wf d'" "slots_of 0 h d' = q'"
    "ipi_completes d' = ipi_completes (snd (IPI_MessageUpdateStatus (transaction_id m) IPI_IDLE d1))"
    "pmpSetupFlag (hw_boot w') = pmpSetupFlag (hw_boot w1)"
    using consume_departs [OF 1(2) h 1(3) t q'(1,2) ext, of "setup" "train"] by (elim exE conjE) (rule that)
  have "HSS_U54_HandleIPI h setup train (d, w) = Intent_Departed (departure_of m) (d', w')"
  proof (cases "t = IPI_MSG_GOTO")
    case True
    then show ?thesis using D(1) 1(1) by (simp add: HSS_U54_HandleIPI_def intentsArray_def)
  next
    case False
    then have t: "t = IPI_MSG_OPENSBI_INIT" using t by (simp add: starts_hart_def)
    have "slot_take IPI_MSG_GOTO (slots_of 0 h d1) = None" using q'(4) first t by simp
    then have "consume_intent ?reg h 0 IPI_MSG_GOTO (d1, w1) = Intent_Returned False (d1, w1)"
      by (rule consume_intent_nothing [OF 1(2) h])
    then show ?thesis
      using D(1) 1(1) t by (simp add: HSS_U54_HandleIPI_def intentsArray_def)
  qed
  then show ?thesis
    using D(2-5) 1(6) q'(3) update_status_completes [OF 1(4)] by simp
qed

lemma put_fresh:
  assumes put: "slot_put m xs = Some ys" and t: "msg_type m = t" "t \<noteq> IPI_MSG_NO_MESSAGE"
    and quiet: "\<forall>n \<in> set xs. msg_type n \<noteq> t" and fresh: "\<forall>n \<in> set xs. transaction_id n \<noteq> transaction_id m"
  shows "\<exists>q. slot_take t ys = Some (m, q) \<and> slot_take t q = None" "own_id m ys"
    "s \<noteq> t \<Longrightarrow> s \<noteq> IPI_MSG_NO_MESSAGE \<Longrightarrow> slot_take s ys = None \<longleftrightarrow> (\<forall>n \<in> set xs. msg_type n \<noteq> s)"
proof -
  obtain k where k: "k < length xs" "msg_type (xs ! k) = IPI_MSG_NO_MESSAGE" "ys = xs[k := m]"
    using put by (auto simp: slot_put_def dest: find_index_SomeD)
  have mem: "set ys \<subseteq> insert m (set xs)" using k(3) set_update_subset_insert by metis
  have "find_index (\<lambda>n. msg_type n = t) ys = Some k"
    using k quiet t(1) by (intro find_index_SomeI) (auto simp: nth_list_update)
  then have "slot_take t ys = Some (m, ys[k := m\<lparr>msg_type := IPI_MSG_NO_MESSAGE\<rparr>])"
    using k(1,3) by (simp add: slot_take_def)
  moreover have "\<forall>n \<in> set (ys[k := m\<lparr>msg_type := IPI_MSG_NO_MESSAGE\<rparr>]). msg_type n \<noteq> t"
    using k(3) quiet t(2) by (auto dest!: set_update_subset_insert [THEN subsetD])
  ultimately show "\<exists>q. slot_take t ys = Some (m, q) \<and> slot_take t q = None"
    by (auto simp: slot_take_def find_index_None_iff)
  show "own_id m ys" using mem fresh by (auto simp: own_id_def)
  assume s: "s \<noteq> t" "s \<noteq> IPI_MSG_NO_MESSAGE"
  have "(\<exists>n \<in> set ys. msg_type n = s) \<longleftrightarrow> (\<exists>n \<in> set xs. msg_type n = s)"
  proof
    show "\<exists>n \<in> set ys. msg_type n = s \<Longrightarrow> \<exists>n \<in> set xs. msg_type n = s" using mem s(1) t(1) by auto
    assume "\<exists>n \<in> set xs. msg_type n = s"
    then obtain j where j: "j < length xs" "msg_type (xs ! j) = s" by (auto simp: in_set_conv_nth)
    then have "j \<noteq> k" using k(2) s(2) by auto
    then show "\<exists>n \<in> set ys. msg_type n = s" using j k(3) nth_mem [of j ys] by auto
  qed
  then show "slot_take s ys = None \<longleftrightarrow> (\<forall>n \<in> set xs. msg_type n \<noteq> s)"
    by (auto simp: slot_take_def find_index_None_iff)
qed

section \<open>Properties\<close>

text \<open>
  C7. Only the E51 can make a hart leave the HSS: whatever message of whatever type a hart
  consumes, it departs only if the message is one of the two that start a program, comes from
  the E51 and runs on an application hart, and then it departs to the address, in the privilege
  mode and with the argument the message carries.
\<close>

theorem only_e51_starts_harts:
  assumes "hw_wf w" and "me < 5"
    and "consume_intent (ipiRegistry me setup train) me source t (d, w) = Intent_Departed dep (d', w')"
  shows "source = HSS_HART_E51 \<and> me \<noteq> HSS_HART_E51 \<and> (t = IPI_MSG_GOTO \<or> t = IPI_MSG_OPENSBI_INIT) \<and>
    (\<exists>m q. slot_take t (slots_of source me d) = Some (m, q) \<and> dep = departure_of m)"
proof -
  obtain m q where m: "slot_take t (slots_of source me d) = Some (m, q)"
    "snd (ipiRegistry me setup train ! msg_num t) (transaction_id m) source (immediate_arg m)
      (p_extended_buffer_in_ddr m) (p_ancilliary_buffer_in_ddr m) (pre_consume source me d, w) =
      Departed dep (d', w')"
    using assms(3)
    by (auto simp: consume_intent_def handler_call_def split: option.splits run.splits)
  have ty: "msg_type m = t" using slot_take_type [OF m(1)] .
  show ?thesis
    using only_two_depart [OF m(2)]
  proof (elim disjE)
    assume t: "t = IPI_MSG_GOTO"
    then have "HSS_GOTO_IPIHandler me (transaction_id m) source (immediate_arg m)
      (p_extended_buffer_in_ddr m) (p_ancilliary_buffer_in_ddr m) (pre_consume source me d, w) = Departed dep (d', w')"
      using m(2) by (simp add: registry_nth)
    then show ?thesis
      using m(1) t ty
      by (auto simp: HSS_GOTO_IPIHandler_def run_of_def bind_eq_Some_conv departure_of_def Let_def split: if_splits option.splits)
  next
    assume t: "t = IPI_MSG_OPENSBI_INIT"
    then have r: "HSS_OpenSBI_IPIHandler me (transaction_id m) source (immediate_arg m)
      (p_extended_buffer_in_ddr m) (p_ancilliary_buffer_in_ddr m) (pre_consume source me d, w) = Departed dep (d', w')"
      using m(2) by (simp add: registry_nth)
    then have s: "source = 0" "me \<noteq> 0" by (auto simp: HSS_OpenSBI_IPIHandler_def split: if_splits)
    have anc: "(if a \<noteq> 0 then a else 0) = a" for a :: u64 by simp
    obtain d1 where "HSS_OpenSBI_DoBoot me (d1, set_next me (p_extended_buffer_in_ddr m)
        (ucast (immediate_arg m)) (p_ancilliary_buffer_in_ddr m) w) = Departed dep (d', w')"
      using r s unfolding HSS_OpenSBI_IPIHandler_def anc by (auto split: option.splits)
    then have "dep = departure_of m"
      using doboot_run [OF assms(2,1), of d1 "p_extended_buffer_in_ddr m" "ucast (immediate_arg m)"
        "p_ancilliary_buffer_in_ddr m"] t ty by (auto simp: departure_of_def)
    then show ?thesis using s t m(1) by simp
  qed
qed


definition hw_static :: "unit HSS_World" where
  "hw_static = \<lparr>hw_boot = boot_world0 (\<lambda>_. 0) 0, hw_sgdma = sg_world,
     hw_csrs = replicate 5 \<lparr>csr_mstatus = 0, csr_mie = 0\<rparr>,
     hw_scratches = replicate 5 \<lparr>sc_next_addr = 0, sc_next_mode = 0, sc_next_arg1 = 0, sc_options = 0\<rparr>,
     hw_env = ()\<rparr>"

lemma hw_static_wf: "hw_wf hw_static"
  by (simp add: hw_wf_def hw_static_def boot_world0_def domains_static_def domains_wf_def u54_static_def)

lemma bus_init_ready: "acked_type t \<Longrightarrow> ready_for 0 2 t bus_init"
  by (simp add: ready_for_def bus_init_empty bus_init_completes zero_Complete_def del: replicate.simps)


theorem only_e51_starts_harts_witness:
  "\<exists>d dep s. consume_intent (ipiRegistry 2 id id) 2 0 IPI_MSG_GOTO (d, hw_static) = Intent_Departed dep s \<and>
    (\<exists>m q. slot_take IPI_MSG_GOTO (slots_of 0 2 d) = Some (m, q) \<and> dep = departure_of m)"
proof -
  let ?m = "\<lparr>msg_type = IPI_MSG_GOTO, transaction_id = 5, immediate_arg = 1,
    p_extended_buffer_in_ddr = 0x80000000, p_ancilliary_buffer_in_ddr = 0\<rparr>"
  have i: "IPI_CalculateQueueIndex 0 2 = 1" by (simp add: IPI_CalculateQueueIndex_def)
  let ?d = "set_slot 1 0 ?m bus_init"
  have r: "replicate 4 zero_Msg = [zero_Msg, zero_Msg, zero_Msg, zero_Msg]" by (simp add: numeral_eq_Suc)
  have sl: "slots_of 0 2 ?d = [?m, zero_Msg, zero_Msg, zero_Msg]"
    unfolding i using bus_init_wf by (simp add: bus_init_slots ipi_wfD r del: replicate.simps)
  have u: "is_u54 2" by (simp add: is_u54_def)
  have tk: "slot_take IPI_MSG_GOTO (slots_of 0 2 ?d) = Some (?m, [?m\<lparr>msg_type := IPI_MSG_NO_MESSAGE\<rparr>, zero_Msg, zero_Msg, zero_Msg])"
    unfolding sl by (simp add: slot_take_def)
  have own: "own_id ?m (slots_of 0 2 ?d)" unfolding sl by (simp add: own_id_def zero_Msg_def)
  have wf: "ipi_wf ?d" by (rule set_slot_wf [OF bus_init_wf]) simp
  obtain d' w' where D: "consume_intent (ipiRegistry 2 id id) 2 0 IPI_MSG_GOTO (?d, hw_static) = Intent_Departed (departure_of ?m) (d', w')"
    using consume_departs [OF wf u hw_static_wf _ tk own, of id id] by (auto simp: starts_hart_def)
  have "(2 :: nat) < 5" by simp
  then have "\<exists>m q. slot_take IPI_MSG_GOTO (slots_of 0 2 ?d) = Some (m, q) \<and> departure_of ?m = departure_of m"
    using only_e51_starts_harts [OF hw_static_wf _ D] by simp
  then show ?thesis using D by blast
qed

end
