(* ===== verification/Startup.thy ===== *)
theory Startup
  imports Dispatch
begin

text \<open>
  The services around the boot service: polling for messages
  (\<open>services/ipi_poll/ipi_poll_service.c\<close>), the initialisation sequence
  (\<open>services/startup/startup_service.c\<close>), and the machines of the GOTO and OpenSBI
  services (\<open>services/goto/goto_service.c\<close>, \<open>services/opensbi/opensbi_service.c\<close>),
  whose work is done by their message handlers (theory Dispatch). The configuration is the
  kit's: \<open>CONFIG_SERVICE_TINYCLI\<close> is on.
\<close>

section \<open>Services whose states have a handler and nothing else\<close>

text \<open>
  The contract of such a table: the handler of state \<open>i\<close>, run in state \<open>i\<close>, keeps the
  invariant and moves to a state of the table.
\<close>

locale plain_service =
  fixes descs :: "'w StateDesc list"
    and Inv :: "'w \<Rightarrow> bool"
    and may_halt :: bool
  assumes handlers_only: "i < length descs \<Longrightarrow>
      \<exists>f. descs ! i = \<lparr>sd_state = int i, state_onEntry = None, state_onExit = None, state_handler = Some f\<rparr>"
    and handler_ok: "i < length descs \<Longrightarrow> state_handler (descs ! i) = Some f \<Longrightarrow> state (m :: StateMachine) = int i \<Longrightarrow>
      numStates m \<le> length descs \<Longrightarrow> Inv w \<Longrightarrow>
      (case f m w of None \<Rightarrow> may_halt | Some (m', w') \<Rightarrow> machine_ok descs m' \<and> Inv w')"
begin

definition handler_of :: "int \<Rightarrow> 'w hook" where
  "handler_of s = the (state_handler (descs ! nat s))"

text \<open>A step is its handler between the two time stamps.\<close>

lemma step_is_handler:
  assumes "machine_ok descs m"
  shows "RunStateMachine descs t0 t1 m w =
    map_option (\<lambda>(m', w'). (stamp_end t0 t1 m', w'))
      (handler_of (state m) ((if prevState m = state m then stamp_begin t0 m
          else (stamp_begin t0 m)\<lparr>executionCount := 0, prevState := state m\<rparr>)) w)"
proof -
  have s: "0 \<le> state m" "nat (state m) < length descs" using assms by (auto simp: machine_ok_def)
  have numbered: "desc_at descs p = Some (descs ! nat p) \<and> sd_state (descs ! nat p) = p \<and>
      state_onExit (descs ! nat p) = None \<and> state_onEntry (descs ! nat p) = None \<and>
      state_handler (descs ! nat p) = Some (handler_of p)"
    if "0 \<le> p" "nat p < length descs" for p
    using handlers_only [OF that(2)] that by (auto simp: desc_at_def handler_of_def)
  have leave: "leave_state descs (prevState m) (stamp_begin t0 m) w = Some (stamp_begin t0 m, w)"
  proof (cases "IsValidState (stamp_begin t0 m) (prevState m)")
    case True
    then have "0 \<le> prevState m" "nat (prevState m) < length descs"
      using assms by (auto simp: IsValidState_def machine_ok_def)
    then show ?thesis using numbered True by (simp add: leave_state_def)
  qed (simp add: leave_state_def)
  show ?thesis
    using numbered [OF s] leave
    by (auto simp: RunStateMachine_def change_state_def bind_eq_Some_conv map_option_case
        split: option.splits prod.splits)
qed

definition outcome_ok :: "(StateMachine \<times> 'w) option \<Rightarrow> bool" where
  "outcome_ok r \<longleftrightarrow> (case r of None \<Rightarrow> may_halt | Some (m, w) \<Rightarrow> machine_ok descs m \<and> Inv w)"

lemma step_ok:
  assumes "machine_ok descs m" and "Inv w"
  shows "outcome_ok (RunStateMachine descs t0 t1 m w)"
proof -
  define n where "n = (if prevState m = state m then stamp_begin t0 m
          else (stamp_begin t0 m)\<lparr>executionCount := 0, prevState := state m\<rparr>)"
  have s: "0 \<le> state m" "nat (state m) < length descs" "numStates n \<le> length descs" "state n = state m"
    using assms(1) by (auto simp: machine_ok_def n_def)
  obtain f where f: "state_handler (descs ! nat (state m)) = Some f" using handlers_only [OF s(2)] by auto
  have "case f n w of None \<Rightarrow> may_halt | Some (m', w') \<Rightarrow> machine_ok descs m' \<and> Inv w'"
    using handler_ok [OF s(2) f, of n w] s assms(2) by simp
  then show ?thesis
    unfolding step_is_handler [OF assms(1)] handler_of_def f outcome_ok_def n_def [symmetric]
    by (cases "f n w") auto
qed

lemma runs_ok: "machine_ok descs m \<Longrightarrow> Inv w \<Longrightarrow> outcome_ok (run_times descs ts m w)"
proof (induction ts arbitrary: m w)
  case Nil
  then show ?case by (simp add: outcome_ok_def)
next
  case (Cons t ts)
  obtain a b where t: "t = (a, b)" by (cases t)
  note step = step_ok [OF Cons.prems, of a b]
  show ?case
  proof (cases "RunStateMachine descs a b m w")
    case None
    then show ?thesis using step t by simp
  next
    case (Some r)
    then show ?thesis using step Cons.IH t by (cases r) (simp add: outcome_ok_def)
  qed
qed

end

section \<open>Polling for messages\<close>

abbreviation (input) IPI_POLL_INITIALIZATION :: int where "IPI_POLL_INITIALIZATION \<equiv> 0"
abbreviation (input) IPI_POLL_MONITORING :: int where "IPI_POLL_MONITORING \<equiv> 1"
abbreviation (input) IPI_POLL_NUM_STATES :: nat where "IPI_POLL_NUM_STATES \<equiv> 2"

record Poll_World = Bus_World +
  ip_hartBitmask :: u32

text \<open>The entries of \<open>ipiRegistry\<close> that the service asks for.\<close>

definition poll_registry :: "unit ipi_registry" where
  "poll_registry = map (\<lambda>t. (t, if t = IPI_MSG_ACK_COMPLETE \<or> t = IPI_MSG_ACK_PENDING
     then Some IPI_ACK_IPIHandler else None)) ipi_messages"

definition ipiPoll_init_handler :: "Poll_World hook" where
  "ipiPoll_init_handler m w =
     Some (if HSS_Trigger_IsNotified True EVENT_STARTUP_COMPLETE (bw_triggers w)
           then (m\<lparr>state := IPI_POLL_MONITORING\<rparr>, w\<lparr>ip_hartBitmask := mHSS_BITMASK_ALL_U54\<rparr>)
           else (m, w))"

text \<open>The loop over the harts; what \<open>IPI_ConsumeIntent\<close> returns is not looked at.\<close>

fun gobble_acks :: "hart_id list \<Rightarrow> IPI_Data \<Rightarrow> IPI_Data option" where
  "gobble_acks [] d = Some d"
| "gobble_acks (i # is) d =
     (if i = HSS_HART_E51 then gobble_acks is d
      else if IPI_GetQueuePendingCount (IPI_CalculateQueueIndex i HSS_HART_E51) d \<noteq> 0 then do {
        (r, d, x) \<leftarrow> IPI_ConsumeIntent poll_registry HSS_HART_E51 i IPI_MSG_ACK_COMPLETE (d, ());
        (r, d, x) \<leftarrow> IPI_ConsumeIntent poll_registry HSS_HART_E51 i IPI_MSG_ACK_PENDING (d, ());
        gobble_acks is d }
      else gobble_acks is d)"

definition ipiPoll_monitoring_handler :: "Poll_World hook" where
  "ipiPoll_monitoring_handler m w = do {
     let (status, d) = IPI_PollReceive HSS_HART_E51 (ip_hartBitmask w) (bw_ipi w);
     d \<leftarrow> (if status then gobble_acks [0..<MAX_NUM_HARTS] d else Some d);
     Some (m, w\<lparr>bw_ipi := d\<rparr>) }"

definition ipiPoll_state_descs :: "Poll_World StateDesc list" where
  "ipiPoll_state_descs =
     [\<lparr>sd_state = IPI_POLL_INITIALIZATION, state_onEntry = None, state_onExit = None, state_handler = Some ipiPoll_init_handler\<rparr>,
      \<lparr>sd_state = IPI_POLL_MONITORING, state_onEntry = None, state_onExit = None, state_handler = Some ipiPoll_monitoring_handler\<rparr>]"

definition ipi_poll_service :: StateMachine where
  "ipi_poll_service = machine_init IPI_POLL_NUM_STATES"

text \<open>Enabling a hart also starts the polling.\<close>

definition HSS_IpiPoll_Enable :: "hart_id \<Rightarrow> StateMachine \<Rightarrow> Poll_World \<Rightarrow> (StateMachine \<times> Poll_World) option" where
  "HSS_IpiPoll_Enable target m w = do {
     mask \<leftarrow> (if is_u54 target then Some (set_bit target (ip_hartBitmask w))
              else if target = HSS_HART_ALL then Some (ip_hartBitmask w OR mHSS_BITMASK_ALL_U54)
              else None);
     Some (m\<lparr>state := IPI_POLL_MONITORING\<rparr>, w\<lparr>ip_hartBitmask := mask\<rparr>) }"

section \<open>The initialisation sequence\<close>

abbreviation (input) STARTUP_INITIALIZATION :: int where "STARTUP_INITIALIZATION \<equiv> 0"
abbreviation (input) STARTUP_BOOT :: int where "STARTUP_BOOT \<equiv> 1"
abbreviation (input) STARTUP_IDLE :: int where "STARTUP_IDLE \<equiv> 2"
abbreviation (input) STARTUP_NUM_STATES :: nat where "STARTUP_NUM_STATES \<equiv> 3"

text \<open>The triggers and what else the functions initialise, and the index of the next one.\<close>

record 'x Startup_World =
  su_world :: "HSS_Triggers \<times> 'x"
  su_i :: nat

text \<open>One pass runs one function. A failed function may halt the hart or restart it
  (\<open>None\<close>); \<open>keyPressed\<close> and \<open>cli\<close> are as in \<open>RunInitFunctions\<close>.\<close>

definition startup_init_handler :: "(nat \<Rightarrow> bool) \<Rightarrow> (HSS_Triggers \<times> 'x \<Rightarrow> HSS_Triggers \<times> 'x)
    \<Rightarrow> (HSS_Triggers \<times> 'x) InitFunction list \<Rightarrow> 'x Startup_World hook" where
  "startup_init_handler keyPressed cli fs m w = do {
     require (su_i w < length fs);
     let f = fs ! su_i w;
     let (result, x) = handler f (su_world w);
     x \<leftarrow> (if result then Some x
           else if haltOnFailure f then None
           else if restartOnFailure f then (if keyPressed (su_i w) then Some (cli x) else None)
           else Some x);
     Some (if su_i w < length fs - 1 then (m, w\<lparr>su_world := x, su_i := su_i w + 1\<rparr>)
           else (m\<lparr>state := state m + 1\<rparr>,
                 w\<lparr>su_world := (HSS_Trigger_Notify EVENT_STARTUP_COMPLETE (fst x), snd x)\<rparr>)) }"

text \<open>With the command line in the configuration booting is left to it.\<close>

definition startup_boot_handler :: "'x Startup_World hook" where
  "startup_boot_handler m w = Some (m, w)"

definition startup_idle_handler :: "'x Startup_World hook" where
  "startup_idle_handler m w = Some (m, w)"

definition startup_state_descs :: "(nat \<Rightarrow> bool) \<Rightarrow> (HSS_Triggers \<times> 'x \<Rightarrow> HSS_Triggers \<times> 'x)
    \<Rightarrow> (HSS_Triggers \<times> 'x) InitFunction list \<Rightarrow> 'x Startup_World StateDesc list" where
  "startup_state_descs keyPressed cli fs =
     [\<lparr>sd_state = STARTUP_INITIALIZATION, state_onEntry = None, state_onExit = None,
        state_handler = Some (startup_init_handler keyPressed cli fs)\<rparr>,
      \<lparr>sd_state = STARTUP_BOOT, state_onEntry = None, state_onExit = None, state_handler = Some startup_boot_handler\<rparr>,
      \<lparr>sd_state = STARTUP_IDLE, state_onEntry = None, state_onExit = None, state_handler = Some startup_idle_handler\<rparr>]"

definition startup_service :: StateMachine where
  "startup_service = machine_init STARTUP_NUM_STATES"

text \<open>The table of the configuration: the functions by name, none of which halts or
  restarts the hart when it fails.\<close>

definition globalInitFunctions_names :: "string list" where
  "globalInitFunctions_names =
     [''HSS_IHCInit'', ''IPI_QueuesInit'', ''HSS_LogoInit'', ''HSS_PMP_Init'', ''HSS_BoardInit'',
      ''HSS_E51_Banner'', ''Device_Serial_Number_Init'', ''HSS_DDRPrintSegConfig'',
      ''HSS_DDRPrintL2CacheWaysConfig'', ''Design_Version_Info_Init'', ''HSS_BoardLateInit'']"

definition globalInitFunctions :: "(string \<Rightarrow> HSS_Triggers \<times> 'x \<Rightarrow> bool \<times> HSS_Triggers \<times> 'x)
    \<Rightarrow> (HSS_Triggers \<times> 'x) InitFunction list" where
  "globalInitFunctions fn = map (\<lambda>n. \<lparr>handler = fn n, haltOnFailure = False, restartOnFailure = False\<rparr>)
     globalInitFunctions_names"

section \<open>The machines of the GOTO and OpenSBI services\<close>

abbreviation (input) GOTO_IDLE :: int where "GOTO_IDLE \<equiv> 1"

definition goto_init_handler :: "unit hook" where
  "goto_init_handler m w = Some (m\<lparr>state := state m + 1\<rparr>, w)"

definition goto_idle_handler :: "unit hook" where
  "goto_idle_handler m w = Some (m, w)"

definition goto_state_descs :: "unit StateDesc list" where
  "goto_state_descs =
     [\<lparr>sd_state = 0, state_onEntry = None, state_onExit = None, state_handler = Some goto_init_handler\<rparr>,
      \<lparr>sd_state = 1, state_onEntry = None, state_onExit = None, state_handler = Some goto_idle_handler\<rparr>]"

definition goto_service :: StateMachine where
  "goto_service = machine_init 2"

text \<open>The world is the implementation id OpenSBI reports (\<open>sbi_ecall_set_impid\<close>).\<close>

definition opensbi_init_handler :: "u64 hook" where
  "opensbi_init_handler m w = Some (m\<lparr>state := state m + 1\<rparr>, 8)"

definition opensbi_idle_handler :: "u64 hook" where
  "opensbi_idle_handler m w = Some (m, w)"

definition opensbi_state_descs :: "u64 StateDesc list" where
  "opensbi_state_descs =
     [\<lparr>sd_state = 0, state_onEntry = None, state_onExit = None, state_handler = Some opensbi_init_handler\<rparr>,
      \<lparr>sd_state = 1, state_onEntry = None, state_onExit = None, state_handler = Some opensbi_idle_handler\<rparr>]"

definition opensbi_service :: StateMachine where
  "opensbi_service = machine_init 2"

section \<open>Safety\<close>

lemma poll_registry_ok: "registry_ok poll_registry"
  by (simp add: registry_ok_def poll_registry_def comp_def)

lemma poll_registry_handler:
  "t = IPI_MSG_ACK_COMPLETE \<or> t = IPI_MSG_ACK_PENDING \<Longrightarrow>
    snd (poll_registry ! msg_num t) = Some IPI_ACK_IPIHandler"
  by (elim disjE) (simp_all add: poll_registry_def msg_num_def ipi_messages_def)

text \<open>The entries are those of the code's registry.\<close>

lemma poll_registry_is_code:
  "t = IPI_MSG_ACK_COMPLETE \<or> t = IPI_MSG_ACK_PENDING \<Longrightarrow>
    snd (ipiRegistry me setup train ! msg_num t) = plain IPI_ACK_IPIHandler"
  by (elim disjE) (simp_all add: registry_nth)

definition drop_first :: "IPIMessagesEnum \<Rightarrow> IPI_Outbox_Msg list \<Rightarrow> IPI_Outbox_Msg list" where
  "drop_first t xs = (case slot_take t xs of None \<Rightarrow> xs | Some (m, q) \<Rightarrow> q)"

text \<open>What consuming an acknowledgement leaves alone.\<close>

definition polled_same :: "IPI_Data \<Rightarrow> IPI_Data \<Rightarrow> bool" where
  "polled_same d d' \<longleftrightarrow> txId_last d' = txId_last d \<and> txId_shadow d' = txId_shadow d"

lemma consume_ack:
  assumes wf: "ipi_wf d" and i: "is_u54 i" and t: "t = IPI_MSG_ACK_COMPLETE \<or> t = IPI_MSG_ACK_PENDING"
  shows "\<exists>r d'. IPI_ConsumeIntent poll_registry 0 i t (d, ()) = Some (r, d', ()) \<and> ipi_wf d' \<and>
    slots_of i 0 d' = drop_first t (slots_of i 0 d) \<and>
    (\<forall>q. q \<noteq> IPI_CalculateQueueIndex i 0 \<longrightarrow> ipi_queues d' ! q = ipi_queues d ! q) \<and>
    polled_same d d'"
proof -
  have h: "distinct_harts i 0" "distinct_harts 0 i" using i by (auto simp: is_u54_def distinct_harts_def)
  let ?j = "IPI_CalculateQueueIndex i 0"
  have j: "?j < length (ipi_queues d)" using wf h(1) by (simp add: distinct_harts_def queue_index_less ipi_wfD)
  note hd = poll_registry_handler [OF t]
  show ?thesis
  proof (cases "slot_take t (slots_of i 0 d)")
    case None
    then have "IPI_ConsumeIntent poll_registry 0 i t (d, ()) = Some (False, d, ())"
      by (rule consume_nothing [OF wf h(1) poll_registry_ok hd])
    then show ?thesis using None wf by (auto simp: drop_first_def polled_same_def)
  next
    case (Some mq)
    then obtain k where k: "find_index (\<lambda>m. msg_type m = t) (slots_of i 0 d) = Some k"
      "mq = (slots_of i 0 d ! k, (slots_of i 0 d)[k := (slots_of i 0 d ! k)\<lparr>msg_type := IPI_MSG_NO_MESSAGE\<rparr>])"
      by (auto simp: slot_take_def)
    note K = find_index_SomeD [OF k(1)]
    let ?p = "pre_consume i 0 d" and ?tx = "transaction_id (slots_of i 0 d ! k)"
    let ?e = "snd (IPI_MessageUpdateStatus ?tx IPI_IDLE ?p)"
    have same: "slots_of a b ?e = slots_of a b d" if "distinct_harts a b" for a b
      using that wf by (simp add: distinct_harts_def queue_index_less ipi_wfD)
    have wfe: "ipi_wf ?e" using wf h by (intro IPI_MessageUpdateStatus_wf) simp
    have pm: "slots_of i 0 ?p ! k = slots_of i 0 d ! k" using same [OF h(1)] by simp
    have run: "IPI_ConsumeIntent poll_registry 0 i t (d, ()) = Some (True, clear_slot ?j k ?e, ())"
      unfolding IPI_ConsumeIntent_def
      using j registry_okD [OF poll_registry_ok, of t] hd k(1) K same [OF h(1)] pm t
      by (auto simp: Let_def ack_handler_run send_ack_def simp flip: pre_consume_def)
    have ls: "txId_last ?e = txId_last d" "txId_shadow ?e = txId_shadow d"
      by (simp_all add: IPI_MessageUpdateStatus_def pre_consume_def split: option.split)
    have other: "ipi_queues (clear_slot ?j k ?e) ! q = ipi_queues d ! q" if "q \<noteq> ?j" for q
      using that by (simp add: clear_slot_def pre_consume_def dec_count_def Let_def)
    show ?thesis
      unfolding run
      using clear_slot_slots(1,3) [OF wfe h(1), where k = k] same [OF h(1)] Some k(2) ls other
      by (auto simp: drop_first_def polled_same_def clear_slot_def)
  qed
qed

lemma gobble_run:
  assumes "ipi_wf d" "\<forall>i \<in> set is. i < 5" "distinct is"
  shows "\<exists>d'. gobble_acks is d = Some d' \<and> ipi_wf d' \<and> polled_same d d' \<and>
    (\<forall>i \<in> set is. i \<noteq> 0 \<longrightarrow> slots_of i 0 d' =
       (if IPI_GetQueuePendingCount (IPI_CalculateQueueIndex i 0) d \<noteq> 0
        then drop_first IPI_MSG_ACK_PENDING (drop_first IPI_MSG_ACK_COMPLETE (slots_of i 0 d)) else slots_of i 0 d)) \<and>
    (\<forall>q. q \<notin> (\<lambda>i. IPI_CalculateQueueIndex i 0) ` (set is - {0}) \<longrightarrow> ipi_queues d' ! q = ipi_queues d ! q)"
  using assms
proof (induction "is" arbitrary: d)
  case Nil
  then show ?case by (simp add: polled_same_def)
next
  case (Cons i "is")
  have tail: "\<forall>i \<in> set is. i < 5" "distinct is" using Cons.prems by simp_all
  show ?case
  proof (cases "i = 0 \<or> IPI_GetQueuePendingCount (IPI_CalculateQueueIndex i 0) d = 0")
    case True
    then have e: "gobble_acks (i # is) d = gobble_acks is d" by auto
    obtain d' where d': "gobble_acks is d = Some d'" "ipi_wf d'" "polled_same d d'"
      "\<forall>i \<in> set is. i \<noteq> 0 \<longrightarrow> slots_of i 0 d' =
       (if IPI_GetQueuePendingCount (IPI_CalculateQueueIndex i 0) d \<noteq> 0
        then drop_first IPI_MSG_ACK_PENDING (drop_first IPI_MSG_ACK_COMPLETE (slots_of i 0 d)) else slots_of i 0 d)"
      "\<forall>q. q \<notin> (\<lambda>i. IPI_CalculateQueueIndex i 0) ` (set is - {0}) \<longrightarrow> ipi_queues d' ! q = ipi_queues d ! q"
      using Cons.IH [OF Cons.prems(1) tail] by blast
    have own: "i \<noteq> 0 \<Longrightarrow> ipi_queues d' ! IPI_CalculateQueueIndex i 0 = ipi_queues d ! IPI_CalculateQueueIndex i 0"
      using d'(5) Cons.prems queue_index_inj [of i 0 _ 0] by fastforce
    show ?thesis
      unfolding e
    proof (intro exI [of _ d'] conjI d'(1-3))
      show "\<forall>j \<in> set (i # is). j \<noteq> 0 \<longrightarrow> slots_of j 0 d' =
        (if IPI_GetQueuePendingCount (IPI_CalculateQueueIndex j 0) d \<noteq> 0
         then drop_first IPI_MSG_ACK_PENDING (drop_first IPI_MSG_ACK_COMPLETE (slots_of j 0 d)) else slots_of j 0 d)"
        using d'(4) own True by auto
      show "\<forall>q. q \<notin> (\<lambda>i. IPI_CalculateQueueIndex i 0) ` (set (i # is) - {0}) \<longrightarrow> ipi_queues d' ! q = ipi_queues d ! q"
        using d'(5) by auto
    qed
  next
    case False
    have u: "is_u54 i" using False Cons.prems(2) by (auto simp: is_u54_def)
    let ?j = "IPI_CalculateQueueIndex i 0"
    obtain r1 d1 where 1: "IPI_ConsumeIntent poll_registry 0 i IPI_MSG_ACK_COMPLETE (d, ()) = Some (r1, d1, ())"
      "ipi_wf d1" "slots_of i 0 d1 = drop_first IPI_MSG_ACK_COMPLETE (slots_of i 0 d)"
      "\<forall>q. q \<noteq> ?j \<longrightarrow> ipi_queues d1 ! q = ipi_queues d ! q" "polled_same d d1"
      using consume_ack [OF Cons.prems(1) u disjI1 [OF refl]] by (elim exE conjE) (rule that)
    obtain r2 d2 where 2: "IPI_ConsumeIntent poll_registry 0 i IPI_MSG_ACK_PENDING (d1, ()) = Some (r2, d2, ())"
      "ipi_wf d2" "slots_of i 0 d2 = drop_first IPI_MSG_ACK_PENDING (slots_of i 0 d1)"
      "\<forall>q. q \<noteq> ?j \<longrightarrow> ipi_queues d2 ! q = ipi_queues d1 ! q" "polled_same d1 d2"
      using consume_ack [OF 1(2) u disjI2 [OF refl]] by (elim exE conjE) (rule that)
    have e: "gobble_acks (i # is) d = gobble_acks is d2" using False 1(1) 2(1) by simp
    obtain d' where d': "gobble_acks is d2 = Some d'" "ipi_wf d'" "polled_same d2 d'"
      "\<forall>i \<in> set is. i \<noteq> 0 \<longrightarrow> slots_of i 0 d' =
       (if IPI_GetQueuePendingCount (IPI_CalculateQueueIndex i 0) d2 \<noteq> 0
        then drop_first IPI_MSG_ACK_PENDING (drop_first IPI_MSG_ACK_COMPLETE (slots_of i 0 d2)) else slots_of i 0 d2)"
      "\<forall>q. q \<notin> (\<lambda>i. IPI_CalculateQueueIndex i 0) ` (set is - {0}) \<longrightarrow> ipi_queues d' ! q = ipi_queues d2 ! q"
      using Cons.IH [OF 2(2) tail] by blast
    have ne: "IPI_CalculateQueueIndex k 0 \<noteq> ?j" if "k \<in> set is" "k \<noteq> 0" for k
      using that False Cons.prems(2,3) queue_index_inj [of k 0 i 0] by auto
    have "?j \<notin> (\<lambda>i. IPI_CalculateQueueIndex i 0) ` (set is - {0})"
    proof
      assume "?j \<in> (\<lambda>i. IPI_CalculateQueueIndex i 0) ` (set is - {0})"
      then obtain k where "k \<in> set is" "k \<noteq> 0" "?j = IPI_CalculateQueueIndex k 0" by auto
      then show False using ne [of k] by simp
    qed
    then have own: "ipi_queues d' ! ?j = ipi_queues d2 ! ?j" using d'(5) by simp
    have keep: "ipi_queues d2 ! q = ipi_queues d ! q" if "q \<noteq> ?j" for q using 1(4) 2(4) that by simp
    show ?thesis
      unfolding e
    proof (intro exI [of _ d'] conjI d'(1,2))
      show "polled_same d d'" using 1(5) 2(5) d'(3) by (simp add: polled_same_def)
      show "\<forall>k \<in> set (i # is). k \<noteq> 0 \<longrightarrow> slots_of k 0 d' =
        (if IPI_GetQueuePendingCount (IPI_CalculateQueueIndex k 0) d \<noteq> 0
         then drop_first IPI_MSG_ACK_PENDING (drop_first IPI_MSG_ACK_COMPLETE (slots_of k 0 d)) else slots_of k 0 d)"
        using d'(4) own False 1(3) 2(3) keep [OF ne] by (auto simp: IPI_GetQueuePendingCount_def)
      show "\<forall>q. q \<notin> (\<lambda>i. IPI_CalculateQueueIndex i 0) ` (set (i # is) - {0}) \<longrightarrow> ipi_queues d' ! q = ipi_queues d ! q"
      proof (intro allI impI)
        fix q assume q: "q \<notin> (\<lambda>i. IPI_CalculateQueueIndex i 0) ` (set (i # is) - {0})"
        then have "q \<noteq> ?j" "q \<notin> (\<lambda>i. IPI_CalculateQueueIndex i 0) ` (set is - {0})" using False by auto
        then show "ipi_queues d' ! q = ipi_queues d ! q" using d'(5) keep by simp
      qed
    qed
  qed
qed

text \<open>A second poll after a first one without a send in between finds nothing.\<close>

lemma poll_loop_nothing:
  assumes "\<forall>i \<in> set is. i \<noteq> me \<and> bit mk i \<longrightarrow>
      txId_shadow d ! IPI_CalculateQueueIndex i me = txId_last d ! IPI_CalculateQueueIndex i me"
  shows "poll_loop me mk is r d = (r, d)"
  using assms by (induction "is") (auto simp: poll_queue_def)

lemma poll_again:
  assumes "ipi_wf d" "polled_same (snd (IPI_PollReceive 0 mk d)) d'"
  shows "IPI_PollReceive 0 mk d' = (False, d')"
  unfolding IPI_PollReceive_def
proof (rule poll_loop_nothing, intro ballI impI)
  fix i assume "i \<in> set [0..<5]" "i \<noteq> 0 \<and> bit mk i"
  then have i: "i < 5" "i \<noteq> 0" "bit mk i" by auto
  show "txId_shadow d' ! IPI_CalculateQueueIndex i 0 = txId_last d' ! IPI_CalculateQueueIndex i 0"
    using poll_result(3) [OF _ assms(1) i] poll_result(2) [OF _ assms(1), of 0 mk] assms(2)
    by (simp add: polled_same_def)
qed

lemma monitoring_run:
  assumes "ipi_wf (bw_ipi w)"
  shows "\<exists>d'. ipiPoll_monitoring_handler m w = Some (m, w\<lparr>bw_ipi := d'\<rparr>) \<and> ipi_wf d' \<and>
    polled_same (snd (IPI_PollReceive 0 (ip_hartBitmask w) (bw_ipi w))) d' \<and>
    (\<forall>i. is_u54 i \<longrightarrow> slots_of i 0 d' =
       (if fst (IPI_PollReceive 0 (ip_hartBitmask w) (bw_ipi w)) \<and>
           IPI_GetQueuePendingCount (IPI_CalculateQueueIndex i 0) (snd (IPI_PollReceive 0 (ip_hartBitmask w) (bw_ipi w))) \<noteq> 0
        then drop_first IPI_MSG_ACK_PENDING (drop_first IPI_MSG_ACK_COMPLETE
          (slots_of i 0 (snd (IPI_PollReceive 0 (ip_hartBitmask w) (bw_ipi w)))))
        else slots_of i 0 (snd (IPI_PollReceive 0 (ip_hartBitmask w) (bw_ipi w)))))"
proof -
  have harts: "\<forall>i \<in> set [0..<5]. i < 5" "distinct [0..<5 :: nat]" by simp_all
  obtain st d where p: "IPI_PollReceive 0 (ip_hartBitmask w) (bw_ipi w) = (st, d)" by (cases "IPI_PollReceive 0 (ip_hartBitmask w) (bw_ipi w)")
  have wf: "ipi_wf d" using IPI_PollReceive_wf [OF assms, of 0 "ip_hartBitmask w"] p by simp
  show ?thesis
  proof (cases st)
    case False
    then show ?thesis using p wf
      by (intro exI [of _ d]) (simp add: ipiPoll_monitoring_handler_def polled_same_def)
  next
    case True
    obtain d' where d': "gobble_acks [0..<5] d = Some d'" "ipi_wf d'" "polled_same d d'"
      "\<forall>i \<in> set [0..<5]. i \<noteq> 0 \<longrightarrow> slots_of i 0 d' =
       (if IPI_GetQueuePendingCount (IPI_CalculateQueueIndex i 0) d \<noteq> 0
        then drop_first IPI_MSG_ACK_PENDING (drop_first IPI_MSG_ACK_COMPLETE (slots_of i 0 d)) else slots_of i 0 d)"
      using gobble_run [OF wf harts] by (elim exE conjE) (rule that)
    have "\<forall>i. is_u54 i \<longrightarrow> i \<in> set [0..<5] \<and> i \<noteq> 0" by (auto simp: is_u54_def)
    then show ?thesis
      using p True d' by (intro exI [of _ d']) (simp add: ipiPoll_monitoring_handler_def del: upt.simps)
  qed
qed

lemma length_poll_descs [simp]: "length ipiPoll_state_descs = 2"
  by (simp add: ipiPoll_state_descs_def)

interpretation poll: plain_service ipiPoll_state_descs bus_world_ok False
proof unfold_locales
  fix i assume "i < length ipiPoll_state_descs"
  then have "i = 0 \<or> i = 1" by auto
  then show "\<exists>f. ipiPoll_state_descs ! i =
      \<lparr>sd_state = int i, state_onEntry = None, state_onExit = None, state_handler = Some f\<rparr>"
    by (elim disjE) (simp_all add: ipiPoll_state_descs_def)
next
  fix i f and w :: Poll_World and m :: StateMachine
  assume i: "i < length ipiPoll_state_descs" "state_handler (ipiPoll_state_descs ! i) = Some f"
    and m: "state m = int i" "numStates m \<le> length ipiPoll_state_descs" and w: "bus_world_ok w"
  have "f = ipiPoll_init_handler \<or> f = ipiPoll_monitoring_handler"
    using i by (auto simp: ipiPoll_state_descs_def less_Suc_eq numeral_2_eq_2)
  then show "case f m w of None \<Rightarrow> False | Some (m', w') \<Rightarrow> machine_ok ipiPoll_state_descs m' \<and> bus_world_ok w'"
  proof
    assume "f = ipiPoll_init_handler"
    then show ?thesis using i(1) m w by (auto simp: ipiPoll_init_handler_def machine_ok_def bus_world_ok_def)
  next
    assume f: "f = ipiPoll_monitoring_handler"
    obtain d' where "ipiPoll_monitoring_handler m w = Some (m, w\<lparr>bw_ipi := d'\<rparr>)" "ipi_wf d'"
      using monitoring_run [of w m] w unfolding bus_world_ok_def by blast
    then show ?thesis using f i(1) m by (simp add: machine_ok_def bus_world_ok_def)
  qed
qed

lemma length_startup_descs [simp]: "length (startup_state_descs kp cli fs) = 3"
  by (simp add: startup_state_descs_def)

interpretation startup: plain_service "startup_state_descs kp cli fs" "\<lambda>w. su_i w < length fs" True
proof unfold_locales
  fix i assume "i < length (startup_state_descs kp cli fs)"
  then have "i = 0 \<or> i = 1 \<or> i = 2" by auto
  then show "\<exists>f. startup_state_descs kp cli fs ! i =
      \<lparr>sd_state = int i, state_onEntry = None, state_onExit = None, state_handler = Some f\<rparr>"
    by (elim disjE) (simp_all add: startup_state_descs_def)
next
  fix i f and w :: "'a Startup_World" and m :: StateMachine
  assume i: "i < length (startup_state_descs kp cli fs)" "state_handler (startup_state_descs kp cli fs ! i) = Some f"
    and m: "state m = int i" "numStates m \<le> length (startup_state_descs kp cli fs)" and w: "su_i w < length fs"
  have "i = 0 \<or> i = 1 \<or> i = 2" using i(1) by auto
  then show "case f m w of None \<Rightarrow> True | Some (m', w') \<Rightarrow> machine_ok (startup_state_descs kp cli fs) m' \<and> su_i w' < length fs"
    using i(2) m w
    by (elim disjE) (auto simp: startup_state_descs_def startup_init_handler_def startup_boot_handler_def
        startup_idle_handler_def machine_ok_def bind_eq_Some_conv Let_def split: option.splits prod.splits if_splits)
qed

interpretation goto_sm: plain_service goto_state_descs "\<lambda>_. True" False
proof unfold_locales
  fix i assume "i < length goto_state_descs"
  then have "i = 0 \<or> i = 1" by (auto simp: goto_state_descs_def)
  then show "\<exists>f. goto_state_descs ! i =
      \<lparr>sd_state = int i, state_onEntry = None, state_onExit = None, state_handler = Some f\<rparr>"
    by (elim disjE) (simp_all add: goto_state_descs_def)
next
  fix i f and w :: unit and m :: StateMachine
  assume i: "i < length goto_state_descs" "state_handler (goto_state_descs ! i) = Some f"
    and m: "state m = int i" "numStates m \<le> length goto_state_descs"
  have "i = 0 \<or> i = 1" using i(1) by (auto simp: goto_state_descs_def)
  then show "case f m w of None \<Rightarrow> False | Some (m', w') \<Rightarrow> machine_ok goto_state_descs m' \<and> True"
    using i(2) m
    by (elim disjE) (auto simp: goto_state_descs_def goto_init_handler_def goto_idle_handler_def machine_ok_def)
qed

interpretation opensbi_sm: plain_service opensbi_state_descs "\<lambda>_. True" False
proof unfold_locales
  fix i assume "i < length opensbi_state_descs"
  then have "i = 0 \<or> i = 1" by (auto simp: opensbi_state_descs_def)
  then show "\<exists>f. opensbi_state_descs ! i =
      \<lparr>sd_state = int i, state_onEntry = None, state_onExit = None, state_handler = Some f\<rparr>"
    by (elim disjE) (simp_all add: opensbi_state_descs_def)
next
  fix i f and w :: u64 and m :: StateMachine
  assume i: "i < length opensbi_state_descs" "state_handler (opensbi_state_descs ! i) = Some f"
    and m: "state m = int i" "numStates m \<le> length opensbi_state_descs"
  have "i = 0 \<or> i = 1" using i(1) by (auto simp: opensbi_state_descs_def)
  then show "case f m w of None \<Rightarrow> False | Some (m', w') \<Rightarrow> machine_ok opensbi_state_descs m' \<and> True"
    using i(2) m
    by (elim disjE) (auto simp: opensbi_state_descs_def opensbi_init_handler_def opensbi_idle_handler_def machine_ok_def)
qed

section \<open>The initialisation, pass by pass\<close>

text \<open>One pass in the first state.\<close>

lemma startup_pass:
  assumes "machine_ok (startup_state_descs kp cli fs) m" "state m = 0"
  shows "RunStateMachine (startup_state_descs kp cli fs) t0 t1 m w =
    map_option (\<lambda>(m', w'). (stamp_end t0 t1 m', w'))
      (startup_init_handler kp cli fs (if prevState m = 0 then stamp_begin t0 m
          else (stamp_begin t0 m)\<lparr>executionCount := 0, prevState := 0\<rparr>) w)"
proof -
  have "startup.handler_of kp cli fs 0 = startup_init_handler kp cli fs"
    unfolding startup.handler_of_def by (simp add: startup_state_descs_def)
  then show ?thesis using startup.step_is_handler [OF assms(1)] assms(2) by simp
qed

lemma startup_passes:
  assumes "machine_ok (startup_state_descs kp cli fs) m" "state m = 0" "i < length fs" "length ts = length fs - i"
  shows "case RunInitFunctions kp cli i (drop i fs) x of
      InitDone x' \<Rightarrow> \<exists>m'. run_times (startup_state_descs kp cli fs) ts m \<lparr>su_world = x, su_i = i\<rparr> =
         Some (m', \<lparr>su_world = (HSS_Trigger_Notify EVENT_STARTUP_COMPLETE (fst x'), snd x'), su_i = length fs - 1\<rparr>) \<and>
         state m' = STARTUP_BOOT
    | _ \<Rightarrow> run_times (startup_state_descs kp cli fs) ts m \<lparr>su_world = x, su_i = i\<rparr> = None"
  using assms
proof (induction "length fs - i" arbitrary: i m x ts)
  case 0
  then show ?case by simp
next
  case (Suc k)
  let ?D = "startup_state_descs kp cli fs" and ?f = "fs ! i"
  let ?m = "\<lambda>t0. if prevState m = 0 then stamp_begin t0 m else (stamp_begin t0 m)\<lparr>executionCount := 0, prevState := 0\<rparr>"
  obtain t0 t1 us where ts: "ts = (t0, t1) # us" "length us = length fs - Suc i"
    using Suc.prems(3,4) by (cases ts) auto
  obtain r y where h: "handler ?f x = (r, y)" by (cases "handler ?f x")
  have dr: "drop i fs = ?f # drop (Suc i) fs" using Suc.prems(3) by (simp add: Cons_nth_drop_Suc)
  have go: ?case
    if z: "startup_init_handler kp cli fs (?m t0) \<lparr>su_world = x, su_i = i\<rparr> =
        Some (if i < length fs - 1 then (?m t0, \<lparr>su_world = z, su_i = i + 1\<rparr>)
          else ((?m t0)\<lparr>state := state (?m t0) + 1\<rparr>,
            \<lparr>su_world = (HSS_Trigger_Notify EVENT_STARTUP_COMPLETE (fst z), snd z), su_i = i\<rparr>))"
      and init: "RunInitFunctions kp cli i (drop i fs) x = RunInitFunctions kp cli (Suc i) (drop (Suc i) fs) z" for z
  proof (cases "i < length fs - 1")
    case True
    have ok: "machine_ok ?D (stamp_end t0 t1 (?m t0))" using Suc.prems(1) by simp
    have e: "run_times ?D ts m \<lparr>su_world = x, su_i = i\<rparr> =
        run_times ?D us (stamp_end t0 t1 (?m t0)) \<lparr>su_world = z, su_i = Suc i\<rparr>"
      using startup_pass [OF Suc.prems(1,2)] z True by (simp add: ts)
    show ?thesis
      unfolding init e
      by (rule Suc.hyps(1) [OF _ ok _ _ ts(2)]) (use Suc.hyps(2) Suc.prems(2) True in simp_all)
  next
    case False
    then have last: "i = length fs - 1" "us = []" using Suc.prems(3) ts(2) by auto
    then have "drop (Suc i) fs = []" using Suc.prems(3) by simp
    then show ?thesis
      unfolding init using startup_pass [OF Suc.prems(1,2)] z False last Suc.prems(2) by (simp add: ts)
  qed
  show ?case
  proof (cases "r \<or> (\<not> haltOnFailure ?f \<and> (restartOnFailure ?f \<longrightarrow> kp i))")
    case True
    define z where "z = (if \<not> r \<and> restartOnFailure ?f then cli y else y)"
    show ?thesis
      by (rule go [of z]) (use True h Suc.prems(3) in
        \<open>auto simp: startup_init_handler_def dr Let_def require_def z_def\<close>)
  next
    case False
    then have "startup_init_handler kp cli fs (?m t0) \<lparr>su_world = x, su_i = i\<rparr> = None"
      using h Suc.prems(3) by (auto simp: startup_init_handler_def Let_def require_def)
    moreover have "\<forall>x'. RunInitFunctions kp cli i (drop i fs) x \<noteq> InitDone x'"
      using False h by (auto simp: dr Let_def)
    ultimately show ?thesis
      using startup_pass [OF Suc.prems(1,2)] by (simp add: ts split: InitOutcome.split)
  qed
qed

section \<open>Properties\<close>

text \<open>
  C21. The start-up service, which runs one initialisation function per pass of the superloop, is
  \<open>RunInitFunctions\<close>: after as many passes as there are functions each has run exactly
  once and in order, with the same effect, \<open>EVENT_STARTUP_COMPLETE\<close> is notified and the
  machine is in \<open>STARTUP_BOOT\<close>; and the service stops for good exactly when
  \<open>RunInitFunctions\<close> would halt or restart the hart.
\<close>

theorem startup_equals_run_init:
  assumes "fs \<noteq> []" and "length ts = length fs"
  shows "case RunInitFunctions kp cli 0 fs x of
      InitDone x' \<Rightarrow> \<exists>m'. run_times (startup_state_descs kp cli fs) ts startup_service \<lparr>su_world = x, su_i = 0\<rparr> =
         Some (m', \<lparr>su_world = (HSS_Trigger_Notify EVENT_STARTUP_COMPLETE (fst x'), snd x'), su_i = length fs - 1\<rparr>) \<and>
         state m' = STARTUP_BOOT
    | _ \<Rightarrow> run_times (startup_state_descs kp cli fs) ts startup_service \<lparr>su_world = x, su_i = 0\<rparr> = None"
proof -
  have "machine_ok (startup_state_descs kp cli fs) startup_service"
    unfolding startup_service_def by (rule machine_ok_init) simp_all
  moreover have "state startup_service = 0" by (simp add: startup_service_def machine_init_def)
  ultimately show ?thesis using startup_passes [of kp cli fs startup_service 0 ts x] assms by simp
qed

theorem startup_equals_run_init_witness:
  "\<exists>m'. run_times (startup_state_descs (\<lambda>_. False) id (globalInitFunctions (\<lambda>n (t, log). (n \<noteq> ''HSS_IHCInit'', t, log @ [n]))))
      (replicate 11 (0, 0)) startup_service \<lparr>su_world = (triggerStatus_init, []), su_i = 0\<rparr> =
    Some (m', \<lparr>su_world = (HSS_Trigger_Notify EVENT_STARTUP_COMPLETE triggerStatus_init, globalInitFunctions_names), su_i = 10\<rparr>)"
proof -
  let ?fs = "globalInitFunctions (\<lambda>n (t, log). (n \<noteq> ''HSS_IHCInit'', t, log @ [n]))"
  have run: "RunInitFunctions (\<lambda>_. False) id 0 ?fs (triggerStatus_init, []) =
      InitDone (triggerStatus_init, globalInitFunctions_names)"
    by (simp add: globalInitFunctions_def globalInitFunctions_names_def)
  have l: "length ?fs = 11" "?fs \<noteq> []" by (simp_all add: globalInitFunctions_def globalInitFunctions_names_def)
  show ?thesis
    using startup_equals_run_init [OF l(2), of "replicate 11 (0, 0)" "\<lambda>_. False" id "(triggerStatus_init, [])"]
    by (auto simp: run l(1) simp del: replicate.simps)
qed

text \<open>
  C35. What polling does: a pass of the monitoring state returns whatever the queues hold, and takes
  at most one completed and one pending acknowledgement from each hart, exactly when there is
  news from some hart and messages are counted for this one; and it works only on news, so that
  further passes without a message in between change nothing: a second acknowledgement of the
  same kind stays in its queue until another message arrives.
\<close>

theorem polling_takes_one_ack:
  assumes "ipi_wf (bw_ipi w)"
  shows "\<exists>d'. ipiPoll_monitoring_handler m w = Some (m, w\<lparr>bw_ipi := d'\<rparr>) \<and> ipi_wf d' \<and>
    (\<forall>i. is_u54 i \<longrightarrow> slots_of i 0 d' =
       (let (news, d) = IPI_PollReceive 0 (ip_hartBitmask w) (bw_ipi w) in
        if news \<and> IPI_GetQueuePendingCount (IPI_CalculateQueueIndex i 0) d \<noteq> 0
        then drop_first IPI_MSG_ACK_PENDING (drop_first IPI_MSG_ACK_COMPLETE (slots_of i 0 d))
        else slots_of i 0 d)) \<and>
    ipiPoll_monitoring_handler m (w\<lparr>bw_ipi := d'\<rparr>) = Some (m, w\<lparr>bw_ipi := d'\<rparr>)"
proof -
  obtain d' where d': "ipiPoll_monitoring_handler m w = Some (m, w\<lparr>bw_ipi := d'\<rparr>)" "ipi_wf d'"
    "polled_same (snd (IPI_PollReceive 0 (ip_hartBitmask w) (bw_ipi w))) d'"
    "\<forall>i. is_u54 i \<longrightarrow> slots_of i 0 d' =
       (if fst (IPI_PollReceive 0 (ip_hartBitmask w) (bw_ipi w)) \<and>
           IPI_GetQueuePendingCount (IPI_CalculateQueueIndex i 0) (snd (IPI_PollReceive 0 (ip_hartBitmask w) (bw_ipi w))) \<noteq> 0
        then drop_first IPI_MSG_ACK_PENDING (drop_first IPI_MSG_ACK_COMPLETE
          (slots_of i 0 (snd (IPI_PollReceive 0 (ip_hartBitmask w) (bw_ipi w)))))
        else slots_of i 0 (snd (IPI_PollReceive 0 (ip_hartBitmask w) (bw_ipi w))))"
    using monitoring_run [OF assms, of m] by (elim exE conjE) (rule that)
  have "IPI_PollReceive 0 (ip_hartBitmask w) d' = (False, d')" by (rule poll_again [OF assms d'(3)])
  then have "ipiPoll_monitoring_handler m (w\<lparr>bw_ipi := d'\<rparr>) = Some (m, w\<lparr>bw_ipi := d'\<rparr>)"
    by (simp add: ipiPoll_monitoring_handler_def)
  then show ?thesis using d'(1,2,4) by (intro exI [of _ d']) (simp add: case_prod_beta)
qed

definition two_acks :: "IPI_Outbox_Msg list" where
  "two_acks = [success_ack 7, success_ack 8, zero_Msg, zero_Msg]"

definition two_acks_pending :: Poll_World where
  "two_acks_pending = \<lparr>bw_ipi = bus_init\<lparr>ipi_queues := (ipi_queues bus_init)[4 := \<lparr>msgQ = two_acks, qcount = 0\<rparr>],
       txId_last := (replicate 20 0)[4 := 8]\<rparr>,
     bw_triggers = triggerStatus_init, bw_now = 0, ip_hartBitmask = mHSS_BITMASK_ALL_U54\<rparr>"

theorem polling_takes_one_ack_witness:
  "\<exists>d'. ipiPoll_monitoring_handler ipi_poll_service two_acks_pending = Some (ipi_poll_service, two_acks_pending\<lparr>bw_ipi := d'\<rparr>) \<and>
    slots_of 1 0 d' = [(success_ack 7)\<lparr>msg_type := IPI_MSG_NO_MESSAGE\<rparr>, success_ack 8, zero_Msg, zero_Msg] \<and>
    ipiPoll_monitoring_handler ipi_poll_service (two_acks_pending\<lparr>bw_ipi := d'\<rparr>) = Some (ipi_poll_service, two_acks_pending\<lparr>bw_ipi := d'\<rparr>)"
proof -
  let ?q = "\<lparr>msgQ = two_acks, qcount = 0\<rparr>" and ?d = "bw_ipi two_acks_pending"
  have q: "length (ipi_queues bus_init) = 20" "txId_shadow bus_init = replicate 20 0"
    by (simp_all add: bus_init_def IPI_QueuesInit_def del: replicate.simps)
  have wf: "ipi_wf ?d"
    using set_queue_wf [OF bus_init_wf, of ?q 4] bus_init_wf
    by (simp add: two_acks_pending_def two_acks_def ipi_wf_def)
  have u: "[0..<5] = [0, 1, 2, 3, 4::nat]" by (simp add: upt_rec)
  have poll: "IPI_PollReceive 0 0x1E ?d = (True, ?d\<lparr>txId_shadow := (replicate 20 0)[4 := 8],
      ipi_queues := (ipi_queues ?d)[4 := ?q\<lparr>qcount := 2\<rparr>]\<rparr>)"
    unfolding IPI_PollReceive_def u
    by (simp add: bit_numeral_rec poll_queue_def IPI_CalculateQueueIndex_def two_acks_pending_def q two_acks_def
        success_ack_def zero_Msg_def del: replicate.simps)
  have i: "IPI_CalculateQueueIndex 1 0 = 4" "is_u54 1" by (simp_all add: IPI_CalculateQueueIndex_def is_u54_def)
  have l: "length (ipi_queues ?d) = 20" using wf by (simp add: ipi_wfD)
  have dr: "drop_first IPI_MSG_ACK_PENDING (drop_first IPI_MSG_ACK_COMPLETE two_acks) =
      [(success_ack 7)\<lparr>msg_type := IPI_MSG_NO_MESSAGE\<rparr>, success_ack 8, zero_Msg, zero_Msg]"
    by (simp add: two_acks_def drop_first_def slot_take_def success_ack_def zero_Msg_def)
  have mk: "ip_hartBitmask two_acks_pending = 0x1E" by (simp add: two_acks_pending_def)
  obtain d' where d': "ipiPoll_monitoring_handler ipi_poll_service two_acks_pending = Some (ipi_poll_service, two_acks_pending\<lparr>bw_ipi := d'\<rparr>)"
    "\<forall>i. is_u54 i \<longrightarrow> slots_of i 0 d' =
       (let (news, d) = IPI_PollReceive 0 (ip_hartBitmask two_acks_pending) ?d in
        if news \<and> IPI_GetQueuePendingCount (IPI_CalculateQueueIndex i 0) d \<noteq> 0
        then drop_first IPI_MSG_ACK_PENDING (drop_first IPI_MSG_ACK_COMPLETE (slots_of i 0 d))
        else slots_of i 0 d)"
    "ipiPoll_monitoring_handler ipi_poll_service (two_acks_pending\<lparr>bw_ipi := d'\<rparr>) = Some (ipi_poll_service, two_acks_pending\<lparr>bw_ipi := d'\<rparr>)"
    using polling_takes_one_ack [OF wf, of ipi_poll_service] by (elim exE conjE) (rule that)
  have "slots_of 1 0 d' = drop_first IPI_MSG_ACK_PENDING (drop_first IPI_MSG_ACK_COMPLETE two_acks)"
    using d'(2) [rule_format, OF i(2)] by (simp add: mk poll i(1) l IPI_GetQueuePendingCount_def del: One_nat_def)
  then show ?thesis using d'(1,3) dr by auto
qed

end
