(* ===== verification/Nand.thy ===== *)
theory Nand
  imports Memcpy
begin

text \<open>
  The driver of the Winbond W25N01GV NAND flash,
  \<open>baremetal/drivers/winbond_w25n01gv/winbond_w25n01gv.c\<close>, over the transfers of the QSPI
  peripheral. The peripheral with the chip behind it is a parameter; the locale
  \<open>w25n01gv\<close> holds what the chip's data sheet says its commands do, and is met by the
  chip \<open>w25_xfer\<close>, with which the witnesses run.
\<close>

section \<open>The driver\<close>

abbreviation (input) NUM_PAGES_PER_BLOCK :: nat where "NUM_PAGES_PER_BLOCK \<equiv> 64"
abbreviation (input) NUM_BLOCKS_PER_DIE :: nat where "NUM_BLOCKS_PER_DIE \<equiv> 1024"
abbreviation (input) PAGE_LENGTH :: nat where "PAGE_LENGTH \<equiv> 2048"
abbreviation (input) NUM_LUTS :: nat where "NUM_LUTS \<equiv> 20"
abbreviation (input) STATUS_REG_1 :: u8 where "STATUS_REG_1 \<equiv> 0xA0"
abbreviation (input) STATUS_REG_2 :: u8 where "STATUS_REG_2 \<equiv> 0xB0"
abbreviation (input) STATUS_REG_3 :: u8 where "STATUS_REG_3 \<equiv> 0xC0"
abbreviation (input) STATUS_REG_2_ECC_E :: u8 where "STATUS_REG_2_ECC_E \<equiv> 0x10"
abbreviation (input) STATUS_REG_2_BUF :: u8 where "STATUS_REG_2_BUF \<equiv> 0x08"
abbreviation (input) STATUS_REG_3_LUTF :: u8 where "STATUS_REG_3_LUTF \<equiv> 0x40"
abbreviation (input) STATUS_REG_3_ECC1 :: u8 where "STATUS_REG_3_ECC1 \<equiv> 0x20"
abbreviation (input) STATUS_REG_3_ECC0 :: u8 where "STATUS_REG_3_ECC0 \<equiv> 0x10"
abbreviation (input) STATUS_REG_3_PFAIL :: u8 where "STATUS_REG_3_PFAIL \<equiv> 0x08"
abbreviation (input) STATUS_REG_3_EFAIL :: u8 where "STATUS_REG_3_EFAIL \<equiv> 0x04"
abbreviation (input) STATUS_REG_3_WEL :: u8 where "STATUS_REG_3_WEL \<equiv> 0x02"
abbreviation (input) STATUS_REG_3_BUSY :: u8 where "STATUS_REG_3_BUSY \<equiv> 0x01"
abbreviation (input) DEVICE_RESET_OPCODE :: u8 where "DEVICE_RESET_OPCODE \<equiv> 0xFF"
abbreviation (input) READ_ID_OPCODE :: u8 where "READ_ID_OPCODE \<equiv> 0x9F"
abbreviation (input) READ_STATUS_REG_OPCODE :: u8 where "READ_STATUS_REG_OPCODE \<equiv> 0x05"
abbreviation (input) WRITE_STATUS_REG_OPCODE :: u8 where "WRITE_STATUS_REG_OPCODE \<equiv> 0x01"
abbreviation (input) WRITE_ENABLE_OPCODE :: u8 where "WRITE_ENABLE_OPCODE \<equiv> 0x06"
abbreviation (input) PAGE_DATA_READ_OPCODE :: u8 where "PAGE_DATA_READ_OPCODE \<equiv> 0x13"
abbreviation (input) FAST_READ_OPCODE :: u8 where "FAST_READ_OPCODE \<equiv> 0x0B"
abbreviation (input) FAST_READ_DUAL_OUTPUT_OPCODE :: u8 where "FAST_READ_DUAL_OUTPUT_OPCODE \<equiv> 0x3B"
abbreviation (input) FAST_READ_QUAD_IO_OPCODE :: u8 where "FAST_READ_QUAD_IO_OPCODE \<equiv> 0xEB"
abbreviation (input) BLOCK_ERASE_OPCODE :: u8 where "BLOCK_ERASE_OPCODE \<equiv> 0xD8"
abbreviation (input) LOAD_PROGRAM_DATA_OPCODE :: u8 where "LOAD_PROGRAM_DATA_OPCODE \<equiv> 0x02"
abbreviation (input) RANDOM_LOAD_PROGRAM_DATA_OPCODE :: u8 where "RANDOM_LOAD_PROGRAM_DATA_OPCODE \<equiv> 0x84"
abbreviation (input) PROGRAM_EXECUTE_OPCODE :: u8 where "PROGRAM_EXECUTE_OPCODE \<equiv> 0x10"
abbreviation (input) READ_BBM_LUT_OPCODE :: u8 where "READ_BBM_LUT_OPCODE \<equiv> 0xA5"
abbreviation (input) BAD_BLOCK_MANAGEMENT_OPCODE :: u8 where "BAD_BLOCK_MANAGEMENT_OPCODE \<equiv> 0xA1"
abbreviation (input) MSS_QSPI_CMDBYTES_LIMIT :: nat where "MSS_QSPI_CMDBYTES_LIMIT \<equiv> 508"
abbreviation (input) MAX_SPIN_COUNT :: nat where "MAX_SPIN_COUNT \<equiv> 0x01000000"

datatype mss_qspi_io_format = MSS_QSPI_NORMAL | MSS_QSPI_DUAL_EX_RO | MSS_QSPI_QUAD_EX_RO
  | MSS_QSPI_DUAL_EX_RW | MSS_QSPI_QUAD_EX_RW | MSS_QSPI_DUAL_FULL | MSS_QSPI_QUAD_FULL

text \<open>
  \<open>MSS_QSPI_polled_transfer_block\<close> with the chip behind it: the format the peripheral is
  configured for, the bytes sent (the opcode, the address and the transmitted data), the number of
  bytes to receive, the dummy cycles, and the chip.
\<close>

type_synonym 'c qspi_transfer = "mss_qspi_io_format \<Rightarrow> u8 list \<Rightarrow> nat \<Rightarrow> nat \<Rightarrow> 'c \<Rightarrow> u8 list \<times> 'c"

text \<open>\<open>g_qspi_config.io_format\<close>, what \<open>MSS_QSPI_configure\<close> last programmed, and
  the chip.\<close>

record 'c Nand =
  io_format :: mss_qspi_io_format
  hw_format :: mss_qspi_io_format
  chip :: 'c

definition transfer_block :: "'c qspi_transfer \<Rightarrow> nat \<Rightarrow> u8 list \<Rightarrow> nat \<Rightarrow> nat \<Rightarrow> nat \<Rightarrow> 'c Nand \<Rightarrow> u8 list \<times> 'c Nand" where
  "transfer_block x num_addr_bytes tx_buffer tx_byte_size rd_byte_size num_idle_cycles n =
     (let (bs, c) = x (hw_format n) (take (1 + tx_byte_size + num_addr_bytes) tx_buffer) rd_byte_size
                      num_idle_cycles (chip n)
      in (bs, n\<lparr>chip := c\<rparr>))"

definition MSS_QSPI_configure :: "'c Nand \<Rightarrow> 'c Nand" where
  "MSS_QSPI_configure n = n\<lparr>hw_format := io_format n\<rparr>"

definition read_statusreg :: "'c qspi_transfer \<Rightarrow> u8 \<Rightarrow> 'c Nand \<Rightarrow> u8 \<times> 'c Nand" where
  "read_statusreg x status_reg_address n =
     (let (bs, n) = transfer_block x 1 [READ_STATUS_REG_OPCODE, status_reg_address] 0 1 0 n in (bs ! 0, n))"

definition write_statusreg :: "'c qspi_transfer \<Rightarrow> u8 \<Rightarrow> u8 \<Rightarrow> 'c Nand \<Rightarrow> 'c Nand" where
  "write_statusreg x address v n =
     snd (transfer_block x 0 [WRITE_STATUS_REG_OPCODE, address, v] 2 0 0 n)"

text \<open>The three waiting loops: \<open>do\<close> a read of status register 3 \<open>while\<close> the
  condition holds, but no more than \<open>max_count\<close> times.\<close>

fun spin :: "'c qspi_transfer \<Rightarrow> (u8 \<Rightarrow> bool) \<Rightarrow> nat \<Rightarrow> 'c Nand \<Rightarrow> u8 \<times> 'c Nand" where
  "spin x again 0 n = (0, n)"
| "spin x again (Suc max_count) n =
     (let (status_reg, n) = read_statusreg x STATUS_REG_3 n
      in if max_count \<noteq> 0 \<and> again status_reg then spin x again max_count n else (status_reg, n))"

lemma spin_step:
  "0 < k \<Longrightarrow> spin x again k n =
     (let (status_reg, n) = read_statusreg x STATUS_REG_3 n
      in if k - 1 \<noteq> 0 \<and> again status_reg then spin x again (k - 1) n else (status_reg, n))"
  by (cases k) (auto split: prod.split)

definition wait_if_busy :: "'c qspi_transfer \<Rightarrow> 'c Nand \<Rightarrow> 'c Nand" where
  "wait_if_busy x n = snd (spin x (\<lambda>s. STATUS_REG_3_BUSY AND s \<noteq> 0) MAX_SPIN_COUNT n)"

definition wait_for_wel :: "'c qspi_transfer \<Rightarrow> 'c Nand \<Rightarrow> 'c Nand" where
  "wait_for_wel x n = snd (spin x (\<lambda>s. STATUS_REG_3_WEL AND s = 0) MAX_SPIN_COUNT n)"

definition wait_if_busy_or_wel :: "'c qspi_transfer \<Rightarrow> 'c Nand \<Rightarrow> u8 \<times> 'c Nand" where
  "wait_if_busy_or_wel x n =
     spin x (\<lambda>s. STATUS_REG_3_BUSY AND s \<noteq> 0 \<or> STATUS_REG_3_WEL AND s \<noteq> 0) MAX_SPIN_COUNT n"

definition send_write_enable_command :: "'c qspi_transfer \<Rightarrow> 'c Nand \<Rightarrow> 'c Nand" where
  "send_write_enable_command x n =
     wait_for_wel x (snd (transfer_block x 0 [WRITE_ENABLE_OPCODE] 0 0 0 n))"

definition disable_write_protect :: "'c qspi_transfer \<Rightarrow> 'c Nand \<Rightarrow> 'c Nand" where
  "disable_write_protect x = write_statusreg x STATUS_REG_1 0"

text \<open>The two low bytes of a page or column number, as they are sent.\<close>

definition hi_lo :: "nat \<Rightarrow> u8 list" where
  "hi_lo a = [of_nat (a div 256), of_nat a]"

text \<open>Opcode and dummy cycles of a read in the chosen format.\<close>

definition read_command :: "mss_qspi_io_format \<Rightarrow> u8 \<times> nat" where
  "read_command f =
     (if f \<in> {MSS_QSPI_QUAD_FULL, MSS_QSPI_QUAD_EX_RO, MSS_QSPI_QUAD_EX_RW} then (FAST_READ_QUAD_IO_OPCODE, 4)
      else if f \<in> {MSS_QSPI_DUAL_FULL, MSS_QSPI_DUAL_EX_RO, MSS_QSPI_DUAL_EX_RW} then (FAST_READ_DUAL_OUTPUT_OPCODE, 8)
      else (FAST_READ_OPCODE, 8))"

definition read_page :: "'c qspi_transfer \<Rightarrow> nat \<Rightarrow> nat \<Rightarrow> nat \<Rightarrow> 'c Nand \<Rightarrow> u8 list \<times> u8 \<times> 'c Nand" where
  "read_page x page column read_len n =
     (let n = wait_if_busy x n;
          n = snd (transfer_block x 0 (PAGE_DATA_READ_OPCODE # 0 # hi_lo page) 3 0 0 n);
          n = wait_if_busy x n;
          (opcode, num_dummy_cycles) = read_command (io_format n);
          len = (if read_len > PAGE_LENGTH then PAGE_LENGTH else read_len);
          temp = io_format n;
          n = MSS_QSPI_configure n;
          (bs, n) = transfer_block x 2 (opcode # hi_lo column @ [of_nat page]) 0 len num_dummy_cycles n;
          n = MSS_QSPI_configure (n\<lparr>io_format := MSS_QSPI_NORMAL\<rparr>);
          n = n\<lparr>io_format := temp\<rparr>;
          (result, n) = read_statusreg x STATUS_REG_3 n
      in (bs, result AND (STATUS_REG_3_ECC1 AND STATUS_REG_3_ECC0), n))"

text \<open>\<open>Flash_init\<close>, \<open>Flash_readid\<close>.\<close>

definition stored_format :: "mss_qspi_io_format \<Rightarrow> mss_qspi_io_format" where
  "stored_format f =
     (if f \<in> {MSS_QSPI_QUAD_FULL, MSS_QSPI_QUAD_EX_RO, MSS_QSPI_QUAD_EX_RW} then MSS_QSPI_QUAD_EX_RW
      else if f \<in> {MSS_QSPI_DUAL_FULL, MSS_QSPI_DUAL_EX_RO, MSS_QSPI_DUAL_EX_RW} then MSS_QSPI_DUAL_EX_RO
      else MSS_QSPI_NORMAL)"

definition Flash_init :: "'c qspi_transfer \<Rightarrow> mss_qspi_io_format \<Rightarrow> 'c Nand \<Rightarrow> 'c Nand" where
  "Flash_init x f n =
     (let n = MSS_QSPI_configure (n\<lparr>io_format := MSS_QSPI_NORMAL\<rparr>);
          n = n\<lparr>io_format := stored_format f\<rparr>;
          n = snd (transfer_block x 0 [DEVICE_RESET_OPCODE, 0] 0 0 0 n);
          (status_reg2_value, n) = read_statusreg x STATUS_REG_2 n
      in write_statusreg x STATUS_REG_2 (status_reg2_value OR (STATUS_REG_2_ECC_E OR STATUS_REG_2_BUF)) n)"

definition Flash_readid :: "'c qspi_transfer \<Rightarrow> 'c Nand \<Rightarrow> u8 list \<times> 'c Nand" where
  "Flash_readid x n = transfer_block x 0 [READ_ID_OPCODE] 0 3 8 n"

text \<open>
  \<open>Flash_read\<close>. The remaining length is an \<open>int32_t\<close>: the loop's condition reads it
  as signed, the comparison with the page length as unsigned.
\<close>

lemma piece_less:
  fixes r :: u32
  assumes "0 < r"
  shows "unat (r - (if 2048 < r then 2048 else r)) < unat r" "unat (r - (if 2048 \<le> r then 2048 else r)) < unat r"
    "2048 \<le> r \<Longrightarrow> unat (r - 2048) < unat r" "2048 < r \<Longrightarrow> unat (r - 2048) < unat r"
  using assms by (simp_all add: unat_sub_if' word_less_nat_alt word_le_nat_alt)

lemma signed_pos: "0 <s (r :: u32) \<Longrightarrow> 0 < r"
  by (cases "r = 0") (simp_all add: word_neq_0_conv)

lemmas signed_piece_less = piece_less [OF signed_pos]

function read_loop :: "'c qspi_transfer \<Rightarrow> u32 \<Rightarrow> u32 \<Rightarrow> u8 \<Rightarrow> 'c Nand \<Rightarrow> u8 list \<times> u8 \<times> 'c Nand" where
  "read_loop x remaining_length page_index result n =
     (if 0 <s remaining_length then
        let len = (if remaining_length > 2048 then 2048 else remaining_length);
            (bs, result, n) = read_page x (unat page_index) 0 (unat len) n
        in if result \<noteq> 0 then (bs, result, n)
           else let (rest, result, n) = read_loop x (remaining_length - len) (page_index + 1) result n
                in (bs @ rest, result, n)
      else ([], result, n))"
  by pat_completeness auto
termination
  by (relation "measure (\<lambda>(x, r, p, res, n). unat r)")
    (auto intro: signed_piece_less dest: signed_pos simp: unat_gt_0)

definition Flash_read :: "'c qspi_transfer \<Rightarrow> u32 \<Rightarrow> u32 \<Rightarrow> 'c Nand \<Rightarrow> (u8 list \<times> u8 \<times> 'c Nand) option" where
  "Flash_read x srcAddr len n = do {
     require (srcAddr mod 2048 = 0);
     Some (read_loop x len (srcAddr div 2048) 0 n) }"

text \<open>Erasing. The page address of a block is computed in 32 bits; its two low bytes are sent.\<close>

definition is_bad_block :: "'c qspi_transfer \<Rightarrow> nat \<Rightarrow> 'c Nand \<Rightarrow> bool \<times> 'c Nand" where
  "is_bad_block x block_index n =
     (let (receive_buf, r, n) = read_page x (block_index * NUM_PAGES_PER_BLOCK) PAGE_LENGTH 2 n
      in (receive_buf ! 0 \<noteq> 0xFF \<or> receive_buf ! 1 \<noteq> 0xFF, n))"

definition erase_block :: "'c qspi_transfer \<Rightarrow> nat \<Rightarrow> 'c Nand \<Rightarrow> (u8 \<times> 'c Nand) option" where
  "erase_block x block_index n =
     (let (bad, n) = is_bad_block x block_index n
      in if bad then Some (STATUS_REG_3_EFAIL, n)
         else do {
           let (status, n) = read_statusreg x STATUS_REG_1 n;
           require (status = 0);
           let n = wait_if_busy x n;
           let n = send_write_enable_command x n;
           let n = snd (transfer_block x 0 (BLOCK_ERASE_OPCODE # 0 # hi_lo (block_index * NUM_PAGES_PER_BLOCK)) 3 0 0 n);
           let (status, n) = wait_if_busy_or_wel x n;
           Some (STATUS_REG_3_EFAIL AND status, n) })"

fun erase_loop :: "'c qspi_transfer \<Rightarrow> nat list \<Rightarrow> u8 \<Rightarrow> 'c Nand \<Rightarrow> (u8 \<times> 'c Nand) option" where
  "erase_loop x [] status n = Some (status, n)"
| "erase_loop x (b # bs) status n = do { (status, n) \<leftarrow> erase_block x b n; erase_loop x bs status n }"

definition Flash_erase :: "'c qspi_transfer \<Rightarrow> 'c Nand \<Rightarrow> (u8 \<times> 'c Nand) option" where
  "Flash_erase x n = erase_loop x [0..<NUM_BLOCKS_PER_DIE] 0xFF (disable_write_protect x n)"

definition Flash_erase_block :: "'c qspi_transfer \<Rightarrow> nat \<Rightarrow> 'c Nand \<Rightarrow> (u8 \<times> 'c Nand) option" where
  "Flash_erase_block x block_index n = erase_block x block_index (disable_write_protect x n)"

text \<open>Programming a page, in pieces of at most \<open>MSS_QSPI_CMDBYTES_LIMIT\<close> bytes.\<close>

function program_pieces :: "'c qspi_transfer \<Rightarrow> u8 list \<Rightarrow> nat \<Rightarrow> nat \<Rightarrow> nat \<Rightarrow> 'c Nand \<Rightarrow> 'c Nand" where
  "program_pieces x tx_buf wr_len remaining_length column n =
     (if remaining_length > 0 then
        let subpage_length = (if remaining_length > MSS_QSPI_CMDBYTES_LIMIT then MSS_QSPI_CMDBYTES_LIMIT else remaining_length);
            opcode = (if remaining_length = wr_len then LOAD_PROGRAM_DATA_OPCODE else RANDOM_LOAD_PROGRAM_DATA_OPCODE);
            n = send_write_enable_command x n;
            n = snd (transfer_block x 2 (opcode # hi_lo column @ take subpage_length (drop column tx_buf)) subpage_length 0 0 n)
        in program_pieces x tx_buf wr_len (remaining_length - subpage_length) (column + subpage_length) n
      else n)"
  by pat_completeness auto
termination by (relation "measure (\<lambda>(x, b, w, r, c, n). r)") auto

definition program_page :: "'c qspi_transfer \<Rightarrow> u8 list \<Rightarrow> nat \<Rightarrow> nat \<Rightarrow> 'c Nand \<Rightarrow> (u8 \<times> 'c Nand) option" where
  "program_page x tx_buf page wr_len n = do {
     require (wr_len \<le> PAGE_LENGTH);
     let n = program_pieces x tx_buf wr_len wr_len 0 n;
     let n = send_write_enable_command x n;
     let n = snd (transfer_block x 0 (PROGRAM_EXECUTE_OPCODE # 0 # hi_lo page) 3 0 0 n);
     let (status, n) = wait_if_busy_or_wel x n;
     Some ((STATUS_REG_3_ECC1 OR STATUS_REG_3_PFAIL) AND status, n) }"

text \<open>\<open>Flash_program\<close>: here the loop's condition reads the remaining length as unsigned. The
  status that is returned is the one of the last page.\<close>

function program_loop :: "'c qspi_transfer \<Rightarrow> u8 list \<Rightarrow> u32 \<Rightarrow> u32 \<Rightarrow> u8 \<Rightarrow> 'c Nand \<Rightarrow> (u8 \<times> 'c Nand) option" where
  "program_loop x buf remaining_length target_page_offset status n =
     (if remaining_length > 0 then do {
        let len = (if remaining_length \<ge> 2048 then 2048 else remaining_length);
        (status, n) \<leftarrow> program_page x buf (unat target_page_offset) (unat len) n;
        program_loop x (drop (unat len) buf) (remaining_length - len) (target_page_offset + 1) status n }
      else Some (status, n))"
  by pat_completeness auto
termination
  by (relation "measure (\<lambda>(x, b, r, p, s, n). unat r)") (auto intro: piece_less simp: unat_gt_0)

definition Flash_program :: "'c qspi_transfer \<Rightarrow> u8 list \<Rightarrow> u32 \<Rightarrow> u32 \<Rightarrow> 'c Nand \<Rightarrow> (u8 \<times> 'c Nand) option" where
  "Flash_program x buf addr len n =
     program_loop x buf len (addr div 2048) 0xFF (disable_write_protect x n)"

text \<open>The marking of a block as bad, which no operation calls.\<close>

definition mark_block_as_bad :: "'c qspi_transfer \<Rightarrow> nat \<Rightarrow> 'c Nand \<Rightarrow> u8 \<times> 'c Nand" where
  "mark_block_as_bad x block_index n =
     (let n = send_write_enable_command x n;
          n = snd (transfer_block x 2 (RANDOM_LOAD_PROGRAM_DATA_OPCODE # hi_lo PAGE_LENGTH @ [0, 0]) 2 0 0 n);
          n = send_write_enable_command x n;
          n = snd (transfer_block x 0 (PROGRAM_EXECUTE_OPCODE # 0 # hi_lo (block_index * NUM_PAGES_PER_BLOCK)) 3 0 0 n);
          (status, n) = wait_if_busy_or_wel x n
      in (STATUS_REG_3_PFAIL AND status, n))"

text \<open>The chip's table of replaced blocks.\<close>

definition Flash_add_entry_to_bb_lut :: "'c qspi_transfer \<Rightarrow> nat \<Rightarrow> nat \<Rightarrow> 'c Nand \<Rightarrow> u8 \<times> 'c Nand" where
  "Flash_add_entry_to_bb_lut x lba pba n =
     (let (status, n) = read_statusreg x STATUS_REG_3 n
      in if status AND STATUS_REG_3_LUTF = 0 then
           let n = send_write_enable_command x n;
               n = snd (transfer_block x 0
                     [BAD_BLOCK_MANAGEMENT_OPCODE, of_nat (lba div 256), of_nat lba, of_nat (pba div 256), of_nat lba] 4 0 0 n)
           in (1, snd (wait_if_busy_or_wel x n))
         else (0, n))"

definition Flash_read_status_regs :: "'c qspi_transfer \<Rightarrow> 'c Nand \<Rightarrow> u8 list \<times> 'c Nand" where
  "Flash_read_status_regs x n =
     (let (a, n) = read_statusreg x STATUS_REG_1 n;
          (b, n) = read_statusreg x STATUS_REG_2 n;
          (c, n) = read_statusreg x STATUS_REG_3 n
      in ([a, b, c], n))"

record w25_bb_lut_entry =
  lut_enable :: bool
  lut_invalid :: bool
  lba :: u16
  pba :: u16

definition lut_entry :: "u8 list \<Rightarrow> w25_bb_lut_entry" where
  "lut_entry buf = \<lparr>lut_enable = (buf ! 0 AND 0x80 \<noteq> 0), lut_invalid = (buf ! 0 AND 0x40 \<noteq> 0),
     lba = push_bit 8 (ucast (buf ! 0 AND 3)) OR ucast (buf ! 1),
     pba = push_bit 8 (ucast (buf ! 2)) OR ucast (buf ! 3)\<rparr>"

definition Flash_read_bb_lut :: "'c qspi_transfer \<Rightarrow> 'c Nand \<Rightarrow> (w25_bb_lut_entry list \<times> nat) \<times> 'c Nand" where
  "Flash_read_bb_lut x n =
     (let (buf, n) = transfer_block x 0 [READ_BBM_LUT_OPCODE, 0] 0 80 8 n;
          lut = map (\<lambda>i. lut_entry (drop (4 * i) buf)) [0..<NUM_LUTS]
      in ((lut, length (filter (\<lambda>e. lut_enable e \<and> \<not> lut_invalid e) lut)), n))"

fun scan_loop :: "'c qspi_transfer \<Rightarrow> nat list \<Rightarrow> 'c Nand \<Rightarrow> nat list \<times> 'c Nand" where
  "scan_loop x [] n = ([], n)"
| "scan_loop x (b # bs) n =
     (let (bad, n) = is_bad_block x b n; (rest, n) = scan_loop x bs n
      in (if bad then b # rest else rest, n))"

definition Flash_scan_for_bad_blocks :: "'c qspi_transfer \<Rightarrow> 'c Nand \<Rightarrow> nat list \<times> 'c Nand" where
  "Flash_scan_for_bad_blocks x n = scan_loop x [0..<NUM_BLOCKS_PER_DIE] n"


lemma sint_eq_unat_small:
  assumes "unat (r :: u32) < 2 ^ 31"
  shows "sint r = int (unat r)"
proof -
  have "uint r < 2 ^ 31"
    using assms unfolding uint_nat by (metis of_nat_less_iff of_nat_numeral of_nat_power)
  then have "signed_take_bit 31 (uint r) = uint r"
    by (intro signed_take_bit_int_eq_self) (auto intro: order_trans [of _ 0])
  then show ?thesis by (simp add: sint_uint)
qed

declare read_loop.simps [simp del] program_pieces.simps [simp del] program_loop.simps [simp del]

section \<open>The chip\<close>

text \<open>
  What can be told of the chip: its pages and its page buffer by column, status register 1, the
  write enable latch, the two failure flags, and for how many more polls it is busy.
\<close>

record Chip_View =
  v_pages :: "nat \<Rightarrow> nat \<Rightarrow> u8"
  v_buf :: "nat \<Rightarrow> u8"
  v_sr1 :: u8
  v_wel :: bool
  v_efail :: bool
  v_pfail :: bool
  v_busy :: nat

definition addr16 :: "u8 \<Rightarrow> u8 \<Rightarrow> nat" where
  "addr16 hi lo = 256 * unat hi + unat lo"

lemma addr16_hi_lo [simp]: "addr16 (of_nat (a div 256)) (of_nat a) = a mod 65536"
proof -
  have "256 * (a div 256 mod 256) + a mod 256 = a mod 65536"
    using mod_mult2_eq [of a 256 256] by simp
  then show ?thesis by (simp add: addr16_def unat_of_nat)
qed

definition read_modes :: "(mss_qspi_io_format \<times> u8 \<times> nat) set" where
  "read_modes = {(MSS_QSPI_NORMAL, FAST_READ_OPCODE, 8), (MSS_QSPI_DUAL_EX_RO, FAST_READ_DUAL_OUTPUT_OPCODE, 8),
     (MSS_QSPI_QUAD_EX_RW, FAST_READ_QUAD_IO_OPCODE, 4)}"

text \<open>What a status poll says of the chip when it is idle.\<close>

definition status_shows :: "u8 \<Rightarrow> Chip_View \<Rightarrow> bool" where
  "status_shows s v \<longleftrightarrow> (STATUS_REG_3_WEL AND s \<noteq> 0 \<longleftrightarrow> v_wel v) \<and> (STATUS_REG_3_EFAIL AND s \<noteq> 0 \<longleftrightarrow> v_efail v) \<and>
     (STATUS_REG_3_PFAIL AND s \<noteq> 0 \<longleftrightarrow> v_pfail v) \<and> STATUS_REG_3_ECC1 AND s = 0"

text \<open>
  The data sheet. Erasing a block in \<open>efails\<close> and programming a page in \<open>pfails\<close> fails
  and is flagged; otherwise an erased block is all ones and programming clears bits. The columns
  from 2050 on hold the chip's error correction and are left open; a read is free of errors that the
  correction cannot repair.
\<close>

lemma and_FF [simp]: "(w :: u8) AND 0xFF = w" "0xFF AND (w :: u8) = w"
proof -
  have "(0xFF :: u8) = - 1" by simp
  then show "w AND 0xFF = w" by (metis and.right_neutral)
  then show "0xFF AND w = w" by (simp add: and.commute)
qed

lemma page_aligned:
  assumes "a mod 2048 = 0"
  shows "2048 * unat (a div 2048) = unat (a :: u32)"
  using arg_cong [OF assms, of unat] by (simp add: unat_mod unat_div mod_0_imp_dvd)

definition nview :: "('c \<Rightarrow> Chip_View) \<Rightarrow> 'c Nand \<Rightarrow> Chip_View" where
  "nview view n = view (chip n)"

definition same_format :: "'c Nand \<Rightarrow> 'c Nand \<Rightarrow> bool" where
  "same_format n m \<longleftrightarrow> hw_format n = hw_format m \<and> io_format n = io_format m"

text \<open>Between operations the chip is idle and the peripheral back in the plain format; the stored
  format is one of those \<open>Flash_init\<close> stores.\<close>

definition nand_ready :: "('c \<Rightarrow> Chip_View) \<Rightarrow> 'c Nand \<Rightarrow> bool" where
  "nand_ready view n \<longleftrightarrow> hw_format n = MSS_QSPI_NORMAL \<and> v_busy (nview view n) = 0 \<and>
     io_format n \<in> {MSS_QSPI_NORMAL, MSS_QSPI_DUAL_EX_RO, MSS_QSPI_QUAD_EX_RW}"

text \<open>The marker of a bad block, and the data of the pages as one array of bytes.\<close>

definition marked :: "Chip_View \<Rightarrow> nat \<Rightarrow> bool" where
  "marked v b \<longleftrightarrow> v_pages v (64 * b) 2048 \<noteq> 0xFF \<or> v_pages v (64 * b) 2049 \<noteq> 0xFF"

definition flash_byte :: "Chip_View \<Rightarrow> nat \<Rightarrow> u8" where
  "flash_byte v j = v_pages v (j div 2048) (j mod 2048)"

definition same_store :: "('c \<Rightarrow> Chip_View) \<Rightarrow> 'c Nand \<Rightarrow> 'c Nand \<Rightarrow> bool" where
  "same_store view n m \<longleftrightarrow> v_pages (nview view n) = v_pages (nview view m) \<and> v_sr1 (nview view n) = v_sr1 (nview view m) \<and>
     io_format n = io_format m"

text \<open>
  The functions of a flash driver its users call, and those of this one.
\<close>

record 's Flash_Driver =
  fd_init :: "mss_qspi_io_format \<Rightarrow> 's \<Rightarrow> 's"
  fd_readid :: "'s \<Rightarrow> u8 list \<times> 's"
  fd_read :: "u32 \<Rightarrow> u32 \<Rightarrow> 's \<Rightarrow> (u8 list \<times> u8 \<times> 's) option"
  fd_erase_block :: "nat \<Rightarrow> 's \<Rightarrow> (u8 \<times> 's) option"
  fd_program :: "u8 list \<Rightarrow> u32 \<Rightarrow> u32 \<Rightarrow> 's \<Rightarrow> (u8 \<times> 's) option"
  fd_scan :: "'s \<Rightarrow> nat list \<times> 's"

definition winbond_driver :: "'c qspi_transfer \<Rightarrow> 'c Nand Flash_Driver" where
  "winbond_driver x = \<lparr>fd_init = Flash_init x, fd_readid = Flash_readid x, fd_read = Flash_read x,
     fd_erase_block = Flash_erase_block x, fd_program = Flash_program x, fd_scan = Flash_scan_for_bad_blocks x\<rparr>"

text \<open>
  What the users of a flash driver rely on: the data is one array of bytes, a scan finds the bad
  blocks, erasing makes a good block all ones, programming clears bits. \<open>broken\<close> are the blocks
  whose erasing or programming fails.
\<close>

locale nand_flash =
  fixes drv :: "'s Flash_Driver"
    and ok :: "'s \<Rightarrow> bool" and byte :: "'s \<Rightarrow> nat \<Rightarrow> u8" and bad :: "'s \<Rightarrow> nat \<Rightarrow> bool" and broken :: "nat \<Rightarrow> bool"
  assumes reads: "ok s \<Longrightarrow> a mod 2048 = 0 \<Longrightarrow> unat a + unat n \<le> 2 ^ 27 \<Longrightarrow>
      \<exists>s'. fd_read drv a n s = Some (map (byte s) [unat a ..< unat a + unat n], 0, s') \<and> ok s' \<and> byte s' = byte s \<and> bad s' = bad s"
    and erases: "ok s \<Longrightarrow> b < 1024 \<Longrightarrow> \<not> bad s b \<Longrightarrow> \<not> broken b \<Longrightarrow>
      \<exists>s'. fd_erase_block drv b s = Some (0, s') \<and> ok s' \<and> byte s' = (\<lambda>j. if j div 131072 = b then 0xFF else byte s j) \<and> bad s' = bad s"
    and refuses: "ok s \<Longrightarrow> b < 1024 \<Longrightarrow> bad s b \<Longrightarrow>
      \<exists>st s'. fd_erase_block drv b s = Some (st, s') \<and> st \<noteq> 0 \<and> ok s' \<and> byte s' = byte s \<and> bad s' = bad s"
    and programs: "ok s \<Longrightarrow> a mod 2048 = 0 \<Longrightarrow> unat a + unat n \<le> 2 ^ 27 \<Longrightarrow> unat n \<le> length bs \<Longrightarrow> n \<noteq> 0 \<Longrightarrow>
      (\<forall>b. unat a div 131072 \<le> b \<and> b \<le> (unat a + unat n - 1) div 131072 \<longrightarrow> \<not> broken b) \<Longrightarrow>
      \<exists>s'. fd_program drv bs a n s = Some (0, s') \<and> ok s' \<and> bad s' = bad s \<and>
        byte s' = (\<lambda>j. if unat a \<le> j \<and> j < unat a + unat n then byte s j AND bs ! (j - unat a) else byte s j)"
    and scans: "ok s \<Longrightarrow> \<exists>s'. fd_scan drv s = (filter (bad s) [0..<1024], s') \<and> ok s' \<and> byte s' = byte s \<and> bad s' = bad s"
    and resets: "ok s \<Longrightarrow> ok (fd_init drv f s) \<and> byte (fd_init drv f s) = byte s \<and> bad (fd_init drv f s) = bad s"
    and identifies: "ok s \<Longrightarrow> \<exists>s'. fd_readid drv s = ([0xEF, 0xAA, 0x21], s') \<and> ok s' \<and> byte s' = byte s \<and> bad s' = bad s"
begin

text \<open>Erasing a good block and programming it whole stores the data.\<close>

lemma rewrite_block:
  assumes "ok s" "b < 1024" "\<not> bad s b" "\<not> broken b" "length bs = 131072"
  shows "\<exists>s1 s2. fd_erase_block drv b s = Some (0, s1) \<and> fd_program drv bs (of_nat (131072 * b)) 131072 s1 = Some (0, s2) \<and> ok s2 \<and> bad s2 = bad s \<and>
    byte s2 = (\<lambda>j. if j div 131072 = b then bs ! (j - 131072 * b) else byte s j)"
proof -
  obtain s1 where s1: "fd_erase_block drv b s = Some (0, s1)" "ok s1" "byte s1 = (\<lambda>j. if j div 131072 = b then 0xFF else byte s j)" "bad s1 = bad s"
    using erases [OF assms(1-4)] by (elim exE conjE) (rule that)
  have a: "unat (of_nat (131072 * b) :: u32) = 131072 * b"
    using assms(2) by (simp add: unat_of_nat del: of_nat_mult)
  have am: "(of_nat (131072 * b) :: u32) mod 2048 = 0"
    by (rule word_unat_eq_iff [THEN iffD2]) (simp add: unat_mod a del: of_nat_mult)
  have blk: "(131072 * b \<le> j \<and> j < 131072 * b + 131072) \<longleftrightarrow> j div 131072 = b" for j :: nat
    by (rule iffI) (auto intro: div_nat_eqI)
  have brk: "\<forall>c. b \<le> c \<and> c \<le> b \<longrightarrow> \<not> broken c" using assms(4) le_antisym by metis
  obtain s2 where s2: "fd_program drv bs (of_nat (131072 * b)) 131072 s1 = Some (0, s2)" "ok s2" "bad s2 = bad s1"
    "byte s2 = (\<lambda>j. if 131072 * b \<le> j \<and> j < 131072 * b + 131072 then byte s1 j AND bs ! (j - 131072 * b) else byte s1 j)"
    using programs [OF s1(2) am, of 131072 bs] assms brk unfolding a
    by auto
  show ?thesis
    using s1 s2 by (auto simp: blk fun_eq_iff)
qed

lemma block_at: "b < 1024 \<Longrightarrow> unat (of_nat (131072 * b) :: u32) = 131072 * b"
  by (simp add: unat_of_nat del: of_nat_mult)

lemma block_aligned: "(of_nat (131072 * b) :: u32) mod 2048 = 0" if "b < 1024"
  by (rule word_unat_eq_iff [THEN iffD2]) (simp add: unat_mod block_at [OF that] del: of_nat_mult)

text \<open>A stored block is read back; reads elsewhere and the bad blocks found stay the same.\<close>

lemma store_block:
  assumes "ok s" "b < 1024" "\<not> bad s b" "\<not> broken b" "length bs = 131072"
  shows "\<exists>s1 s2. fd_erase_block drv b s = Some (0, s1) \<and> fd_program drv bs (of_nat (131072 * b)) 131072 s1 = Some (0, s2) \<and> ok s2 \<and>
    (\<exists>s3. fd_read drv (of_nat (131072 * b)) 131072 s2 = Some (bs, 0, s3)) \<and>
    (\<forall>a n. a mod 2048 = 0 \<longrightarrow> unat a + unat n \<le> 2 ^ 27 \<longrightarrow>
       unat a + unat n \<le> 131072 * b \<or> 131072 * b + 131072 \<le> unat a \<longrightarrow>
       (\<exists>xs s3 s4. fd_read drv a n s = Some (xs, 0, s3) \<and> fd_read drv a n s2 = Some (xs, 0, s4))) \<and>
    fst (fd_scan drv s2) = fst (fd_scan drv s)"
proof -
  obtain s1 s2 where s: "fd_erase_block drv b s = Some (0, s1)" "fd_program drv bs (of_nat (131072 * b)) 131072 s1 = Some (0, s2)" "ok s2" "bad s2 = bad s"
    "byte s2 = (\<lambda>j. if j div 131072 = b then bs ! (j - 131072 * b) else byte s j)"
    using rewrite_block [OF assms] by (elim exE conjE) (rule that)
  have lim: "131072 * b + unat (131072 :: u32) \<le> 2 ^ 27" using assms(2) by simp
  have own: "map (byte s2) [131072 * b ..< 131072 * b + 131072] = bs"
  proof (rule nth_equalityI)
    fix i assume "i < length (map (byte s2) [131072 * b ..< 131072 * b + 131072])"
    then have "i < 131072" by simp
    moreover from this have "(131072 * b + i) div 131072 = b" by (intro div_nat_eqI) auto
    ultimately show "map (byte s2) [131072 * b ..< 131072 * b + 131072] ! i = bs ! i" by (simp add: s(5))
  qed (simp add: assms(5))
  have rd: "\<exists>s3. fd_read drv (of_nat (131072 * b)) 131072 s2 = Some (bs, 0, s3)"
    using reads [OF s(3) block_aligned [OF assms(2)], of 131072] lim own
    by (auto simp: block_at [OF assms(2)] simp del: of_nat_mult upt_Suc)
  have other: "\<exists>xs s3 s4. fd_read drv a n s = Some (xs, 0, s3) \<and> fd_read drv a n s2 = Some (xs, 0, s4)"
    if h: "a mod 2048 = 0" "unat a + unat n \<le> 2 ^ 27" "unat a + unat n \<le> 131072 * b \<or> 131072 * b + 131072 \<le> unat a" for a n
  proof -
    have "map (byte s2) [unat a ..< unat a + unat n] = map (byte s) [unat a ..< unat a + unat n]"
    proof (rule map_cong [OF refl])
      fix j assume "j \<in> set [unat a ..< unat a + unat n]"
      then have "j < 131072 * b \<or> 131072 * b + 131072 \<le> j" using h(3) by auto
      then have "j div 131072 \<noteq> b" by auto
      then show "byte s2 j = byte s j" by (simp add: s(5))
    qed
    then show ?thesis using reads [OF assms(1) h(1,2)] reads [OF s(3) h(1,2)] by metis
  qed
  have "fst (fd_scan drv s2) = fst (fd_scan drv s)" using scans [OF assms(1)] scans [OF s(3)] s(4) by auto
  then show ?thesis using s(1-3) rd other by blast
qed

end

locale w25n01gv =
  fixes x :: "'c qspi_transfer" and view :: "'c \<Rightarrow> Chip_View"
    and efails :: "nat \<Rightarrow> bool" and pfails :: "nat \<Rightarrow> bool"
  assumes poll: "\<exists>s c'. x MSS_QSPI_NORMAL [READ_STATUS_REG_OPCODE, STATUS_REG_3] 1 0 c = ([s], c') \<and>
      view c' = (view c)\<lparr>v_busy := v_busy (view c) - 1\<rparr> \<and>
      (STATUS_REG_3_BUSY AND s \<noteq> 0 \<longleftrightarrow> v_busy (view c) \<noteq> 0) \<and> (v_busy (view c) = 0 \<longrightarrow> status_shows s (view c))"
    and protection: "v_busy (view c) = 0 \<Longrightarrow>
      \<exists>c'. x MSS_QSPI_NORMAL [READ_STATUS_REG_OPCODE, STATUS_REG_1] 1 0 c = ([v_sr1 (view c)], c') \<and> view c' = view c"
    and other_status: "v_busy (view c) = 0 \<Longrightarrow>
      \<exists>s c'. x MSS_QSPI_NORMAL [READ_STATUS_REG_OPCODE, STATUS_REG_2] 1 0 c = ([s], c') \<and> view c' = view c"
    and set_other_status: "v_busy (view c) = 0 \<Longrightarrow>
      view (snd (x MSS_QSPI_NORMAL [WRITE_STATUS_REG_OPCODE, STATUS_REG_2, v] 0 0 c)) = view c"
    and device_reset: "v_busy (view c) = 0 \<Longrightarrow>
      \<exists>sr1 buf. view (snd (x MSS_QSPI_NORMAL [DEVICE_RESET_OPCODE] 0 0 c)) = (view c)\<lparr>v_sr1 := sr1, v_buf := buf, v_wel := False\<rparr>"
    and read_id: "v_busy (view c) = 0 \<Longrightarrow>
      \<exists>c'. x MSS_QSPI_NORMAL [READ_ID_OPCODE] 3 8 c = ([0xEF, 0xAA, 0x21], c') \<and> view c' = view c"
    and set_protection: "v_busy (view c) = 0 \<Longrightarrow>
      view (snd (x MSS_QSPI_NORMAL [WRITE_STATUS_REG_OPCODE, STATUS_REG_1, v] 0 0 c)) = (view c)\<lparr>v_sr1 := v\<rparr>"
    and write_enable: "v_busy (view c) = 0 \<Longrightarrow>
      view (snd (x MSS_QSPI_NORMAL [WRITE_ENABLE_OPCODE] 0 0 c)) = (view c)\<lparr>v_wel := True\<rparr>"
    and page_data_read: "v_busy (view c) = 0 \<Longrightarrow>
      \<exists>k < MAX_SPIN_COUNT. view (snd (x MSS_QSPI_NORMAL [PAGE_DATA_READ_OPCODE, 0, hi, lo] 0 0 c)) =
        (view c)\<lparr>v_buf := v_pages (view c) (addr16 hi lo), v_wel := False, v_busy := k\<rparr>"
    and read_data: "v_busy (view c) = 0 \<Longrightarrow> (f, opcode, dummy) \<in> read_modes \<Longrightarrow> addr16 hi lo + n \<le> 2112 \<Longrightarrow>
      \<exists>c'. x f [opcode, hi, lo] n dummy c = (map (v_buf (view c)) [addr16 hi lo ..< addr16 hi lo + n], c') \<and> view c' = view c"
    and block_erase: "v_busy (view c) = 0 \<Longrightarrow> v_wel (view c) \<Longrightarrow> v_sr1 (view c) = 0 \<Longrightarrow>
      \<exists>k < MAX_SPIN_COUNT. \<exists>pages buf. view (snd (x MSS_QSPI_NORMAL [BLOCK_ERASE_OPCODE, 0, hi, lo] 0 0 c)) =
        (view c)\<lparr>v_pages := pages, v_buf := buf, v_efail := efails (addr16 hi lo div 64), v_wel := False, v_busy := k\<rparr> \<and>
        (\<forall>p. p div 64 \<noteq> addr16 hi lo div 64 \<longrightarrow> pages p = v_pages (view c) p) \<and>
        (\<not> efails (addr16 hi lo div 64) \<longrightarrow> (\<forall>p i. p div 64 = addr16 hi lo div 64 \<longrightarrow> pages p i = 0xFF))"
    and load_data: "v_busy (view c) = 0 \<Longrightarrow> v_wel (view c) \<Longrightarrow> addr16 hi lo + length bs \<le> 2112 \<Longrightarrow>
      view (snd (x MSS_QSPI_NORMAL (LOAD_PROGRAM_DATA_OPCODE # hi # lo # bs) 0 0 c)) =
        (view c)\<lparr>v_buf := \<lambda>i. if addr16 hi lo \<le> i \<and> i < addr16 hi lo + length bs then bs ! (i - addr16 hi lo) else 0xFF\<rparr>"
    and random_load: "v_busy (view c) = 0 \<Longrightarrow> v_wel (view c) \<Longrightarrow> addr16 hi lo + length bs \<le> 2112 \<Longrightarrow>
      view (snd (x MSS_QSPI_NORMAL (RANDOM_LOAD_PROGRAM_DATA_OPCODE # hi # lo # bs) 0 0 c)) =
        (view c)\<lparr>v_buf := \<lambda>i. if addr16 hi lo \<le> i \<and> i < addr16 hi lo + length bs then bs ! (i - addr16 hi lo) else v_buf (view c) i\<rparr>"
    and program_execute: "v_busy (view c) = 0 \<Longrightarrow> v_wel (view c) \<Longrightarrow> v_sr1 (view c) = 0 \<Longrightarrow>
      \<exists>k < MAX_SPIN_COUNT. \<exists>page buf. view (snd (x MSS_QSPI_NORMAL [PROGRAM_EXECUTE_OPCODE, 0, hi, lo] 0 0 c)) =
        (view c)\<lparr>v_pages := (v_pages (view c))(addr16 hi lo := page), v_buf := buf, v_pfail := pfails (addr16 hi lo),
          v_wel := False, v_busy := k\<rparr> \<and>
        (\<not> pfails (addr16 hi lo) \<longrightarrow> (\<forall>i < 2050. page i = v_pages (view c) (addr16 hi lo) i AND v_buf (view c) i))"
begin

lemma poll_run:
  assumes "hw_format n = MSS_QSPI_NORMAL"
  obtains s n' where "read_statusreg x STATUS_REG_3 n = (s, n')"
    "nview view n' = (nview view n)\<lparr>v_busy := v_busy (nview view n) - 1\<rparr>" "same_format n' n"
    "STATUS_REG_3_BUSY AND s \<noteq> 0 \<longleftrightarrow> v_busy (nview view n) \<noteq> 0"
    "v_busy (nview view n) = 0 \<longrightarrow> status_shows s (nview view n)"
proof -
  obtain s c' where c: "x MSS_QSPI_NORMAL [READ_STATUS_REG_OPCODE, STATUS_REG_3] 1 0 (chip n) = ([s], c')"
    "view c' = (view (chip n))\<lparr>v_busy := v_busy (view (chip n)) - 1\<rparr>"
    "STATUS_REG_3_BUSY AND s \<noteq> 0 \<longleftrightarrow> v_busy (view (chip n)) \<noteq> 0"
    "v_busy (view (chip n)) = 0 \<longrightarrow> status_shows s (view (chip n))"
    using poll [of "chip n"] by (elim exE conjE) (rule that)
  show ?thesis
    by (rule that [of s "n\<lparr>chip := c'\<rparr>"])
      (use c assms in \<open>simp_all add: read_statusreg_def transfer_block_def nview_def same_format_def\<close>)
qed

text \<open>A loop that ends when the chip is idle ends after as many polls as the chip is busy.\<close>

lemma spin_until_idle:
  assumes "hw_format n = MSS_QSPI_NORMAL" and "v_busy (nview view n) < k"
    and "\<And>s. STATUS_REG_3_BUSY AND s \<noteq> 0 \<Longrightarrow> again s"
    and "\<And>s. STATUS_REG_3_BUSY AND s = 0 \<Longrightarrow> status_shows s ((nview view n)\<lparr>v_busy := 0\<rparr>) \<Longrightarrow> \<not> again s"
  obtains s n' where "spin x again k n = (s, n')" "nview view n' = (nview view n)\<lparr>v_busy := 0\<rparr>"
    "same_format n' n" "status_shows s (nview view n')"
proof -
  have "\<exists>s n'. spin x again k n = (s, n') \<and> nview view n' = (nview view n)\<lparr>v_busy := 0\<rparr> \<and>
      same_format n' n \<and> status_shows s (nview view n')"
    using assms
  proof (induction k arbitrary: n)
    case 0
    then show ?case by simp
  next
    case (Suc k)
    obtain s n' where p: "read_statusreg x STATUS_REG_3 n = (s, n')"
      "nview view n' = (nview view n)\<lparr>v_busy := v_busy (nview view n) - 1\<rparr>" "same_format n' n"
      "STATUS_REG_3_BUSY AND s \<noteq> 0 \<longleftrightarrow> v_busy (nview view n) \<noteq> 0"
      "v_busy (nview view n) = 0 \<longrightarrow> status_shows s (nview view n)"
      by (rule poll_run [OF Suc.prems(1)])
    show ?case
    proof (cases "v_busy (nview view n) = 0")
      case True
      then have v: "(nview view n)\<lparr>v_busy := 0\<rparr> = nview view n" by (cases "nview view n") simp
      then have "\<not> again s" using Suc.prems(4) [of s] p(4,5) True by (simp add: v)
      then show ?thesis using p True v by simp
    next
      case False
      have "\<exists>s n''. spin x again k n' = (s, n'') \<and> nview view n'' = (nview view n')\<lparr>v_busy := 0\<rparr> \<and>
          same_format n'' n' \<and> status_shows s (nview view n'')"
        by (rule Suc.IH) (use Suc.prems p False in \<open>auto simp: same_format_def\<close>)
      then show ?thesis
        using p False Suc.prems(2,3) by (auto simp: same_format_def)
    qed
  qed
  then show ?thesis using that by blast
qed

lemma wait_if_busy_run:
  assumes "hw_format n = MSS_QSPI_NORMAL" "v_busy (nview view n) < MAX_SPIN_COUNT"
  shows "nview view (wait_if_busy x n) = (nview view n)\<lparr>v_busy := 0\<rparr>" "same_format (wait_if_busy x n) n"
proof -
  obtain s n' where "spin x (\<lambda>s. STATUS_REG_3_BUSY AND s \<noteq> 0) MAX_SPIN_COUNT n = (s, n')"
    "nview view n' = (nview view n)\<lparr>v_busy := 0\<rparr>" "same_format n' n"
    by (rule spin_until_idle [OF assms, of "\<lambda>s. STATUS_REG_3_BUSY AND s \<noteq> 0"]) auto
  then show "nview view (wait_if_busy x n) = (nview view n)\<lparr>v_busy := 0\<rparr>" "same_format (wait_if_busy x n) n"
    by (simp_all add: wait_if_busy_def)
qed

lemma wait_if_busy_or_wel_run:
  assumes "hw_format n = MSS_QSPI_NORMAL" "v_busy (nview view n) < MAX_SPIN_COUNT" "\<not> v_wel (nview view n)"
  obtains s n' where "wait_if_busy_or_wel x n = (s, n')"
    "nview view n' = (nview view n)\<lparr>v_busy := 0\<rparr>" "same_format n' n" "status_shows s (nview view n')"
proof -
  obtain s n' where
    "spin x (\<lambda>s. STATUS_REG_3_BUSY AND s \<noteq> 0 \<or> STATUS_REG_3_WEL AND s \<noteq> 0) MAX_SPIN_COUNT n = (s, n')"
    "nview view n' = (nview view n)\<lparr>v_busy := 0\<rparr>" "same_format n' n" "status_shows s (nview view n')"
    by (rule spin_until_idle [OF assms(1,2), of "\<lambda>s. STATUS_REG_3_BUSY AND s \<noteq> 0 \<or> STATUS_REG_3_WEL AND s \<noteq> 0"])
      (use assms(3) in \<open>auto simp: status_shows_def\<close>)
  then show ?thesis using that by (simp add: wait_if_busy_or_wel_def)
qed

lemma write_enable_run:
  assumes "hw_format n = MSS_QSPI_NORMAL" "v_busy (nview view n) = 0"
  shows "nview view (send_write_enable_command x n) = (nview view n)\<lparr>v_wel := True\<rparr>"
    "same_format (send_write_enable_command x n) n"
proof -
  let ?n = "snd (transfer_block x 0 [WRITE_ENABLE_OPCODE] 0 0 0 n)"
  have n: "nview view ?n = (nview view n)\<lparr>v_wel := True\<rparr>" "same_format ?n n"
    using write_enable [of "chip n"] assms
    by (simp_all add: transfer_block_def nview_def same_format_def case_prod_beta)
  obtain s n' where p: "read_statusreg x STATUS_REG_3 ?n = (s, n')"
    "nview view n' = (nview view ?n)\<lparr>v_busy := v_busy (nview view ?n) - 1\<rparr>" "same_format n' ?n"
    "v_busy (nview view ?n) = 0 \<longrightarrow> status_shows s (nview view ?n)"
    by (rule poll_run [of ?n]) (use n(2) assms(1) in \<open>auto simp: same_format_def\<close>)
  have "STATUS_REG_3_WEL AND s \<noteq> 0" using p(4) n(1) assms(2) by (simp add: status_shows_def)
  then have "spin x (\<lambda>s. STATUS_REG_3_WEL AND s = 0) MAX_SPIN_COUNT ?n = (s, n')"
    using p(1) by (subst spin_step) simp_all
  then have "send_write_enable_command x n = n'"
    by (simp add: send_write_enable_command_def wait_for_wel_def)
  moreover have "nview view n' = (nview view n)\<lparr>v_wel := True\<rparr>"
    using p(2) n(1) assms(2) by (cases "nview view n") simp
  ultimately show "nview view (send_write_enable_command x n) = (nview view n)\<lparr>v_wel := True\<rparr>"
    "same_format (send_write_enable_command x n) n"
    using p(3) n(2) by (auto simp: same_format_def)
qed

lemma read_page_run:
  assumes "nand_ready view n" and "col + len \<le> 2112" and "len \<le> 2048"
  obtains n' where "read_page x page col len n =
      (map (v_pages (nview view n) (page mod 65536)) [col..<col + len], 0, n')"
    "nview view n' = (nview view n)\<lparr>v_buf := v_pages (nview view n) (page mod 65536), v_wel := False\<rparr>"
    "nand_ready view n'" "io_format n' = io_format n"
proof -
  have n: "hw_format n = MSS_QSPI_NORMAL" "v_busy (nview view n) = 0"
    "io_format n \<in> {MSS_QSPI_NORMAL, MSS_QSPI_DUAL_EX_RO, MSS_QSPI_QUAD_EX_RW}"
    using assms(1) by (simp_all add: nand_ready_def)
  define n1 where "n1 = wait_if_busy x n"
  have n1: "nview view n1 = nview view n" "same_format n1 n"
    using wait_if_busy_run [OF n(1)] n(2) by (simp_all add: n1_def)
  define n2 where "n2 = snd (transfer_block x 0 (PAGE_DATA_READ_OPCODE # 0 # hi_lo page) 3 0 0 n1)"
  obtain k where n2: "k < MAX_SPIN_COUNT" "nview view n2 =
      (nview view n)\<lparr>v_buf := v_pages (nview view n) (page mod 65536), v_wel := False, v_busy := k\<rparr>" "same_format n2 n"
    using page_data_read [of "chip n1" "of_nat (page div 256)" "of_nat page"] n1 n
    by (auto simp: n2_def transfer_block_def nview_def same_format_def case_prod_beta hi_lo_def)
  define n3 where "n3 = wait_if_busy x n2"
  have n3: "nview view n3 = (nview view n)\<lparr>v_buf := v_pages (nview view n) (page mod 65536), v_wel := False\<rparr>"
    "same_format n3 n"
    using wait_if_busy_run [of n2] n2 n by (auto simp: n3_def same_format_def)
  define n4 where "n4 = MSS_QSPI_configure n3"
  obtain opcode dummy where rc: "read_command (io_format n) = (opcode, dummy)" by (cases "read_command (io_format n)")
  have modes: "(io_format n, opcode, dummy) \<in> read_modes"
    using n(3) rc by (auto simp: read_command_def read_modes_def)
  have n4: "nview view n4 = nview view n3" "hw_format n4 = io_format n" "io_format n4 = io_format n"
    using n3(2) by (simp_all add: n4_def MSS_QSPI_configure_def nview_def same_format_def)
  have col: "addr16 (of_nat (col div 256)) (of_nat col) = col" using assms(2) by simp
  obtain c' where c': "x (io_format n) [opcode, of_nat (col div 256), of_nat col] len dummy (chip n4) =
      (map (v_buf (view (chip n4))) [col..<col + len], c')" "view c' = view (chip n4)"
    using read_data [OF _ modes, of "chip n4" "of_nat (col div 256)" "of_nat col" len] n4(1) n3(1) n(2) assms(2)
    unfolding col by (auto simp: nview_def)
  define n5 where "n5 = n4\<lparr>chip := c'\<rparr>"
  have n5: "transfer_block x 2 (opcode # hi_lo col @ [of_nat page]) 0 len dummy n4 =
      (map (v_pages (nview view n) (page mod 65536)) [col..<col + len], n5)" "nview view n5 = nview view n3"
    using c' n4 n3(1) by (simp_all add: transfer_block_def hi_lo_def n5_def nview_def)
  define n6 where "n6 = (MSS_QSPI_configure (n5\<lparr>io_format := MSS_QSPI_NORMAL\<rparr>))\<lparr>io_format := io_format n\<rparr>"
  have n6: "nview view n6 = nview view n3" "hw_format n6 = MSS_QSPI_NORMAL" "io_format n6 = io_format n"
    using n5(2) by (simp_all add: n6_def MSS_QSPI_configure_def nview_def)
  obtain s n' where p: "read_statusreg x STATUS_REG_3 n6 = (s, n')"
    "nview view n' = (nview view n6)\<lparr>v_busy := v_busy (nview view n6) - 1\<rparr>" "same_format n' n6"
    by (rule poll_run [OF n6(2)])
  have f3: "io_format n3 = io_format n" using n3(2) by (simp add: same_format_def)
  have "read_page x page col len n = (map (v_pages (nview view n) (page mod 65536)) [col..<col + len], 0, n')"
    using p(1) n5(1) rc assms(3)
    by (simp add: read_page_def Let_def n1_def [symmetric] n2_def [symmetric] n3_def [symmetric] n4_def [symmetric]
        f3 n6_def [symmetric])
  moreover have "nview view n' = (nview view n)\<lparr>v_buf := v_pages (nview view n) (page mod 65536), v_wel := False\<rparr>"
    using p(2) n6(1) n3(1) n(2) by (cases "nview view n") simp
  moreover have "nand_ready view n'" "io_format n' = io_format n"
    using calculation(2) p(3) n6 n by (auto simp: nand_ready_def same_format_def)
  ultimately show ?thesis by (rule that)
qed

lemma is_bad_block_run:
  assumes "nand_ready view n" and "b < 1024"
  obtains n' where "is_bad_block x b n = (marked (nview view n) b, n')" "nand_ready view n'" "same_store view n' n"
proof -
  obtain n' where r: "read_page x (b * 64) 2048 2 n =
      (map (v_pages (nview view n) (b * 64 mod 65536)) [2048..<2048 + 2], 0, n')"
    "nview view n' = (nview view n)\<lparr>v_buf := v_pages (nview view n) (b * 64 mod 65536), v_wel := False\<rparr>"
    "nand_ready view n'" "io_format n' = io_format n"
    by (rule read_page_run [OF assms(1), of 2048 2 "b * 64"]) auto
  have "b * 64 mod 65536 = 64 * b" using assms(2) by simp
  moreover have "map f [2048..<2048 + 2] = [f 2048, f 2049]" for f :: "nat \<Rightarrow> u8" by (simp add: upt_rec)
  ultimately have "is_bad_block x b n = (marked (nview view n) b, n')"
    using r(1) by (simp add: is_bad_block_def marked_def del: upt_conv_Cons)
  then show ?thesis using that r by (simp add: same_store_def)
qed

lemma scan_loop_run:
  assumes "nand_ready view n" and "\<forall>b \<in> set bs. b < 1024"
  obtains n' where "scan_loop x bs n = (filter (marked (nview view n)) bs, n')" "nand_ready view n'" "same_store view n' n"
proof -
  have "\<exists>n'. scan_loop x bs n = (filter (marked (nview view n)) bs, n') \<and> nand_ready view n' \<and> same_store view n' n"
    using assms
  proof (induction bs arbitrary: n)
    case Nil
    then show ?case by (simp add: same_store_def)
  next
    case (Cons b bs)
    obtain n1 where n1: "is_bad_block x b n = (marked (nview view n) b, n1)" "nand_ready view n1" "same_store view n1 n"
      by (rule is_bad_block_run [OF Cons.prems(1), of b]) (use Cons.prems(2) in auto)
    obtain n2 where n2: "scan_loop x bs n1 = (filter (marked (nview view n1)) bs, n2)" "nand_ready view n2" "same_store view n2 n1"
      using Cons.IH [OF n1(2)] Cons.prems(2) by auto
    have "marked (nview view n1) = marked (nview view n)"
      using n1(3) by (simp add: fun_eq_iff marked_def same_store_def)
    then show ?case using n1 n2 by (auto simp: same_store_def)
  qed
  then show ?thesis using that by blast
qed

lemma scan_run:
  assumes "nand_ready view n"
  obtains n' where "Flash_scan_for_bad_blocks x n = (filter (marked (nview view n)) [0..<1024], n')"
    "nand_ready view n'" "same_store view n' n"
  unfolding Flash_scan_for_bad_blocks_def
  by (rule scan_loop_run [OF assms, of "[0..<1024]"]) (auto intro: that)

lemma disable_write_protect_run:
  assumes "nand_ready view n"
  shows "nview view (disable_write_protect x n) = (nview view n)\<lparr>v_sr1 := 0\<rparr>" "nand_ready view (disable_write_protect x n)"
    "io_format (disable_write_protect x n) = io_format n"
  using set_protection [of "chip n" 0] assms
  by (simp_all add: disable_write_protect_def write_statusreg_def transfer_block_def nand_ready_def nview_def case_prod_beta)

lemma erase_block_run:
  assumes "nand_ready view n" and "b < 1024" and "v_sr1 (nview view n) = 0"
  obtains st n' where "erase_block x b n = Some (st, n')" "nand_ready view n'" "v_sr1 (nview view n') = 0"
    "io_format n' = io_format n"
    "\<And>p. p div 64 \<noteq> b \<or> marked (nview view n) b \<Longrightarrow> v_pages (nview view n') p = v_pages (nview view n) p"
    "\<And>p i. p div 64 = b \<Longrightarrow> \<not> marked (nview view n) b \<Longrightarrow> \<not> efails b \<Longrightarrow> v_pages (nview view n') p i = 0xFF"
    "st = 0 \<longleftrightarrow> \<not> marked (nview view n) b \<and> \<not> efails b"
proof -
  obtain n1 where n1: "is_bad_block x b n = (marked (nview view n) b, n1)" "nand_ready view n1" "same_store view n1 n"
    by (rule is_bad_block_run [OF assms(1,2)])
  show ?thesis
  proof (cases "marked (nview view n) b")
    case True
    then have "erase_block x b n = Some (4, n1)" using n1(1) by (simp add: erase_block_def)
    then show ?thesis using that [of 4 n1] n1 True assms(3) by (simp add: same_store_def)
  next
    case False
    have r1: "hw_format n1 = MSS_QSPI_NORMAL" "v_busy (nview view n1) = 0"
      using n1(2) by (simp_all add: nand_ready_def)
    have s1: "v_sr1 (nview view n1) = 0" using n1(3) assms(3) by (simp add: same_store_def)
    obtain c' where c': "x MSS_QSPI_NORMAL [READ_STATUS_REG_OPCODE, STATUS_REG_1] 1 0 (chip n1) = ([0], c')"
      "view c' = view (chip n1)"
      using protection [of "chip n1"] r1 s1 by (auto simp: nview_def)
    define n2 where "n2 = n1\<lparr>chip := c'\<rparr>"
    have n2: "read_statusreg x STATUS_REG_1 n1 = (0, n2)" "nview view n2 = nview view n1" "same_format n2 n1"
      using c' r1 by (simp_all add: read_statusreg_def transfer_block_def n2_def nview_def same_format_def)
    define n3 where "n3 = send_write_enable_command x (wait_if_busy x n2)"
    have w: "nview view (wait_if_busy x n2) = nview view n1" "same_format (wait_if_busy x n2) n1"
      using wait_if_busy_run [of n2] n2 r1 by (auto simp: same_format_def)
    have n3: "nview view n3 = (nview view n1)\<lparr>v_wel := True\<rparr>" "same_format n3 n1"
      using write_enable_run [of "wait_if_busy x n2"] w r1 by (auto simp: n3_def same_format_def)
    define n4 where "n4 = snd (transfer_block x 0 (BLOCK_ERASE_OPCODE # 0 # hi_lo (b * NUM_PAGES_PER_BLOCK)) 3 0 0 n3)"
    have b: "b * 64 mod 65536 div 64 = b" using assms(2) by simp
    obtain k pages buf where n4: "k < MAX_SPIN_COUNT" "nview view n4 = (nview view n3)\<lparr>v_pages := pages, v_buf := buf,
        v_efail := efails b, v_wel := False, v_busy := k\<rparr>" "same_format n4 n1"
      "\<forall>p. p div 64 \<noteq> b \<longrightarrow> pages p = v_pages (nview view n3) p"
      "\<not> efails b \<longrightarrow> (\<forall>p i. p div 64 = b \<longrightarrow> pages p i = 0xFF)"
      using block_erase [of "chip n3" "of_nat (b * 64 div 256)" "of_nat (b * 64)"] n3 r1 s1
      unfolding addr16_hi_lo b
      by (auto simp: n4_def transfer_block_def nview_def same_format_def case_prod_beta hi_lo_def)
    obtain s n' where n': "wait_if_busy_or_wel x n4 = (s, n')" "nview view n' = (nview view n4)\<lparr>v_busy := 0\<rparr>"
      "same_format n' n4" "status_shows s (nview view n')"
      by (rule wait_if_busy_or_wel_run [of n4]) (use n4 r1 in \<open>auto simp: same_format_def\<close>)
    have e: "erase_block x b n = Some (STATUS_REG_3_EFAIL AND s, n')"
      using n1(1) n2(1) n'(1) False
      by (simp add: erase_block_def require_def Let_def n3_def [symmetric] n4_def [symmetric])
    have v: "v_pages (nview view n') = pages" "v_sr1 (nview view n') = 0"
      using n'(2) n4(2) n3(1) s1 by simp_all
    have st: "STATUS_REG_3_EFAIL AND s = 0 \<longleftrightarrow> \<not> efails b"
      using n'(4) n'(2) n4(2) by (auto simp: status_shows_def)
    have f: "nand_ready view n'" "io_format n' = io_format n"
      using n'(2,3) n4(3) n1(2,3) by (auto simp: nand_ready_def same_format_def same_store_def)
    have o: "v_pages (nview view n3) = v_pages (nview view n)" using n3(1) n1(3) by (simp add: same_store_def)
    show ?thesis
      by (rule that [OF e f(1) v(2) f(2)]) (use v(1) st n4(4,5) False o in auto)
  qed
qed

lemma Flash_erase_block_run:
  assumes "nand_ready view n" and "b < 1024"
  obtains st n' where "Flash_erase_block x b n = Some (st, n')" "nand_ready view n'" "v_sr1 (nview view n') = 0"
    "io_format n' = io_format n"
    "\<And>p. p div 64 \<noteq> b \<or> marked (nview view n) b \<Longrightarrow> v_pages (nview view n') p = v_pages (nview view n) p"
    "\<And>p i. p div 64 = b \<Longrightarrow> \<not> marked (nview view n) b \<Longrightarrow> \<not> efails b \<Longrightarrow> v_pages (nview view n') p i = 0xFF"
    "st = 0 \<longleftrightarrow> \<not> marked (nview view n) b \<and> \<not> efails b"
proof -
  note d = disable_write_protect_run [OF assms(1)]
  have p: "v_pages (nview view (disable_write_protect x n)) = v_pages (nview view n)" "v_sr1 (nview view (disable_write_protect x n)) = 0"
    using d(1) by simp_all
  then have m: "marked (nview view (disable_write_protect x n)) b = marked (nview view n) b" by (simp add: marked_def)
  show ?thesis
    using erase_block_run [OF d(2) assms(2) p(2)] that
    unfolding m p(1) d(3) Flash_erase_block_def by metis
qed

lemma Flash_erase_block_ex:
  assumes "nand_ready view n" and "b < 1024"
  shows "\<exists>st n'. Flash_erase_block x b n = Some (st, n') \<and> nand_ready view n' \<and> v_sr1 (nview view n') = 0 \<and>
    io_format n' = io_format n \<and>
    (\<forall>p. p div 64 \<noteq> b \<or> marked (nview view n) b \<longrightarrow> v_pages (nview view n') p = v_pages (nview view n) p) \<and>
    (\<forall>p i. p div 64 = b \<longrightarrow> \<not> marked (nview view n) b \<longrightarrow> \<not> efails b \<longrightarrow> v_pages (nview view n') p i = 0xFF) \<and>
    (st = 0 \<longleftrightarrow> \<not> marked (nview view n) b \<and> \<not> efails b)"
proof (rule Flash_erase_block_run [OF assms], goal_cases)
  case (1 st n')
  then show ?case by (intro exI [of _ st] exI [of _ n'] conjI) auto
qed

text \<open>Erasing every block: unmarked blocks become all ones, marked ones stay as they are.\<close>

lemma erase_loop_run:
  assumes "nand_ready view n" "v_sr1 (nview view n) = 0" "distinct bs" "\<forall>b \<in> set bs. b < 1024"
  obtains st' n' where "erase_loop x bs st n = Some (st', n')" "nand_ready view n'" "v_sr1 (nview view n') = 0"
    "io_format n' = io_format n"
    "\<And>p. p div 64 \<notin> set bs \<or> marked (nview view n) (p div 64) \<Longrightarrow> v_pages (nview view n') p = v_pages (nview view n) p"
    "\<And>p i. p div 64 \<in> set bs \<Longrightarrow> \<not> marked (nview view n) (p div 64) \<Longrightarrow> \<not> efails (p div 64) \<Longrightarrow> v_pages (nview view n') p i = 0xFF"

    "bs \<noteq> [] \<Longrightarrow> st' = 0 \<longleftrightarrow> \<not> marked (nview view n) (last bs) \<and> \<not> efails (last bs)"
proof -
  have "\<exists>st' n'. erase_loop x bs st n = Some (st', n') \<and> nand_ready view n' \<and> v_sr1 (nview view n') = 0 \<and>
     io_format n' = io_format n \<and>
     (\<forall>p. p div 64 \<notin> set bs \<or> marked (nview view n) (p div 64) \<longrightarrow> v_pages (nview view n') p = v_pages (nview view n) p) \<and>
     (\<forall>p i. p div 64 \<in> set bs \<longrightarrow> \<not> marked (nview view n) (p div 64) \<longrightarrow> \<not> efails (p div 64) \<longrightarrow> v_pages (nview view n') p i = 0xFF) \<and>
     (bs = [] \<longrightarrow> st' = st) \<and>
     (bs \<noteq> [] \<longrightarrow> (st' = 0 \<longleftrightarrow> \<not> marked (nview view n) (last bs) \<and> \<not> efails (last bs)))"
    using assms
  proof (induction bs arbitrary: n st)
    case Nil
    then show ?case by simp
  next
    case (Cons b bs)
    obtain s1 n1 where e: "erase_block x b n = Some (s1, n1)" "nand_ready view n1" "v_sr1 (nview view n1) = 0"
      "io_format n1 = io_format n"
      "\<And>p. p div 64 \<noteq> b \<or> marked (nview view n) b \<Longrightarrow> v_pages (nview view n1) p = v_pages (nview view n) p"
      "\<And>p i. p div 64 = b \<Longrightarrow> \<not> marked (nview view n) b \<Longrightarrow> \<not> efails b \<Longrightarrow> v_pages (nview view n1) p i = 0xFF"
      "s1 = 0 \<longleftrightarrow> \<not> marked (nview view n) b \<and> \<not> efails b"
      using erase_block_run [OF Cons.prems(1) _ Cons.prems(2), of b] Cons.prems(4) by (metis list.set_intros(1))
    have ds: "distinct bs" "\<forall>b \<in> set bs. b < 1024" using Cons.prems(3,4) by simp_all
    obtain s2 n2 where r: "erase_loop x bs s1 n1 = Some (s2, n2)" "nand_ready view n2" "v_sr1 (nview view n2) = 0"
      "io_format n2 = io_format n1"
      "\<forall>p. p div 64 \<notin> set bs \<or> marked (nview view n1) (p div 64) \<longrightarrow> v_pages (nview view n2) p = v_pages (nview view n1) p"
      "\<forall>p i. p div 64 \<in> set bs \<longrightarrow> \<not> marked (nview view n1) (p div 64) \<longrightarrow> \<not> efails (p div 64) \<longrightarrow> v_pages (nview view n2) p i = 0xFF"
      "bs = [] \<longrightarrow> s2 = s1"
      "bs \<noteq> [] \<longrightarrow> (s2 = 0 \<longleftrightarrow> \<not> marked (nview view n1) (last bs) \<and> \<not> efails (last bs))"
      using Cons.IH [OF e(2,3) ds, of s1] by (elim exE conjE) (rule that)
    have m: "marked (nview view n1) b' = marked (nview view n) b'" if "b' \<noteq> b" for b'
      using e(5) [of "64 * b'"] that by (simp add: marked_def)
    have "erase_loop x (b # bs) st n = Some (s2, n2)" using e(1) r(1) by simp
    moreover have "v_pages (nview view n2) p = v_pages (nview view n) p"
      if "p div 64 \<notin> set (b # bs) \<or> marked (nview view n) (p div 64)" for p
      using that r(5) e(5) [of p] m [of "p div 64"] Cons.prems(3) by (cases "p div 64 = b") auto
    moreover have "v_pages (nview view n2) p i = 0xFF"
      if "p div 64 \<in> set (b # bs)" "\<not> marked (nview view n) (p div 64)" "\<not> efails (p div 64)" for p i
      using that r(5,6) e(6) [of p] m [of "p div 64"] Cons.prems(3) by (cases "p div 64 = b") auto
    moreover have "s2 = 0 \<longleftrightarrow> \<not> marked (nview view n) (last (b # bs)) \<and> \<not> efails (last (b # bs))"
    proof (cases "bs = []")
      case True
      then show ?thesis using r(7) e(7) by simp
    next
      case False
      then have "last bs \<noteq> b" using Cons.prems(3) by auto
      then show ?thesis using r(8) m [of "last bs"] False by simp
    qed
    ultimately show ?case using r(2,3,4) e(4) by (intro exI [of _ s2] exI [of _ n2]) auto
  qed
  then show ?thesis by (elim exE conjE) (rule that, assumption+, (blast | simp)+)
qed

lemma program_pieces_run:
  assumes "nand_ready view n" and "wr_len \<le> 2048" and "wr_len \<le> length buf" and "col + rem = wr_len"
    and "0 < col \<Longrightarrow> v_buf (nview view n) = (\<lambda>i. if i < col then buf ! i else 0xFF)"
  obtains n' where "program_pieces x buf wr_len rem col n = n'" "nand_ready view n'" "same_store view n' n"
    "0 < wr_len \<Longrightarrow> v_buf (nview view n') = (\<lambda>i. if i < wr_len then buf ! i else 0xFF)"
proof -
  have "nand_ready view (program_pieces x buf wr_len rem col n) \<and> same_store view (program_pieces x buf wr_len rem col n) n \<and>
      (0 < wr_len \<longrightarrow> v_buf (nview view (program_pieces x buf wr_len rem col n)) = (\<lambda>i. if i < wr_len then buf ! i else 0xFF))"
    using assms(1,4,5)
  proof (induction rem arbitrary: col n rule: less_induct)
    case (less rem)
    show ?case
    proof (cases "rem = 0")
      case True
      then have "program_pieces x buf wr_len rem col n = n" by (subst program_pieces.simps) simp
      then show ?thesis using less.prems True by (simp add: same_store_def)
    next
      case False
      define l where "l = (if rem > MSS_QSPI_CMDBYTES_LIMIT then MSS_QSPI_CMDBYTES_LIMIT else rem)"
      define op where "op = (if rem = wr_len then LOAD_PROGRAM_DATA_OPCODE else RANDOM_LOAD_PROGRAM_DATA_OPCODE)"
      define bs where "bs = take l (drop col buf)"
      define n1 where "n1 = send_write_enable_command x n"
      define n2 where "n2 = snd (transfer_block x 2 (op # hi_lo col @ bs) l 0 0 n1)"
      have step: "program_pieces x buf wr_len rem col n = program_pieces x buf wr_len (rem - l) (col + l) n2"
        using False by (subst program_pieces.simps)
          (simp add: Let_def l_def [symmetric] op_def [symmetric] bs_def [symmetric] n1_def [symmetric] n2_def [symmetric])
      have l: "0 < l" "l \<le> rem" "length bs = l" "col + l \<le> 2048"
        using False less.prems assms(2,3) by (auto simp: l_def bs_def)
      have n: "hw_format n = MSS_QSPI_NORMAL" "v_busy (nview view n) = 0" using less.prems(1) by (simp_all add: nand_ready_def)
      have n1: "nview view n1 = (nview view n)\<lparr>v_wel := True\<rparr>" "same_format n1 n"
        using write_enable_run [OF n] by (simp_all add: n1_def)
      have ad: "addr16 (of_nat (col div 256)) (of_nat col) = col" using l(4) by simp
      have t: "take (1 + l + 2) (op # hi_lo col @ bs) = op # of_nat (col div 256) # of_nat col # bs"
        using l(3) by (simp add: hi_lo_def)
      have c: "v_busy (view (chip n1)) = 0" "v_wel (view (chip n1))" "col + length bs \<le> 2112"
        "hw_format n1 = MSS_QSPI_NORMAL"
        using n1 n l by (simp_all add: nview_def same_format_def)
      have f2: "same_format n2 n" using n1(2) by (simp add: n2_def transfer_block_def same_format_def case_prod_beta)
      have nth: "bs ! i = buf ! (col + i)" if "i < l" for i using that l(3) by (simp add: bs_def)
      have n2: "nview view n2 = (nview view n1)\<lparr>v_buf := \<lambda>i. if i < col + l then buf ! i else 0xFF\<rparr>"
      proof (cases "rem = wr_len")
        case True
        then have "col = 0" "op = LOAD_PROGRAM_DATA_OPCODE" using less.prems(2) by (simp_all add: op_def)
        then show ?thesis
          using load_data [OF c(1,2), of "of_nat (col div 256)" "of_nat col" bs] c(3,4) l(3) nth
          unfolding n2_def transfer_block_def t ad by (simp add: nview_def case_prod_beta cong: if_cong)
      next
        case False
        then have p: "0 < col" "op = RANDOM_LOAD_PROGRAM_DATA_OPCODE" using less.prems(2) by (auto simp: op_def)
        have "v_buf (view (chip n1)) = (\<lambda>i. if i < col then buf ! i else 0xFF)"
          using less.prems(3) [OF p(1)] n1(1) by (simp add: nview_def)
        then have "(\<lambda>i. if col \<le> i \<and> i < col + l then bs ! (i - col) else v_buf (view (chip n1)) i) =
            (\<lambda>i. if i < col + l then buf ! i else 0xFF)"
          using nth by (auto simp: fun_eq_iff)
        then show ?thesis
          using random_load [OF c(1,2), of "of_nat (col div 256)" "of_nat col" bs] c(3,4) l(3) p(2)
          unfolding n2_def transfer_block_def t ad by (simp add: nview_def case_prod_beta)
      qed
      have r2: "nand_ready view n2" using less.prems(1) n2 n1(1) f2 by (simp add: nand_ready_def same_format_def)
      have s2: "same_store view n2 n" using n2 n1(1) f2 by (simp add: same_store_def same_format_def)
      have "nand_ready view (program_pieces x buf wr_len (rem - l) (col + l) n2) \<and>
          same_store view (program_pieces x buf wr_len (rem - l) (col + l) n2) n2 \<and>
          (0 < wr_len \<longrightarrow> v_buf (nview view (program_pieces x buf wr_len (rem - l) (col + l) n2)) =
             (\<lambda>i. if i < wr_len then buf ! i else 0xFF))"
        by (rule less.IH) (use l less.prems(2) r2 n2 in auto)
      then show ?thesis using step s2 by (simp add: same_store_def)
    qed
  qed
  then show ?thesis using that by blast
qed

lemma program_page_run:
  assumes "nand_ready view n" "v_sr1 (nview view n) = 0" "page < 65536" "0 < wr_len" "wr_len \<le> 2048" "wr_len \<le> length buf"
  obtains st n' where "program_page x buf page wr_len n = Some (st, n')" "nand_ready view n'" "v_sr1 (nview view n') = 0"
    "io_format n' = io_format n"
    "\<And>p. p \<noteq> page \<Longrightarrow> v_pages (nview view n') p = v_pages (nview view n) p"
    "\<And>i. i < 2050 \<Longrightarrow> \<not> pfails page \<Longrightarrow>
       v_pages (nview view n') page i = v_pages (nview view n) page i AND (if i < wr_len then buf ! i else 0xFF)"
    "st = 0 \<longleftrightarrow> \<not> pfails page"
proof -
  obtain n1 where n1: "program_pieces x buf wr_len wr_len 0 n = n1" "nand_ready view n1" "same_store view n1 n"
    "0 < wr_len \<Longrightarrow> v_buf (nview view n1) = (\<lambda>i. if i < wr_len then buf ! i else 0xFF)"
    by (rule program_pieces_run [OF assms(1,5,6), of 0 wr_len]) auto
  have r1: "hw_format n1 = MSS_QSPI_NORMAL" "v_busy (nview view n1) = 0" using n1(2) by (simp_all add: nand_ready_def)
  have s1: "v_sr1 (nview view n1) = 0" using n1(3) assms(2) by (simp add: same_store_def)
  define n2 where "n2 = send_write_enable_command x n1"
  have n2: "nview view n2 = (nview view n1)\<lparr>v_wel := True\<rparr>" "same_format n2 n1"
    using write_enable_run [OF r1] by (simp_all add: n2_def)
  define n3 where "n3 = snd (transfer_block x 0 (PROGRAM_EXECUTE_OPCODE # 0 # hi_lo page) 3 0 0 n2)"
  have pg: "page mod 65536 = page" using assms(3) by simp
  obtain k pg' b' where n3: "k < MAX_SPIN_COUNT" "nview view n3 = (nview view n2)\<lparr>v_pages := (v_pages (nview view n2))(page := pg'),
      v_buf := b', v_pfail := pfails page, v_wel := False, v_busy := k\<rparr>" "same_format n3 n1"
    "\<not> pfails page \<longrightarrow> (\<forall>i < 2050. pg' i = v_pages (nview view n2) page i AND v_buf (nview view n2) i)"
    using program_execute [of "chip n2" "of_nat (page div 256)" "of_nat page"] n2 r1 s1
    unfolding addr16_hi_lo pg
    by (auto simp: n3_def transfer_block_def nview_def same_format_def case_prod_beta hi_lo_def)
  obtain s n' where n': "wait_if_busy_or_wel x n3 = (s, n')" "nview view n' = (nview view n3)\<lparr>v_busy := 0\<rparr>"
    "same_format n' n3" "status_shows s (nview view n')"
    by (rule wait_if_busy_or_wel_run [of n3]) (use n3 r1 in \<open>auto simp: same_format_def\<close>)
  have e: "program_page x buf page wr_len n = Some ((STATUS_REG_3_ECC1 OR STATUS_REG_3_PFAIL) AND s, n')"
    using n'(1) assms(5) n1(1)
    by (simp add: program_page_def require_def Let_def n2_def [symmetric] n3_def [symmetric])
  have st: "(STATUS_REG_3_ECC1 OR STATUS_REG_3_PFAIL) AND s = 0 \<longleftrightarrow> \<not> pfails page"
  proof -
    have "(STATUS_REG_3_ECC1 OR STATUS_REG_3_PFAIL) AND s = (STATUS_REG_3_ECC1 AND s) OR (STATUS_REG_3_PFAIL AND s)"
      by (rule word_ao_dist)
    moreover have "STATUS_REG_3_ECC1 AND s = 0" "STATUS_REG_3_PFAIL AND s = 0 \<longleftrightarrow> \<not> pfails page"
      using n'(4) n'(2) n3(2) by (auto simp: status_shows_def)
    ultimately show ?thesis by (simp only: or.left_neutral)
  qed
  have pgs: "v_pages (nview view n') = (v_pages (nview view n))(page := pg')" "v_sr1 (nview view n') = 0"
    using n'(2) n3(2) n2(1) n1(3) s1 by (simp_all add: same_store_def)
  have f: "nand_ready view n'" "io_format n' = io_format n"
    using n'(2,3) n3(3) n1(2,3) by (auto simp: nand_ready_def same_format_def same_store_def)
  show ?thesis
    by (rule that [OF e f(1) pgs(2) f(2)]) (use pgs(1) st n3(4) n2(1) n1(3,4) assms(4) in \<open>auto simp: same_store_def\<close>)
qed

lemma program_loop_run:
  assumes "nand_ready view n" "v_sr1 (nview view n) = 0" "unat r \<le> length buf" "2048 * unat P + unat r \<le> 2 ^ 27"
  obtains st' n' where "program_loop x buf r P st n = Some (st', n')" "nand_ready view n'" "v_sr1 (nview view n') = 0"
    "io_format n' = io_format n"
    "\<And>p. p < unat P \<or> unat P + (unat r + 2047) div 2048 \<le> p \<Longrightarrow> v_pages (nview view n') p = v_pages (nview view n) p"
    "\<And>p i. i < 2050 \<Longrightarrow> unat P \<le> p \<Longrightarrow> p < unat P + (unat r + 2047) div 2048 \<Longrightarrow> \<not> pfails p \<Longrightarrow>
       v_pages (nview view n') p i = v_pages (nview view n) p i AND
         (if i < 2048 \<and> 2048 * (p - unat P) + i < unat r then buf ! (2048 * (p - unat P) + i) else 0xFF)"
    "r \<noteq> 0 \<Longrightarrow> st' = 0 \<longleftrightarrow> \<not> pfails (unat P + (unat r - 1) div 2048)"
proof -
  have "\<exists>st' n'. program_loop x buf r P st n = Some (st', n') \<and> nand_ready view n' \<and> v_sr1 (nview view n') = 0 \<and>
    io_format n' = io_format n \<and>
    (\<forall>p. p < unat P \<or> unat P + (unat r + 2047) div 2048 \<le> p \<longrightarrow> v_pages (nview view n') p = v_pages (nview view n) p) \<and>
    (\<forall>p i. i < 2050 \<longrightarrow> unat P \<le> p \<longrightarrow> p < unat P + (unat r + 2047) div 2048 \<longrightarrow> \<not> pfails p \<longrightarrow>
       v_pages (nview view n') p i = v_pages (nview view n) p i AND
         (if i < 2048 \<and> 2048 * (p - unat P) + i < unat r then buf ! (2048 * (p - unat P) + i) else 0xFF)) \<and>
    (r \<noteq> 0 \<longrightarrow> (st' = 0 \<longleftrightarrow> \<not> pfails (unat P + (unat r - 1) div 2048)))"
    using assms
  proof (induction "unat r" arbitrary: r P buf st n rule: less_induct)
    case less
    show ?case
    proof (cases "r = 0")
      case True
      then have "program_loop x buf r P st n = Some (st, n)" by (subst program_loop.simps) simp
      then show ?thesis using less.prems True by simp
    next
      case False
      define len where "len = (if r \<ge> 2048 then 2048 else r)"
      have l: "unat len = min 2048 (unat r)" "unat (r - len) = unat r - unat len" "0 < unat len"
        using False by (auto simp: len_def word_le_nat_alt unat_sub_if' unat_gt_0)
      have P: "unat P < 65536" "unat (P + 1) = unat P + 1"
        using less.prems(4) l(1,3) by (auto simp: unat_word_ariths)
      obtain s1 n1 where pp: "program_page x buf (unat P) (unat len) n = Some (s1, n1)" "nand_ready view n1"
        "v_sr1 (nview view n1) = 0" "io_format n1 = io_format n"
        "\<And>p. p \<noteq> unat P \<Longrightarrow> v_pages (nview view n1) p = v_pages (nview view n) p"
        "\<And>i. i < 2050 \<Longrightarrow> \<not> pfails (unat P) \<Longrightarrow>
           v_pages (nview view n1) (unat P) i = v_pages (nview view n) (unat P) i AND (if i < unat len then buf ! i else 0xFF)"
        "s1 = 0 \<longleftrightarrow> \<not> pfails (unat P)"
        by (rule program_page_run [OF less.prems(1,2) P(1) l(3), of buf]) (use l less.prems(3) in auto)
      have step: "program_loop x buf r P st n = program_loop x (drop (unat len) buf) (r - len) (P + 1) s1 n1"
        using False pp(1) by (subst program_loop.simps) (simp add: len_def [symmetric] word_neq_0_conv)
      have sm: "unat (r - len) < unat r" using l by simp
      have bl: "unat (r - len) \<le> length (drop (unat len) buf)" using l less.prems(3) by simp
      have ad: "2048 * unat (P + 1) + unat (r - len) \<le> 2 ^ 27" using l P less.prems(4) by (auto simp: min_def)
      obtain s2 n2 where r: "program_loop x (drop (unat len) buf) (r - len) (P + 1) s1 n1 = Some (s2, n2)"
        "nand_ready view n2" "v_sr1 (nview view n2) = 0" "io_format n2 = io_format n1"
        "\<forall>p. p < unat (P + 1) \<or> unat (P + 1) + (unat (r - len) + 2047) div 2048 \<le> p \<longrightarrow>
           v_pages (nview view n2) p = v_pages (nview view n1) p"
        "\<forall>p i. i < 2050 \<longrightarrow> unat (P + 1) \<le> p \<longrightarrow> p < unat (P + 1) + (unat (r - len) + 2047) div 2048 \<longrightarrow> \<not> pfails p \<longrightarrow>
           v_pages (nview view n2) p i = v_pages (nview view n1) p i AND
           (if i < 2048 \<and> 2048 * (p - unat (P + 1)) + i < unat (r - len)
            then drop (unat len) buf ! (2048 * (p - unat (P + 1)) + i) else 0xFF)"
        "r - len \<noteq> 0 \<longrightarrow> (s2 = 0 \<longleftrightarrow> \<not> pfails (unat (P + 1) + (unat (r - len) - 1) div 2048))"
        using less.hyps [OF sm pp(2,3) bl ad, of s1] by (elim exE conjE) (rule that)
      have cnt: "unat (P + 1) + (unat (r - len) + 2047) div 2048 = unat P + (unat r + 2047) div 2048"
        using l P False by (auto simp: min_def unat_gt_0 div_if [of "unat r + 2047"])
      have out: "v_pages (nview view n2) p = v_pages (nview view n) p"
        if "p < unat P \<or> unat P + (unat r + 2047) div 2048 \<le> p" for p
      proof -
        have "p \<noteq> unat P" using that l by auto
        then show ?thesis using r(5) pp(5) that cnt P(2) by auto
      qed
      have inn: "v_pages (nview view n2) p i = v_pages (nview view n) p i AND
         (if i < 2048 \<and> 2048 * (p - unat P) + i < unat r then buf ! (2048 * (p - unat P) + i) else 0xFF)"
        if h: "i < 2050" "unat P \<le> p" "p < unat P + (unat r + 2047) div 2048" "\<not> pfails p" for p i
      proof (cases "p = unat P")
        case True
        then show ?thesis using r(5) pp(6) [OF h(1)] h l P(2) by auto
      next
        case False
        then have ge: "unat (P + 1) \<le> p" using h(2) P(2) by simp
        have full: "unat len = 2048"
          using False h(2,3) l(1) by (auto simp: min_def)
        have ix: "2048 * (p - unat (P + 1)) + i + 2048 = 2048 * (p - unat P) + i"
          using ge P(2) by auto
        have "v_pages (nview view n2) p i = v_pages (nview view n1) p i AND
           (if i < 2048 \<and> 2048 * (p - unat (P + 1)) + i < unat (r - len)
            then drop (unat len) buf ! (2048 * (p - unat (P + 1)) + i) else 0xFF)"
          using r(6) h ge cnt by simp
        moreover have "2048 * (p - unat (P + 1)) + i < unat (r - len) \<longleftrightarrow> 2048 * (p - unat P) + i < unat r"
          using ix l(2) full by linarith
        moreover have "drop (unat len) buf ! (2048 * (p - unat (P + 1)) + i) = buf ! (2048 * (p - unat P) + i)"
          if "2048 * (p - unat P) + i < unat r"
        proof -
          have "unat len \<le> length buf" using that less.prems(3) full l(1) by linarith
          then have "drop (unat len) buf ! (2048 * (p - unat (P + 1)) + i) = buf ! (unat len + (2048 * (p - unat (P + 1)) + i))"
            by (rule nth_drop)
          moreover have "unat len + (2048 * (p - unat (P + 1)) + i) = 2048 * (p - unat P) + i" using ix full by linarith
          ultimately show ?thesis by (simp only:)
        qed
        ultimately show ?thesis using pp(5) [OF False] by auto
      qed
      have lst: "s2 = 0 \<longleftrightarrow> \<not> pfails (unat P + (unat r - 1) div 2048)"
      proof (cases "r - len = 0")
        case True
        then have "unat r \<le> 2048" using l by (simp add: unat_eq_0 [symmetric] del: unat_eq_0)
        then have "(unat r - 1) div 2048 = 0" using False by (simp add: unat_gt_0)
        moreover have "s2 = s1" using r(1) True by (subst (asm) program_loop.simps) simp
        ultimately show ?thesis using pp(7) by simp
      next
        case nz: False
        then have "0 < unat (r - len)" by (simp only: unat_gt_0 not_False_eq_True)
        then have g: "unat len = 2048" "2048 < unat r" using l(1,2) by (auto simp: min_def split: if_splits)
        then have "unat (P + 1) + (unat (r - len) - 1) div 2048 = unat P + (unat r - 1) div 2048"
          using l P(2) by (simp add: div_if [of "unat r - Suc 0"])
        then show ?thesis using r(7) nz by simp
      qed
      show ?thesis
        using step r(1,2,3,4) pp(4) out inn lst by (intro exI [of _ s2] exI [of _ n2]) simp
    qed
  qed
  then show ?thesis by (elim exE conjE) (rule that, assumption+, (blast | simp)+)
qed

lemma read_loop_run:
  assumes "nand_ready view n" and "2048 * unat P + unat r \<le> 2 ^ 27"
  obtains n' where "read_loop x r P 0 n = (map (flash_byte (nview view n)) [2048 * unat P ..< 2048 * unat P + unat r], 0, n')"
    "nand_ready view n'" "same_store view n' n"
proof -
  have "\<exists>n'. read_loop x r P 0 n = (map (flash_byte (nview view n)) [2048 * unat P ..< 2048 * unat P + unat r], 0, n') \<and>
      nand_ready view n' \<and> same_store view n' n"
    using assms
  proof (induction "unat r" arbitrary: r P n rule: less_induct)
    case less
    have pos: "0 <s r \<longleftrightarrow> r \<noteq> 0"
    proof -
      have "unat r < 2 ^ 31" using less.prems(2) by simp
      then have "0 <s r \<longleftrightarrow> 0 < unat r"
        by (simp only: word_sless_alt sint_eq_unat_small sint_0 of_nat_0_less_iff)
      then show ?thesis by (simp only: unat_gt_0)
    qed
    show ?case
    proof (cases "r = 0")
      case True
      then have "read_loop x r P 0 n = ([], 0, n)" by (subst read_loop.simps) (simp add: pos)
      then show ?thesis using less.prems True by (simp add: same_store_def)
    next
      case False
      define len where "len = (if r > 2048 then 2048 else r)"
      have l: "unat len = min 2048 (unat r)" "unat (r - len) = unat r - unat len" "0 < unat len"
        using False by (auto simp: len_def word_less_nat_alt unat_sub_if' unat_gt_0)
      have P: "unat P < 65536" "unat (P + 1) = unat P + 1"
        using less.prems(2) l(1,3) by (auto simp: unat_word_ariths)
      obtain n1 where rp: "read_page x (unat P) 0 (unat len) n =
          (map (v_pages (nview view n) (unat P mod 65536)) [0..<0 + unat len], 0, n1)"
        "nview view n1 = (nview view n)\<lparr>v_buf := v_pages (nview view n) (unat P mod 65536), v_wel := False\<rparr>"
        "nand_ready view n1" "io_format n1 = io_format n"
        by (rule read_page_run [OF less.prems(1), of 0 "unat len" "unat P"]) (use l in auto)
      have pg: "map (v_pages (nview view n) (unat P mod 65536)) [0..<0 + unat len] =
          map (flash_byte (nview view n)) [2048 * unat P ..< 2048 * unat P + unat len]"
        using P l(1) by (intro nth_equalityI) (auto simp: flash_byte_def)
      have sm: "unat (r - len) < unat r" using l by simp
      have ad: "2048 * unat (P + 1) + unat (r - len) \<le> 2 ^ 27" using l P less.prems(2) by (auto simp: min_def)
      obtain n2 where r: "read_loop x (r - len) (P + 1) 0 n1 =
          (map (flash_byte (nview view n1)) [2048 * unat (P + 1) ..< 2048 * unat (P + 1) + unat (r - len)], 0, n2)"
        "nand_ready view n2" "same_store view n2 n1"
        using less.hyps [OF sm rp(3) ad] by (elim exE conjE) (rule that)
      have fb: "flash_byte (nview view n1) = flash_byte (nview view n)" using rp(2) by (simp add: fun_eq_iff flash_byte_def)
      have app: "map f [2048 * unat P ..< 2048 * unat P + unat len] @
          map f [2048 * unat (P + 1) ..< 2048 * unat (P + 1) + unat (r - len)] =
          map f [2048 * unat P ..< 2048 * unat P + unat r]" for f :: "nat \<Rightarrow> u8"
      proof (cases "unat r \<le> 2048")
        case True
        then show ?thesis using l by simp
      next
        case False
        then have "unat len = 2048" "2048 * unat (P + 1) = 2048 * unat P + unat len"
          "2048 * unat (P + 1) + unat (r - len) = 2048 * unat P + unat r" using l P by auto
        moreover have "[2048 * unat P ..< 2048 * unat P + unat r] =
            [2048 * unat P ..< 2048 * unat P + unat len] @ [2048 * unat P + unat len ..< 2048 * unat P + unat r]"
          using upt_add_eq_append [of "2048 * unat P" "2048 * unat P + unat len" "unat r - unat len"] l(1) by simp
        ultimately show ?thesis by (simp only: map_append)
      qed
      have "read_loop x r P 0 n = (map (flash_byte (nview view n)) [2048 * unat P ..< 2048 * unat P + unat r], 0, n2)"
        using False rp(1) r(1) pos
        by (subst read_loop.simps) (simp only: len_def [symmetric] Let_def pg fb app prod.case if_True if_False refl not_False_eq_True simp_thms)
      then show ?thesis using r(2,3) rp(2,4) by (simp add: same_store_def)
    qed
  qed
  then show ?thesis using that by blast
qed

lemma Flash_init_run:
  assumes "nand_ready view n"
  shows "nand_ready view (Flash_init x f n)" "v_pages (nview view (Flash_init x f n)) = v_pages (nview view n)"
proof -
  define n1 where "n1 = (MSS_QSPI_configure (n\<lparr>io_format := MSS_QSPI_NORMAL\<rparr>))\<lparr>io_format := stored_format f\<rparr>"
  have n1: "hw_format n1 = MSS_QSPI_NORMAL" "io_format n1 = stored_format f" "chip n1 = chip n"
    by (simp_all add: n1_def MSS_QSPI_configure_def)
  define n2 where "n2 = snd (transfer_block x 0 [DEVICE_RESET_OPCODE, 0] 0 0 0 n1)"
  have busy: "v_busy (view (chip n)) = 0" using assms by (simp add: nand_ready_def nview_def)
  obtain sr1 buf where n2: "view (chip n2) = (view (chip n))\<lparr>v_sr1 := sr1, v_buf := buf, v_wel := False\<rparr>"
    using device_reset [OF busy] n1 by (auto simp: n2_def transfer_block_def case_prod_beta)
  have f2: "hw_format n2 = MSS_QSPI_NORMAL" "io_format n2 = stored_format f"
    using n1 by (simp_all add: n2_def transfer_block_def case_prod_beta)
  have b2: "v_busy (view (chip n2)) = 0" using n2 busy by simp
  obtain s c' where c': "x MSS_QSPI_NORMAL [READ_STATUS_REG_OPCODE, STATUS_REG_2] 1 0 (chip n2) = ([s], c')"
    "view c' = view (chip n2)"
    using other_status [OF b2] by (elim exE conjE) (rule that)
  have i: "Flash_init x f n = write_statusreg x STATUS_REG_2 (s OR (STATUS_REG_2_ECC_E OR STATUS_REG_2_BUF)) (n2\<lparr>chip := c'\<rparr>)"
    using c'(1) f2 unfolding Flash_init_def Let_def n1_def [symmetric] n2_def [symmetric]
    by (simp add: read_statusreg_def transfer_block_def)
  have v: "view (chip (Flash_init x f n)) = view (chip n2)"
    using set_other_status [of c'] c'(2) b2 f2
    by (simp add: i write_statusreg_def transfer_block_def case_prod_beta)
  have "hw_format (Flash_init x f n) = MSS_QSPI_NORMAL" "io_format (Flash_init x f n) = stored_format f"
    using f2 by (simp_all add: i write_statusreg_def transfer_block_def case_prod_beta)
  then show "nand_ready view (Flash_init x f n)" "v_pages (nview view (Flash_init x f n)) = v_pages (nview view n)"
    using v n2 busy by (simp_all add: nand_ready_def nview_def stored_format_def)
qed

lemma Flash_read_run:
  assumes "nand_ready view n" "a mod 2048 = 0" "unat a + unat len \<le> 2 ^ 27"
  obtains n' where "Flash_read x a len n = Some (map (flash_byte (nview view n)) [unat a ..< unat a + unat len], 0, n')"
    "nand_ready view n'" "same_store view n' n"
proof -
  have d: "2048 * unat (a div 2048) = unat a"
    by (rule page_aligned [OF assms(2)])
  obtain n' where "read_loop x len (a div 2048) 0 n = (map (flash_byte (nview view n)) [unat a ..< unat a + unat len], 0, n')"
    "nand_ready view n'" "same_store view n' n"
    by (rule read_loop_run [OF assms(1), of "a div 2048" len]) (use assms(3) d in simp_all)
  then show ?thesis using that assms(2) by (simp add: Flash_read_def require_def)
qed

lemma Flash_program_run:
  assumes "nand_ready view n" "a mod 2048 = 0" "unat a + unat len \<le> 2 ^ 27" "unat len \<le> length bs" "len \<noteq> 0"
    and "\<forall>p. unat a div 2048 \<le> p \<and> p \<le> (unat a + unat len - 1) div 2048 \<longrightarrow> \<not> pfails p"
  obtains n' where "Flash_program x bs a len n = Some (0, n')" "nand_ready view n'" "v_sr1 (nview view n') = 0"
    "io_format n' = io_format n"
    "flash_byte (nview view n') = (\<lambda>j. if unat a \<le> j \<and> j < unat a + unat len
       then flash_byte (nview view n) j AND bs ! (j - unat a) else flash_byte (nview view n) j)"
    "marked (nview view n') = marked (nview view n)"
proof -
  define P where "P = unat (a div 2048)"
  have d: "2048 * P = unat a"
    unfolding P_def by (rule page_aligned [OF assms(2)])
  have L: "0 < unat len" using assms(5) by (simp add: unat_gt_0)
  note w = disable_write_protect_run [OF assms(1)]
  obtain st n' where r: "program_loop x bs len (a div 2048) 0xFF (disable_write_protect x n) = Some (st, n')"
    "nand_ready view n'" "v_sr1 (nview view n') = 0" "io_format n' = io_format (disable_write_protect x n)"
    "\<And>p. p < unat (a div 2048) \<or> unat (a div 2048) + (unat len + 2047) div 2048 \<le> p \<Longrightarrow>
       v_pages (nview view n') p = v_pages (nview view (disable_write_protect x n)) p"
    "\<And>p i. i < 2050 \<Longrightarrow> unat (a div 2048) \<le> p \<Longrightarrow> p < unat (a div 2048) + (unat len + 2047) div 2048 \<Longrightarrow> \<not> pfails p \<Longrightarrow>
       v_pages (nview view n') p i = v_pages (nview view (disable_write_protect x n)) p i AND
         (if i < 2048 \<and> 2048 * (p - unat (a div 2048)) + i < unat len then bs ! (2048 * (p - unat (a div 2048)) + i) else 0xFF)"
    "len \<noteq> 0 \<Longrightarrow> st = 0 \<longleftrightarrow> \<not> pfails (unat (a div 2048) + (unat len - 1) div 2048)"
    by (rule program_loop_run [OF w(2), where r = len and buf = bs and P = "a div 2048" and st = "0xFF"]) (use w(1) assms(3,4) d in \<open>simp_all add: P_def\<close>)
  have pv: "v_pages (nview view (disable_write_protect x n)) = v_pages (nview view n)" using w(1) by simp
  have last: "(unat a + unat len - 1) div 2048 = P + (unat len - 1) div 2048"
  proof -
    have "unat a + unat len - 1 = P * 2048 + (unat len - 1)" using d L by simp
    then show ?thesis by simp
  qed
  have lst: "(unat len - 1) div 2048 < (unat len + 2047) div 2048" using L by (simp add: div_less_iff_less_mult) 
  have first: "unat a div 2048 = P" using d by simp
  have in_range: "\<not> pfails p" if "P \<le> p" "p < P + (unat len + 2047) div 2048" for p
  proof -
    have "(unat len + 2047) div 2048 = Suc ((unat len - 1) div 2048)" using L by (cases "unat len") auto
    then show ?thesis using assms(6) that last first by simp
  qed
  have st: "st = 0" using r(7) assms(5) in_range [of "P + (unat len - 1) div 2048"] lst by (auto simp: P_def)
  have byte: "flash_byte (nview view n') j = (if unat a \<le> j \<and> j < unat a + unat len
       then flash_byte (nview view n) j AND bs ! (j - unat a) else flash_byte (nview view n) j)" for j
  proof (cases "P \<le> j div 2048 \<and> j div 2048 < P + (unat len + 2047) div 2048")
    case True
    have "2048 * (j div 2048 - P) + j mod 2048 = j - unat a"
      using True d mult_div_mod_eq [of 2048 j] by (simp add: diff_mult_distrib2)
    moreover have "unat a \<le> j" using True d by (metis mult.commute div_times_less_eq_dividend mult_le_mono1 order_trans)
    ultimately show ?thesis
      using r(6) [of "j mod 2048" "j div 2048"] True in_range [of "j div 2048"] pv
      by (auto simp: flash_byte_def P_def [symmetric])
  next
    case False
    then have "v_pages (nview view n') (j div 2048) = v_pages (nview view n) (j div 2048)"
      using r(5) [of "j div 2048"] pv by (auto simp: P_def)
    moreover have "\<not> (unat a \<le> j \<and> j < unat a + unat len)"
    proof
      assume h: "unat a \<le> j \<and> j < unat a + unat len"
      then have "P \<le> j div 2048" using d by (metis div_le_mono first)
      moreover have "j div 2048 \<le> (unat a + unat len - 1) div 2048" using h by (intro div_le_mono) linarith
      ultimately show False using False last lst by simp
    qed
    ultimately show ?thesis by (auto simp: flash_byte_def)
  qed
  have mk: "v_pages (nview view n') p i = v_pages (nview view n) p i" if "i = 2048 \<or> i = 2049" for p i
  proof (cases "P \<le> p \<and> p < P + (unat len + 2047) div 2048")
    case True
    then have "v_pages (nview view n') p i = v_pages (nview view n) p i AND 0xFF"
      using r(6) [of i p] in_range [of p] pv that by (auto simp: P_def)
    then show ?thesis by simp
  next
    case False
    then show ?thesis using r(5) [of p] pv by (auto simp: P_def)
  qed
  show ?thesis
    by (rule that [of n']) (use r(1-4) w(3) st byte mk in \<open>auto simp: Flash_program_def marked_def fun_eq_iff\<close>)
qed

end

definition broken_block :: "(nat \<Rightarrow> bool) \<Rightarrow> (nat \<Rightarrow> bool) \<Rightarrow> nat \<Rightarrow> bool" where
  "broken_block efails pfails b \<longleftrightarrow> efails b \<or> (\<exists>k < 64. pfails (64 * b + k))"

lemma not_broken_page:
  assumes "\<not> broken_block efails pfails (p div 64)"
  shows "\<not> pfails p"
proof -
  have "64 * (p div 64) + p mod 64 = p" by (rule mult_div_mod_eq)
  then show ?thesis using assms unfolding broken_block_def by (metis mod_less_divisor zero_less_numeral)
qed

sublocale w25n01gv \<subseteq> nand_flash "winbond_driver x"
  "nand_ready view" "\<lambda>n. flash_byte (nview view n)" "\<lambda>n. marked (nview view n)" "broken_block efails pfails"
proof
  fix n :: "'c Nand" and a len :: u32
  assume h: "nand_ready view n" "a mod 2048 = 0" "unat a + unat len \<le> 2 ^ 27"
  obtain n' where "Flash_read x a len n = Some (map (flash_byte (nview view n)) [unat a ..< unat a + unat len], 0, n')"
    "nand_ready view n'" "same_store view n' n"
    by (rule Flash_read_run [OF h])
  then show "\<exists>s'. fd_read (winbond_driver x) a len n = Some (map (flash_byte (nview view n)) [unat a ..< unat a + unat len], 0, s') \<and>
    nand_ready view s' \<and> flash_byte (nview view s') = flash_byte (nview view n) \<and> marked (nview view s') = marked (nview view n)"
    by (auto simp: winbond_driver_def same_store_def flash_byte_def marked_def fun_eq_iff)
next
  fix n :: "'c Nand" and b :: nat
  assume h: "nand_ready view n" "b < 1024" "\<not> marked (nview view n) b" "\<not> broken_block efails pfails b"
  obtain st n' where r: "Flash_erase_block x b n = Some (st, n')" "nand_ready view n'" "v_sr1 (nview view n') = 0"
    "io_format n' = io_format n"
    "\<forall>p. p div 64 \<noteq> b \<or> marked (nview view n) b \<longrightarrow> v_pages (nview view n') p = v_pages (nview view n) p"
    "\<forall>p i. p div 64 = b \<longrightarrow> \<not> marked (nview view n) b \<longrightarrow> \<not> efails b \<longrightarrow> v_pages (nview view n') p i = 0xFF"
    "st = 0 \<longleftrightarrow> \<not> marked (nview view n) b \<and> \<not> efails b"
    using Flash_erase_block_ex [OF h(1,2)] by (elim exE conjE) (rule that)
  have e: "\<not> efails b" using h(4) by (simp add: broken_block_def)
  have "flash_byte (nview view n') = (\<lambda>j. if j div 131072 = b then 0xFF else flash_byte (nview view n) j)"
    using r(5,6) h(3) e by (auto simp: flash_byte_def fun_eq_iff div_mult2_eq [of _ 2048 64, simplified])
  moreover have "marked (nview view n') c = marked (nview view n) c" for c
    using r(5,6) h(3) e by (cases "c = b") (auto simp: marked_def)
  ultimately show "\<exists>s'. fd_erase_block (winbond_driver x) b n = Some (0, s') \<and> nand_ready view s' \<and>
    flash_byte (nview view s') = (\<lambda>j. if j div 131072 = b then 0xFF else flash_byte (nview view n) j) \<and>
    marked (nview view s') = marked (nview view n)"
    using r(1,2,7) h(3) e by (auto simp: winbond_driver_def fun_eq_iff)
next
  fix n :: "'c Nand" and b :: nat
  assume h: "nand_ready view n" "b < 1024" "marked (nview view n) b"
  obtain st n' where r: "Flash_erase_block x b n = Some (st, n')" "nand_ready view n'" "v_sr1 (nview view n') = 0"
    "io_format n' = io_format n"
    "\<forall>p. p div 64 \<noteq> b \<or> marked (nview view n) b \<longrightarrow> v_pages (nview view n') p = v_pages (nview view n) p"
    "\<forall>p i. p div 64 = b \<longrightarrow> \<not> marked (nview view n) b \<longrightarrow> \<not> efails b \<longrightarrow> v_pages (nview view n') p i = 0xFF"
    "st = 0 \<longleftrightarrow> \<not> marked (nview view n) b \<and> \<not> efails b"
    using Flash_erase_block_ex [OF h(1,2)] by (elim exE conjE) (rule that)
  have "v_pages (nview view n') = v_pages (nview view n)" by (rule ext) (use r(5) h(3) in simp)
  then have "flash_byte (nview view n') = flash_byte (nview view n)" "marked (nview view n') = marked (nview view n)"
    by (simp_all add: flash_byte_def marked_def fun_eq_iff)
  then show "\<exists>st s'. fd_erase_block (winbond_driver x) b n = Some (st, s') \<and> st \<noteq> 0 \<and> nand_ready view s' \<and>
    flash_byte (nview view s') = flash_byte (nview view n) \<and> marked (nview view s') = marked (nview view n)"
    using r(1,2,7) h(3) by (intro exI [of _ st] exI [of _ n']) (simp add: winbond_driver_def)
next
  fix n :: "'c Nand" and a len :: u32 and bs :: "u8 list"
  assume h: "nand_ready view n" "a mod 2048 = 0" "unat a + unat len \<le> 2 ^ 27" "unat len \<le> length bs" "len \<noteq> 0"
    "\<forall>b. unat a div 131072 \<le> b \<and> b \<le> (unat a + unat len - 1) div 131072 \<longrightarrow> \<not> broken_block efails pfails b"
  have d: "y div 131072 = y div 2048 div 64" for y :: nat using div_mult2_eq [of y 2048 64] by simp
  have np: "\<forall>p. unat a div 2048 \<le> p \<and> p \<le> (unat a + unat len - 1) div 2048 \<longrightarrow> \<not> pfails p"
  proof (intro allI impI)
    fix p assume p: "unat a div 2048 \<le> p \<and> p \<le> (unat a + unat len - 1) div 2048"
    have "unat a div 2048 div 64 \<le> p div 64" "p div 64 \<le> (unat a + unat len - 1) div 2048 div 64"
      using p by (simp_all only: div_le_mono)
    then show "\<not> pfails p" using h(6) [unfolded d] by (intro not_broken_page [of efails pfails p]) blast
  qed
  obtain n' where "Flash_program x bs a len n = Some (0, n')" "nand_ready view n'"
    "marked (nview view n') = marked (nview view n)"
    "flash_byte (nview view n') = (\<lambda>j. if unat a \<le> j \<and> j < unat a + unat len
       then flash_byte (nview view n) j AND bs ! (j - unat a) else flash_byte (nview view n) j)"
    by (rule Flash_program_run [OF h(1-5) np]) (rule that)
  then show "\<exists>s'. fd_program (winbond_driver x) bs a len n = Some (0, s') \<and> nand_ready view s' \<and>
    marked (nview view s') = marked (nview view n) \<and> flash_byte (nview view s') = (\<lambda>j. if unat a \<le> j \<and> j < unat a + unat len
       then flash_byte (nview view n) j AND bs ! (j - unat a) else flash_byte (nview view n) j)"
    by (intro exI [of _ n'] conjI) (simp add: winbond_driver_def)
next
  fix n :: "'c Nand"
  assume h: "nand_ready view n"
  obtain n' where "Flash_scan_for_bad_blocks x n = (filter (marked (nview view n)) [0..<1024], n')"
    "nand_ready view n'" "same_store view n' n"
    by (rule scan_run [OF h])
  then show "\<exists>s'. fd_scan (winbond_driver x) n = (filter (marked (nview view n)) [0..<1024], s') \<and> nand_ready view s' \<and>
    flash_byte (nview view s') = flash_byte (nview view n) \<and> marked (nview view s') = marked (nview view n)"
    by (auto simp: winbond_driver_def same_store_def flash_byte_def marked_def fun_eq_iff)
next
  fix n :: "'c Nand" and f :: mss_qspi_io_format
  assume h: "nand_ready view n"
  have "nand_ready view (Flash_init x f n)" "v_pages (nview view (Flash_init x f n)) = v_pages (nview view n)"
    using Flash_init_run [OF h] by simp_all
  then show "nand_ready view (fd_init (winbond_driver x) f n) \<and>
    flash_byte (nview view (fd_init (winbond_driver x) f n)) = flash_byte (nview view n) \<and>
    marked (nview view (fd_init (winbond_driver x) f n)) = marked (nview view n)"
    by (simp add: winbond_driver_def flash_byte_def marked_def fun_eq_iff)
next
  fix n :: "'c Nand"
  assume h: "nand_ready view n"
  then obtain c' where "x MSS_QSPI_NORMAL [READ_ID_OPCODE] 3 8 (chip n) = ([0xEF, 0xAA, 0x21], c')" "view c' = view (chip n)"
    using read_id [of "chip n"] by (auto simp: nand_ready_def nview_def)
  then show "\<exists>s'. fd_readid (winbond_driver x) n = ([0xEF, 0xAA, 0x21], s') \<and> nand_ready view s' \<and>
    flash_byte (nview view s') = flash_byte (nview view n) \<and> marked (nview view s') = marked (nview view n)"
    using h by (simp add: winbond_driver_def Flash_readid_def transfer_block_def nand_ready_def nview_def)
qed

context w25n01gv
begin

lemmas nand_store_block = store_block [unfolded winbond_driver_def Flash_Driver.simps]

end

section \<open>A chip that meets the data sheet\<close>

definition w25_status :: "Chip_View \<Rightarrow> u8" where
  "w25_status c = (if v_busy c \<noteq> 0 then 1 else 0) OR (if v_wel c then 2 else 0) OR (if v_efail c then 4 else 0) OR
     (if v_pfail c then 8 else 0)"

definition w25_xfer :: "(nat \<Rightarrow> bool) \<Rightarrow> (nat \<Rightarrow> bool) \<Rightarrow> Chip_View qspi_transfer" where
  "w25_xfer efails pfails f tx n dummy c =
     (let op = tx ! 0; col = addr16 (tx ! 1) (tx ! 2); pg = addr16 (tx ! 2) (tx ! 3); bs = drop 3 tx in
      if op = READ_STATUS_REG_OPCODE then
        (if tx ! 1 = STATUS_REG_3 then ([w25_status c], c\<lparr>v_busy := v_busy c - 1\<rparr>)
         else if tx ! 1 = STATUS_REG_1 then ([v_sr1 c], c) else ([0], c))
      else if op = WRITE_STATUS_REG_OPCODE then ([], if tx ! 1 = STATUS_REG_1 then c\<lparr>v_sr1 := tx ! 2\<rparr> else c)
      else if op = WRITE_ENABLE_OPCODE then ([], c\<lparr>v_wel := True\<rparr>)
      else if op = PAGE_DATA_READ_OPCODE then ([], c\<lparr>v_buf := v_pages c pg, v_wel := False, v_busy := 2\<rparr>)
      else if op = BLOCK_ERASE_OPCODE then
        ([], c\<lparr>v_pages := \<lambda>p. if p div 64 = pg div 64 \<and> \<not> efails (pg div 64) then (\<lambda>i. 0xFF) else v_pages c p,
               v_efail := efails (pg div 64), v_wel := False, v_busy := 5\<rparr>)
      else if op = LOAD_PROGRAM_DATA_OPCODE \<or> op = RANDOM_LOAD_PROGRAM_DATA_OPCODE then
        ([], c\<lparr>v_buf := \<lambda>i. if col \<le> i \<and> i < col + length bs then bs ! (i - col)
                           else if op = LOAD_PROGRAM_DATA_OPCODE then 0xFF else v_buf c i\<rparr>)
      else if op = PROGRAM_EXECUTE_OPCODE then
        ([], c\<lparr>v_pages := (v_pages c)(pg := \<lambda>i. if pfails pg then v_pages c pg i else v_pages c pg i AND v_buf c i),
               v_pfail := pfails pg, v_wel := False, v_busy := 4\<rparr>)
      else if op = FAST_READ_OPCODE \<or> op = FAST_READ_DUAL_OUTPUT_OPCODE \<or> op = FAST_READ_QUAD_IO_OPCODE then
        (map (v_buf c) [col ..< col + n], c)
      else if op = READ_ID_OPCODE then ([0xEF, 0xAA, 0x21], c)
      else if op = DEVICE_RESET_OPCODE then ([], c\<lparr>v_wel := False\<rparr>)
      else (replicate n 0, c))"

lemma w25_status_shows: "v_busy c = 0 \<Longrightarrow> status_shows (w25_status c) c"
  by (cases "v_wel c"; cases "v_efail c"; cases "v_pfail c") (simp_all add: status_shows_def w25_status_def)

lemma w25_status_busy: "STATUS_REG_3_BUSY AND w25_status c \<noteq> 0 \<longleftrightarrow> v_busy c \<noteq> 0"
  by (cases "v_wel c"; cases "v_efail c"; cases "v_pfail c"; cases "v_busy c = 0") (simp_all add: w25_status_def)

interpretation w25: w25n01gv "w25_xfer efails pfails" id efails pfails
proof
  fix c :: Chip_View
  show "\<exists>s c'. w25_xfer efails pfails MSS_QSPI_NORMAL [READ_STATUS_REG_OPCODE, STATUS_REG_3] 1 0 c = ([s], c') \<and>
      id c' = (id c)\<lparr>v_busy := v_busy (id c) - 1\<rparr> \<and>
      (STATUS_REG_3_BUSY AND s \<noteq> 0 \<longleftrightarrow> v_busy (id c) \<noteq> 0) \<and> (v_busy (id c) = 0 \<longrightarrow> status_shows s (id c))"
    using w25_status_shows [of c] w25_status_busy [of c] by (simp add: w25_xfer_def)
next
  fix c :: Chip_View and hi lo :: u8
  show "\<exists>k < MAX_SPIN_COUNT. id (snd (w25_xfer efails pfails MSS_QSPI_NORMAL [PAGE_DATA_READ_OPCODE, 0, hi, lo] 0 0 c)) =
        (id c)\<lparr>v_buf := v_pages (id c) (addr16 hi lo), v_wel := False, v_busy := k\<rparr>"
    by (intro exI [of _ 2]) (simp add: w25_xfer_def)
next
  fix c :: Chip_View and f opcode and dummy n :: nat and hi lo :: u8
  assume "(f, opcode, dummy) \<in> read_modes"
  then show "\<exists>c'. w25_xfer efails pfails f [opcode, hi, lo] n dummy c =
      (map (v_buf (id c)) [addr16 hi lo ..< addr16 hi lo + n], c') \<and> id c' = id c"
    by (auto simp: read_modes_def w25_xfer_def Let_def)
next
  fix c :: Chip_View and hi lo :: u8
  show "\<exists>k < MAX_SPIN_COUNT. \<exists>pages buf. id (snd (w25_xfer efails pfails MSS_QSPI_NORMAL [BLOCK_ERASE_OPCODE, 0, hi, lo] 0 0 c)) =
        (id c)\<lparr>v_pages := pages, v_buf := buf, v_efail := efails (addr16 hi lo div 64), v_wel := False, v_busy := k\<rparr> \<and>
        (\<forall>p. p div 64 \<noteq> addr16 hi lo div 64 \<longrightarrow> pages p = v_pages (id c) p) \<and>
        (\<not> efails (addr16 hi lo div 64) \<longrightarrow> (\<forall>p i. p div 64 = addr16 hi lo div 64 \<longrightarrow> pages p i = 0xFF))"
    by (intro exI [of _ 5] conjI exI [of _ "\<lambda>p. if p div 64 = addr16 hi lo div 64 \<and> \<not> efails (addr16 hi lo div 64)
          then (\<lambda>i. 0xFF) else v_pages c p"] exI [of _ "v_buf c"]) (simp_all add: w25_xfer_def Let_def)
next
  fix c :: Chip_View and hi lo :: u8
  show "\<exists>k < MAX_SPIN_COUNT. \<exists>page buf. id (snd (w25_xfer efails pfails MSS_QSPI_NORMAL [PROGRAM_EXECUTE_OPCODE, 0, hi, lo] 0 0 c)) =
        (id c)\<lparr>v_pages := (v_pages (id c))(addr16 hi lo := page), v_buf := buf, v_pfail := pfails (addr16 hi lo),
          v_wel := False, v_busy := k\<rparr> \<and>
        (\<not> pfails (addr16 hi lo) \<longrightarrow> (\<forall>i < 2050. page i = v_pages (id c) (addr16 hi lo) i AND v_buf (id c) i))"
    by (intro exI [of _ 4] conjI exI [of _ "\<lambda>i. if pfails (addr16 hi lo) then v_pages c (addr16 hi lo) i
          else v_pages c (addr16 hi lo) i AND v_buf c i"] exI [of _ "v_buf c"]) (simp_all add: w25_xfer_def Let_def)
next
  fix c :: Chip_View
  show "\<exists>sr1 buf. id (snd (w25_xfer efails pfails MSS_QSPI_NORMAL [DEVICE_RESET_OPCODE] 0 0 c)) =
      (id c)\<lparr>v_sr1 := sr1, v_buf := buf, v_wel := False\<rparr>"
    by (intro exI [of _ "v_sr1 c"] exI [of _ "v_buf c"]) (simp add: w25_xfer_def)
qed (simp_all add: w25_xfer_def Let_def cong: if_cong)

section \<open>Properties\<close>

text \<open>
  C14. What is stored comes back: on a chip that follows its data sheet, erasing a good block and
  programming it whole reports success, reading it returns the bytes that were programmed, and
  neither the contents of any other part of the flash nor the bad blocks a scan finds change.
\<close>

theorem nand_block_roundtrip:
  assumes "w25n01gv x view efails pfails" and "nand_ready view n" and "b < 1024"
    and "\<not> marked (nview view n) b" and "\<not> broken_block efails pfails b" and "length bs = 131072"
  shows "\<exists>n1 n2. Flash_erase_block x b n = Some (0, n1) \<and>
    Flash_program x bs (of_nat (131072 * b)) 131072 n1 = Some (0, n2) \<and> nand_ready view n2 \<and>
    (\<exists>n3. Flash_read x (of_nat (131072 * b)) 131072 n2 = Some (bs, 0, n3)) \<and>
    (\<forall>a len. a mod 2048 = 0 \<longrightarrow> unat a + unat len \<le> 2 ^ 27 \<longrightarrow>
       unat a + unat len \<le> 131072 * b \<or> 131072 * b + 131072 \<le> unat a \<longrightarrow>
       (\<exists>xs n3 n4. Flash_read x a len n = Some (xs, 0, n3) \<and> Flash_read x a len n2 = Some (xs, 0, n4))) \<and>
    fst (Flash_scan_for_bad_blocks x n2) = fst (Flash_scan_for_bad_blocks x n)"
  by (rule w25n01gv.nand_store_block [OF assms])


definition w25_fresh :: Chip_View where
  "w25_fresh = \<lparr>v_pages = (\<lambda>p i. if p div 64 = 1 then 0 else 0xFF), v_buf = (\<lambda>_. 0), v_sr1 = 0x7C, v_wel = False,
     v_efail = False, v_pfail = False, v_busy = 0\<rparr>"

definition w25_nand :: "Chip_View Nand" where
  "w25_nand = \<lparr>io_format = MSS_QSPI_QUAD_EX_RW, hw_format = MSS_QSPI_NORMAL, chip = w25_fresh\<rparr>"

lemma w25_nand_ready [simp]: "nand_ready id w25_nand"
  by (simp add: nand_ready_def nview_def w25_nand_def w25_fresh_def)

lemma w25_nand_marked: "marked (nview id w25_nand) b \<longleftrightarrow> b = 1"
  by (auto simp: marked_def nview_def w25_nand_def w25_fresh_def)

theorem nand_block_roundtrip_witness:
  "\<exists>n1 n2 n3. Flash_erase_block (w25_xfer (\<lambda>_. False) (\<lambda>_. False)) 2 w25_nand = Some (0, n1) \<and>
    Flash_program (w25_xfer (\<lambda>_. False) (\<lambda>_. False)) (replicate 131072 0x5A) 262144 131072 n1 = Some (0, n2) \<and>
    Flash_read (w25_xfer (\<lambda>_. False) (\<lambda>_. False)) 262144 131072 n2 = Some (replicate 131072 0x5A, 0, n3)"
proof -
  have h: "\<not> marked (nview id w25_nand) 2" "\<not> broken_block (\<lambda>_. False) (\<lambda>_. False) 2"
    "length (replicate 131072 (0x5A :: u8)) = 131072"
    by (simp_all add: w25_nand_marked broken_block_def del: replicate.simps)
  show ?thesis
    using nand_block_roundtrip [OF w25.w25n01gv_axioms w25_nand_ready _ h] by auto
qed

text \<open>
  Erasing the whole chip erases every good block whose erasing works, and keeps the contents
  and the markers of the bad ones: a scan finds the same bad blocks before and after. The status it
  returns is the one of the last block alone.
\<close>

theorem chip_erase_keeps_bad_blocks:
  assumes "w25n01gv x view efails pfails" and "nand_ready view n"
    and "\<forall>b < 1024. efails b \<longrightarrow> marked (nview view n) b"
  shows "\<exists>st n'. Flash_erase x n = Some (st, n') \<and> nand_ready view n' \<and>
    (\<forall>j < 2 ^ 27. flash_byte (nview view n') j =
       (if marked (nview view n) (j div 131072) then flash_byte (nview view n) j else 0xFF)) \<and>
    fst (Flash_scan_for_bad_blocks x n') = fst (Flash_scan_for_bad_blocks x n) \<and>
    (st = 0 \<longleftrightarrow> \<not> marked (nview view n) 1023)"
proof -
  note w = w25n01gv.disable_write_protect_run [OF assms(1,2)]
  let ?m = "disable_write_protect x n"
  obtain st n' where r: "erase_loop x [0..<1024] 0xFF ?m = Some (st, n')" "nand_ready view n'" "v_sr1 (nview view n') = 0"
    "io_format n' = io_format ?m"
    "\<And>p. p div 64 \<notin> set [0..<1024] \<or> marked (nview view ?m) (p div 64) \<Longrightarrow> v_pages (nview view n') p = v_pages (nview view ?m) p"
    "\<And>p i. p div 64 \<in> set [0..<1024] \<Longrightarrow> \<not> marked (nview view ?m) (p div 64) \<Longrightarrow> \<not> efails (p div 64) \<Longrightarrow> v_pages (nview view n') p i = 0xFF"
    "[0..<1024::nat] \<noteq> [] \<Longrightarrow> st = 0 \<longleftrightarrow> \<not> marked (nview view ?m) (last [0..<1024]) \<and> \<not> efails (last [0..<1024])"
    by (rule w25n01gv.erase_loop_run [OF assms(1) w(2), of "[0..<1024]" "0xFF"]) (use w(1) in auto)
  have m: "marked (nview view ?m) = marked (nview view n)" "v_pages (nview view ?m) = v_pages (nview view n)"
    using w(1) by (simp_all add: marked_def fun_eq_iff)
  have byte: "flash_byte (nview view n') j =
      (if marked (nview view n) (j div 131072) then flash_byte (nview view n) j else 0xFF)" if "j < 2 ^ 27" for j
  proof -
    have d: "j div 2048 div 64 = j div 131072" using div_mult2_eq [of j 2048 64] by simp
    have "j div 131072 < 1024" using that by (simp add: div_less_iff_less_mult)
    then show ?thesis
      using r(5,6) [of "j div 2048"] assms(3) [rule_format, of "j div 131072"] unfolding m d by (auto simp: flash_byte_def)
  qed
  have mk: "marked (nview view n') b = marked (nview view n) b" if "b < 1024" for b
    using r(5,6) [of "64 * b"] that assms(3) [rule_format, OF that] unfolding m by (auto simp: marked_def)
  have "fst (Flash_scan_for_bad_blocks x n') = fst (Flash_scan_for_bad_blocks x n)"
    by (rule w25n01gv.scan_run [OF assms(1,2)], rule w25n01gv.scan_run [OF assms(1) r(2)]) (auto intro: filter_cong simp: mk)
  moreover have "st = 0 \<longleftrightarrow> \<not> marked (nview view n) 1023"
    using r(7) assms(3) [rule_format, of 1023] unfolding m by auto
  ultimately show ?thesis using r(1,2) byte by (auto simp: Flash_erase_def)
qed


theorem chip_erase_keeps_bad_blocks_witness:
  "\<exists>st n'. Flash_erase (w25_xfer (\<lambda>b. b = 1) (\<lambda>_. False)) w25_nand = Some (st, n') \<and> st = 0 \<and>
    flash_byte (nview id n') 0 = 0xFF \<and> flash_byte (nview id n') 131072 = 0"
proof -
  have f: "flash_byte (nview id w25_nand) 131072 = 0"
    by (simp add: flash_byte_def nview_def w25_nand_def w25_fresh_def)
  have e: "\<forall>b < 1024. b = 1 \<longrightarrow> marked (nview id w25_nand) b" by (simp add: w25_nand_marked)
  obtain st n' where r: "Flash_erase (w25_xfer (\<lambda>b. b = 1) (\<lambda>_. False)) w25_nand = Some (st, n')"
    "\<forall>j < 2 ^ 27. flash_byte (nview id n') j =
       (if marked (nview id w25_nand) (j div 131072) then flash_byte (nview id w25_nand) j else 0xFF)"
    "st = 0 \<longleftrightarrow> \<not> marked (nview id w25_nand) 1023"
    using chip_erase_keeps_bad_blocks [OF w25.w25n01gv_axioms [of "\<lambda>b. b = 1" "\<lambda>_. False"] w25_nand_ready e] by (elim exE conjE) (rule that)
  have "st = 0" using r(3) by (simp add: w25_nand_marked)
  moreover have "flash_byte (nview id n') 0 = 0xFF" using r(2) [rule_format, of 0] by (simp add: w25_nand_marked)
  moreover have "flash_byte (nview id n') 131072 = 0" using r(2) [rule_format, of 131072] f by (simp add: w25_nand_marked)
  ultimately show ?thesis using r(1) by blast
qed

lemma read_page_status: "fst (snd (read_page x page column read_len n)) = 0"
  by (simp add: read_page_def Let_def case_prod_beta)

lemma read_loop_status: "fst (snd (read_loop x r P 0 n)) = 0"
proof (induction "unat r" arbitrary: r P n rule: less_induct)
  case less
  show ?case
  proof (cases "0 <s r")
    case False
    then show ?thesis by (subst read_loop.simps) simp
  next
    case True
    define len where "len = (if r > 2048 then 2048 else r)"
    obtain bs res n1 where p: "read_page x (unat P) 0 (unat len) n = (bs, res, n1)"
      by (cases "read_page x (unat P) 0 (unat len) n")
    have "res = 0" using read_page_status [of x "unat P" 0 "unat len" n] p by simp
    moreover have "unat (r - len) < unat r" using signed_piece_less(1) [OF True] by (simp add: len_def)
    ultimately show ?thesis
      using less [of "r - len" "P + 1" n1] True p
      by (subst read_loop.simps) (simp add: len_def [symmetric] Let_def case_prod_beta)
  qed
qed

text \<open>
  A read never reports an error, whatever the chip answers: the two bits of the error
  correction's verdict are masked with each other, so that the status is always zero and the
  loop over the pages never stops early.
\<close>

theorem read_never_reports:
  "Flash_read x a len n = Some (bs, st, n') \<Longrightarrow> st = 0"
  using read_loop_status [of x len "a div 2048" n] by (auto simp: Flash_read_def require_def split: if_splits)


text \<open>A chip that answers everything with an error that could not be corrected.\<close>

definition ecc_failure :: "unit qspi_transfer" where
  "ecc_failure f tx n dummy c = (replicate n (STATUS_REG_3_ECC1 OR STATUS_REG_3_ECC0), c)"

theorem read_never_reports_witness:
  "\<exists>bs n'. Flash_read ecc_failure 0 4 \<lparr>io_format = MSS_QSPI_NORMAL, hw_format = MSS_QSPI_NORMAL, chip = ()\<rparr> = Some (bs, 0, n') \<and>
    fst (read_statusreg ecc_failure STATUS_REG_3 n') AND STATUS_REG_3_ECC1 \<noteq> 0"
proof -
  let ?n = "\<lparr>io_format = MSS_QSPI_NORMAL, hw_format = MSS_QSPI_NORMAL, chip = ()\<rparr>"
  obtain bs st n' where r: "Flash_read ecc_failure 0 4 ?n = Some (bs, st, n')"
    by (cases "read_loop ecc_failure 4 0 0 ?n") (simp add: Flash_read_def require_def)
  have "st = 0" by (rule read_never_reports [OF r])
  moreover have "fst (read_statusreg ecc_failure STATUS_REG_3 n') AND STATUS_REG_3_ECC1 \<noteq> 0"
    by (simp add: read_statusreg_def transfer_block_def ecc_failure_def)
  ultimately show ?thesis using r by blast
qed

end
