(* ===== verification/Qspi.thy ===== *)
theory Qspi
  imports Nand
begin

text \<open>
  The QSPI flash as the boot monitor uses it, \<open>services/qspi/qspi_api.c\<close>: the blocks are
  numbered without the bad ones, and the cached access keeps a copy of the flash in DDR, block by
  block, for the USB drive. The functions of the flash driver are the ones of the configured
  chip (theory \<open>Nand\<close>); the locale \<open>nand_flash\<close> is what the proofs use of them.
\<close>

section \<open>State\<close>

datatype spi_type = SPI_NAND | SPI_NOR

record FlashDescriptor =
  jedecId :: u32
  fl_pageSize :: nat
  pagesPerBlock :: nat
  blocksPerDie :: nat
  fl_type :: spi_type

definition qspiFlashes :: "FlashDescriptor list" where
  "qspiFlashes = [
     \<lparr>jedecId = 0xEFAA21, fl_pageSize = 2048, pagesPerBlock = 64, blocksPerDie = 1024, fl_type = SPI_NAND\<rparr>,
     \<lparr>jedecId = 0x20BA19, fl_pageSize = 256, pagesPerBlock = 256, blocksPerDie = 512, fl_type = SPI_NOR\<rparr>]"

record HSS_QSPI_Cache_Descriptor =
  dirtyCache :: bool
  inCache :: bool

text \<open>
  The variables of the module with the flash. The arrays are placed one behind the other at the
  start of the DDR; the cache is the last of them, a map from offsets to bytes.
\<close>

record 's Qspi =
  pageSize :: nat
  blockSize :: nat
  dieSize :: nat
  eraseSize :: nat
  pageCount :: nat
  blockCount :: nat
  qspi_type :: spi_type
  numBadBlocks :: nat
  pLogicalToPhysicalMap :: "nat list"
  pBadBlocksMap :: "nat list"
  pLogicalBlockDesc :: "HSS_QSPI_Cache_Descriptor list"
  pCacheDataBuffer :: "nat \<Rightarrow> u8"
  qspiInitialized :: bool
  qspiIndex :: nat
  cacheDirtyFlag :: bool
  flash :: 's

section \<open>Block numbers\<close>

definition flash_id_to_descriptor :: "u32 \<Rightarrow> nat option" where
  "flash_id_to_descriptor jedec_id = find_index (\<lambda>d. jedecId d = jedec_id) qspiFlashes"

text \<open>The loop of \<open>build_bad_block_map\<close>: the index into the bad blocks, how many of them
  remain, and the next logical block.\<close>

fun map_blocks :: "nat list \<Rightarrow> nat list \<Rightarrow> nat \<Rightarrow> nat \<Rightarrow> nat \<Rightarrow> nat list \<Rightarrow> nat list" where
  "map_blocks [] bads badBlockIndex badBlocksRemaining logicalBlockIndex m = m"
| "map_blocks (p # ps) bads badBlockIndex badBlocksRemaining logicalBlockIndex m =
     (if badBlocksRemaining \<noteq> 0 \<and> bads ! badBlockIndex = p
      then map_blocks ps bads (badBlockIndex + 1) (badBlocksRemaining - 1) logicalBlockIndex m
      else map_blocks ps bads badBlockIndex badBlocksRemaining (logicalBlockIndex + 1) (m[logicalBlockIndex := p]))"

definition build_bad_block_map :: "'s Flash_Driver \<Rightarrow> 's Qspi \<Rightarrow> 's Qspi" where
  "build_bad_block_map drv q =
     (let (bads, f) = fd_scan drv (flash q);
          q = q\<lparr>flash := f, numBadBlocks := length bads, pBadBlocksMap := splice (pBadBlocksMap q) 0 bads\<rparr>
      in q\<lparr>pLogicalToPhysicalMap :=
             map_blocks [0..<blockCount q] (pBadBlocksMap q) 0 (numBadBlocks q) 0 (pLogicalToPhysicalMap q)\<rparr>)"

definition column_to_block :: "nat \<Rightarrow> 's Qspi \<Rightarrow> nat option" where
  "column_to_block column_addr q = do {
     require (blockSize q \<noteq> 0);
     Some (column_addr mod 2 ^ 32 div blockSize q) }"

text \<open>An entry of an array; one outside it is \<open>None\<close>.\<close>

definition entry :: "'a list \<Rightarrow> nat \<Rightarrow> 'a option" where
  "entry xs i = (if i < length xs then Some (xs ! i) else None)"

definition logical_to_physical_block :: "'s Flash_Driver \<Rightarrow> nat \<Rightarrow> 's Qspi \<Rightarrow> (nat \<times> 's Qspi) option" where
  "logical_to_physical_block drv logical_block q = do {
     result \<leftarrow> entry (pLogicalToPhysicalMap q) logical_block;
     if result > blockCount q then do {
       let q = build_bad_block_map drv q;
       result \<leftarrow> entry (pLogicalToPhysicalMap q) logical_block;
       Some (result, q) }
     else Some (result, q) }"

definition logical_to_physical_address :: "'s Flash_Driver \<Rightarrow> nat \<Rightarrow> 's Qspi \<Rightarrow> (u32 \<times> 's Qspi) option" where
  "logical_to_physical_address drv logical_addr q = do {
     require (blockSize q \<noteq> 0);
     let logical_block_num = logical_addr div blockSize q mod 2 ^ 16;
     let remainder = logical_addr mod blockSize q;
     physical_block_number \<leftarrow> entry (pLogicalToPhysicalMap q) logical_block_num;
     if physical_block_number > blockCount q then do {
       let q = build_bad_block_map drv q;
       physical_block_number \<leftarrow> entry (pLogicalToPhysicalMap q) logical_block_num;
       Some (of_nat (physical_block_number * blockSize q + remainder), q) }
     else Some (of_nat (physical_block_number * blockSize q + remainder), q) }"

section \<open>The cache\<close>

definition set_desc :: "nat \<Rightarrow> (HSS_QSPI_Cache_Descriptor \<Rightarrow> HSS_QSPI_Cache_Descriptor) \<Rightarrow> 's Qspi \<Rightarrow> 's Qspi" where
  "set_desc b f q = q\<lparr>pLogicalBlockDesc := (pLogicalBlockDesc q)[b := f (pLogicalBlockDesc q ! b)]\<rparr>"

definition store_at :: "nat \<Rightarrow> u8 list \<Rightarrow> (nat \<Rightarrow> u8) \<Rightarrow> nat \<Rightarrow> u8" where
  "store_at off bs m = (\<lambda>j. if off \<le> j \<and> j < off + length bs then bs ! (j - off) else m j)"

text \<open>The body of the loop of \<open>demandCopyFlashBlocksToCache\<close>. The result of the read is
  dropped.\<close>

definition demand_block :: "'s Flash_Driver \<Rightarrow> nat \<Rightarrow> bool \<Rightarrow> 's Qspi \<Rightarrow> 's Qspi option" where
  "demand_block drv offset markDirty q = do {
     b \<leftarrow> column_to_block offset q;
     (physicalBlockOffset, q) \<leftarrow> logical_to_physical_block drv b q;
     desc \<leftarrow> entry (pLogicalBlockDesc q) physicalBlockOffset;
     q \<leftarrow> (if \<not> inCache desc then do {
            let physicalBlockByteOffset = physicalBlockOffset * blockSize q;
            (bs, status, f) \<leftarrow> fd_read drv (of_nat physicalBlockByteOffset) (of_nat (blockSize q)) (flash q);
            Some (set_desc physicalBlockOffset (\<lambda>d. d\<lparr>inCache := True\<rparr>)
                    (q\<lparr>flash := f, pCacheDataBuffer := store_at physicalBlockByteOffset bs (pCacheDataBuffer q)\<rparr>)) }
          else Some q);
     Some (if markDirty then set_desc physicalBlockOffset (\<lambda>d. d\<lparr>dirtyCache := True\<rparr>) q else q) }"

text \<open>The loop advances by \<open>blockSize\<close>, which its body leaves alone.\<close>

function demand_loop :: "'s Flash_Driver \<Rightarrow> nat \<Rightarrow> nat \<Rightarrow> nat \<Rightarrow> bool \<Rightarrow> 's Qspi \<Rightarrow> 's Qspi option" where
  "demand_loop drv step offset endOffset markDirty q =
     (if offset < endOffset then do {
        require (step \<noteq> 0);
        q \<leftarrow> demand_block drv offset markDirty q;
        demand_loop drv step (offset + step) endOffset markDirty q }
      else Some q)"
  by pat_completeness auto
termination
  by (relation "measure (\<lambda>(drv, st, off, e, md, q). e - off)") (auto simp: require_def split: if_splits)

definition demandCopyFlashBlocksToCache :: "'s Flash_Driver \<Rightarrow> nat \<Rightarrow> nat \<Rightarrow> bool \<Rightarrow> 's Qspi \<Rightarrow> 's Qspi option" where
  "demandCopyFlashBlocksToCache drv byteOffset byteCount markDirty q =
     demand_loop drv (blockSize q) byteOffset ((byteOffset + byteCount) mod 2 ^ 64) markDirty q"

text \<open>The body of the loop of \<open>copyCacheToFlashBlocks\<close>: the state, the number of dirty
  blocks left, and whether the loop goes on.\<close>

definition copy_block :: "'s Flash_Driver \<Rightarrow> nat \<Rightarrow> nat \<Rightarrow> 's Qspi \<Rightarrow> ('s Qspi \<times> nat \<times> bool) option" where
  "copy_block drv offset dirtyBlockCount q = do {
     b \<leftarrow> column_to_block offset q;
     (physicalBlockOffset, q) \<leftarrow> logical_to_physical_block drv b q;
     desc \<leftarrow> entry (pLogicalBlockDesc q) physicalBlockOffset;
     if inCache desc \<and> dirtyCache desc then do {
       let physicalBlockByteOffset = physicalBlockOffset * blockSize q;
       (status, f) \<leftarrow> fd_erase_block drv physicalBlockOffset (flash q);
       let q = q\<lparr>flash := f\<rparr>;
       if status \<noteq> 0 then Some (q, dirtyBlockCount, False)
       else do {
         let bs = map (pCacheDataBuffer q) [physicalBlockByteOffset ..< physicalBlockByteOffset + blockSize q];
         (status, f) \<leftarrow> fd_program drv bs (of_nat physicalBlockByteOffset) (of_nat (blockSize q)) (flash q);
         Some (set_desc physicalBlockOffset (\<lambda>d. d\<lparr>dirtyCache := False\<rparr>) (q\<lparr>flash := f\<rparr>), dirtyBlockCount - 1, True) } }
     else Some (q, dirtyBlockCount, True) }"

function copy_loop :: "'s Flash_Driver \<Rightarrow> nat \<Rightarrow> nat \<Rightarrow> nat \<Rightarrow> nat \<Rightarrow> 's Qspi \<Rightarrow> 's Qspi option" where
  "copy_loop drv step offset endOffset dirtyBlockCount q =
     (if dirtyBlockCount \<noteq> 0 \<and> offset < endOffset then do {
        require (step \<noteq> 0);
        (q, dirtyBlockCount, go) \<leftarrow> copy_block drv offset dirtyBlockCount q;
        if go then copy_loop drv step (offset + step) endOffset dirtyBlockCount q else Some q }
      else Some q)"
  by pat_completeness auto
termination
  by (relation "measure (\<lambda>(drv, st, off, e, dc, q). e - off)") (auto simp: require_def split: if_splits)

definition dirty_blocks :: "'s Qspi \<Rightarrow> nat" where
  "dirty_blocks q = length (filter (\<lambda>b. dirtyCache (pLogicalBlockDesc q ! b)) [0..<blockCount q])"

definition copyCacheToFlashBlocks :: "'s Flash_Driver \<Rightarrow> nat \<Rightarrow> nat \<Rightarrow> 's Qspi \<Rightarrow> 's Qspi option" where
  "copyCacheToFlashBlocks drv byteOffset byteCount q =
     copy_loop drv (blockSize q) byteOffset ((byteOffset + byteCount) mod 2 ^ 64) (dirty_blocks q) q"

section \<open>The operations\<close>

definition jedec_of :: "u8 list \<Rightarrow> u32" where
  "jedec_of rd_buf = push_bit 16 (ucast (rd_buf ! 0)) OR push_bit 8 (ucast (rd_buf ! 1)) OR ucast (rd_buf ! 2)"

text \<open>The sizes for a descriptor, and the buffers cleared for them.\<close>

definition set_sizes :: "nat \<Rightarrow> 's Qspi \<Rightarrow> 's Qspi" where
  "set_sizes i q =
     (let d = qspiFlashes ! i;
          ps = (if fl_pageSize d \<ge> 512 then fl_pageSize d else 512);
          bs = ps * pagesPerBlock d
      in q\<lparr>qspiIndex := i, pageSize := ps, blockSize := bs, eraseSize := bs, blockCount := blocksPerDie d,
           pageCount := pagesPerBlock d * blocksPerDie d, dieSize := bs * blocksPerDie d, qspi_type := fl_type d\<rparr>)"

definition clear_buffers :: "'s Qspi \<Rightarrow> 's Qspi" where
  "clear_buffers q = q\<lparr>pLogicalToPhysicalMap := replicate (blockCount q) 0, pBadBlocksMap := replicate (blockCount q) 0,
     pLogicalBlockDesc := replicate (blockCount q) \<lparr>dirtyCache = False, inCache = False\<rparr>\<rparr>"

definition without_bad_blocks :: "'s Qspi \<Rightarrow> 's Qspi" where
  "without_bad_blocks q =
     (let q = q\<lparr>blockCount := blockCount q - numBadBlocks q\<rparr>
      in q\<lparr>pageCount := pagesPerBlock (qspiFlashes ! qspiIndex q) * blockCount q, dieSize := blockSize q * blockCount q\<rparr>)"

definition HSS_QSPIInit :: "'s Flash_Driver \<Rightarrow> 's Qspi \<Rightarrow> bool \<times> 's Qspi" where
  "HSS_QSPIInit drv q =
     (if qspiInitialized q then (True, q)
      else let f = fd_init drv MSS_QSPI_QUAD_FULL (flash q);
               (rd_buf, f) = fd_readid drv f;
               q = q\<lparr>flash := f\<rparr>
           in (case flash_id_to_descriptor (jedec_of rd_buf) of
                 Some i \<Rightarrow> (True, (without_bad_blocks (build_bad_block_map drv (clear_buffers (set_sizes i q))))
                                    \<lparr>qspiInitialized := True\<rparr>)
               | None \<Rightarrow> (False, q)))"

text \<open>The bytes \<open>HSS_QSPI_ReadBlock\<close> puts at its destination. Only the first address is
  translated; the result is always true.\<close>

definition HSS_QSPI_ReadBlock :: "'s Flash_Driver \<Rightarrow> nat \<Rightarrow> nat \<Rightarrow> 's Qspi \<Rightarrow> (bool \<times> u8 list \<times> 's Qspi) option" where
  "HSS_QSPI_ReadBlock drv srcOffset byteCount q = do {
     (read_addr, q) \<leftarrow> logical_to_physical_address drv (srcOffset mod 2 ^ 32) q;
     let f = fd_init drv MSS_QSPI_QUAD_FULL (flash q);
     (bs, status, f) \<leftarrow> fd_read drv read_addr (of_nat byteCount) f;
     Some (True, bs, q\<lparr>flash := fd_init drv MSS_QSPI_NORMAL f\<rparr>) }"

definition HSS_QSPI_WriteBlock :: "'s Flash_Driver \<Rightarrow> nat \<Rightarrow> u8 list \<Rightarrow> nat \<Rightarrow> 's Qspi \<Rightarrow> (bool \<times> 's Qspi) option" where
  "HSS_QSPI_WriteBlock drv dstOffset src byteCount q = do {
     (write_addr, q) \<leftarrow> logical_to_physical_address drv (dstOffset mod 2 ^ 32) q;
     (status, f) \<leftarrow> fd_program drv src write_addr (of_nat byteCount) (flash q);
     Some (True, q\<lparr>flash := f\<rparr>) }"

definition HSS_QSPI_GetInfo :: "'s Qspi \<Rightarrow> nat \<times> nat \<times> nat" where
  "HSS_QSPI_GetInfo q = (pageSize q, eraseSize q, pageCount q)"

definition HSS_QSPI_FlushWriteBuffer :: "'s Qspi \<Rightarrow> 's Qspi" where
  "HSS_QSPI_FlushWriteBuffer q = q"

fun erase_blocks :: "'s Flash_Driver \<Rightarrow> nat list \<Rightarrow> 's \<Rightarrow> 's option" where
  "erase_blocks drv [] f = Some f"
| "erase_blocks drv (b # bs) f = do { (status, f) \<leftarrow> fd_erase_block drv b f; erase_blocks drv bs f }"

definition HSS_QSPI_FlashChipErase :: "'s Flash_Driver \<Rightarrow> 's Qspi \<Rightarrow> 's Qspi option" where
  "HSS_QSPI_FlashChipErase drv q = do {
     f \<leftarrow> erase_blocks drv [0..<blockCount q] (flash q);
     Some (q\<lparr>flash := f\<rparr>) }"

definition HSS_QSPI_BadBlocksInfo :: "'s Flash_Driver \<Rightarrow> 's Qspi \<Rightarrow> 's Qspi" where
  "HSS_QSPI_BadBlocksInfo drv q =
     (if qspiInitialized q \<and> qspi_type q = SPI_NAND then
        let d = qspiFlashes ! qspiIndex q;
            q = q\<lparr>blockCount := blocksPerDie d, pageCount := pagesPerBlock d * blocksPerDie d, dieSize := blockSize q * blocksPerDie d\<rparr>;
            q = build_bad_block_map drv q
        in (if numBadBlocks q \<noteq> 0 then without_bad_blocks q else q)
      else q)"

definition HSS_CachedQSPIInit :: "'s Flash_Driver \<Rightarrow> 's Qspi \<Rightarrow> bool \<times> 's Qspi" where
  "HSS_CachedQSPIInit = HSS_QSPIInit"

definition HSS_CachedQSPI_ReadBlock :: "'s Flash_Driver \<Rightarrow> nat \<Rightarrow> nat \<Rightarrow> 's Qspi \<Rightarrow> (bool \<times> u8 list \<times> 's Qspi) option" where
  "HSS_CachedQSPI_ReadBlock drv srcOffset byteCount q = do {
     require ((srcOffset + byteCount) mod 2 ^ 64 \<le> dieSize q);
     q \<leftarrow> demandCopyFlashBlocksToCache drv srcOffset byteCount False q;
     Some (True, map (pCacheDataBuffer q) [srcOffset ..< srcOffset + byteCount], q) }"

definition HSS_CachedQSPI_WriteBlock :: "'s Flash_Driver \<Rightarrow> nat \<Rightarrow> u8 list \<Rightarrow> 's Qspi \<Rightarrow> (bool \<times> 's Qspi) option" where
  "HSS_CachedQSPI_WriteBlock drv dstOffset src q = do {
     require ((dstOffset + length src) mod 2 ^ 64 \<le> dieSize q);
     q \<leftarrow> demandCopyFlashBlocksToCache drv dstOffset (length src) True (q\<lparr>cacheDirtyFlag := True\<rparr>);
     Some (True, q\<lparr>pCacheDataBuffer := store_at dstOffset src (pCacheDataBuffer q)\<rparr>) }"

definition HSS_CachedQSPI_GetInfo :: "'s Qspi \<Rightarrow> nat \<times> nat \<times> nat" where
  "HSS_CachedQSPI_GetInfo = HSS_QSPI_GetInfo"

definition HSS_CachedQSPI_FlushWriteBuffer :: "'s Flash_Driver \<Rightarrow> 's Qspi \<Rightarrow> 's Qspi option" where
  "HSS_CachedQSPI_FlushWriteBuffer drv q =
     (if cacheDirtyFlag q then do {
        q \<leftarrow> copyCacheToFlashBlocks drv 0 (dieSize q) q;
        Some (q\<lparr>cacheDirtyFlag := False\<rparr>) }
      else Some q)"

declare demand_loop.simps [simp del] copy_loop.simps [simp del]

section \<open>The block map\<close>

lemma splice_Cons: "li < length m \<Longrightarrow> splice (m[li := p]) (Suc li) xs = splice m li (p # xs)"
  by (simp add: splice_def take_Suc_conv_app_nth)

lemma map_blocks_splice:
  assumes "take rem (drop bi bads) = filter P ps @ rest" and "set rest \<inter> set ps = {}"
    and "li + length (filter (\<lambda>p. \<not> P p) ps) \<le> length m" and "bi + rem \<le> length bads" and "distinct ps"
  shows "map_blocks ps bads bi rem li m = splice m li (filter (\<lambda>p. \<not> P p) ps)"
  using assms
proof (induction ps arbitrary: bi rem li m)
  case Nil
  then show ?case by (simp add: splice_def)
next
  case (Cons p ps)
  show ?case
  proof (cases "P p")
    case True
    then have h: "take rem (drop bi bads) = p # (filter P ps @ rest)" using Cons.prems(1) by simp
    then have r: "rem \<noteq> 0" "bi < length bads" by (auto intro: ccontr)
    then have "drop bi bads = bads ! bi # drop (Suc bi) bads" by (simp add: Cons_nth_drop_Suc)
    then have "bads ! bi = p" "take (rem - 1) (drop (Suc bi) bads) = filter P ps @ rest"
      using h r by (auto simp: take_Cons')
    then show ?thesis using Cons.IH [of "rem - 1" "Suc bi" li m] Cons.prems True r by simp
  next
    case False
    have "\<not> (rem \<noteq> 0 \<and> bads ! bi = p)"
    proof
      assume a: "rem \<noteq> 0 \<and> bads ! bi = p"
      then have "bi < length bads" using Cons.prems(4) by simp
      then have "drop bi bads = p # drop (Suc bi) bads" using a by (metis Cons_nth_drop_Suc)
      then have "p \<in> set (take rem (drop bi bads))" using a by (cases rem) auto
      then have "p \<in> set (filter P ps @ rest)" using Cons.prems(1) False by simp
      then show False using Cons.prems(2) False by auto
    qed
    then have "map_blocks (p # ps) bads bi rem li m = map_blocks ps bads bi rem (Suc li) (m[li := p])" by auto
    also have "\<dots> = splice (m[li := p]) (Suc li) (filter (\<lambda>p. \<not> P p) ps)"
      by (rule Cons.IH) (use Cons.prems False in auto)
    also have "\<dots> = splice m li (filter (\<lambda>p. \<not> P p) (p # ps))"
      using Cons.prems(3) False by (simp add: splice_Cons)
    finally show ?thesis .
  qed
qed

text \<open>The blocks of the die in order, without the bad ones.\<close>

definition good_blocks :: "(nat \<Rightarrow> bool) \<Rightarrow> nat list" where
  "good_blocks bad = filter (\<lambda>b. \<not> bad b) [0..<1024]"

lemma good_plus_bad: "length (good_blocks bad) + length (filter bad [0..<1024]) = 1024"
  using sum_length_filter_compl [of bad "[0..<1024]"] by (simp add: good_blocks_def)

lemma good_blocks_nth: "i < length (good_blocks bad) \<Longrightarrow> \<not> bad (good_blocks bad ! i) \<and> good_blocks bad ! i < 1024"
proof -
  assume "i < length (good_blocks bad)"
  then have "good_blocks bad ! i \<in> set (good_blocks bad)" by (rule nth_mem)
  then show ?thesis by (simp add: good_blocks_def)
qed

text \<open>The variables once the flash is initialised.\<close>

definition qspi_ok :: "(nat \<Rightarrow> bool) \<Rightarrow> 's Qspi \<Rightarrow> bool" where
  "qspi_ok bad q \<longleftrightarrow> qspiInitialized q \<and> qspiIndex q = 0 \<and> blockSize q = 131072 \<and> blockCount q = length (good_blocks bad) \<and>
     dieSize q = 131072 * blockCount q \<and> numBadBlocks q = 1024 - blockCount q \<and>
     length (pLogicalToPhysicalMap q) = 1024 \<and> take (blockCount q) (pLogicalToPhysicalMap q) = good_blocks bad \<and>
     length (pBadBlocksMap q) = 1024 \<and> take (numBadBlocks q) (pBadBlocksMap q) = filter bad [0..<1024] \<and>
     length (pLogicalBlockDesc q) = 1024"

lemma qspi_okD:
  assumes "qspi_ok bad q"
  shows "blockSize q = 131072" "blockCount q = length (good_blocks bad)" "dieSize q = 131072 * blockCount q"
    "numBadBlocks q = length (filter bad [0..<1024])"
    "length (pLogicalToPhysicalMap q) = 1024" "take (blockCount q) (pLogicalToPhysicalMap q) = good_blocks bad"
    "length (pBadBlocksMap q) = 1024" "take (numBadBlocks q) (pBadBlocksMap q) = filter bad [0..<1024]"
    "length (pLogicalBlockDesc q) = 1024" "blockCount q \<le> 1024"
  using assms good_plus_bad [of bad] unfolding qspi_ok_def by linarith+

lemma splice_same: "li + length xs \<le> length m \<Longrightarrow> take (length xs) (drop li m) = xs \<Longrightarrow> splice m li xs = m"
  unfolding splice_def by (metis add.commute append_take_drop_id drop_drop)

lemma filter_upt_split: "n \<le> k \<Longrightarrow> filter P [0..<k] = filter P [0..<n] @ filter P [n..<k]"
  using upt_add_eq_append [of 0 n "k - n"] by simp

text \<open>Building the map again leaves it as it is.\<close>

lemma splice_goods:
  assumes "n \<le> 1024" "take (length (good_blocks bad)) m = good_blocks bad" "length m = 1024"
  shows "splice m 0 (filter (\<lambda>b. \<not> bad b) [0..<n]) = m"
proof (rule splice_same)
  let ?xs = "filter (\<lambda>b. \<not> bad b) [0..<n]"
  have e: "good_blocks bad = ?xs @ filter (\<lambda>b. \<not> bad b) [n..<1024]"
    unfolding good_blocks_def by (rule filter_upt_split [OF assms(1)])
  have "take (length ?xs) m = take (length ?xs) (take (length (good_blocks bad)) m)" by (simp add: e)
  then show "take (length ?xs) (drop 0 m) = ?xs" by (simp add: assms(2)) (simp add: e)
  show "0 + length ?xs \<le> length m"
    using length_filter_le [of "\<lambda>b. \<not> bad b" "[0..<n]"] assms(1,3) by simp
qed

lemma upt_disjoint: "set (filter P [n..<k]) \<inter> set [0..<n] = {}"
  by auto

context nand_flash
begin

lemma rebuild_same:
  assumes "ok (flash q)" "qspi_ok (bad (flash q)) q"
  shows "\<exists>f. build_bad_block_map drv q = q\<lparr>flash := f\<rparr> \<and> ok f \<and> byte f = byte (flash q) \<and> bad f = bad (flash q)"
proof -
  let ?bad = "bad (flash q)"
  note q = qspi_okD [OF assms(2)]
  obtain f where f: "fd_scan drv (flash q) = (filter ?bad [0..<1024], f)" "ok f" "byte f = byte (flash q)" "bad f = ?bad"
    using scans [OF assms(1)] by (elim exE conjE) (rule that)
  have le: "numBadBlocks q \<le> 1024" using length_filter_le [of ?bad "[0..<1024]"] by (simp only: q(4) length_upt)
  have bm: "splice (pBadBlocksMap q) 0 (filter ?bad [0..<1024]) = pBadBlocksMap q"
    by (rule splice_same) (use q(7,8) le in \<open>simp_all only: q(4) [symmetric] drop_0 add_0\<close>)
  have len: "0 + length (filter (\<lambda>b. \<not> ?bad b) [0..<blockCount q]) \<le> length (pLogicalToPhysicalMap q)"
    using length_filter_le [of "\<lambda>b. \<not> ?bad b" "[0..<blockCount q]"] q(5,10) by simp
  have "take (numBadBlocks q) (drop 0 (pBadBlocksMap q)) = filter ?bad [0..<blockCount q] @ filter ?bad [blockCount q..<1024]"
    by (simp only: drop_0 q(8) filter_upt_split [OF q(10), of ?bad])
  then have "map_blocks [0..<blockCount q] (pBadBlocksMap q) 0 (numBadBlocks q) 0 (pLogicalToPhysicalMap q) =
      splice (pLogicalToPhysicalMap q) 0 (filter (\<lambda>b. \<not> ?bad b) [0..<blockCount q])"
    by (rule map_blocks_splice [OF _ upt_disjoint len]) (use q(7) le in simp_all)
  also have "\<dots> = pLogicalToPhysicalMap q"
    by (rule splice_goods [OF q(10) _ q(5)]) (simp only: q(2) [symmetric] q(6))
  finally have m: "map_blocks [0..<blockCount q] (pBadBlocksMap q) 0 (numBadBlocks q) 0 (pLogicalToPhysicalMap q) =
    pLogicalToPhysicalMap q" .
  have "build_bad_block_map drv q = q\<lparr>flash := f\<rparr>"
    using f(1) m by (simp add: build_bad_block_map_def bm q(4) [symmetric])
  then show ?thesis using f by blast
qed

text \<open>The translation of a block number.\<close>

lemma logical_to_physical_run:
  assumes "ok (flash q)" "qspi_ok (bad (flash q)) q" "b < blockCount q"
  shows "\<exists>f. logical_to_physical_block drv b q = Some (good_blocks (bad (flash q)) ! b, q\<lparr>flash := f\<rparr>) \<and>
    ok f \<and> byte f = byte (flash q) \<and> bad f = bad (flash q)"
proof -
  have b: "b < length (pLogicalToPhysicalMap q)" "pLogicalToPhysicalMap q ! b = good_blocks (bad (flash q)) ! b"
  proof -
    note q = qspi_okD [OF assms(2)]
    have "good_blocks (bad (flash q)) ! b = take (blockCount q) (pLogicalToPhysicalMap q) ! b" by (simp only: q(6))
    then show "pLogicalToPhysicalMap q ! b = good_blocks (bad (flash q)) ! b" using assms(3) by simp
    show "b < length (pLogicalToPhysicalMap q)" using assms(3) q(5,10) by simp
  qed
  obtain f where f: "build_bad_block_map drv q = q\<lparr>flash := f\<rparr>" "ok f" "byte f = byte (flash q)" "bad f = bad (flash q)"
    using rebuild_same [OF assms(1,2)] by (elim exE conjE) (rule that)
  show ?thesis
  proof (cases "good_blocks (bad (flash q)) ! b > blockCount q")
    case True
    then show ?thesis using b f by (intro exI [of _ f]) (simp add: logical_to_physical_block_def entry_def)
  next
    case False
    then show ?thesis using b assms(1) by (intro exI [of _ "flash q"]) (simp add: logical_to_physical_block_def entry_def)
  qed
qed

text \<open>Initialisation on a chip of the first descriptor.\<close>

lemma init_run:
  assumes "ok (flash q)" "\<not> qspiInitialized q"
  shows "\<exists>q'. HSS_QSPIInit drv q = (True, q') \<and> qspi_ok (bad (flash q)) q' \<and> ok (flash q') \<and>
    byte (flash q') = byte (flash q) \<and> bad (flash q') = bad (flash q) \<and>
    pLogicalBlockDesc q' = replicate 1024 \<lparr>dirtyCache = False, inCache = False\<rparr> \<and>
    cacheDirtyFlag q' = cacheDirtyFlag q \<and> pCacheDataBuffer q' = pCacheDataBuffer q"
proof -
  let ?bad = "bad (flash q)"
  let ?i = "fd_init drv MSS_QSPI_QUAD_FULL (flash q)"
  note i = resets [OF assms(1), of MSS_QSPI_QUAD_FULL]
  obtain f where f: "fd_readid drv ?i = ([0xEF, 0xAA, 0x21], f)" "ok f" "byte f = byte (flash q)" "bad f = ?bad"
    using identifies [of ?i] i by auto
  obtain f' where f': "fd_scan drv f = (filter ?bad [0..<1024], f')" "ok f'" "byte f' = byte (flash q)" "bad f' = ?bad"
    using scans [OF f(2)] f(3,4) by auto
  have id: "flash_id_to_descriptor (jedec_of [0xEF, 0xAA, 0x21]) = Some 0"
    by (simp add: flash_id_to_descriptor_def jedec_of_def qspiFlashes_def)
  define q0 where "q0 = clear_buffers (set_sizes 0 (q\<lparr>flash := f\<rparr>))"
  have q0: "blockCount q0 = 1024" "flash q0 = f" "pLogicalToPhysicalMap q0 = replicate 1024 0" "pBadBlocksMap q0 = replicate 1024 0"
    "pLogicalBlockDesc q0 = replicate 1024 \<lparr>dirtyCache = False, inCache = False\<rparr>" "blockSize q0 = 131072" "qspiIndex q0 = 0"
    "cacheDirtyFlag q0 = cacheDirtyFlag q" "pCacheDataBuffer q0 = pCacheDataBuffer q"
    by (simp_all add: q0_def clear_buffers_def set_sizes_def qspiFlashes_def Let_def del: replicate.simps)
  let ?bads = "filter ?bad [0..<1024]"
  have nb: "length ?bads \<le> 1024" using good_plus_bad [of ?bad] by simp
  have tb: "take (length ?bads) (splice (replicate 1024 0) 0 ?bads) = ?bads" by (simp add: splice_def)
  have lb: "length (splice (replicate 1024 0) 0 ?bads) = 1024" using nb by simp
  have "map_blocks [0..<1024] (splice (replicate 1024 0) 0 ?bads) 0 (length ?bads) 0 (replicate 1024 0) =
      splice (replicate 1024 0) 0 (filter (\<lambda>b. \<not> ?bad b) [0..<1024])"
    by (rule map_blocks_splice [where rest = "[]"]) (use tb lb nb good_plus_bad [of ?bad] in \<open>simp_all add: good_blocks_def del: replicate.simps\<close>)
  then have m: "map_blocks [0..<1024] (splice (replicate 1024 0) 0 ?bads) 0 (length ?bads) 0 (replicate 1024 0) =
      splice (replicate 1024 0) 0 (good_blocks ?bad)" by (simp only: good_blocks_def)
  define q1 where "q1 = q0\<lparr>flash := f', numBadBlocks := length ?bads, pBadBlocksMap := splice (replicate 1024 0) 0 ?bads,
    pLogicalToPhysicalMap := splice (replicate 1024 0) 0 (good_blocks ?bad)\<rparr>"
  have b: "build_bad_block_map drv q0 = q1"
    using q0(1-4) f'(1) m by (simp add: build_bad_block_map_def q1_def del: replicate.simps)
  let ?q' = "(without_bad_blocks q1)\<lparr>qspiInitialized := True\<rparr>"
  have "HSS_QSPIInit drv q = (True, ?q')"
    using assms(2) f(1) id b by (simp add: HSS_QSPIInit_def q0_def [symmetric])
  moreover have "qspi_ok ?bad ?q'"
  proof -
    have c: "1024 - length ?bads = length (good_blocks ?bad)" "length (good_blocks ?bad) \<le> 1024"
      using good_plus_bad [of ?bad] by simp_all
    have tg: "take (length (good_blocks ?bad)) (splice (replicate 1024 0) 0 (good_blocks ?bad)) = good_blocks ?bad"
      by (simp add: splice_def)
    have lg: "length (splice (replicate 1024 0) 0 (good_blocks ?bad)) = 1024" using c(2) by simp
    have e: "1024 - length (good_blocks ?bad) = length ?bads" using good_plus_bad [of ?bad] by simp
    show ?thesis
      using q0 lb tb by (simp add: qspi_ok_def without_bad_blocks_def q1_def c(1) tg lg e Let_def del: replicate.simps)
  qed
  moreover have "flash ?q' = f'" "pLogicalBlockDesc ?q' = replicate 1024 \<lparr>dirtyCache = False, inCache = False\<rparr>"
    "cacheDirtyFlag ?q' = cacheDirtyFlag q" "pCacheDataBuffer ?q' = pCacheDataBuffer q"
    using q0 by (simp_all add: without_bad_blocks_def q1_def Let_def del: replicate.simps)
  ultimately show ?thesis using f' by (intro exI [of _ ?q']) (simp only: simp_thms)
qed

end

section \<open>The cache as a volume of bytes\<close>

text \<open>What the cached access shows of the flash.\<close>

definition volume :: "(nat \<Rightarrow> u8) \<Rightarrow> 's Qspi \<Rightarrow> nat \<Rightarrow> u8" where
  "volume bytes q j = (if inCache (pLogicalBlockDesc q ! (j div 131072)) then pCacheDataBuffer q j else bytes j)"

text \<open>On a flash without bad blocks: a dirty block is in the cache, a clean one there equals the
  flash, and dirty blocks are announced.\<close>

definition cache_inv :: "(nat \<Rightarrow> bool) \<Rightarrow> (nat \<Rightarrow> u8) \<Rightarrow> 's Qspi \<Rightarrow> bool" where
  "cache_inv bad bytes q \<longleftrightarrow> qspi_ok bad q \<and> (\<forall>b < 1024. \<not> bad b) \<and>
     (\<forall>b < 1024. dirtyCache (pLogicalBlockDesc q ! b) \<longrightarrow> inCache (pLogicalBlockDesc q ! b) \<and> cacheDirtyFlag q) \<and>
     (\<forall>j < 2 ^ 27. inCache (pLogicalBlockDesc q ! (j div 131072)) \<longrightarrow> \<not> dirtyCache (pLogicalBlockDesc q ! (j div 131072)) \<longrightarrow>
        pCacheDataBuffer q j = bytes j)"

lemma no_bad_blocks: "(\<forall>b < 1024. \<not> bad b) \<Longrightarrow> good_blocks bad = [0..<1024]"
  by (simp add: good_blocks_def filter_id_conv)

lemma cache_invD:
  assumes "cache_inv bad bytes q"
  shows "qspi_ok bad q" "\<forall>b < 1024. \<not> bad b" "good_blocks bad = [0..<1024]" "blockCount q = 1024" "blockSize q = 131072"
    "dieSize q = 2 ^ 27" "length (pLogicalBlockDesc q) = 1024"
  using assms qspi_okD [of bad q] no_bad_blocks [of bad] by (simp_all add: cache_inv_def)

lemma block_of: "j < 2 ^ 27 \<Longrightarrow> j div 131072 < (1024 :: nat)"
  by (simp add: div_less_iff_less_mult)

lemma qspi_ok_cong:
  "qspi_ok bad q \<Longrightarrow> length ds = 1024 \<Longrightarrow> qspi_ok bad (q\<lparr>pLogicalBlockDesc := ds, pCacheDataBuffer := c, flash := f, cacheDirtyFlag := fl\<rparr>)"
  by (simp (no_asm) add: qspi_ok_def) (unfold qspi_ok_def, blast)

definition visited :: "nat \<Rightarrow> nat \<Rightarrow> nat \<Rightarrow> bool" where
  "visited off e b \<longleftrightarrow> (\<exists>k. off + 131072 * k < e \<and> (off + 131072 * k) div 131072 = b)"

lemma visited_step:
  assumes "off < e"
  shows "visited off e b \<longleftrightarrow> off div 131072 = b \<or> visited (off + 131072) e b"
proof
  assume "visited off e b"
  then obtain k where k: "off + 131072 * k < e" "(off + 131072 * k) div 131072 = b" by (auto simp: visited_def)
  show "off div 131072 = b \<or> visited (off + 131072) e b"
  proof (cases k)
    case 0
    then show ?thesis using k by simp
  next
    case (Suc i)
    then have "off + 131072 + 131072 * i = off + 131072 * k" by simp
    then show ?thesis using k unfolding visited_def by metis
  qed
next
  assume "off div 131072 = b \<or> visited (off + 131072) e b"
  then show "visited off e b"
  proof
    assume "off div 131072 = b"
    then show ?thesis using assms unfolding visited_def by (intro exI [of _ 0]) simp
  next
    assume "visited (off + 131072) e b"
    then obtain k where "off + 131072 + 131072 * k < e" "(off + 131072 + 131072 * k) div 131072 = b"
      by (auto simp: visited_def)
    then show ?thesis unfolding visited_def by (intro exI [of _ "Suc k"]) (simp add: add.assoc)
  qed
qed

text \<open>A range that ends in as many blocks as its length spans: one that starts at a block, or
  that does not cross into a block the loop does not reach.\<close>

definition fits :: "nat \<Rightarrow> nat \<Rightarrow> bool" where
  "fits off n \<longleftrightarrow> off + n \<le> 2 ^ 27 \<and> (n = 0 \<or> (off + n - 1) div 131072 = off div 131072 + (n - 1) div 131072)"

lemma fits_visited:
  assumes "fits off n" "off \<le> j" "j < off + n"
  shows "visited off (off + n) (j div 131072)"
proof -
  define d where "d = j div 131072 - off div 131072"
  have le: "off div 131072 \<le> j div 131072" "j div 131072 \<le> (off + n - 1) div 131072"
    using assms(2,3) by (simp_all add: div_le_mono)
  have "(off + n - 1) div 131072 = off div 131072 + (n - 1) div 131072" using assms by (auto simp: fits_def)
  then have "j div 131072 \<le> (n - 1) div 131072 + off div 131072" using le(2) by (simp only: add.commute)
  then have "d \<le> (n - 1) div 131072" by (simp only: d_def le_diff_conv)
  then have "131072 * d \<le> n - 1" by (simp add: less_eq_div_iff_mult_less_eq mult.commute)
  then have "off + 131072 * d < off + n" using assms(2,3) by simp
  moreover have "(off + 131072 * d) div 131072 = j div 131072" using le by (simp add: d_def)
  ultimately show ?thesis unfolding visited_def by blast
qed

lemma store_block_at:
  "j div 131072 = b \<Longrightarrow> store_at (131072 * b) (map f [131072 * b ..< 131072 * b + 131072]) m j = f j"
  "j div 131072 \<noteq> b \<Longrightarrow> store_at (131072 * b) (map f [131072 * b ..< 131072 * b + 131072]) m j = m j"
proof -
  show "store_at (131072 * b) (map f [131072 * b ..< 131072 * b + 131072]) m j = f j" if "j div 131072 = b"
  proof -
    have "131072 * b \<le> j" "j < 131072 * b + 131072" using that by auto
    then show ?thesis by (simp add: store_at_def)
  qed
  show "store_at (131072 * b) (map f [131072 * b ..< 131072 * b + 131072]) m j = m j" if "j div 131072 \<noteq> b"
  proof -
    have "\<not> (131072 * b \<le> j \<and> j < 131072 * b + 131072)" using that by (auto intro: div_nat_eqI)
    then show ?thesis by (auto simp: store_at_def)
  qed
qed

context nand_flash
begin

text \<open>A block brought into the cache.\<close>

lemma demand_block_run:
  assumes "ok (flash q)" "cache_inv (bad (flash q)) (byte (flash q)) q" "off < 2 ^ 27" "md \<longrightarrow> cacheDirtyFlag q"
  shows "\<exists>q'. demand_block drv off md q = Some q' \<and> ok (flash q') \<and> bad (flash q') = bad (flash q) \<and>
    byte (flash q') = byte (flash q) \<and> cache_inv (bad (flash q)) (byte (flash q)) q' \<and>
    (\<forall>j < 2 ^ 27. volume (byte (flash q)) q' j = volume (byte (flash q)) q j) \<and> cacheDirtyFlag q' = cacheDirtyFlag q \<and>
    pLogicalBlockDesc q' = (pLogicalBlockDesc q)[off div 131072 :=
      \<lparr>dirtyCache = dirtyCache (pLogicalBlockDesc q ! (off div 131072)) \<or> md, inCache = True\<rparr>]"
proof -
  note c = cache_invD [OF assms(2)]
  let ?b = "off div 131072"
  have b: "?b < 1024" by (rule block_of [OF assms(3)])
  obtain f where f: "logical_to_physical_block drv ?b q = Some (?b, q\<lparr>flash := f\<rparr>)"
    "ok f" "byte f = byte (flash q)" "bad f = bad (flash q)"
    using logical_to_physical_run [OF assms(1) c(1), of ?b] b c(3,4) by auto
  have col: "column_to_block off q = Some ?b" using assms(3) c(5) by (simp add: column_to_block_def require_def)
  let ?d = "pLogicalBlockDesc q ! ?b"
  have ent: "entry (pLogicalBlockDesc q) ?b = Some ?d" using b c(7) by (simp add: entry_def)
  let ?ds = "(pLogicalBlockDesc q)[?b := \<lparr>dirtyCache = dirtyCache ?d \<or> md, inCache = True\<rparr>]"
  show ?thesis
  proof (cases "inCache ?d")
    case True
    let ?q = "q\<lparr>pLogicalBlockDesc := ?ds, pCacheDataBuffer := pCacheDataBuffer q, flash := f, cacheDirtyFlag := cacheDirtyFlag q\<rparr>"
    have same: "?ds = pLogicalBlockDesc q" if "\<not> md" using True that by (cases ?d) (simp add: list_update_same_conv b c(7))
    have "demand_block drv off md q = Some ?q"
      using True f(1) col ent same b c(7) by (cases md; cases ?d) (simp_all add: demand_block_def set_desc_def)
    moreover have "qspi_ok (bad (flash q)) ?q" by (rule qspi_ok_cong [OF c(1)]) (simp add: c(7))
    then have "cache_inv (bad (flash q)) (byte (flash q)) ?q"
      using assms(2,4) True b c(7)
      by (auto simp: cache_inv_def nth_list_update)
    moreover have "\<forall>j < 2 ^ 27. volume (byte (flash q)) ?q j = volume (byte (flash q)) q j"
      using True b c(7) by (auto simp: volume_def nth_list_update)
    ultimately show ?thesis using f by (intro exI [of _ ?q]) simp
  next
    case False
    have clean: "\<not> dirtyCache ?d" using assms(2) False b by (auto simp: cache_inv_def)
    obtain f' where f': "fd_read drv (of_nat (131072 * ?b)) 131072 f = Some (map (byte f) [131072 * ?b ..< 131072 * ?b + 131072], 0, f')"
      "ok f'" "byte f' = byte f" "bad f' = bad f"
      using reads [OF f(2) block_aligned [OF b], of 131072] block_at [OF b] b by auto
    let ?c = "store_at (131072 * ?b) (map (byte f) [131072 * ?b ..< 131072 * ?b + 131072]) (pCacheDataBuffer q)"
    let ?q = "q\<lparr>pLogicalBlockDesc := ?ds, pCacheDataBuffer := ?c, flash := f', cacheDirtyFlag := cacheDirtyFlag q\<rparr>"
    have "demand_block drv off md q = Some ?q"
      using False f(1) f'(1) col ent clean b c(5,7)
      by (cases md; cases ?d) (simp_all add: demand_block_def set_desc_def mult.commute Let_def)
    moreover have inv: "cache_inv (bad (flash q)) (byte (flash q)) ?q"
      unfolding cache_inv_def
    proof (intro conjI allI impI)
      show "qspi_ok (bad (flash q)) ?q" by (rule qspi_ok_cong [OF c(1)]) (simp add: c(7))
      fix j :: nat assume "j < 2 ^ 27" "inCache (pLogicalBlockDesc ?q ! (j div 131072))" "\<not> dirtyCache (pLogicalBlockDesc ?q ! (j div 131072))"
      then show "pCacheDataBuffer ?q j = byte (flash q) j"
        using assms(2) store_block_at [of j ?b] f(3) b c(7) block_of [of j]
        by (cases "j div 131072 = ?b") (auto simp: cache_inv_def)
    qed (use assms(2,4) clean b c(2,7) in \<open>auto simp: cache_inv_def nth_list_update split: if_splits\<close>)
    moreover have "\<forall>j < 2 ^ 27. volume (byte (flash q)) ?q j = volume (byte (flash q)) q j"
      using False store_block_at [of _ ?b "byte f" "pCacheDataBuffer q"] f(3) b c(7)
      by (auto simp: volume_def nth_list_update)
    ultimately show ?thesis using f f' by (intro exI [of _ ?q]) simp
  qed
qed

text \<open>The blocks the loop visits, one for each \<open>blockSize\<close> bytes from the first offset on.\<close>

lemma demand_loop_run:
  assumes "ok (flash q)" "cache_inv (bad (flash q)) (byte (flash q)) q" "e \<le> 2 ^ 27" "md \<longrightarrow> cacheDirtyFlag q"
  shows "\<exists>q'. demand_loop drv 131072 off e md q = Some q' \<and> ok (flash q') \<and> bad (flash q') = bad (flash q) \<and>
    byte (flash q') = byte (flash q) \<and> cache_inv (bad (flash q)) (byte (flash q)) q' \<and>
    (\<forall>j < 2 ^ 27. volume (byte (flash q)) q' j = volume (byte (flash q)) q j) \<and> cacheDirtyFlag q' = cacheDirtyFlag q \<and>
    (\<forall>b < 1024. (inCache (pLogicalBlockDesc q' ! b) \<longleftrightarrow> inCache (pLogicalBlockDesc q ! b) \<or> visited off e b) \<and>
       (dirtyCache (pLogicalBlockDesc q' ! b) \<longleftrightarrow> dirtyCache (pLogicalBlockDesc q ! b) \<or> md \<and> visited off e b))"
  using assms(1,2,4)
proof (induction "e - off" arbitrary: off q rule: less_induct)
  case less
  show ?case
  proof (cases "off < e")
    case False
    then have "demand_loop drv 131072 off e md q = Some q" "\<And>b. \<not> visited off e b"
      by (simp_all add: demand_loop.simps visited_def)
    then show ?thesis using less.prems by simp
  next
    case True
    then have off: "off < 2 ^ 27" using assms(3) by simp
    obtain q1 where q1: "demand_block drv off md q = Some q1" "ok (flash q1)" "bad (flash q1) = bad (flash q)"
      "byte (flash q1) = byte (flash q)" "cache_inv (bad (flash q)) (byte (flash q)) q1"
      "\<forall>j < 2 ^ 27. volume (byte (flash q)) q1 j = volume (byte (flash q)) q j" "cacheDirtyFlag q1 = cacheDirtyFlag q"
      "pLogicalBlockDesc q1 = (pLogicalBlockDesc q)[off div 131072 :=
        \<lparr>dirtyCache = dirtyCache (pLogicalBlockDesc q ! (off div 131072)) \<or> md, inCache = True\<rparr>]"
      using demand_block_run [OF less.prems(1,2) off less.prems(3)] by (elim exE conjE) (rule that)
    have step: "demand_loop drv 131072 off e md q = demand_loop drv 131072 (off + 131072) e md q1"
      using True q1(1) by (subst demand_loop.simps) (simp add: require_def)
    have sm: "e - (off + 131072) < e - off" using True by simp
    have inv1: "cache_inv (bad (flash q1)) (byte (flash q1)) q1" using q1(3,4,5) by simp
    have fl1: "md \<longrightarrow> cacheDirtyFlag q1" using less.prems(3) q1(7) by simp
    obtain q2 where q2: "demand_loop drv 131072 (off + 131072) e md q1 = Some q2" "ok (flash q2)" "bad (flash q2) = bad (flash q1)"
      "byte (flash q2) = byte (flash q1)" "cache_inv (bad (flash q1)) (byte (flash q1)) q2"
      "\<forall>j < 2 ^ 27. volume (byte (flash q1)) q2 j = volume (byte (flash q1)) q1 j" "cacheDirtyFlag q2 = cacheDirtyFlag q1"
      "\<forall>b < 1024. (inCache (pLogicalBlockDesc q2 ! b) \<longleftrightarrow> inCache (pLogicalBlockDesc q1 ! b) \<or> visited (off + 131072) e b) \<and>
       (dirtyCache (pLogicalBlockDesc q2 ! b) \<longleftrightarrow> dirtyCache (pLogicalBlockDesc q1 ! b) \<or> md \<and> visited (off + 131072) e b)"
      using less.hyps [OF sm q1(2) inv1 fl1] by (elim exE conjE) (rule that)
    have len: "length (pLogicalBlockDesc q) = 1024" by (rule cache_invD(7) [OF less.prems(2)])
    have "(inCache (pLogicalBlockDesc q2 ! b) \<longleftrightarrow> inCache (pLogicalBlockDesc q ! b) \<or> visited off e b) \<and>
       (dirtyCache (pLogicalBlockDesc q2 ! b) \<longleftrightarrow> dirtyCache (pLogicalBlockDesc q ! b) \<or> md \<and> visited off e b)" if "b < 1024" for b
    proof -
      have "pLogicalBlockDesc q1 ! b = (if off div 131072 = b
          then \<lparr>dirtyCache = dirtyCache (pLogicalBlockDesc q ! (off div 131072)) \<or> md, inCache = True\<rparr>
          else pLogicalBlockDesc q ! b)"
        unfolding q1(8) by (rule nth_list_update) (simp add: len block_of [OF off])
      then show ?thesis using q2(8) [rule_format, OF that] visited_step [OF True, of b] by auto
    qed
    then show ?thesis
      using step q2(1-7) q1(3-7) by (intro exI [of _ q2]) simp
  qed
qed

lemma cached_read_run:
  assumes "ok (flash q)" "cache_inv (bad (flash q)) (byte (flash q)) q" "fits off n"
  shows "\<exists>q'. HSS_CachedQSPI_ReadBlock drv off n q = Some (True, map (volume (byte (flash q)) q) [off ..< off + n], q') \<and>
    ok (flash q') \<and> bad (flash q') = bad (flash q) \<and> byte (flash q') = byte (flash q) \<and>
    cache_inv (bad (flash q)) (byte (flash q)) q' \<and>
    (\<forall>j < 2 ^ 27. volume (byte (flash q)) q' j = volume (byte (flash q)) q j)"
proof -
  note c = cache_invD [OF assms(2)]
  have e: "off + n \<le> 2 ^ 27" using assms(3) by (simp add: fits_def)
  have md: "False \<longrightarrow> cacheDirtyFlag q" by simp
  obtain q' where q': "demand_loop drv 131072 off (off + n) False q = Some q'" "ok (flash q')" "bad (flash q') = bad (flash q)"
    "byte (flash q') = byte (flash q)" "cache_inv (bad (flash q)) (byte (flash q)) q'"
    "\<forall>j < 2 ^ 27. volume (byte (flash q)) q' j = volume (byte (flash q)) q j"
    "\<forall>b < 1024. (inCache (pLogicalBlockDesc q' ! b) \<longleftrightarrow> inCache (pLogicalBlockDesc q ! b) \<or> visited off (off + n) b)"
    using demand_loop_run [OF assms(1,2) e md] by blast
  have "map (pCacheDataBuffer q') [off ..< off + n] = map (volume (byte (flash q)) q) [off ..< off + n]"
  proof (rule map_cong [OF refl])
    fix j assume "j \<in> set [off ..< off + n]"
    then have j: "off \<le> j" "j < off + n" "j < 2 ^ 27" using e by auto
    then have "inCache (pLogicalBlockDesc q' ! (j div 131072))"
      using q'(7) block_of [OF j(3)] fits_visited [OF assms(3) j(1,2)] by simp
    then show "pCacheDataBuffer q' j = volume (byte (flash q)) q j"
      using q'(6) [rule_format, OF j(3)] by (simp add: volume_def)
  qed
  moreover have "(off + n) mod 2 ^ 64 = off + n" using e by simp
  ultimately show ?thesis
    using q' c(5,6) e by (intro exI [of _ q'])
      (simp add: HSS_CachedQSPI_ReadBlock_def demandCopyFlashBlocksToCache_def require_def)
qed

lemma cached_write_run:
  assumes "ok (flash q)" "cache_inv (bad (flash q)) (byte (flash q)) q" "fits off (length src)"
  shows "\<exists>q'. HSS_CachedQSPI_WriteBlock drv off src q = Some (True, q') \<and>
    ok (flash q') \<and> bad (flash q') = bad (flash q) \<and> byte (flash q') = byte (flash q) \<and>
    cache_inv (bad (flash q)) (byte (flash q)) q' \<and>
    (\<forall>j < 2 ^ 27. volume (byte (flash q)) q' j = store_at off src (volume (byte (flash q)) q) j)"
proof -
  let ?q = "q\<lparr>cacheDirtyFlag := True\<rparr>" and ?n = "length src"
  note c = cache_invD [OF assms(2)]
  have e: "off + ?n \<le> 2 ^ 27" using assms(3) by (simp add: fits_def)
  have inv: "cache_inv (bad (flash ?q)) (byte (flash ?q)) ?q"
    using assms(2) qspi_ok_cong [OF c(1) c(7), where c = "pCacheDataBuffer q" and f = "flash q" and fl = True] by (simp add: cache_inv_def)
  have vq: "volume bs ?q = volume bs q" for bs by (simp add: volume_def fun_eq_iff)
  have sel: "flash ?q = flash q" "cacheDirtyFlag ?q = True" "pLogicalBlockDesc ?q = pLogicalBlockDesc q" by simp_all
  have md: "True \<longrightarrow> cacheDirtyFlag ?q" and ok: "ok (flash ?q)" using assms(1) by simp_all
  obtain q' where q': "demand_loop drv 131072 off (off + ?n) True ?q = Some q'" "ok (flash q')" "bad (flash q') = bad (flash q)"
    "byte (flash q') = byte (flash q)" "cache_inv (bad (flash q)) (byte (flash q)) q'"
    "\<forall>j < 2 ^ 27. volume (byte (flash q)) q' j = volume (byte (flash q)) q j" "cacheDirtyFlag q'"
    "\<forall>b < 1024. (inCache (pLogicalBlockDesc q' ! b) \<longleftrightarrow> inCache (pLogicalBlockDesc q ! b) \<or> visited off (off + ?n) b) \<and>
       (dirtyCache (pLogicalBlockDesc q' ! b) \<longleftrightarrow> dirtyCache (pLogicalBlockDesc q ! b) \<or> visited off (off + ?n) b)"
    using demand_loop_run [OF ok inv e md, of off] unfolding vq sel simp_thms by (elim exE conjE) (rule that)
  let ?r = "q'\<lparr>pCacheDataBuffer := store_at off src (pCacheDataBuffer q')\<rparr>"
  have vis: "inCache (pLogicalBlockDesc q' ! (j div 131072))" "dirtyCache (pLogicalBlockDesc q' ! (j div 131072))"
    if "off \<le> j" "j < off + ?n" for j
    using q'(8) block_of [of j] fits_visited [OF assms(3) that] e that by simp_all
  have out: "store_at off src m j = m j" if "\<not> (off \<le> j \<and> j < off + ?n)" for m j
    using that by (auto simp: store_at_def)
  have "cache_inv (bad (flash q)) (byte (flash q)) ?r"
    unfolding cache_inv_def
  proof (intro conjI allI impI)
    show "qspi_ok (bad (flash q)) ?r"
      using q'(5) cache_invD(7) [OF q'(5)]
        qspi_ok_cong [of "bad (flash q)" q', where ds = "pLogicalBlockDesc q'" and c = "store_at off src (pCacheDataBuffer q')"
          and f = "flash q'" and fl = "cacheDirtyFlag q'"]
      by (simp add: cache_inv_def)
    fix j :: nat assume j: "j < 2 ^ 27" "inCache (pLogicalBlockDesc ?r ! (j div 131072))" "\<not> dirtyCache (pLogicalBlockDesc ?r ! (j div 131072))"
    then have "\<not> (off \<le> j \<and> j < off + ?n)" using vis(2) [of j] by auto
    then show "pCacheDataBuffer ?r j = byte (flash q) j" using q'(5) j out by (simp add: cache_inv_def)
  qed (use q'(5) in \<open>auto simp: cache_inv_def\<close>)
  moreover have "volume (byte (flash q)) ?r j = store_at off src (volume (byte (flash q)) q) j" if "j < 2 ^ 27" for j
  proof (cases "off \<le> j \<and> j < off + ?n")
    case True
    then show ?thesis using vis(1) [of j] by (simp add: volume_def store_at_def)
  next
    case False
    then show ?thesis using q'(6) [rule_format, OF that] out [OF False] by (simp add: volume_def split: if_splits)
  qed
  moreover have "(off + ?n) mod 2 ^ 64 = off + ?n" using e by simp
  ultimately show ?thesis
    using q' c(5,6) e by (intro exI [of _ ?r])
      (simp add: HSS_CachedQSPI_WriteBlock_def demandCopyFlashBlocksToCache_def require_def)
qed

text \<open>Writing back one block.\<close>

lemma copy_block_run:
  assumes "ok (flash q)" "cache_inv (bad (flash q)) (byte (flash q)) q" "b < 1024" "\<not> broken b"
  shows "\<exists>q'. copy_block drv (131072 * b) dc q =
      Some (q', if dirtyCache (pLogicalBlockDesc q ! b) then dc - 1 else dc, True) \<and>
    ok (flash q') \<and> bad (flash q') = bad (flash q) \<and> cache_inv (bad (flash q)) (byte (flash q')) q' \<and>
    (\<forall>j < 2 ^ 27. volume (byte (flash q')) q' j = volume (byte (flash q)) q j) \<and> cacheDirtyFlag q' = cacheDirtyFlag q \<and>
    (\<forall>c < 1024. dirtyCache (pLogicalBlockDesc q' ! c) \<longleftrightarrow> c \<noteq> b \<and> dirtyCache (pLogicalBlockDesc q ! c))"
proof -
  note c = cache_invD [OF assms(2)]
  obtain f where f: "logical_to_physical_block drv b q = Some (b, q\<lparr>flash := f\<rparr>)"
    "ok f" "byte f = byte (flash q)" "bad f = bad (flash q)"
    using logical_to_physical_run [OF assms(1) c(1), of b] assms(3) c(3,4) by auto
  have off: "131072 * b < 2 ^ 27" using assms(3) by simp
  have col: "column_to_block (131072 * b) q = Some b" using off c(5) by (simp add: column_to_block_def require_def)
  let ?d = "pLogicalBlockDesc q ! b"
  have ent: "entry (pLogicalBlockDesc q) b = Some ?d" using assms(3) c(7) by (simp add: entry_def)
  show ?thesis
  proof (cases "dirtyCache ?d")
    case False
    let ?q = "q\<lparr>flash := f\<rparr>"
    have "copy_block drv (131072 * b) dc q = Some (?q, dc, True)"
      using False f(1) col ent by (simp add: copy_block_def)
    moreover have "cache_inv (bad (flash q)) (byte (flash ?q)) ?q"
      using assms(2) f(3) qspi_ok_cong [OF c(1) c(7), where c = "pCacheDataBuffer q" and f = f and fl = "cacheDirtyFlag q"]
      by (simp add: cache_inv_def)
    ultimately show ?thesis using False f by (intro exI [of _ ?q]) (auto simp: volume_def)
  next
    case True
    have ic: "inCache ?d" using True assms(2,3) by (simp add: cache_inv_def)
    let ?bs = "map (pCacheDataBuffer q) [131072 * b ..< 131072 * b + 131072]"
    have nb: "\<not> bad f b" using c(2) assms(3) f(4) by simp
    have bl: "length ?bs = 131072" by simp
    obtain s1 s2 where s: "fd_erase_block drv b f = Some (0, s1)"
      "fd_program drv ?bs (of_nat (131072 * b)) 131072 s1 = Some (0, s2)" "ok s2" "bad s2 = bad f"
      "byte s2 = (\<lambda>j. if j div 131072 = b then ?bs ! (j - 131072 * b) else byte f j)"
      using rewrite_block [OF f(2) assms(3) nb assms(4) bl] by (elim exE conjE) (rule that)
    let ?ds = "(pLogicalBlockDesc q)[b := ?d\<lparr>dirtyCache := False\<rparr>]"
    let ?q = "q\<lparr>pLogicalBlockDesc := ?ds, pCacheDataBuffer := pCacheDataBuffer q, flash := s2, cacheDirtyFlag := cacheDirtyFlag q\<rparr>"
    have "copy_block drv (131072 * b) dc q = Some (?q, dc - 1, True)"
      using True ic f(1) col ent s(1,2) c(5) by (simp add: copy_block_def set_desc_def mult.commute Let_def)
    moreover have byte: "byte s2 j = (if j div 131072 = b then pCacheDataBuffer q j else byte (flash q) j)" for j
    proof (cases "j div 131072 = b")
      case True
      then have "131072 * b \<le> j" "j < 131072 * b + 131072" by auto
      then show ?thesis using True by (simp add: s(5))
    qed (simp add: s(5) f(3))
    have d: "?ds ! k = (if k = b then ?d\<lparr>dirtyCache := False\<rparr> else pLogicalBlockDesc q ! k)" for k
      using assms(3) c(7) by (auto simp: nth_list_update)
    have "cache_inv (bad (flash q)) (byte (flash ?q)) ?q"
      unfolding cache_inv_def
    proof (intro conjI allI impI)
      show "qspi_ok (bad (flash q)) ?q" by (rule qspi_ok_cong [OF c(1)]) (simp add: c(7))
      fix j :: nat assume "j < 2 ^ 27" "inCache (pLogicalBlockDesc ?q ! (j div 131072))" "\<not> dirtyCache (pLogicalBlockDesc ?q ! (j div 131072))"
      then show "pCacheDataBuffer ?q j = byte (flash ?q) j"
        using assms(2) byte [of j] d [of "j div 131072"] by (cases "j div 131072 = b") (auto simp: cache_inv_def)
    qed (use assms(2) c(2) d ic in \<open>auto simp: cache_inv_def split: if_splits\<close>)
    moreover have "volume (byte s2) ?q j = volume (byte (flash q)) q j" for j
      using byte [of j] d [of "j div 131072"] ic by (cases "j div 131072 = b") (simp_all add: volume_def)
    moreover have "dirtyCache (pLogicalBlockDesc ?q ! k) \<longleftrightarrow> k \<noteq> b \<and> dirtyCache (pLogicalBlockDesc q ! k)" for k
      using d [of k] by simp
    ultimately show ?thesis using True s(3,4) f(4) by (intro exI [of _ ?q]) simp
  qed
qed

text \<open>The loop writes back all dirty blocks; it stops as soon as there are none left.\<close>

lemma copy_loop_run:
  assumes "ok (flash q)" "cache_inv (bad (flash q)) (byte (flash q)) q" "b \<le> 1024" "\<forall>c < 1024. \<not> broken c"
    and "\<forall>c < b. \<not> dirtyCache (pLogicalBlockDesc q ! c)"
    and "dc = length (filter (\<lambda>c. dirtyCache (pLogicalBlockDesc q ! c)) [b..<1024])"
  shows "\<exists>q'. copy_loop drv 131072 (131072 * b) (2 ^ 27) dc q = Some q' \<and>
    ok (flash q') \<and> bad (flash q') = bad (flash q) \<and> cache_inv (bad (flash q)) (byte (flash q')) q' \<and>
    (\<forall>j < 2 ^ 27. volume (byte (flash q')) q' j = volume (byte (flash q)) q j) \<and>
    (\<forall>c < 1024. \<not> dirtyCache (pLogicalBlockDesc q' ! c))"
  using assms(1,2,3,5,6)
proof (induction "1024 - b" arbitrary: b dc q rule: less_induct)
  case less
  show ?case
  proof (cases "dc \<noteq> 0 \<and> b < 1024")
    case False
    then have "copy_loop drv 131072 (131072 * b) (2 ^ 27) dc q = Some q" by (auto simp: copy_loop.simps)
    moreover have "\<forall>c < 1024. \<not> dirtyCache (pLogicalBlockDesc q ! c)"
    proof (intro allI impI)
      fix c :: nat assume "c < 1024"
      then show "\<not> dirtyCache (pLogicalBlockDesc q ! c)"
        using False less.prems(4,5) by (cases "c < b") (auto simp: filter_empty_conv)
    qed
    ultimately show ?thesis using less.prems by blast
  next
    case True
    then have b: "b < 1024" and nb: "\<not> broken b" using assms(4) by auto
    obtain q1 where q1: "copy_block drv (131072 * b) dc q = Some (q1, if dirtyCache (pLogicalBlockDesc q ! b) then dc - 1 else dc, True)"
      "ok (flash q1)" "bad (flash q1) = bad (flash q)" "cache_inv (bad (flash q)) (byte (flash q1)) q1"
      "\<forall>j < 2 ^ 27. volume (byte (flash q1)) q1 j = volume (byte (flash q)) q j"
      "\<forall>c < 1024. dirtyCache (pLogicalBlockDesc q1 ! c) \<longleftrightarrow> c \<noteq> b \<and> dirtyCache (pLogicalBlockDesc q ! c)"
      using copy_block_run [OF less.prems(1,2) b nb, of dc] by (elim exE conjE) (rule that)
    let ?dc = "if dirtyCache (pLogicalBlockDesc q ! b) then dc - 1 else dc"
    have step: "copy_loop drv 131072 (131072 * b) (2 ^ 27) dc q = copy_loop drv 131072 (131072 * Suc b) (2 ^ 27) ?dc q1"
      using True q1(1) by (subst copy_loop.simps) (simp add: require_def add.commute)
    have sm: "1024 - Suc b < 1024 - b" using b by simp
    have inv1: "cache_inv (bad (flash q1)) (byte (flash q1)) q1" using q1(3,4) by simp
    have le: "Suc b \<le> 1024" using b by simp
    have lo: "\<forall>c < Suc b. \<not> dirtyCache (pLogicalBlockDesc q1 ! c)"
      using q1(6) less.prems(4) b by (auto simp: less_Suc_eq)
    have "filter (\<lambda>c. dirtyCache (pLogicalBlockDesc q1 ! c)) [Suc b..<1024] = filter (\<lambda>c. dirtyCache (pLogicalBlockDesc q ! c)) [Suc b..<1024]"
      by (rule filter_cong) (use q1(6) in auto)
    then have dc: "?dc = length (filter (\<lambda>c. dirtyCache (pLogicalBlockDesc q1 ! c)) [Suc b..<1024])"
      using less.prems(5) b by (simp add: upt_conv_Cons)
    obtain q2 where q2: "copy_loop drv 131072 (131072 * Suc b) (2 ^ 27) ?dc q1 = Some q2"
      "ok (flash q2)" "bad (flash q2) = bad (flash q1)" "cache_inv (bad (flash q1)) (byte (flash q2)) q2"
      "\<forall>j < 2 ^ 27. volume (byte (flash q2)) q2 j = volume (byte (flash q1)) q1 j"
      "\<forall>c < 1024. \<not> dirtyCache (pLogicalBlockDesc q2 ! c)"
      using less.hyps [OF sm q1(2) inv1 le lo dc] by (elim exE conjE) (rule that)
    show ?thesis using step q2 q1(3,5) by (intro exI [of _ q2]) simp
  qed
qed

lemma flush_run:
  assumes "ok (flash q)" "cache_inv (bad (flash q)) (byte (flash q)) q" "\<forall>c < 1024. \<not> broken c"
  shows "\<exists>q'. HSS_CachedQSPI_FlushWriteBuffer drv q = Some q' \<and>
    ok (flash q') \<and> bad (flash q') = bad (flash q) \<and> cache_inv (bad (flash q)) (byte (flash q')) q' \<and>
    (\<forall>j < 2 ^ 27. volume (byte (flash q')) q' j = volume (byte (flash q)) q j \<and> byte (flash q') j = volume (byte (flash q)) q j)"
proof -
  note c = cache_invD [OF assms(2)]
  have clean: "byte (flash r) j = volume (byte (flash r)) r j"
    if "cache_inv bd (byte (flash r)) r" "\<forall>c < 1024. \<not> dirtyCache (pLogicalBlockDesc r ! c)" "j < 2 ^ 27" for bd r j
    using that block_of [OF that(3)] by (auto simp: cache_inv_def volume_def)
  show ?thesis
  proof (cases "cacheDirtyFlag q")
    case False
    then have "\<forall>c < 1024. \<not> dirtyCache (pLogicalBlockDesc q ! c)" using assms(2) by (auto simp: cache_inv_def)
    then show ?thesis
      using False assms clean [OF assms(2)] by (intro exI [of _ q]) (simp add: HSS_CachedQSPI_FlushWriteBuffer_def)
  next
    case True
    have lo: "\<forall>c < 0. \<not> dirtyCache (pLogicalBlockDesc q ! c)" by simp
    have dz: "dirty_blocks q = length (filter (\<lambda>c. dirtyCache (pLogicalBlockDesc q ! c)) [0..<1024])"
      by (simp add: dirty_blocks_def c(4))
    obtain q' where q': "copy_loop drv 131072 (131072 * 0) (2 ^ 27) (dirty_blocks q) q = Some q'"
      "ok (flash q')" "bad (flash q') = bad (flash q)" "cache_inv (bad (flash q)) (byte (flash q')) q'"
      "\<forall>j < 2 ^ 27. volume (byte (flash q')) q' j = volume (byte (flash q)) q j"
      "\<forall>c < 1024. \<not> dirtyCache (pLogicalBlockDesc q' ! c)"
      using copy_loop_run [OF assms(1,2) le0 assms(3) lo dz] by (elim exE conjE) (rule that)
    let ?r = "q'\<lparr>cacheDirtyFlag := False\<rparr>"
    have "HSS_CachedQSPI_FlushWriteBuffer drv q = Some ?r"
      using True q'(1) c(5,6) by (simp add: HSS_CachedQSPI_FlushWriteBuffer_def copyCacheToFlashBlocks_def)
    moreover have "cache_inv (bad (flash q)) (byte (flash ?r)) ?r"
      using q'(4,6) cache_invD(1,7) [OF q'(4)]
        qspi_ok_cong [of "bad (flash q)" q', where ds = "pLogicalBlockDesc q'" and c = "pCacheDataBuffer q'" and f = "flash q'" and fl = False]
      by (simp add: cache_inv_def)
    moreover have "volume (byte (flash ?r)) ?r j = volume (byte (flash q')) q' j" for j by (simp add: volume_def)
    ultimately show ?thesis
      using q'(2,3,5) clean [OF q'(4,6)] by (intro exI [of _ ?r]) simp
  qed
qed

text \<open>With a bad block in front of it a block is not where its translation says: it is read into
  the cache under its physical number and taken from the cache under its logical one.\<close>

lemma misplaced_read:
  assumes "ok (flash q)" "qspi_ok (bad (flash q)) q" "l < blockCount q"
    and "good_blocks (bad (flash q)) ! l \<noteq> l" "\<not> inCache (pLogicalBlockDesc q ! (good_blocks (bad (flash q)) ! l))"
  shows "\<exists>q'. HSS_CachedQSPI_ReadBlock drv (131072 * l) 131072 q =
    Some (True, map (pCacheDataBuffer q) [131072 * l ..< 131072 * l + 131072], q')"
proof -
  note c = qspi_okD [OF assms(2)]
  let ?p = "good_blocks (bad (flash q)) ! l"
  have p: "?p < 1024" using good_blocks_nth [of l "bad (flash q)"] assms(3) c(2) by simp
  have l: "l < 1024" using assms(3) c(10) by simp
  obtain f where f: "logical_to_physical_block drv l q = Some (?p, q\<lparr>flash := f\<rparr>)"
    "ok f" "byte f = byte (flash q)" "bad f = bad (flash q)"
    using logical_to_physical_run [OF assms(1,2,3)] by (elim exE conjE) (rule that)
  have col: "column_to_block (131072 * l) q = Some l" using l c(1) by (simp add: column_to_block_def require_def)
  have ent: "entry (pLogicalBlockDesc q) ?p = Some (pLogicalBlockDesc q ! ?p)" using p c(9) by (simp add: entry_def)
  obtain f' where f': "fd_read drv (of_nat (131072 * ?p)) 131072 f = Some (map (byte f) [131072 * ?p ..< 131072 * ?p + 131072], 0, f')"
    using reads [OF f(2) block_aligned [OF p], of 131072] block_at [OF p] p by auto
  let ?c = "store_at (131072 * ?p) (map (byte f) [131072 * ?p ..< 131072 * ?p + 131072]) (pCacheDataBuffer q)"
  let ?q = "set_desc ?p (\<lambda>d. d\<lparr>inCache := True\<rparr>) (q\<lparr>flash := f', pCacheDataBuffer := ?c\<rparr>)"
  have blk: "demand_block drv (131072 * l) False q = Some ?q"
    using assms(5) f(1) f' col ent c(1) by (simp add: demand_block_def mult.commute Let_def)
  have "demand_loop drv 131072 (131072 * l) (131072 * l + 131072) False q = Some ?q"
    by (subst demand_loop.simps) (simp add: blk require_def demand_loop.simps [of _ _ "131072 * l + 131072"])
  moreover have "map ?c [131072 * l ..< 131072 * l + 131072] = map (pCacheDataBuffer q) [131072 * l ..< 131072 * l + 131072]"
  proof (rule map_cong [OF refl])
    fix j assume "j \<in> set [131072 * l ..< 131072 * l + 131072]"
    then have "j div 131072 = l" by (intro div_nat_eqI) auto
    then show "?c j = pCacheDataBuffer q j" using store_block_at(2) [of j ?p] assms(4) by simp
  qed
  moreover have "131072 * l + 131072 \<le> dieSize q" using assms(3) c(3) by simp
  moreover have "(131072 * l + 131072) mod 2 ^ 64 = 131072 * l + 131072" using l by simp
  ultimately show ?thesis
    using c(1) by (simp add: HSS_CachedQSPI_ReadBlock_def demandCopyFlashBlocksToCache_def require_def set_desc_def)
qed

end

section \<open>Properties\<close>

datatype cached_op = Read_Op nat nat | Write_Op nat "u8 list" | Flush_Op

fun op_fits :: "cached_op \<Rightarrow> bool" where
  "op_fits (Read_Op off n) \<longleftrightarrow> fits off n"
| "op_fits (Write_Op off bs) \<longleftrightarrow> fits off (length bs)"
| "op_fits Flush_Op \<longleftrightarrow> True"

text \<open>Requests of the USB drive one after the other, and the same on a volume of bytes.\<close>

fun cached_run :: "'s Flash_Driver \<Rightarrow> cached_op list \<Rightarrow> 's Qspi \<Rightarrow> (u8 list list \<times> 's Qspi) option" where
  "cached_run drv [] q = Some ([], q)"
| "cached_run drv (Read_Op off n # ops) q = do {
     (r, bs, q) \<leftarrow> HSS_CachedQSPI_ReadBlock drv off n q;
     (out, q) \<leftarrow> cached_run drv ops q;
     Some (bs # out, q) }"
| "cached_run drv (Write_Op off bs # ops) q = do {
     (r, q) \<leftarrow> HSS_CachedQSPI_WriteBlock drv off bs q;
     cached_run drv ops q }"
| "cached_run drv (Flush_Op # ops) q = do {
     q \<leftarrow> HSS_CachedQSPI_FlushWriteBuffer drv q;
     cached_run drv ops q }"

fun volume_run :: "cached_op list \<Rightarrow> (nat \<Rightarrow> u8) \<Rightarrow> u8 list list \<times> (nat \<Rightarrow> u8)" where
  "volume_run [] v = ([], v)"
| "volume_run (Read_Op off n # ops) v = (let (out, v') = volume_run ops v in (map v [off ..< off + n] # out, v'))"
| "volume_run (Write_Op off bs # ops) v = volume_run ops (store_at off bs v)"
| "volume_run (Flush_Op # ops) v = volume_run ops v"

lemma volume_run_cong:
  "\<forall>op \<in> set ops. op_fits op \<Longrightarrow> \<forall>j < 2 ^ 27. v j = w j \<Longrightarrow>
    fst (volume_run ops v) = fst (volume_run ops w) \<and> (\<forall>j < 2 ^ 27. snd (volume_run ops v) j = snd (volume_run ops w) j)"
proof (induction ops v arbitrary: w rule: volume_run.induct)
  case (2 off n ops v)
  have "map v [off ..< off + n] = map w [off ..< off + n]" using 2(2,3) by (auto simp: fits_def)
  then show ?case using 2 by (simp add: case_prod_beta)
next
  case (3 off bs ops v)
  have "\<forall>j < 2 ^ 27. store_at off bs v j = store_at off bs w j" using 3(3) by (simp add: store_at_def)
  then show ?case using 3 by simp
qed simp_all

context nand_flash
begin

lemma cached_run_volume:
  assumes "ok (flash q)" "cache_inv (bad (flash q)) (byte (flash q)) q" "\<forall>c < 1024. \<not> broken c" "\<forall>op \<in> set ops. op_fits op"
  shows "\<exists>q'. cached_run drv ops q = Some (fst (volume_run ops (volume (byte (flash q)) q)), q') \<and> ok (flash q') \<and>
    cache_inv (bad (flash q')) (byte (flash q')) q' \<and>
    (\<forall>j < 2 ^ 27. volume (byte (flash q')) q' j = snd (volume_run ops (volume (byte (flash q)) q)) j)"
  using assms(1,2,4)
proof (induction ops arbitrary: q)
  case Nil
  then show ?case by simp
next
  case (Cons op ops)
  have ops: "\<forall>op \<in> set ops. op_fits op" and op: "op_fits op" using Cons.prems(3) by simp_all
  let ?v = "volume (byte (flash q)) q"
  have next': "\<exists>q'. cached_run drv ops q1 = Some (fst (volume_run ops v'), q') \<and> ok (flash q') \<and>
      cache_inv (bad (flash q')) (byte (flash q')) q' \<and> (\<forall>j < 2 ^ 27. volume (byte (flash q')) q' j = snd (volume_run ops v') j)"
    if h: "ok (flash q1)" "cache_inv (bad (flash q1)) (byte (flash q1)) q1" "\<forall>j < 2 ^ 27. volume (byte (flash q1)) q1 j = v' j" for q1 v'
  proof -
    obtain q' where q': "cached_run drv ops q1 = Some (fst (volume_run ops (volume (byte (flash q1)) q1)), q')" "ok (flash q')"
      "cache_inv (bad (flash q')) (byte (flash q')) q'"
      "\<forall>j < 2 ^ 27. volume (byte (flash q')) q' j = snd (volume_run ops (volume (byte (flash q1)) q1)) j"
      using Cons.IH [OF h(1,2) ops] by (elim exE conjE) (rule that)
    then show ?thesis using volume_run_cong [OF ops h(3)] by (intro exI [of _ q']) simp
  qed
  show ?case
  proof (cases op)
    case (Read_Op off n)
    then have ft: "fits off n" using op by simp
    obtain q1 where q1: "HSS_CachedQSPI_ReadBlock drv off n q = Some (True, map ?v [off ..< off + n], q1)"
      "ok (flash q1)" "bad (flash q1) = bad (flash q)" "byte (flash q1) = byte (flash q)"
      "cache_inv (bad (flash q)) (byte (flash q)) q1" "\<forall>j < 2 ^ 27. volume (byte (flash q)) q1 j = ?v j"
      using cached_read_run [OF Cons.prems(1,2) ft] by (elim exE conjE) (rule that)
    then obtain q' where "cached_run drv ops q1 = Some (fst (volume_run ops ?v), q')" "ok (flash q')"
      "cache_inv (bad (flash q')) (byte (flash q')) q'" "\<forall>j < 2 ^ 27. volume (byte (flash q')) q' j = snd (volume_run ops ?v) j"
      using next' [of q1 ?v] by auto
    then show ?thesis using Read_Op q1(1) by (intro exI [of _ q']) (simp add: case_prod_beta)
  next
    case (Write_Op off bs)
    then have ft: "fits off (length bs)" using op by simp
    obtain q1 where q1: "HSS_CachedQSPI_WriteBlock drv off bs q = Some (True, q1)"
      "ok (flash q1)" "bad (flash q1) = bad (flash q)" "byte (flash q1) = byte (flash q)"
      "cache_inv (bad (flash q)) (byte (flash q)) q1" "\<forall>j < 2 ^ 27. volume (byte (flash q)) q1 j = store_at off bs ?v j"
      using cached_write_run [OF Cons.prems(1,2) ft] by (elim exE conjE) (rule that)
    then show ?thesis using next' [of q1 "store_at off bs ?v"] Write_Op by simp
  next
    case Flush_Op
    obtain q1 where q1: "HSS_CachedQSPI_FlushWriteBuffer drv q = Some q1"
      "ok (flash q1)" "bad (flash q1) = bad (flash q)" "cache_inv (bad (flash q)) (byte (flash q1)) q1"
      "\<forall>j < 2 ^ 27. volume (byte (flash q1)) q1 j = ?v j \<and> byte (flash q1) j = ?v j"
      using flush_run [OF Cons.prems(1,2) assms(3)] by (elim exE conjE) (rule that)
    then show ?thesis using next' [of q1 ?v] Flush_Op by simp
  qed
qed

lemma init_inv:
  assumes "ok (flash q)" "\<not> qspiInitialized q" "\<forall>b < 1024. \<not> bad (flash q) b"
  shows "\<exists>q'. HSS_CachedQSPIInit drv q = (True, q') \<and> ok (flash q') \<and> byte (flash q') = byte (flash q) \<and>
    cache_inv (bad (flash q')) (byte (flash q')) q' \<and> (\<forall>j < 2 ^ 27. volume (byte (flash q')) q' j = byte (flash q) j)"
proof -
  obtain q' where q': "HSS_QSPIInit drv q = (True, q')" "qspi_ok (bad (flash q)) q'" "ok (flash q')"
    "byte (flash q') = byte (flash q)" "bad (flash q') = bad (flash q)"
    "pLogicalBlockDesc q' = replicate 1024 \<lparr>dirtyCache = False, inCache = False\<rparr>"
    using init_run [OF assms(1,2)] by (elim exE conjE) (rule that)
  have d: "pLogicalBlockDesc q' ! b = \<lparr>dirtyCache = False, inCache = False\<rparr>" if "b < 1024" for b
    using that by (simp add: q'(6) del: replicate.simps)
  have "cache_inv (bad (flash q')) (byte (flash q')) q'"
    using q'(2,5) assms(3) d block_of by (simp add: cache_inv_def)
  moreover have "\<forall>j < 2 ^ 27. volume (byte (flash q')) q' j = byte (flash q) j"
    using d block_of q'(4) by (simp add: volume_def)
  ultimately show ?thesis using q' by (intro exI [of _ q']) (simp add: HSS_CachedQSPIInit_def)
qed

text \<open>The whole life of the drive.\<close>

lemma drive_is_volume:
  assumes "ok (flash q)" "\<not> qspiInitialized q" "\<forall>b < 1024. \<not> bad (flash q) b" "\<forall>b < 1024. \<not> broken b" "\<forall>op \<in> set ops. op_fits op"
  shows "\<exists>q1 q2 q3. HSS_CachedQSPIInit drv q = (True, q1) \<and>
    cached_run drv ops q1 = Some (fst (volume_run ops (byte (flash q))), q2) \<and>
    HSS_CachedQSPI_FlushWriteBuffer drv q2 = Some q3 \<and>
    (\<forall>j < 2 ^ 27. byte (flash q3) j = snd (volume_run ops (byte (flash q))) j)"
proof -
  obtain q1 where q1: "HSS_CachedQSPIInit drv q = (True, q1)" "ok (flash q1)" "byte (flash q1) = byte (flash q)"
    "cache_inv (bad (flash q1)) (byte (flash q1)) q1" "\<forall>j < 2 ^ 27. volume (byte (flash q1)) q1 j = byte (flash q) j"
    using init_inv [OF assms(1-3)] by (elim exE conjE) (rule that)
  note vc = volume_run_cong [OF assms(5) q1(5)]
  obtain q2 where q2: "cached_run drv ops q1 = Some (fst (volume_run ops (volume (byte (flash q1)) q1)), q2)" "ok (flash q2)"
    "cache_inv (bad (flash q2)) (byte (flash q2)) q2"
    "\<forall>j < 2 ^ 27. volume (byte (flash q2)) q2 j = snd (volume_run ops (volume (byte (flash q1)) q1)) j"
    using cached_run_volume [OF q1(2,4) assms(4,5)] by (elim exE conjE) (rule that)
  obtain q3 where q3: "HSS_CachedQSPI_FlushWriteBuffer drv q2 = Some q3"
    "\<forall>j < 2 ^ 27. volume (byte (flash q3)) q3 j = volume (byte (flash q2)) q2 j \<and> byte (flash q3) j = volume (byte (flash q2)) q2 j"
    using flush_run [OF q2(2,3) assms(4)] by (elim exE conjE) (rule that)
  show ?thesis
    using q1(1) q2(1,4) q3 vc by (intro exI [of _ q1] exI [of _ q2] exI [of _ q3]) simp
qed

end

context w25n01gv
begin

lemmas qspi_drive = drive_is_volume
lemmas qspi_init = init_run
lemmas qspi_translate = logical_to_physical_run
lemmas qspi_misplaced = misplaced_read

end


definition qspi_reset :: "Chip_View \<Rightarrow> Chip_View Nand Qspi" where
  "qspi_reset c = \<lparr>pageSize = 0, blockSize = 0, dieSize = 0, eraseSize = 0, pageCount = 0, blockCount = 0, qspi_type = SPI_NAND,
     numBadBlocks = 0, pLogicalToPhysicalMap = [], pBadBlocksMap = [], pLogicalBlockDesc = [], pCacheDataBuffer = (\<lambda>_. 0xEE),
     qspiInitialized = False, qspiIndex = 0, cacheDirtyFlag = False, flash = w25_nand\<lparr>chip := c\<rparr>\<rparr>"

lemma qspi_reset_simps [simp]:
  "flash (qspi_reset c) = w25_nand\<lparr>chip := c\<rparr>" "\<not> qspiInitialized (qspi_reset c)"
  "pCacheDataBuffer (qspi_reset c) = (\<lambda>_. 0xEE)" "nview id (w25_nand\<lparr>chip := c\<rparr>) = c"
  "nand_ready id (w25_nand\<lparr>chip := c\<rparr>) \<longleftrightarrow> v_busy c = 0"
  by (simp_all add: qspi_reset_def nview_def nand_ready_def w25_nand_def)

lemma w25_fresh_goods: "good_blocks (marked w25_fresh) = 0 # [2..<1024]"
proof -
  have m: "marked w25_fresh = (\<lambda>b. b = 1)" by (auto simp: marked_def w25_fresh_def fun_eq_iff)
  have "[0..<1024] = [0..<2] @ [2..<1024::nat]" using upt_add_eq_append [of 0 2 1022] by (simp del: upt_rec_numeral)
  moreover have "[0..<2::nat] = [0, 1]" by (simp add: upt_rec)
  ultimately have u: "[0..<1024] = 0 # 1 # [2..<1024::nat]" by (simp only: append.simps)
  have f: "filter (\<lambda>b. b \<noteq> 1) (0 # 1 # xs) = 0 # filter (\<lambda>b. b \<noteq> 1) xs" for xs :: "nat list" by simp
  have "filter (\<lambda>b. b \<noteq> 1) [2..<1024::nat] = [2..<1024]" by (rule filter_True) (simp del: upt_rec_numeral)
  then show ?thesis by (simp only: good_blocks_def m u f)
qed

lemma w25_fresh_idle [simp]: "v_busy w25_fresh = 0"
  by (simp add: w25_fresh_def)


text \<open>
  C26. Initialisation numbers the blocks without the bad ones: whatever blocks are marked bad, the
  flash is accepted, its size is the good blocks' alone, and the translation takes the logical
  blocks to the good physical ones, all of them and in order; the flash is left as it is.
\<close>

theorem qspi_init_maps_good_blocks:
  assumes "w25n01gv x view efails pfails" and "nand_ready view (flash q)" and "\<not> qspiInitialized q"
  shows "\<exists>q1. HSS_QSPIInit (winbond_driver x) q = (True, q1) \<and>
    dieSize q1 = 131072 * length (good_blocks (marked (nview view (flash q)))) \<and>
    (\<forall>l < length (good_blocks (marked (nview view (flash q)))).
       \<exists>q2. logical_to_physical_block (winbond_driver x) l q1 = Some (good_blocks (marked (nview view (flash q))) ! l, q2)) \<and>
    flash_byte (nview view (flash q1)) = flash_byte (nview view (flash q))"
proof -
  let ?bad = "marked (nview view (flash q))"
  obtain q1 where q1: "HSS_QSPIInit (winbond_driver x) q = (True, q1)" "qspi_ok ?bad q1" "nand_ready view (flash q1)"
    "flash_byte (nview view (flash q1)) = flash_byte (nview view (flash q))" "marked (nview view (flash q1)) = ?bad"
    using w25n01gv.qspi_init [OF assms] by (elim exE conjE) (rule that)
  have ok: "qspi_ok (marked (nview view (flash q1))) q1" using q1(2,5) by simp
  have "\<exists>q2. logical_to_physical_block (winbond_driver x) l q1 = Some (good_blocks ?bad ! l, q2)"
    if "l < length (good_blocks ?bad)" for l
    using w25n01gv.qspi_translate [OF assms(1) q1(3) ok, of l] that qspi_okD(2) [OF q1(2)] q1(5) by auto
  then show ?thesis using q1(1,4) qspi_okD(2,3) [OF q1(2)] by (intro exI [of _ q1]) simp
qed

theorem qspi_init_maps_good_blocks_witness:
  "\<exists>q1 q2 q3. HSS_QSPIInit (winbond_driver (w25_xfer (\<lambda>_. False) (\<lambda>_. False))) (qspi_reset w25_fresh) = (True, q1) \<and>
    dieSize q1 = 131072 * 1023 \<and>
    logical_to_physical_block (winbond_driver (w25_xfer (\<lambda>_. False) (\<lambda>_. False))) 0 q1 = Some (0, q2) \<and>
    logical_to_physical_block (winbond_driver (w25_xfer (\<lambda>_. False) (\<lambda>_. False))) 1 q1 = Some (2, q3)"
proof -
  let ?q = "qspi_reset w25_fresh"
  have i: "nand_ready id (flash ?q)" "\<not> qspiInitialized ?q" by simp_all
  have g: "good_blocks (marked (nview id (flash ?q))) = 0 # [2..<1024]" by (simp add: w25_fresh_goods del: upt_rec_numeral)
  obtain q1 where q1: "HSS_QSPIInit (winbond_driver (w25_xfer (\<lambda>_. False) (\<lambda>_. False))) ?q = (True, q1)"
    "dieSize q1 = 131072 * length (0 # [2..<1024::nat])"
    "\<forall>l < length (0 # [2..<1024::nat]). \<exists>q2. logical_to_physical_block (winbond_driver (w25_xfer (\<lambda>_. False) (\<lambda>_. False))) l q1 =
       Some ((0 # [2..<1024]) ! l, q2)"
    using qspi_init_maps_good_blocks [OF w25.w25n01gv_axioms [of "\<lambda>_. False" "\<lambda>_. False"] i] unfolding g
    by (elim exE conjE) (rule that)
  have "dieSize q1 = 131072 * 1023" using q1(2) by (simp del: upt_rec_numeral)
  then show ?thesis
    using q1(1) q1(3) [rule_format, of 0] q1(3) [rule_format, of 1] by (simp del: upt_rec_numeral)
qed

text \<open>
  With a bad block the cached access goes astray: for every logical block that is stored under
  another number, a read right after the initialisation returns what the memory of the cache held
  before, not the flash's contents, and reports success.
\<close>

theorem cached_read_misplaced:
  assumes "w25n01gv x view efails pfails" and "nand_ready view (flash q)" and "\<not> qspiInitialized q"
    and "l < length (good_blocks (marked (nview view (flash q))))" and "good_blocks (marked (nview view (flash q))) ! l \<noteq> l"
  shows "\<exists>q1 q2. HSS_CachedQSPIInit (winbond_driver x) q = (True, q1) \<and>
    HSS_CachedQSPI_ReadBlock (winbond_driver x) (131072 * l) 131072 q1 =
      Some (True, map (pCacheDataBuffer q) [131072 * l ..< 131072 * l + 131072], q2)"
proof -
  let ?bad = "marked (nview view (flash q))"
  obtain q1 where q1: "HSS_QSPIInit (winbond_driver x) q = (True, q1)" "qspi_ok ?bad q1" "nand_ready view (flash q1)"
    "marked (nview view (flash q1)) = ?bad"
    "pLogicalBlockDesc q1 = replicate 1024 \<lparr>dirtyCache = False, inCache = False\<rparr>" "pCacheDataBuffer q1 = pCacheDataBuffer q"
    using w25n01gv.qspi_init [OF assms(1-3)] by (elim exE conjE) (rule that)
  have h: "qspi_ok (marked (nview view (flash q1))) q1" "l < blockCount q1" "good_blocks (marked (nview view (flash q1))) ! l \<noteq> l"
    "\<not> inCache (pLogicalBlockDesc q1 ! (good_blocks (marked (nview view (flash q1))) ! l))"
    using q1(2,4) assms(4,5) qspi_okD(2) [OF q1(2)] good_blocks_nth [OF assms(4)]
    by (simp_all add: q1(5) del: replicate.simps)
  show ?thesis
    using w25n01gv.qspi_misplaced [OF assms(1) q1(3) h] q1(1,6) by (auto simp: HSS_CachedQSPIInit_def)
qed

theorem cached_read_misplaced_witness:
  "\<exists>q1 q2. HSS_CachedQSPIInit (winbond_driver (w25_xfer (\<lambda>_. False) (\<lambda>_. False))) (qspi_reset w25_fresh) = (True, q1) \<and>
    HSS_CachedQSPI_ReadBlock (winbond_driver (w25_xfer (\<lambda>_. False) (\<lambda>_. False))) 131072 131072 q1 =
      Some (True, replicate 131072 0xEE, q2) \<and> flash_byte (nview id (flash (qspi_reset w25_fresh))) 262144 = 0xFF"
proof -
  let ?q = "qspi_reset w25_fresh"
  have i: "nand_ready id (flash ?q)" "\<not> qspiInitialized ?q" by simp_all
  have g: "good_blocks (marked (nview id (flash ?q))) = 0 # [2..<1024]" by (simp add: w25_fresh_goods del: upt_rec_numeral)
  have l: "1 < length (good_blocks (marked (nview id (flash ?q))))" "good_blocks (marked (nview id (flash ?q))) ! 1 \<noteq> 1"
    unfolding g by (simp_all del: upt_rec_numeral)
  have "map (pCacheDataBuffer ?q) [131072 * 1 ..< 131072 * 1 + 131072] = replicate 131072 0xEE"
    by (simp add: map_replicate_const del: upt_Suc upt_rec_numeral replicate.simps)
  moreover have "flash_byte (nview id (flash ?q)) 262144 = 0xFF"
    by (simp add: flash_byte_def) (simp add: w25_fresh_def)
  ultimately show ?thesis
    using cached_read_misplaced [OF w25.w25n01gv_axioms [of "\<lambda>_. False" "\<lambda>_. False"] i l] by (simp only: mult_1_right simp_thms)
qed

end
