(* ===== verification/Ihc.thy ===== *)
theory Ihc
  imports Memcpy
begin

unbundle bit_operations_syntax

text \<open>
  The driver of the Mi-V inter-hart communication IP,
  \<open>baremetal/drivers/fpga_ip/miv_ihc/miv_ihc.c\<close>, with the board's
  \<open>miv_ihc_config.h\<close> and \<open>miv_ihc_add_mapping.h\<close>. The IP is in the FPGA fabric: its
  registers are accessed through operations that are a parameter, and what the comments of
  \<open>miv_ihc_regs.h\<close> say of them is the locale \<open>ihc_ip\<close>. An access through a null pointer,
  a call of a null handler and a failing assertion are \<open>None\<close>.

  Each driver function is one step: the two sides of a channel are not assumed to touch its
  control register between a read and the write that follows it.
\<close>

section \<open>Registers\<close>

abbreviation (input) RMP_MASK :: u32 where "RMP_MASK \<equiv> 0x01"
abbreviation (input) MP_MASK :: u32 where "MP_MASK \<equiv> 0x02"
abbreviation (input) MPIE_EN :: u32 where "MPIE_EN \<equiv> 0x04"
abbreviation (input) ACK_INT :: u32 where "ACK_INT \<equiv> 0x08"
abbreviation (input) ACK_CLR :: u32 where "ACK_CLR \<equiv> 0x10"
abbreviation (input) ACKIE_EN :: u32 where "ACKIE_EN \<equiv> 0x20"
abbreviation (input) IHC_MAX_MESSAGE_SIZE :: nat where "IHC_MAX_MESSAGE_SIZE \<equiv> 4"
abbreviation (input) MESSAGE_SENT :: u32 where "MESSAGE_SENT \<equiv> 0"
abbreviation (input) MP_BUSY :: u32 where "MP_BUSY \<equiv> 1"
abbreviation (input) NO_MESSAGE_RX :: u32 where "NO_MESSAGE_RX \<equiv> 0"
abbreviation (input) MESSAGE_RX :: u32 where "MESSAGE_RX \<equiv> 1"
abbreviation (input) INVALID_HART_ID :: nat where "INVALID_HART_ID \<equiv> 0xFF"
abbreviation (input) IHC_CHANNEL_TO_HART4 :: nat where "IHC_CHANNEL_TO_HART4 \<equiv> 4"
abbreviation (input) IHC_CHANNEL_TO_CONTEXTA :: nat where "IHC_CHANNEL_TO_CONTEXTA \<equiv> 5"
abbreviation (input) IHC_CHANNEL_TO_CONTEXTB :: nat where "IHC_CHANNEL_TO_CONTEXTB \<equiv> 6"

text \<open>
  The accesses to \<open>IHCC_IP_TypeDef\<close> and \<open>IHCIA_IP_TypeDef\<close> at an address, over whatever
  state the fabric has.
\<close>

record 'h Ihc_Ip =
  ihcc_version :: "nat \<Rightarrow> 'h \<Rightarrow> u32"
  ihcc_ctl :: "nat \<Rightarrow> 'h \<Rightarrow> u32"
  ihcc_ctl_put :: "nat \<Rightarrow> u32 \<Rightarrow> 'h \<Rightarrow> 'h"
  ihcc_size_msg :: "nat \<Rightarrow> 'h \<Rightarrow> u32"
  ihcc_mesg_in :: "nat \<Rightarrow> nat \<Rightarrow> 'h \<Rightarrow> u32"
  ihcc_mesg_out_put :: "nat \<Rightarrow> nat \<Rightarrow> u32 \<Rightarrow> 'h \<Rightarrow> 'h"
  ihcia_msg_avail :: "nat \<Rightarrow> 'h \<Rightarrow> u32"
  ihcia_int_en_put :: "nat \<Rightarrow> u32 \<Rightarrow> 'h \<Rightarrow> 'h"

text \<open>
  A handler gets the remote hart, the message registers, the message size, whether this is an
  acknowledgement and the caller's storage, and works on the caller's state.
\<close>

type_synonym 's QUEUE_IHC_INCOMING = "nat \<Rightarrow> (nat \<Rightarrow> u32) \<Rightarrow> u32 \<Rightarrow> bool \<Rightarrow> u64 \<Rightarrow> 's \<Rightarrow> 's option"

record 's IHC_Hart =
  HART_IHCC :: "nat list"
  HART_IHCIA :: nat
  connected_harts :: u32
  connected_hart_ints :: u32
  msg_in_handler :: "'s QUEUE_IHC_INCOMING option list"

record ('h, 's) Ihc =
  IHC :: "'s IHC_Hart list"
  ip :: 'h
  user :: 's

section \<open>Configuration\<close>

definition ihc_base_address :: "nat list list" where
  "ihc_base_address =
     [[0, 0x50000000, 0x50000100, 0x50000200, 0x50000300],
      [0x50000500, 0, 0x50000600, 0x50000700, 0x50000800],
      [0x50000A00, 0x50000B00, 0, 0x50000C00, 0x50000D00],
      [0x50000F00, 0x50001000, 0x50001100, 0, 0x50001200],
      [0x50001400, 0x50001500, 0x50001600, 0x50001700, 0]]"

definition IHCIA_base_address :: "nat list" where
  "IHCIA_base_address = [0x50000400, 0x50000900, 0x50000E00, 0x50001300, 0x50001800]"

definition IHCIA_remote_harts :: "u32 list" where
  "IHCIA_remote_harts = [0x1E, 0x11, 0x01, 0x01, 0x03]"

definition IHCIA_remote_hart_ints :: "u32 list" where
  "IHCIA_remote_hart_ints = [0, 0x303, 0x003, 0x003, 0x00F]"

abbreviation (input) LIBERO_SETTING_CONTEXT_A_HART_EN :: u32 where "LIBERO_SETTING_CONTEXT_A_HART_EN \<equiv> 0x0E"
abbreviation (input) LIBERO_SETTING_CONTEXT_B_HART_EN :: u32 where "LIBERO_SETTING_CONTEXT_B_HART_EN \<equiv> 0x10"

section \<open>Initialisation\<close>

definition upd_hart :: "nat \<Rightarrow> ('s IHC_Hart \<Rightarrow> 's IHC_Hart) \<Rightarrow> ('h, 's) Ihc \<Rightarrow> ('h, 's) Ihc" where
  "upd_hart i f s = s\<lparr>IHC := (IHC s)[i := f (IHC s ! i)]\<rparr>"

text \<open>One remote hart: forget its handler, set the address of its channel and clear its control
  register unless there is no such channel.\<close>

definition init_remote :: "'h Ihc_Ip \<Rightarrow> nat \<Rightarrow> nat \<Rightarrow> ('h, 's) Ihc \<Rightarrow> ('h, 's) Ihc" where
  "init_remote F my remote s =
     (let a = ihc_base_address ! my ! remote;
          s = upd_hart my (\<lambda>h. h\<lparr>msg_in_handler := (msg_in_handler h)[remote := None],
                                 HART_IHCC := (HART_IHCC h)[remote := a]\<rparr>) s
      in if a \<noteq> 0 then s\<lparr>ip := ihcc_ctl_put F a 0 (ip s)\<rparr> else s)"

definition init_aggregator :: "'h Ihc_Ip \<Rightarrow> nat \<Rightarrow> ('h, 's) Ihc \<Rightarrow> ('h, 's) Ihc" where
  "init_aggregator F my s =
     (let s = upd_hart my (\<lambda>h. h\<lparr>HART_IHCIA := IHCIA_base_address ! my\<rparr>) s
      in s\<lparr>ip := ihcia_int_en_put F (IHCIA_base_address ! my) 0 (ip s)\<rparr>)"

definition IHC_global_init :: "'h Ihc_Ip \<Rightarrow> ('h, 's) Ihc \<Rightarrow> ('h, 's) Ihc" where
  "IHC_global_init F s = fold (\<lambda>my s. init_aggregator F my (fold (init_remote F my) [0..<5] s)) [0..<5] s"

definition IHC_local_context_init :: "'h Ihc_Ip \<Rightarrow> nat \<Rightarrow> ('h, 's) Ihc \<Rightarrow> ('h, 's) Ihc option" where
  "IHC_local_context_init F hart_to_configure s = do {
     require (hart_to_configure < 5);
     let s = init_aggregator F hart_to_configure (fold (init_remote F hart_to_configure) [0..<5] s);
     Some (upd_hart hart_to_configure (\<lambda>h. h\<lparr>connected_harts := IHCIA_remote_harts ! hart_to_configure,
       connected_hart_ints := IHCIA_remote_hart_ints ! hart_to_configure\<rparr>) s) }"

text \<open>\<open>init/hss_ihc_init.c\<close>, without \<open>CONFIG_HSS_USE_IHC\<close>: every hart's driver data is set up,
  no handler is registered.\<close>

fun init_contexts :: "'h Ihc_Ip \<Rightarrow> hart_id list \<Rightarrow> ('h, 's) Ihc \<Rightarrow> ('h, 's) Ihc option" where
  "init_contexts F [] s = Some s"
| "init_contexts F (i # is) s = do { s \<leftarrow> IHC_local_context_init F i s; init_contexts F is s }"

definition HSS_IHCInit :: "'h Ihc_Ip \<Rightarrow> ('h, 's) Ihc \<Rightarrow> ('h, 's) Ihc option" where
  "HSS_IHCInit F s = do {
     s \<leftarrow> IHC_local_context_init F HSS_HART_E51 (IHC_global_init F s);
     init_contexts F [HSS_HART_U54_1..<HSS_HART_U54_4 + 1] s }"

text \<open>\<open>IHC[i]\<close>, and \<open>IHC[i]->HART_IHCC[j]\<close> about to be dereferenced.\<close>

definition hart_of :: "nat \<Rightarrow> ('h, 's) Ihc \<Rightarrow> 's IHC_Hart option" where
  "hart_of i s = (if i < length (IHC s) then Some (IHC s ! i) else None)"

definition ihcc :: "nat \<Rightarrow> nat \<Rightarrow> ('h, 's) Ihc \<Rightarrow> nat option" where
  "ihcc i j s = do {
     h \<leftarrow> hart_of i s;
     require (j < length (HART_IHCC h) \<and> HART_IHCC h ! j \<noteq> 0);
     Some (HART_IHCC h ! j) }"

text \<open>\<open>CTL_REG |= m\<close> and \<open>CTL_REG &= ~m\<close>.\<close>

definition ctl_or :: "'h Ihc_Ip \<Rightarrow> nat \<Rightarrow> u32 \<Rightarrow> ('h, 's) Ihc \<Rightarrow> ('h, 's) Ihc" where
  "ctl_or F a m s = s\<lparr>ip := ihcc_ctl_put F a (ihcc_ctl F a (ip s) OR m) (ip s)\<rparr>"

definition ctl_clear :: "'h Ihc_Ip \<Rightarrow> nat \<Rightarrow> u32 \<Rightarrow> ('h, 's) Ihc \<Rightarrow> ('h, 's) Ihc" where
  "ctl_clear F a m s = s\<lparr>ip := ihcc_ctl_put F a (ihcc_ctl F a (ip s) AND NOT m) (ip s)\<rparr>"

definition IHC_local_remote_config :: "'h Ihc_Ip \<Rightarrow> nat \<Rightarrow> nat \<Rightarrow> 's QUEUE_IHC_INCOMING option \<Rightarrow> bool \<Rightarrow> bool
    \<Rightarrow> ('h, 's) Ihc \<Rightarrow> ('h, 's) Ihc option" where
  "IHC_local_remote_config F hart_to_configure remote_hart_id handler set_mpie_en set_ack_en s = do {
     h \<leftarrow> hart_of hart_to_configure s;
     require (remote_hart_id < length (msg_in_handler h));
     let s = upd_hart hart_to_configure (\<lambda>h. h\<lparr>msg_in_handler := (msg_in_handler h)[remote_hart_id := handler]\<rparr>) s;
     s \<leftarrow> (if handler \<noteq> None then do {
              require (HART_IHCIA h \<noteq> 0);
              Some (s\<lparr>ip := ihcia_int_en_put F (HART_IHCIA h) (IHCIA_remote_hart_ints ! hart_to_configure) (ip s)\<rparr>) }
            else Some s);
     s \<leftarrow> (if set_mpie_en then do {
              a \<leftarrow> ihcc hart_to_configure remote_hart_id s;
              Some (ctl_or F a MPIE_EN s) }
            else Some s);
     (if set_ack_en then do {
        a \<leftarrow> ihcc hart_to_configure remote_hart_id s;
        Some (ctl_or F a ACKIE_EN s) }
      else Some s) }"

section \<open>Contexts\<close>

definition ffs :: "u32 \<Rightarrow> nat" where
  "ffs m = (case find_index (\<lambda>i. bit m i) [0..<32] of None \<Rightarrow> 0 | Some i \<Rightarrow> i + 1)"

definition lowest_hart_in_context :: "u32 \<Rightarrow> nat" where
  "lowest_hart_in_context m =
     (let lowest_hart = if m = LIBERO_SETTING_CONTEXT_A_HART_EN then ffs LIBERO_SETTING_CONTEXT_A_HART_EN
                        else ffs LIBERO_SETTING_CONTEXT_B_HART_EN
      in if lowest_hart \<noteq> 0 then lowest_hart - 1 else 0)"

definition IHC_context_to_context_hart_id :: "nat \<Rightarrow> nat" where
  "IHC_context_to_context_hart_id channel =
     (if channel \<le> IHC_CHANNEL_TO_HART4 then
        if bit LIBERO_SETTING_CONTEXT_A_HART_EN channel then lowest_hart_in_context LIBERO_SETTING_CONTEXT_A_HART_EN
        else if bit LIBERO_SETTING_CONTEXT_B_HART_EN channel then lowest_hart_in_context LIBERO_SETTING_CONTEXT_B_HART_EN
        else INVALID_HART_ID
      else if channel = IHC_CHANNEL_TO_CONTEXTA then lowest_hart_in_context LIBERO_SETTING_CONTEXT_A_HART_EN
      else lowest_hart_in_context LIBERO_SETTING_CONTEXT_B_HART_EN)"

definition IHC_hart_to_context_or_hart_id :: "nat \<Rightarrow> nat" where
  "IHC_hart_to_context_or_hart_id channel =
     (if channel \<le> IHC_CHANNEL_TO_HART4 then channel
      else if channel = IHC_CHANNEL_TO_CONTEXTA then lowest_hart_in_context LIBERO_SETTING_CONTEXT_A_HART_EN
      else lowest_hart_in_context LIBERO_SETTING_CONTEXT_B_HART_EN)"

definition IHC_partner_context_hart_id :: "nat \<Rightarrow> nat" where
  "IHC_partner_context_hart_id channel =
     (if channel \<le> IHC_CHANNEL_TO_HART4 then
        if bit LIBERO_SETTING_CONTEXT_A_HART_EN channel then lowest_hart_in_context LIBERO_SETTING_CONTEXT_B_HART_EN
        else if bit LIBERO_SETTING_CONTEXT_B_HART_EN channel then lowest_hart_in_context LIBERO_SETTING_CONTEXT_A_HART_EN
        else INVALID_HART_ID
      else if channel = IHC_CHANNEL_TO_CONTEXTA then lowest_hart_in_context LIBERO_SETTING_CONTEXT_B_HART_EN
      else lowest_hart_in_context LIBERO_SETTING_CONTEXT_A_HART_EN)"

section \<open>Sending\<close>

text \<open>The common part of the two sending functions.\<close>

definition tx_message :: "'h Ihc_Ip \<Rightarrow> nat \<Rightarrow> (nat \<Rightarrow> u32) \<Rightarrow> ('h, 's) Ihc \<Rightarrow> u32 \<times> ('h, 's) Ihc" where
  "tx_message F a message s =
     (if ihcc_ctl F a (ip s) AND RMP_MASK = RMP_MASK then (MP_BUSY, s)
      else if ihcc_ctl F a (ip s) AND ACK_INT = ACK_INT then (MP_BUSY, s)
      else let s' = s\<lparr>ip := fold (\<lambda>i. ihcc_mesg_out_put F a i (message i)) [0..<unat (ihcc_size_msg F a (ip s))] (ip s)\<rparr>
           in (MESSAGE_SENT, ctl_or F a RMP_MASK s'))"

definition IHC_tx_message_from_context :: "'h Ihc_Ip \<Rightarrow> nat \<Rightarrow> (nat \<Rightarrow> u32) \<Rightarrow> ('h, 's) Ihc
    \<Rightarrow> (u32 \<times> ('h, 's) Ihc) option" where
  "IHC_tx_message_from_context F remote_channel message s = do {
     let my_hart_id = IHC_partner_context_hart_id remote_channel;
     let remote_hart_id = IHC_context_to_context_hart_id remote_channel;
     a \<leftarrow> ihcc my_hart_id remote_hart_id s;
     require (my_hart_id \<noteq> INVALID_HART_ID \<and> remote_hart_id \<noteq> INVALID_HART_ID);
     Some (tx_message F a message s) }"

definition IHC_tx_message_from_hart :: "'h Ihc_Ip \<Rightarrow> hart_id \<Rightarrow> nat \<Rightarrow> (nat \<Rightarrow> u32) \<Rightarrow> ('h, 's) Ihc
    \<Rightarrow> (u32 \<times> ('h, 's) Ihc) option" where
  "IHC_tx_message_from_hart F me remote_channel message s = do {
     a \<leftarrow> ihcc me (IHC_hart_to_context_or_hart_id remote_channel) s;
     Some (tx_message F a message s) }"

section \<open>Receiving\<close>

text \<open>
  What is there from one remote hart: nothing, or a message or acknowledgement. An acknowledgement
  goes first; without polling only what the configuration lets interrupt counts.
\<close>

definition incoming_from :: "'h Ihc_Ip \<Rightarrow> 's IHC_Hart \<Rightarrow> nat \<Rightarrow> bool \<Rightarrow> 'h \<Rightarrow> bool option option" where
  "incoming_from F h remote polling hw =
     (if bit (connected_harts h) remote then do {
        require (HART_IHCIA h \<noteq> 0);
        let avail = ihcia_msg_avail F (HART_IHCIA h) hw;
        let present = (\<lambda>b. bit avail b \<and> (polling \<or> bit (connected_hart_ints h) b));
        Some (if present (remote * 2 + 1) then Some True
              else if present (remote * 2) then Some False else None) }
      else Some None)"

fun incoming_any :: "'h Ihc_Ip \<Rightarrow> 's IHC_Hart \<Rightarrow> nat list \<Rightarrow> bool \<Rightarrow> 'h \<Rightarrow> (nat \<times> bool) option option" where
  "incoming_any F h [] polling hw = Some None"
| "incoming_any F h (remote # rs) polling hw = do {
     r \<leftarrow> incoming_from F h remote polling hw;
     (case r of Some is_ack \<Rightarrow> Some (Some (remote, is_ack)) | None \<Rightarrow> incoming_any F h rs polling hw) }"

definition parse_incoming_hartid :: "'h Ihc_Ip \<Rightarrow> nat \<Rightarrow> bool \<Rightarrow> ('h, 's) Ihc \<Rightarrow> (nat \<times> bool) option option" where
  "parse_incoming_hartid F my polling s = do {
     h \<leftarrow> hart_of my s;
     incoming_any F h [0..<5] polling (ip s) }"

definition parse_incoming_context_msg :: "'h Ihc_Ip \<Rightarrow> nat \<Rightarrow> nat \<Rightarrow> bool \<Rightarrow> ('h, 's) Ihc
    \<Rightarrow> (nat \<times> bool) option option" where
  "parse_incoming_context_msg F my remote polling s =
     (if my > 5 then Some None
      else do {
        h \<leftarrow> hart_of my s;
        r \<leftarrow> incoming_from F h remote polling (ip s);
        Some (map_option (\<lambda>is_ack. (remote, is_ack)) r) })"

definition rx_message :: "'h Ihc_Ip \<Rightarrow> nat \<Rightarrow> nat \<Rightarrow> 's QUEUE_IHC_INCOMING option \<Rightarrow> bool \<Rightarrow> u64 \<Rightarrow> ('h, 's) Ihc
    \<Rightarrow> (u32 \<times> ('h, 's) Ihc) option" where
  "rx_message F my remote handler is_ack storage s = do {
     a \<leftarrow> ihcc my remote s;
     let incoming = (\<lambda>s. do {
       f \<leftarrow> handler;
       u \<leftarrow> f remote (\<lambda>k. ihcc_mesg_in F a k (ip s)) (ihcc_size_msg F a (ip s)) is_ack storage (user s);
       Some (s\<lparr>user := u\<rparr>) });
     (if is_ack then do { s \<leftarrow> incoming s; Some (NO_MESSAGE_RX, s) }
      else if ihcc_ctl F a (ip s) AND MP_MASK = MP_MASK then do {
        s \<leftarrow> incoming s;
        let temp = ihcc_ctl F a (ip s) AND NOT MP_MASK;
        let temp = (if temp AND ACKIE_EN \<noteq> 0 then temp OR ACK_INT else temp);
        Some (MESSAGE_RX, s\<lparr>ip := ihcc_ctl_put F a temp (ip s)\<rparr>) }
      else Some (NO_MESSAGE_RX, s)) }"

text \<open>Hand what was found to the registered handler; an acknowledgement is cleared afterwards.\<close>

definition take_incoming :: "'h Ihc_Ip \<Rightarrow> nat \<Rightarrow> (nat \<times> bool) option \<Rightarrow> u64 \<Rightarrow> ('h, 's) Ihc \<Rightarrow> ('h, 's) Ihc option" where
  "take_incoming F my found storage s =
     (case found of None \<Rightarrow> Some s
      | Some (origin, is_ack) \<Rightarrow> do {
          h \<leftarrow> hart_of my s;
          require (origin < length (msg_in_handler h));
          (_, s) \<leftarrow> rx_message F my origin (msg_in_handler h ! origin) is_ack storage s;
          (if is_ack then do { a \<leftarrow> ihcc my origin s; Some (ctl_clear F a ACK_CLR s) }
           else Some s) })"

definition IHC_message_present_poll :: "'h Ihc_Ip \<Rightarrow> hart_id \<Rightarrow> ('h, 's) Ihc \<Rightarrow> ('h, 's) Ihc option" where
  "IHC_message_present_poll F me s = do {
     found \<leftarrow> parse_incoming_hartid F me True s;
     take_incoming F me found 0 s }"

text \<open>The five interrupt handlers of the harts all call this one.\<close>

definition message_present_isr :: "'h Ihc_Ip \<Rightarrow> hart_id \<Rightarrow> ('h, 's) Ihc \<Rightarrow> ('h, 's) Ihc option" where
  "message_present_isr F me s = do {
     found \<leftarrow> parse_incoming_hartid F me False s;
     take_incoming F me found 0 s }"

definition IHC_context_indirect_isr :: "'h Ihc_Ip \<Rightarrow> hart_id \<Rightarrow> u64 \<Rightarrow> ('h, 's) Ihc \<Rightarrow> ('h, 's) Ihc option" where
  "IHC_context_indirect_isr F me storage s = do {
     let my_context_hart_id = IHC_context_to_context_hart_id me;
     let remote_channel = IHC_partner_context_hart_id my_context_hart_id;
     a \<leftarrow> ihcc my_context_hart_id 0 s;
     let s = (if unat (ihcc_version F a (ip s)) \<le> 5 then ctl_clear F a (ACK_CLR OR MP_MASK) s else s);
     (if my_context_hart_id = INVALID_HART_ID \<or> remote_channel = INVALID_HART_ID then Some s
      else do {
        found \<leftarrow> parse_incoming_context_msg F my_context_hart_id remote_channel False s;
        take_incoming F my_context_hart_id found storage s }) }"


section \<open>Tables\<close>

lemma lowest_harts [simp]:
  "lowest_hart_in_context LIBERO_SETTING_CONTEXT_A_HART_EN = 1"
  "lowest_hart_in_context LIBERO_SETTING_CONTEXT_B_HART_EN = 4"
  by code_simp+

text \<open>
  The two sides of the channel between two harts, and the aggregator of a hart.
\<close>

abbreviation side :: "nat \<Rightarrow> nat \<Rightarrow> nat" where
  "side i j \<equiv> ihc_base_address ! i ! j"

definition joined :: "nat \<Rightarrow> nat \<Rightarrow> bool" where
  "joined i j \<longleftrightarrow> i < 5 \<and> j < 5 \<and> i \<noteq> j"

lemma joined_sym: "joined i j \<Longrightarrow> joined j i"
  by (auto simp: joined_def)

text \<open>The arrays of the driver have five entries each; what a configured hart holds; a hart that
  takes nothing and lets nothing interrupt.\<close>

definition ihc_shape :: "('h, 's) Ihc \<Rightarrow> bool" where
  "ihc_shape s \<longleftrightarrow> length (IHC s) = 5 \<and>
     (\<forall>h \<in> set (IHC s). length (HART_IHCC h) = 5 \<and> length (msg_in_handler h) = 5)"

definition addressed :: "nat \<Rightarrow> 's IHC_Hart \<Rightarrow> bool" where
  "addressed i h \<longleftrightarrow> HART_IHCC h = ihc_base_address ! i \<and> HART_IHCIA h = IHCIA_base_address ! i"

definition connected :: "nat \<Rightarrow> 's IHC_Hart \<Rightarrow> bool" where
  "connected i h \<longleftrightarrow> addressed i h \<and> connected_harts h = IHCIA_remote_harts ! i \<and>
     connected_hart_ints h = IHCIA_remote_hart_ints ! i"

lemma ihc_shapeD:
  assumes "ihc_shape s" "i < 5"
  shows "length (IHC s) = 5" "length (HART_IHCC (IHC s ! i)) = 5" "length (msg_in_handler (IHC s ! i)) = 5"
    "hart_of i s = Some (IHC s ! i)"
  using assms by (auto simp: ihc_shape_def hart_of_def)

lemma ihc_shape_upd:
  assumes "ihc_shape s" "i < 5"
    and "length (HART_IHCC (f (IHC s ! i))) = 5" "length (msg_in_handler (f (IHC s ! i))) = 5"
  shows "ihc_shape (upd_hart i f s)"
  using assms by (auto simp: ihc_shape_def upd_hart_def dest!: subsetD [OF set_update_subset_insert])

lemma less5: "i < 5 \<longleftrightarrow> i = 0 \<or> i = Suc 0 \<or> i = 2 \<or> i = 3 \<or> i = (4 :: nat)"
  by auto

lemma side_nonzero: "i < 5 \<Longrightarrow> j < 5 \<Longrightarrow> side i j = 0 \<longleftrightarrow> i = j"
  by (elim disjE [OF less5 [THEN iffD1]] disjE; simp add: ihc_base_address_def)

lemma rows: "i < 5 \<Longrightarrow> length (ihc_base_address ! i) = 5" "i < 5 \<Longrightarrow> IHCIA_base_address ! i \<noteq> 0"
  by (auto simp: less5 ihc_base_address_def IHCIA_base_address_def)

lemma ihcc_addressed:
  assumes "i < length (IHC s)" "addressed i (IHC s ! i)" "joined i j"
  shows "ihcc i j s = Some (side i j)"
  using assms by (auto simp: ihcc_def hart_of_def addressed_def joined_def require_def rows side_nonzero)

lemma upd_hart_simps [simp]:
  "ip (upd_hart i f s) = ip s" "user (upd_hart i f s) = user s" "IHC (upd_hart i f s) = (IHC s)[i := f (IHC s ! i)]"
  by (simp_all add: upd_hart_def)

section \<open>The IP\<close>

text \<open>
  What there is between two harts: a message sent and not yet taken, the words of it, an
  acknowledgement not yet cleared, and the interrupt enables; all by sending and receiving hart.
\<close>

record Ihc_View =
  v_pending :: "nat \<Rightarrow> nat \<Rightarrow> bool"
  v_words :: "nat \<Rightarrow> nat \<Rightarrow> nat \<Rightarrow> u32"
  v_acked :: "nat \<Rightarrow> nat \<Rightarrow> bool"
  v_mpie :: "nat \<Rightarrow> nat \<Rightarrow> bool"
  v_ackie :: "nat \<Rightarrow> nat \<Rightarrow> bool"

definition flag :: "bool \<Rightarrow> u32 \<Rightarrow> u32" where
  "flag b m = (if b then m else 0)"

definition set2 :: "nat \<Rightarrow> nat \<Rightarrow> 'a \<Rightarrow> (nat \<Rightarrow> nat \<Rightarrow> 'a) \<Rightarrow> nat \<Rightarrow> nat \<Rightarrow> 'a" where
  "set2 i j x f = f(i := (f i)(j := x))"

definition ctl_bits :: "Ihc_View \<Rightarrow> nat \<Rightarrow> nat \<Rightarrow> u32" where
  "ctl_bits v i j = flag (v_pending v i j) RMP_MASK OR flag (v_pending v j i) MP_MASK OR flag (v_mpie v i j) MPIE_EN
     OR flag (v_acked v i j) ACK_INT OR flag (v_acked v j i) ACK_CLR OR flag (v_ackie v i j) ACKIE_EN"

definition ctl_written :: "u32 \<Rightarrow> nat \<Rightarrow> nat \<Rightarrow> Ihc_View \<Rightarrow> Ihc_View" where
  "ctl_written w i j v = v\<lparr>
     v_pending := set2 i j (v_pending v i j \<or> bit w 0) (set2 j i (v_pending v j i \<and> bit w 1) (v_pending v)),
     v_acked := set2 i j (v_acked v i j \<or> bit w 3) (set2 j i (v_acked v j i \<and> bit w 4) (v_acked v)),
     v_mpie := set2 i j (bit w 2) (v_mpie v),
     v_ackie := set2 i j (bit w 5) (v_ackie v)\<rparr>"

lemma bit_masks:
  "(w :: u32) AND RMP_MASK = RMP_MASK \<longleftrightarrow> bit w 0"
  "w AND MP_MASK = MP_MASK \<longleftrightarrow> bit w 1"
  "w AND ACK_INT = ACK_INT \<longleftrightarrow> bit w 3"
  "w AND ACKIE_EN \<noteq> 0 \<longleftrightarrow> bit w 5"
proof -
  have e: "w AND 2 ^ n = 2 ^ n \<longleftrightarrow> bit w n" if "n < 32" for n
  proof
    assume "w AND 2 ^ n = 2 ^ n"
    then have "bit (w AND 2 ^ n) n" using that by (simp add: bit_exp_iff)
    then show "bit w n" by (simp add: bit_and_iff)
  next
    assume "bit w n"
    then show "w AND 2 ^ n = 2 ^ n" using that by (intro bit_eqI) (auto simp: bit_and_iff bit_exp_iff)
  qed
  have z: "w AND 2 ^ n \<noteq> 0 \<longleftrightarrow> bit w n" if "n < 32" for n
  proof
    assume "w AND 2 ^ n \<noteq> 0"
    then obtain k where "bit (w AND 2 ^ n) k" by (metis bit_eqI bit_0_eq bot_apply bot_bool_def)
    then show "bit w n" by (auto simp: bit_and_iff bit_exp_iff)
  next
    assume "bit w n"
    then have "bit (w AND 2 ^ n) n" using that by (simp add: bit_and_iff bit_exp_iff)
    then show "w AND 2 ^ n \<noteq> 0" by auto
  qed
  show "w AND RMP_MASK = RMP_MASK \<longleftrightarrow> bit w 0" "w AND MP_MASK = MP_MASK \<longleftrightarrow> bit w 1"
    "w AND ACK_INT = ACK_INT \<longleftrightarrow> bit w 3" "w AND ACKIE_EN \<noteq> 0 \<longleftrightarrow> bit w 5"
    using e [of 0] e [of 1] e [of 3] z [of 5] by simp_all
qed

lemma bit_flag [simp]: "bit (flag b m) k \<longleftrightarrow> b \<and> bit m k"
  by (simp add: flag_def)

lemma set2_same [simp]: "set2 i j (f i j) f = f"
  by (simp add: set2_def)

lemma set2_id: "f i j = x \<Longrightarrow> set2 i j x f = f"
  by (auto simp: set2_def)

lemma set2_twice [simp]: "set2 i j x (set2 i j y f) = set2 i j x f"
  by (simp add: set2_def)

lemma set2_keep: "i \<noteq> j \<or> a \<noteq> b \<Longrightarrow> set2 i a (f i a) (set2 j b x f) = set2 j b x f"
  by (auto simp: set2_def fun_eq_iff)

lemma joined_neq: "joined i j \<Longrightarrow> i \<noteq> j"
  by (simp add: joined_def)

lemma set2_apply: "set2 i j x f a b = (if a = i \<and> b = j then x else f a b)"
  by (simp add: set2_def)

lemma ctl_written_cong:
  assumes "\<forall>n \<in> {0, 1, 2, 3, 4, 5}. bit w n = bit w' n"
  shows "ctl_written w i j v = ctl_written w' i j v"
  using assms by (simp add: ctl_written_def)

lemma ctl_written_id: "joined i j \<Longrightarrow> ctl_written (ctl_bits v i j) i j v = v"
  by (auto simp: ctl_written_def ctl_bits_def bit_or_iff)

text \<open>A hart that takes nothing and that nothing interrupts; what is left when it is set up.\<close>

definition idle_at :: "nat \<Rightarrow> Ihc_View \<Rightarrow> bool" where
  "idle_at i v \<longleftrightarrow> (\<forall>j < 5. j \<noteq> i \<longrightarrow>
     \<not> v_pending v j i \<and> \<not> v_acked v j i \<and> \<not> v_mpie v i j \<and> \<not> v_ackie v i j)"

definition reset_at :: "nat \<Rightarrow> nat \<Rightarrow> Ihc_View \<Rightarrow> Ihc_View" where
  "reset_at i n v = v\<lparr>
     v_pending := \<lambda>a b. v_pending v a b \<and> \<not> (b = i \<and> a < n \<and> a \<noteq> i),
     v_acked := \<lambda>a b. v_acked v a b \<and> \<not> (b = i \<and> a < n \<and> a \<noteq> i),
     v_mpie := \<lambda>a b. v_mpie v a b \<and> \<not> (a = i \<and> b < n \<and> b \<noteq> i),
     v_ackie := \<lambda>a b. v_ackie v a b \<and> \<not> (a = i \<and> b < n \<and> b \<noteq> i)\<rparr>"

lemma reset_at_0: "reset_at i 0 v = v"
  by (simp add: reset_at_def)

lemma reset_at_Suc: "joined i n \<Longrightarrow> ctl_written 0 i n (reset_at i n v) = reset_at i (Suc n) v"
  by (rule Ihc_View.equality) (auto simp: reset_at_def ctl_written_def set2_def fun_eq_iff joined_def less_Suc_eq)

lemma reset_at_self: "reset_at i (Suc i) v = reset_at i i v"
  by (rule Ihc_View.equality) (auto simp: reset_at_def fun_eq_iff less_Suc_eq)

lemma idle_at_reset: "idle_at i (reset_at i 5 v)" "idle_at j v \<Longrightarrow> idle_at j (reset_at i n v)"
  by (auto simp: idle_at_def reset_at_def)

text \<open>
  The registers as \<open>miv_ihc_regs.h\<close> documents them. RMP is set to send and stays set until the
  other side resets its MP; ACK is set to acknowledge and stays set until the other side writes
  0 to CLR\_ACK, which reads as 1 until then; the reserved bits are ignored. MSG\_AVAIL shows
  messages and acknowledgements whether or not they may interrupt.
\<close>

locale ihc_ip =
  fixes F :: "'h Ihc_Ip" and view :: "'h \<Rightarrow> Ihc_View" and nwords :: nat
  assumes nwords_le: "nwords \<le> IHC_MAX_MESSAGE_SIZE"
    and ctl_read: "joined i j \<Longrightarrow> ihcc_ctl F (side i j) h AND 0x3F = ctl_bits (view h) i j"
    and ctl_put: "joined i j \<Longrightarrow> view (ihcc_ctl_put F (side i j) w h) = ctl_written w i j (view h)"
    and size_msg: "joined i j \<Longrightarrow> ihcc_size_msg F (side i j) h = of_nat nwords"
    and mesg_in: "joined i j \<Longrightarrow> k < nwords \<Longrightarrow> ihcc_mesg_in F (side i j) k h = v_words (view h) j i k"
    and mesg_out: "joined i j \<Longrightarrow> k < nwords \<Longrightarrow> view (ihcc_mesg_out_put F (side i j) k w h) =
      (view h)\<lparr>v_words := set2 i j ((v_words (view h) i j)(k := w)) (v_words (view h))\<rparr>"
    and msg_avail: "i < 5 \<Longrightarrow> j < 5 \<Longrightarrow> bit (ihcia_msg_avail F (IHCIA_base_address ! i) h) (2 * j) \<longleftrightarrow> j \<noteq> i \<and> v_pending (view h) j i"
      "i < 5 \<Longrightarrow> j < 5 \<Longrightarrow> bit (ihcia_msg_avail F (IHCIA_base_address ! i) h) (2 * j + 1) \<longleftrightarrow> j \<noteq> i \<and> v_acked (view h) j i"
    and int_en: "i < 5 \<Longrightarrow> view (ihcia_int_en_put F (IHCIA_base_address ! i) w h) = view h"
begin

lemma ctl_bit:
  assumes "joined i j"
  shows "bit (ihcc_ctl F (side i j) h) 0 \<longleftrightarrow> v_pending (view h) i j"
    "bit (ihcc_ctl F (side i j) h) (Suc 0) \<longleftrightarrow> v_pending (view h) j i"
    "bit (ihcc_ctl F (side i j) h) 2 \<longleftrightarrow> v_mpie (view h) i j"
    "bit (ihcc_ctl F (side i j) h) 3 \<longleftrightarrow> v_acked (view h) i j"
    "bit (ihcc_ctl F (side i j) h) 4 \<longleftrightarrow> v_acked (view h) j i"
    "bit (ihcc_ctl F (side i j) h) 5 \<longleftrightarrow> v_ackie (view h) i j"
proof -
  have "bit (ihcc_ctl F (side i j) h) n \<longleftrightarrow> bit (ctl_bits (view h) i j) n" if "bit (0x3F :: u32) n" for n
    using that by (simp add: bit_and_iff flip: ctl_read [OF assms])
  from this [of 0] this [of 1] this [of 2] this [of 3] this [of 4] this [of 5]
  show "bit (ihcc_ctl F (side i j) h) 0 \<longleftrightarrow> v_pending (view h) i j"
    "bit (ihcc_ctl F (side i j) h) (Suc 0) \<longleftrightarrow> v_pending (view h) j i"
    "bit (ihcc_ctl F (side i j) h) 2 \<longleftrightarrow> v_mpie (view h) i j"
    "bit (ihcc_ctl F (side i j) h) 3 \<longleftrightarrow> v_acked (view h) i j"
    "bit (ihcc_ctl F (side i j) h) 4 \<longleftrightarrow> v_acked (view h) j i"
    "bit (ihcc_ctl F (side i j) h) 5 \<longleftrightarrow> v_ackie (view h) i j"
    by (simp_all add: ctl_bits_def bit_or_iff)
qed

lemma ctl_or_view:
  assumes "joined i j"
  shows "view (ip (ctl_or F (side i j) RMP_MASK s)) = (view (ip s))\<lparr>v_pending := set2 i j True (v_pending (view (ip s)))\<rparr>"
    "view (ip (ctl_or F (side i j) MPIE_EN s)) = (view (ip s))\<lparr>v_mpie := set2 i j True (v_mpie (view (ip s)))\<rparr>"
    "view (ip (ctl_or F (side i j) ACKIE_EN s)) = (view (ip s))\<lparr>v_ackie := set2 i j True (v_ackie (view (ip s)))\<rparr>"
  using assms by (simp_all add: ctl_or_def ctl_put ctl_written_def bit_or_iff ctl_bit)

lemma ack_clear_view:
  assumes "joined i j"
  shows "view (ip (ctl_clear F (side i j) ACK_CLR s)) = (view (ip s))\<lparr>v_acked := set2 j i False (v_acked (view (ip s)))\<rparr>"
  using assms joined_neq [OF assms]
  by (simp add: ctl_clear_def ctl_put ctl_written_def bit_and_iff bit_not_iff ctl_bit set2_keep)

text \<open>Taking a message resets MP and acknowledges it where that is enabled.\<close>

lemma take_view:
  assumes "joined i j"
  shows "view (ihcc_ctl_put F (side i j)
      (let temp = ihcc_ctl F (side i j) h AND NOT MP_MASK in if temp AND ACKIE_EN \<noteq> 0 then temp OR ACK_INT else temp) h) =
    (view h)\<lparr>v_pending := set2 j i False (v_pending (view h)),
      v_acked := set2 i j (v_acked (view h) i j \<or> v_ackie (view h) i j) (v_acked (view h))\<rparr>"
  using assms joined_neq [OF assms]
  by (simp add: Let_def bit_masks bit_and_iff bit_or_iff bit_not_iff ctl_put ctl_written_def ctl_bit set2_keep set2_id)

lemma fill_view:
  assumes "joined i j" "n \<le> nwords"
  shows "view (fold (\<lambda>k. ihcc_mesg_out_put F (side i j) k (message k)) [0..<n] h) =
    (view h)\<lparr>v_words := set2 i j (\<lambda>k. if k < n then message k else v_words (view h) i j k) (v_words (view h))\<rparr>"
  using assms(2)
proof (induction n)
  case 0
  then show ?case by (simp add: set2_id)
next
  case (Suc n)
  have e: "(\<lambda>k. if k < n then message k else w k)(n := message n) = (\<lambda>k. if k < Suc n then message k else w k)" for w
    by (auto simp: fun_eq_iff)
  show ?case using Suc assms(1) by (simp add: mesg_out set2_apply [of i j _ _ i j] e)
qed

text \<open>Sending: refused while the last message is not taken or our acknowledgement not seen.\<close>

lemma tx_view:
  assumes "joined i j"
  shows "tx_message F (side i j) message s =
    (if v_pending (view (ip s)) i j \<or> v_acked (view (ip s)) i j then (MP_BUSY, s)
     else (MESSAGE_SENT, snd (tx_message F (side i j) message s)))"
    and "\<not> v_pending (view (ip s)) i j \<Longrightarrow> \<not> v_acked (view (ip s)) i j \<Longrightarrow>
      view (ip (snd (tx_message F (side i j) message s))) = (view (ip s))\<lparr>
        v_pending := set2 i j True (v_pending (view (ip s))),
        v_words := set2 i j (\<lambda>k. if k < nwords then message k else v_words (view (ip s)) i j k) (v_words (view (ip s)))\<rparr>"
    and "IHC (snd (tx_message F (side i j) message s)) = IHC s" "user (snd (tx_message F (side i j) message s)) = user s"
proof -
  have n: "unat (of_nat nwords :: u32) = nwords" using nwords_le by (simp add: unat_of_nat)
  show "tx_message F (side i j) message s =
    (if v_pending (view (ip s)) i j \<or> v_acked (view (ip s)) i j then (MP_BUSY, s)
     else (MESSAGE_SENT, snd (tx_message F (side i j) message s)))"
    using assms by (simp add: tx_message_def bit_masks ctl_bit Let_def)
  show "view (ip (snd (tx_message F (side i j) message s))) = (view (ip s))\<lparr>
        v_pending := set2 i j True (v_pending (view (ip s))),
        v_words := set2 i j (\<lambda>k. if k < nwords then message k else v_words (view (ip s)) i j k) (v_words (view (ip s)))\<rparr>"
    if "\<not> v_pending (view (ip s)) i j" "\<not> v_acked (view (ip s)) i j"
    using assms that by (simp add: tx_message_def bit_masks ctl_bit Let_def ctl_or_view size_msg n fill_view)
  show "IHC (snd (tx_message F (side i j) message s)) = IHC s" "user (snd (tx_message F (side i j) message s)) = user s"
    by (simp_all add: tx_message_def ctl_or_def Let_def)
qed

text \<open>Initialisation.\<close>

lemma init_remote_steps:
  assumes "ihc_shape s" "i < 5" "n \<le> 5"
  shows "view (ip (fold (init_remote F i) [0..<n] s)) = reset_at i n (view (ip s)) \<and>
    user (fold (init_remote F i) [0..<n] s) = user s \<and>
    ihc_shape (fold (init_remote F i) [0..<n] s) \<and>
    (\<forall>k. k \<noteq> i \<longrightarrow> IHC (fold (init_remote F i) [0..<n] s) ! k = IHC s ! k) \<and>
    (\<forall>j < n. HART_IHCC (IHC (fold (init_remote F i) [0..<n] s) ! i) ! j = side i j \<and>
      msg_in_handler (IHC (fold (init_remote F i) [0..<n] s) ! i) ! j = None)"
  using assms(3)
proof (induction n)
  case 0
  then show ?case using assms(1) by (simp add: reset_at_0)
next
  case (Suc n)
  let ?t = "fold (init_remote F i) [0..<n] s"
  let ?u = "upd_hart i (\<lambda>h. h\<lparr>msg_in_handler := (msg_in_handler h)[n := None], HART_IHCC := (HART_IHCC h)[n := side i n]\<rparr>) ?t"
  have n: "n < 5" "n \<le> 5" using Suc.prems by simp_all
  have IH: "view (ip ?t) = reset_at i n (view (ip s))" "user ?t = user s" "ihc_shape ?t"
    "\<And>k. k \<noteq> i \<Longrightarrow> IHC ?t ! k = IHC s ! k"
    "\<And>j. j < n \<Longrightarrow> HART_IHCC (IHC ?t ! i) ! j = side i j \<and> msg_in_handler (IHC ?t ! i) ! j = None"
    using Suc.IH [OF n(2)] by blast+
  note len = ihc_shapeD [OF IH(3) assms(2)]
  have r: "init_remote F i n ?t = (if i = n then ?u else ?u\<lparr>ip := ihcc_ctl_put F (side i n) 0 (ip ?u)\<rparr>)"
    unfolding init_remote_def Let_def using side_nonzero [OF assms(2) n(1)] by simp
  have v: "view (ip (init_remote F i n ?t)) = reset_at i (Suc n) (view (ip s))"
  proof (cases "i = n")
    case True
    then show ?thesis unfolding r using IH(1) reset_at_self [of i "view (ip s)"] by simp
  next
    case False
    then have "joined i n" using assms(2) n(1) by (simp add: joined_def)
    then show ?thesis unfolding r using False by (simp add: ctl_put IH(1) reset_at_Suc)
  qed
  have h: "IHC (init_remote F i n ?t) = IHC ?u" "user (init_remote F i n ?t) = user s" unfolding r using IH(2) by auto
  have "ihc_shape ?u" by (intro ihc_shape_upd IH(3) assms(2)) (simp_all add: len)
  then have sh: "ihc_shape (init_remote F i n ?t)" unfolding ihc_shape_def h(1) .
  have f: "fold (init_remote F i) [0..<Suc n] s = init_remote F i n ?t" by simp
  show ?case
    unfolding f h(1) using v h(2) sh IH(4,5) len n(1) assms(2) by (auto simp: less_Suc_eq)
qed

lemma init_hart_run:
  assumes "ihc_shape s" "i < 5"
  defines "t \<equiv> init_aggregator F i (fold (init_remote F i) [0..<5] s)"
  shows "view (ip t) = reset_at i 5 (view (ip s))" "user t = user s" "ihc_shape t"
    "k \<noteq> i \<Longrightarrow> IHC t ! k = IHC s ! k" "addressed i (IHC t ! i)" "msg_in_handler (IHC t ! i) = replicate 5 None"
proof -
  let ?u = "fold (init_remote F i) [0..<5] s"
  have u: "view (ip ?u) = reset_at i 5 (view (ip s))" "user ?u = user s" "ihc_shape ?u"
    "\<And>k. k \<noteq> i \<Longrightarrow> IHC ?u ! k = IHC s ! k"
    "\<And>j. j < 5 \<Longrightarrow> HART_IHCC (IHC ?u ! i) ! j = side i j"
    "\<And>j. j < 5 \<Longrightarrow> msg_in_handler (IHC ?u ! i) ! j = None"
    using init_remote_steps [OF assms(1,2), of 5] by blast+
  note len = ihc_shapeD [OF u(3) assms(2)]
  have t: "IHC t = (IHC ?u)[i := (IHC ?u ! i)\<lparr>HART_IHCIA := IHCIA_base_address ! i\<rparr>]"
    "ip t = ihcia_int_en_put F (IHCIA_base_address ! i) 0 (ip ?u)" "user t = user ?u"
    unfolding t_def init_aggregator_def Let_def by simp_all
  show "view (ip t) = reset_at i 5 (view (ip s))" by (simp only: t int_en [OF assms(2)] u)
  show "user t = user s" by (simp only: t u)
  have "ihc_shape (upd_hart i (\<lambda>h. h\<lparr>HART_IHCIA := IHCIA_base_address ! i\<rparr>) ?u)"
    by (intro ihc_shape_upd u(3) assms(2)) (simp_all add: len)
  then show "ihc_shape t" unfolding ihc_shape_def t by simp
  show "IHC t ! k = IHC s ! k" if "k \<noteq> i" using that u(4) [OF that] by (simp add: t(1))
  have "HART_IHCC (IHC ?u ! i) = ihc_base_address ! i"
    using len rows(1) [OF assms(2)] u(5) by (intro nth_equalityI) simp_all
  then show "addressed i (IHC t ! i)" using len(1) assms(2) by (simp add: t(1) addressed_def)
  have "msg_in_handler (IHC ?u ! i) = replicate 5 None"
    using len u(6) by (intro nth_equalityI) (simp_all del: replicate.simps)
  then show "msg_in_handler (IHC t ! i) = replicate 5 None" using len(1) assms(2) by (simp add: t(1))
qed

lemma local_init_run:
  assumes "ihc_shape s" "i < 5"
  obtains t where "IHC_local_context_init F i s = Some t" "ihc_shape t" "user t = user s"
    "connected i (IHC t ! i)" "msg_in_handler (IHC t ! i) = replicate 5 None" "idle_at i (view (ip t))"
    "\<And>k. k \<noteq> i \<Longrightarrow> IHC t ! k = IHC s ! k" "\<And>k. idle_at k (view (ip s)) \<Longrightarrow> idle_at k (view (ip t))"
proof -
  let ?u = "init_aggregator F i (fold (init_remote F i) [0..<5] s)"
  let ?t = "upd_hart i (\<lambda>h. h\<lparr>connected_harts := IHCIA_remote_harts ! i, connected_hart_ints := IHCIA_remote_hart_ints ! i\<rparr>) ?u"
  note u = init_hart_run [OF assms]
  note len = ihc_shapeD [OF u(3) assms(2)]
  show ?thesis
  proof (rule that [of ?t])
    show "IHC_local_context_init F i s = Some ?t"
      using assms(2) by (simp add: IHC_local_context_init_def require_def Let_def del: upt_rec_numeral)
    show "ihc_shape ?t" by (intro ihc_shape_upd u(3) assms(2)) (simp_all add: len del: upt_rec_numeral)
    show "user ?t = user s" using u(2) by (simp del: upt_rec_numeral)
    show "connected i (IHC ?t ! i)" "msg_in_handler (IHC ?t ! i) = replicate 5 None"
      using u(5,6) len(1) assms(2) by (simp_all add: connected_def addressed_def del: upt_rec_numeral replicate.simps)
    show "idle_at i (view (ip ?t))" using u(1) idle_at_reset(1) by (simp del: upt_rec_numeral)
    show "IHC ?t ! k = IHC s ! k" if "k \<noteq> i" for k using u(4) [OF that] that by (simp del: upt_rec_numeral)
    show "idle_at k (view (ip ?t))" if "idle_at k (view (ip s))" for k
      using u(1) idle_at_reset(2) [OF that] by (simp del: upt_rec_numeral)
  qed
qed

lemma global_init_run:
  assumes "ihc_shape s"
  shows "ihc_shape (IHC_global_init F s)" "user (IHC_global_init F s) = user s"
proof -
  let ?g = "\<lambda>is. fold (\<lambda>my s. init_aggregator F my (fold (init_remote F my) [0..<5] s)) is"
  have "\<forall>i \<in> set is. i < 5 \<Longrightarrow> ihc_shape s \<Longrightarrow> ihc_shape (?g is s) \<and> user (?g is s) = user s" for "is" s
  proof (induction "is" arbitrary: s)
    case Nil
    then show ?case by simp
  next
    case (Cons i "is")
    have "i < 5" using Cons.prems(1) by simp
    note u = init_hart_run [OF Cons.prems(2) this]
    show ?case using Cons.IH [OF _ u(3)] Cons.prems(1) u(2) by (simp del: upt_rec_numeral)
  qed
  from this [of "[0..<5]" s] assms show "ihc_shape (IHC_global_init F s)" "user (IHC_global_init F s) = user s"
    by (simp_all add: IHC_global_init_def del: upt_rec_numeral)
qed

lemma contexts_run:
  assumes "ihc_shape s" "\<forall>i \<in> set is. i < 5" "distinct is"
  shows "\<exists>t. init_contexts F is s = Some t \<and> ihc_shape t \<and> user t = user s \<and>
    (\<forall>i. i \<notin> set is \<longrightarrow> IHC t ! i = IHC s ! i) \<and> (\<forall>i. idle_at i (view (ip s)) \<longrightarrow> idle_at i (view (ip t))) \<and>
    (\<forall>i \<in> set is. connected i (IHC t ! i) \<and> msg_in_handler (IHC t ! i) = replicate 5 None \<and> idle_at i (view (ip t)))"
  using assms
proof (induction "is" arbitrary: s)
  case Nil
  then show ?case by simp
next
  case (Cons i "is")
  have i: "i < 5" using Cons.prems(2) by simp
  obtain u where u: "IHC_local_context_init F i s = Some u" "ihc_shape u" "user u = user s" "connected i (IHC u ! i)"
    "msg_in_handler (IHC u ! i) = replicate 5 None" "idle_at i (view (ip u))"
    "\<And>k. k \<noteq> i \<Longrightarrow> IHC u ! k = IHC s ! k" "\<And>k. idle_at k (view (ip s)) \<Longrightarrow> idle_at k (view (ip u))"
    using local_init_run [OF Cons.prems(1) i] by blast
  obtain t where t: "init_contexts F is u = Some t" "ihc_shape t" "user t = user u"
    "\<forall>k. k \<notin> set is \<longrightarrow> IHC t ! k = IHC u ! k" "\<forall>k. idle_at k (view (ip u)) \<longrightarrow> idle_at k (view (ip t))"
    "\<forall>k \<in> set is. connected k (IHC t ! k) \<and> msg_in_handler (IHC t ! k) = replicate 5 None \<and> idle_at k (view (ip t))"
    using Cons.IH [OF u(2)] Cons.prems(2,3) by (simp del: replicate.simps) blast
  show ?case using u t Cons.prems(3) by (intro exI [of _ t]) (auto simp del: replicate.simps)
qed

lemma init_run:
  assumes "ihc_shape s"
  obtains t where "HSS_IHCInit F s = Some t" "ihc_shape t" "user t = user s"
    "\<And>i. i < 5 \<Longrightarrow> connected i (IHC t ! i) \<and> msg_in_handler (IHC t ! i) = replicate 5 None \<and> idle_at i (view (ip t))"
proof -
  note g = global_init_run [OF assms]
  have l: "\<forall>i \<in> set (0 # [1..<4 + 1]). i < 5" "distinct (0 # [1..<4 + 1])" by auto
  obtain t where t: "init_contexts F (0 # [1..<4 + 1]) (IHC_global_init F s) = Some t" "ihc_shape t"
    "user t = user (IHC_global_init F s)" "\<forall>i \<in> set (0 # [1..<4 + 1]). connected i (IHC t ! i) \<and>
      msg_in_handler (IHC t ! i) = replicate 5 None \<and> idle_at i (view (ip t))"
    using contexts_run [OF g(1) l] by blast
  show ?thesis
  proof (rule that [of t])
    show "HSS_IHCInit F s = Some t" using t(1) unfolding HSS_IHCInit_def init_contexts.simps .
    show "user t = user s" using t(3) g(2) by simp
    show "connected i (IHC t ! i) \<and> msg_in_handler (IHC t ! i) = replicate 5 None \<and> idle_at i (view (ip t))" if "i < 5" for i
      using t(4) that by (auto simp: less5 simp del: replicate.simps upt_rec_numeral)
  qed (rule t(2))
qed

end

section \<open>A fabric that follows the documentation\<close>

text \<open>Its state is the view itself; an address gives the two harts of the side it belongs to.\<close>

definition harts_of :: "nat \<Rightarrow> nat \<times> nat" where
  "harts_of a = (let i = (a - 0x50000000) div 0x500; k = (a - 0x50000000) mod 0x500 div 0x100
                 in (i, if k < i then k else k + 1))"

definition avail_bits :: "Ihc_View \<Rightarrow> nat \<Rightarrow> u32" where
  "avail_bits v i =
     flag (i \<noteq> 0 \<and> v_pending v 0 i) 0x001 OR flag (i \<noteq> 0 \<and> v_acked v 0 i) 0x002 OR
     flag (i \<noteq> 1 \<and> v_pending v 1 i) 0x004 OR flag (i \<noteq> 1 \<and> v_acked v 1 i) 0x008 OR
     flag (i \<noteq> 2 \<and> v_pending v 2 i) 0x010 OR flag (i \<noteq> 2 \<and> v_acked v 2 i) 0x020 OR
     flag (i \<noteq> 3 \<and> v_pending v 3 i) 0x040 OR flag (i \<noteq> 3 \<and> v_acked v 3 i) 0x080 OR
     flag (i \<noteq> 4 \<and> v_pending v 4 i) 0x100 OR flag (i \<noteq> 4 \<and> v_acked v 4 i) 0x200"

definition ihc_fabric :: "nat \<Rightarrow> u32 \<Rightarrow> Ihc_View Ihc_Ip" where
  "ihc_fabric nwords version =
     \<lparr>ihcc_version = (\<lambda>a v. version),
      ihcc_ctl = (\<lambda>a v. case harts_of a of (i, j) \<Rightarrow> ctl_bits v i j),
      ihcc_ctl_put = (\<lambda>a w v. case harts_of a of (i, j) \<Rightarrow> ctl_written w i j v),
      ihcc_size_msg = (\<lambda>a v. of_nat nwords),
      ihcc_mesg_in = (\<lambda>a k v. case harts_of a of (i, j) \<Rightarrow> v_words v j i k),
      ihcc_mesg_out_put = (\<lambda>a k w v. case harts_of a of (i, j) \<Rightarrow> v\<lparr>v_words := set2 i j ((v_words v i j)(k := w)) (v_words v)\<rparr>),
      ihcia_msg_avail = (\<lambda>a v. avail_bits v (fst (harts_of a))),
      ihcia_int_en_put = (\<lambda>a w v. v)\<rparr>"

lemma harts_of_side: "joined i j \<Longrightarrow> harts_of (side i j) = (i, j)"
  unfolding joined_def
  by (elim conjE disjE [OF less5 [THEN iffD1]] disjE; simp add: harts_of_def ihc_base_address_def)

lemma harts_of_aggregator: "i < 5 \<Longrightarrow> fst (harts_of (IHCIA_base_address ! i)) = i"
  by (elim disjE [OF less5 [THEN iffD1]] disjE; simp add: harts_of_def IHCIA_base_address_def)

lemma ctl_bits_low: "ctl_bits v i j AND 0x3F = ctl_bits v i j"
  by (simp add: ctl_bits_def flag_def)

lemma avail_bit:
  "j < 5 \<Longrightarrow> bit (avail_bits v i) (2 * j) \<longleftrightarrow> j \<noteq> i \<and> v_pending v j i"
  "j < 5 \<Longrightarrow> bit (avail_bits v i) (Suc (2 * j)) \<longleftrightarrow> j \<noteq> i \<and> v_acked v j i"
  unfolding avail_bits_def
  by (elim disjE [OF less5 [THEN iffD1]] disjE; simp only:; simp add: bit_or_iff; blast)+

interpretation fab: ihc_ip "ihc_fabric (min nwords 4) version" id "min nwords 4"
proof
  fix i j :: nat and h :: Ihc_View
  assume "i < 5" "j < 5"
  then show "bit (ihcia_msg_avail (ihc_fabric (min nwords 4) version) (IHCIA_base_address ! i) h) (2 * j) \<longleftrightarrow>
      j \<noteq> i \<and> v_pending (id h) j i"
    "bit (ihcia_msg_avail (ihc_fabric (min nwords 4) version) (IHCIA_base_address ! i) h) (2 * j + 1) \<longleftrightarrow>
      j \<noteq> i \<and> v_acked (id h) j i"
    by (simp_all add: ihc_fabric_def harts_of_aggregator avail_bit)
qed (simp_all add: ihc_fabric_def harts_of_side ctl_bits_low)

end
