(* ===== verification/Ecall.thy ===== *)
theory Ecall
  imports Ihc Dispatch
begin

unbundle bit_operations_syntax

text \<open>
  The vendor extension of the SBI: \<open>services/opensbi/opensbi_ecall.c\<close> with the calls by which
  the two contexts exchange messages (\<open>opensbi_ihc_ecall.c\<close>) and control each other
  (\<open>opensbi_rproc_ecall.c\<close>). The arguments of a call are its function number and the registers
  \<open>a0\<close> and \<open>a1\<close>; the calling hart is an argument as well.
\<close>

section \<open>Messages between the contexts\<close>

abbreviation (input) SBI_OK :: int where "SBI_OK \<equiv> 0"
abbreviation (input) SBI_ERR_FAILED :: int where "SBI_ERR_FAILED \<equiv> -1"
abbreviation (input) SBI_ENOTSUPP :: int where "SBI_ENOTSUPP \<equiv> -2"
abbreviation (input) SBI_EINVAL :: int where "SBI_EINVAL \<equiv> -3"
abbreviation (input) SBI_ERR_DENIED :: int where "SBI_ERR_DENIED \<equiv> -4"

abbreviation (input) SBI_EXT_IHC_CTX_INIT :: u64 where "SBI_EXT_IHC_CTX_INIT \<equiv> 0"
abbreviation (input) SBI_EXT_IHC_SEND :: u64 where "SBI_EXT_IHC_SEND \<equiv> 1"
abbreviation (input) SBI_EXT_IHC_RECEIVE :: u64 where "SBI_EXT_IHC_RECEIVE \<equiv> 2"
abbreviation (input) SBI_EXT_RPROC_STATE :: u64 where "SBI_EXT_RPROC_STATE \<equiv> 3"
abbreviation (input) SBI_EXT_RPROC_START :: u64 where "SBI_EXT_RPROC_START \<equiv> 4"
abbreviation (input) SBI_EXT_RPROC_STOP :: u64 where "SBI_EXT_RPROC_STOP \<equiv> 5"
abbreviation (input) SBI_EXT_HSS_REBOOT :: u64 where "SBI_EXT_HSS_REBOOT \<equiv> 0x10"

abbreviation (input) MP_IRQ :: u8 where "MP_IRQ \<equiv> 0"
abbreviation (input) ACK_IRQ :: u8 where "ACK_IRQ \<equiv> 1"

text \<open>Word \<open>i\<close> of the caller's message, and the bytes of a word.\<close>

definition word_at :: "memory \<Rightarrow> u64 \<Rightarrow> nat \<Rightarrow> u32" where
  "word_at m a i = of_nat (le_nat (mem_read m (a + 4 * of_nat i) 4))"

definition word_bytes :: "u32 \<Rightarrow> u8 list" where
  "word_bytes w = le_bytes 4 (unat w)"

text \<open>
  \<open>struct ihc_sbi_rx_msg\<close> is 20 bytes: four words, the kind of interrupt and padding. It is a
  local variable, whatever it held before is the argument \<open>junk\<close>. A message that does not fit
  into the four words is undefined.
\<close>

definition message_present_handler :: "u8 list \<Rightarrow> memory QUEUE_IHC_INCOMING" where
  "message_present_handler junk remote_hart_id message message_size is_ack message_storage_ptr mem =
     (if is_ack then Some (mem_write mem message_storage_ptr (junk[16 := ACK_IRQ]))
      else do {
        require (unat message_size \<le> IHC_MAX_MESSAGE_SIZE);
        Some (mem_write mem message_storage_ptr
          (splice (junk[16 := MP_IRQ]) 0 (concat (map (\<lambda>i. word_bytes (message i)) [0..<unat message_size])))) })"

definition sbi_ecall_ihc_handler :: "'h Ihc_Ip \<Rightarrow> u8 list \<Rightarrow> hart_id \<Rightarrow> u64 \<Rightarrow> u64 \<Rightarrow> u64 \<Rightarrow> ('h, memory) Ihc
    \<Rightarrow> (int \<times> ('h, memory) Ihc) option" where
  "sbi_ecall_ihc_handler F junk me funcid a0 a1 s =
     (let remote_channel = unat (ucast a0 :: u32) in
      if remote_channel < IHC_CHANNEL_TO_CONTEXTA \<or> remote_channel > IHC_CHANNEL_TO_CONTEXTB then Some (SBI_EINVAL, s)
      else if funcid = SBI_EXT_IHC_CTX_INIT then do {
        s \<leftarrow> IHC_local_remote_config F (IHC_context_to_context_hart_id me) (IHC_context_to_context_hart_id remote_channel)
               (Some (message_present_handler junk)) True True s;
        Some (SBI_OK, s) }
      else if funcid = SBI_EXT_IHC_SEND then do {
        (r, s) \<leftarrow> IHC_tx_message_from_context F remote_channel (word_at (user s) a1) s;
        Some (if r \<noteq> 0 then SBI_ERR_DENIED else SBI_OK, s) }
      else if funcid = SBI_EXT_IHC_RECEIVE then do {
        s \<leftarrow> IHC_context_indirect_isr F me a1 s;
        Some (SBI_OK, s) }
      else Some (SBI_ENOTSUPP, s))"

section \<open>The promise\<close>

text \<open>
  The two contexts, each known by its first hart. Between them is a link that holds in each
  direction at most one message, and an acknowledgement the other side has not seen.
\<close>

datatype Context = Context_A | Context_B

fun ctx_hart :: "Context \<Rightarrow> hart_id" where
  "ctx_hart Context_A = 1"
| "ctx_hart Context_B = 4"

fun other :: "Context \<Rightarrow> Context" where
  "other Context_A = Context_B"
| "other Context_B = Context_A"

definition ctx_of_hart :: "hart_id \<Rightarrow> Context" where
  "ctx_of_hart h = (if h = 4 then Context_B else Context_A)"

definition ctx_of_channel :: "nat \<Rightarrow> Context" where
  "ctx_of_channel c = (if c = IHC_CHANNEL_TO_CONTEXTA then Context_A else Context_B)"

record Link =
  box :: "Context \<Rightarrow> u32 list option"
  unseen :: "Context \<Rightarrow> bool"

datatype event = Sent Context "u32 list" | Refused Context | Received Context "u32 list" | Acked Context | Idle | Failed int

fun event_status :: "event \<Rightarrow> int" where
  "event_status (Refused c) = SBI_ERR_DENIED"
| "event_status (Failed r) = r"
| "event_status _ = SBI_OK"

definition rx_record :: "u8 list \<Rightarrow> u8 \<Rightarrow> u32 list \<Rightarrow> u8 list" where
  "rx_record junk irq ws = splice (junk[16 := irq]) 0 (concat (map word_bytes ws))"

text \<open>A call as the link sees it: a sender named by the channel, a receiver by the hart.\<close>

definition link_send :: "Context \<Rightarrow> u32 list \<Rightarrow> Link \<Rightarrow> event \<times> Link" where
  "link_send c ws l =
     (if box l c \<noteq> None \<or> unseen l c then (Refused c, l) else (Sent c ws, l\<lparr>box := (box l)(c := Some ws)\<rparr>))"

definition link_receive :: "u8 list \<Rightarrow> Context \<Rightarrow> u64 \<Rightarrow> Link \<times> memory \<Rightarrow> event \<times> Link \<times> memory" where
  "link_receive junk c p = (\<lambda>(l, m).
     if unseen l (other c) then
       (Acked c, l\<lparr>unseen := (unseen l)(other c := False)\<rparr>, mem_write m p (rx_record junk ACK_IRQ []))
     else case box l (other c) of
       None \<Rightarrow> (Idle, l, m)
     | Some ws \<Rightarrow> (Received c ws, l\<lparr>box := (box l)(other c := None), unseen := (unseen l)(c := True)\<rparr>,
                   mem_write m p (rx_record junk MP_IRQ ws)))"

definition link_call :: "nat \<Rightarrow> u8 list \<Rightarrow> hart_id \<times> u64 \<times> u64 \<times> u64 \<Rightarrow> Link \<times> memory \<Rightarrow> event \<times> Link \<times> memory" where
  "link_call nwords junk = (\<lambda>(me, funcid, a0, a1) (l, m).
     let remote_channel = unat (ucast a0 :: u32) in
     if remote_channel < IHC_CHANNEL_TO_CONTEXTA \<or> remote_channel > IHC_CHANNEL_TO_CONTEXTB then (Failed SBI_EINVAL, l, m)
     else if funcid = SBI_EXT_IHC_CTX_INIT then (Idle, l, m)
     else if funcid = SBI_EXT_IHC_SEND then
       (case link_send (other (ctx_of_channel remote_channel)) (map (word_at m a1) [0..<nwords]) l of (e, l) \<Rightarrow> (e, l, m))
     else if funcid = SBI_EXT_IHC_RECEIVE then link_receive junk (ctx_of_hart me) a1 (l, m)
     else (Failed SBI_ENOTSUPP, l, m))"

text \<open>Sequences of calls, in the order the harts make them.\<close>

type_synonym call = "hart_id \<times> u64 \<times> u64 \<times> u64"

fun ihc_calls :: "'h Ihc_Ip \<Rightarrow> u8 list \<Rightarrow> call list \<Rightarrow> ('h, memory) Ihc \<Rightarrow> (int list \<times> ('h, memory) Ihc) option" where
  "ihc_calls F junk [] s = Some ([], s)"
| "ihc_calls F junk ((me, funcid, a0, a1) # cs) s = do {
     (r, s) \<leftarrow> sbi_ecall_ihc_handler F junk me funcid a0 a1 s;
     (rs, s) \<leftarrow> ihc_calls F junk cs s;
     Some (r # rs, s) }"

fun link_calls :: "nat \<Rightarrow> u8 list \<Rightarrow> call list \<Rightarrow> Link \<times> memory \<Rightarrow> event list \<times> Link \<times> memory" where
  "link_calls nwords junk [] lm = ([], lm)"
| "link_calls nwords junk (c # cs) lm =
     (case link_call nwords junk c lm of (e, lm) \<Rightarrow> case link_calls nwords junk cs lm of (es, lm) \<Rightarrow> (e # es, lm))"

text \<open>What a context has sent, received and seen acknowledged.\<close>

fun sent_by :: "Context \<Rightarrow> event list \<Rightarrow> u32 list list" where
  "sent_by c [] = []"
| "sent_by c (Sent d ws # es) = (if d = c then ws # sent_by c es else sent_by c es)"
| "sent_by c (_ # es) = sent_by c es"

fun received_by :: "Context \<Rightarrow> event list \<Rightarrow> u32 list list" where
  "received_by c [] = []"
| "received_by c (Received d ws # es) = (if d = c then ws # received_by c es else received_by c es)"
| "received_by c (_ # es) = received_by c es"

definition pending_of :: "Context \<Rightarrow> Link \<Rightarrow> u32 list list" where
  "pending_of c l = (case box l c of None \<Rightarrow> [] | Some ws \<Rightarrow> [ws])"

definition idle_link :: Link where
  "idle_link = \<lparr>box = (\<lambda>_. None), unseen = (\<lambda>_. False)\<rparr>"

lemma other_other [simp]: "other (other c) = c" "other c \<noteq> c" "c \<noteq> other c"
  by (cases c; simp)+

lemma link_send_conserves:
  assumes "link_send d ws l = (e, l')"
  shows "pending_of c l @ sent_by c [e] = received_by (other c) [e] @ pending_of c l'"
  using assms by (auto simp: link_send_def pending_of_def split: if_splits)

lemma link_receive_conserves:
  assumes "link_receive junk d p (l, m) = (e, l', m')"
  shows "pending_of c l @ sent_by c [e] = received_by (other c) [e] @ pending_of c l'"
proof -
  have c: "other d = c \<longleftrightarrow> d = other c" for c by (cases d; cases c) simp_all
  show ?thesis
    using assms by (auto simp: link_receive_def pending_of_def c split: if_splits option.splits)
qed

lemma link_call_conserves:
  assumes "link_call nwords junk k (l, m) = (e, l', m')"
  shows "pending_of c l @ sent_by c [e] = received_by (other c) [e] @ pending_of c l'"
proof -
  obtain me funcid a0 a1 where k: "k = (me, funcid, a0, a1)" by (cases k)
  define r where "r = unat (ucast a0 :: u32)"
  define x where "x = link_send (other (ctx_of_channel r)) (map (word_at m a1) [0..<nwords]) l"
  have call: "link_call nwords junk k (l, m) =
      (if r < 5 \<or> 6 < r then (Failed SBI_EINVAL, l, m) else if funcid = 0 then (Idle, l, m)
       else if funcid = 1 then (fst x, snd x, m) else if funcid = 2 then link_receive junk (ctx_of_hart me) a1 (l, m)
       else (Failed SBI_ENOTSUPP, l, m))"
    by (simp add: k link_call_def r_def x_def Let_def split_beta)
  have x: "link_send (other (ctx_of_channel r)) (map (word_at m a1) [0..<nwords]) l = (fst x, snd x)" by (simp add: x_def)
  show ?thesis
    using assms unfolding call
    by (auto split: if_splits intro: link_send_conserves [OF x] link_receive_conserves)
qed

text \<open>The conservation of messages: first in, first out, nothing lost, nothing twice.\<close>

lemma sent_by_Cons: "sent_by c (e # es) = sent_by c [e] @ sent_by c es"
  by (cases e) simp_all

lemma received_by_Cons: "received_by c (e # es) = received_by c [e] @ received_by c es"
  by (cases e) simp_all

lemma link_conserves:
  "link_calls nwords junk ks lm = (es, l', m') \<Longrightarrow> pending_of c (fst lm) @ sent_by c es = received_by (other c) es @ pending_of c l'"
proof (induction ks arbitrary: lm es)
  case Nil
  then show ?case by simp
next
  case (Cons k ks)
  obtain l m where lm: "lm = (l, m)" by fastforce
  obtain e l1 m1 where e: "link_call nwords junk k (l, m) = (e, l1, m1)" by (metis prod_cases3)
  obtain fs where f: "link_calls nwords junk ks (l1, m1) = (fs, l', m')" "es = e # fs"
    using Cons.prems by (auto simp: lm e split: prod.splits)
  have "pending_of c l @ sent_by c (e # fs) = (pending_of c l @ sent_by c [e]) @ sent_by c fs"
    by (subst sent_by_Cons) simp
  also have "\<dots> = received_by (other c) [e] @ (pending_of c l1 @ sent_by c fs)"
    using link_call_conserves [OF e, of c] by simp
  also have "\<dots> = (received_by (other c) [e] @ received_by (other c) fs) @ pending_of c l'"
    using Cons.IH [OF f(1)] by simp
  also have "\<dots> = received_by (other c) (e # fs) @ pending_of c l'" by (subst received_by_Cons [symmetric]) simp
  finally show ?case by (simp add: lm f(2))
qed

section \<open>The driver meets it\<close>

text \<open>A hart of the contexts calls; a context does not register for its own channel.\<close>

definition proper_call :: "call \<Rightarrow> bool" where
  "proper_call = (\<lambda>(me, funcid, a0, a1). is_u54 me \<and>
     (funcid = SBI_EXT_IHC_CTX_INIT \<longrightarrow> unat (ucast a0 :: u32) \<noteq>
       (if ctx_of_hart me = Context_A then IHC_CHANNEL_TO_CONTEXTA else IHC_CHANNEL_TO_CONTEXTB)))"

lemma context_ids [simp]:
  "IHC_context_to_context_hart_id 5 = ctx_hart Context_A" "IHC_context_to_context_hart_id 6 = ctx_hart Context_B"
  "IHC_partner_context_hart_id 5 = ctx_hart Context_B" "IHC_partner_context_hart_id 6 = ctx_hart Context_A"
  "IHC_partner_context_hart_id (ctx_hart c) = ctx_hart (other c)"
  by (cases c; simp add: IHC_context_to_context_hart_id_def IHC_partner_context_hart_id_def)+

lemma is_u54_iff: "is_u54 h \<longleftrightarrow> h = 1 \<or> h = 2 \<or> h = 3 \<or> h = 4"
  by (auto simp: is_u54_def)

lemma context_of_hart: "is_u54 h \<Longrightarrow> IHC_context_to_context_hart_id h = ctx_hart (ctx_of_hart h)"
  by (auto simp: IHC_context_to_context_hart_id_def ctx_of_hart_def is_u54_iff)

lemma ctx_hart_simps [simp]:
  "joined (ctx_hart c) (ctx_hart (other c))" "ctx_hart c < 5" "ctx_hart c \<noteq> 0xFF" "joined (ctx_hart c) 0" "\<not> 5 < ctx_hart c"
  "ctx_hart c = ctx_hart d \<longleftrightarrow> c = d"
  by (cases c; cases d; simp add: joined_def)+

lemma ctx_of_channel_cases:
  assumes "\<not> (r < IHC_CHANNEL_TO_CONTEXTA \<or> IHC_CHANNEL_TO_CONTEXTB < r)"
  shows "IHC_context_to_context_hart_id r = ctx_hart (ctx_of_channel r)"
    "IHC_partner_context_hart_id r = ctx_hart (other (ctx_of_channel r))"
proof -
  have "r = 5 \<or> r = 6" using assms by linarith
  then show "IHC_context_to_context_hart_id r = ctx_hart (ctx_of_channel r)"
    "IHC_partner_context_hart_id r = ctx_hart (other (ctx_of_channel r))"
    by (auto simp: ctx_of_channel_def)
qed

definition link_of :: "nat \<Rightarrow> Ihc_View \<Rightarrow> Link" where
  "link_of nwords v =
     \<lparr>box = (\<lambda>c. if v_pending v (ctx_hart c) (ctx_hart (other c))
                  then Some (map (v_words v (ctx_hart c) (ctx_hart (other c))) [0..<nwords]) else None),
      unseen = (\<lambda>c. v_acked v (ctx_hart c) (ctx_hart (other c)))\<rparr>"

text \<open>Both contexts have called \<open>SBI_EXT_IHC_CTX_INIT\<close> with the channel of the other.\<close>

definition registered :: "u8 list \<Rightarrow> Context \<Rightarrow> Ihc_View \<Rightarrow> ('h, memory) Ihc \<Rightarrow> bool" where
  "registered junk c v s \<longleftrightarrow> v_ackie v (ctx_hart c) (ctx_hart (other c)) \<and>
     msg_in_handler (IHC s ! ctx_hart c) ! ctx_hart (other c) = Some (message_present_handler junk)"

definition set_up :: "('h, 's) Ihc \<Rightarrow> bool" where
  "set_up s \<longleftrightarrow> ihc_shape s \<and> (\<forall>i < 5. connected i (IHC s ! i))"

lemma set_upD:
  assumes "set_up s" "i < 5"
  shows "length (IHC s) = 5" "length (msg_in_handler (IHC s ! i)) = 5" "hart_of i s = Some (IHC s ! i)"
    "connected i (IHC s ! i)" "joined i j \<Longrightarrow> ihcc i j s = Some (side i j)"
    "HART_IHCIA (IHC s ! i) = IHCIA_base_address ! i"
  using assms ihcc_addressed [of i s j] by (auto simp: set_up_def connected_def ihc_shapeD addressed_def)

lemma set_up_cong: "set_up s \<Longrightarrow> IHC t = IHC s \<Longrightarrow> set_up t"
  by (simp add: set_up_def ihc_shape_def)

lemma registered_cong: "registered junk c v s \<Longrightarrow> IHC t = IHC s \<Longrightarrow> v_ackie w = v_ackie v \<Longrightarrow> registered junk c w t"
  by (simp add: registered_def)

lemma tx_calls:
  assumes "set_up s" "\<not> (r < IHC_CHANNEL_TO_CONTEXTA \<or> IHC_CHANNEL_TO_CONTEXTB < r)"
  shows "IHC_tx_message_from_context F r message s =
    Some (tx_message F (side (ctx_hart (other (ctx_of_channel r))) (ctx_hart (ctx_of_channel r))) message s)"
  using set_upD(5) [OF assms(1), of "ctx_hart (other (ctx_of_channel r))" "ctx_hart (ctx_of_channel r)"]
    ctx_hart_simps(1) [of "other (ctx_of_channel r)"]
  by (simp add: IHC_tx_message_from_context_def ctx_of_channel_cases [OF assms(2)] require_def)

lemma link_of_simps:
  "box (link_of n v) c = (if v_pending v (ctx_hart c) (ctx_hart (other c))
     then Some (map (v_words v (ctx_hart c) (ctx_hart (other c))) [0..<n]) else None)"
  "unseen (link_of n v) c \<longleftrightarrow> v_acked v (ctx_hart c) (ctx_hart (other c))"
  by (simp_all add: link_of_def)

lemma context_tables:
  "bit (IHCIA_remote_harts ! ctx_hart c) (ctx_hart (other c))"
  "bit (IHCIA_remote_hart_ints ! ctx_hart c) (ctx_hart (other c) * 2)"
  "bit (IHCIA_remote_hart_ints ! ctx_hart c) (ctx_hart (other c) * 2 + 1)"
  by (cases c; simp add: IHCIA_remote_harts_def IHCIA_remote_hart_ints_def)+

lemma link_eqI: "box k = box l \<Longrightarrow> unseen k = unseen l \<Longrightarrow> k = (l :: Link)"
  by simp

context ihc_ip
begin

abbreviation link :: "('h, memory) Ihc \<Rightarrow> Link" where
  "link s \<equiv> link_of nwords (view (ip s))"

lemma link_send_refines:
  fixes s :: "('h, memory) Ihc"
  defines "t c message \<equiv> snd (tx_message F (side (ctx_hart c) (ctx_hart (other c))) message s)"
  shows "tx_message F (side (ctx_hart c) (ctx_hart (other c))) message s =
      (if box (link s) c \<noteq> None \<or> unseen (link s) c then 1 else 0, t c message)"
    "link_send c (map message [0..<nwords]) (link s) =
      (if box (link s) c \<noteq> None \<or> unseen (link s) c then Refused c else Sent c (map message [0..<nwords]), link (t c message))"
    "IHC (t c message) = IHC s" "user (t c message) = user s" "v_ackie (view (ip (t c message))) = v_ackie (view (ip s))"
proof -
  let ?i = "ctx_hart c" and ?j = "ctx_hart (other c)"
  note j = ctx_hart_simps(1) [of c]
  note tx = tx_view [OF j, where message = message and s = s]
  let ?b = "v_pending (view (ip s)) ?i ?j \<or> v_acked (view (ip s)) ?i ?j"
  have b: "box (link s) c \<noteq> None \<or> unseen (link s) c \<longleftrightarrow> ?b" by (simp add: link_of_simps)
  have busy: "t c message = s" if ?b using tx(1) that by (simp add: t_def)
  show "tx_message F (side ?i ?j) message s =
      (if box (link s) c \<noteq> None \<or> unseen (link s) c then 1 else 0, t c message)"
    unfolding b t_def using arg_cong [OF tx(1), of fst] by (intro prod_eqI) auto
  show "IHC (t c message) = IHC s" "user (t c message) = user s" using tx(3,4) by (simp_all add: t_def)
  show "v_ackie (view (ip (t c message))) = v_ackie (view (ip s))"
    using tx(2) busy by (cases ?b) (simp_all add: t_def)
  show "link_send c (map message [0..<nwords]) (link s) =
      (if box (link s) c \<noteq> None \<or> unseen (link s) c then Refused c else Sent c (map message [0..<nwords]), link (t c message))"
  proof (cases ?b)
    case True
    then show ?thesis using b busy by (simp add: link_send_def)
  next
    case False
    then have v: "view (ip (t c message)) = (view (ip s))\<lparr>
        v_pending := set2 ?i ?j True (v_pending (view (ip s))),
        v_words := set2 ?i ?j (\<lambda>k. if k < nwords then message k else v_words (view (ip s)) ?i ?j k) (v_words (view (ip s)))\<rparr>"
      using tx(2) by (simp add: t_def)
    have "(link s)\<lparr>box := (box (link s))(c := Some (map message [0..<nwords]))\<rparr> = link (t c message)"
      unfolding v by (rule link_eqI) (auto simp: link_of_def set2_apply fun_eq_iff)
    then show ?thesis using b False by (simp add: link_send_def)
  qed
qed

text \<open>What a context finds: the acknowledgement of the other first, then its message.\<close>

lemma parse_link:
  fixes s :: "('h, memory) Ihc"
  assumes "set_up s"
  shows "parse_incoming_context_msg F (ctx_hart c) (ctx_hart (other c)) False s =
    Some (if unseen (link s) (other c) then Some (ctx_hart (other c), True)
          else if box (link s) (other c) \<noteq> None then Some (ctx_hart (other c), False) else None)"
proof -
  let ?i = "ctx_hart c" and ?j = "ctx_hart (other c)"
  note h = set_upD [OF assms, of ?i, simplified]
  have a: "bit (ihcia_msg_avail F (IHCIA_base_address ! ?i) (ip s)) (?j * 2) \<longleftrightarrow> v_pending (view (ip s)) ?j ?i"
    "bit (ihcia_msg_avail F (IHCIA_base_address ! ?i) (ip s)) (?j * 2 + 1) \<longleftrightarrow> v_acked (view (ip s)) ?j ?i"
    using msg_avail [of ?i ?j "ip s"] by (simp_all add: mult.commute)
  have n: "IHCIA_base_address ! ?i \<noteq> 0" by (rule rows) simp
  show ?thesis
    using h a n context_tables [of c]
    by (simp add: parse_incoming_context_msg_def incoming_from_def connected_def require_def link_of_simps) blast
qed

text \<open>The record the handler leaves.\<close>

lemma handler_runs:
  fixes s :: "('h, memory) Ihc" and junk :: "u8 list" and p :: u64
  assumes "joined i j"
  defines "h b \<equiv> message_present_handler junk j (\<lambda>k. ihcc_mesg_in F (side i j) k (ip s)) (ihcc_size_msg F (side i j) (ip s)) b p (user s)"
  shows "h True = Some (mem_write (user s) p (rx_record junk ACK_IRQ []))"
    "h False = Some (mem_write (user s) p (rx_record junk MP_IRQ (map (v_words (view (ip s)) j i) [0..<nwords])))"
proof -
  have n: "unat (of_nat nwords :: u32) = nwords" using nwords_le by (simp add: unat_of_nat)
  have e: "map (\<lambda>k. word_bytes (ihcc_mesg_in F (side i j) k (ip s))) [0..<nwords] =
      map word_bytes (map (v_words (view (ip s)) j i) [0..<nwords])"
    using mesg_in [OF assms(1)] by simp
  show "h True = Some (mem_write (user s) p (rx_record junk ACK_IRQ []))"
    by (simp add: h_def message_present_handler_def rx_record_def splice_def)
  show "h False = Some (mem_write (user s) p (rx_record junk MP_IRQ (map (v_words (view (ip s)) j i) [0..<nwords])))"
    unfolding h_def message_present_handler_def rx_record_def size_msg [OF assms(1)] n e
    using nwords_le by (simp add: require_def)
qed

lemma take_ack:
  fixes s :: "('h, memory) Ihc"
  assumes "set_up s" "registered junk c v s"
  obtains t where "take_incoming F (ctx_hart c) (Some (ctx_hart (other c), True)) p s = Some t" "IHC t = IHC s"
    "user t = mem_write (user s) p (rx_record junk ACK_IRQ [])"
    "view (ip t) = (view (ip s))\<lparr>v_acked := set2 (ctx_hart (other c)) (ctx_hart c) False (v_acked (view (ip s)))\<rparr>"
proof -
  let ?i = "ctx_hart c" and ?j = "ctx_hart (other c)"
  let ?s = "s\<lparr>user := mem_write (user s) p (rx_record junk ACK_IRQ [])\<rparr>"
  note h = set_upD [OF assms(1), of ?i, simplified] and h' = set_upD [OF set_up_cong [OF assms(1), of ?s], of ?i, simplified]
  have j: "joined ?i ?j" by simp
  note r = handler_runs [OF j, of junk s p]
  have "rx_message F ?i ?j (Some (message_present_handler junk)) True p s = Some (0, ?s)"
    using r(1) h(5) [OF j] by (simp add: rx_message_def)
  then have "take_incoming F ?i (Some (?j, True)) p s = Some (ctl_clear F (side ?i ?j) ACK_CLR ?s)"
    using h h'(5) [OF j] assms(2) by (simp add: take_incoming_def registered_def require_def)
  then show ?thesis
    by (rule that) (simp_all add: ack_clear_view [OF j] ctl_clear_def [of F _ _ ?s, THEN arg_cong, of IHC]
      ctl_clear_def [of F _ _ ?s, THEN arg_cong, of user])
qed

lemma take_message:
  fixes s :: "('h, memory) Ihc"
  assumes "set_up s" "registered junk c (view (ip s)) s" "v_pending (view (ip s)) (ctx_hart (other c)) (ctx_hart c)"
  obtains t where "take_incoming F (ctx_hart c) (Some (ctx_hart (other c), False)) p s = Some t" "IHC t = IHC s"
    "user t = mem_write (user s) p
      (rx_record junk MP_IRQ (map (v_words (view (ip s)) (ctx_hart (other c)) (ctx_hart c)) [0..<nwords]))"
    "view (ip t) = (view (ip s))\<lparr>v_pending := set2 (ctx_hart (other c)) (ctx_hart c) False (v_pending (view (ip s))),
      v_acked := set2 (ctx_hart c) (ctx_hart (other c)) True (v_acked (view (ip s)))\<rparr>"
proof -
  let ?i = "ctx_hart c" and ?j = "ctx_hart (other c)"
  let ?m = "mem_write (user s) p (rx_record junk MP_IRQ (map (v_words (view (ip s)) ?j ?i) [0..<nwords]))"
  let ?w = "let temp = ihcc_ctl F (side ?i ?j) (ip s) AND NOT MP_MASK in if temp AND ACKIE_EN \<noteq> 0 then temp OR ACK_INT else temp"
  let ?t = "s\<lparr>user := ?m, ip := ihcc_ctl_put F (side ?i ?j) ?w (ip s)\<rparr>"
  note h = set_upD [OF assms(1), of ?i, simplified]
  have j: "joined ?i ?j" by simp
  note r = handler_runs [OF j, of junk s p]
  have "rx_message F ?i ?j (Some (message_present_handler junk)) False p s = Some (1, ?t)"
    using r(2) h(5) [OF j] assms(3) ctl_bit(2) [OF j] by (simp add: rx_message_def bit_masks Let_def)
  then have "take_incoming F ?i (Some (?j, False)) p s = Some ?t"
    using h assms(2) by (simp add: take_incoming_def registered_def require_def)
  then show ?thesis
    by (rule that) (use take_view [OF j, of "ip s"] assms(2) in \<open>simp_all add: registered_def\<close>)
qed

lemma clear_hss:
  fixes s :: "('h, memory) Ihc" and c :: Context
  defines "t \<equiv> ctl_clear F (side (ctx_hart c) 0) (ACK_CLR OR MP_MASK) s"
  shows "link t = link s" "v_ackie (view (ip t)) = v_ackie (view (ip s))" "IHC t = IHC s" "user t = user s"
proof -
  let ?i = "ctx_hart c"
  have j: "joined ?i 0" by simp
  have v: "view (ip t) = (view (ip s))\<lparr>v_pending := set2 0 ?i False (v_pending (view (ip s))),
      v_acked := set2 0 ?i False (v_acked (view (ip s)))\<rparr>"
    unfolding t_def ctl_clear_def using joined_neq [OF j]
    by (simp add: ctl_put [OF j] ctl_written_def bit_and_iff bit_or_iff bit_not_iff ctl_bit [OF j] set2_keep)
  have n: "ctx_hart d \<noteq> 0" for d by (cases d) simp_all
  show "link t = link s" unfolding v by (rule link_eqI) (simp_all add: link_of_def set2_apply n cong: if_cong)
  show "v_ackie (view (ip t)) = v_ackie (view (ip s))" by (simp add: v)
  show "IHC t = IHC s" "user t = user s" by (simp_all add: t_def ctl_clear_def)
qed

lemma receive_refines:
  fixes s :: "('h, memory) Ihc"
  assumes "set_up s" "is_u54 me" "registered junk (ctx_of_hart me) (view (ip s)) s"
  obtains t e where "IHC_context_indirect_isr F me p s = Some t" "IHC t = IHC s" "event_status e = SBI_OK"
    "link_receive junk (ctx_of_hart me) p (link s, user s) = (e, link t, user t)"
    "v_ackie (view (ip t)) = v_ackie (view (ip s))"
proof -
  let ?c = "ctx_of_hart me"
  let ?i = "ctx_hart ?c" and ?j = "ctx_hart (other ?c)"
  define u where "u = (if unat (ihcc_version F (side ?i 0) (ip s)) \<le> 5
    then ctl_clear F (side ?i 0) (ACK_CLR OR MP_MASK) s else s)"
  have u: "link u = link s" "v_ackie (view (ip u)) = v_ackie (view (ip s))" "IHC u = IHC s" "user u = user s"
    using clear_hss [of ?c s] by (simp_all add: u_def)
  have su: "set_up u" by (rule set_up_cong [OF assms(1) u(3)])
  have ru: "registered junk ?c (view (ip u)) u" by (rule registered_cong [OF assms(3) u(3,2)])
  have i: "ihcc ?i 0 s = Some (side ?i 0)" using set_upD(5) [OF assms(1), of ?i 0] by simp
  have run: "IHC_context_indirect_isr F me p s = do {
      found \<leftarrow> parse_incoming_context_msg F ?i ?j False u; take_incoming F ?i found p u }"
    using i by (simp add: IHC_context_indirect_isr_def context_of_hart [OF assms(2)] u_def Let_def)
  note ps = parse_link [OF su, of ?c]
  show ?thesis
  proof (cases "unseen (link u) (other ?c)")
    case True
    obtain t where t: "take_incoming F ?i (Some (?j, True)) p u = Some t" "IHC t = IHC u"
      "user t = mem_write (user u) p (rx_record junk ACK_IRQ [])"
      "view (ip t) = (view (ip u))\<lparr>v_acked := set2 ?j ?i False (v_acked (view (ip u)))\<rparr>"
      by (rule take_ack [OF su ru])
    have l: "link t = (link u)\<lparr>unseen := (unseen (link u))(other ?c := False)\<rparr>"
      unfolding t(4) by (rule link_eqI) (auto simp: link_of_def set2_apply fun_eq_iff)
    have e: "link_receive junk ?c p (link u, user u) = (Acked ?c, link t, user t)"
      unfolding l t(3) using True by (simp add: link_receive_def)
    show ?thesis
    proof (rule that [of t "Acked ?c"])
      show "IHC_context_indirect_isr F me p s = Some t" using run ps True t(1) by simp
      show "v_ackie (view (ip t)) = v_ackie (view (ip s))" unfolding t(4) u(2) [symmetric] by simp
    qed (use e t(2) u in simp_all)
  next
    case False
    show ?thesis
    proof (cases "box (link u) (other ?c)")
      case None
      show ?thesis
        by (rule that [of u Idle]) (use run ps False None u in \<open>simp_all add: link_receive_def take_incoming_def\<close>)
    next
      case (Some ws)
      then have w: "v_pending (view (ip u)) ?j ?i" "ws = map (v_words (view (ip u)) ?j ?i) [0..<nwords]"
        by (simp_all add: link_of_simps split: if_splits)
      obtain t where t: "take_incoming F ?i (Some (?j, False)) p u = Some t" "IHC t = IHC u"
        "user t = mem_write (user u) p (rx_record junk MP_IRQ ws)"
        "view (ip t) = (view (ip u))\<lparr>v_pending := set2 ?j ?i False (v_pending (view (ip u))),
          v_acked := set2 ?i ?j True (v_acked (view (ip u)))\<rparr>"
        unfolding w(2) by (rule take_message [OF su ru w(1)])
      have l: "link t = (link u)\<lparr>box := (box (link u))(other ?c := None), unseen := (unseen (link u))(?c := True)\<rparr>"
        unfolding t(4) by (rule link_eqI) (auto simp: link_of_def set2_apply fun_eq_iff)
      have e: "link_receive junk ?c p (link u, user u) = (Received ?c ws, link t, user t)"
        unfolding l t(3) using False Some by (simp add: link_receive_def)
      show ?thesis
      proof (rule that [of t "Received ?c ws"])
        show "IHC_context_indirect_isr F me p s = Some t" using run ps False Some t(1) by simp
        show "v_ackie (view (ip t)) = v_ackie (view (ip s))" unfolding t(4) u(2) [symmetric] by simp
      qed (use e t(2) u in simp_all)
    qed
  qed
qed

text \<open>Registering: for the channel to the other context; its own does not exist.\<close>

lemma register_run:
  fixes s :: "('h, memory) Ihc"
  assumes "set_up s"
  obtains t where "IHC_local_remote_config F (ctx_hart c) (ctx_hart (other c)) (Some (message_present_handler junk)) True True s = Some t"
    "set_up t" "user t = user s" "link t = link s" "registered junk c (view (ip t)) t"
    "\<And>d. registered junk d (view (ip s)) s \<Longrightarrow> registered junk d (view (ip t)) t"
    "\<And>d. v_mpie (view (ip t)) (ctx_hart d) (ctx_hart (other d)) \<longleftrightarrow> d = c \<or> v_mpie (view (ip s)) (ctx_hart d) (ctx_hart (other d))"
proof -
  let ?i = "ctx_hart c" and ?j = "ctx_hart (other c)"
  let ?u = "(upd_hart ?i (\<lambda>h. h\<lparr>msg_in_handler := (msg_in_handler h)[?j := Some (message_present_handler junk)]\<rparr>) s)
    \<lparr>ip := ihcia_int_en_put F (IHCIA_base_address ! ?i) (IHCIA_remote_hart_ints ! ?i) (ip s)\<rparr>"
  let ?t = "ctl_or F (side ?i ?j) ACKIE_EN (ctl_or F (side ?i ?j) MPIE_EN ?u)"
  have j: "joined ?i ?j" by simp
  note h = set_upD [OF assms, of ?i, simplified]
  have su: "set_up ?u"
    using assms unfolding set_up_def ihc_shape_def connected_def addressed_def
    by (auto simp: nth_list_update dest!: subsetD [OF set_update_subset_insert])
  have I: "IHC ?t = IHC ?u" "user ?t = user s" by (simp_all add: ctl_or_def)
  have iu: "ihcc ?i ?j ?u = Some (side ?i ?j)" "ihcc ?i ?j (ctl_or F (side ?i ?j) MPIE_EN ?u) = Some (side ?i ?j)"
    by (rule set_upD(5) [OF su _ j], simp)
      (rule set_upD(5) [OF set_up_cong [OF su] _ j], simp_all add: ctl_or_def)
  have n: "IHCIA_base_address ! ?i \<noteq> 0" by (rule rows) simp
  have vu: "view (ip ?u) = view (ip s)" by (simp add: int_en)
  have v: "view (ip ?t) = (view (ip s))\<lparr>v_mpie := set2 ?i ?j True (v_mpie (view (ip s))),
      v_ackie := set2 ?i ?j True (v_ackie (view (ip s)))\<rparr>"
    by (simp add: ctl_or_view [OF j] int_en)
  show ?thesis
  proof (rule that [of ?t])
    show "IHC_local_remote_config F ?i ?j (Some (message_present_handler junk)) True True s = Some ?t"
      using h iu n by (simp add: IHC_local_remote_config_def require_def)
    show "set_up ?t" by (rule set_up_cong [OF su I(1)])
    show "link ?t = link s" unfolding v by (rule link_eqI) (simp_all add: link_of_def cong: if_cong)
    show "registered junk c (view (ip ?t)) ?t" using h by (simp add: v I(1) registered_def set2_apply)
    show "registered junk d (view (ip ?t)) ?t" if "registered junk d (view (ip s)) s" for d
      using that h by (simp add: v I(1) registered_def set2_apply nth_list_update)
    show "v_mpie (view (ip ?t)) (ctx_hart d) (ctx_hart (other d)) \<longleftrightarrow> d = c \<or> v_mpie (view (ip s)) (ctx_hart d) (ctx_hart (other d))" for d
      by (auto simp: v set2_apply)
  qed (rule I(2))
qed

lemma register_own:
  fixes s :: "('h, memory) Ihc"
  assumes "set_up s"
  shows "IHC_local_remote_config F (ctx_hart c) (ctx_hart c) (Some (message_present_handler junk)) True b s = None"
proof -
  let ?i = "ctx_hart c"
  note h = set_upD [OF assms, of ?i, simplified]
  have z: "side ?i ?i = 0" using side_nonzero [of ?i ?i] by simp
  show ?thesis
    using h by (simp add: IHC_local_remote_config_def require_def ihcc_def hart_of_def connected_def addressed_def z Let_def)
qed

definition linked :: "u8 list \<Rightarrow> ('h, memory) Ihc \<Rightarrow> bool" where
  "linked junk s \<longleftrightarrow> set_up s \<and> (\<forall>c. registered junk c (view (ip s)) s)"

lemma call_refines:
  fixes s :: "('h, memory) Ihc"
  assumes "linked junk s" "proper_call (me, funcid, a0, a1)"
  obtains e t where "sbi_ecall_ihc_handler F junk me funcid a0 a1 s = Some (event_status e, t)" "linked junk t"
    "link_call nwords junk (me, funcid, a0, a1) (link s, user s) = (e, link t, user t)"
proof -
  define r where "r = unat (ucast a0 :: u32)"
  have me: "is_u54 me" using assms(2) by (simp add: proper_call_def)
  have su: "set_up s" and rg: "registered junk c (view (ip s)) s" for c using assms(1) by (simp_all add: linked_def)
  note call = link_call_def sbi_ecall_ihc_handler_def Let_def
  consider (range) "r < 5 \<or> 6 < r" | (ini) "\<not> (r < 5 \<or> 6 < r)" "funcid = 0" | (send) "\<not> (r < 5 \<or> 6 < r)" "funcid = 1"
    | (recv) "\<not> (r < 5 \<or> 6 < r)" "funcid = 2" | (none) "\<not> (r < 5 \<or> 6 < r)" "funcid \<noteq> 0" "funcid \<noteq> 1" "funcid \<noteq> 2"
    by blast
  then show ?thesis
  proof cases
    case range
    then show ?thesis using assms(1) by (intro that [of "Failed SBI_EINVAL" s]) (simp_all add: call r_def)
  next
    case ini
    have o: "ctx_of_channel r = other (ctx_of_hart me)"
      using assms(2) ini by (cases "ctx_of_hart me") (auto simp: proper_call_def ctx_of_channel_def r_def)
    obtain t where t: "IHC_local_remote_config F (ctx_hart (ctx_of_hart me)) (ctx_hart (other (ctx_of_hart me)))
        (Some (message_present_handler junk)) True True s = Some t"
      "set_up t" "user t = user s" "link t = link s" "\<And>d. registered junk d (view (ip s)) s \<Longrightarrow> registered junk d (view (ip t)) t"
      by (rule register_run [OF su]) blast
    show ?thesis
    proof (rule that [of Idle t])
      show "sbi_ecall_ihc_handler F junk me funcid a0 a1 s = Some (event_status Idle, t)"
        using ini t(1) ctx_of_channel_cases(1) [OF ini(1)] by (simp add: call r_def [symmetric] context_of_hart [OF me] o)
      show "link_call nwords junk (me, funcid, a0, a1) (link s, user s) = (Idle, link t, user t)"
        using ini t(3,4) by (simp add: call r_def [symmetric])
    qed (use t(2,5) rg in \<open>simp add: linked_def\<close>)
  next
    case send
    let ?c = "other (ctx_of_channel r)" and ?ws = "word_at (user s) a1"
    note sr = link_send_refines [of ?c ?ws s, unfolded other_other]
    let ?b = "box (link s) ?c \<noteq> None \<or> unseen (link s) ?c"
    obtain t where t: "tx_message F (side (ctx_hart ?c) (ctx_hart (ctx_of_channel r))) ?ws s = (if ?b then 1 else 0, t)"
      "link_send ?c (map ?ws [0..<nwords]) (link s) = (if ?b then Refused ?c else Sent ?c (map ?ws [0..<nwords]), link t)"
      "IHC t = IHC s" "user t = user s" "v_ackie (view (ip t)) = v_ackie (view (ip s))"
      by (rule that) (rule sr)+
    show ?thesis
    proof (rule that [of "if ?b then Refused ?c else Sent ?c (map ?ws [0..<nwords])" t])
      show "sbi_ecall_ihc_handler F junk me funcid a0 a1 s =
          Some (event_status (if ?b then Refused ?c else Sent ?c (map ?ws [0..<nwords])), t)"
        using send tx_calls [OF su send(1)] t(1) by (simp add: call r_def [symmetric])
      show "link_call nwords junk (me, funcid, a0, a1) (link s, user s) =
          (if ?b then Refused ?c else Sent ?c (map ?ws [0..<nwords]), link t, user t)"
        using send t(2,4) by (simp add: call r_def [symmetric])
      show "linked junk t"
        using set_up_cong [OF su t(3)] registered_cong [OF rg t(3,5)] by (simp add: linked_def)
    qed
  next
    case recv
    obtain t e where t: "IHC_context_indirect_isr F me a1 s = Some t" "IHC t = IHC s" "event_status e = SBI_OK"
      "link_receive junk (ctx_of_hart me) a1 (link s, user s) = (e, link t, user t)"
      "v_ackie (view (ip t)) = v_ackie (view (ip s))"
      by (rule receive_refines [OF su me rg])
    show ?thesis
    proof (rule that [of e t])
      show "linked junk t"
        using set_up_cong [OF su t(2)] registered_cong [OF rg t(2,5)] by (simp add: linked_def)
    qed (use recv t in \<open>simp_all add: call r_def [symmetric]\<close>)
  next
    case none
    then show ?thesis using assms(1) by (intro that [of "Failed SBI_ENOTSUPP" s]) (simp_all add: call r_def)
  qed
qed

lemma calls_refine:
  fixes s :: "('h, memory) Ihc"
  assumes "linked junk s" "\<forall>k \<in> set ks. proper_call k"
  shows "\<exists>es t. ihc_calls F junk ks s = Some (map event_status es, t) \<and> linked junk t \<and>
    link_calls nwords junk ks (link s, user s) = (es, link t, user t)"
  using assms
proof (induction ks arbitrary: s)
  case Nil
  then show ?case by simp
next
  case (Cons k ks)
  obtain me funcid a0 a1 where k: "k = (me, funcid, a0, a1)" by (cases k)
  obtain e t where e: "sbi_ecall_ihc_handler F junk me funcid a0 a1 s = Some (event_status e, t)" "linked junk t"
    "link_call nwords junk (me, funcid, a0, a1) (link s, user s) = (e, link t, user t)"
    using Cons.prems k by (auto intro: call_refines [of junk s me funcid a0 a1])
  then show ?case using Cons.IH [OF e(2)] Cons.prems(2) by (auto simp: k)
qed

text \<open>From initialisation: both contexts register, then anything.\<close>

lemma boot_link:
  fixes s :: "('h, memory) Ihc"
  assumes "ihc_shape s"
  obtains t u where "HSS_IHCInit F s = Some t"
    "ihc_calls F junk [(1, SBI_EXT_IHC_CTX_INIT, 6, 0), (4, SBI_EXT_IHC_CTX_INIT, 5, 0)] t = Some ([SBI_OK, SBI_OK], u)"
    "linked junk u" "link u = idle_link" "user u = user s"
proof -
  obtain t where t: "HSS_IHCInit F s = Some t" "ihc_shape t" "user t = user s"
    "\<And>i. i < 5 \<Longrightarrow> connected i (IHC t ! i) \<and> msg_in_handler (IHC t ! i) = replicate 5 None \<and> idle_at i (view (ip t))"
    by (rule init_run [OF assms]) (rule that)
  have st: "set_up t" using t(2,4) by (simp add: set_up_def)
  have lt: "link t = idle_link"
  proof (rule link_eqI)
    have "\<not> v_pending (view (ip t)) (ctx_hart c) (ctx_hart (other c))" "\<not> v_acked (view (ip t)) (ctx_hart c) (ctx_hart (other c))" for c
      using t(4) [of "ctx_hart (other c)"] by (auto simp: idle_at_def)
    then show "box (link t) = box idle_link" "unseen (link t) = unseen idle_link"
      by (simp_all add: link_of_def idle_link_def)
  qed
  obtain t1 where a: "IHC_local_remote_config F 1 4 (Some (message_present_handler junk)) True True t = Some t1"
    "set_up t1" "user t1 = user t" "link t1 = link t" "registered junk Context_A (view (ip t1)) t1"
    by (rule register_run [OF st, of Context_A junk, unfolded ctx_hart.simps other.simps]) (rule that; assumption)
  obtain u where b: "IHC_local_remote_config F 4 1 (Some (message_present_handler junk)) True True t1 = Some u"
    "set_up u" "user u = user t1" "link u = link t1" "registered junk Context_B (view (ip u)) u"
    "\<And>d. registered junk d (view (ip t1)) t1 \<Longrightarrow> registered junk d (view (ip u)) u"
    by (rule register_run [OF a(2), of Context_B junk, unfolded ctx_hart.simps other.simps]) (rule that; assumption)
  have c: "IHC_context_to_context_hart_id 1 = 1" "IHC_context_to_context_hart_id 4 = 4"
    by (simp_all add: IHC_context_to_context_hart_id_def)
  have d: "unat (ucast (6 :: u64) :: u32) = 6" "unat (ucast (5 :: u64) :: u32) = 5" by simp_all
  have h1: "sbi_ecall_ihc_handler F junk 1 0 6 0 t = Some (SBI_OK, t1)"
    unfolding sbi_ecall_ihc_handler_def Let_def c d context_ids ctx_hart.simps a(1) by simp
  have h2: "sbi_ecall_ihc_handler F junk 4 0 5 0 t1 = Some (SBI_OK, u)"
    unfolding sbi_ecall_ihc_handler_def Let_def c d context_ids ctx_hart.simps b(1) by simp
  show ?thesis
  proof (rule that [OF t(1), of u])
    show "ihc_calls F junk [(1, SBI_EXT_IHC_CTX_INIT, 6, 0), (4, SBI_EXT_IHC_CTX_INIT, 5, 0)] t = Some ([SBI_OK, SBI_OK], u)"
      by (simp only: ihc_calls.simps h1 h2 Option.bind.bind_lunit prod.case)
    have "registered junk c (view (ip u)) u" for c using b(5) b(6) [OF a(5)] by (cases c) simp_all
    then show "linked junk u" using b(2) by (simp add: linked_def)
  qed (use t(3) a(3,4) b(3,4) lt in simp_all)
qed

end

lemma ihc_calls_append:
  "ihc_calls F junk (ks @ ls) s = do {
     (rs, t) \<leftarrow> ihc_calls F junk ks s;
     (qs, u) \<leftarrow> ihc_calls F junk ls t;
     Some (rs @ qs, u) }"
proof (induction ks arbitrary: s)
  case (Cons k ks)
  obtain me funcid a0 a1 where k: "k = (me, funcid, a0, a1)" by (cases k)
  show ?case
    by (cases "sbi_ecall_ihc_handler F junk me funcid a0 a1 s"; cases "ihc_calls F junk ls s")
      (auto simp: k Cons.IH split: option.splits prod.splits bind_split)
qed (simp split: bind_split)

section \<open>Properties\<close>


definition idle_ihc :: "memory \<Rightarrow> (Ihc_View, memory) Ihc" where
  "idle_ihc m = \<lparr>IHC = replicate 5 \<lparr>HART_IHCC = replicate 5 0, HART_IHCIA = 0, connected_harts = 0,
     connected_hart_ints = 0, msg_in_handler = replicate 5 None\<rparr>,
   ip = \<lparr>v_pending = (\<lambda>_ _. True), v_words = (\<lambda>_ _ _. 0), v_acked = (\<lambda>_ _. True), v_mpie = (\<lambda>_ _. False), v_ackie = (\<lambda>_ _. False)\<rparr>,
   user = m\<rparr>"

lemma idle_ihc_shape: "ihc_shape (idle_ihc m)"
  by (simp add: ihc_shape_def idle_ihc_def)

text \<open>Context A sends two messages, the second while the first is not taken; B takes the first.\<close>

definition sample_calls :: "call list" where
  "sample_calls = [(1, SBI_EXT_IHC_SEND, 6, 0x100), (1, SBI_EXT_IHC_SEND, 6, 0x200), (4, SBI_EXT_IHC_RECEIVE, 5, 0x300),
     (1, SBI_EXT_IHC_RECEIVE, 6, 0x400), (4, SBI_EXT_IHC_SEND, 5, 0x500)]"


end
