(* ===== verification/Rproc.thy ===== *)
theory Rproc
  imports Ecall Boot_Safety Ipi_Protocol
begin

text \<open>
  The vendor extension as a whole, \<open>services/opensbi/opensbi_ecall.c\<close>: besides the messages of
  theory Ecall the calls by which one context controls the other
  (\<open>opensbi_rproc_ecall.c\<close>) and the reboot request, and what becomes of a request at the E51.
\<close>

section \<open>The calls\<close>

text \<open>
  What the calls work on: the driver and the fabric, and the boot monitor's variables, which
  include the memory and the message bus.
\<close>

record 'h Ecall_World =
  ec_harts :: "memory IHC_Hart list"
  ec_ip :: 'h
  ec_boot :: Boot_World

definition ihc_part :: "'h Ecall_World \<Rightarrow> ('h, memory) Ihc" where
  "ihc_part w = \<lparr>IHC = ec_harts w, ip = ec_ip w, user = memory (ec_boot w)\<rparr>"

definition put_ihc :: "('h, memory) Ihc \<Rightarrow> 'h Ecall_World \<Rightarrow> 'h Ecall_World" where
  "put_ihc s w = w\<lparr>ec_harts := IHC s, ec_ip := ip s, ec_boot := (ec_boot w)\<lparr>memory := user s\<rparr>\<rparr>"

definition put_bus :: "IPI_Data \<Rightarrow> 'h Ecall_World \<Rightarrow> 'h Ecall_World" where
  "put_bus d w = w\<lparr>ec_boot := (ec_boot w)\<lparr>bw_ipi := d\<rparr>\<rparr>"

abbreviation (input) RPROC_SHUTDOWN_MSG :: u32 where "RPROC_SHUTDOWN_MSG \<equiv> 0xFFFFFF02"
abbreviation (input) CONTEXT_OFFLINE :: u64 where "CONTEXT_OFFLINE \<equiv> 0"
abbreviation (input) CONTEXT_RUNNING :: u64 where "CONTEXT_RUNNING \<equiv> 1"

text \<open>
  The remote processor calls. \<open>rproc_data\<close> is the address of the static variable that carries
  the target; of the message that stops a context only the first word is set, the others are
  \<open>junk\<close>. The second result is what \<open>*out_val\<close> is set to, if it is.
\<close>

definition sbi_ecall_rproc_handler :: "'h Ihc_Ip \<Rightarrow> (nat \<Rightarrow> u32) \<Rightarrow> u64 \<Rightarrow> hart_id \<Rightarrow> u64 \<Rightarrow> u64 \<Rightarrow> 'h Ecall_World
    \<Rightarrow> (int \<times> u64 option \<times> 'h Ecall_World) option" where
  "sbi_ecall_rproc_handler F junk rproc_data me funcid a0 w =
     (let remote_channel = unat (ucast a0 :: u8);
          remote_hart_id = IHC_context_to_context_hart_id remote_channel in
      if remote_channel < IHC_CHANNEL_TO_CONTEXTA \<or> remote_channel > IHC_CHANNEL_TO_CONTEXTB then Some (SBI_EINVAL, None, w)
      else if funcid = SBI_EXT_RPROC_STATE then do {
        skip \<leftarrow> HSS_SkipBoot_IsSet remote_hart_id (ec_boot w);
        Some (SBI_OK, Some (if \<not> skip then CONTEXT_RUNNING else CONTEXT_OFFLINE), w) }
      else if funcid = SBI_EXT_RPROC_START then
        let w = w\<lparr>ec_boot := (ec_boot w)\<lparr>memory := mem_write (memory (ec_boot w)) rproc_data (le_bytes 4 remote_hart_id)\<rparr>\<rparr> in
        (case IPI_MessageAlloc me (bw_ipi (ec_boot w)) of
           (None, d) \<Rightarrow> Some (SBI_ERR_FAILED, None, put_bus d w)
         | (Some index, d) \<Rightarrow> do {
             (ok, d) \<leftarrow> IPI_MessageDeliver me index HSS_HART_E51 IPI_MSG_BOOT_REQUEST RPROC_BOOT rproc_data 0 d;
             (if ok then Some (SBI_OK, None, put_bus d w)
              else do { d \<leftarrow> IPI_MessageFree me index d; Some (SBI_ERR_FAILED, None, put_bus d w) }) })
      else if funcid = SBI_EXT_RPROC_STOP then do {
        (r, s) \<leftarrow> IHC_tx_message_from_context F remote_channel (junk(0 := RPROC_SHUTDOWN_MSG)) (ihc_part w);
        Some (if r \<noteq> 0 then SBI_ERR_FAILED else SBI_OK, None, put_ihc s w) }
      else Some (SBI_ENOTSUPP, None, w))"

text \<open>
  The reboot request, which \<open>HSS_OpenSBI_Reboot\<close> makes as well: whether a transaction could be
  allocated is not checked; \<open>stale\<close> is the index then.
\<close>

definition HSS_OpenSBI_Reboot :: "nat \<Rightarrow> hart_id \<Rightarrow> IPI_Data \<Rightarrow> IPI_Data option" where
  "HSS_OpenSBI_Reboot stale me d = do {
     let (index, d) = IPI_MessageAlloc me d;
     (_, d) \<leftarrow> IPI_MessageDeliver me (case index of Some i \<Rightarrow> i | None \<Rightarrow> stale) HSS_HART_E51 IPI_MSG_BOOT_REQUEST 0 0 0 d;
     Some d }"

definition HSS_SBI_Vendor_Ext_Check :: "u64 \<Rightarrow> bool" where
  "HSS_SBI_Vendor_Ext_Check extid \<longleftrightarrow> extid = 0x09000029"

definition HSS_SBI_ECALL_Handler :: "'h Ihc_Ip \<Rightarrow> u8 list \<Rightarrow> (nat \<Rightarrow> u32) \<Rightarrow> u64 \<Rightarrow> nat \<Rightarrow> hart_id \<Rightarrow> u64 \<Rightarrow> u64 \<Rightarrow> u64
    \<Rightarrow> 'h Ecall_World \<Rightarrow> (int \<times> u64 option \<times> 'h Ecall_World) option" where
  "HSS_SBI_ECALL_Handler F junk words rproc_data stale me funcid a0 a1 w =
     (if funcid \<in> {SBI_EXT_IHC_CTX_INIT, SBI_EXT_IHC_SEND, SBI_EXT_IHC_RECEIVE} then do {
        (r, s) \<leftarrow> sbi_ecall_ihc_handler F junk me funcid a0 a1 (ihc_part w);
        Some (r, None, put_ihc s w) }
      else if funcid \<in> {SBI_EXT_RPROC_STATE, SBI_EXT_RPROC_START, SBI_EXT_RPROC_STOP} then
        sbi_ecall_rproc_handler F words rproc_data me funcid a0 w
      else if funcid = SBI_EXT_HSS_REBOOT then do {
        d \<leftarrow> HSS_OpenSBI_Reboot stale me (bw_ipi (ec_boot w));
        Some (SBI_OK, None, put_bus d w) }
      else Some (SBI_ENOTSUPP, None, w))"

section \<open>A remote processor request at the E51\<close>

lemma registry_ok_boot: "registry_ok boot_registry"
  by (simp add: registry_ok_def boot_registry_def o_def)

text \<open>A machine told to start the image in memory is not sent back by the restart that follows.\<close>

lemma restart_loop_keeps:
  "state (bootMachines w ! j) = BOOT_OPENSBI_INIT \<Longrightarrow> j < length (bootMachines w) \<Longrightarrow>
    state (bootMachines (snd (restart_loop ss harts r w)) ! j) = BOOT_OPENSBI_INIT"
proof (induction ss arbitrary: harts r w)
  case Nil
  then show ?case by simp
next
  case (Cons s ss)
  have "state (bootMachines (snd (boot_using_hart_bitmask mk w)) ! j) = BOOT_OPENSBI_INIT"
    "j < length (bootMachines (snd (boot_using_hart_bitmask mk w)))" for mk
    using Cons.prems by (simp_all add: boot_using_hart_bitmask_def restart_machine_def)
  then show ?case using Cons by (simp add: Let_def split_beta)
qed

lemma restart_core_keeps:
  assumes "state (bootMachines w ! j) = BOOT_OPENSBI_INIT" "j < length (bootMachines w)" "pBootImage w \<noteq> 0" "t \<noteq> 5"
  shows "\<exists>r w'. HSS_Boot_RestartCore t w = Some (r, w') \<and> state (bootMachines w' ! j) = BOOT_OPENSBI_INIT"
proof -
  have "state (bootMachines (snd (HSS_Boot_RestartCores_Using_Bitmask m w)) ! j) = BOOT_OPENSBI_INIT" for m
    using restart_loop_keeps [OF assms(1,2)] assms(1) by (simp add: HSS_Boot_RestartCores_Using_Bitmask_def)
  then show ?thesis
    using assms(3,4) by (cases "HSS_Boot_RestartCores_Using_Bitmask (push_bit t 1) w")
      (fastforce simp: HSS_Boot_RestartCore_def require_def dest: spec [of _ "push_bit t 1"])
qed

lemma rproc_request_run:
  assumes "unat (read_u32 (memory w) ext) = t" "1 \<le> t" "t < 5" "length (bootMachines w) = 4" "pBootImage w \<noteq> 0"
  shows "\<exists>r w'. HSS_Boot_IPIHandler tx s RPROC_BOOT ext anc (d, w) = Some (r, d, w') \<and>
    state (bootMachines w' ! (t - 1)) = BOOT_OPENSBI_INIT"
proof -
  let ?v = "w\<lparr>bootMachines := (bootMachines w)[t - 1 := (bootMachines w ! (t - 1))\<lparr>state := BOOT_OPENSBI_INIT\<rparr>]\<rparr>"
  have "t - 1 < 4" using assms(2,3) by simp
  then obtain r w' where "HSS_Boot_RestartCore t ?v = Some (r, w')" "state (bootMachines w' ! (t - 1)) = BOOT_OPENSBI_INIT"
    using restart_core_keeps [of ?v "t - 1" t] assms(3-5) by auto
  then show ?thesis
    using assms \<open>t - 1 < 4\<close> by (simp add: HSS_Boot_IPIHandler_def require_def)
qed

text \<open>The request and what the E51 makes of it.\<close>

definition room_for_request :: "hart_id \<Rightarrow> IPI_Data \<Rightarrow> bool" where
  "room_for_request me d \<longleftrightarrow> ipi_wf d \<and> size (bus_of d (me, HSS_HART_E51)) < 4 \<and>
     (\<forall>m \<in># bus_of d (me, HSS_HART_E51). msg_type m \<noteq> IPI_MSG_BOOT_REQUEST) \<and> (\<exists>c \<in> set (ipi_completes d). \<not> used c)"

lemma request_sent:
  assumes "room_for_request me d" "is_u54 me"
  obtains i d1 d2 m q where "IPI_MessageAlloc me d = (Some i, d1)"
    "IPI_MessageDeliver me i HSS_HART_E51 IPI_MSG_BOOT_REQUEST imm ext 0 d1 = Some (True, d2)" "ipi_wf d2"
    "slot_take IPI_MSG_BOOT_REQUEST (slots_of me HSS_HART_E51 d2) = Some (m, q)"
    "immediate_arg m = imm" "p_extended_buffer_in_ddr m = ext"
proof -
  have h: "distinct_harts me 0" using assms(2) by (auto simp: is_u54_def distinct_harts_def)
  have wf: "ipi_wf d" using assms(1) by (simp add: room_for_request_def)
  have len: "length (ipi_completes d) = 16" using wf by (simp add: ipi_wfD)
  have "fst (IPI_MessageAlloc me d) \<noteq> None"
    using IPI_MessageAlloc_None [of me d] assms(1) by (auto simp: room_for_request_def)
  then obtain i d1 where al: "IPI_MessageAlloc me d = (Some i, d1)" by (cases "IPI_MessageAlloc me d") auto
  note A = IPI_MessageAlloc_SomeD [OF al]
  have wf1: "ipi_wf d1" using IPI_MessageAlloc_wf [OF wf, of me] al by simp
  have i: "i < 16" using A(1) len by simp
  let ?m = "\<lparr>msg_type = IPI_MSG_BOOT_REQUEST, transaction_id = ctransaction_id (ipi_completes d1 ! i),
    immediate_arg = imm, p_extended_buffer_in_ddr = ext, p_ancilliary_buffer_in_ddr = 0\<rparr>"
  obtain q1 where q1: "slot_put ?m (slots_of me 0 d) = Some q1"
    using room [OF wf h] assms(1) unfolding room_for_request_def by blast
  obtain d2 where d2: "IPI_MessageDeliver me i 0 IPI_MSG_BOOT_REQUEST imm ext 0 d1 = Some (True, d2)" "ipi_wf d2"
    "slots_of me 0 d2 = q1"
    using deliver_step [OF wf1 h i, of IPI_MSG_BOOT_REQUEST imm ext 0 q1] q1 A by auto
  obtain q2 where q2: "slot_take IPI_MSG_BOOT_REQUEST q1 = Some (?m, q2)"
    using take_unique [OF length_slots [OF wf h] q1] assms(1)
    by (auto simp: room_for_request_def bus_of_apply [OF h])
  show ?thesis by (rule that [OF al d2(1,2), of ?m q2]) (use q2 d2(3) in simp_all)
qed

lemma read_u32_write: "t < 2 ^ 32 \<Longrightarrow> unat (read_u32 (mem_write m a (le_bytes 4 t)) a) = t"
  using mem_read_write [of "le_bytes 4 t" m a]
  by (simp add: read_u32_def le_nat_le_bytes unsigned_of_nat take_bit_nat_eq_self)

text \<open>
  C18. Starting the other context. A start request from a context's hart, made while the bus has
  room, succeeds; when the boot monitor's machine of the calling hart next looks for requests,
  the machine of the target context's first hart is set to start the image that is in memory,
  and the restart that the request also triggers does not send it back to loading.
\<close>

theorem rproc_start_boots_context:
  fixes w :: "'h Ecall_World"
  assumes "is_u54 me" and "room_for_request me (bw_ipi (ec_boot w))"
    and "unat (ucast a0 :: u8) \<in> {IHC_CHANNEL_TO_CONTEXTA, IHC_CHANNEL_TO_CONTEXTB}"
    and "length (bootMachines (ec_boot w)) = 4" and "pBootImage (ec_boot w) \<noteq> 0"
    and "bl_target (localData (ec_boot w) ! (me - 1)) = me"
  shows "\<exists>w' m b. HSS_SBI_ECALL_Handler F junk words rproc_data stale me SBI_EXT_RPROC_START a0 a1 w = Some (SBI_OK, None, w') \<and>
    boot_idle_handler (me - 1) (bootMachines (ec_boot w) ! (me - 1)) (ec_boot w') = Some (m, b) \<and>
    state (bootMachines b ! (IHC_context_to_context_hart_id (unat (ucast a0 :: u8)) - 1)) = BOOT_OPENSBI_INIT"
proof -
  define t where "t = IHC_context_to_context_hart_id (unat (ucast a0 :: u8))"
  have t: "t = 1 \<or> t = 4" using assms(3) by (auto simp: t_def)
  have dh: "distinct_harts me 0" using assms(1) by (auto simp: is_u54_def distinct_harts_def)
  obtain i d1 d2 msg q where s: "IPI_MessageAlloc me (bw_ipi (ec_boot w)) = (Some i, d1)"
    "IPI_MessageDeliver me i 0 IPI_MSG_BOOT_REQUEST RPROC_BOOT rproc_data 0 d1 = Some (True, d2)" "ipi_wf d2"
    "slot_take IPI_MSG_BOOT_REQUEST (slots_of me 0 d2) = Some (msg, q)"
    "immediate_arg msg = RPROC_BOOT" "p_extended_buffer_in_ddr msg = rproc_data"
    by (rule request_sent [OF assms(2,1), of RPROC_BOOT rproc_data]) (rule that; assumption)
  define v where "v = (ec_boot w)\<lparr>memory := mem_write (memory (ec_boot w)) rproc_data (le_bytes 4 t), bw_ipi := d2\<rparr>"
  have r: "\<not> (unat (ucast a0 :: u8) < 5 \<or> 6 < unat (ucast a0 :: u8))" using assms(3) by auto
  have "sbi_ecall_rproc_handler F words rproc_data me SBI_EXT_RPROC_START a0 w = Some (SBI_OK, None, w\<lparr>ec_boot := v\<rparr>)"
    unfolding sbi_ecall_rproc_handler_def Let_def t_def [symmetric] using r s(1,2) by (simp add: put_bus_def v_def)
  then have "HSS_SBI_ECALL_Handler F junk words rproc_data stale me SBI_EXT_RPROC_START a0 a1 w = Some (SBI_OK, None, w\<lparr>ec_boot := v\<rparr>)"
    by (simp add: HSS_SBI_ECALL_Handler_def)
  moreover have "\<exists>m b. boot_idle_handler (me - 1) (bootMachines (ec_boot w) ! (me - 1)) v = Some (m, b) \<and>
      state (bootMachines b ! (t - 1)) = BOOT_OPENSBI_INIT"
  proof -
    let ?v = "v\<lparr>bootMachines := (bootMachines v)[me - 1 := bootMachines (ec_boot w) ! (me - 1)]\<rparr>"
    have m: "unat (read_u32 (memory ?v) rproc_data) = t"
      unfolding v_def using read_u32_write [of t] t by auto
    have l: "1 \<le> t" "t < 5" "length (bootMachines ?v) = 4" "pBootImage ?v \<noteq> 0" "bl_target (ld (me - 1) ?v) = me"
      using t assms(4-6) by (auto simp: v_def ld_def)
    obtain r w' where h: "HSS_Boot_IPIHandler (transaction_id msg) me RPROC_BOOT rproc_data (p_ancilliary_buffer_in_ddr msg)
        (pre_consume me 0 d2, ?v) = Some (r, pre_consume me 0 d2, w')" "state (bootMachines w' ! (t - 1)) = BOOT_OPENSBI_INIT"
      using rproc_request_run [OF m l(1-4)] by blast
    have wf: "ipi_wf (pre_consume me 0 d2)" using s(3) dh by simp
    obtain d' where c: "IPI_ConsumeIntent boot_registry 0 me IPI_MSG_BOOT_REQUEST (d2, ?v) = Some (True, d', w')"
      using IPI_ConsumeIntent_slots [OF s(3) dh registry_ok_boot boot_registry_entry(3) s(4) h(1) [folded s(5,6)] wf refl] by blast
    have "boot_idle_handler (me - 1) (bootMachines (ec_boot w) ! (me - 1)) v = Some (bootMachines w' ! (me - 1), w'\<lparr>bw_ipi := d'\<rparr>)"
      using c l(5) by (simp add: boot_idle_handler_def v_def ld_def)
    then show ?thesis using h(2) by simp
  qed
  ultimately show ?thesis unfolding t_def [symmetric] by fastforce
qed

definition ecall_world :: "Ihc_View Ecall_World" where
  "ecall_world = \<lparr>ec_harts = IHC (idle_ihc (\<lambda>_. 0)), ec_ip = ip (idle_ihc (\<lambda>_. 0)), ec_boot = boot_world0 (\<lambda>_. 0) 0x80000000\<rparr>"

lemma bus_init_room: "room_for_request me bus_init"
  by (simp add: room_for_request_def bus_init_wf bus_init_empty bus_init_completes zero_Complete_def del: replicate.simps)

theorem rproc_start_boots_context_witness:
  "\<exists>w' m b. HSS_SBI_ECALL_Handler (ihc_fabric (min 4 4) 2) (replicate 20 0) (\<lambda>_. 0) 0x8000 0 2 SBI_EXT_RPROC_START 6 0 ecall_world =
      Some (SBI_OK, None, w') \<and>
    boot_idle_handler 1 boot_service_init (ec_boot w') = Some (m, b) \<and> state (bootMachines b ! 3) = BOOT_OPENSBI_INIT"
proof -
  have c: "unat (ucast (6 :: u64) :: u8) = 6" by simp
  have "bl_target (localData_static ! 1) = 2" by (simp add: localData_static_def)
  then have h: "is_u54 2" "room_for_request 2 (bw_ipi (ec_boot ecall_world))"
    "unat (ucast (6 :: u64) :: u8) \<in> {5, 6}" "length (bootMachines (ec_boot ecall_world)) = 4"
    "pBootImage (ec_boot ecall_world) \<noteq> 0" "bl_target (localData (ec_boot ecall_world) ! (2 - 1)) = 2"
    by (simp_all add: is_u54_iff ecall_world_def bus_init_room c)
  have m: "bootMachines (ec_boot ecall_world) ! (2 - 1) = boot_service_init" by (simp add: ecall_world_def)
  show ?thesis
    using rproc_start_boots_context [OF h, where F = "ihc_fabric (min 4 4) 2" and junk = "replicate 20 0" and words = "\<lambda>_. 0"
      and rproc_data = "0x8000" and stale = 0 and ?a1.0 = 0] unfolding m c by simp
qed

text \<open>
  C36. Registering for a channel. After initialisation a context's hart that registers is told
  \<open>SBI_EINVAL\<close> for anything that is not the channel of a context and \<open>SBI_OK\<close> for the channel of
  the other context; with the channel of its own context the call writes through a null pointer.
\<close>

theorem registration_faults_on_own_channel:
  fixes F :: "'h Ihc_Ip" and s :: "('h, memory) Ihc"
  assumes "ihc_ip F view nwords" and "ihc_shape s" and "HSS_IHCInit F s = Some t" and "is_u54 me"
  shows "map_option fst (sbi_ecall_ihc_handler F junk me SBI_EXT_IHC_CTX_INIT a0 a1 t) =
    (let r = unat (ucast a0 :: u32) in
     if r < IHC_CHANNEL_TO_CONTEXTA \<or> r > IHC_CHANNEL_TO_CONTEXTB then Some SBI_EINVAL
     else if ctx_of_channel r = other (ctx_of_hart me) then Some SBI_OK else None)"
proof -
  define r where "r = unat (ucast a0 :: u32)"
  have st: "set_up t"
    by (rule ihc_ip.init_run [OF assms(1,2)]) (use assms(3) in \<open>auto simp: set_up_def\<close>)
  have own: "d = c" if "d \<noteq> other c" for c d using that by (cases c; cases d) simp_all
  obtain u where u: "IHC_local_remote_config F (ctx_hart (ctx_of_hart me)) (ctx_hart (other (ctx_of_hart me)))
      (Some (message_present_handler junk)) True True t = Some u"
    by (rule ihc_ip.register_run [OF assms(1) st]) blast
  note n = ihc_ip.register_own [OF assms(1) st, of "ctx_of_hart me" junk True]
  show ?thesis
  proof (cases "r < 5 \<or> 6 < r")
    case True
    then show ?thesis by (simp add: sbi_ecall_ihc_handler_def Let_def r_def)
  next
    case False
    note c = ctx_of_channel_cases(1) [OF False]
    show ?thesis
    proof (cases "ctx_of_channel r = other (ctx_of_hart me)")
      case True
      then show ?thesis
        using False u by (simp add: sbi_ecall_ihc_handler_def Let_def r_def [symmetric] context_of_hart [OF assms(4)] c)
    next
      case g: False
      then show ?thesis
        using False n own [OF g]
        by (simp add: sbi_ecall_ihc_handler_def Let_def r_def [symmetric] context_of_hart [OF assms(4)] c)
    qed
  qed
qed

theorem registration_faults_on_own_channel_witness:
  "\<exists>t. HSS_IHCInit (ihc_fabric (min 4 4) 2) (idle_ihc (\<lambda>_. 0)) = Some t \<and>
    sbi_ecall_ihc_handler (ihc_fabric (min 4 4) 2) (replicate 20 0) 2 SBI_EXT_IHC_CTX_INIT 5 0 t = None"
proof -
  obtain t where t: "HSS_IHCInit (ihc_fabric (min 4 4) 2) (idle_ihc (\<lambda>_. 0)) = Some t"
    by (rule ihc_ip.init_run [OF fab.ihc_ip_axioms [of 4 2] idle_ihc_shape])
  have c: "unat (ucast (5 :: u64) :: u32) = 5" by simp
  have "map_option fst (sbi_ecall_ihc_handler (ihc_fabric (min 4 4) 2) (replicate 20 0) 2 SBI_EXT_IHC_CTX_INIT 5 0 t) = None"
    using registration_faults_on_own_channel [OF fab.ihc_ip_axioms [of 4 2] idle_ihc_shape t, of 2 "replicate 20 0" 5 0]
    unfolding c by (simp add: is_u54_iff ctx_of_channel_def ctx_of_hart_def)
  then show ?thesis using t by simp
qed

end
