(* ===== verification/Loader.thy ===== *)
theory Loader
  imports Ymodem Qspi Mmc Ddr
begin

text \<open>
  The menu around the receiver, \<open>services/ymodem/hss_ymodem_loader.c\<close>: a file is received into
  DDR and written to the flash or to the card. The serial line is the one of theory
  \<open>Ymodem\<close>; while the menu waits, a poll without a byte is skipped. The DDR layout, the card's
  driver and the flash driver are parameters. Of the output, \<open>verdicts\<close> keeps whether each
  command ended with FAILED.
\<close>

section \<open>Data\<close>

text \<open>The card: the selected medium, what the two attempts to initialise it return, and the write of
  one block.\<close>

record 'd Card_Driver =
  selected :: mmc_medium
  first_try :: "'d \<Rightarrow> bool"
  second_try :: "'d \<Rightarrow> bool"
  single_block_write :: "'d block_write"

record ('d, 's) Loader_Env =
  layout :: DDR_Layout
  card_driver :: "'d Card_Driver"
  flash_driver :: "'s Flash_Driver"

record ('d, 's) Loader =
  serial :: line
  ddr :: memory
  disk :: 'd
  qspi :: "'s Qspi"
  initialized :: bool
  receivedCount :: u32
  verdicts :: "bool list"

section \<open>Operations\<close>

text \<open>\<open>initialized\<close> is a static variable; the result of the first call is not kept.\<close>

definition hss_loader_qspi_init :: "('d, 's) Loader_Env \<Rightarrow> ('d, 's) Loader \<Rightarrow> bool \<times> ('d, 's) Loader" where
  "hss_loader_qspi_init E L =
     (if \<not> initialized L then
        let (result, q) = HSS_QSPIInit (flash_driver E) (qspi L)
        in (result, L\<lparr>qspi := q, initialized := True\<rparr>)
      else (False, L))"

definition hss_loader_qspi_program :: "('d, 's) Loader_Env \<Rightarrow> u64 \<Rightarrow> u64 \<Rightarrow> u64 \<Rightarrow> ('d, 's) Loader
    \<Rightarrow> (bool \<times> ('d, 's) Loader) option" where
  "hss_loader_qspi_program E pBuffer wrAddr cnt L = do {
     (result, q) \<leftarrow> HSS_QSPI_WriteBlock (flash_driver E) (unat wrAddr) (mem_read (ddr L) pBuffer (unat cnt)) (unat cnt) (qspi L);
     Some (result, L\<lparr>qspi := q\<rparr>) }"

definition hss_loader_qspi_erase :: "('d, 's) Loader_Env \<Rightarrow> ('d, 's) Loader \<Rightarrow> (bool \<times> ('d, 's) Loader) option" where
  "hss_loader_qspi_erase E L = do {
     q \<leftarrow> HSS_QSPI_FlashChipErase (flash_driver E) (qspi L);
     Some (True, L\<lparr>qspi := q\<rparr>) }"

definition hss_loader_mmc_init :: "('d, 's) Loader_Env \<Rightarrow> ('d, 's) Loader \<Rightarrow> bool" where
  "hss_loader_mmc_init E L =
     HSS_MMCInit (selected (card_driver E)) (first_try (card_driver E) (disk L)) (second_try (card_driver E) (disk L))"

definition hss_loader_mmc_program :: "('d, 's) Loader_Env \<Rightarrow> u64 \<Rightarrow> u64 \<Rightarrow> u64 \<Rightarrow> ('d, 's) Loader
    \<Rightarrow> (bool \<times> ('d, 's) Loader) option" where
  "hss_loader_mmc_program E pBuffer wrAddr cnt L = do {
     (result, d) \<leftarrow> HSS_MMC_WriteBlock (single_block_write (card_driver E)) wrAddr pBuffer cnt (ddr L) (disk L);
     Some (result, L\<lparr>disk := d\<rparr>) }"

text \<open>\<open>ymodem_receive (pBuffer, g_rx_size)\<close> on the DDR.\<close>

definition receive_to_ddr :: "u64 \<Rightarrow> u32 \<Rightarrow> ('d, 's) Loader \<Rightarrow> ('d, 's) Loader option" where
  "receive_to_ddr pBuffer g_rx_size L = do {
     (n, io, buf) \<leftarrow> ymodem_receive (serial L) (mem_read (ddr L) pBuffer (unat g_rx_size)) (unat g_rx_size);
     Some (L\<lparr>serial := io, ddr := mem_write (ddr L) pBuffer buf, receivedCount := of_nat n\<rparr>) }"

definition report :: "bool \<Rightarrow> ('d, 's) Loader \<Rightarrow> ('d, 's) Loader" where
  "report result L = L\<lparr>verdicts := verdicts L @ [result]\<rparr>"

text \<open>The \<open>switch\<close> of the menu on the keys \<open>1\<close> to \<open>6\<close>; the first component is \<open>done\<close>.\<close>

definition loader_select :: "('d, 's) Loader_Env \<Rightarrow> u8 \<Rightarrow> ('d, 's) Loader \<Rightarrow> (bool \<times> ('d, 's) Loader) option" where
  "loader_select E rx_byte L =
     (let pBuffer = HSS_DDR_GetStart (layout E);
          g_rx_size = ucast (HSS_DDR_GetSize (layout E))
      in if rx_byte = 0x31 then
           (let (result, L) = hss_loader_qspi_init E L
            in if result then do {
                 (result, L) \<leftarrow> hss_loader_qspi_erase E L;
                 Some (False, report result L) }
               else Some (False, report False L))
         else if rx_byte = 0x32 then Some (False, report (hss_loader_mmc_init E L) L)
         else if rx_byte = 0x33 then do {
           L \<leftarrow> receive_to_ddr pBuffer g_rx_size L;
           Some (False, report (receivedCount L \<noteq> 0) L) }
         else if rx_byte = 0x34 then
           (let (result, L) = hss_loader_qspi_init E L
            in if result then do {
                 (result, L) \<leftarrow> hss_loader_qspi_program E pBuffer 0 (ucast (receivedCount L)) L;
                 Some (False, report result L) }
               else Some (False, report False L))
         else if rx_byte = 0x35 then
           (if hss_loader_mmc_init E L then do {
              (result, L) \<leftarrow> hss_loader_mmc_program E pBuffer 0 (ucast (receivedCount L)) L;
              Some (False, report result L) }
            else Some (False, report False L))
         else if rx_byte = 0x36 then Some (True, L)
         else Some (False, L))"

text \<open>\<open>uart_getchar (&rx_byte, -1, false)\<close> blocks: nothing is left to read when it waits for ever.\<close>

fun wait_key :: "u8 option list \<Rightarrow> (u8 \<times> u8 option list) option" where
  "wait_key [] = None"
| "wait_key (None # cs) = wait_key cs"
| "wait_key (Some k # cs) = Some (k, cs)"

lemma wait_key_pause: "wait_key (replicate k None @ cs) = wait_key cs"
  by (induction k) simp_all

lemma wait_key_length: "wait_key cs = Some (k, cs') \<Longrightarrow> length cs' < length cs"
  by (induction cs rule: wait_key.induct) auto

lemma select_rx:
  assumes "loader_select E k L = Some (done, L')"
  shows "length (rx (serial L')) \<le> length (rx (serial L))"
  using assms
  by (auto simp: loader_select_def Let_def hss_loader_qspi_init_def hss_loader_qspi_erase_def
      hss_loader_qspi_program_def hss_loader_mmc_program_def receive_to_ddr_def report_def
      split: if_splits prod.splits bind_splits dest: ymodem_receive_rx)

lemma key_consumed:
  assumes "wait_key (rx (serial L)) = Some (k, cs)"
    and "loader_select E k (L\<lparr>serial := (serial L)\<lparr>rx := cs\<rparr>\<rparr>) = Some (done, L')"
  shows "length (rx (serial L')) < length (rx (serial L))"
  using select_rx [OF assms(2)] wait_key_length [OF assms(1)] by simp

text \<open>The loop; the flag tells whether it was left by \<open>Quit\<close> or waits for a key for ever.\<close>

function hss_loader_ymodem_loop :: "('d, 's) Loader_Env \<Rightarrow> ('d, 's) Loader \<Rightarrow> (bool \<times> ('d, 's) Loader) option" where
  "hss_loader_ymodem_loop E L =
     (case wait_key (rx (serial L)) of
        None \<Rightarrow> Some (False, L)
      | Some (k, cs) \<Rightarrow>
          (case loader_select E k (L\<lparr>serial := (serial L)\<lparr>rx := cs\<rparr>\<rparr>) of
             None \<Rightarrow> None
           | Some (done, L') \<Rightarrow> if done then Some (True, L') else hss_loader_ymodem_loop E L'))"
  by pat_completeness auto
termination
  by (relation "measure (\<lambda>(E, L). length (rx (serial L)))") (auto intro: key_consumed)

declare hss_loader_ymodem_loop.simps [simp del]

section \<open>Writing sectors\<close>

text \<open>What the driver promises for the sectors of a card.\<close>

definition card_stores :: "(nat \<Rightarrow> u8) block_write \<Rightarrow> nat \<Rightarrow> bool" where
  "card_stores wr cap \<longleftrightarrow> cap < 2 ^ 32 \<and>
     (\<forall>bs s d. length bs = 512 \<longrightarrow> unat s < cap \<longrightarrow> wr bs s d = (True, store_at (512 * unat s) bs d))"

definition writable_card :: "(nat \<Rightarrow> u8) block_write" where
  "writable_card bs s d = (True, store_at (512 * unat s) bs d)"

lemma writable_card_stores: "cap < 2 ^ 32 \<Longrightarrow> card_stores writable_card cap"
  by (simp add: card_stores_def writable_card_def)

lemma store_at_append: "store_at (off + length xs) ys (store_at off xs d) = store_at off (xs @ ys) d"
  by (auto simp: store_at_def fun_eq_iff nth_append)

lemma write_sectors_stores:
  assumes "card_stores wr cap"
  shows "length bs = 512 * n \<Longrightarrow> unat s + n \<le> cap \<Longrightarrow>
    write_sectors wr bs s n d = (True, store_at (512 * unat s) bs d)"
proof (induction n arbitrary: bs s d)
  case 0
  then show ?case by (auto simp: store_at_def fun_eq_iff)
next
  case (Suc n)
  have cap: "cap < 2 ^ 32" using assms by (simp add: card_stores_def)
  then have s: "unat (s + 1) = unat s + 1" using Suc.prems(2) by (simp add: unat_word_ariths)
  have l: "length (take 512 bs) = 512" using Suc.prems(1) by simp
  have w: "wr (take 512 bs) s d = (True, store_at (512 * unat s) (take 512 bs) d)"
    using assms l Suc.prems(2) by (simp add: card_stores_def)
  have "write_sectors wr (drop 512 bs) (s + 1) n (store_at (512 * unat s) (take 512 bs) d) =
      (True, store_at (512 * unat (s + 1)) (drop 512 bs) (store_at (512 * unat s) (take 512 bs) d))"
    using Suc.prems s by (intro Suc.IH) simp_all
  moreover have "512 * unat (s + 1) = 512 * unat s + length (take 512 bs)" unfolding s l by simp
  ultimately show ?case
    using w store_at_append [of "512 * unat s" "take 512 bs" "drop 512 bs" d] by simp
qed

lemma sectors_of:
  fixes k :: nat
  shows "k mod 512 = 0 \<Longrightarrow> 512 * ((k + 511) div 512) = k"
    and "k mod 512 \<noteq> 0 \<Longrightarrow> (k + 512) div 512 = (k + 511) div 512"
proof -
  assume z: "k mod 512 = 0"
  then have "(k + 511) div 512 = k div 512"
    by (intro div_nat_eqI) (simp_all add: mult.commute minus_mod_eq_mult_div [symmetric])
  then show "512 * ((k + 511) div 512) = k" using z by (simp add: minus_mod_eq_mult_div [symmetric])
next
  assume n: "k mod 512 \<noteq> 0"
  then have e: "512 * (k div 512) + k mod 512 = k" "0 < k mod 512" "k mod 512 < 512" by simp_all
  have a: "512 * (q + 1) \<le> j + 511" "j + 511 < 512 * Suc (q + 1)"
    if "512 * q + r = j" "0 < r" "r < 512" for q r j :: nat
    using that by auto
  have "(k + 511) div 512 = k div 512 + 1"
    by (rule div_nat_eqI) (rule a [OF e])+
  then show "(k + 512) div 512 = (k + 511) div 512" by simp
qed

lemma round_up_unat:
  assumes "unat n < 2 ^ 32"
  shows "unat (round_up_sector n) = 512 * ((unat n + 511) div 512)"
proof (cases "n AND 511 = 0")
  case True
  then have "unat n mod 512 = 0" by (simp add: and_511)
  then have "512 * ((unat n + 511) div 512) = unat n" by (rule sectors_of)
  then show ?thesis using True by (simp add: round_up_sector_def)
next
  case False
  then have m: "unat n mod 512 \<noteq> 0" by (simp add: and_511)
  have "(x :: u64) AND NOT 511 = push_bit 9 (drop_bit 9 x)" for x
  proof -
    have "x AND NOT (mask 9) = push_bit 9 (drop_bit 9 x)" by (rule bit_word_eqI) (auto simp: bit_simps)
    moreover have "(511 :: u64) = mask 9" by (simp add: mask_numeral)
    ultimately show ?thesis by (simp only:)
  qed
  then have "unat ((n + 512) AND NOT 511) = unat (push_bit 9 (drop_bit 9 (n + 512)))" by simp
  also have "\<dots> = 512 * (unat (n + 512) div 512)"
  proof -
    have "unat (drop_bit 9 (n + 512)) = unat (n + 512) div 512" by (simp add: drop_bit_eq_div unat_div)
    moreover have "512 * (unat (n + 512) div 512) < 2 ^ 64"
      by (rule le_less_trans [OF times_div_less_eq_dividend]) (use unsigned_less [of "n + 512"] in simp)
    ultimately show ?thesis by (simp add: push_bit_eq_mult unat_word_ariths)
  qed
  also have "unat (n + 512) = unat n + 512" using assms by (simp add: unat_word_ariths)
  also have "(unat n + 512) div 512 = (unat n + 511) div 512" using m by (rule sectors_of)
  finally show ?thesis using False by (simp add: round_up_sector_def)
qed

section \<open>The commands\<close>

lemma card_write:
  assumes "card_stores (single_block_write (card_driver E)) cap" "pBuffer AND 3 = 0"
    and "unat cnt < 2 ^ 32" "(unat cnt + 511) div 512 \<le> cap"
  shows "hss_loader_mmc_program E pBuffer 0 cnt L =
    Some (True, L\<lparr>disk := store_at 0 (mem_read (ddr L) pBuffer (512 * ((unat cnt + 511) div 512))) (disk L)\<rparr>)"
proof -
  let ?n = "(unat cnt + 511) div 512"
  have r: "unat (round_up_sector cnt) = 512 * ?n" using round_up_unat [OF assms(3)] .
  then have a: "round_up_sector cnt AND 511 = 0" by (simp add: and_511)
  have "write_sectors (single_block_write (card_driver E)) (mem_read (ddr L) pBuffer (512 * ?n)) 0 ?n (disk L) =
      (True, store_at (512 * unat (0 :: u32)) (mem_read (ddr L) pBuffer (512 * ?n)) (disk L))"
    using assms(4) by (intro write_sectors_stores [OF assms(1)]) simp_all
  then show ?thesis
    using a assms(2) by (simp add: hss_loader_mmc_program_def HSS_MMC_WriteBlock_def Let_def require_def r)
qed

lemma program_total:
  assumes "pBuffer AND 3 = 0" "unat cnt < 2 ^ 32"
  shows "\<exists>ok d. hss_loader_mmc_program E pBuffer 0 cnt L = Some (ok, L\<lparr>disk := d\<rparr>)"
proof -
  have "round_up_sector cnt AND 511 = 0" using round_up_unat [OF assms(2)] by (simp add: and_511)
  then show ?thesis
    using assms(1) by (auto simp: hss_loader_mmc_program_def HSS_MMC_WriteBlock_def Let_def require_def
        split: prod.splits)
qed

lemma receive_total:
  "\<exists>io m n. receive_to_ddr pBuffer g L = Some (L\<lparr>serial := io, ddr := m, receivedCount := of_nat n\<rparr>) \<and>
    n \<le> unat g \<and> (\<forall>x. (\<forall>k < unat g. x \<noteq> pBuffer + of_nat k) \<longrightarrow> m x = ddr L x)"
proof -
  let ?buf = "mem_read (ddr L) pBuffer (unat g)"
  have "unat g < 2 ^ 32" using unsigned_less [of g] by simp
  then have "length ?buf \<le> 2 ^ 63" by simp
  then obtain n io buf where "ymodem_receive (serial L) ?buf (length ?buf) = Some (n, io, buf)"
    "n \<le> length ?buf" "length buf = length ?buf"
    using receiver_in_buffer by blast
  then show ?thesis
    by (intro exI [of _ io] exI [of _ "mem_write (ddr L) pBuffer buf"] exI [of _ n])
      (simp add: receive_to_ddr_def mem_write_other)
qed

text \<open>Once the flash has been initialised, a command always returns and leaves it alone, and only the
  DDR is written.\<close>

definition in_ddr :: "('d, 's) Loader_Env \<Rightarrow> u64 \<Rightarrow> bool" where
  "in_ddr E x \<longleftrightarrow> (\<exists>k < unat (ucast (HSS_DDR_GetSize (layout E)) :: u32). x = HSS_DDR_GetStart (layout E) + of_nat k)"

definition keeps :: "('d, 's) Loader_Env \<Rightarrow> ('d, 's) Loader \<Rightarrow> ('d, 's) Loader \<Rightarrow> bool" where
  "keeps E L L' \<longleftrightarrow> initialized L' \<and> qspi L' = qspi L \<and> (\<forall>x. \<not> in_ddr E x \<longrightarrow> ddr L' x = ddr L x)"

lemma keeps_trans: "keeps E L L' \<Longrightarrow> keeps E L' L'' \<Longrightarrow> keeps E L L''"
  by (simp add: keeps_def)

lemma select_keeps:
  assumes "initialized L" "HSS_DDR_GetStart (layout E) AND 3 = 0"
  shows "\<exists>done L'. loader_select E k L = Some (done, L') \<and> keeps E L L'"
proof -
  have c: "unat (ucast (receivedCount L) :: u64) < 2 ^ 32"
    using unsigned_less [of "receivedCount L"] by (simp add: unat_ucast_up)
  obtain ok d where p: "hss_loader_mmc_program E (HSS_DDR_GetStart (layout E)) 0 (ucast (receivedCount L)) L =
      Some (ok, L\<lparr>disk := d\<rparr>)"
    using program_total [OF assms(2) c, of E L] by blast
  obtain io m n where r: "receive_to_ddr (HSS_DDR_GetStart (layout E)) (ucast (HSS_DDR_GetSize (layout E))) L =
      Some (L\<lparr>serial := io, ddr := m, receivedCount := of_nat n\<rparr>)" "\<forall>x. \<not> in_ddr E x \<longrightarrow> m x = ddr L x"
    using receive_total [of "HSS_DDR_GetStart (layout E)" "ucast (HSS_DDR_GetSize (layout E))" L]
    unfolding in_ddr_def by blast
  show ?thesis
    using assms(1) p r by (auto simp: loader_select_def Let_def hss_loader_qspi_init_def keeps_def report_def)
qed

lemma loop_simps:
  "wait_key (rx (serial L)) = None \<Longrightarrow> hss_loader_ymodem_loop E L = Some (False, L)"
  "wait_key (rx (serial L)) = Some (k, cs) \<Longrightarrow>
    loader_select E k (L\<lparr>serial := (serial L)\<lparr>rx := cs\<rparr>\<rparr>) = Some (don, L') \<Longrightarrow>
    hss_loader_ymodem_loop E L = (if don then Some (True, L') else hss_loader_ymodem_loop E L')"
  by (simp_all add: hss_loader_ymodem_loop.simps [of E L])

lemma loop_keeps:
  "HSS_DDR_GetStart (layout E) AND 3 = 0 \<Longrightarrow> initialized L \<Longrightarrow>
    \<exists>done L'. hss_loader_ymodem_loop E L = Some (done, L') \<and> keeps E L L'"
proof (induction E L rule: hss_loader_ymodem_loop.induct)
  case (1 E L)
  show ?case
  proof (cases "wait_key (rx (serial L))")
    case None
    then show ?thesis
      using "1.prems" by (intro exI [of _ False] exI [of _ L]) (simp add: loop_simps keeps_def)
  next
    case (Some kc)
    then obtain k cs where kc: "wait_key (rx (serial L)) = Some (k, cs)" by (cases kc) simp
    let ?L = "L\<lparr>serial := (serial L)\<lparr>rx := cs\<rparr>\<rparr>"
    obtain don L1 where s: "loader_select E k ?L = Some (don, L1)" "keeps E ?L L1"
      using select_keeps [of ?L E k] "1.prems" by auto
    have k: "keeps E L L1" using s(2) by (simp add: keeps_def)
    show ?thesis
    proof (cases don)
      case True
      then show ?thesis
        using loop_simps(2) [OF kc s(1)] k by (intro exI [of _ True] exI [of _ L1]) simp
    next
      case False
      have "\<exists>d L2. hss_loader_ymodem_loop E L1 = Some (d, L2) \<and> keeps E L1 L2"
        using "1.IH" [OF kc refl s(1) refl False "1.prems"(1)] k by (simp add: keeps_def)
      then show ?thesis using loop_simps(2) [OF kc s(1)] False keeps_trans [OF k] by auto
    qed
  qed
qed

text \<open>A file that arrives is in the DDR.\<close>

lemma file_received:
  assumes name: "\<forall>c \<in> set name. c \<noteq> 0" "length name + 1 + length (decimal (length file)) < 128"
    and data: "file \<noteq> []" "concat blocks = file @ padding" "\<forall>ds \<in> set blocks. length ds = 1024"
    and room: "1024 * length blocks < unat g"
    and rx: "rx (serial L) = session name (length file) blocks @ rest" "set (take 5 rest) \<subseteq> {None}"
  shows "\<exists>io m. receive_to_ddr pBuffer g L = Some (L\<lparr>serial := io, ddr := m, receivedCount := of_nat (length file)\<rparr>) \<and>
    rx io = drop 5 rest \<and> (\<forall>j < length file. m (pBuffer + of_nat j) = file ! j)"
proof -
  let ?buf = "mem_read (ddr L) pBuffer (unat g)"
  have g: "unat g < 2 ^ 32" using unsigned_less [of g] by simp
  have l: "length (concat blocks) = 1024 * length blocks" using data(3) by (induction blocks) auto
  then have n: "0 < length file" "length file \<le> 1024 * length blocks" using data(1,2) by auto
  obtain io where io: "ymodem_receive (serial L) ?buf (unat g) =
      Some (length file, io, splice ?buf 0 (concat blocks))" "rx io = drop 5 rest"
    using session_received [OF name n data(3), of ?buf rest "tx (serial L)"] room g rx by (cases "serial L") auto
  have "mem_write (ddr L) pBuffer (splice ?buf 0 (concat blocks)) (pBuffer + of_nat j) = file ! j"
    if "j < length file" for j
  proof -
    have "length (splice ?buf 0 (concat blocks)) = unat g" using l room by (simp add: splice_def)
    then have "mem_write (ddr L) pBuffer (splice ?buf 0 (concat blocks)) (pBuffer + of_nat j) =
        splice ?buf 0 (concat blocks) ! j"
      using that n(2) room g by (intro mem_write_nth) simp_all
    also have "\<dots> = file ! j" using that data(2) by (simp add: splice_def nth_append)
    finally show ?thesis .
  qed
  then show ?thesis
    using io by (intro exI [of _ io] exI [of _ "mem_write (ddr L) pBuffer (splice ?buf 0 (concat blocks))"])
      (simp add: receive_to_ddr_def)
qed

section \<open>Properties\<close>

text \<open>
  C25. From the line to the card: key \<open>3\<close>, a file sent by a correct sender, a pause, key \<open>5\<close> and key
  \<open>6\<close> leave the menu with the file at the start of the card and both commands reported as
  successful. The file is strictly smaller than the DDR as the 32 bits of \<open>g_rx_size\<close> hold
  it, the card takes it, and what lies behind its last sector is untouched.
\<close>

theorem loader_puts_file_on_card:
  assumes "\<forall>c \<in> set name. c \<noteq> 0" and "length name + 1 + length (decimal (length file)) < 128"
    and "file \<noteq> []" and "concat blocks = file @ padding" and "\<forall>ds \<in> set blocks. length ds = 1024"
    and "1024 * length blocks < unat (ucast (HSS_DDR_GetSize (layout E)) :: u32)"
    and "HSS_DDR_GetStart (layout E) AND 3 = 0"
    and "selected (card_driver E) = MMC_SELECT_SDCARD_ONLY" and "\<forall>d. first_try (card_driver E) d"
    and "card_stores (single_block_write (card_driver E)) cap" and "(length file + 511) div 512 \<le> cap"
    and "rx (serial L) = Some 0x33 # session name (length file) blocks @ replicate (5 + k) None @ [Some 0x35, Some 0x36]"
  shows "\<exists>L'. hss_loader_ymodem_loop E L = Some (True, L') \<and> verdicts L' = verdicts L @ [True, True] \<and>
    (\<forall>j < length file. disk L' j = file ! j) \<and>
    (\<forall>j. 512 * ((length file + 511) div 512) \<le> j \<longrightarrow> disk L' j = disk L j)"
proof -
  let ?rest = "replicate (5 + k) None @ [Some 0x35, Some 0x36]"
  let ?start = "HSS_DDR_GetStart (layout E)" and ?g = "ucast (HSS_DDR_GetSize (layout E)) :: u32"
  let ?n = "length file" and ?s = "(length file + 511) div 512"
  define L1 where "L1 = L\<lparr>serial := (serial L)\<lparr>rx := session name ?n blocks @ ?rest\<rparr>\<rparr>"
  have l: "length (concat blocks) = 1024 * length blocks" using assms(5) by (induction blocks) auto
  then have n: "0 < ?n" "?n \<le> 1024 * length blocks" using assms(3,4) by auto
  have g: "unat ?g < 2 ^ 32" using unsigned_less [of ?g] by simp
  have q: "set (take 5 ?rest) \<subseteq> {None}" "drop 5 ?rest = replicate k None @ [Some 0x35, Some 0x36]" by auto
  obtain io m where r: "receive_to_ddr ?start ?g L1 = Some (L1\<lparr>serial := io, ddr := m, receivedCount := of_nat ?n\<rparr>)"
    "rx io = replicate k None @ [Some 0x35, Some 0x36]" "\<forall>j < ?n. m (?start + of_nat j) = file ! j"
    using file_received [OF assms(1-6), of L1 ?rest ?start] q by (auto simp: L1_def)
  have un: "unat (of_nat ?n :: u32) = ?n"
    unfolding unat_of_nat using n(2) assms(6) g by (intro mod_less) simp
  then have nz: "(of_nat ?n :: u32) \<noteq> 0" using n(1) by (metis unsigned_0 less_irrefl)
  define L2 where "L2 = report True (L1\<lparr>serial := io, ddr := m, receivedCount := of_nat ?n\<rparr>)"
  have s1: "loader_select E 0x33 L1 = Some (False, L2)"
    using r(1) nz by (simp add: loader_select_def Let_def L2_def)
  define L3 where "L3 = L2\<lparr>serial := io\<lparr>rx := [Some 0x36]\<rparr>\<rparr>"
  define L4 where "L4 = report True (L3\<lparr>disk := store_at 0 (mem_read m ?start (512 * ?s)) (disk L)\<rparr>)"
  have c: "unat (ucast (receivedCount L3) :: u64) = ?n" using un by (simp add: L3_def L2_def report_def unat_ucast_up)
  have "hss_loader_mmc_program E ?start 0 (ucast (receivedCount L3)) L3 =
      Some (True, L3\<lparr>disk := store_at 0 (mem_read (ddr L3) ?start (512 * ?s)) (disk L3)\<rparr>)"
    using card_write [OF assms(10,7), of "ucast (receivedCount L3)" L3] assms(6,11) n(2) g unfolding c by simp
  moreover have "hss_loader_mmc_init E L3" using assms(8,9) by (simp add: hss_loader_mmc_init_def HSS_MMCInit_def mmc_init_common_def)
  ultimately have s2: "loader_select E 0x35 L3 = Some (False, L4)"
    by (simp add: loader_select_def Let_def L4_def L3_def L2_def L1_def report_def)
  have w1: "wait_key (rx (serial L)) = Some (0x33, session name ?n blocks @ ?rest)" using assms(12) by simp
  have w2: "wait_key (rx (serial L2)) = Some (0x35, [Some 0x36])"
    using r(2) by (simp add: L2_def report_def wait_key_pause)
  have e: "L2\<lparr>serial := (serial L2)\<lparr>rx := [Some 0x36]\<rparr>\<rparr> = L3" by (simp add: L3_def L2_def report_def)
  have "hss_loader_ymodem_loop E L = hss_loader_ymodem_loop E L2"
    using loop_simps(2) [OF w1 s1 [unfolded L1_def]] by simp
  also have "\<dots> = hss_loader_ymodem_loop E L4"
    using loop_simps(2) [OF w2, unfolded e, OF s2] by simp
  also have "\<dots> = Some (True, L4\<lparr>serial := (serial L4)\<lparr>rx := []\<rparr>\<rparr>)"
    by (subst loop_simps(2) [where k = "0x36" and cs = "[]" and don = True])
      (simp_all add: L4_def L3_def report_def loader_select_def Let_def)
  finally show ?thesis
    using r(3) n(2)
    by (auto simp: L4_def L3_def L2_def L1_def report_def store_at_def nth_mem_read)
qed

definition sd_card :: "(nat \<Rightarrow> u8) Card_Driver" where
  "sd_card = \<lparr>selected = MMC_SELECT_SDCARD_ONLY, first_try = \<lambda>_. True, second_try = \<lambda>_. True,
     single_block_write = writable_card\<rparr>"

definition kit_env :: "(nat \<Rightarrow> u8, Chip_View Nand) Loader_Env" where
  "kit_env = \<lparr>layout = \<lparr>ddr_start = 0x80000000, ddr_size = 0x2000000, ddrhi_start = 0x1000000000, ddrhi_size = 0x70000000\<rparr>,
     card_driver = sd_card, flash_driver = winbond_driver (w25_xfer (\<lambda>_. False) (\<lambda>_. False))\<rparr>"

definition menu_start :: "bool \<Rightarrow> u8 option list \<Rightarrow> (nat \<Rightarrow> u8, Chip_View Nand) Loader" where
  "menu_start i keys = \<lparr>serial = \<lparr>rx = keys, tx = []\<rparr>, ddr = (\<lambda>_. 0), disk = (\<lambda>_. 0xFF), qspi = qspi_reset w25_fresh,
     initialized = i, receivedCount = 0, verdicts = []\<rparr>"

lemma kit_env_simps [simp]:
  "HSS_DDR_GetStart (layout kit_env) = 0x80000000" "HSS_DDR_GetSize (layout kit_env) = 0x2000000"
  "card_driver kit_env = sd_card" "selected sd_card = MMC_SELECT_SDCARD_ONLY" "first_try sd_card d"
  "single_block_write sd_card = writable_card"
  by (simp_all add: kit_env_def sd_card_def HSS_DDR_GetStart_def HSS_DDR_GetSize_def)

theorem loader_puts_file_on_card_witness:
  "\<exists>L'. hss_loader_ymodem_loop kit_env
      (menu_start False (Some 0x33 # session [0x61] 3 [[7, 8, 9] @ replicate 1021 0x1A] @ replicate (5 + 2) None @ [Some 0x35, Some 0x36])) =
      Some (True, L') \<and> disk L' 0 = 7 \<and> disk L' 1 = 8 \<and> disk L' 2 = 9 \<and> disk L' 512 = 0xFF"
proof -
  let ?L = "menu_start False (Some 0x33 # session [0x61] 3 [[7, 8, 9] @ replicate 1021 0x1A] @ replicate (5 + 2) None @ [Some 0x35, Some 0x36])"
  have "\<exists>L'. hss_loader_ymodem_loop kit_env ?L = Some (True, L') \<and> verdicts L' = verdicts ?L @ [True, True] \<and>
    (\<forall>j < length [7, 8, 9 :: u8]. disk L' j = [7, 8, 9] ! j) \<and>
    (\<forall>j. 512 * ((length [7, 8, 9 :: u8] + 511) div 512) \<le> j \<longrightarrow> disk L' j = disk ?L j)"
    by (rule loader_puts_file_on_card [of "[0x61]" "[7, 8, 9]" "[[7, 8, 9] @ replicate 1021 0x1A]" "replicate 1021 0x1A"
          kit_env 1 ?L 2])
      (simp_all add: decimal.simps writable_card_stores menu_start_def numeral_3_eq_3)
  then show ?thesis by (elim ex_forward) (force simp: menu_start_def nth_Cons')
qed

text \<open>
  Once the flash has been initialised, the menu never goes wrong, whatever arrives: it quits or
  waits, it writes no memory but the DDR, and it never touches the flash again. So the flash
  cannot be written after it has been erased, as \<open>hss_loader_qspi_init\<close> fails from the second
  call on.
\<close>

theorem loader_total_and_flash_once:
  assumes "initialized L" "HSS_DDR_GetStart (layout E) AND 3 = 0"
  shows "\<exists>quit L'. hss_loader_ymodem_loop E L = Some (quit, L') \<and> qspi L' = qspi L \<and>
    (\<forall>x. \<not> in_ddr E x \<longrightarrow> ddr L' x = ddr L x)"
  using loop_keeps [OF assms(2,1)] by (auto simp: keeps_def)

theorem loader_total_and_flash_once_witness:
  "\<exists>quit L'. hss_loader_ymodem_loop kit_env (menu_start True [Some 0x34, None, Some 0x35, Some 0x33, Some 1]) = Some (quit, L') \<and>
    qspi L' = qspi_reset w25_fresh \<and> ddr L' 0x1000 = 0"
proof -
  let ?L = "menu_start True [Some 0x34, None, Some 0x35, Some 0x33, Some 1]"
  have "\<exists>quit L'. hss_loader_ymodem_loop kit_env ?L = Some (quit, L') \<and> qspi L' = qspi ?L \<and>
    (\<forall>x. \<not> in_ddr kit_env x \<longrightarrow> ddr L' x = ddr ?L x)"
    by (rule loader_total_and_flash_once) (simp_all add: menu_start_def)
  moreover have "\<not> in_ddr kit_env 0x1000"
  proof
    assume "in_ddr kit_env 0x1000"
    then obtain k where k: "k < 0x2000000" "(0x1000 :: u64) = 0x80000000 + of_nat k"
      by (auto simp: in_ddr_def)
    then have "unat (0x80000000 + of_nat k :: u64) = 0x80000000 + k" by (simp add: unat_word_ariths unat_of_nat)
    then show False using k(2) [symmetric] by simp
  qed
  ultimately show ?thesis by (auto simp: menu_start_def)
qed

text \<open>Writing the card with nothing received is reported as a success.\<close>

lemma loader_programs_nothing:
  assumes "hss_loader_mmc_init E L" "receivedCount L = 0" "HSS_DDR_GetStart (layout E) AND 3 = 0"
  shows "loader_select E 0x35 L = Some (False, report True L)"
  using assms by (simp add: loader_select_def Let_def hss_loader_mmc_program_def HSS_MMC_WriteBlock_def
      round_up_sector_def require_def)

end
