(* ===== verification/Scrub.thy ===== *)
theory Scrub
  imports Startup Memcpy
begin

text \<open>
  The memory scrubber \<open>services/scrub/scrub_service.c\<close>: so that the ECC corrects single-bit errors
  before a second one joins them, every word of the configured memories is read in turn, a piece per pass
  of the monitor. The reads are kept in a log. The service is off for the kit; the memories and the
  numbers of its \<open>Kconfig\<close> are parameters.
\<close>

section \<open>Data\<close>

record ram =
  baseAddr :: u64
  endAddr :: u64
  use_atomic_or :: bool

record Scrub_Config =
  rams :: "ram list"
  max_size_per_loop :: u64
  run_every :: nat
  scrub_caches :: bool
  trigger_setpoint :: nat

record Scrub_World = Bus_World +
  offset :: u64
  idx :: nat
  entryCount :: nat
  trigger_cache_flush :: nat
  last_peer :: hart_id
  touched :: "(u64 \<times> bool) list"

definition scrub_start :: "IPI_Data \<Rightarrow> HSS_Triggers \<Rightarrow> u64 \<Rightarrow> Scrub_World" where
  "scrub_start d t now = \<lparr>bw_ipi = d, bw_triggers = t, bw_now = now, offset = 0, idx = 0, entryCount = 0,
     trigger_cache_flush = 0, last_peer = HSS_HART_U54_1, touched = []\<rparr>"

section \<open>Operations\<close>

text \<open>The loop over the words from \<open>chunkStartAddr\<close> up to \<open>chunkEndAddr\<close>.\<close>

definition touch_words :: "u64 \<Rightarrow> u64 \<Rightarrow> bool \<Rightarrow> (u64 \<times> bool) list" where
  "touch_words chunkStartAddr chunkEndAddr atomic =
     (if chunkStartAddr < chunkEndAddr
      then map (\<lambda>j. (chunkStartAddr + 8 * of_nat j, atomic)) [0..<(unat (chunkEndAddr - chunkStartAddr) + 7) div 8]
      else [])"

definition scrub_piece :: "Scrub_Config \<Rightarrow> Scrub_World \<Rightarrow> Scrub_World option" where
  "scrub_piece cfg w = do {
     require (idx w < length (rams cfg));
     let r = rams cfg ! idx w;
     let w = (if baseAddr r + offset w \<ge> endAddr r
              then w\<lparr>idx := (idx w + 1) mod length (rams cfg), offset := 0\<rparr> else w);
     let r = rams cfg ! idx w;
     let len = endAddr r - baseAddr r;
     let chunkSize = min (max_size_per_loop cfg) (len - offset w);
     let chunkStartAddr = baseAddr r + offset w;
     let chunkEndAddr = chunkStartAddr + chunkSize;
     Some (if len \<noteq> 0
           then w\<lparr>touched := touched w @ touch_words chunkStartAddr chunkEndAddr (use_atomic_or r),
                  offset := offset w + chunkSize\<rparr>
           else w) }"

text \<open>The caches of the other harts, one hart each time; the flush of the L2 cache leaves no state.\<close>

definition scrub_flush :: "Scrub_Config \<Rightarrow> Scrub_World \<Rightarrow> Scrub_World option" where
  "scrub_flush cfg w =
     (if trigger_cache_flush w > trigger_setpoint cfg then do {
        (r, d) \<leftarrow> IPI_Send HSS_HART_E51 (last_peer w) IPI_MSG_SCRUB 0 0 0 0 (bw_ipi w);
        let peer = last_peer w + 1;
        Some (w\<lparr>bw_ipi := d, trigger_cache_flush := 0,
                last_peer := (if peer \<ge> HSS_HART_NUM_PEERS then HSS_HART_U54_1 else peer)\<rparr>) }
      else Some (w\<lparr>trigger_cache_flush := trigger_cache_flush w + 1\<rparr>))"

definition scrub_pass :: "Scrub_Config \<Rightarrow> Scrub_World \<Rightarrow> Scrub_World option" where
  "scrub_pass cfg w = do {
     w \<leftarrow> (if rams cfg \<noteq> [] \<and> entryCount w = 0 then scrub_piece cfg w else Some w);
     w \<leftarrow> (if scrub_caches cfg then scrub_flush cfg w else Some w);
     Some (w\<lparr>entryCount := (entryCount w + 1) mod run_every cfg\<rparr>) }"

definition scrub_init_handler :: "Scrub_World hook" where
  "scrub_init_handler m w =
     Some (if HSS_Trigger_IsNotified True EVENT_DDR_TRAINED (bw_triggers w) then m\<lparr>state := state m + 1\<rparr> else m, w)"

definition scrub_scrubbing_handler :: "Scrub_Config \<Rightarrow> Scrub_World hook" where
  "scrub_scrubbing_handler cfg m w = map_option (Pair m) (scrub_pass cfg w)"

definition scrub_state_descs :: "Scrub_Config \<Rightarrow> Scrub_World StateDesc list" where
  "scrub_state_descs cfg =
     [\<lparr>sd_state = 0, state_onEntry = None, state_onExit = None, state_handler = Some scrub_init_handler\<rparr>,
      \<lparr>sd_state = 1, state_onEntry = None, state_onExit = None, state_handler = Some (scrub_scrubbing_handler cfg)\<rparr>]"

text \<open>On a hart that is asked to flush its caches.\<close>

definition Scrub_IPIHandler :: "'x ipi_handler" where
  "Scrub_IPIHandler txid source imm ext anc w = Some (IPI_IDLE, w)"

definition scrub_service :: StateMachine where
  "scrub_service = machine_init 2"

section \<open>The machine is safe\<close>

definition scrub_ok :: "Scrub_Config \<Rightarrow> Scrub_World \<Rightarrow> bool" where
  "scrub_ok cfg w \<longleftrightarrow> bus_world_ok w \<and> (rams cfg \<noteq> [] \<longrightarrow> idx w < length (rams cfg)) \<and>
     HSS_HART_U54_1 \<le> last_peer w \<and> last_peer w < HSS_HART_NUM_PEERS"

lemma scrub_piece_total:
  "scrub_ok cfg w \<Longrightarrow> rams cfg \<noteq> [] \<Longrightarrow> \<exists>w'. scrub_piece cfg w = Some w' \<and> scrub_ok cfg w'"
  by (auto simp: scrub_piece_def scrub_ok_def bus_world_ok_def require_def Let_def)

lemma scrub_flush_total: "scrub_ok cfg w \<Longrightarrow> \<exists>w'. scrub_flush cfg w = Some w' \<and> scrub_ok cfg w'"
  using IPI_Send_wf [of "bw_ipi w" HSS_HART_E51 "last_peer w" IPI_MSG_SCRUB 0 0 0 0]
  by (auto simp: scrub_flush_def scrub_ok_def bus_world_ok_def Let_def)

lemma scrub_pass_total:
  assumes "scrub_ok cfg w"
  shows "\<exists>w'. scrub_pass cfg w = Some w' \<and> scrub_ok cfg w'"
proof -
  obtain w1 where 1: "(if rams cfg \<noteq> [] \<and> entryCount w = 0 then scrub_piece cfg w else Some w) = Some w1" "scrub_ok cfg w1"
    using scrub_piece_total [OF assms] assms by (cases "rams cfg \<noteq> [] \<and> entryCount w = 0") auto
  obtain w2 where 2: "(if scrub_caches cfg then scrub_flush cfg w1 else Some w1) = Some w2" "scrub_ok cfg w2"
    using scrub_flush_total [OF 1(2)] 1(2) by (cases "scrub_caches cfg") auto
  have "scrub_ok cfg (w2\<lparr>entryCount := e\<rparr>)" for e using 2(2) by (simp add: scrub_ok_def bus_world_ok_def)
  then show ?thesis using 1(1) 2(1) by (simp add: scrub_pass_def)
qed

lemma length_scrub [simp]: "length (scrub_state_descs cfg) = 2"
  by (simp add: scrub_state_descs_def)

interpretation scrub: plain_service "scrub_state_descs cfg" "scrub_ok cfg" False
proof unfold_locales
  fix i assume "i < length (scrub_state_descs cfg)"
  then have "i = 0 \<or> i = 1" by auto
  then show "\<exists>f. scrub_state_descs cfg ! i =
      \<lparr>sd_state = int i, state_onEntry = None, state_onExit = None, state_handler = Some f\<rparr>"
    by (elim disjE) (simp_all add: scrub_state_descs_def)
next
  fix i f and w :: Scrub_World and m :: StateMachine
  assume i: "i < length (scrub_state_descs cfg)" "state_handler (scrub_state_descs cfg ! i) = Some f"
    and m: "state m = int i" "numStates m \<le> length (scrub_state_descs cfg)" and w: "scrub_ok cfg w"
  have "i = 0 \<or> i = 1" using i(1) by auto
  then show "case f m w of None \<Rightarrow> False | Some (m', w') \<Rightarrow> machine_ok (scrub_state_descs cfg) m' \<and> scrub_ok cfg w'"
  proof
    assume "i = 0"
    then show ?thesis using i(2) m w by (auto simp: scrub_state_descs_def scrub_init_handler_def machine_ok_def)
  next
    assume 1: "i = 1"
    obtain w' where "scrub_pass cfg w = Some w'" "scrub_ok cfg w'" using scrub_pass_total [OF w] by blast
    then show ?thesis
      using i(2) m 1 by (auto simp: scrub_state_descs_def scrub_scrubbing_handler_def machine_ok_def)
  qed
qed

fun passes :: "('w \<Rightarrow> 'w option) \<Rightarrow> nat \<Rightarrow> 'w \<Rightarrow> 'w option" where
  "passes f 0 w = Some w"
| "passes f (Suc n) w = do { w \<leftarrow> f w; passes f n w }"

lemma passes_append: "passes f m w = Some w1 \<Longrightarrow> passes f (m + n) w = passes f n w1"
  by (induction m arbitrary: w) (auto simp: bind_eq_Some_conv)

text \<open>In its second state the machine is the iteration of \<open>scrub_pass\<close>.\<close>

lemma machine_scrubs:
  assumes "machine_ok (scrub_state_descs cfg) m" "state m = 1" "scrub_ok cfg w"
  shows "\<exists>m' w'. run_times (scrub_state_descs cfg) ts m w = Some (m', w') \<and> passes (scrub_pass cfg) (length ts) w = Some w'"
  using assms
proof (induction ts arbitrary: m w)
  case (Cons t ts)
  obtain a b where t: "t = (a, b)" by (cases t)
  obtain w1 where w1: "scrub_pass cfg w = Some w1" "scrub_ok cfg w1" using scrub_pass_total [OF Cons.prems(3)] by blast
  obtain m1 where m1: "RunStateMachine (scrub_state_descs cfg) a b m w = Some (m1, w1)"
      "machine_ok (scrub_state_descs cfg) m1" "state m1 = 1"
  proof -
    have h: "scrub.handler_of cfg 1 = scrub_scrubbing_handler cfg"
      unfolding scrub.handler_of_def by (simp add: scrub_state_descs_def)
    show ?thesis
      using that scrub.step_is_handler [OF Cons.prems(1), of a b w] Cons.prems(1,2) w1
      by (auto simp: h scrub_scrubbing_handler_def machine_ok_def stamp_end_def stamp_begin_def Let_def)
  qed
  then show ?case using Cons.IH [OF m1(2,3) w1(2)] w1(1) t by simp
qed simp

section \<open>What the pieces touch\<close>

definition ram_size :: "ram \<Rightarrow> nat" where
  "ram_size r = unat (endAddr r - baseAddr r)"

definition region_words :: "ram \<Rightarrow> nat \<Rightarrow> nat \<Rightarrow> (u64 \<times> bool) list" where
  "region_words r a b = map (\<lambda>j. (baseAddr r + 8 * of_nat j, use_atomic_or r)) [a div 8 ..< b div 8]"

definition scrub_cfg_ok :: "Scrub_Config \<Rightarrow> bool" where
  "scrub_cfg_ok cfg \<longleftrightarrow> rams cfg \<noteq> [] \<and> (\<forall>r \<in> set (rams cfg). baseAddr r < endAddr r \<and> 8 dvd ram_size r) \<and>
     0 < max_size_per_loop cfg \<and> 8 dvd unat (max_size_per_loop cfg) \<and> 0 < run_every cfg"

lemma upt_meet: "a \<le> b \<Longrightarrow> b \<le> c \<Longrightarrow> [a..<b] @ [b..<c] = [a..<c]"
  using upt_add_eq_append [of a b "c - b"] by simp

lemma region_words_append: "a \<le> b \<Longrightarrow> b \<le> c \<Longrightarrow> region_words r a b @ region_words r b c = region_words r a c"
  unfolding region_words_def map_append [symmetric] by (simp add: upt_meet div_le_mono)

lemma region_words_shift:
  assumes "8 dvd a" "8 dvd s"
  shows "region_words r a (a + s) =
    map (\<lambda>j. (baseAddr r + of_nat a + 8 * of_nat j, use_atomic_or r)) [0..<(s + 7) div 8]"
proof -
  obtain k l where kl: "a = 8 * k" "s = 8 * l" using assms by (auto elim!: dvdE)
  have "[k..<k + l] = map (\<lambda>i. i + k) [0..<l]" by (simp add: map_add_upt add.commute)
  then show ?thesis by (simp add: region_words_def kl algebra_simps del: upt_conv_Nil)
qed

lemma ram_size_less:
  assumes "baseAddr r < endAddr r"
  shows "unat (baseAddr r) + ram_size r = unat (endAddr r)"
  using assms by (simp add: ram_size_def unat_sub_if_size word_less_nat_alt)

lemma piece_step:
  assumes cfg: "scrub_cfg_ok cfg" and i: "i < length (rams cfg)" "idx w = i" "unat (offset w) = a"
    and a: "a < ram_size (rams cfg ! i)" "8 dvd a"
    and c: "c = a + min (unat (max_size_per_loop cfg)) (ram_size (rams cfg ! i) - a)"
  shows "\<exists>w'. scrub_piece cfg w = Some w' \<and> idx w' = i \<and> unat (offset w') = c \<and> entryCount w' = entryCount w \<and>
    touched w' = touched w @ region_words (rams cfg ! i) a c"
proof -
  let ?r = "rams cfg ! i" and ?o = "offset w"
  let ?len = "endAddr ?r - baseAddr ?r"
  let ?s = "min (max_size_per_loop cfg) (?len - ?o)" and ?n = "min (unat (max_size_per_loop cfg)) (ram_size ?r - a)"
  have r: "baseAddr ?r < endAddr ?r" "8 dvd ram_size ?r" using cfg i(1) by (auto simp: scrub_cfg_ok_def)
  note z = ram_size_less [OF r(1)]
  have e: "unat (endAddr ?r) < 2 ^ 64" using unsigned_less [of "endAddr ?r"] by simp
  have b: "unat (baseAddr ?r + ?o) = unat (baseAddr ?r) + a"
    using z a(1) e i(3) by (simp add: unat_word_ariths)
  have stay: "\<not> endAddr ?r \<le> baseAddr ?r + ?o" unfolding word_le_nat_alt b using z a(1) by simp
  have l: "?len \<noteq> 0" using r(1) by simp
  have lo: "unat (?len - ?o) = ram_size ?r - a"
    using a(1) i(3) by (simp add: ram_size_def unat_sub_if_size)
  have s: "unat ?s = ?n" using lo by (auto simp: min_def word_le_nat_alt)
  have n: "?n \<le> ram_size ?r - a" "8 dvd ?n" "0 < ?n"
    using cfg a r(2) by (auto simp: scrub_cfg_ok_def min_def word_less_nat_alt dvd_diff_nat)
  have "unat (baseAddr ?r + ?o + ?s) = unat (baseAddr ?r) + a + ?n"
    using z n(1) a(1) e b s by (simp add: unat_word_ariths(1) [of "baseAddr ?r + ?o"])
  then have lt: "baseAddr ?r + ?o < baseAddr ?r + ?o + ?s" unfolding word_less_nat_alt b using n(3) by simp
  have o: "of_nat a = ?o" using i(3) by auto
  have t: "touch_words (baseAddr ?r + ?o) (baseAddr ?r + ?o + ?s) (use_atomic_or ?r) = region_words ?r a c"
    unfolding c region_words_shift [OF a(2) n(2)] using lt by (simp add: touch_words_def o s del: upt_conv_Nil)
  have "unat (?o + ?s) = c"
    using n(1) a(1) i(3) s c z e by (simp add: unat_word_ariths(1) [of ?o])
  then show ?thesis
    using i(1,2) stay l t by (simp add: scrub_piece_def Let_def require_def)
qed

lemma piece_wrap:
  assumes "scrub_cfg_ok cfg" "i < length (rams cfg)" "idx w = i" "unat (offset w) = ram_size (rams cfg ! i)"
  shows "scrub_piece cfg w = scrub_piece cfg (w\<lparr>idx := (i + 1) mod length (rams cfg), offset := 0\<rparr>)"
proof -
  have n: "\<not> endAddr r \<le> baseAddr r" if "r \<in> set (rams cfg)" for r using assms(1) that by (auto simp: scrub_cfg_ok_def)
  have "offset w = endAddr (rams cfg ! i) - baseAddr (rams cfg ! i)"
    using assms(4) by (simp add: ram_size_def word_unat_eq_iff)
  then have e: "endAddr (rams cfg ! i) \<le> baseAddr (rams cfg ! i) + offset w" by simp
  have l: "(i + 1) mod length (rams cfg) < length (rams cfg)" using assms(2) by (auto intro: mod_less_divisor)
  show ?thesis
    using e n [OF nth_mem [OF l]] l assms(2,3) by (simp add: scrub_piece_def Let_def require_def)
qed

section \<open>Passes with the throttle\<close>

definition same_place :: "Scrub_World \<Rightarrow> Scrub_World \<Rightarrow> bool" where
  "same_place w w' \<longleftrightarrow> idx w' = idx w \<and> offset w' = offset w \<and> touched w' = touched w"

lemma scrub_flush_place: "scrub_flush cfg w = Some w' \<Longrightarrow> same_place w w' \<and> entryCount w' = entryCount w"
  by (auto simp: scrub_flush_def same_place_def Let_def split: if_splits bind_splits prod.splits)

lemma pass_place:
  assumes "scrub_ok cfg w" "rams cfg \<noteq> []"
  shows "\<exists>w'. scrub_pass cfg w = Some w' \<and> scrub_ok cfg w' \<and> entryCount w' = (entryCount w + 1) mod run_every cfg \<and>
    (if entryCount w = 0 then \<exists>w1. scrub_piece cfg w = Some w1 \<and> same_place w1 w' else same_place w w')"
proof -
  obtain w' where w': "scrub_pass cfg w = Some w'" "scrub_ok cfg w'" using scrub_pass_total [OF assms(1)] by blast
  obtain p where p: "scrub_piece cfg w = Some p" using scrub_piece_total [OF assms] by blast
  have e: "entryCount p = entryCount w" using p by (auto simp: scrub_piece_def Let_def split: if_splits bind_splits)
  show ?thesis
    using w' p e scrub_flush_place [of cfg p] scrub_flush_place [of cfg w] assms(2)
    by (auto simp: scrub_pass_def same_place_def split: if_splits bind_splits)
qed

lemma idle_passes:
  assumes "rams cfg \<noteq> []" "scrub_ok cfg w" "entryCount w = run_every cfg - n" "n < run_every cfg" "0 < n"
  shows "\<exists>w'. passes (scrub_pass cfg) n w = Some w' \<and> scrub_ok cfg w' \<and> same_place w w' \<and> entryCount w' = 0"
  using assms
proof (induction n arbitrary: w)
  case (Suc n)
  obtain w1 where w1: "scrub_pass cfg w = Some w1" "scrub_ok cfg w1" "same_place w w1"
    "entryCount w1 = (run_every cfg - Suc n + 1) mod run_every cfg"
    using pass_place [OF Suc.prems(2,1)] Suc.prems(3,4) by auto
  show ?case
  proof (cases "n = 0")
    case True
    then show ?thesis using w1 Suc.prems(4) by simp
  next
    case False
    then have "entryCount w1 = run_every cfg - n" using w1(4) Suc.prems(4) by simp
    then show ?thesis
      using Suc.IH [of w1] w1 Suc.prems(1,4) False by (auto simp: same_place_def)
  qed
qed simp

text \<open>\<open>run_every\<close> passes are one piece.\<close>

lemma round_is_piece:
  assumes "scrub_cfg_ok cfg" "scrub_ok cfg w" "entryCount w = 0"
  shows "\<exists>w1 w'. scrub_piece cfg w = Some w1 \<and> passes (scrub_pass cfg) (run_every cfg) w = Some w' \<and> same_place w1 w' \<and>
    scrub_ok cfg w' \<and> entryCount w' = 0"
proof -
  have n: "rams cfg \<noteq> []" "0 < run_every cfg" using assms(1) by (auto simp: scrub_cfg_ok_def)
  obtain w1 w2 where w: "scrub_piece cfg w = Some w1" "scrub_pass cfg w = Some w2" "same_place w1 w2" "scrub_ok cfg w2"
    "entryCount w2 = 1 mod run_every cfg"
    using pass_place [OF assms(2) n(1)] assms(3) by auto
  show ?thesis
  proof (cases "run_every cfg = 1")
    case True
    then show ?thesis using w by simp
  next
    case False
    then have "entryCount w2 = run_every cfg - (run_every cfg - 1)" using w(5) n(2) by simp
    then obtain w' where "passes (scrub_pass cfg) (run_every cfg - 1) w2 = Some w'" "scrub_ok cfg w'" "same_place w2 w'"
      "entryCount w' = 0"
      using idle_passes [OF n(1) w(4), of "run_every cfg - 1"] False n(2) by auto
    moreover have "passes (scrub_pass cfg) (run_every cfg) w = passes (scrub_pass cfg) (run_every cfg - 1) w2"
      using passes_append [of "scrub_pass cfg" 1 w w2 "run_every cfg - 1"] w(2) n(2) by simp
    ultimately show ?thesis using w(1,3) by (auto simp: same_place_def)
  qed
qed

section \<open>A whole tour\<close>

definition pieces_of :: "Scrub_Config \<Rightarrow> nat \<Rightarrow> nat" where
  "pieces_of cfg n = (n + unat (max_size_per_loop cfg) - 1) div unat (max_size_per_loop cfg)"

lemma pieces_more:
  assumes "0 < unat (max_size_per_loop cfg)" "unat (max_size_per_loop cfg) < n"
  shows "pieces_of cfg n = Suc (pieces_of cfg (n - unat (max_size_per_loop cfg)))"
proof -
  have "n + m - 1 = (n - m + m - 1) + m" if "0 < m" "m < n" for m :: nat using that by simp
  then have "pieces_of cfg n = (n - unat (max_size_per_loop cfg) + unat (max_size_per_loop cfg) - 1 +
      unat (max_size_per_loop cfg)) div unat (max_size_per_loop cfg)"
    unfolding pieces_of_def using assms by metis
  then show ?thesis unfolding pieces_of_def using assms(1) by (simp only: div_add_self2 Suc_eq_plus1)
qed

text \<open>The scrubber stands behind the last word of memory \<open>i\<close>.\<close>

definition stands_behind :: "Scrub_Config \<Rightarrow> nat \<Rightarrow> Scrub_World \<Rightarrow> bool" where
  "stands_behind cfg i w \<longleftrightarrow> scrub_ok cfg w \<and> entryCount w = 0 \<and> idx w = i \<and> unat (offset w) = ram_size (rams cfg ! i)"

lemma rest_of_region:
  assumes "scrub_cfg_ok cfg" "i < length (rams cfg)"
  shows "scrub_ok cfg w \<Longrightarrow> entryCount w = 0 \<Longrightarrow> idx w = i \<Longrightarrow> unat (offset w) = a \<Longrightarrow>
    a < ram_size (rams cfg ! i) \<Longrightarrow> 8 dvd a \<Longrightarrow>
    \<exists>w'. passes (scrub_pass cfg) (run_every cfg * pieces_of cfg (ram_size (rams cfg ! i) - a)) w = Some w' \<and>
      stands_behind cfg i w' \<and> touched w' = touched w @ region_words (rams cfg ! i) a (ram_size (rams cfg ! i))"
proof (induction "ram_size (rams cfg ! i) - a" arbitrary: w a rule: less_induct)
  case less
  let ?r = "rams cfg ! i" and ?m = "unat (max_size_per_loop cfg)"
  let ?c = "a + min ?m (ram_size ?r - a)"
  have m: "0 < ?m" "8 dvd ?m" "8 dvd ram_size ?r"
    using assms by (auto simp: scrub_cfg_ok_def word_less_nat_alt)
  obtain w1 where p: "scrub_piece cfg w = Some w1" "idx w1 = i" "unat (offset w1) = ?c"
    "touched w1 = touched w @ region_words ?r a ?c"
    using piece_step [OF assms less.prems(3-6) refl] by blast
  then obtain w2 where w2: "passes (scrub_pass cfg) (run_every cfg) w = Some w2" "scrub_ok cfg w2" "entryCount w2 = 0"
    "idx w2 = i" "unat (offset w2) = ?c" "touched w2 = touched w @ region_words ?r a ?c"
    using round_is_piece [OF assms(1) less.prems(1,2)] by (auto simp: same_place_def)
  show ?case
  proof (cases "ram_size ?r - a \<le> ?m")
    case True
    then have "pieces_of cfg (ram_size ?r - a) = 1" "?c = ram_size ?r"
      using less.prems(5) m(1) by (auto simp: pieces_of_def intro!: div_nat_eqI)
    then show ?thesis using w2 by (simp add: stands_behind_def)
  next
    case False
    then have c: "?c = a + ?m" by simp
    have d: "pieces_of cfg (ram_size ?r - a) = Suc (pieces_of cfg (ram_size ?r - (a + ?m)))"
      using pieces_more [of cfg "ram_size ?r - a"] m(1) False by simp
    have "\<exists>w'. passes (scrub_pass cfg) (run_every cfg * pieces_of cfg (ram_size ?r - (a + ?m))) w2 = Some w' \<and>
        stands_behind cfg i w' \<and> touched w' = touched w2 @ region_words ?r (a + ?m) (ram_size ?r)"
      by (rule less.hyps) (use w2 c less.prems(6) m False in simp_all)
    then obtain w' where "passes (scrub_pass cfg) (run_every cfg * pieces_of cfg (ram_size ?r - (a + ?m))) w2 = Some w'"
      "stands_behind cfg i w'" "touched w' = touched w2 @ region_words ?r (a + ?m) (ram_size ?r)" by blast
    then show ?thesis
      using passes_append [OF w2(1)] w2(6) False unfolding d c
      by (auto simp: region_words_append)
  qed
qed

definition tour_words :: "ram list \<Rightarrow> (u64 \<times> bool) list" where
  "tour_words rs = concat (map (\<lambda>r. region_words r 0 (ram_size r)) rs)"

definition tour_pieces :: "Scrub_Config \<Rightarrow> ram list \<Rightarrow> nat" where
  "tour_pieces cfg rs = sum_list (map (\<lambda>r. pieces_of cfg (ram_size r)) rs)"

lemma passes_cong:
  assumes "f w = f w2"
  shows "0 < n \<Longrightarrow> passes f n w = passes f n w2"
  using assms by (cases n) simp_all

text \<open>From behind one memory to behind the next.\<close>

lemma next_region:
  assumes cfg: "scrub_cfg_ok cfg" and i: "i < length (rams cfg)" and w: "stands_behind cfg i w"
    and j: "j = (i + 1) mod length (rams cfg)"
  shows "\<exists>w'. passes (scrub_pass cfg) (run_every cfg * pieces_of cfg (ram_size (rams cfg ! j))) w = Some w' \<and>
    stands_behind cfg j w' \<and> touched w' = touched w @ region_words (rams cfg ! j) 0 (ram_size (rams cfg ! j))"
proof -
  let ?w = "w\<lparr>idx := j, offset := 0\<rparr>"
  have jl: "j < length (rams cfg)" unfolding j using i by (auto intro: mod_less_divisor)
  then have r: "baseAddr (rams cfg ! j) < endAddr (rams cfg ! j)" using cfg by (auto simp: scrub_cfg_ok_def)
  then have pos: "0 < ram_size (rams cfg ! j)" using ram_size_less [OF r] by (simp add: word_less_nat_alt)
  have ok: "scrub_ok cfg ?w" "entryCount ?w = 0"
    using w jl by (auto simp: stands_behind_def scrub_ok_def bus_world_ok_def)
  obtain w' where w': "passes (scrub_pass cfg) (run_every cfg * pieces_of cfg (ram_size (rams cfg ! j))) ?w = Some w'"
    "stands_behind cfg j w'" "touched w' = touched w @ region_words (rams cfg ! j) 0 (ram_size (rams cfg ! j))"
    using rest_of_region [OF cfg jl ok, of 0] pos by auto
  have "scrub_piece cfg w = scrub_piece cfg ?w"
    using piece_wrap [OF cfg i, of w] w j by (simp add: stands_behind_def)
  then have same: "scrub_pass cfg w = scrub_pass cfg ?w"
    using w i by (auto simp: scrub_pass_def stands_behind_def)
  have "0 < unat (max_size_per_loop cfg)" using cfg by (simp add: scrub_cfg_ok_def word_less_nat_alt)
  then have "0 < pieces_of cfg (ram_size (rams cfg ! j))" using pos by (simp add: pieces_of_def div_greater_zero_iff)
  then have "0 < run_every cfg * pieces_of cfg (ram_size (rams cfg ! j))" using cfg by (simp add: scrub_cfg_ok_def)
  from passes_cong [OF same this] show ?thesis using w' by auto
qed

lemma tour_part:
  assumes cfg: "scrub_cfg_ok cfg"
  shows "k \<le> length (rams cfg) \<Longrightarrow> stands_behind cfg (length (rams cfg) - 1) w \<Longrightarrow>
    \<exists>w'. passes (scrub_pass cfg) (run_every cfg * tour_pieces cfg (take k (rams cfg))) w = Some w' \<and>
      stands_behind cfg ((length (rams cfg) - 1 + k) mod length (rams cfg)) w' \<and>
      touched w' = touched w @ tour_words (take k (rams cfg))"
proof (induction k)
  case 0
  have "0 < length (rams cfg)" using cfg by (simp add: scrub_cfg_ok_def)
  then show ?case using 0 by (simp add: tour_pieces_def tour_words_def)
next
  case (Suc k)
  let ?n = "length (rams cfg)" and ?i = "(length (rams cfg) - 1 + k) mod length (rams cfg)"
  have k: "k < ?n" using Suc.prems(1) by simp
  obtain w1 where w1: "passes (scrub_pass cfg) (run_every cfg * tour_pieces cfg (take k (rams cfg))) w = Some w1"
    "stands_behind cfg ?i w1" "touched w1 = touched w @ tour_words (take k (rams cfg))"
    using Suc.IH Suc.prems k by auto
  have "(?i + 1) mod ?n = (?n - 1 + k + 1) mod ?n" by (simp only: mod_add_left_eq)
  moreover have "?n - 1 + k + 1 = k + ?n" using k by simp
  ultimately have j: "k = (?i + 1) mod ?n" using k by (simp only: mod_add_self2 mod_less)
  have "?i < ?n" using k by (auto intro: mod_less_divisor)
  then obtain w2 where w2: "passes (scrub_pass cfg) (run_every cfg * pieces_of cfg (ram_size (rams cfg ! k))) w1 = Some w2"
    "stands_behind cfg k w2" "touched w2 = touched w1 @ region_words (rams cfg ! k) 0 (ram_size (rams cfg ! k))"
    using next_region [OF cfg _ w1(2) j] by blast
  have "?n - 1 + Suc k = k + ?n" using k by simp
  then have "(?n - 1 + Suc k) mod ?n = k" using k by (simp only: mod_add_self2 mod_less)
  moreover have "tour_pieces cfg (take (Suc k) (rams cfg)) = tour_pieces cfg (take k (rams cfg)) + pieces_of cfg (ram_size (rams cfg ! k))"
    "tour_words (take (Suc k) (rams cfg)) = tour_words (take k (rams cfg)) @ region_words (rams cfg ! k) 0 (ram_size (rams cfg ! k))"
    using k by (simp_all add: take_Suc_conv_app_nth tour_pieces_def tour_words_def)
  ultimately show ?case
    using passes_append [OF w1(1)] w2 w1(3) by (simp add: distrib_left)
qed

lemma tours:
  assumes cfg: "scrub_cfg_ok cfg"
  shows "stands_behind cfg (length (rams cfg) - 1) w \<Longrightarrow>
    \<exists>w'. passes (scrub_pass cfg) (n * (run_every cfg * tour_pieces cfg (rams cfg))) w = Some w' \<and>
      stands_behind cfg (length (rams cfg) - 1) w' \<and> touched w' = touched w @ concat (replicate n (tour_words (rams cfg)))"
proof (induction n arbitrary: w)
  case (Suc n)
  have "0 < length (rams cfg)" using cfg by (simp add: scrub_cfg_ok_def)
  then have "(length (rams cfg) - 1 + length (rams cfg)) mod length (rams cfg) = length (rams cfg) - 1" by simp
  then obtain w1 where w1: "passes (scrub_pass cfg) (run_every cfg * tour_pieces cfg (rams cfg)) w = Some w1"
    "stands_behind cfg (length (rams cfg) - 1) w1" "touched w1 = touched w @ tour_words (rams cfg)"
    using tour_part [OF cfg order_refl Suc.prems] by auto
  show ?case using Suc.IH [OF w1(2)] passes_append [OF w1(1)] w1(3) by auto
qed simp

section \<open>Properties\<close>

text \<open>
  C32. The scrubber never rests and never strays: from its start, in every number of whole tours it
  has read the words of all memories, each once per tour, in order, and no other address. A tour is
  \<open>run_every\<close> passes for each piece of \<open>max_size_per_loop\<close> bytes; whether the caches are flushed
  on the side makes no difference.
\<close>

theorem scrubber_reads_all_memory:
  assumes "scrub_cfg_ok cfg" and "ipi_wf d"
    and "machine_ok (scrub_state_descs cfg) m" and "state m = 1"
    and "length ts = n * (run_every cfg * tour_pieces cfg (rams cfg))"
  shows "\<exists>m' w'. run_times (scrub_state_descs cfg) ts m (scrub_start d t now) = Some (m', w') \<and>
    touched w' = concat (replicate n (tour_words (rams cfg)))"
proof -
  let ?w = "scrub_start d t now" and ?l = "length (rams cfg) - 1"
  let ?v = "?w\<lparr>idx := ?l, offset := endAddr (rams cfg ! ?l) - baseAddr (rams cfg ! ?l)\<rparr>"
  have ne: "0 < length (rams cfg)" using assms(1) by (simp add: scrub_cfg_ok_def)
  have ok: "scrub_ok cfg ?w" "stands_behind cfg ?l ?v"
    using assms(2) ne by (simp_all add: scrub_ok_def scrub_start_def bus_world_ok_def stands_behind_def ram_size_def)
  have "scrub_piece cfg ?v = scrub_piece cfg (?v\<lparr>idx := (?l + 1) mod length (rams cfg), offset := 0\<rparr>)"
    using ne by (intro piece_wrap [OF assms(1)]) (simp_all add: ram_size_def)
  then have "scrub_pass cfg ?v = scrub_pass cfg ?w"
    using ne by (simp add: scrub_pass_def scrub_start_def)
  then have same: "0 < k \<Longrightarrow> passes (scrub_pass cfg) k ?v = passes (scrub_pass cfg) k ?w" for k
    by (rule passes_cong)
  obtain w' where w': "passes (scrub_pass cfg) (length ts) ?v = Some w'" "touched w' = touched ?v @ concat (replicate n (tour_words (rams cfg)))"
    using tours [OF assms(1) ok(2), of n] assms(5) by auto
  obtain m' w'' where r: "run_times (scrub_state_descs cfg) ts m ?w = Some (m', w'')"
    "passes (scrub_pass cfg) (length ts) ?w = Some w''"
    using machine_scrubs [OF assms(3,4) ok(1)] by blast
  show ?thesis
  proof (cases "length ts = 0")
    case True
    then show ?thesis using r w' by (auto simp: scrub_start_def)
  next
    case False
    then have "w'' = w'" using same [of "length ts"] r(2) w'(1) by simp
    then show ?thesis using r(1) w'(2) by (simp add: scrub_start_def)
  qed
qed

definition small_scrub :: Scrub_Config where
  "small_scrub = \<lparr>rams = [\<lparr>baseAddr = 0x08000000, endAddr = 0x08000010, use_atomic_or = True\<rparr>,
       \<lparr>baseAddr = 0x01000000, endAddr = 0x01000018, use_atomic_or = False\<rparr>],
     max_size_per_loop = 16, run_every = 2, scrub_caches = True, trigger_setpoint = 1\<rparr>"

theorem scrubber_reads_all_memory_witness:
  "\<exists>m' w'. run_times (scrub_state_descs small_scrub) (replicate 6 (1, 2)) (scrub_service\<lparr>state := 1\<rparr>)
      (scrub_start bus_init triggerStatus_init 0) = Some (m', w') \<and>
    touched w' = [(0x08000000, True), (0x08000008, True), (0x01000000, False), (0x01000008, False), (0x01000010, False)]"
proof -
  have s: "map ram_size (rams small_scrub) = [16, 24]" by (simp add: small_scrub_def ram_size_def)
  have t: "tour_pieces small_scrub (rams small_scrub) = 3"
    by (simp add: tour_pieces_def pieces_of_def small_scrub_def ram_size_def)
  have w: "concat (replicate 1 (tour_words (rams small_scrub))) =
      [(0x08000000, True), (0x08000008, True), (0x01000000, False), (0x01000008, False), (0x01000010, False)]"
    by (simp add: tour_words_def region_words_def small_scrub_def ram_size_def upt_rec)
  have "\<exists>m' w'. run_times (scrub_state_descs small_scrub) (replicate 6 (1, 2)) (scrub_service\<lparr>state := 1\<rparr>)
      (scrub_start bus_init triggerStatus_init 0) = Some (m', w') \<and>
    touched w' = concat (replicate 1 (tour_words (rams small_scrub)))"
    by (rule scrubber_reads_all_memory)
      (simp_all add: t, simp_all add: scrub_cfg_ok_def small_scrub_def ram_size_def machine_ok_def scrub_service_def
        machine_init_def bus_init_wf)
  then show ?thesis unfolding w .
qed

end
