(* ===== verification/Spec2Isabelle.thy ===== *)
theory Spec2Isabelle
  imports Hss_Base Memtest C_Stubs Tinycli Crc Trigger Pmp State_Machine Ipi_Protocol Ymodem Gpt Perfctr Harts Ddr Boot_Image
    Boot_Service Boot_Safety Boot_Load Boot_Properties Memcpy Watchdog Sgdma Monitors Mmc Boot_Init
    Payload Payload_Boot Yaml_Config Yaml_Properties Dispatch Startup Nand Qspi Ecall Rproc Loader Scrub
begin

text \<open>
  The Hart Software Services (HSS) of the PolarFire SoC: a model of the boot monitor under
  \<open>HSS/\<close> and of the host tool that writes its boot images, with the theorems that make it
  correct. The configuration is the one of the Discovery Kit
  (\<open>boards/mpfs-disco-kit/def_config\<close>), except that the QSPI flash service with its NAND driver
  and the memory scrubber are modelled although that board leaves them out.

  \<^bold>\<open>The program.\<close> Hart 0 (the E51) runs the monitor: after a sequence of initialisation
  functions it loops for ever over a list of state machines, one step each. Harts 1 to 4 (the
  U54s) wait for messages. The monitor finds a boot image on a card, a serial line or a flash,
  loads its chunks for each hart, and tells the harts to leave for the image, directly or
  through OpenSBI, whose machine mode code then serves the running system and passes its
  requests (restart, DMA, messages to the other context) back to the monitor.

  \<^bold>\<open>Conventions.\<close> Machine integers keep their width as words (\<open>u8\<close> to \<open>u64\<close>); a natural
  number stands for a \<open>size_t\<close> or an index whose bound the invariants give. Memory is a total map
  from 64-bit addresses to bytes. A step that asserts, or reads outside an array or through a
  null pointer, is \<open>None\<close> in an option type, so a theorem that a run is \<open>Some\<close> says that this
  does not happen; a status code of the source is a value. Debug output is left out. Time is an
  input: each step is given the two clock readings it takes. Hardware, and vendor code the
  sources only call, is a parameter: a transfer function, a record of operations, or a locale
  whose assumptions are the documented behaviour, with a concrete instance for which the
  interpretation proves them.

  \<^bold>\<open>Theories\<close>, in the order of the call graph.

  \<^item> \<open>Hss_Base\<close>, \<open>Memcpy\<close>: word types, hart ids, memory, byte encodings, assertion and copies
    (\<open>include/hss_types.h\<close>, \<open>modules/misc/hss_memcpy_via_pdma.c\<close>).
  \<^item> \<open>Crc\<close>: \<open>modules/misc/hss_crc16.c\<close>, \<open>hss_crc32.c\<close>. The table driven loops equal the bitwise
    polynomial division, the table is the generated one, and a changed byte changes the checksum.
  \<^item> \<open>Trigger\<close>: \<open>application/hart0/hss_clock.c\<close>, \<open>modules/misc/hss_trigger.c\<close>.
  \<^item> \<open>State_Machine\<close>: \<open>application/hart0/hss_state_machine.c\<close>. The hooks of a machine run in the
    order exit, entry, handler for every table; the locale \<open>machine_contract\<close> says what a table
    must keep so that its machine never leaves it, and is interpreted for the tables of the
    services (\<open>Ddr\<close>, \<open>Boot_Safety\<close>, \<open>Watchdog\<close>, \<open>Monitors\<close>, \<open>Startup\<close>).
  \<^item> \<open>Ipi\<close>, \<open>Ipi_Bus\<close>, \<open>Ipi_Protocol\<close>: the message bus \<open>modules/ssmb/ipi/ssmb_ipi.c\<close>, 20 queues of
    4 slots and 16 transactions. A queue is a bag of at most four messages (locale \<open>mailbox\<close>);
    sends and consumes act on that bag alone; messages are conserved; every interleaving of the
    operations of the five harts keeps the arrays consistent; a transaction that is acknowledged
    completes.
  \<^item> \<open>Pmp\<close>, \<open>Perfctr\<close>, \<open>Harts\<close>, \<open>Ddr\<close>: \<open>services/boot/hss_boot_pmp.c\<close>, \<open>modules/debug/hss_perfctr.c\<close>,
    \<open>application/hart1-4/u54_state.c\<close> with the ledger of \<open>services/opensbi/platform.c\<close>, and
    \<open>services/ddr\<close>.
  \<^item> \<open>Boot_Image\<close>, \<open>Boot_Service\<close>: the image format and the four machines of
    \<open>services/boot/hss_boot_service.c\<close>. \<open>Boot_Safety\<close> gives the invariant of its variables,
    \<open>Boot_Load\<close> shows that the download phase leaves in memory what the chunk table says,
    \<open>Boot_Properties\<close> the interleaving of the machines, the registration of boot sets,
    acknowledgements and time-outs.
  \<^item> \<open>Gpt\<close>, \<open>Mmc\<close>, \<open>Boot_Init\<close>: partition table, card and \<open>init/hss_boot_init.c\<close>: the image of the
    boot partition ends up in memory and is registered.
  \<^item> \<open>Ymodem\<close>: the receiver \<open>services/ymodem/ymodem_protocol.c\<close>. It stops, it stays in its buffer
    whatever arrives, and it delivers the file of a correct sender.
  \<^item> \<open>Loader\<close>: the menu \<open>services/ymodem/hss_ymodem_loader.c\<close> over the receiver, the card and the
    flash: a file sent over the line ends up on the card.
  \<^item> \<open>Nand\<close>, \<open>Qspi\<close>: the Winbond driver over the transfers of the QSPI peripheral, and
    \<open>services/qspi/qspi_api.c\<close> with its map of bad blocks and its cache. The locales
    \<open>w25n01gv\<close> (the chip) and \<open>nand_flash\<close> (a driver) connect them: the second is proved from
    the first, and the service's theorems use only the second.
  \<^item> \<open>Dispatch\<close>, \<open>Startup\<close>: what a hart does with each message
    (\<open>application/hart0/hss_registry.c\<close>, \<open>application/hart1-4/u54_handle_ipi.c\<close>,
    \<open>services/goto\<close>, \<open>services/opensbi\<close>), and the services that start and poll.
  \<^item> \<open>Ihc\<close>, \<open>Ecall\<close>, \<open>Rproc\<close>: the driver of the inter-hart communication IP
    (\<open>baremetal/drivers/fpga_ip/miv_ihc/miv_ihc.c\<close>) and the vendor SBI calls built on it and on
    the bus. For every order of calls the two contexts see a link with one message per
    direction, and a start request reaches the boot machine of the other context.
  \<^item> \<open>Memtest\<close>: \<open>modules/misc/hss_memtest.c\<close>. The memory is a parameter, and so are the keys that
    may interrupt the test; it passes exactly on memories whose cells are independent, and it
    finds a stuck bit.
  \<^item> \<open>Scrub\<close>: \<open>services/scrub/scrub_service.c\<close>, for every choice of memories, piece size and throttle: in
    each tour every word is read once.
  \<^item> \<open>C_Stubs\<close>, \<open>Tinycli\<close>: the string functions of \<open>modules/misc/c_stubs.c\<close> and \<open>strlen.c\<close>, and the
    command line \<open>services/tinycli\<close> built on them with \<open>HSS_ShowTimeout\<close> of
    \<open>modules/misc/hss_progress.c\<close>. A typed line runs the command it names; the console stops for
    two inputs only, and the theorem names them.
  \<^item> \<open>Watchdog\<close>, \<open>Sgdma\<close>, \<open>Monitors\<close>: \<open>services/wdog\<close> with \<open>services/reboot\<close>, \<open>services/sgdma\<close>,
    \<open>services/beu\<close> and \<open>services/healthmon\<close>.
  \<^item> \<open>Payload\<close>, \<open>Payload_Boot\<close>, \<open>Yaml_Config\<close>, \<open>Yaml_Properties\<close>: the host tool
    \<open>tools/hss-payload-generator\<close>: what it writes, that the monitor accepts and loads it, and what
    its configuration file means. The images of accepted configurations pass the monitor's
    validation and are delivered chunk by chunk: this joins the two halves of the repository.

  \<^bold>\<open>Bounds and fuel.\<close> Loops over tables are recursion on the table. The polling loop of the
  NAND driver is bounded by the source (\<open>MAX_SPIN_COUNT\<close>, \<open>2 ^ 24\<close> polls), and the chip locale
  promises fewer polls than that. The YMODEM receiver recurses on the bytes that are left and
  on its retry counter, which is why it is total. Machines run under an explicit number of
  passes; the theorems say how many passes are enough (the download phase: one per sub-chunk
  and chunk). A card image above 32 MiB is outside the theorem of \<open>Boot_Init\<close>, because the code
  does not load it.

  \<^bold>\<open>Granularity.\<close> One bus operation, one driver function of the inter-hart IP and one step of a
  machine are atomic; interleavings are sequences of these. On the hardware the bus relies on
  the same: a queue has one writer and one reader, and each field is written before the one
  that announces it. Two harts that update the control register of one channel at the same
  moment are outside the model.

  \<^bold>\<open>Not modelled\<close>, with the reasons also given in the manifest.

  \<^item> Vendored code the monitor only calls: OpenSBI, libecc, miniz, Kconfiglib, the bare metal
    library with its drivers (MMC, PDMA, QSPI, system services, timers) and the USB driver. What
    the monitor relies on is a parameter or an assumption.
  \<^item> Pure hardware set-up without state of its own (\<open>init/*\<close> except the boot image, the registry
    and the inter-hart IP), assembly, linker scripts, the FPGA designs, Linux files and scripts.
  \<^item> Services that the configuration leaves out: SPI, UART, USB mass storage, power
    modes, crypto, lockdown, GPIO; image signing and compression.
  \<^item> The bodies of the console commands that only print or only call the hardware (memory
    monitors, version, list of segments, USB): the console's theorems take them as a parameter.
  \<^item> Printing: debug output, progress bars, the hex dump, the image dump of the host tool.
\<close>

end
